(* ===== verification/Js_Prelude.thy ===== *)
theory Js_Prelude
  imports Complex_Main "HOL-Library.AList" "HOL-Library.Sublist" "HOL-Library.List_Lexorder"
    "HOL-Library.Char_ord" "HOL-Library.Word"
begin

text \<open>
  The parts of JavaScript and its standard library that every component uses.

  \<^item> A JavaScript string is a sequence of 16-bit code units (\<open>jstr\<close>); \<open>lit\<close> embeds an
    ASCII literal. The library methods the sources call (\<open>slice\<close>, \<open>startsWith\<close>,
    \<open>endsWith\<close>, \<open>lastIndexOf\<close>, \<open>split\<close>, \<open>trim\<close>, \<open>includes\<close>) are list functions.
  \<^item> A \<open>Map\<close> (or an object used as a dictionary) is an association list in insertion order,
    changed by \<open>jset\<close> and \<open>jdel\<close>; \<open>Map.set\<close> on a present key keeps its position, as
    \<^const>\<open>AList.update\<close> does. (Objects list integer-like keys first; no result below
    depends on the order in which an object's keys are listed.)
  \<^item> A JSON value is \<open>json\<close>. Numbers are rationals: every finite double is one, and
    the sources only compare them.

  The locale \<open>dictionary\<close> is the contract of \<open>Map\<close>; the association list operations are
  its interpretation \<open>jm\<close>, and the loops that fill a map in a \<open>for\<close> statement are
  described once, inside the locale.
\<close>

named_theorems js_defs \<open>definitions of library functions, for evaluation\<close>

section \<open>Strings as code units\<close>

type_synonym jstr = "16 word list"

definition lit :: "string \<Rightarrow> jstr" where
  "lit s = map (\<lambda>c. word_of_nat (of_char c)) s"

lemma unat_unit_of_char [simp]: "unat (word_of_nat (of_char c) :: 16 word) = of_char c"
proof -
  have "of_char c < (2::nat) ^ 16"
    by (rule less_trans [OF nat_of_char_less_256]) simp
  then show ?thesis by (simp add: unat_of_nat take_bit_eq_mod)
qed

lemma unit_of_char_inject [simp]:
  "(word_of_nat (of_char c) = (word_of_nat (of_char d) :: 16 word)) \<longleftrightarrow> c = d"
  by (metis of_char_eq_iff unat_unit_of_char)

lemma unit_of_char_less [simp]:
  "((word_of_nat (of_char c) :: 16 word) < word_of_nat (of_char d)) \<longleftrightarrow> c < d"
  by (simp add: word_less_nat_alt less_char_def)

lemma lit_Nil [simp]: "lit [] = []"
  by (simp add: lit_def)

lemma lit_eq_Nil [simp]: "lit s = [] \<longleftrightarrow> s = []" "[] = lit s \<longleftrightarrow> s = []"
  by (auto simp: lit_def)

lemma lit_inject [simp]: "lit s = lit t \<longleftrightarrow> s = t"
  by (simp add: lit_def inj_map_eq_map inj_def)

lemma lit_append [simp]: "lit s @ lit t = lit (s @ t)"
  by (simp add: lit_def)

lemma take_lit [simp]: "take n (lit s) = lit (take n s)"
  by (simp add: lit_def take_map)

lemma drop_lit [simp]: "drop n (lit s) = lit (drop n s)"
  by (simp add: lit_def drop_map)

lemma length_lit [simp]: "length (lit s) = length s"
  by (simp add: lit_def)

lemma lit_less [simp]: "lit s < lit t \<longleftrightarrow> s < t"
proof (induction s arbitrary: t)
  case Nil
  then show ?case by (cases t) (auto simp: lit_def)
next
  case (Cons c s)
  then show ?case by (cases t) (auto simp: lit_def)
qed

lemma lit_less_eq [simp]: "lit s \<le> lit t \<longleftrightarrow> s \<le> t"
  by (auto simp: order.order_iff_strict)

subsection \<open>Methods of strings\<close>

definition slice :: "'a list \<Rightarrow> nat \<Rightarrow> nat \<Rightarrow> 'a list" where
  [js_defs]: "slice s a b = take (b - a) (drop a s)"

definition startsWith :: "'a list \<Rightarrow> 'a list \<Rightarrow> bool" where
  [js_defs]: "startsWith s p \<longleftrightarrow> take (length p) s = p"

definition endsWith :: "'a list \<Rightarrow> 'a list \<Rightarrow> bool" where
  [js_defs]: "endsWith s p \<longleftrightarrow> length p \<le> length s \<and> drop (length s - length p) s = p"

text \<open>\<open>s.lastIndexOf(c)\<close> for a one-unit \<open>c\<close>: \<open>-1\<close> when absent.\<close>

fun lastIndexOf :: "'a list \<Rightarrow> 'a \<Rightarrow> int" where
  "lastIndexOf [] c = -1"
| "lastIndexOf (x # xs) c =
     (let r = lastIndexOf xs c in if r \<ge> 0 then r + 1 else if x = c then 0 else -1)"

text \<open>\<open>s.split(c)\<close> for a one-unit separator; the empty string splits into one empty part.\<close>

fun splitOn :: "'a \<Rightarrow> 'a list \<Rightarrow> 'a list list" where
  "splitOn c [] = [[]]"
| "splitOn c (x # xs) =
     (if x = c then [] # splitOn c xs
      else (case splitOn c xs of y # ys \<Rightarrow> (x # y) # ys | [] \<Rightarrow> [[x]]))"

fun includesStr :: "'a list \<Rightarrow> 'a list \<Rightarrow> bool" where
  "includesStr [] p = (p = [])"
| "includesStr (x # xs) p = (startsWith (x # xs) p \<or> includesStr xs p)"

text \<open>White space and line terminators, as \<open>trim\<close> and \<open>\s\<close> know them.\<close>

definition isSpace :: "16 word \<Rightarrow> bool" where
  [js_defs]: "isSpace u \<longleftrightarrow> (9 \<le> u \<and> u \<le> 13) \<or> u = 32 \<or> u = 0xA0 \<or> u = 0x1680
     \<or> (0x2000 \<le> u \<and> u \<le> 0x200A) \<or> u = 0x2028 \<or> u = 0x2029 \<or> u = 0x202F \<or> u = 0x205F
     \<or> u = 0x3000 \<or> u = 0xFEFF"

definition trim :: "jstr \<Rightarrow> jstr" where
  [js_defs]: "trim s = rev (dropWhile isSpace (rev (dropWhile isSpace s)))"

lemma startsWith_prefix: "startsWith s p \<longleftrightarrow> prefix p s"
  by (metis append_eq_conv_conj append_take_drop_id prefix_def startsWith_def)

lemma endsWith_suffix: "endsWith s p \<longleftrightarrow> suffix p s"
proof
  assume "endsWith s p"
  then have "s = take (length s - length p) s @ p"
    by (metis append_take_drop_id endsWith_def)
  then show "suffix p s" by (metis suffixI)
qed (auto simp: endsWith_def suffix_def)

lemma endsWith_append [simp]: "endsWith (s @ p) p"
  by (simp add: endsWith_def)

lemma startsWith_append [simp]: "startsWith (p @ s) p"
  by (simp add: startsWith_def)

lemma lastIndexOf_absent: "c \<notin> set s \<Longrightarrow> lastIndexOf s c = -1"
  by (induction s) auto

lemma lastIndexOf_ge: "-1 \<le> lastIndexOf s c"
  by (induction s) (auto simp: Let_def)

lemma lastIndexOf_less: "lastIndexOf s c < int (length s)"
  by (induction s) (auto simp: Let_def)

lemma lastIndexOf_nonneg: "0 \<le> lastIndexOf s c \<longleftrightarrow> c \<in> set s"
proof (induction s)
  case Nil
  show ?case by simp
next
  case (Cons x s)
  then show ?case using lastIndexOf_ge [of s c] by (auto simp: Let_def)
qed

lemma lastIndexOf_append:
  "lastIndexOf (s @ t) c = (if c \<in> set t then int (length s) + lastIndexOf t c else lastIndexOf s c)"
proof (induction s)
  case Nil
  then show ?case by (simp add: lastIndexOf_absent)
next
  case (Cons x s)
  have "c \<in> set t \<Longrightarrow> 0 \<le> lastIndexOf t c" by (simp add: lastIndexOf_nonneg)
  with Cons show ?case by (auto simp: Let_def)
qed

lemma splitOn_nonempty [simp]: "splitOn c s \<noteq> []"
  by (induction s) (auto split: list.splits)

lemma splitOn_append: "splitOn c (s @ c # t) = splitOn c s @ splitOn c t"
  by (induction s) (auto split: list.splits)

text \<open>The parts of a path joined again, as the loops over path segments do.\<close>

definition joinParts :: "jstr \<Rightarrow> jstr list \<Rightarrow> jstr" where
  "joinParts = foldl (\<lambda>c p. if c \<noteq> [] then c @ lit ''/'' @ p else p)"

lemma joinParts_eq: "current \<noteq> [] \<Longrightarrow> joinParts current parts = current @ concat (map (\<lambda>p. 47 # p) parts)"
proof (induction parts arbitrary: current)
  case Nil
  then show ?case by (simp add: joinParts_def)
next
  case (Cons p parts)
  have "joinParts current (p # parts) = joinParts (current @ lit ''/'' @ p) parts" using Cons.prems by (simp add: joinParts_def)
  then show ?case using Cons.IH [of "current @ lit ''/'' @ p"] Cons.prems by (simp add: lit_def)
qed

lemma concat_splitOn: "concat (map (\<lambda>p. c # p) (splitOn c s)) = c # s"
  by (induction s) (auto split: list.splits)

lemma joinParts_splitOn:
  assumes "[] \<notin> set (splitOn 47 s)"
  shows "joinParts [] (splitOn 47 s) = s"
proof -
  obtain p ps where p: "splitOn 47 s = p # ps" by (cases "splitOn 47 s") auto
  then have "47 # p @ concat (map (\<lambda>p. 47 # p) ps) = 47 # s" using concat_splitOn [of 47 s] by simp
  moreover have "joinParts [] (p # ps) = joinParts p ps" by (simp add: joinParts_def)
  ultimately show ?thesis using assms p joinParts_eq [of p ps] by auto
qed

lemma splitOn_joined:
  assumes "ns \<noteq> []" "\<forall>n \<in> set ns. n \<noteq> [] \<and> 47 \<notin> set n"
  shows "splitOn 47 (joinParts [] ns) = ns"
proof -
  have one: "splitOn 47 n = [n]" if "47 \<notin> set n" for n :: jstr
    using that by (induction n) auto
  have "splitOn 47 (n @ concat (map (\<lambda>p. 47 # p) ps)) = n # ps" if "\<forall>p \<in> set (n # ps). 47 \<notin> set p" for n and ps :: "jstr list"
    using that
  proof (induction ps arbitrary: n)
    case Nil
    then show ?case using one by simp
  next
    case (Cons p ps)
    then show ?case using splitOn_append [of 47 n "p @ concat (map (\<lambda>p. 47 # p) ps)"] one by simp
  qed
  moreover obtain n ps where "ns = n # ps" using assms(1) by (cases ns) auto
  moreover have "joinParts [] (n # ps) = joinParts n ps" for n ps by (simp add: joinParts_def)
  ultimately show ?thesis using assms(2) joinParts_eq by simp
qed

section \<open>Maps in insertion order\<close>

type_synonym ('k, 'v) jmap = "('k \<times> 'v) list"

abbreviation jget :: "('k, 'v) jmap \<Rightarrow> 'k \<Rightarrow> 'v option" where
  "jget m k \<equiv> map_of m k"

abbreviation jset :: "('k, 'v) jmap \<Rightarrow> 'k \<Rightarrow> 'v \<Rightarrow> ('k, 'v) jmap" where
  "jset m k v \<equiv> AList.update k v m"

abbreviation jdel :: "('k, 'v) jmap \<Rightarrow> 'k \<Rightarrow> ('k, 'v) jmap" where
  "jdel m k \<equiv> AList.delete k m"

abbreviation jhas :: "('k, 'v) jmap \<Rightarrow> 'k \<Rightarrow> bool" where
  "jhas m k \<equiv> map_of m k \<noteq> None"

abbreviation jkeys :: "('k, 'v) jmap \<Rightarrow> 'k list" where
  "jkeys m \<equiv> map fst m"

abbreviation jwf :: "('k, 'v) jmap \<Rightarrow> bool" where
  "jwf m \<equiv> distinct (map fst m)"

declare map_of_eq_Some_iff [simp del] Some_eq_map_of_iff [simp del]

lemma jget_jset [simp]: "jget (jset m k v) k' = (if k' = k then Some v else jget m k')"
  by (simp add: update_conv')

lemma jget_jdel [simp]: "jget (jdel m k) k' = (if k' = k then None else jget m k')"
  by (simp add: delete_conv')

lemma jwf_jset [simp, intro]: "jwf m \<Longrightarrow> jwf (jset m k v)"
  by (rule distinct_update)

lemma jwf_jdel [simp, intro]: "jwf m \<Longrightarrow> jwf (jdel m k)"
  by (rule distinct_delete)

lemma set_jkeys_jset [simp]: "fst ` set (jset m k v) = insert k (fst ` set m)"
  by (simp add: dom_update)

lemma set_jkeys_jdel [simp]: "fst ` set (jdel m k) = fst ` set m - {k}"
  by (induction m) auto

lemma jhas_iff: "jhas m k \<longleftrightarrow> k \<in> fst ` set m"
  by (metis dom_map_of_conv_image_fst domIff)

lemma jdel_absent [simp]: "k \<notin> fst ` set m \<Longrightarrow> jdel m k = m"
  by (induction m) auto

lemma length_jdel: "jwf m \<Longrightarrow> length (jdel m k) = (if jhas m k then length m - 1 else length m)"
proof (induction m)
  case Nil
  then show ?case by simp
next
  case (Cons p m)
  obtain k' v' where p: "p = (k', v')" by (cases p)
  show ?case
  proof (cases "k' = k")
    case True
    with Cons.prems p have "k \<notin> fst ` set m" by auto
    then have "jdel m k = m" by simp
    with True p show ?thesis by simp
  next
    case False
    moreover have "jhas m k \<Longrightarrow> length m > 0" by (cases m) auto
    ultimately show ?thesis using Cons p by auto
  qed
qed

lemma length_jset: "length (jset m k v) = (if jhas m k then length m else Suc (length m))"
  by (induction m) auto

section \<open>The contract of a dictionary\<close>

locale dictionary =
  fixes get :: "'m \<Rightarrow> 'k \<Rightarrow> 'v option"
    and put :: "'m \<Rightarrow> 'k \<Rightarrow> 'v \<Rightarrow> 'm"
    and remove :: "'m \<Rightarrow> 'k \<Rightarrow> 'm"
  assumes get_put: "get (put m k v) k' = (if k' = k then Some v else get m k')"
    and get_remove: "get (remove m k) k' = (if k' = k then None else get m k')"
begin

text \<open>A \<open>for\<close> loop that stores every entry of a list; the last entry of a key wins.\<close>

lemma get_put_all:
  "get (fold (\<lambda>(k, v) m. put m k v) kvs m) k =
     (case map_of (rev kvs) k of None \<Rightarrow> get m k | Some v \<Rightarrow> Some v)"
proof (induction kvs arbitrary: m)
  case Nil
  then show ?case by simp
next
  case (Cons p kvs)
  obtain k' v' where p: "p = (k', v')" by (cases p)
  show ?case
    by (simp add: p Cons.IH get_put map_add_def split: option.splits)
qed

text \<open>A \<open>for\<close> loop that removes every key of a list.\<close>

lemma get_remove_all:
  "get (fold (\<lambda>k m. remove m k) ks m) k = (if k \<in> set ks then None else get m k)"
  by (induction ks arbitrary: m) (auto simp: get_remove)

end

interpretation jm: dictionary "jget :: ('k, 'v) jmap \<Rightarrow> 'k \<Rightarrow> 'v option" jset jdel
  by unfold_locales simp_all

section \<open>JSON values\<close>

datatype json =
    JNull
  | JBool bool
  | JNum rat
  | JStr jstr
  | JArr "json list"
  | JObj "(jstr \<times> json) list"

fun isRecord :: "json \<Rightarrow> bool" where
  "isRecord (JObj _) = True"
| "isRecord _ = False"

fun isArray :: "json \<Rightarrow> bool" where
  "isArray (JArr _) = True"
| "isArray _ = False"

fun objFields :: "json \<Rightarrow> (jstr \<times> json) list" where
  "objFields (JObj kvs) = kvs"
| "objFields _ = []"

fun elements :: "json \<Rightarrow> json list" where
  "elements (JArr xs) = xs"
| "elements _ = []"

text \<open>A well-formed value: no object lists a key twice.\<close>

fun jsonWf :: "json \<Rightarrow> bool" where
  "jsonWf (JArr xs) = (\<forall>x \<in> set xs. jsonWf x)"
| "jsonWf (JObj kvs) = (distinct (map fst kvs) \<and> (\<forall>p \<in> set kvs. jsonWf (snd p)))"
| "jsonWf _ = True"

lemma jsonWf_lookup: "jsonWf (JObj kvs) \<Longrightarrow> map_of kvs k = Some v \<Longrightarrow> jsonWf v"
  using map_of_SomeD [of kvs k v] by auto

lemma size_json_elem [termination_simp]: "x \<in> set xs \<Longrightarrow> size x < Suc (size_list size xs)"
  by (induction xs) auto

lemma size_json_zip [termination_simp]: "(x, y) \<in> set (zip xs ys) \<Longrightarrow> size y < Suc (size_list size (ys :: json list))"
  using size_json_elem set_zip_rightD by fastforce

lemma size_json_zip' [termination_simp]: "(x, y) \<in> set (zip xs ys) \<Longrightarrow> size x < Suc (size_list size (xs :: json list))"
  using size_json_elem set_zip_leftD by fastforce

lemma size_json_lookup' [termination_simp]:
  "map_of kvs k = Some v \<Longrightarrow> size v < Suc (size_list (\<lambda>x. Suc (size (snd x))) kvs)"
  by (induction kvs) (auto split: if_splits)

lemma size_json_lookup [termination_simp]:
  "map_of kvs k = Some v \<Longrightarrow> size v < Suc (size_list (size_prod (\<lambda>_. 0) size) kvs)"
  by (induction kvs) (auto split: if_splits)

end
