(* ===== verification/Text_Merge.thy ===== *)
theory Text_Merge
  imports Js_Prelude "HOL-Library.Product_Lexorder"
begin

text \<open>
  The line-oriented three-way merge of \<^verbatim>\<open>src/textMerge.ts\<close>. The line diff itself is the
  package \<^verbatim>\<open>diff\<close>: its function \<open>diffArrays\<close> is an argument of the definitions, and the
  predicate \<open>diff_laws\<close> states what its documentation promises (the components, read without
  the added ones, are the old array; read without the removed ones, the new array; no component
  is empty or both added and removed).

  The edits of one side are shown to be sorted, separated and to rebuild that side; the merge
  is shown to refine \<open>patched\<close>, which says what a set of edits does to the base line by line and
  mentions no order; commutativity of the merge follows. \<open>containsLines\<close>, a greedy scan, is
  equivalent to the subsequence relation.
\<close>

section \<open>Model\<close>

record change =
  added :: bool
  removed :: bool
  chValue :: "jstr list"

record text_edit =
  eStart :: nat
  eEnd :: nat
  replacement :: "jstr list"

datatype merge_result = Merged jstr | Conflict

type_synonym differ = "jstr list \<Rightarrow> jstr list \<Rightarrow> change list"

text \<open>The matches of \<open>/[^\n]*\n|[^\n]+$/g\<close>.\<close>

fun lines :: "jstr \<Rightarrow> jstr list" where
  "lines [] = []"
| "lines (x # xs) =
     (if x = 10 then [x] # lines xs
      else (case lines xs of [] \<Rightarrow> [[x]] | l # ls \<Rightarrow> (x # l) # ls))"

definition flush :: "text_edit list \<Rightarrow> text_edit option \<Rightarrow> text_edit list" where
  "flush result pending = (case pending of None \<Rightarrow> result | Some e \<Rightarrow> result @ [e])"

fun editsLoop :: "change list \<Rightarrow> text_edit list \<Rightarrow> nat \<Rightarrow> text_edit option \<Rightarrow> text_edit list" where
  "editsLoop [] result baseOffset pending = flush result pending"
| "editsLoop (c # cs) result baseOffset pending =
     (if \<not> added c \<and> \<not> removed c
      then editsLoop cs (flush result pending) (baseOffset + length (chValue c)) None
      else
        let p = (case pending of
                   None \<Rightarrow> \<lparr>eStart = baseOffset, eEnd = baseOffset, replacement = []\<rparr>
                 | Some e \<Rightarrow> e)
        in if removed c
           then let off = baseOffset + length (chValue c)
                in editsLoop cs result off (Some (p\<lparr>eEnd := off\<rparr>))
           else editsLoop cs result baseOffset
                  (Some (p\<lparr>replacement := replacement p @ chValue c\<rparr>)))"

definition edits :: "differ \<Rightarrow> jstr list \<Rightarrow> jstr list \<Rightarrow> text_edit list" where
  "edits diffArrays base new = editsLoop (diffArrays base new) [] 0 None"

definition sameEdit :: "text_edit \<Rightarrow> text_edit \<Rightarrow> bool" where
  "sameEdit left right \<longleftrightarrow>
     eStart left = eStart right \<and> eEnd left = eEnd right
     \<and> length (replacement left) = length (replacement right)
     \<and> list_all2 (=) (replacement left) (replacement right)"

definition overlaps :: "text_edit \<Rightarrow> text_edit \<Rightarrow> bool" where
  "overlaps left right =
     (let leftInsertion = (eStart left = eEnd left);
          rightInsertion = (eStart right = eEnd right)
      in if leftInsertion \<and> rightInsertion then eStart left = eStart right
         else if leftInsertion then eStart left \<ge> eStart right \<and> eStart left \<le> eEnd right
         else if rightInsertion then eStart right \<ge> eStart left \<and> eStart right \<le> eEnd left
         else eStart left < eEnd right \<and> eStart right < eEnd left)"

text \<open>The two nested loops; \<open>None\<close> is the early return of a conflict.\<close>

fun scanRemote :: "text_edit \<Rightarrow> text_edit list \<Rightarrow> nat \<Rightarrow> nat set \<Rightarrow> nat set option" where
  "scanRemote localEdit [] index dup = Some dup"
| "scanRemote localEdit (r # remote) index dup =
     (if sameEdit localEdit r then scanRemote localEdit remote (Suc index) (insert index dup)
      else if overlaps localEdit r then None
      else scanRemote localEdit remote (Suc index) dup)"

fun scanLocal :: "text_edit list \<Rightarrow> text_edit list \<Rightarrow> nat set \<Rightarrow> nat set option" where
  "scanLocal [] remote dup = Some dup"
| "scanLocal (l # local) remote dup =
     (case scanRemote l remote 0 dup of
        None \<Rightarrow> None
      | Some dup' \<Rightarrow> scanLocal local remote dup')"

definition dropDuplicates :: "nat set \<Rightarrow> text_edit list \<Rightarrow> text_edit list" where
  "dropDuplicates dup remote =
     map snd (filter (\<lambda>(index, _). index \<notin> dup) (enumerate 0 remote))"

definition editKey :: "text_edit \<Rightarrow> nat \<times> nat" where
  "editKey e = (eStart e, eEnd e)"

fun applyEdits :: "jstr list \<Rightarrow> nat \<Rightarrow> text_edit list \<Rightarrow> jstr list" where
  "applyEdits base offset [] = drop offset base"
| "applyEdits base offset (e # es) =
     slice base offset (eStart e) @ replacement e @ applyEdits base (eEnd e) es"

definition mergeText :: "differ \<Rightarrow> jstr \<Rightarrow> jstr \<Rightarrow> jstr \<Rightarrow> merge_result" where
  "mergeText diffArrays baseText localText remoteText =
     (if localText = remoteText then Merged localText
      else if localText = baseText then Merged remoteText
      else if remoteText = baseText then Merged localText
      else
        let base = lines baseText;
            local = edits diffArrays base (lines localText);
            remote = edits diffArrays base (lines remoteText)
        in case scanLocal local remote {} of
             None \<Rightarrow> Conflict
           | Some dup \<Rightarrow>
               let combined = sort_key editKey (local @ dropDuplicates dup remote)
               in Merged (concat (applyEdits base 0 combined)))"

text \<open>\<open>line.replace(/\r?\n$/, "")\<close>\<close>

definition stripEol :: "jstr \<Rightarrow> jstr" where
  "stripEol l =
     (if endsWith l [13, 10] then take (length l - 2) l
      else if endsWith l [10] then take (length l - 1) l
      else l)"

definition contentLines :: "jstr \<Rightarrow> jstr list" where
  "contentLines text = filter (\<lambda>l. 0 < length (trim l)) (map stripEol (lines text))"

fun matchLines :: "jstr list \<Rightarrow> nat \<Rightarrow> jstr list \<Rightarrow> nat" where
  "matchLines needles index [] = index"
| "matchLines needles index (l # ls) =
     (if index = length needles then index
      else if l = needles ! index then matchLines needles (Suc index) ls
      else matchLines needles index ls)"

definition containsLines :: "jstr \<Rightarrow> jstr \<Rightarrow> bool" where
  "containsLines outer inner =
     (let needles = contentLines inner
      in matchLines needles 0 (contentLines outer) = length needles)"

definition mergeWithoutBaseline :: "jstr \<Rightarrow> jstr \<Rightarrow> bool \<Rightarrow> merge_result" where
  "mergeWithoutBaseline localText remoteText allowLocalSuperset =
     (if localText = remoteText then Merged localText
      else if containsLines remoteText localText then Merged remoteText
      else if allowLocalSuperset \<and> containsLines localText remoteText then Merged localText
      else Conflict)"

section \<open>What the diff package promises\<close>

definition oldSide :: "change list \<Rightarrow> jstr list" where
  "oldSide cs = concat (map chValue (filter (\<lambda>c. \<not> added c) cs))"

definition newSide :: "change list \<Rightarrow> jstr list" where
  "newSide cs = concat (map chValue (filter (\<lambda>c. \<not> removed c) cs))"

definition diff_laws :: "differ \<Rightarrow> bool" where
  "diff_laws d \<longleftrightarrow> (\<forall>a b. oldSide (d a b) = a \<and> newSide (d a b) = b
     \<and> (\<forall>c \<in> set (d a b). \<not> (added c \<and> removed c) \<and> chValue c \<noteq> []))"

section \<open>Lines\<close>

lemma concat_lines [simp]: "concat (lines t) = t"
  by (induction t) (auto split: list.splits)

section \<open>The edits of one side\<close>

lemma editsLoop_acc: "editsLoop cs (xs @ res) off p = xs @ editsLoop cs res off p"
  by (induction cs arbitrary: res off p) (auto simp: flush_def Let_def split: option.splits)

lemma editsLoop_flush:
  "editsLoop cs (flush [] p) off None =
     (case p of None \<Rightarrow> editsLoop cs [] off None | Some e \<Rightarrow> e # editsLoop cs [] off None)"
  using editsLoop_acc [of cs "[the p]" "[]" off None]
  by (auto simp: flush_def split: option.splits)

definition pendOk :: "nat \<Rightarrow> text_edit option \<Rightarrow> bool" where
  "pendOk off p \<longleftrightarrow> (case p of None \<Rightarrow> True | Some e \<Rightarrow> eStart e \<le> off \<and> eEnd e = off)"

lemma slice_drop: "a \<le> b \<Longrightarrow> slice xs a b @ drop b xs = drop a xs"
  by (metis add.commute append_take_drop_id drop_drop le_add_diff_inverse slice_def)

lemma slice_split: "a \<le> b \<Longrightarrow> b \<le> c \<Longrightarrow> slice xs a b @ slice xs b c = slice xs a c"
proof -
  assume ab: "a \<le> b" and bc: "b \<le> c"
  have "take (c - a) (drop a xs) = take (b - a) (drop a xs) @ take (c - b) (drop (b - a) (drop a xs))"
    using ab bc take_add [of "b - a" "c - b" "drop a xs"] by simp
  with ab show ?thesis by (simp add: slice_def)
qed

lemma slice_append: "slice (xs @ ys @ zs) (length xs) (length xs + length ys) = ys"
  by (simp add: slice_def)

lemma slice_all: "length xs \<le> b \<Longrightarrow> slice xs a b = drop a xs"
  by (simp add: slice_def)

lemma oldSide_simps [simp]:
  "oldSide [] = []" "oldSide (c # cs) = (if added c then oldSide cs else chValue c @ oldSide cs)"
  by (simp_all add: oldSide_def)

lemma newSide_simps [simp]:
  "newSide [] = []" "newSide (c # cs) = (if removed c then newSide cs else chValue c @ newSide cs)"
  by (simp_all add: newSide_def)

lemma applyEdits_editsLoop:
  assumes "\<forall>c \<in> set cs. \<not> (added c \<and> removed c)" "pendOk (length pre) p"
    "o1 \<le> (case p of None \<Rightarrow> length pre | Some e \<Rightarrow> eStart e)"
    "base = pre @ oldSide cs"
  shows "applyEdits base o1 (editsLoop cs [] (length pre) p) =
    (case p of None \<Rightarrow> slice base o1 (length pre)
     | Some e \<Rightarrow> slice base o1 (eStart e) @ replacement e) @ newSide cs"
  using assms
proof (induction cs arbitrary: pre p o1)
  case Nil
  then show ?case by (auto simp: flush_def pendOk_def slice_all split: option.splits)
next
  case (Cons c cs)
  let ?v = "chValue c"
  let ?off = "length pre"
  from Cons.prems(1) have ok: "\<forall>c \<in> set cs. \<not> (added c \<and> removed c)" by simp
  define q where "q = (case p of None \<Rightarrow> \<lparr>eStart = ?off, eEnd = ?off, replacement = []\<rparr> | Some e \<Rightarrow> e)"
  have q: "eStart q \<le> ?off" "eEnd q = ?off" "o1 \<le> eStart q"
    using Cons.prems(2,3) by (auto simp: q_def pendOk_def split: option.splits)
  have pq: "(case p of None \<Rightarrow> slice base o1 ?off | Some e \<Rightarrow> slice base o1 (eStart e) @ replacement e)
      = slice base o1 (eStart q) @ replacement q"
    by (auto simp: q_def split: option.splits)
  consider (same) "\<not> added c" "\<not> removed c" | (rem) "removed c" "\<not> added c" | (add) "added c" "\<not> removed c"
    using Cons.prems(1) by auto
  then show ?case
  proof cases
    case same
    let ?pre = "pre @ ?v"
    have base: "base = ?pre @ oldSide cs" using Cons.prems(4) same by simp
    have mid: "slice base ?off (length ?pre) = ?v"
      using slice_append [of pre ?v "oldSide cs"] base by simp
    have IH: "o2 \<le> length ?pre \<Longrightarrow> applyEdits base o2 (editsLoop cs [] (length ?pre) None)
        = slice base o2 (length ?pre) @ newSide cs" for o2
      using Cons.IH [OF ok _ _ base, of None] by (simp add: pendOk_def)
    show ?thesis
    proof (cases p)
      case None
      with Cons.prems(3) have "slice base o1 (length ?pre) = slice base o1 ?off @ ?v"
        using slice_split [of o1 ?off "length ?pre" base] mid by simp
      with None same IH [of o1] Cons.prems(3) show ?thesis by (simp add: flush_def)
    next
      case (Some e)
      with same IH [of ?off] mid q show ?thesis
        by (simp add: editsLoop_flush q_def)
    qed
  next
    case rem
    let ?pre = "pre @ ?v"
    have base: "base = ?pre @ oldSide cs" using Cons.prems(4) rem by simp
    have "pendOk (length ?pre) (Some (q\<lparr>eEnd := length ?pre\<rparr>))" using q by (simp add: pendOk_def)
    from Cons.IH [OF ok this _ base, of o1] q rem pq show ?thesis
      by (simp add: Let_def q_def [symmetric])
  next
    case add
    have base: "base = pre @ oldSide cs" using Cons.prems(4) add by simp
    have "pendOk (length pre) (Some (q\<lparr>replacement := replacement q @ ?v\<rparr>))" using q by (simp add: pendOk_def)
    from Cons.IH [OF ok this _ base, of o1] q add pq show ?thesis
      by (simp add: Let_def q_def [symmetric])
  qed
qed

lemma applyEdits_edits:
  assumes "diff_laws d"
  shows "applyEdits base 0 (edits d base new) = new"
proof -
  have laws: "oldSide (d base new) = base" "newSide (d base new) = new"
    "\<forall>c \<in> set (d base new). \<not> (added c \<and> removed c)"
    using assms by (auto simp: diff_laws_def)
  have "applyEdits base 0 (editsLoop (d base new) [] (length ([] :: jstr list)) None) = new"
    by (subst applyEdits_editsLoop [OF laws(3), where pre = "[]"])
      (simp_all add: laws pendOk_def slice_def)
  then show ?thesis by (simp add: edits_def)
qed

fun separated :: "nat \<Rightarrow> text_edit list \<Rightarrow> bool" where
  "separated lo [] = True"
| "separated lo (e # es) =
     (lo \<le> eStart e \<and> eStart e \<le> eEnd e \<and> separated (Suc (eEnd e)) es)"

lemma separated_mono: "separated lo es \<Longrightarrow> lo' \<le> lo \<Longrightarrow> separated lo' es"
  by (cases es) auto

lemma less_imp_Suc_add_le: "0 < n \<Longrightarrow> Suc m \<le> m + n"
  by simp

lemma separated_editsLoop:
  assumes "\<forall>c \<in> set cs. chValue c \<noteq> []" "pendOk off p"
    "lo \<le> (case p of None \<Rightarrow> off | Some e \<Rightarrow> eStart e)"
  shows "separated lo (editsLoop cs [] off p)"
  using assms
proof (induction cs arbitrary: off p lo)
  case Nil
  then show ?case by (auto simp: flush_def pendOk_def split: option.splits)
next
  case (Cons c cs)
  then have ne: "\<forall>c \<in> set cs. chValue c \<noteq> []" and pos: "0 < length (chValue c)" by auto
  show ?case
  proof (cases "\<not> added c \<and> \<not> removed c")
    case True
    have IH: "separated lo' (editsLoop cs [] (off + length (chValue c)) None)"
      if "lo' \<le> off + length (chValue c)" for lo'
      using Cons.IH [OF ne, of _ None] that by (simp add: pendOk_def)
    show ?thesis
      using True Cons.prems(2,3) IH [of lo] IH [of "Suc off", OF less_imp_Suc_add_le [OF pos]]
      by (auto simp: editsLoop_flush pendOk_def split: option.splits)
  next
    case False
    then show ?thesis
      using Cons.prems(2,3) by (auto simp: Let_def pendOk_def intro!: Cons.IH ne split: option.splits)
  qed
qed

lemma eEnd_editsLoop:
  assumes "\<forall>c \<in> set cs. \<not> (added c \<and> removed c)" "pendOk off p" "e \<in> set (editsLoop cs [] off p)"
  shows "eEnd e \<le> off + length (oldSide cs)"
  using assms
proof (induction cs arbitrary: off p)
  case Nil
  then show ?case by (auto simp: flush_def pendOk_def split: option.splits)
next
  case (Cons c cs)
  have ok: "\<forall>c \<in> set cs. \<not> (added c \<and> removed c)" using Cons.prems(1) by simp
  have p: "pendOk off p" by (rule Cons.prems(2))
  show ?case
  proof (cases "\<not> added c \<and> \<not> removed c")
    case True
    then show ?thesis
      using Cons.prems(3) p Cons.IH [OF ok, of "off + length (chValue c)" None]
      by (auto simp: editsLoop_flush pendOk_def split: option.splits)
  next
    case False
    define q where "q = (case p of None \<Rightarrow> \<lparr>eStart = off, eEnd = off, replacement = []\<rparr> | Some e \<Rightarrow> e)"
    have q: "eStart q \<le> off" "eEnd q = off" using p by (auto simp: q_def pendOk_def split: option.splits)
    show ?thesis
      using False Cons.prems(1,3) q
        Cons.IH [OF ok, of "off + length (chValue c)" "Some (q\<lparr>eEnd := off + length (chValue c)\<rparr>)"]
        Cons.IH [OF ok, of off "Some (q\<lparr>replacement := replacement q @ chValue c\<rparr>)"]
      by (auto simp: Let_def pendOk_def q_def [symmetric] split: if_splits)
  qed
qed

lemma edits_separated: "diff_laws d \<Longrightarrow> separated 0 (edits d base new)"
  unfolding edits_def by (rule separated_editsLoop) (auto simp: diff_laws_def pendOk_def)

lemma edits_bounded: "diff_laws d \<Longrightarrow> e \<in> set (edits d base new) \<Longrightarrow> eEnd e \<le> length base"
  unfolding edits_def
  using eEnd_editsLoop [of "d base new" 0 None e] by (auto simp: diff_laws_def pendOk_def)

section \<open>Scanning the two sides\<close>

lemma sameEdit_eq: "sameEdit left right \<longleftrightarrow> left = right"
  by (auto simp: sameEdit_def list.rel_eq intro: text_edit.equality)

lemma overlaps_sym: "overlaps left right \<longleftrightarrow> overlaps right left"
  by (auto simp: overlaps_def Let_def)

definition clash :: "text_edit list \<Rightarrow> text_edit list \<Rightarrow> bool" where
  "clash local remote \<longleftrightarrow> (\<exists>l \<in> set local. \<exists>r \<in> set remote. l \<noteq> r \<and> overlaps l r)"

lemma clash_sym: "clash local remote \<longleftrightarrow> clash remote local"
  unfolding clash_def using overlaps_sym by metis

lemma ex_nat_split: "(\<exists>j. P j) \<longleftrightarrow> P 0 \<or> (\<exists>j. P (Suc j))"
  by (metis not0_implies_Suc)

lemma scanRemote_eq:
  "scanRemote l remote i dup =
     (if clash [l] remote then None else Some (dup \<union> {i + j |j. j < length remote \<and> remote ! j = l}))"
proof (induction remote arbitrary: i dup)
  case Nil
  then show ?case by (simp add: clash_def)
next
  case (Cons r remote)
  have split: "{i + j |j. j < length (r # remote) \<and> (r # remote) ! j = l} =
      (if r = l then {i} else {}) \<union> {Suc i + j |j. j < length remote \<and> remote ! j = l}" (is "?A = ?B")
  proof (rule set_eqI)
    fix x
    have "x \<in> ?A \<longleftrightarrow> (\<exists>j. x = i + j \<and> j < length (r # remote) \<and> (r # remote) ! j = l)"
      by blast
    also have "\<dots> \<longleftrightarrow> x \<in> ?B"
      by (subst ex_nat_split) auto
    finally show "x \<in> ?A \<longleftrightarrow> x \<in> ?B" .
  qed
  have clash: "clash [l] (r # remote) \<longleftrightarrow> (l \<noteq> r \<and> overlaps l r) \<or> clash [l] remote"
    by (auto simp: clash_def)
  show ?case
    unfolding split clash by (cases "r = l") (auto simp: Cons.IH sameEdit_eq)
qed

lemma scanLocal_eq:
  "scanLocal local remote dup =
     (if clash local remote then None
      else Some (dup \<union> {j. j < length remote \<and> remote ! j \<in> set local}))"
proof (induction local arbitrary: dup)
  case Nil
  then show ?case by (simp add: clash_def)
next
  case (Cons l local)
  have "clash (l # local) remote \<longleftrightarrow> clash [l] remote \<or> clash local remote"
    by (auto simp: clash_def)
  then show ?case by (auto simp: Cons.IH scanRemote_eq split: option.splits)
qed

lemma dropDuplicates_eq:
  "dropDuplicates {j. j < length remote \<and> remote ! j \<in> S} remote = filter (\<lambda>r. r \<notin> S) remote"
proof -
  have "map snd (filter (\<lambda>(i, _). i \<notin> {j. j < length remote \<and> remote ! j \<in> S}) (enumerate 0 remote))
      = map snd (filter (\<lambda>p. snd p \<notin> S) (enumerate 0 remote))"
    by (rule arg_cong [where f = "map snd"], rule filter_cong) (auto simp: in_set_enumerate_eq)
  also have "\<dots> = filter (\<lambda>r. r \<notin> S) (map snd (enumerate 0 remote))"
    by (simp add: filter_map comp_def del: map_snd_enumerate)
  finally show ?thesis by (simp add: dropDuplicates_def)
qed

section \<open>The specification: what a set of edits does to the base, line by line\<close>

definition cell :: "jstr list \<Rightarrow> text_edit list \<Rightarrow> nat \<Rightarrow> jstr list" where
  "cell base es i =
     concat (map replacement (filter (\<lambda>e. eStart e = i) es))
     @ (if i < length base \<and> \<not> (\<exists>e \<in> set es. eStart e \<le> i \<and> i < eEnd e) then [base ! i] else [])"

definition patched :: "jstr list \<Rightarrow> text_edit list \<Rightarrow> jstr list" where
  "patched base es = concat (map (cell base es) [0..<Suc (length base)])"

fun chain :: "nat \<Rightarrow> text_edit list \<Rightarrow> bool" where
  "chain lo [] = True"
| "chain lo (e # es) =
     (lo \<le> eStart e \<and> eStart e \<le> eEnd e \<and> chain (max (Suc (eStart e)) (eEnd e)) es)"

lemma chain_start: "chain lo es \<Longrightarrow> e \<in> set es \<Longrightarrow> lo \<le> eStart e"
  by (induction lo es rule: chain.induct) auto

lemma upt_split: "i \<le> j \<Longrightarrow> j \<le> k \<Longrightarrow> [i..<k] = [i..<j] @ [j..<k]"
  by (metis le_add_diff_inverse upt_add_eq_append)

lemma cells_plain:
  "(\<And>i. lo \<le> i \<Longrightarrow> i < hi \<Longrightarrow> cell base es i = (if i < length base then [base ! i] else [])) \<Longrightarrow>
   lo \<le> hi \<Longrightarrow> concat (map (cell base es) [lo..<hi]) = slice base lo hi"
proof (induction hi)
  case 0
  then show ?case by (simp add: slice_def)
next
  case (Suc hi)
  show ?case
  proof (cases "lo = Suc hi")
    case True
    then show ?thesis by (simp add: slice_def)
  next
    case False
    with Suc.prems(2) have le: "lo \<le> hi" by simp
    have "slice base lo (Suc hi) = slice base lo hi @ (if hi < length base then [base ! hi] else [])"
      using le by (simp add: slice_def Suc_diff_le take_Suc_conv_app_nth)
    with le Suc show ?thesis by simp
  qed
qed

lemma applyEdits_from:
  "chain b es \<Longrightarrow> a \<le> b \<Longrightarrow> applyEdits base a es = slice base a b @ applyEdits base b es"
proof (cases es)
  case (Cons e es')
  assume "chain b es" "a \<le> b"
  then have "slice base a (eStart e) = slice base a b @ slice base b (eStart e)"
    using Cons slice_split [of a b "eStart e" base] by simp
  with Cons show ?thesis by simp
qed (simp add: slice_drop)

lemma applyEdits_cells:
  "chain lo es \<Longrightarrow> \<forall>e \<in> set es. eEnd e \<le> length base \<Longrightarrow> lo \<le> Suc (length base) \<Longrightarrow>
   applyEdits base lo es = concat (map (cell base es) [lo..<Suc (length base)])"
proof (induction es arbitrary: lo)
  case Nil
  have "concat (map (cell base []) [lo..<Suc (length base)]) = slice base lo (Suc (length base))"
    by (rule cells_plain) (use Nil in \<open>auto simp: cell_def\<close>)
  then show ?case by (simp add: slice_all)
next
  case (Cons e es)
  let ?s = "eStart e" and ?t = "eEnd e" and ?n = "length base"
  let ?m = "max (Suc ?s) ?t"
  have ch: "chain ?m es" and b: "lo \<le> ?s" "?s \<le> ?t" "?t \<le> ?n" "?m \<le> Suc ?n"
    using Cons.prems by auto
  have later: "?m \<le> eStart f" if "f \<in> set es" for f using chain_start [OF ch that] .
  have none: "filter (\<lambda>f. eStart f = i) es = []" "\<not> (\<exists>f \<in> set es. eStart f \<le> i \<and> i < eEnd f)"
    if "i < ?m" for i
    using later that by (force simp: filter_empty_conv)+
  have "[lo..<Suc ?n] = [lo..<?s] @ [?s..<?m] @ [?m..<Suc ?n]"
    using b upt_split [of lo ?s "Suc ?n"] upt_split [of ?s ?m "Suc ?n"] by auto
  moreover have "concat (map (cell base (e # es)) [lo..<?s]) = slice base lo ?s"
    by (rule cells_plain) (use b none in \<open>auto simp: cell_def\<close>)
  moreover have "concat (map (cell base (e # es)) [?s..<?m]) = replacement e @ slice base ?t ?m"
  proof -
    have head: "cell base (e # es) ?s = replacement e @ slice base ?t (max (Suc ?s) ?t)"
      using none [of ?s] b by (cases "?s = ?t") (auto simp: cell_def slice_def take_Suc_conv_app_nth
          Cons_nth_drop_Suc [symmetric] max_def)
    have tail: "concat (map (cell base (e # es)) [Suc ?s..<?m]) = []"
      using none by (auto simp: cell_def)
    have "[?s..<?m] = ?s # [Suc ?s..<?m]" by (simp add: upt_conv_Cons)
    with head tail show ?thesis by (simp del: upt.simps)
  qed
  moreover have "map (cell base (e # es)) [?m..<Suc ?n] = map (cell base es) [?m..<Suc ?n]"
    by (rule map_cong) (auto simp: cell_def)
  ultimately have cells: "concat (map (cell base (e # es)) [lo..<Suc ?n])
      = slice base lo ?s @ replacement e @ slice base ?t ?m @ concat (map (cell base es) [?m..<Suc ?n])"
    by (simp only: map_append concat_append append_assoc)
  have "applyEdits base ?t es = slice base ?t ?m @ applyEdits base ?m es"
    by (rule applyEdits_from [OF ch]) simp
  moreover have "applyEdits base ?m es = concat (map (cell base es) [?m..<Suc ?n])"
    by (rule Cons.IH [OF ch]) (use Cons.prems b in auto)
  ultimately show ?case using cells by simp
qed

section \<open>The combined edits\<close>

lemma separated_chain: "separated lo es \<Longrightarrow> chain lo es"
proof (induction lo es rule: separated.induct)
  case (2 lo e es)
  then have "separated (max (Suc (eStart e)) (eEnd e)) es"
    by (auto elim!: separated_mono)
  then have "chain (Suc (eEnd e)) es" using 2 by simp
  moreover have "chain a es \<Longrightarrow> b \<le> a \<Longrightarrow> chain b es" for a b by (cases es) auto
  ultimately show ?case using 2 by auto
qed simp

lemma separated_later: "separated lo es \<Longrightarrow> e \<in> set es \<Longrightarrow> lo \<le> eStart e \<and> eStart e \<le> eEnd e"
  by (induction lo es rule: separated.induct) auto

lemma separated_apart:
  "separated lo es \<Longrightarrow> e \<in> set es \<Longrightarrow> f \<in> set es \<Longrightarrow> e \<noteq> f \<Longrightarrow> \<not> overlaps e f"
proof (induction lo es rule: separated.induct)
  case (2 lo x es)
  have far: "\<not> overlaps x g" if "g \<in> set es" for g
    using separated_later [of "Suc (eEnd x)" es g] 2(2) that by (auto simp: overlaps_def Let_def)
  from 2 far overlaps_sym show ?case by (metis separated.simps(2) set_ConsD)
qed simp

lemma separated_distinct: "separated lo es \<Longrightarrow> distinct es"
proof (induction lo es rule: separated.induct)
  case (2 lo x es)
  have "x \<notin> set es" using separated_later [of "Suc (eEnd x)" es x] 2(2) by auto
  with 2 show ?case by simp
qed simp

lemma ordered_apart:
  assumes "\<not> overlaps e f" "editKey e \<le> editKey f" "eStart e \<le> eEnd e" "eStart f \<le> eEnd f"
  shows "max (Suc (eStart e)) (eEnd e) \<le> eStart f"
  using assms by (auto simp: overlaps_def editKey_def Let_def less_eq_prod_def split: if_splits)

lemma sorted_apart_chain:
  "sorted (map editKey es) \<Longrightarrow> distinct es \<Longrightarrow>
   (\<forall>e \<in> set es. \<forall>f \<in> set es. e \<noteq> f \<longrightarrow> \<not> overlaps e f) \<Longrightarrow>
   \<forall>e \<in> set es. eStart e \<le> eEnd e \<and> lo \<le> eStart e \<Longrightarrow> chain lo es"
proof (induction es arbitrary: lo)
  case (Cons e es)
  have "max (Suc (eStart e)) (eEnd e) \<le> eStart f" if "f \<in> set es" for f
    by (rule ordered_apart) (use Cons.prems that in auto)
  with Cons show ?case by auto
qed simp

text \<open>
  What the loops of \<open>mergeText\<close> compute, for a differ that keeps its promises: the list of
  edits of both sides, each once.
\<close>

definition bothEdits :: "text_edit list \<Rightarrow> text_edit list \<Rightarrow> text_edit list" where
  "bothEdits local remote = local @ filter (\<lambda>r. r \<notin> set local) remote"

lemma mergeText_cases:
  assumes "localText \<noteq> remoteText" "localText \<noteq> baseText" "remoteText \<noteq> baseText"
    and "local = edits d (lines baseText) (lines localText)"
    and "remote = edits d (lines baseText) (lines remoteText)"
  shows "mergeText d baseText localText remoteText =
    (if clash local remote then Conflict
     else Merged (concat (applyEdits (lines baseText) 0 (sort_key editKey (bothEdits local remote)))))"
  using assms by (simp add: mergeText_def scanLocal_eq dropDuplicates_eq bothEdits_def Let_def)

lemma bothEdits_props:
  assumes "diff_laws d" "\<not> clash local remote"
    "local = edits d base new1" "remote = edits d base new2"
  shows "distinct (bothEdits local remote)"
    and "e \<in> set (bothEdits local remote) \<Longrightarrow> eStart e \<le> eEnd e \<and> eEnd e \<le> length base"
    and "e \<in> set (bothEdits local remote) \<Longrightarrow> f \<in> set (bothEdits local remote) \<Longrightarrow> e \<noteq> f \<Longrightarrow>
      \<not> overlaps e f"
proof -
  have sep: "separated 0 local" "separated 0 remote"
    using assms edits_separated by auto
  show "distinct (bothEdits local remote)"
    using sep separated_distinct by (auto simp: bothEdits_def)
  show "eStart e \<le> eEnd e \<and> eEnd e \<le> length base" if "e \<in> set (bothEdits local remote)"
    using that sep separated_later edits_bounded assms by (fastforce simp: bothEdits_def)
  show "\<not> overlaps e f" if "e \<in> set (bothEdits local remote)" "f \<in> set (bothEdits local remote)" "e \<noteq> f"
    using that assms(2) separated_apart [OF sep(1)] separated_apart [OF sep(2)] overlaps_sym [of e f]
    by (auto simp: bothEdits_def clash_def)
qed

lemma combined_chain:
  assumes "diff_laws d" "\<not> clash local remote"
    "local = edits d base new1" "remote = edits d base new2"
  shows "chain 0 (sort_key editKey (bothEdits local remote))"
  using bothEdits_props [OF assms] by (intro sorted_apart_chain) auto

text \<open>\<open>patched\<close> does not depend on the order in which the edits are listed.\<close>

lemma same_start_overlaps:
  "eStart e \<le> eEnd e \<Longrightarrow> eStart f \<le> eEnd f \<Longrightarrow> eStart e = eStart f \<Longrightarrow> overlaps e f"
  by (auto simp: overlaps_def Let_def)

lemma start_determines:
  "(\<forall>e \<in> set es. \<forall>f \<in> set es. e \<noteq> f \<longrightarrow> \<not> overlaps e f) \<Longrightarrow> \<forall>e \<in> set es. eStart e \<le> eEnd e \<Longrightarrow>
   e \<in> set es \<Longrightarrow> f \<in> set es \<Longrightarrow> eStart e = eStart f \<Longrightarrow> e = f"
  using same_start_overlaps by blast

lemma distinct_singleton: "distinct ys \<Longrightarrow> set ys = {e} \<Longrightarrow> ys = [e]"
  by (cases ys; cases "tl ys") auto

lemma filter_start:
  assumes "distinct es" "\<And>e f. e \<in> set es \<Longrightarrow> f \<in> set es \<Longrightarrow> eStart e = eStart f \<Longrightarrow> e = f"
    "set es = set fs" "distinct fs"
  shows "filter (\<lambda>e. eStart e = i) es = filter (\<lambda>e. eStart e = i) fs"
proof (cases "\<exists>e \<in> set es. eStart e = i")
  case True
  then obtain e where e: "e \<in> set es" "eStart e = i" by auto
  have single: "filter (\<lambda>e. eStart e = i) xs = [e]" if "distinct xs" "set xs = set es" for xs
  proof -
    have "set (filter (\<lambda>e. eStart e = i) xs) = {e}" using e assms(2) that by auto
    moreover have "distinct (filter (\<lambda>e. eStart e = i) xs)" using that by simp
    ultimately show ?thesis by (rule distinct_singleton [rotated])
  qed
  with assms show ?thesis by metis
next
  case False
  with assms(3) show ?thesis by (simp add: filter_empty_conv)
qed

lemma patched_cong:
  assumes "distinct es" "\<And>e f. e \<in> set es \<Longrightarrow> f \<in> set es \<Longrightarrow> eStart e = eStart f \<Longrightarrow> e = f"
    "set es = set fs" "distinct fs"
  shows "patched base es = patched base fs"
proof -
  have "filter (\<lambda>e. eStart e = i) es = filter (\<lambda>e. eStart e = i) fs" for i
    by (rule filter_start) (use assms in auto)
  then have "cell base es = cell base fs"
    unfolding cell_def assms(3) by presburger
  then show ?thesis by (simp add: patched_def)
qed

lemma applyEdits_combined:
  assumes "diff_laws d" "\<not> clash local remote"
    "local = edits d base new1" "remote = edits d base new2"
  shows "applyEdits base 0 (sort_key editKey (bothEdits local remote)) = patched base (bothEdits local remote)"
proof -
  let ?es = "bothEdits local remote"
  note props = bothEdits_props [OF assms]
  have "applyEdits base 0 (sort_key editKey ?es) = patched base (sort_key editKey ?es)"
    unfolding patched_def
    by (rule applyEdits_cells [OF combined_chain [OF assms]]) (use props in auto)
  also have "\<dots> = patched base ?es"
    by (rule patched_cong) (use props start_determines [of ?es] in auto)
  finally show ?thesis .
qed

section \<open>Greedy line containment\<close>

lemma matchLines_le: "i \<le> length ns \<Longrightarrow> matchLines ns i ls \<le> length ns"
  by (induction ls arbitrary: i) auto

lemma matchLines_subseq:
  "i \<le> length ns \<Longrightarrow> matchLines ns i ls = length ns \<longleftrightarrow> subseq (drop i ns) ls"
proof (induction ls arbitrary: i)
  case Nil
  then show ?case by (cases "drop i ns") auto
next
  case (Cons l ls)
  show ?case
  proof (cases "i = length ns")
    case False
    with Cons.prems have i: "i < length ns" by simp
    then have d: "drop i ns = ns ! i # drop (Suc i) ns" by (simp add: Cons_nth_drop_Suc)
    show ?thesis using Cons.IH [of i] Cons.IH [of "Suc i"] i by (simp add: d)
  qed simp
qed

lemma containsLines_subseq:
  "containsLines outer inner \<longleftrightarrow> subseq (contentLines inner) (contentLines outer)"
  using matchLines_subseq [of 0 "contentLines inner" "contentLines outer"]
  by (simp add: containsLines_def Let_def)

section \<open>A differ that keeps the promises\<close>

text \<open>
  Comparing line by line and adding or removing the rest is a (crude) diff; it shows that
  \<open>diff_laws\<close> can hold and lets concrete merges be evaluated.
\<close>

fun lineDiff :: differ where
  "lineDiff (x # xs) (y # ys) =
     (if x = y then \<lparr>added = False, removed = False, chValue = [x]\<rparr> # lineDiff xs ys
      else \<lparr>added = False, removed = True, chValue = [x]\<rparr>
           # \<lparr>added = True, removed = False, chValue = [y]\<rparr> # lineDiff xs ys)"
| "lineDiff [] (y # ys) = [\<lparr>added = True, removed = False, chValue = y # ys\<rparr>]"
| "lineDiff (x # xs) [] = [\<lparr>added = False, removed = True, chValue = x # xs\<rparr>]"
| "lineDiff [] [] = []"

lemma lineDiff_laws: "diff_laws lineDiff"
proof -
  have "oldSide (lineDiff a b) = a \<and> newSide (lineDiff a b) = b
     \<and> (\<forall>c \<in> set (lineDiff a b). \<not> (added c \<and> removed c) \<and> chValue c \<noteq> [])" for a b
    by (induction a b rule: lineDiff.induct) auto
  then show ?thesis by (simp add: diff_laws_def)
qed

section \<open>Properties\<close>

text \<open>
  C1: For every diff that keeps its promises, \<open>mergeText\<close> on three different texts is a
  conflict exactly when a local and a remote edit differ and overlap, and otherwise the merged
  text is the base in which, line by line, the replacement of every local and every remote edit
  starting there is inserted and exactly the lines covered by no edit are kept.
\<close>

theorem mergeText_refines_patched:
  assumes "diff_laws d"
    and "localText \<noteq> remoteText" "localText \<noteq> baseText" "remoteText \<noteq> baseText"
  shows "mergeText d baseText localText remoteText =
    (let base = lines baseText;
         local = edits d base (lines localText);
         remote = edits d base (lines remoteText)
     in if clash local remote then Conflict
        else Merged (concat (patched base (bothEdits local remote))))"
  using mergeText_cases [OF assms(2-4) refl refl] applyEdits_combined [OF assms(1) _ refl refl]
  by (simp add: Let_def)

theorem mergeText_refines_patched_witness:
  "mergeText lineDiff (lit ''a'' @ [10] @ lit ''b'' @ [10] @ lit ''c'')
       (lit ''x'' @ [10] @ lit ''b'' @ [10] @ lit ''c'')
       (lit ''a'' @ [10] @ lit ''b'' @ [10] @ lit ''y'')
     = Merged (lit ''x'' @ [10] @ lit ''b'' @ [10] @ lit ''y'')
   \<and> diff_laws lineDiff"
  using mergeText_refines_patched
    [OF lineDiff_laws, of "lit ''x'' @ [10] @ lit ''b'' @ [10] @ lit ''c''"
        "lit ''a'' @ [10] @ lit ''b'' @ [10] @ lit ''y''"
        "lit ''a'' @ [10] @ lit ''b'' @ [10] @ lit ''c''"]
  by (simp add: lineDiff_laws lit_def edits_def flush_def Let_def clash_def overlaps_def
      bothEdits_def patched_def cell_def upt_rec)

text \<open>
  C28: The merge does not depend on which side is called local: two devices that merge the same
  pair of texts over the same base produce the same result, or both report a conflict.
\<close>

theorem mergeText_commute:
  assumes "diff_laws d"
  shows "mergeText d baseText localText remoteText = mergeText d baseText remoteText localText"
proof (cases "localText = remoteText \<or> localText = baseText \<or> remoteText = baseText")
  case True
  then show ?thesis by (auto simp: mergeText_def)
next
  case False
  let ?base = "lines baseText"
  let ?l = "edits d ?base (lines localText)" and ?r = "edits d ?base (lines remoteText)"
  have "patched ?base (bothEdits ?l ?r) = patched ?base (bothEdits ?r ?l)" if "\<not> clash ?l ?r"
  proof (rule patched_cong)
    show "distinct (bothEdits ?l ?r)"
      using bothEdits_props(1) [OF assms that refl refl] .
    show "distinct (bothEdits ?r ?l)"
      using bothEdits_props(1) [OF assms _ refl refl] that clash_sym by blast
    show "e = f" if "e \<in> set (bothEdits ?l ?r)" "f \<in> set (bothEdits ?l ?r)" "eStart e = eStart f" for e f
      using start_determines [of "bothEdits ?l ?r"] that \<open>\<not> clash ?l ?r\<close>
        bothEdits_props(2,3) [OF assms _ refl refl] by blast
  qed (auto simp: bothEdits_def)
  with False show ?thesis
    using mergeText_cases [OF _ _ _ refl refl] applyEdits_combined [OF assms _ refl refl] clash_sym
    by metis
qed

theorem mergeText_commute_witness:
  "diff_laws lineDiff \<and> mergeText lineDiff (lit ''a'') (lit ''b'') (lit ''c'') = Conflict
   \<and> mergeText lineDiff (lit ''a'') (lit ''c'') (lit ''b'') = Conflict"
  using mergeText_commute [OF lineDiff_laws, of "lit ''a''" "lit ''b''" "lit ''c''"]
  by (simp add: lineDiff_laws mergeText_def lit_def edits_def flush_def Let_def sameEdit_def overlaps_def)

text \<open>
  C38: A two-way merge without a baseline drops no content: when it merges, the result is one of
  the two texts, and the non-blank lines of both texts occur in it, in order.
\<close>

theorem mergeWithoutBaseline_keeps_lines:
  assumes "mergeWithoutBaseline localText remoteText allow = Merged text"
  shows "(text = localText \<or> text = remoteText)
    \<and> subseq (contentLines localText) (contentLines text)
    \<and> subseq (contentLines remoteText) (contentLines text)"
  using assms by (auto simp: mergeWithoutBaseline_def containsLines_subseq split: if_splits)

theorem mergeWithoutBaseline_keeps_lines_witness:
  "mergeWithoutBaseline (lit ''a'') (lit ''a'' @ [10] @ lit ''b'') False = Merged (lit ''a'' @ [10] @ lit ''b'')
   \<and> subseq (contentLines (lit ''a'')) (contentLines (lit ''a'' @ [10] @ lit ''b''))"
proof -
  have "mergeWithoutBaseline (lit ''a'') (lit ''a'' @ [10] @ lit ''b'') False = Merged (lit ''a'' @ [10] @ lit ''b'')"
    by (simp add: mergeWithoutBaseline_def containsLines_def contentLines_def stripEol_def
        trim_def isSpace_def endsWith_def lit_def Let_def)
  with mergeWithoutBaseline_keeps_lines [OF this] show ?thesis by simp
qed

end
