(* ===== verification/Text_Diff.thy ===== *)
theory Text_Diff
  imports Js_Prelude
begin

text \<open>
  Writing a new text into a shared \<open>Y.Text\<close>: \<open>applyTextToYText\<close> of \<^verbatim>\<open>src/diff.ts\<close> and the
  simpler \<open>applyStringToYText\<close> of \<^verbatim>\<open>src/structured/reconcile.ts\<close>. Both trim the common
  prefix and suffix and replace the rest; only the first keeps its cuts out of UTF-16
  surrogate pairs.

  \<open>Y.Text\<close> belongs to the Yjs package. Its \<open>toString\<close>, \<open>delete\<close> and \<open>insert\<close> are
  arguments, and the locale \<open>ytext\<close> states what is relied on: positions count code units, and
  an operation behaves like the list operation as long as it cuts no surrogate pair and
  inserts a well-formed string. Nothing is assumed where a pair is cut (Yjs then writes U+FFFD
  for both halves, as the interpretation \<open>yjsText\<close> does).
\<close>

section \<open>Model\<close>

definition isHighSurrogate :: "16 word \<Rightarrow> bool" where
  "isHighSurrogate code \<longleftrightarrow> code \<ge> 0xd800 \<and> code \<le> 0xdbff"

definition isLowSurrogate :: "16 word \<Rightarrow> bool" where
  "isLowSurrogate code \<longleftrightarrow> code \<ge> 0xdc00 \<and> code \<le> 0xdfff"

function prefixLoop :: "jstr \<Rightarrow> jstr \<Rightarrow> nat \<Rightarrow> nat" where
  "prefixLoop old new start =
     (if start < min (length old) (length new) \<and> old ! start = new ! start
      then prefixLoop old new (Suc start) else start)"
  by pat_completeness auto
termination by (relation "measure (\<lambda>(old, new, start). length old - start)") auto

fun suffixLoop :: "jstr \<Rightarrow> jstr \<Rightarrow> nat \<Rightarrow> nat \<Rightarrow> nat \<Rightarrow> nat \<times> nat" where
  "suffixLoop old new start endOld endNew =
     (if endOld > start \<and> endNew > start \<and> old ! (endOld - 1) = new ! (endNew - 1)
      then suffixLoop old new start (endOld - 1) (endNew - 1) else (endOld, endNew))"

declare prefixLoop.simps [simp del] suffixLoop.simps [simp del]

text \<open>The changed region \<open>(start, endOld, endNew)\<close> of \<open>applyTextToYText\<close>.\<close>

definition changedRegion :: "jstr \<Rightarrow> jstr \<Rightarrow> nat \<times> nat \<times> nat" where
  "changedRegion oldText newText =
     (let start = prefixLoop oldText newText 0;
          start = (if start > 0 \<and> isHighSurrogate (oldText ! (start - 1)) then start - 1 else start);
          (endOld, endNew) = suffixLoop oldText newText start (length oldText) (length newText)
      in if endOld < length oldText \<and> isLowSurrogate (oldText ! endOld)
         then (start, endOld + 1, endNew + 1) else (start, endOld, endNew))"

definition replaceRegion ::
  "('t \<Rightarrow> nat \<Rightarrow> nat \<Rightarrow> 't) \<Rightarrow> ('t \<Rightarrow> nat \<Rightarrow> jstr \<Rightarrow> 't) \<Rightarrow> 't \<Rightarrow> jstr \<Rightarrow> nat \<times> nat \<times> nat \<Rightarrow> 't" where
  "replaceRegion del ins ytext newText region =
     (case region of (start, endOld, endNew) \<Rightarrow>
        let deleteCount = endOld - start;
            insertion = slice newText start endNew;
            ytext = (if deleteCount > 0 then del ytext start deleteCount else ytext)
        in if length insertion > 0 then ins ytext start insertion else ytext)"

definition applyTextToYText ::
  "('t \<Rightarrow> jstr) \<Rightarrow> ('t \<Rightarrow> nat \<Rightarrow> nat \<Rightarrow> 't) \<Rightarrow> ('t \<Rightarrow> nat \<Rightarrow> jstr \<Rightarrow> 't) \<Rightarrow> 't \<Rightarrow> jstr \<Rightarrow> 't" where
  "applyTextToYText str del ins ytext newText =
     (if str ytext = newText then ytext
      else replaceRegion del ins ytext newText (changedRegion (str ytext) newText))"

text \<open>The region of \<open>applyStringToYText\<close>: the same loops, no care for surrogates.\<close>

definition stringRegion :: "jstr \<Rightarrow> jstr \<Rightarrow> nat \<times> nat \<times> nat" where
  "stringRegion old new =
     (let pre = prefixLoop old new 0
      in (pre, suffixLoop old new pre (length old) (length new)))"

definition applyStringToYText ::
  "('t \<Rightarrow> jstr) \<Rightarrow> ('t \<Rightarrow> nat \<Rightarrow> nat \<Rightarrow> 't) \<Rightarrow> ('t \<Rightarrow> nat \<Rightarrow> jstr \<Rightarrow> 't) \<Rightarrow> 't \<Rightarrow> jstr \<Rightarrow> 't" where
  "applyStringToYText str del ins ytext new =
     (if str ytext = new then ytext
      else replaceRegion del ins ytext new (stringRegion (str ytext) new))"

section \<open>Surrogate pairs\<close>

definition splitsPair :: "jstr \<Rightarrow> nat \<Rightarrow> bool" where
  "splitsPair s i \<longleftrightarrow> 0 < i \<and> i < length s \<and> isHighSurrogate (s ! (i - 1)) \<and> isLowSurrogate (s ! i)"

fun wf16 :: "jstr \<Rightarrow> bool" where
  "wf16 [] = True"
| "wf16 [x] = (\<not> isHighSurrogate x \<and> \<not> isLowSurrogate x)"
| "wf16 (x # y # xs) =
     (if isHighSurrogate x then isLowSurrogate y \<and> wf16 xs
      else \<not> isLowSurrogate x \<and> wf16 (y # xs))"

lemma high_not_low: "isHighSurrogate x \<Longrightarrow> \<not> isLowSurrogate x"
  by (auto simp: isHighSurrogate_def isLowSurrogate_def word_le_nat_alt)

lemma wf16_high_next: "wf16 s \<Longrightarrow> i < length s \<Longrightarrow> isHighSurrogate (s ! i) \<Longrightarrow>
   Suc i < length s \<and> isLowSurrogate (s ! Suc i)"
proof (induction s arbitrary: i rule: wf16.induct)
  case (3 x y xs)
  show ?case
  proof (cases "isHighSurrogate x")
    case True
    consider "i = 0" | "i = 1" | j where "i = Suc (Suc j)" by (metis One_nat_def not0_implies_Suc)
    then show ?thesis
      using 3 True high_not_low by cases auto
  next
    case False
    then obtain j where "i = Suc j" using 3(5) by (cases i) auto
    then show ?thesis using 3 False by auto
  qed
qed auto

lemma wf16_splits:
  "wf16 s \<Longrightarrow> \<not> splitsPair s i \<Longrightarrow> i \<le> length s \<Longrightarrow> wf16 (take i s) \<and> wf16 (drop i s)"
proof (induction s arbitrary: i rule: wf16.induct)
  case (2 x)
  then show ?case by (cases i) auto
next
  case (3 x y xs)
  show ?case
  proof (cases "isHighSurrogate x")
    case True
    consider "i = 0" | "i = 1" | j where "i = Suc (Suc j)" by (metis One_nat_def not0_implies_Suc)
    then show ?thesis
    proof cases
      case (3 j)
      have "\<not> splitsPair xs j"
        using "3.prems"(2) 3 by (auto simp: splitsPair_def nth_Cons' split: if_splits)
      then show ?thesis using True "3.IH"(1) [of j] "3.prems" 3 by auto
    qed (use True "3.prems" in \<open>auto simp: splitsPair_def\<close>)
  next
    case False
    show ?thesis
    proof (cases i)
      case (Suc j)
      have "\<not> splitsPair (y # xs) j"
        using "3.prems"(2) Suc by (auto simp: splitsPair_def nth_Cons' split: if_splits)
      then have "wf16 (take j (y # xs)) \<and> wf16 (drop j (y # xs))"
        using False "3.IH"(2) "3.prems" Suc by simp
      then show ?thesis using False Suc "3.prems"(1) by (cases j) auto
    qed (use "3.prems" in simp)
  qed
qed simp

section \<open>The two loops\<close>

lemma prefixLoop_spec:
  "start \<le> min (length old) (length new) \<Longrightarrow> take start old = take start new \<Longrightarrow>
   (let p = prefixLoop old new start in
      p \<le> min (length old) (length new) \<and> take p old = take p new)"
proof (induction old new start rule: prefixLoop.induct)
  case (1 old new start)
  show ?case
  proof (cases "start < min (length old) (length new) \<and> old ! start = new ! start")
    case True
    then have "take (Suc start) old = take (Suc start) new"
      using "1.prems" by (simp add: take_Suc_conv_app_nth)
    with True "1.IH" show ?thesis by (simp add: prefixLoop.simps [of old new start])
  next
    case False
    with "1.prems" show ?thesis by (auto simp: prefixLoop.simps [of old new start])
  qed
qed

lemma suffixLoop_spec:
  "start \<le> endOld \<Longrightarrow> start \<le> endNew \<Longrightarrow> endOld \<le> length old \<Longrightarrow> endNew \<le> length new \<Longrightarrow>
   drop endOld old = drop endNew new \<Longrightarrow> suffixLoop old new start endOld endNew = (a, b) \<Longrightarrow>
   start \<le> a \<and> start \<le> b \<and> a \<le> length old \<and> b \<le> length new \<and> drop a old = drop b new"
proof (induction old new start endOld endNew rule: suffixLoop.induct)
  case (1 old new start endOld endNew)
  show ?case
  proof (cases "endOld > start \<and> endNew > start \<and> old ! (endOld - 1) = new ! (endNew - 1)")
    case True
    have "drop (endOld - 1) old = old ! (endOld - 1) # drop endOld old"
      "drop (endNew - 1) new = new ! (endNew - 1) # drop endNew new"
      using True "1.prems" Cons_nth_drop_Suc [of "endOld - 1" old] Cons_nth_drop_Suc [of "endNew - 1" new]
      by auto
    then have "drop (endOld - 1) old = drop (endNew - 1) new" using True "1.prems" by simp
    with True show ?thesis
      using "1.prems" by (intro "1.IH") (auto simp: suffixLoop.simps [of old new start endOld endNew])
  next
    case False
    with "1.prems" show ?thesis by (auto simp: suffixLoop.simps [of old new start endOld endNew])
  qed
qed

text \<open>A region is correct when the old text outside it equals the new text outside it.\<close>

definition regionOk :: "jstr \<Rightarrow> jstr \<Rightarrow> nat \<times> nat \<times> nat \<Rightarrow> bool" where
  "regionOk old new region = (case region of (start, endOld, endNew) \<Rightarrow>
     start \<le> endOld \<and> start \<le> endNew \<and> endOld \<le> length old \<and> endNew \<le> length new
     \<and> take start old = take start new \<and> drop endOld old = drop endNew new)"

lemma stringRegion_ok: "regionOk old new (stringRegion old new)"
proof -
  define p where "p = prefixLoop old new 0"
  obtain a b where ab: "suffixLoop old new p (length old) (length new) = (a, b)" by fastforce
  have p: "p \<le> length old" "p \<le> length new" "take p old = take p new"
    using prefixLoop_spec [of 0 old new] by (auto simp: p_def Let_def)
  show ?thesis
    using suffixLoop_spec [OF _ _ _ _ _ ab] p
    by (simp add: stringRegion_def regionOk_def Let_def p_def [symmetric] ab)
qed

lemma regionOk_new:
  "regionOk old new (start, endOld, endNew) \<Longrightarrow>
   take start old @ slice new start endNew @ drop endOld old = new"
proof -
  assume "regionOk old new (start, endOld, endNew)"
  then have ok: "start \<le> endNew" "take start old = take start new" "drop endOld old = drop endNew new"
    by (auto simp: regionOk_def)
  have "take start new @ slice new start endNew = take endNew new"
    using ok(1) take_add [of start "endNew - start" new] by (simp add: slice_def)
  then show ?thesis using ok by (metis append.assoc append_take_drop_id)
qed

text \<open>The region of \<open>applyTextToYText\<close>: correct, and its ends cut no surrogate pair.\<close>

definition regionSafe :: "jstr \<Rightarrow> jstr \<Rightarrow> nat \<times> nat \<times> nat \<Rightarrow> bool" where
  "regionSafe old new region = (case region of (start, endOld, endNew) \<Rightarrow>
     (0 < start \<longrightarrow> \<not> isHighSurrogate (old ! (start - 1)))
     \<and> \<not> splitsPair old endOld \<and> \<not> splitsPair new endNew)"

lemma changedRegion_ok:
  assumes "wf16 old"
  shows "regionOk old new (changedRegion old new) \<and> regionSafe old new (changedRegion old new)"
proof -
  define p where "p = prefixLoop old new 0"
  define s where "s = (if p > 0 \<and> isHighSurrogate (old ! (p - 1)) then p - 1 else p)"
  obtain a b where ab: "suffixLoop old new s (length old) (length new) = (a, b)" by fastforce
  have p: "p \<le> length old" "p \<le> length new" "take p old = take p new"
    using prefixLoop_spec [of 0 old new] by (auto simp: p_def Let_def)
  then have s: "s \<le> length old" "s \<le> length new" "take s old = take s new"
    by (auto simp: s_def) (metis diff_le_self min.absorb1 take_take)
  have sab: "s \<le> a" "s \<le> b" "a \<le> length old" "b \<le> length new" "drop a old = drop b new"
    using suffixLoop_spec [OF _ _ _ _ _ ab] s by auto
  have len: "length old - a = length new - b" using sab(5) by (metis length_drop)
  have tail: "old ! (a + i) = new ! (b + i)" if "a + i < length old" for i
    using sab that by (metis nth_drop)
  have start: "\<not> isHighSurrogate (old ! (s - 1))" if "0 < s"
  proof
    assume high: "isHighSurrogate (old ! (s - 1))"
    with that have "s = p - 1" "isHighSurrogate (old ! (p - 1))" "0 < p"
      by (auto simp: s_def split: if_splits)
    moreover have "isLowSurrogate (old ! s)"
      using wf16_high_next [OF assms _ high] s that by simp
    ultimately show False using high_not_low by auto
  qed
  have region: "changedRegion old new =
      (if a < length old \<and> isLowSurrogate (old ! a) then (s, a + 1, b + 1) else (s, a, b))"
    unfolding changedRegion_def Let_def p_def [symmetric] s_def [symmetric] ab by simp
  show ?thesis
  proof (cases "a < length old \<and> isLowSurrogate (old ! a)")
    case True
    have "0 < length old - a" using True by simp
    then have b: "b < length new" unfolding len by simp
    have "drop (a + 1) old = drop (b + 1) new"
      using sab(5) by (metis Suc_eq_plus1 drop_Suc tl_drop)
    moreover have "isLowSurrogate (new ! b)" using tail [of 0] True by simp
    ultimately show ?thesis
      using True b sab s start high_not_low unfolding region
      by (auto simp: regionOk_def regionSafe_def splitsPair_def)
  next
    case False
    then have "\<not> splitsPair old a" "\<not> splitsPair new b"
      using tail [of 0] len sab by (auto simp: splitsPair_def)
    with False show ?thesis
      using sab s start unfolding region by (auto simp: regionOk_def regionSafe_def)
  qed
qed

section \<open>The contract of a shared text\<close>

locale ytext =
  fixes str :: "'t \<Rightarrow> jstr"
    and del :: "'t \<Rightarrow> nat \<Rightarrow> nat \<Rightarrow> 't"
    and ins :: "'t \<Rightarrow> nat \<Rightarrow> jstr \<Rightarrow> 't"
  assumes del_text: "i + n \<le> length (str t) \<Longrightarrow> \<not> splitsPair (str t) i \<Longrightarrow> \<not> splitsPair (str t) (i + n) \<Longrightarrow>
      str (del t i n) = take i (str t) @ drop (i + n) (str t)"
    and ins_text: "i \<le> length (str t) \<Longrightarrow> \<not> splitsPair (str t) i \<Longrightarrow> wf16 s \<Longrightarrow>
      str (ins t i s) = take i (str t) @ s @ drop i (str t)"
begin

lemma str_replaceRegion:
  assumes ok: "regionOk (str t) new (start, endOld, endNew)"
    and start: "0 < start \<longrightarrow> \<not> isHighSurrogate (str t ! (start - 1))"
    and fin: "\<not> splitsPair (str t) endOld"
    and wf: "wf16 (slice new start endNew)"
  shows "str (replaceRegion del ins t new (start, endOld, endNew)) = new"
proof -
  let ?s = "str t" and ?i = "slice new start endNew"
  let ?mid = "if endOld - start > 0 then del t start (endOld - start) else t"
  have b: "start \<le> endOld" "endOld \<le> length ?s" using ok by (auto simp: regionOk_def)
  have safe: "\<not> splitsPair ?s start" using start by (auto simp: splitsPair_def)
  have mid: "str ?mid = take start ?s @ drop endOld ?s"
    using b safe fin del_text [of start "endOld - start" t] by auto
  have "str (if length ?i > 0 then ins ?mid start ?i else ?mid) = take start ?s @ ?i @ drop endOld ?s"
  proof (cases "?i = []")
    case False
    have "\<not> splitsPair (str ?mid) start"
      unfolding mid using start b by (auto simp: splitsPair_def nth_append)
    moreover have "start \<le> length (str ?mid)" unfolding mid using b by simp
    ultimately have "str (ins ?mid start ?i) = take start (str ?mid) @ ?i @ drop start (str ?mid)"
      using wf by (intro ins_text)
    then show ?thesis using False b by (simp only: mid) simp
  qed (use mid in simp)
  also have "\<dots> = new" by (rule regionOk_new [OF ok])
  finally show ?thesis by (simp only: replaceRegion_def prod.case Let_def)
qed

lemma str_applyTextToYText:
  assumes "wf16 (str t)" "wf16 new"
  shows "str (applyTextToYText str del ins t new) = new"
proof (cases "str t = new")
  case True
  then show ?thesis by (simp add: applyTextToYText_def)
next
  case False
  obtain start endOld endNew where r: "changedRegion (str t) new = (start, endOld, endNew)"
    by (metis prod_cases3)
  have ok: "regionOk (str t) new (start, endOld, endNew)"
    and safe: "regionSafe (str t) new (start, endOld, endNew)"
    using changedRegion_ok [OF assms(1), of new] by (simp_all add: r)
  have b: "start \<le> endNew" "endNew \<le> length new" "take start (str t) = take start new"
    "start \<le> length (str t)"
    using ok by (auto simp: regionOk_def)
  have "wf16 (take endNew new)"
    using wf16_splits [OF assms(2), of endNew] safe b by (simp add: regionSafe_def)
  moreover have "\<not> splitsPair (take endNew new) start"
  proof -
    have "take endNew new ! (start - 1) = str t ! (start - 1)" if "0 < start"
      using that b nth_take [of "start - 1" start new] nth_take [of "start - 1" start "str t"] by simp
    then show ?thesis using safe by (auto simp: regionSafe_def splitsPair_def)
  qed
  ultimately have "wf16 (drop start (take endNew new))"
    using wf16_splits [of "take endNew new" start] b by simp
  then have "wf16 (slice new start endNew)" by (simp add: slice_def drop_take)
  with ok safe have "str (replaceRegion del ins t new (start, endOld, endNew)) = new"
    by (intro str_replaceRegion) (auto simp: regionSafe_def)
  with False r show ?thesis by (simp add: applyTextToYText_def)
qed

end

text \<open>Without surrogates the simple region is as good.\<close>

context ytext
begin

lemma str_applyStringToYText:
  assumes "\<forall>u \<in> set (str t). \<not> isHighSurrogate u" "wf16 new" "\<forall>u \<in> set new. \<not> isHighSurrogate u"
  shows "str (applyStringToYText str del ins t new) = new"
proof (cases "str t = new")
  case True
  then show ?thesis by (simp add: applyStringToYText_def)
next
  case False
  obtain start endOld endNew where r: "stringRegion (str t) new = (start, endOld, endNew)"
    by (metis prod_cases3)
  have ok: "regionOk (str t) new (start, endOld, endNew)"
    using stringRegion_ok [of "str t" new] by (simp add: r)
  have b: "start \<le> endOld" "endOld \<le> length (str t)" "start \<le> endNew" "endNew \<le> length new"
    using ok by (auto simp: regionOk_def)
  have noSplit: "\<not> splitsPair s i" if "\<forall>u \<in> set s. \<not> isHighSurrogate u" for s i
    using that by (auto simp: splitsPair_def)
  have "wf16 (take endNew new)" using wf16_splits [OF assms(2) noSplit [OF assms(3)]] b by blast
  moreover have "\<forall>u \<in> set (take endNew new). \<not> isHighSurrogate u"
    using assms(3) by (meson in_set_takeD)
  ultimately have "wf16 (drop start (take endNew new))"
    using wf16_splits [OF _ noSplit] b by simp
  then have "wf16 (slice new start endNew)" by (simp add: slice_def drop_take)
  moreover have "0 < start \<longrightarrow> \<not> isHighSurrogate (str t ! (start - 1))"
    using assms(1) b by simp
  ultimately have "str (replaceRegion del ins t new (start, endOld, endNew)) = new"
    using ok noSplit [OF assms(1)] by (intro str_replaceRegion) auto
  with False r show ?thesis by (simp add: applyStringToYText_def)
qed

end

section \<open>A shared text that replaces the halves of a cut pair\<close>

definition cutLeft :: "jstr \<Rightarrow> nat \<Rightarrow> jstr" where
  "cutLeft s i = (if splitsPair s i then take (i - 1) s @ [0xFFFD] else take i s)"

definition cutRight :: "jstr \<Rightarrow> nat \<Rightarrow> jstr" where
  "cutRight s i = (if splitsPair s i then 0xFFFD # drop (i + 1) s else drop i s)"

definition textDelete :: "jstr \<Rightarrow> nat \<Rightarrow> nat \<Rightarrow> jstr" where
  "textDelete s i n = cutLeft s i @ cutRight s (i + n)"

definition textInsert :: "jstr \<Rightarrow> nat \<Rightarrow> jstr \<Rightarrow> jstr" where
  "textInsert s i x = cutLeft s i @ x @ cutRight s i"

interpretation yjsText: ytext "\<lambda>s. s" textDelete textInsert
  by unfold_locales (auto simp: textDelete_def textInsert_def cutLeft_def cutRight_def)

section \<open>Properties\<close>

text \<open>
  C20: Over any shared text that honours the contract, \<open>applyTextToYText\<close> leaves exactly the new
  text, whatever the old one was, as long as both are well-formed UTF-16; in particular its
  delete and insert never cut a surrogate pair.
\<close>

theorem applyTextToYText_writes:
  assumes "ytext str del ins" "wf16 (str t)" "wf16 new"
  shows "str (applyTextToYText str del ins t new) = new
    \<and> regionSafe (str t) new (changedRegion (str t) new)"
  using ytext.str_applyTextToYText [OF assms] changedRegion_ok [OF assms(2), of new] by blast

theorem applyTextToYText_writes_witness:
  "applyTextToYText (\<lambda>s. s) textDelete textInsert [0xD83D, 0xDE00, 33] [0xD83D, 0xDE01, 33]
     = [0xD83D, 0xDE01, 33]
   \<and> wf16 [0xD83D, 0xDE00, 33]"
proof -
  have "wf16 [0xD83D, 0xDE00, 33]" "wf16 [0xD83D, 0xDE01, 33]"
    by (simp_all add: isHighSurrogate_def isLowSurrogate_def)
  with applyTextToYText_writes [OF yjsText.ytext_axioms, of "[0xD83D, 0xDE00, 33]" "[0xD83D, 0xDE01, 33]"]
  show ?thesis by simp
qed

text \<open>
  The copy of this routine in the structured reconciler has no such care. Replacing one emoji
  by another that shares its high half, both texts well-formed, it cuts the pair, and a shared
  text that writes U+FFFD for cut halves ends with a different text than the one given.
\<close>

theorem applyStringToYText_cuts_pair:
  "wf16 [0xD83D, 0xDE00] \<and> wf16 [0xD83D, 0xDE01]
   \<and> (case stringRegion [0xD83D, 0xDE00] [0xD83D, 0xDE01] of (start, _, _) \<Rightarrow>
        splitsPair [0xD83D, 0xDE00] start)
   \<and> applyStringToYText (\<lambda>s. s) textDelete textInsert [0xD83D, 0xDE00] [0xD83D, 0xDE01]
       = [0xFFFD, 0xDE01]"
proof -
  have p: "prefixLoop [0xD83D, 0xDE00] [0xD83D, 0xDE01] 0 = 1"
    by (simp add: prefixLoop.simps)
  have s: "suffixLoop [0xD83D, 0xDE00] [0xD83D, 0xDE01] (Suc 0) 2 2 = (2, 2)"
    by (simp add: suffixLoop.simps)
  have r: "stringRegion [0xD83D, 0xDE00] [0xD83D, 0xDE01] = (1, 2, 2)"
    using p s by (simp add: stringRegion_def numeral_2_eq_2)
  show ?thesis
    by (simp add: r applyStringToYText_def replaceRegion_def slice_def textDelete_def textInsert_def
        cutLeft_def cutRight_def splitsPair_def isHighSurrogate_def isLowSurrogate_def)
qed

end
