(* ===== verification/Version_Lineage.thy ===== *)
theory Version_Lineage
  imports Js_Prelude
begin

text \<open>
  Versions of blob-backed files in the shared index: \<^verbatim>\<open>src/lineage.ts\<close> and the reconcile
  decision for settings files, \<open>decideConfigReconcile\<close> of \<^verbatim>\<open>src/ConfigSync.ts\<close>, which reads
  the lineage to tell a remote update from a lost race. Fields that arrive from other clients
  are JSON values (or absent), because the code checks their shape before it uses them.
\<close>

section \<open>Model: lineage\<close>

definition LINEAGE_LENGTH :: nat where "LINEAGE_LENGTH = 8"
definition PREFIX_LENGTH :: nat where "PREFIX_LENGTH = 16"

record ventry =
  vHash :: jstr
  vPrev :: "json option"
  vLineage :: "json option"

fun onlyStrings :: "json list \<Rightarrow> jstr list" where
  "onlyStrings [] = []"
| "onlyStrings (JStr s # xs) = s # onlyStrings xs"
| "onlyStrings (_ # xs) = onlyStrings xs"

definition lineageAfter :: "('a ventry_scheme) option \<Rightarrow> jstr list" where
  "lineageAfter replaced =
     (case replaced of
        None \<Rightarrow> []
      | Some e \<Rightarrow>
          if vHash e = [] then []
          else let prior = (case vLineage e of Some (JArr xs) \<Rightarrow> onlyStrings xs | _ \<Rightarrow> [])
               in take LINEAGE_LENGTH (take PREFIX_LENGTH (vHash e) # prior))"

definition descendsFrom :: "('a ventry_scheme) \<Rightarrow> jstr \<Rightarrow> bool" where
  "descendsFrom entry ancestor =
     (if vPrev entry = Some (JStr ancestor) then True
      else case vLineage entry of
             Some (JArr xs) \<Rightarrow> JStr (take PREFIX_LENGTH ancestor) \<in> set xs
           | _ \<Rightarrow> False)"

text \<open>
  The entry a device publishes in place of \<open>replaced\<close>: \<open>prev\<close> is the replaced hash or null,
  and \<open>lineage\<close> is left out when empty.
\<close>

definition publishEntry :: "ventry option \<Rightarrow> jstr \<Rightarrow> ventry" where
  "publishEntry replaced hash =
     (let lineage = lineageAfter replaced
      in \<lparr>vHash = hash,
          vPrev = Some (case replaced of None \<Rightarrow> JNull | Some e \<Rightarrow> JStr (vHash e)),
          vLineage = (if length lineage > 0 then Some (JArr (map JStr lineage)) else None)\<rparr>)"

section \<open>Model: the reconcile decision for settings files\<close>

record config_meta = ventry +
  cmSize :: nat
  cmMtime :: int

datatype config_action = CNone | CUpload | CDownload | CDeleteLocal | CDeleteRemote | CMerge

record config_opts =
  initialPull :: bool
  canMerge :: bool
  replacedHash :: "jstr option option"
  ownBase :: "bool option"

definition decideConfigReconcile ::
  "config_meta option \<Rightarrow> config_meta option \<Rightarrow> jstr option \<Rightarrow> config_opts \<Rightarrow> config_action" where
  "decideConfigReconcile local remote base opts =
     (let localHash = map_option vHash local; remoteHash = map_option vHash remote
      in if localHash = remoteHash then CNone
         else case (local, remote) of
           (Some l, None) \<Rightarrow>
             (if base = None then CUpload
              else if base = Some (vHash l) then CDeleteLocal
              else CUpload)
         | (None, Some r) \<Rightarrow>
             (if base = Some (vHash r) \<and> \<not> initialPull opts then CDeleteRemote else CDownload)
         | (Some l, Some r) \<Rightarrow>
             (let conflict = (if canMerge opts then CMerge
                              else if cmMtime l \<ge> cmMtime r then CUpload else CDownload)
              in case base of
                   None \<Rightarrow> CDownload
                 | Some b \<Rightarrow>
                     if b = vHash r then CUpload
                     else if b = vHash l then
                       (if descendsFrom r b then CDownload
                        else if replacedHash opts \<noteq> None \<and> replacedHash opts = Some (Some (vHash r)) then CUpload
                        else if ownBase opts = Some False then CDownload
                        else if vPrev r = None then CDownload
                        else conflict)
                     else conflict)
         | (None, None) \<Rightarrow> CNone)"

section \<open>Chains of publishes\<close>

text \<open>The entry after publishing the given hashes one over the other, newest first.\<close>

fun publishChain :: "jstr list \<Rightarrow> ventry option" where
  "publishChain [] = None"
| "publishChain (h # hs) = Some (publishEntry (publishChain hs) h)"

lemma onlyStrings_map [simp]: "onlyStrings (map JStr xs) = xs"
  by (induction xs) auto

lemma lineageAfter_bound: "length (lineageAfter e) \<le> LINEAGE_LENGTH"
  by (auto simp: lineageAfter_def LINEAGE_LENGTH_def split: option.splits)

lemma vHash_publishEntry [simp]: "vHash (publishEntry r h) = h"
  by (simp add: publishEntry_def Let_def)

lemma lineageAfter_publishEntry:
  "[] \<noteq> h \<Longrightarrow> lineageAfter (Some (publishEntry r h)) =
     take LINEAGE_LENGTH (take PREFIX_LENGTH h # lineageAfter r)"
  by (auto simp: lineageAfter_def publishEntry_def Let_def)

lemma lineageAfter_chain:
  "[] \<notin> set hs \<Longrightarrow> lineageAfter (publishChain hs) = map (take PREFIX_LENGTH) (take LINEAGE_LENGTH hs)"
proof (induction hs)
  case Nil
  then show ?case by (simp add: lineageAfter_def)
next
  case (Cons h hs)
  have "take LINEAGE_LENGTH (x # map f (take LINEAGE_LENGTH hs)) = take LINEAGE_LENGTH (x # map f hs)"
    for x and f :: "jstr \<Rightarrow> jstr"
    by (simp add: LINEAGE_LENGTH_def take_map)
  with Cons show ?case
    by (simp add: lineageAfter_publishEntry take_map [symmetric])
qed

lemma descendsFrom_publishEntry:
  "descendsFrom (publishEntry r h) a \<longleftrightarrow>
     (\<exists>e. r = Some e \<and> vHash e = a) \<or> take PREFIX_LENGTH a \<in> set (lineageAfter r)"
  by (auto simp: descendsFrom_def publishEntry_def Let_def split: option.splits)

section \<open>Properties\<close>

text \<open>
  C21: However long the history of a path, an entry published over it records at most eight
  ancestors, descends from each of the eight versions before it, and claims to descend only
  from hashes that agree in their first sixteen digits with one of those eight.
\<close>

theorem publishChain_descends:
  assumes "[] \<notin> set hs" "publishChain (h # hs) = Some e"
  shows "length (lineageAfter (publishChain hs)) \<le> 8
    \<and> (\<forall>a \<in> set (take 8 hs). descendsFrom e a)
    \<and> (\<forall>a. descendsFrom e a \<longrightarrow> (\<exists>b \<in> set (take 8 hs). take 16 b = take 16 a))"
proof (intro conjI ballI allI impI)
  have e: "e = publishEntry (publishChain hs) h" using assms(2) by simp
  have lin: "lineageAfter (publishChain hs) = map (take 16) (take 8 hs)"
    using lineageAfter_chain [OF assms(1)] by (simp add: PREFIX_LENGTH_def LINEAGE_LENGTH_def)
  show "length (lineageAfter (publishChain hs)) \<le> 8" by (simp add: lin)
  show "descendsFrom e a" if "a \<in> set (take 8 hs)" for a
    using that by (auto simp: e descendsFrom_publishEntry lin PREFIX_LENGTH_def)
  show "\<exists>b \<in> set (take 8 hs). take 16 b = take 16 a" if "descendsFrom e a" for a
  proof (cases "take 16 a \<in> set (map (take 16) (take 8 hs))")
    case True
    then show ?thesis by auto
  next
    case False
    with that obtain x where "publishChain hs = Some x" "vHash x = a"
      unfolding e descendsFrom_publishEntry lin PREFIX_LENGTH_def by blast
    then show ?thesis by (cases hs) auto
  qed
qed

theorem publishChain_descends_witness:
  "(\<exists>e. publishChain [lit ''c3'', lit ''b2'', lit ''a1''] = Some e \<and> descendsFrom e (lit ''a1''))
   \<and> [] \<notin> set [lit ''b2'', lit ''a1'']"
  using publishChain_descends [of "[lit ''b2'', lit ''a1'']" "lit ''c3''"] by simp



end
