(* ===== verification/Document_Epoch.thy ===== *)
theory Document_Epoch
  imports Js_Prelude
begin

text \<open>
  The durable epoch of each document on this device: \<^verbatim>\<open>src/documentEpoch.ts\<close>.

  The state is the browser's \<open>localStorage\<close> (strings), the fallback \<open>Map\<close> used where there is no
  \<open>localStorage\<close> (numbers), and the registered proposal handler. A number argument is a
  rational, or \<open>None\<close> for NaN and the infinities; \<open>String(n)\<close> of a safe integer is \<open>decimal\<close>.
  \<open>Number(text)\<close> is an argument of the definitions: all that is used of it is the locale
  \<open>number_text\<close>, that it reads back what \<open>String\<close> wrote; \<open>parseDecimal\<close> is an instance.
\<close>

section \<open>Numbers and their text\<close>

definition MAX_SAFE_INTEGER :: int where "MAX_SAFE_INTEGER = 9007199254740991"

definition isSafeInteger :: "rat option \<Rightarrow> bool" where
  "isSafeInteger x =
     (case x of None \<Rightarrow> False
      | Some q \<Rightarrow> of_int \<lfloor>q\<rfloor> = q \<and> \<bar>q\<bar> \<le> of_int MAX_SAFE_INTEGER)"

fun decimal :: "nat \<Rightarrow> jstr" where
  "decimal n = (if n < 10 then [48 + of_nat n] else decimal (n div 10) @ [48 + of_nat (n mod 10)])"

declare decimal.simps [simp del]

section \<open>Model\<close>

record epoch_settings =
  authServerId :: jstr
  authServerUrl :: jstr
  activeVaultId :: jstr

record epoch_state =
  hasLocalStorage :: bool
  localStorage :: "(jstr, jstr) jmap"
  fallbackEpochs :: "(jstr, rat) jmap"

datatype epoch_error =
    InvalidEpoch "rat option" jstr
  | EpochBackward int int jstr
  | NoProposalHandler jstr int

definition STORAGE_PREFIX :: jstr where "STORAGE_PREFIX = lit ''realtime:document-epoch''"

definition serverName :: "epoch_settings \<Rightarrow> jstr" where
  "serverName settings = (if authServerId settings \<noteq> [] then authServerId settings else authServerUrl settings)"

definition storageKey :: "epoch_settings \<Rightarrow> jstr \<Rightarrow> jstr" where
  "storageKey settings documentId =
     STORAGE_PREFIX @ lit '':'' @ serverName settings @ lit '':'' @ documentId"

definition getDocumentEpoch ::
  "(jstr \<Rightarrow> rat option) \<Rightarrow> epoch_settings \<Rightarrow> epoch_state \<Rightarrow> jstr \<Rightarrow> int" where
  "getDocumentEpoch toNumber settings st documentId =
     (let key = storageKey settings documentId;
          epoch = (if \<not> hasLocalStorage st
                   then jget (fallbackEpochs st) key
                   else case jget (localStorage st) key of
                          None \<Rightarrow> Some 0
                        | Some raw \<Rightarrow> toNumber raw)
      in if isSafeInteger epoch \<and> the epoch \<ge> 0 then \<lfloor>the epoch\<rfloor> else 0)"

definition storeEpoch :: "epoch_settings \<Rightarrow> epoch_state \<Rightarrow> jstr \<Rightarrow> rat \<Rightarrow> epoch_state" where
  "storeEpoch settings st documentId epoch =
     (let key = storageKey settings documentId
      in if \<not> hasLocalStorage st
         then st\<lparr>fallbackEpochs := jset (fallbackEpochs st) key epoch\<rparr>
         else st\<lparr>localStorage := jset (localStorage st) key (decimal (nat \<lfloor>epoch\<rfloor>))\<rparr>)"

definition setDocumentEpoch ::
  "(jstr \<Rightarrow> rat option) \<Rightarrow> epoch_settings \<Rightarrow> epoch_state \<Rightarrow> jstr \<Rightarrow> rat option
   \<Rightarrow> epoch_error + (bool \<times> epoch_state)" where
  "setDocumentEpoch toNumber settings st documentId epoch =
     (if \<not> isSafeInteger epoch \<or> the epoch < 0 then Inl (InvalidEpoch epoch documentId)
      else
        let previous = getDocumentEpoch toNumber settings st documentId
        in if the epoch < of_int previous
           then Inl (EpochBackward previous \<lfloor>the epoch\<rfloor> documentId)
           else Inr (of_int previous \<noteq> the epoch, storeEpoch settings st documentId (the epoch)))"

definition rewindDocumentEpoch ::
  "epoch_settings \<Rightarrow> epoch_state \<Rightarrow> jstr \<Rightarrow> rat option \<Rightarrow> epoch_error + epoch_state" where
  "rewindDocumentEpoch settings st documentId epoch =
     (if \<not> isSafeInteger epoch \<or> the epoch < 0 then Inl (InvalidEpoch epoch documentId)
      else Inr (storeEpoch settings st documentId (the epoch)))"

definition epochStoreBaseName :: "epoch_settings \<Rightarrow> jstr \<Rightarrow> jstr" where
  "epochStoreBaseName settings documentId =
     (if documentId = activeVaultId settings
      then lit ''realtime:index:'' @ serverName settings @ lit '':'' @ documentId
      else if includesStr documentId (lit ''__plugindb__'')
      then lit ''realtime:plugindb:'' @ serverName settings @ lit '':'' @ documentId
      else documentId)"

definition epochPersistenceName :: "jstr \<Rightarrow> nat \<Rightarrow> jstr" where
  "epochPersistenceName baseName epoch =
     (if epoch = 0 then baseName else baseName @ lit '':epoch:'' @ decimal epoch)"

text \<open>The registered handler is a state transformer of whoever registered it.\<close>

definition handleEpochProposal ::
  "(jstr \<Rightarrow> int \<Rightarrow> 's \<Rightarrow> epoch_error + 's) option \<Rightarrow> jstr \<Rightarrow> int \<Rightarrow> 's \<Rightarrow> epoch_error + 's" where
  "handleEpochProposal proposalHandler documentId epoch s =
     (case proposalHandler of
        None \<Rightarrow> Inl (NoProposalHandler documentId epoch)
      | Some handler \<Rightarrow> handler documentId epoch s)"

definition resetDocumentEpochState :: "epoch_state \<Rightarrow> epoch_state" where
  "resetDocumentEpochState st = st\<lparr>fallbackEpochs := []\<rparr>"

section \<open>Reading back decimal text\<close>

locale number_text =
  fixes toNumber :: "jstr \<Rightarrow> rat option"
  assumes toNumber_decimal: "int n \<le> MAX_SAFE_INTEGER \<Longrightarrow> toNumber (decimal n) = Some (of_nat n)"
begin

lemma decimal_inject_safe:
  "int m \<le> MAX_SAFE_INTEGER \<Longrightarrow> int n \<le> MAX_SAFE_INTEGER \<Longrightarrow> decimal m = decimal n \<Longrightarrow> m = n"
  by (metis of_nat_eq_iff option.inject toNumber_decimal)

end

definition digitValue :: "16 word \<Rightarrow> nat" where
  "digitValue u = unat u - 48"

definition parseDecimal :: "jstr \<Rightarrow> rat option" where
  "parseDecimal s =
     (if s \<noteq> [] \<and> (\<forall>u \<in> set s. 48 \<le> u \<and> u \<le> 57)
      then Some (of_nat (foldl (\<lambda>a u. 10 * a + digitValue u) 0 s)) else None)"

lemma unat_digit: "d < 10 \<Longrightarrow> unat (48 + of_nat d :: 16 word) = 48 + d"
proof -
  assume "d < 10"
  then have "unat (of_nat d :: 16 word) = d" by (simp add: unat_of_nat take_bit_eq_mod)
  then show ?thesis using \<open>d < 10\<close> by (simp add: unat_word_ariths)
qed

lemma digit_range: "d < 10 \<Longrightarrow> 48 \<le> (48 + of_nat d :: 16 word) \<and> (48 + of_nat d :: 16 word) \<le> 57"
  by (simp add: word_le_nat_alt unat_digit)

lemma digits_decimal:
  "decimal n \<noteq> [] \<and> (\<forall>u \<in> set (decimal n). 48 \<le> u \<and> u \<le> 57)
   \<and> foldl (\<lambda>a u. 10 * a + digitValue u) 0 (decimal n) = n"
proof (induction n rule: decimal.induct)
  case (1 n)
  show ?case
  proof (cases "n < 10")
    case True
    then show ?thesis
      using digit_range [of n] by (simp add: decimal.simps [of n] digitValue_def unat_digit)
  next
    case False
    have "n mod 10 < 10" by simp
    with 1 False digit_range [of "n mod 10"] show ?thesis
      by (simp add: decimal.simps [of n] digitValue_def unat_digit)
  qed
qed

interpretation dec: number_text parseDecimal
  by unfold_locales (use digits_decimal in \<open>auto simp: parseDecimal_def\<close>)

lemma decimal_inject: "decimal m = decimal n \<longleftrightarrow> m = n"
  by (metis digits_decimal)

section \<open>Reading what was stored\<close>

lemma storageKey_inject [simp]: "storageKey settings d = storageKey settings d' \<longleftrightarrow> d = d'"
  by (simp add: storageKey_def)

lemma safe_nat:
  assumes "isSafeInteger (Some q)" "0 \<le> q"
  shows "of_nat (nat \<lfloor>q\<rfloor>) = q" "int (nat \<lfloor>q\<rfloor>) \<le> MAX_SAFE_INTEGER" "0 \<le> \<lfloor>q\<rfloor>"
proof -
  have q: "of_int \<lfloor>q\<rfloor> = q" "q \<le> of_int MAX_SAFE_INTEGER"
    using assms by (auto simp: isSafeInteger_def)
  show nn: "0 \<le> \<lfloor>q\<rfloor>" using assms(2) by simp
  then show "of_nat (nat \<lfloor>q\<rfloor>) = q" using q(1) by (simp add: of_nat_nat)
  from q have "\<lfloor>q\<rfloor> \<le> MAX_SAFE_INTEGER" by (metis of_int_le_iff)
  with nn show "int (nat \<lfloor>q\<rfloor>) \<le> MAX_SAFE_INTEGER" by simp
qed

context number_text
begin

lemma get_storeEpoch:
  assumes "isSafeInteger (Some q)" "0 \<le> q"
  shows "getDocumentEpoch toNumber settings (storeEpoch settings st d q) d' =
    (if d' = d then \<lfloor>q\<rfloor> else getDocumentEpoch toNumber settings st d')"
proof -
  have "toNumber (decimal (nat \<lfloor>q\<rfloor>)) = Some q"
    using toNumber_decimal [OF safe_nat(2) [OF assms]] safe_nat(1) [OF assms] by simp
  then show ?thesis
    using assms by (simp add: getDocumentEpoch_def storeEpoch_def Let_def)
qed

lemma setDocumentEpoch_ok:
  assumes "setDocumentEpoch toNumber settings st d epoch = Inr (changed, st')"
  shows "\<exists>q. epoch = Some q \<and> isSafeInteger (Some q) \<and> 0 \<le> q
    \<and> getDocumentEpoch toNumber settings st d \<le> \<lfloor>q\<rfloor>
    \<and> changed = (getDocumentEpoch toNumber settings st d \<noteq> \<lfloor>q\<rfloor>)
    \<and> st' = storeEpoch settings st d q"
proof -
  let ?p = "getDocumentEpoch toNumber settings st d"
  obtain q where e: "epoch = Some q" "isSafeInteger (Some q)" "0 \<le> q"
    using assms by (cases epoch) (auto simp: setDocumentEpoch_def isSafeInteger_def split: if_splits)
  have q: "of_int \<lfloor>q\<rfloor> = q" using e(2) by (simp add: isSafeInteger_def)
  have "\<not> q < of_int ?p" "changed = (of_int ?p \<noteq> q)" "st' = storeEpoch settings st d q"
    using assms e by (auto simp: setDocumentEpoch_def Let_def split: if_splits)
  then show ?thesis using e q by (metis not_less of_int_eq_iff of_int_le_iff)
qed

end

section \<open>Properties\<close>

text \<open>
  C32: A successful \<open>setDocumentEpoch\<close> stores a non-negative safe integer that is not below the
  document's epoch, reports whether it changed, is read back exactly, in either storage, and
  leaves the epoch of every other document as it was. It fails, changing nothing, exactly for a
  value that is no non-negative safe integer or that would move the epoch backward.
\<close>

theorem setDocumentEpoch_monotone:
  assumes "number_text toNumber"
  shows "case setDocumentEpoch toNumber settings st d epoch of
      Inr (changed, st') \<Rightarrow>
        Some (of_int (getDocumentEpoch toNumber settings st' d)) = epoch
        \<and> getDocumentEpoch toNumber settings st d \<le> getDocumentEpoch toNumber settings st' d
        \<and> changed = (getDocumentEpoch toNumber settings st d \<noteq> getDocumentEpoch toNumber settings st' d)
        \<and> (\<forall>d'. d' \<noteq> d \<longrightarrow> getDocumentEpoch toNumber settings st' d' = getDocumentEpoch toNumber settings st d')
    | Inl e \<Rightarrow> \<not> isSafeInteger epoch \<or> the epoch < 0
        \<or> the epoch < of_int (getDocumentEpoch toNumber settings st d)"
proof (cases "setDocumentEpoch toNumber settings st d epoch")
  case (Inl e)
  then show ?thesis by (auto simp: setDocumentEpoch_def Let_def split: if_splits)
next
  case (Inr r)
  obtain changed st' where r: "r = (changed, st')" by (cases r)
  obtain q where q: "epoch = Some q" "isSafeInteger (Some q)" "0 \<le> q"
      "getDocumentEpoch toNumber settings st d \<le> \<lfloor>q\<rfloor>"
      "changed = (getDocumentEpoch toNumber settings st d \<noteq> \<lfloor>q\<rfloor>)" "st' = storeEpoch settings st d q"
    using number_text.setDocumentEpoch_ok [OF assms] Inr r by blast
  moreover have "of_int \<lfloor>q\<rfloor> = q" using q(2) by (simp add: isSafeInteger_def)
  ultimately show ?thesis
    using Inr r number_text.get_storeEpoch [OF assms q(2,3)] by simp
qed

theorem setDocumentEpoch_monotone_witness:
  "case setDocumentEpoch parseDecimal \<lparr>authServerId = lit ''s'', authServerUrl = [], activeVaultId = lit ''v''\<rparr>
      \<lparr>hasLocalStorage = False, localStorage = [], fallbackEpochs = []\<rparr> (lit ''d'') (Some 7) of
     Inr (changed, st') \<Rightarrow> changed
       \<and> getDocumentEpoch parseDecimal \<lparr>authServerId = lit ''s'', authServerUrl = [], activeVaultId = lit ''v''\<rparr>
           st' (lit ''d'') = 7
   | Inl e \<Rightarrow> False"
  using setDocumentEpoch_monotone [OF dec.number_text_axioms,
      where settings = "\<lparr>authServerId = lit ''s'', authServerUrl = [], activeVaultId = lit ''v''\<rparr>"
        and st = "\<lparr>hasLocalStorage = False, localStorage = [], fallbackEpochs = []\<rparr>"
        and d = "lit ''d''" and epoch = "Some 7"]
  by (simp add: setDocumentEpoch_def getDocumentEpoch_def storeEpoch_def isSafeInteger_def
      MAX_SAFE_INTEGER_def Let_def)

text \<open>
  Each epoch of a document has a local store of its own: two epochs of one base name give
  the same IndexedDB name only if they are equal.
\<close>

theorem epochPersistenceName_inject:
  "epochPersistenceName base e1 = epochPersistenceName base e2 \<longleftrightarrow> e1 = e2"
  by (auto simp: epochPersistenceName_def decimal_inject)

end
