(* ===== verification/Bootstrap_Events.thy ===== *)
theory Bootstrap_Events
  imports Js_Prelude
begin

text \<open>
  The log of vault events captured before the initial sync: the class \<open>BootstrapEventLog\<close> of
  \<^verbatim>\<open>src/bootstrapEvents.ts\<close>. A \<open>Map\<close> is an association list, a \<open>Set\<close> a list without
  repetitions, both in insertion order.

  The specification is the vault itself (\<open>vault\<close>): which file is at which path, a file being
  known by its path when the window opened, and which original files are gone. Every operation
  of the log refines the event on the vault; \<open>plan\<close> is shown to reproduce the vault when its
  steps are replayed on the index as it was when the window opened.
\<close>

section \<open>Model\<close>

record tfile =
  fpath :: jstr

record captured =
  cOrigin :: "jstr option"
  cFile :: tfile
  cModified :: bool

record event_log =
  current :: "(jstr, captured) jmap"
  movedFrom :: "(jstr, jstr) jmap"
  deletedSet :: "jstr list"

datatype step = Delete jstr | Rename jstr tfile | Create tfile | Modify tfile

definition emptyLog :: event_log where
  "emptyLog = \<lparr>current = [], movedFrom = [], deletedSet = []\<rparr>"

definition isEmptyLog :: "event_log \<Rightarrow> bool" where
  "isEmptyLog lg \<longleftrightarrow> current lg = [] \<and> deletedSet lg = []"

definition originOf :: "event_log \<Rightarrow> jstr \<Rightarrow> jstr option" where
  "originOf lg path = (case jget (current lg) path of Some entry \<Rightarrow> cOrigin entry | None \<Rightarrow> Some path)"

definition setAdd :: "'a list \<Rightarrow> 'a \<Rightarrow> 'a list" where
  "setAdd xs x = (if x \<in> set xs then xs else xs @ [x])"

definition createEv :: "jstr \<Rightarrow> tfile \<Rightarrow> event_log \<Rightarrow> event_log" where
  "createEv path file lg =
     (let replaces = path \<in> set (deletedSet lg)
      in lg\<lparr>deletedSet := removeAll path (deletedSet lg),
             current := jset (current lg) path
               \<lparr>cOrigin = (if replaces then Some path else None), cFile = file, cModified = replaces\<rparr>\<rparr>)"

definition modifyEv :: "jstr \<Rightarrow> tfile \<Rightarrow> event_log \<Rightarrow> event_log" where
  "modifyEv path file lg =
     (case jget (current lg) path of
        Some entry \<Rightarrow> lg\<lparr>current := jset (current lg) path (entry\<lparr>cModified := True, cFile := file\<rparr>)\<rparr>
      | None \<Rightarrow> lg\<lparr>current := jset (current lg) path
                      \<lparr>cOrigin = Some path, cFile = file, cModified = True\<rparr>\<rparr>)"

definition deleteEv :: "jstr \<Rightarrow> event_log \<Rightarrow> event_log" where
  "deleteEv path lg =
     (let origin = originOf lg path;
          lg = lg\<lparr>current := jdel (current lg) path\<rparr>
      in case origin of
           None \<Rightarrow> lg
         | Some orig \<Rightarrow> lg\<lparr>movedFrom := jdel (movedFrom lg) orig,
                            deletedSet := setAdd (deletedSet lg) orig\<rparr>)"

definition renameEv :: "jstr \<Rightarrow> jstr \<Rightarrow> tfile \<Rightarrow> event_log \<Rightarrow> event_log" where
  "renameEv oldPath newPath file lg =
     (let entry = jget (current lg) oldPath;
          origin = (case entry of Some e \<Rightarrow> cOrigin e | None \<Rightarrow> Some oldPath);
          modified = (case entry of Some e \<Rightarrow> cModified e | None \<Rightarrow> False);
          lg = lg\<lparr>current := jset (jdel (current lg) oldPath) newPath
                      \<lparr>cOrigin = origin, cFile = file, cModified = modified\<rparr>\<rparr>
      in case origin of
           None \<Rightarrow> lg
         | Some orig \<Rightarrow>
             if orig = newPath then lg\<lparr>movedFrom := jdel (movedFrom lg) orig\<rparr>
             else lg\<lparr>movedFrom := jset (movedFrom lg) orig newPath\<rparr>)"

definition removedPath :: "event_log \<Rightarrow> jstr \<Rightarrow> bool" where
  "removedPath lg path \<longleftrightarrow>
     \<not> jhas (current lg) path \<and> (path \<in> set (deletedSet lg) \<or> jhas (movedFrom lg) path)"

definition renamedFrom :: "event_log \<Rightarrow> jstr \<Rightarrow> jstr option" where
  "renamedFrom lg path =
     (case jget (current lg) path of
        None \<Rightarrow> None
      | Some entry \<Rightarrow>
          (case cOrigin entry of
             None \<Rightarrow> None
           | Some orig \<Rightarrow> if orig \<noteq> [] \<and> orig \<noteq> path then Some orig else None))"

subsection \<open>The plan\<close>

record move =
  mFrom :: jstr
  mTo :: jstr
  mFile :: tfile

function planLoop :: "move list \<Rightarrow> step list \<times> step list" where
  "planLoop pending =
     (if pending = [] then ([], [])
      else
        let vacating = set (map mFrom pending);
            ready = filter (\<lambda>rename. mTo rename \<notin> vacating) pending
        in if ready = [] then ([], map (\<lambda>rename. Modify (mFile rename)) pending)
           else let (steps, inPlace) = planLoop (filter (\<lambda>rename. rename \<notin> set ready) pending)
                in (map (\<lambda>rename. Rename (mFrom rename) (mFile rename)) ready @ steps, inPlace))"
  by pat_completeness auto
termination
proof (relation "measure length")
  fix pending :: "move list" and x xa
  assume "pending \<noteq> []" "x = set (map mFrom pending)" "xa = filter (\<lambda>r. mTo r \<notin> x) pending" "xa \<noteq> []"
  note xa = this
  obtain r where "r \<in> set xa" using xa(4) by (meson last_in_set)
  with xa(3) have "r \<in> set pending" "r \<in> set xa" by (auto simp del: set_map)
  then show "(filter (\<lambda>r. r \<notin> set xa) pending, pending) \<in> measure length"
    by (auto intro!: length_filter_less)
qed simp

declare planLoop.simps [simp del]

definition movesOf :: "(jstr, captured) jmap \<Rightarrow> move list" where
  "movesOf cur =
     map (\<lambda>(path, entry). \<lparr>mFrom = the (cOrigin entry), mTo = path, mFile = cFile entry\<rparr>)
       (filter (\<lambda>(path, entry). cOrigin entry \<noteq> None \<and> cOrigin entry \<noteq> Some path) cur)"

definition editSteps :: "(jstr, captured) jmap \<Rightarrow> step list" where
  "editSteps cur =
     concat (map (\<lambda>(path, entry).
       if cOrigin entry = None then [Create (cFile entry)]
       else if cOrigin entry = Some path \<and> cModified entry then [Modify (cFile entry)]
       else []) cur)"

definition plan :: "event_log \<Rightarrow> step list" where
  "plan lg =
     (let (renames, inPlace) = planLoop (movesOf (current lg))
      in map Delete (deletedSet lg) @ renames @ editSteps (current lg) @ inPlace)"

section \<open>Specification: the vault and the index\<close>

text \<open>\<open>holds p = Some (Some q)\<close>: the file now at \<open>p\<close> is the one that was at \<open>q\<close> (or
  replaces it in place); \<open>Some None\<close>: a file created in the window.\<close>

record vault =
  holds :: "jstr \<Rightarrow> jstr option option"
  gone :: "jstr set"

datatype event = ECreate jstr | EModify jstr | EDelete jstr | ERename jstr jstr

definition startVault :: "jstr set \<Rightarrow> vault" where
  "startVault P = \<lparr>holds = (\<lambda>p. if p \<in> P then Some (Some p) else None), gone = {}\<rparr>"

fun vaultStep :: "event \<Rightarrow> vault \<Rightarrow> vault" where
  "vaultStep (ECreate p) v =
     v\<lparr>holds := (holds v)(p := Some (if p \<in> gone v then Some p else None)), gone := gone v - {p}\<rparr>"
| "vaultStep (EModify p) v = v"
| "vaultStep (EDelete p) v =
     v\<lparr>holds := (holds v)(p := None),
       gone := (case holds v p of Some (Some q) \<Rightarrow> insert q (gone v) | _ \<Rightarrow> gone v)\<rparr>"
| "vaultStep (ERename p q) v = v\<lparr>holds := (holds v)(p := None, q := holds v p)\<rparr>"

text \<open>What the file system allows: a new file and a rename need a free path, the others a file.\<close>

fun possible :: "event \<Rightarrow> vault \<Rightarrow> bool" where
  "possible (ECreate p) v \<longleftrightarrow> holds v p = None"
| "possible (EModify p) v \<longleftrightarrow> holds v p \<noteq> None"
| "possible (EDelete p) v \<longleftrightarrow> holds v p \<noteq> None"
| "possible (ERename p q) v \<longleftrightarrow> holds v p \<noteq> None \<and> holds v q = None"

fun logStep :: "event \<Rightarrow> event_log \<Rightarrow> event_log" where
  "logStep (ECreate p) = createEv p \<lparr>fpath = p\<rparr>"
| "logStep (EModify p) = modifyEv p \<lparr>fpath = p\<rparr>"
| "logStep (EDelete p) = deleteEv p"
| "logStep (ERename p q) = renameEv p q \<lparr>fpath = q\<rparr>"

inductive captures :: "jstr set \<Rightarrow> vault \<Rightarrow> event_log \<Rightarrow> bool" for P where
  start: "captures P (startVault P) emptyLog"
| event: "captures P v lg \<Longrightarrow> possible e v \<Longrightarrow> captures P (vaultStep e v) (logStep e lg)"

inductive_cases captures_elim: "captures P v lg"

text \<open>One entry per file: the relation between the log and the vault.\<close>

inductive logOf :: "jstr set \<Rightarrow> vault \<Rightarrow> event_log \<Rightarrow> bool" where
  logOfI: "jwf (current lg) \<Longrightarrow> distinct (deletedSet lg) \<Longrightarrow>
    (\<And>p e. jget (current lg) p = Some e \<Longrightarrow> holds v p = Some (cOrigin e) \<and> fpath (cFile e) = p) \<Longrightarrow>
    (\<And>p y. jget (current lg) p = None \<Longrightarrow> holds v p = Some y \<Longrightarrow> y = Some p) \<Longrightarrow>
    (\<And>q p. jget (movedFrom lg) q = Some p \<longleftrightarrow> holds v p = Some (Some q) \<and> p \<noteq> q) \<Longrightarrow>
    set (deletedSet lg) = gone v \<Longrightarrow> gone v \<subseteq> P \<Longrightarrow>
    (\<And>p q. holds v p = Some (Some q) \<Longrightarrow> q \<in> P \<and> q \<notin> gone v) \<Longrightarrow>
    (\<And>p q p'. holds v p = Some (Some q) \<Longrightarrow> holds v p' = Some (Some q) \<Longrightarrow> p = p') \<Longrightarrow>
    (\<And>q. q \<in> P \<Longrightarrow> q \<notin> gone v \<Longrightarrow> \<exists>p. holds v p = Some (Some q)) \<Longrightarrow>
    logOf P v lg"

section \<open>The log refines the vault\<close>

lemma logOfD:
  assumes "logOf P v lg"
  shows "jwf (current lg)" "distinct (deletedSet lg)"
    and "jget (current lg) p = Some e \<Longrightarrow> holds v p = Some (cOrigin e) \<and> fpath (cFile e) = p"
    and "jget (current lg) p = None \<Longrightarrow> holds v p = Some y \<Longrightarrow> y = Some p"
    and "jget (movedFrom lg) q = Some p \<longleftrightarrow> holds v p = Some (Some q) \<and> p \<noteq> q"
    and "set (deletedSet lg) = gone v" "gone v \<subseteq> P"
    and "holds v p = Some (Some q) \<Longrightarrow> q \<in> P \<and> q \<notin> gone v"
    and "holds v p = Some (Some q) \<Longrightarrow> holds v p' = Some (Some q) \<Longrightarrow> p = p'"
    and "q \<in> P \<Longrightarrow> q \<notin> gone v \<Longrightarrow> \<exists>p. holds v p = Some (Some q)"
  by (rule logOf.cases [OF assms]; simp)+

lemma logOf_origin: "logOf P v lg \<Longrightarrow> holds v p \<noteq> None \<Longrightarrow> holds v p = Some (originOf lg p)"
  using logOfD(3,4) [of P v lg p] unfolding originOf_def by (cases "jget (current lg) p") fastforce+

lemma setAdd_props [simp]: "set (setAdd xs x) = insert x (set xs)" "distinct xs \<Longrightarrow> distinct (setAdd xs x)"
  by (auto simp: setAdd_def)

lemma logOf_start: "logOf P (startVault P) emptyLog"
  by (rule logOfI) (auto simp: startVault_def emptyLog_def split: if_splits)

lemma logOf_create:
  assumes L: "logOf P v lg" and free: "holds v p = None"
  shows "logOf P (vaultStep (ECreate p) v) (createEv p \<lparr>fpath = p\<rparr> lg)"
proof (rule logOfI)
  let ?v = "vaultStep (ECreate p) v" and ?l = "createEv p \<lparr>fpath = p\<rparr> lg"
  have nomove: "jget (movedFrom lg) q \<noteq> Some p" for q
    using logOfD(5) [OF L, of q p] free by simp
  show "jget (movedFrom ?l) q = Some p' \<longleftrightarrow> holds ?v p' = Some (Some q) \<and> p' \<noteq> q" for q p'
    using logOfD(5) [OF L, of q p'] nomove [of q] free
    by (auto simp: createEv_def Let_def)
  show "p1 = p2" if "holds ?v p1 = Some (Some q)" "holds ?v p2 = Some (Some q)" for p1 q p2
    using that logOfD(9) [OF L, of p1 q p2] logOfD(8) [OF L, of p1 q] logOfD(8) [OF L, of p2 q]
    by (auto split: if_splits)
  show "\<exists>p'. holds ?v p' = Some (Some q)" if "q \<in> P" "q \<notin> gone ?v" for q
  proof (cases "q = p \<and> p \<in> gone v")
    case True
    then show ?thesis by (intro exI [of _ p]) simp
  next
    case False
    with that have "q \<notin> gone v" by auto
    then obtain p' where "holds v p' = Some (Some q)" using logOfD(10) [OF L] \<open>q \<in> P\<close> by blast
    with free show ?thesis by (intro exI [of _ p']) auto
  qed
  show "jget (current ?l) p' = Some e \<Longrightarrow> holds ?v p' = Some (cOrigin e) \<and> fpath (cFile e) = p'" for p' e
    using logOfD(3) [OF L, of p' e] logOfD(6) [OF L] by (auto simp: createEv_def Let_def split: if_splits)
  show "jget (current ?l) p' = None \<Longrightarrow> holds ?v p' = Some y \<Longrightarrow> y = Some p'" for p' y
    using logOfD(4) [OF L, of p'] by (auto simp: createEv_def Let_def split: if_splits)
  show "holds ?v p' = Some (Some q) \<Longrightarrow> q \<in> P \<and> q \<notin> gone ?v" for p' q
    using logOfD(8) [OF L, of p' q] logOfD(7) [OF L] by (auto split: if_splits)
qed (use logOfD(1,2,6,7) [OF L] in \<open>auto simp: createEv_def Let_def distinct_removeAll\<close>)

lemma logOf_modify:
  assumes L: "logOf P v lg" and "holds v p \<noteq> None"
  shows "logOf P (vaultStep (EModify p) v) (modifyEv p \<lparr>fpath = p\<rparr> lg)"
proof (rule logOfI)
  let ?l = "modifyEv p \<lparr>fpath = p\<rparr> lg"
  have o: "holds v p = Some (originOf lg p)" using logOf_origin [OF L assms(2)] .
  show "jget (current ?l) p' = Some e \<Longrightarrow> holds (vaultStep (EModify p) v) p' = Some (cOrigin e) \<and> fpath (cFile e) = p'"
    for p' e
    using logOfD(3) [OF L, of p' e] o
    by (auto simp: modifyEv_def originOf_def split: if_splits option.splits)
qed (use logOfD [OF L] in \<open>auto simp: modifyEv_def split: option.splits if_splits\<close>)

lemma logOf_delete:
  assumes L: "logOf P v lg" and "holds v p \<noteq> None"
  shows "logOf P (vaultStep (EDelete p) v) (deleteEv p lg)"
proof (rule logOfI)
  let ?v = "vaultStep (EDelete p) v" and ?l = "deleteEv p lg"
  have o: "holds v p = Some (originOf lg p)" using logOf_origin [OF L assms(2)] .
  have cur: "current ?l = jdel (current lg) p"
    by (simp add: deleteEv_def Let_def split: option.splits)
  show "jget (current ?l) p' = Some e \<Longrightarrow> holds ?v p' = Some (cOrigin e) \<and> fpath (cFile e) = p'" for p' e
    using logOfD(3) [OF L, of p' e] by (auto simp: cur split: if_splits)
  show "jget (current ?l) p' = None \<Longrightarrow> holds ?v p' = Some y \<Longrightarrow> y = Some p'" for p' y
    using logOfD(4) [OF L, of p' y] by (auto simp: cur split: if_splits)
  show "jget (movedFrom ?l) q = Some p' \<longleftrightarrow> holds ?v p' = Some (Some q) \<and> p' \<noteq> q" for q p'
    using logOfD(5) [OF L, of q p'] logOfD(9) [OF L, of p q p'] o
    by (auto simp: deleteEv_def Let_def split: option.splits if_splits)
  show "set (deletedSet ?l) = gone ?v"
    using logOfD(6) [OF L] o by (auto simp: deleteEv_def Let_def split: option.splits)
  show "gone ?v \<subseteq> P"
    using logOfD(7) [OF L] logOfD(8) [OF L, of p] o by (auto split: option.splits)
  show "holds ?v p' = Some (Some q) \<Longrightarrow> q \<in> P \<and> q \<notin> gone ?v" for p' q
    using logOfD(8) [OF L, of p' q] logOfD(9) [OF L, of p' q p] o by (auto split: if_splits option.splits)
  show "holds ?v p1 = Some (Some q) \<Longrightarrow> holds ?v p2 = Some (Some q) \<Longrightarrow> p1 = p2" for p1 q p2
    using logOfD(9) [OF L, of p1 q p2] by (auto split: if_splits)
  show "\<exists>p'. holds ?v p' = Some (Some q)" if "q \<in> P" "q \<notin> gone ?v" for q
  proof -
    from that o have "q \<notin> gone v" "holds v p \<noteq> Some (Some q)" by (auto split: option.splits)
    moreover from this obtain p' where "holds v p' = Some (Some q)"
      using logOfD(10) [OF L] \<open>q \<in> P\<close> by blast
    ultimately show ?thesis by (intro exI [of _ p']) auto
  qed
qed (use logOfD(1,2) [OF L] in \<open>auto simp: deleteEv_def Let_def split: option.splits\<close>)

lemma logOf_rename:
  assumes L: "logOf P v lg" and "holds v p \<noteq> None" and free: "holds v r = None"
  shows "logOf P (vaultStep (ERename p r) v) (renameEv p r \<lparr>fpath = r\<rparr> lg)"
proof (rule logOfI)
  let ?v = "vaultStep (ERename p r) v" and ?l = "renameEv p r \<lparr>fpath = r\<rparr> lg"
  have o: "holds v p = Some (originOf lg p)" using logOf_origin [OF L assms(2)] .
  have ne: "p \<noteq> r" using assms(2) free by auto
  have orig: "(case jget (current lg) p of None \<Rightarrow> Some p | Some e \<Rightarrow> cOrigin e) = originOf lg p"
    by (simp add: originOf_def)
  have cur: "jget (current ?l) p' = (if p' = r then Some \<lparr>cOrigin = originOf lg p, cFile = \<lparr>fpath = r\<rparr>,
      cModified = (case jget (current lg) p of Some e \<Rightarrow> cModified e | None \<Rightarrow> False)\<rparr>
      else if p' = p then None else jget (current lg) p')" for p'
    using ne by (cases "originOf lg p"; cases "jget (current lg) p") (simp_all add: renameEv_def Let_def originOf_def)
  show "jget (current ?l) p' = Some e \<Longrightarrow> holds ?v p' = Some (cOrigin e) \<and> fpath (cFile e) = p'" for p' e
    using logOfD(3) [OF L, of p' e] o by (auto simp: cur split: if_splits)
  show "jget (current ?l) p' = None \<Longrightarrow> holds ?v p' = Some y \<Longrightarrow> y = Some p'" for p' y
    using logOfD(4) [OF L, of p' y] by (auto simp: cur split: if_splits)
  show "jget (movedFrom ?l) q = Some p' \<longleftrightarrow> holds ?v p' = Some (Some q) \<and> p' \<noteq> q" for q p'
  proof (cases "originOf lg p = Some q")
    case True
    have "jget (movedFrom ?l) q = (if q = r then None else Some r)"
      using True by (simp add: renameEv_def Let_def orig)
    moreover have "holds ?v p' = Some (Some q) \<longleftrightarrow> p' = r"
      using logOfD(9) [OF L, of p' q p] o True ne by (cases "p' = r"; cases "p' = p") auto
    ultimately show ?thesis by auto
  next
    case False
    then have "jget (movedFrom ?l) q = jget (movedFrom lg) q"
      by (auto simp: renameEv_def Let_def orig split: option.splits)
    with False o free show ?thesis using logOfD(5) [OF L, of q p'] by auto
  qed
  show "holds ?v p' = Some (Some q) \<Longrightarrow> q \<in> P \<and> q \<notin> gone ?v" for p' q
    using logOfD(8) [OF L, of p' q] logOfD(8) [OF L, of p q] by (auto split: if_splits)
  show "holds ?v p1 = Some (Some q) \<Longrightarrow> holds ?v p2 = Some (Some q) \<Longrightarrow> p1 = p2" for p1 q p2
    using logOfD(9) [OF L, of p1 q p2] logOfD(9) [OF L, of p q p2] logOfD(9) [OF L, of p1 q p]
    by (cases "p1 = r"; cases "p2 = r"; cases "p1 = p"; cases "p2 = p") simp_all
  show "\<exists>p'. holds ?v p' = Some (Some q)" if q: "q \<in> P" "q \<notin> gone ?v" for q
  proof -
    from q have "q \<notin> gone v" by simp
    then obtain p' where p': "holds v p' = Some (Some q)" using logOfD(10) [OF L] \<open>q \<in> P\<close> by blast
    show ?thesis
    proof (cases "p' = p")
      case True
      with p' show ?thesis by (intro exI [of _ r]) simp
    next
      case False
      moreover have "p' \<noteq> r" using p' free by auto
      ultimately show ?thesis using p' by (intro exI [of _ p']) simp
    qed
  qed
qed (use logOfD(1,2,6,7) [OF L] in \<open>auto simp: renameEv_def Let_def split: option.splits\<close>)

lemma captures_logOf: "captures P v lg \<Longrightarrow> logOf P v lg"
proof (induction rule: captures.induct)
  case start
  show ?case by (rule logOf_start)
next
  case (event v lg e)
  then show ?case
    by (cases e) (auto intro: logOf_create logOf_modify logOf_delete logOf_rename simp del: vaultStep.simps)
qed

section \<open>Replaying the plan on the index\<close>

fun replayStep :: "step \<Rightarrow> (jstr \<Rightarrow> jstr option option) \<Rightarrow> (jstr \<Rightarrow> jstr option option)" where
  "replayStep (Delete p) m = m(p := None)"
| "replayStep (Rename p f) m = m(p := None, fpath f := m p)"
| "replayStep (Create f) m = m(fpath f := Some None)"
| "replayStep (Modify f) m = m"

text \<open>A rename is only sound when its file is still there and its target is free.\<close>

fun applicable :: "step \<Rightarrow> (jstr \<Rightarrow> jstr option option) \<Rightarrow> bool" where
  "applicable (Rename p f) m \<longleftrightarrow> m p = Some (Some p) \<and> m (fpath f) = None"
| "applicable (Create f) m \<longleftrightarrow> m (fpath f) = None"
| "applicable (Delete p) m \<longleftrightarrow> m p = Some (Some p)"
| "applicable (Modify f) m \<longleftrightarrow> m (fpath f) \<noteq> None"

fun replay :: "step list \<Rightarrow> (jstr \<Rightarrow> jstr option option) \<Rightarrow> (jstr \<Rightarrow> jstr option option) option" where
  "replay [] m = Some m"
| "replay (s # ss) m = (if applicable s m then replay ss (replayStep s m) else None)"

lemma replay_append:
  "replay (ss @ ts) m = (case replay ss m of None \<Rightarrow> None | Some m' \<Rightarrow> replay ts m')"
  by (induction ss arbitrary: m) auto

lemma replay_deletes:
  "distinct ds \<Longrightarrow> \<forall>d \<in> set ds. m d = Some (Some d) \<Longrightarrow>
   replay (map Delete ds) m = Some (\<lambda>p. if p \<in> set ds then None else m p)"
proof (induction ds arbitrary: m)
  case (Cons d ds)
  then have "replay (map Delete ds) (m(d := None)) = Some (\<lambda>p. if p \<in> set ds then None else (m(d := None)) p)"
    by (intro Cons.IH) auto
  with Cons.prems show ?case by auto
qed simp

text \<open>The moves still to do, on an index in which each of their files is at its origin and a
  target is occupied only by a file that is itself still to move.\<close>

definition movable :: "move list \<Rightarrow> (jstr \<Rightarrow> jstr option option) \<Rightarrow> bool" where
  "movable ms m \<longleftrightarrow> distinct (map mFrom ms) \<and> distinct (map mTo ms)
     \<and> (\<forall>r \<in> set ms. fpath (mFile r) = mTo r \<and> mFrom r \<noteq> mTo r \<and> m (mFrom r) = Some (Some (mFrom r))
          \<and> (m (mTo r) \<noteq> None \<longrightarrow> mTo r \<in> mFrom ` set ms))"

definition movedBy :: "move set \<Rightarrow> (jstr \<Rightarrow> jstr option option) \<Rightarrow> (jstr \<Rightarrow> jstr option option) \<Rightarrow> bool" where
  "movedBy D m m' \<longleftrightarrow> (\<forall>r \<in> D. m' (mTo r) = Some (Some (mFrom r)))
     \<and> (\<forall>p. p \<notin> mTo ` D \<longrightarrow> m' p = (if p \<in> mFrom ` D then None else m p))"

lemma movedBy_trans:
  assumes "movedBy D1 m m1" "movedBy D2 m1 m2"
    "mTo ` D1 \<inter> mTo ` D2 = {}" "mTo ` D1 \<inter> mFrom ` D2 = {}" "mFrom ` D1 \<inter> mFrom ` D2 = {}"
  shows "movedBy (D1 \<union> D2) m m2"
  unfolding movedBy_def
proof (intro conjI ballI allI impI)
  fix r assume "r \<in> D1 \<union> D2"
  then show "m2 (mTo r) = Some (Some (mFrom r))"
  proof
    assume r: "r \<in> D1"
    then have "mTo r \<notin> mTo ` D2" "mTo r \<notin> mFrom ` D2" using assms(3,4) by blast+
    with r assms(1,2) show ?thesis by (auto simp: movedBy_def)
  qed (use assms(2) in \<open>auto simp: movedBy_def\<close>)
next
  fix p assume "p \<notin> mTo ` (D1 \<union> D2)"
  then have p: "p \<notin> mTo ` D1" "p \<notin> mTo ` D2" by auto
  have "m1 p = (if p \<in> mFrom ` D1 then None else m p)" "m2 p = (if p \<in> mFrom ` D2 then None else m1 p)"
    using assms(1,2) p by (auto simp: movedBy_def)
  then show "m2 p = (if p \<in> mFrom ` (D1 \<union> D2) then None else m p)" by (auto simp: image_Un)
qed

lemma replay_ready:
  assumes "distinct (map mFrom rs)" "distinct (map mTo rs)" "mTo ` set rs \<inter> mFrom ` set rs = {}"
    "\<forall>r \<in> set rs. fpath (mFile r) = mTo r \<and> m (mFrom r) = Some (Some (mFrom r)) \<and> m (mTo r) = None"
  shows "\<exists>m'. replay (map (\<lambda>r. Rename (mFrom r) (mFile r)) rs) m = Some m' \<and> movedBy (set rs) m m'"
  using assms
proof (induction rs arbitrary: m)
  case Nil
  then show ?case by (simp add: movedBy_def)
next
  case (Cons r rs)
  define m1 where "m1 = m(mFrom r := None, mTo r := m (mFrom r))"
  have far: "mFrom r' \<noteq> mFrom r" "mTo r' \<noteq> mTo r" "mFrom r' \<noteq> mTo r" "mTo r' \<noteq> mFrom r" if "r' \<in> set rs" for r'
    using Cons.prems(1-3) that by (auto simp: image_iff)
  have first: "applicable (Rename (mFrom r) (mFile r)) m" "replayStep (Rename (mFrom r) (mFile r)) m = m1"
    using Cons.prems(4) by (auto simp: m1_def)
  have "movedBy {r} m m1" using Cons.prems(3,4) by (auto simp: movedBy_def m1_def)
  moreover have "mTo r \<notin> mTo ` set rs" "mTo r \<notin> mFrom ` set rs" "mFrom r \<notin> mFrom ` set rs"
    using Cons.prems(1-3) by auto
  ultimately have "movedBy ({r} \<union> set rs) m m'" if "movedBy (set rs) m1 m'" for m'
    using movedBy_trans [OF _ that, of "{r}" m] by simp
  moreover have "\<exists>m'. replay (map (\<lambda>r. Rename (mFrom r) (mFile r)) rs) m1 = Some m' \<and> movedBy (set rs) m1 m'"
    by (rule Cons.IH) (use Cons.prems far in \<open>auto simp: m1_def\<close>)
  ultimately show ?case using first by auto
qed

lemma movable_rest:
  assumes "movable ms m" "movedBy (set rs) m m1"
    "rs = filter (\<lambda>r. mTo r \<notin> mFrom ` set ms) ms"
  shows "movable (filter (\<lambda>r. r \<notin> set rs) ms) m1"
proof -
  let ?rest = "filter (\<lambda>r. r \<notin> set rs) ms"
  have inj: "r = r'" if "r \<in> set ms" "r' \<in> set ms" "mFrom r = mFrom r' \<or> mTo r = mTo r'" for r r'
    using assms(1) that by (auto simp: movable_def distinct_map inj_on_def)
  have "m1 (mFrom r) = Some (Some (mFrom r)) \<and> (m1 (mTo r) \<noteq> None \<longrightarrow> mTo r \<in> mFrom ` set ?rest)"
    if r: "r \<in> set ?rest" for r
  proof
    have "mFrom r \<in> mFrom ` set ms" using r by auto
    then have "mFrom r \<notin> mTo ` set rs" using assms(3) by auto
    moreover have "mFrom r \<notin> mFrom ` set rs" using r inj assms(3) by (auto simp: image_iff)
    ultimately have "m1 (mFrom r) = m (mFrom r)" using assms(2) by (auto simp: movedBy_def)
    then show "m1 (mFrom r) = Some (Some (mFrom r))" using r assms(1) by (auto simp: movable_def)
  next
    show "m1 (mTo r) \<noteq> None \<longrightarrow> mTo r \<in> mFrom ` set ?rest"
    proof
      assume occ: "m1 (mTo r) \<noteq> None"
      have "mTo r \<notin> mTo ` set rs" using r inj assms(3) by (auto simp: image_iff)
      with occ assms(2) have "mTo r \<notin> mFrom ` set rs" "m (mTo r) \<noteq> None"
        by (auto simp: movedBy_def split: if_splits)
      moreover from this r assms(1) have "mTo r \<in> mFrom ` set ms" by (auto simp: movable_def)
      ultimately show "mTo r \<in> mFrom ` set ?rest" by auto
    qed
  qed
  then show ?thesis
    using assms(1) by (auto simp: movable_def distinct_map_filter)
qed

lemma stuck_moves:
  assumes "movable ms m" "filter (\<lambda>r. mTo r \<notin> mFrom ` set ms) ms = []"
  shows "mTo ` set ms = mFrom ` set ms"
proof (rule card_subset_eq)
  show "mTo ` set ms \<subseteq> mFrom ` set ms" using assms(2) by (auto simp: filter_empty_conv)
  have "card (set (map mTo ms)) = card (set (map mFrom ms))"
    using assms(1) by (simp only: movable_def distinct_card length_map)
  then show "card (mTo ` set ms) = card (mFrom ` set ms)" by simp
qed simp

lemma replay_planLoop:
  assumes "movable ms m"
  shows "\<exists>m' stuck. replay (fst (planLoop ms)) m = Some m'
    \<and> snd (planLoop ms) = map (\<lambda>r. Modify (mFile r)) stuck \<and> set stuck \<subseteq> set ms
    \<and> mTo ` set stuck = mFrom ` set stuck \<and> movedBy (set ms - set stuck) m m'"
  using assms
proof (induction ms arbitrary: m rule: planLoop.induct)
  case (1 ms)
  let ?rs = "filter (\<lambda>r. mTo r \<notin> mFrom ` set ms) ms"
  let ?rest = "filter (\<lambda>r. r \<notin> set ?rs) ms"
  show ?case
  proof (cases "ms = [] \<or> ?rs = []")
    case True
    then have "planLoop ms = ([], map (\<lambda>r. Modify (mFile r)) ms)"
      by (auto simp: planLoop.simps [of ms] Let_def)
    moreover have "mTo ` set ms = mFrom ` set ms"
      using True stuck_moves [OF "1.prems"] by auto
    ultimately show ?thesis by (auto simp: movedBy_def intro: exI [of _ ms])
  next
    case False
    have loop: "planLoop ms = (map (\<lambda>r. Rename (mFrom r) (mFile r)) ?rs @ fst (planLoop ?rest), snd (planLoop ?rest))"
      using False by (simp add: planLoop.simps [of ms] Let_def split_beta)
    have "\<exists>m1. replay (map (\<lambda>r. Rename (mFrom r) (mFile r)) ?rs) m = Some m1 \<and> movedBy (set ?rs) m m1"
      by (rule replay_ready) (use "1.prems" in \<open>auto simp: movable_def distinct_map_filter\<close>)
    then obtain m1 where m1: "replay (map (\<lambda>r. Rename (mFrom r) (mFile r)) ?rs) m = Some m1"
      "movedBy (set ?rs) m m1" by blast
    have rest: "movable ?rest m1" by (rule movable_rest [OF "1.prems" m1(2) refl])
    obtain m' stuck where IH: "replay (fst (planLoop ?rest)) m1 = Some m'"
      "snd (planLoop ?rest) = map (\<lambda>r. Modify (mFile r)) stuck" "set stuck \<subseteq> set ?rest"
      "mTo ` set stuck = mFrom ` set stuck" "movedBy (set ?rest - set stuck) m1 m'"
      using "1.IH" [OF _ _ _ _ rest] False by auto
    have inj: "inj_on mFrom (set ms)" "inj_on mTo (set ms)"
      using "1.prems" by (auto simp: movable_def distinct_map)
    have "movedBy (set ?rs \<union> (set ?rest - set stuck)) m m'"
      by (rule movedBy_trans [OF m1(2) IH(5)]) (use inj in \<open>auto simp: inj_on_def image_iff\<close>)
    moreover have "set ?rs \<union> (set ?rest - set stuck) = set ms - set stuck" using IH(3) by auto
    ultimately show ?thesis
      using IH m1(1) by (auto simp: loop replay_append intro!: exI [of _ stuck])
  qed
qed

lemma replay_editSteps:
  assumes "distinct (map fst cs)" "\<forall>(p, e) \<in> set cs. fpath (cFile e) = p
      \<and> (cOrigin e = None \<longrightarrow> m p = None) \<and> (cOrigin e = Some p \<longrightarrow> m p \<noteq> None)"
  shows "replay (editSteps cs) m = Some (\<lambda>p. if \<exists>e. (p, e) \<in> set cs \<and> cOrigin e = None then Some None else m p)"
  using assms
proof (induction cs arbitrary: m)
  case Nil
  then show ?case by (simp add: editSteps_def)
next
  case (Cons c cs)
  obtain p e where c: "c = (p, e)" by (cases c)
  let ?m = "if cOrigin e = None then m(p := Some None) else m"
  have p: "(p, e') \<notin> set cs" for e' using Cons.prems(1) by (force simp: c)
  have "replay (editSteps (c # cs)) m = replay (editSteps cs) ?m"
    using Cons.prems(2) by (auto simp: c editSteps_def)
  also have "\<dots> = Some (\<lambda>q. if \<exists>e'. (q, e') \<in> set cs \<and> cOrigin e' = None then Some None else ?m q)"
    by (rule Cons.IH) (use Cons.prems p in \<open>auto simp: c split: if_splits\<close>)
  finally show ?case using p by (auto simp: c fun_eq_iff)
qed

lemma movesOf_iff:
  assumes "logOf P v lg"
  shows "r \<in> set (movesOf (current lg)) \<longleftrightarrow>
    holds v (mTo r) = Some (Some (mFrom r)) \<and> mFrom r \<noteq> mTo r \<and> mFile r = \<lparr>fpath = mTo r\<rparr>"
proof
  assume "r \<in> set (movesOf (current lg))"
  then obtain p e where pe: "(p, e) \<in> set (current lg)" "cOrigin e \<noteq> None" "cOrigin e \<noteq> Some p"
      "r = \<lparr>mFrom = the (cOrigin e), mTo = p, mFile = cFile e\<rparr>"
    by (auto simp: movesOf_def)
  then have "jget (current lg) p = Some e" using logOfD(1) [OF assms] by simp
  from logOfD(3) [OF assms this] pe show "holds v (mTo r) = Some (Some (mFrom r)) \<and> mFrom r \<noteq> mTo r
      \<and> mFile r = \<lparr>fpath = mTo r\<rparr>" by (auto intro: tfile.equality)
next
  assume r: "holds v (mTo r) = Some (Some (mFrom r)) \<and> mFrom r \<noteq> mTo r \<and> mFile r = \<lparr>fpath = mTo r\<rparr>"
  then obtain e where e: "jget (current lg) (mTo r) = Some e"
    using logOfD(4) [OF assms, of "mTo r"] by (cases "jget (current lg) (mTo r)") auto
  have "cOrigin e = Some (mFrom r)" "cFile e = mFile r"
    using logOfD(3) [OF assms e] r by (auto intro: tfile.equality)
  moreover have "(mTo r, e) \<in> set (current lg)" using e by (rule map_of_SomeD)
  ultimately show "r \<in> set (movesOf (current lg))"
    using r unfolding movesOf_def
    by (auto intro!: image_eqI [of _ _ "(mTo r, e)"] move.equality)
qed

lemma movesOf_movable:
  assumes "logOf P v lg"
  shows "movable (movesOf (current lg)) (\<lambda>p. if p \<in> P - gone v then Some (Some p) else None)"
proof -
  let ?ms = "movesOf (current lg)"
  have tos: "map mTo ?ms = map fst (filter (\<lambda>(path, entry). cOrigin entry \<noteq> None \<and> cOrigin entry \<noteq> Some path) (current lg))"
    by (auto simp: movesOf_def)
  have to: "distinct (map mTo ?ms)"
    unfolding tos by (rule distinct_map_filter) (rule logOfD(1) [OF assms])
  have "inj_on mFrom (set ?ms)"
  proof (rule inj_onI)
    fix r r' assume "r \<in> set ?ms" "r' \<in> set ?ms" "mFrom r = mFrom r'"
    then have "mTo r = mTo r'" "mFile r = mFile r'"
      using logOfD(9) [OF assms, of "mTo r" "mFrom r" "mTo r'"] by (auto simp: movesOf_iff [OF assms])
    with \<open>mFrom r = mFrom r'\<close> show "r = r'" by simp
  qed
  then have from': "distinct (map mFrom ?ms)" using to by (simp add: distinct_map)
  have "q \<in> mFrom ` set ?ms" if q: "q \<in> P" "q \<notin> gone v" "holds v q = Some (Some q')" "q' \<noteq> q" for q q'
  proof -
    obtain p where p: "holds v p = Some (Some q)" using logOfD(10) [OF assms q(1,2)] by blast
    with q have "p \<noteq> q" by auto
    with p have "\<lparr>mFrom = q, mTo = p, mFile = \<lparr>fpath = p\<rparr>\<rparr> \<in> set ?ms" by (simp add: movesOf_iff [OF assms])
    then show ?thesis by (rule image_eqI [rotated]) simp
  qed
  then show ?thesis
    using to from' logOfD(8) [OF assms] unfolding movable_def
    by (auto simp: movesOf_iff [OF assms] split: if_splits)
qed

lemma replay_modifies: "\<forall>f \<in> set fs. m (fpath f) \<noteq> None \<Longrightarrow> replay (map Modify fs) m = Some m"
  by (induction fs) auto

text \<open>The index after the renames, in terms of the vault.\<close>

lemma after_renames:
  assumes L: "logOf P v lg" and ms: "ms = movesOf (current lg)"
    and stuck: "set stuck \<subseteq> set ms" "mTo ` set stuck = mFrom ` set stuck"
    and m2: "movedBy (set ms - set stuck) (\<lambda>p. if p \<in> P - gone v then Some (Some p) else None) m2"
  shows "holds v p = Some (Some q) \<Longrightarrow> p \<notin> mTo ` set stuck \<Longrightarrow> m2 p = Some (Some q)"
    and "holds v p = None \<or> holds v p = Some None \<Longrightarrow> m2 p = None"
    and "p \<in> mTo ` set stuck \<Longrightarrow> m2 p = Some (Some p)"
proof -
  note moves = movesOf_iff [OF L, folded ms]
  have inj: "inj_on mFrom (set ms)" "inj_on mTo (set ms)"
    using movesOf_movable [OF L] ms by (auto simp: movable_def distinct_map)
  let ?m1 = "\<lambda>p. if p \<in> P - gone v then Some (Some p) else None"
  have other: "p \<notin> mTo ` (set ms - set stuck) \<Longrightarrow> m2 p = (if p \<in> mFrom ` (set ms - set stuck) then None else ?m1 p)"
    using m2 by (simp add: movedBy_def)
  show "m2 p = Some (Some q)" if h: "holds v p = Some (Some q)" and "p \<notin> mTo ` set stuck"
  proof (cases "q = p")
    case True
    have "p \<notin> mTo ` set ms" using h True by (auto simp: moves)
    moreover have "p \<notin> mFrom ` set ms"
    proof
      assume "p \<in> mFrom ` set ms"
      then obtain x :: move where x: "holds v (mTo x) = Some (Some p)" "p \<noteq> mTo x" by (auto simp: moves)
      with h True logOfD(9) [OF L, of "mTo x" p p] show False by simp
    qed
    ultimately have "p \<notin> mTo ` set ms" "p \<notin> mFrom ` set ms" by auto
    then have "p \<notin> mTo ` (set ms - set stuck)" "p \<notin> mFrom ` (set ms - set stuck)" by blast+
    then show ?thesis using other logOfD(8) [OF L h] True by simp
  next
    case False
    let ?r = "\<lparr>mFrom = q, mTo = p, mFile = \<lparr>fpath = p\<rparr>\<rparr>"
    have "?r \<in> set ms" using h False by (simp add: moves)
    moreover have "?r \<notin> set stuck" using that(2) by force
    ultimately show ?thesis using m2 unfolding movedBy_def by force
  qed
  show "m2 p = None" if h: "holds v p = None \<or> holds v p = Some None"
  proof -
    have notTo: "p \<notin> mTo ` set ms" using h by (auto simp: moves)
    have "p \<in> mFrom ` (set ms - set stuck)" if "p \<in> P" "p \<notin> gone v"
    proof -
      obtain p' where p': "holds v p' = Some (Some p)" using logOfD(10) [OF L \<open>p \<in> P\<close> \<open>p \<notin> gone v\<close>] by blast
      let ?r = "\<lparr>mFrom = p, mTo = p', mFile = \<lparr>fpath = p'\<rparr>\<rparr>"
      have "?r \<in> set ms" using p' h by (auto simp: moves)
      moreover have "?r \<notin> set stuck"
      proof
        assume "?r \<in> set stuck"
        then have "p \<in> mFrom ` set stuck" by force
        then have "p \<in> mTo ` set stuck" using stuck(2) by simp
        then show False using stuck(1) notTo by blast
      qed
      ultimately show ?thesis by force
    qed
    moreover have "p \<notin> mTo ` (set ms - set stuck)" using notTo by blast
    ultimately show ?thesis using other by auto
  qed
  show "m2 p = Some (Some p)" if p: "p \<in> mTo ` set stuck"
  proof -
    obtain r where r: "r \<in> set stuck" "mTo r = p" using p by auto
    obtain r' where r': "r' \<in> set stuck" "mFrom r' = p" using p stuck(2) by auto
    have "r \<in> set ms" "r' \<in> set ms" using r r' stuck(1) by auto
    then have "x = r" if "x \<in> set ms" "mTo x = p" for x using inj(2) r that by (simp add: inj_on_def)
    moreover have "x = r'" if "x \<in> set ms" "mFrom x = p" for x
      using inj(1) r' that \<open>r' \<in> set ms\<close> by (simp add: inj_on_def)
    ultimately have "p \<notin> mTo ` (set ms - set stuck)" "p \<notin> mFrom ` (set ms - set stuck)"
      using r r' by blast+
    moreover have "holds v (mTo r') = Some (Some p)" using r' stuck(1) moves by auto
    then have "p \<in> P - gone v" using logOfD(8) [OF L] by blast
    ultimately show ?thesis using other by simp
  qed
qed

section \<open>Properties\<close>

text \<open>
  C14: Replaying the plan on the index as it was when the window opened always succeeds (every
  file to delete or rename is still in its place, every rename and creation finds a free path)
  and ends with the vault as it is now: each path holds the file the vault holds there. The only
  exception are files that swapped paths among each other: each of their paths keeps its file and
  the plan contains an in-place edit for it.
\<close>

theorem plan_reproduces_vault:
  assumes "captures P v lg"
  shows "\<exists>m S. replay (plan lg) (holds (startVault P)) = Some m
    \<and> (\<forall>p. p \<notin> S \<longrightarrow> m p = holds v p)
    \<and> (\<forall>p \<in> S. m p = Some (Some p) \<and> Modify \<lparr>fpath = p\<rparr> \<in> set (plan lg)
         \<and> (\<exists>q \<in> S. q \<noteq> p \<and> holds v p = Some (Some q)))"
proof -
  have L: "logOf P v lg" by (rule captures_logOf [OF assms])
  let ?ms = "movesOf (current lg)"
  let ?m1 = "\<lambda>p. if p \<in> P - gone v then Some (Some p) else None"
  have inPlace: "\<forall>d \<in> set (deletedSet lg). holds (startVault P) d = Some (Some d)"
    using logOfD(6,7) [OF L] by (auto simp: startVault_def)
  have "(\<lambda>p. if p \<in> set (deletedSet lg) then None else holds (startVault P) p) = ?m1"
    using logOfD(6) [OF L] by (auto simp: startVault_def fun_eq_iff)
  then have deletes: "replay (map Delete (deletedSet lg)) (holds (startVault P)) = Some ?m1"
    using replay_deletes [OF logOfD(2) [OF L] inPlace] by simp
  obtain m2 stuck where loop: "replay (fst (planLoop ?ms)) ?m1 = Some m2"
    "snd (planLoop ?ms) = map (\<lambda>r. Modify (mFile r)) stuck" "set stuck \<subseteq> set ?ms"
    "mTo ` set stuck = mFrom ` set stuck" "movedBy (set ?ms - set stuck) ?m1 m2"
    using replay_planLoop [OF movesOf_movable [OF L]] by blast
  note m2 = after_renames [OF L refl loop(3,4,5)]
  have S: "\<exists>q \<in> mTo ` set stuck. q \<noteq> p \<and> holds v p = Some (Some q)" if p: "p \<in> mTo ` set stuck" for p
    using p loop(3,4) movesOf_iff [OF L] by (metis (no_types, lifting) imageE imageI subsetD)
  have entry: "holds v p = Some (cOrigin e) \<and> fpath (cFile e) = p" if "(p, e) \<in> set (current lg)" for p e
    using that logOfD(1,3) [OF L] by simp
  define m where "m = (\<lambda>p. if \<exists>e. (p, e) \<in> set (current lg) \<and> cOrigin e = None then Some None else m2 p)"
  have "replay (editSteps (current lg)) m2 = Some m"
    unfolding m_def
  proof (rule replay_editSteps [OF logOfD(1) [OF L]], clarify, intro conjI impI)
    fix p e assume "(p, e) \<in> set (current lg)"
    note pe = entry [OF this]
    show "fpath (cFile e) = p" using pe by simp
    show "m2 p = None" if "cOrigin e = None" using m2(2) pe that by simp
    show "m2 p \<noteq> None" if "cOrigin e = Some p"
      using m2(1) [of p p] m2(3) [of p] pe that by (cases "p \<in> mTo ` set stuck") auto
  qed
  moreover have "replay (map (\<lambda>r. Modify (mFile r)) stuck) m = Some m"
    using replay_modifies [of "map mFile stuck" m] m2(3) loop(3) movesOf_iff [OF L]
    by (force simp: m_def comp_def)
  ultimately have "replay (plan lg) (holds (startVault P)) = Some m"
    using deletes loop(1,2) by (simp add: plan_def split_beta replay_append Let_def)
  moreover have "m p = holds v p" if "p \<notin> mTo ` set stuck" for p
  proof (cases "holds v p")
    case (Some y)
    show ?thesis
    proof (cases y)
      case None
      with Some obtain e where "jget (current lg) p = Some e"
        using logOfD(4) [OF L, of p] by (cases "jget (current lg) p") auto
      then have "(p, e) \<in> set (current lg)" by (rule map_of_SomeD)
      with Some None entry show ?thesis by (auto simp: m_def)
    next
      case (Some q)
      with \<open>holds v p = Some y\<close> m2(1) [of p q] that entry show ?thesis by (auto simp: m_def)
    qed
  qed (use m2(2) entry in \<open>auto simp: m_def\<close>)
  moreover have "m p = Some (Some p) \<and> Modify \<lparr>fpath = p\<rparr> \<in> set (plan lg)" if p: "p \<in> mTo ` set stuck" for p
  proof
    show "m p = Some (Some p)" using m2(3) [OF p] S [OF p] entry by (auto simp: m_def)
    obtain r where r: "r \<in> set stuck" "p = mTo r" using p by auto
    then have "mFile r = \<lparr>fpath = p\<rparr>" using loop(3) movesOf_iff [OF L] by auto
    with r have "Modify \<lparr>fpath = p\<rparr> \<in> set (snd (planLoop ?ms))" unfolding loop(2) by (force intro: rev_image_eqI)
    then show "Modify \<lparr>fpath = p\<rparr> \<in> set (plan lg)" by (simp add: plan_def split_beta Let_def)
  qed
  ultimately have "replay (plan lg) (holds (startVault P)) = Some m
    \<and> (\<forall>p. p \<notin> mTo ` set stuck \<longrightarrow> m p = holds v p)
    \<and> (\<forall>p \<in> mTo ` set stuck. m p = Some (Some p) \<and> Modify \<lparr>fpath = p\<rparr> \<in> set (plan lg)
         \<and> (\<exists>q \<in> mTo ` set stuck. q \<noteq> p \<and> holds v p = Some (Some q)))"
    using S by (intro conjI ballI allI impI) (assumption | simp only:)+
  then show ?thesis by (intro exI)
qed

theorem plan_reproduces_vault_witness:
  "captures {lit ''a''} (vaultStep (ERename (lit ''a'') (lit ''b'')) (startVault {lit ''a''}))
     (logStep (ERename (lit ''a'') (lit ''b'')) emptyLog)
   \<and> (\<exists>m. replay (plan (logStep (ERename (lit ''a'') (lit ''b'')) emptyLog)) (holds (startVault {lit ''a''})) = Some m)"
proof -
  have c: "captures {lit ''a''} (vaultStep (ERename (lit ''a'') (lit ''b'')) (startVault {lit ''a''}))
     (logStep (ERename (lit ''a'') (lit ''b'')) emptyLog)"
    by (rule captures.event [OF captures.start]) (simp add: startVault_def)
  with plan_reproduces_vault [OF c] show ?thesis by blast
qed

text \<open>
  At every moment of the window the log knows exactly which original paths must not be restored
  (the file that was there is deleted or moved away and nothing occupies the path), and where
  the file at a path was renamed from.
\<close>

theorem removedPath_correct:
  assumes "captures P v lg"
  shows "(removedPath lg p \<longleftrightarrow> p \<in> P \<and> holds v p = None)
    \<and> (\<forall>q. renamedFrom lg p = Some q \<longleftrightarrow> q \<noteq> [] \<and> q \<noteq> p \<and> holds v p = Some (Some q))"
proof -
  have L: "logOf P v lg" by (rule captures_logOf [OF assms])
  have "removedPath lg p \<longleftrightarrow> p \<in> P \<and> holds v p = None"
  proof
    assume r: "removedPath lg p"
    then have absent: "jget (current lg) p = None" by (simp add: removedPath_def)
    from r consider "p \<in> gone v" | p' where "holds v p' = Some (Some p)" "p' \<noteq> p"
      using logOfD(5,6) [OF L] by (auto simp: removedPath_def)
    then show "p \<in> P \<and> holds v p = None"
    proof cases
      case 1
      then show ?thesis
        using logOfD(7) [OF L] logOfD(8) [OF L, of p p] logOfD(4) [OF L absent] by (cases "holds v p") auto
    next
      case 2
      then show ?thesis
        using logOfD(8) [OF L, of p' p] logOfD(9) [OF L, of p p p'] logOfD(4) [OF L absent]
        by (cases "holds v p") auto
    qed
  next
    assume p: "p \<in> P \<and> holds v p = None"
    then have "jget (current lg) p = None"
      using logOfD(3) [OF L, of p] by (cases "jget (current lg) p") auto
    moreover have "p \<in> set (deletedSet lg) \<or> jhas (movedFrom lg) p"
    proof (cases "p \<in> gone v")
      case False
      then obtain p' where "holds v p' = Some (Some p)" using logOfD(10) [OF L] p by blast
      moreover from this p have "p' \<noteq> p" by auto
      ultimately show ?thesis using logOfD(5) [OF L, of p p'] by auto
    qed (use logOfD(6) [OF L] in simp)
    ultimately show "removedPath lg p" by (simp add: removedPath_def)
  qed
  moreover have "renamedFrom lg p = Some q \<longleftrightarrow> q \<noteq> [] \<and> q \<noteq> p \<and> holds v p = Some (Some q)" for q
    using logOfD(3,4) [OF L, of p] by (cases "jget (current lg) p") (force simp: renamedFrom_def split: option.splits if_splits)+
  ultimately show ?thesis by blast
qed

theorem removedPath_correct_witness:
  "captures {lit ''a''} (vaultStep (EDelete (lit ''a'')) (startVault {lit ''a''})) (logStep (EDelete (lit ''a'')) emptyLog)
   \<and> removedPath (logStep (EDelete (lit ''a'')) emptyLog) (lit ''a'')"
proof -
  have c: "captures {lit ''a''} (vaultStep (EDelete (lit ''a'')) (startVault {lit ''a''})) (logStep (EDelete (lit ''a'')) emptyLog)"
    by (rule captures.event [OF captures.start]) (simp add: startVault_def)
  with removedPath_correct [OF c, of "lit ''a''"] show ?thesis by simp
qed

end
