(* ===== verification/Cli_Sync.thy ===== *)
theory Cli_Sync
  imports Js_Prelude
begin

text \<open>
  The folder synchronisation of the command line tool: \<open>packages/cli/src/sync.ts\<close> with the
  path rules of \<open>kinds.ts\<close>, the filter of \<open>attachmentFilter.ts\<close> and the types of \<open>config.ts\<close>.

  The local folder is a tree; a path is the list of its segments. Hashing, UTF-8, the JSON codec
  and \<open>picomatch\<close> are arguments (\<open>cli_env\<close>), and so is the vault behind the SDK (\<open>vault_api\<close>):
  every call may fail and may leave the vault in any state, so that edits by others can happen
  at any call. A file below a symbolic link to a directory is outside the folder and not modelled
  (such a path raises an error here). The snapshot is a map of its own entries; the code indexes a
  plain object, which also finds members of \<open>Object.prototype\<close>, so paths named like one of those
  (\<open>constructor\<close>) behave differently there. \<open>calls\<close> records the write requests in their order.
\<close>

type_synonym bytes = "8 word list"

section \<open>Paths and kinds\<close>

datatype file_kind = KNote | KCanvas | KBase | KAttachment

definition toLowerUnit :: "16 word \<Rightarrow> 16 word" where
  "toLowerUnit u = (if 65 \<le> u \<and> u \<le> 90 then u + 32 else u)"

text \<open>The endings are ASCII and compared after \<open>toLowerCase\<close>, so only ASCII letters matter.\<close>

definition kindForPath :: "jstr \<Rightarrow> file_kind" where
  "kindForPath relPath =
    (let lower = map toLowerUnit relPath
     in if endsWith lower (lit ''.md'') then KNote
        else if endsWith lower (lit ''.canvas'') then KCanvas
        else if endsWith lower (lit ''.base'') then KBase
        else KAttachment)"

definition isExcluded :: "jstr \<Rightarrow> bool" where
  "isExcluded relPath \<longleftrightarrow> list_ex (\<lambda>seg. startsWith seg (lit ''.'')) (splitOn 47 relPath)"

record sync_file_state =
  kind :: file_kind
  hash :: jstr
  size :: nat
  mtimeMs :: nat
  guid :: "jstr option"

record attachment_settings =
  enabled :: bool
  includeGlobs :: "jstr list"

record rtmd_config =
  attachmentSync :: "attachment_settings option"

type_synonym snapshot = "(jstr, sync_file_state) jmap"

record cli_env =
  sha256 :: "bytes \<Rightarrow> jstr"
  utf8 :: "jstr \<Rightarrow> bytes"
  fromUtf8 :: "bytes \<Rightarrow> jstr"
  parseJson :: "jstr \<Rightarrow> json option"
  stringify :: "json \<Rightarrow> jstr"
  stringifyTabs :: "json \<Rightarrow> jstr"
  isMatch :: "jstr \<Rightarrow> jstr \<Rightarrow> bool"

definition shouldSyncFile :: "cli_env \<Rightarrow> rtmd_config \<Rightarrow> jstr \<Rightarrow> file_kind \<Rightarrow> bool" where
  "shouldSyncFile E config path k =
    (if k \<noteq> KAttachment then True
     else case attachmentSync config of
            None \<Rightarrow> True
          | Some a \<Rightarrow> if \<not> enabled a then False
                     else includeGlobs a = [] \<or> list_ex (isMatch E path) (includeGlobs a))"

definition filteredSnapshot :: "cli_env \<Rightarrow> rtmd_config \<Rightarrow> snapshot \<Rightarrow> snapshot" where
  "filteredSnapshot E config snap = filter (\<lambda>(path, state). shouldSyncFile E config path (kind state)) snap"

definition forgetIgnoredAttachments :: "cli_env \<Rightarrow> rtmd_config \<Rightarrow> snapshot \<Rightarrow> snapshot" where
  "forgetIgnoredAttachments E config snap =
     fold (\<lambda>(path, state) out. if \<not> shouldSyncFile E config path (kind state) then jdel out path else out) snap snap"

definition parseAttachmentGlobs :: "jstr \<Rightarrow> jstr list" where
  "parseAttachmentGlobs v = filter (\<lambda>g. g \<noteq> []) (map trim (splitOn 44 v))"

section \<open>The local folder\<close>

datatype fnode = FFile bytes nat | FDir "(jstr \<times> fnode) list" | FLink | FOther

type_synonym folder = "(jstr \<times> fnode) list"

fun lookupN :: "folder \<Rightarrow> jstr list \<Rightarrow> fnode option" where
  "lookupN es [] = Some (FDir es)"
| "lookupN es [n] = jget es n"
| "lookupN es (n # ns) = (case jget es n of Some (FDir sub) \<Rightarrow> lookupN sub ns | _ \<Rightarrow> None)"

text \<open>\<open>mkdirSync(dirname, recursive)\<close> and \<open>writeFileSync\<close>; \<open>None\<close> when a part of the path is no folder.\<close>

fun writeN :: "folder \<Rightarrow> jstr list \<Rightarrow> fnode \<Rightarrow> folder option" where
  "writeN es [] f = None"
| "writeN es [n] f = (case jget es n of Some (FDir _) \<Rightarrow> None | Some FLink \<Rightarrow> None | Some FOther \<Rightarrow> None | _ \<Rightarrow> Some (jset es n f))"
| "writeN es (n # ns) f =
    (case jget es n of
       None \<Rightarrow> (case writeN [] ns f of None \<Rightarrow> None | Some sub \<Rightarrow> Some (jset es n (FDir sub)))
     | Some (FDir sub) \<Rightarrow> (case writeN sub ns f of None \<Rightarrow> None | Some sub' \<Rightarrow> Some (jset es n (FDir sub')))
     | Some _ \<Rightarrow> None)"

text \<open>\<open>rmSync(force)\<close> of a file.\<close>

fun removeN :: "folder \<Rightarrow> jstr list \<Rightarrow> folder option" where
  "removeN es [] = None"
| "removeN es [n] = (case jget es n of Some (FDir _) \<Rightarrow> None | _ \<Rightarrow> Some (jdel es n))"
| "removeN es (n # ns) =
    (case jget es n of
       Some (FDir sub) \<Rightarrow> (case removeN sub ns of None \<Rightarrow> None | Some sub' \<Rightarrow> Some (jset es n (FDir sub')))
     | _ \<Rightarrow> Some es)"

text \<open>\<open>path.join(dir, relPath)\<close> drops empty segments; paths with dot segments are excluded before.\<close>

definition pathSegs :: "jstr \<Rightarrow> jstr list" where
  "pathSegs p = filter (\<lambda>s. s \<noteq> []) (splitOn 47 p)"

section \<open>Hashes and the local scan\<close>

definition hashText :: "cli_env \<Rightarrow> jstr \<Rightarrow> jstr" where
  "hashText E text = sha256 E (utf8 E text)"

definition normalizeStructured :: "cli_env \<Rightarrow> jstr \<Rightarrow> jstr" where
  "normalizeStructured E text = (case parseJson E text of Some v \<Rightarrow> stringify E v | None \<Rightarrow> text)"

definition hashLocalContent :: "cli_env \<Rightarrow> file_kind \<Rightarrow> bytes \<Rightarrow> jstr" where
  "hashLocalContent E k bs =
    (if k = KCanvas \<or> k = KBase then hashText E (normalizeStructured E (fromUtf8 E bs)) else sha256 E bs)"

record local_entry =
  lkind :: file_kind
  lsize :: nat
  lmtime :: nat
  lhash :: jstr

definition scanFile :: "cli_env \<Rightarrow> snapshot \<Rightarrow> rtmd_config \<Rightarrow> jstr \<Rightarrow> bytes \<Rightarrow> nat \<Rightarrow> (jstr, local_entry) jmap \<Rightarrow> (jstr, local_entry) jmap" where
  "scanFile E snap config rel bs mtime out =
    (let k = kindForPath rel
     in if \<not> shouldSyncFile E config rel k then out
        else let h = (case jget snap rel of
                        Some s \<Rightarrow> if size s = length bs \<and> mtimeMs s = mtime then hash s else hashLocalContent E k bs
                      | None \<Rightarrow> hashLocalContent E k bs)
             in jset out rel \<lparr>lkind = k, lsize = length bs, lmtime = mtime, lhash = h\<rparr>)"

fun walk :: "cli_env \<Rightarrow> snapshot \<Rightarrow> rtmd_config \<Rightarrow> jstr \<Rightarrow> folder \<Rightarrow> (jstr, local_entry) jmap \<Rightarrow> (jstr, local_entry) jmap"
  and walkEntry :: "cli_env \<Rightarrow> snapshot \<Rightarrow> rtmd_config \<Rightarrow> jstr \<Rightarrow> fnode \<Rightarrow> (jstr, local_entry) jmap \<Rightarrow> (jstr, local_entry) jmap" where
  "walk E snap config sub [] out = out"
| "walk E snap config sub ((name, node) # es) out =
    (let rel = (if sub = [] then name else sub @ lit ''/'' @ name)
     in walk E snap config sub es (if isExcluded rel then out else walkEntry E snap config rel node out))"
| "walkEntry E snap config rel FLink out = out"
| "walkEntry E snap config rel (FDir es) out = walk E snap config rel es out"
| "walkEntry E snap config rel FOther out = out"
| "walkEntry E snap config rel (FFile bs mtime) out = scanFile E snap config rel bs mtime out"

definition scanLocal :: "cli_env \<Rightarrow> folder \<Rightarrow> snapshot \<Rightarrow> rtmd_config \<Rightarrow> (jstr, local_entry) jmap" where
  "scanLocal E dir snap config = walk E snap config [] dir []"

section \<open>The vault behind the SDK\<close>

datatype api_error = ConflictError | OtherError jstr

datatype api_call =
    CallReplace file_kind jstr "jstr option"
  | CallCreate file_kind jstr
  | CallUpload jstr "jstr option" bool
  | CallDelete file_kind jstr

record 's vault_api =
  listOf :: "file_kind \<Rightarrow> 's \<Rightarrow> (api_error + (jstr \<times> jstr) list) \<times> 's"
  readNote :: "jstr \<Rightarrow> 's \<Rightarrow> (api_error + (jstr \<times> jstr)) \<times> 's"
  readStructured :: "file_kind \<Rightarrow> jstr \<Rightarrow> 's \<Rightarrow> (api_error + (json \<times> jstr \<times> jstr option)) \<times> 's"
  readAttachment :: "jstr \<Rightarrow> 's \<Rightarrow> (api_error + bytes) \<times> 's"
  replaceNote :: "jstr \<Rightarrow> jstr \<Rightarrow> jstr option \<Rightarrow> 's \<Rightarrow> (api_error + jstr) \<times> 's"
  createNote :: "jstr \<Rightarrow> jstr \<Rightarrow> 's \<Rightarrow> (api_error + jstr) \<times> 's"
  replaceStructured :: "file_kind \<Rightarrow> jstr \<Rightarrow> json \<Rightarrow> jstr option \<Rightarrow> 's \<Rightarrow> (api_error + jstr) \<times> 's"
  createStructured :: "file_kind \<Rightarrow> jstr \<Rightarrow> json \<Rightarrow> 's \<Rightarrow> (api_error + jstr) \<times> 's"
  uploadAttachment :: "jstr \<Rightarrow> bytes \<Rightarrow> jstr option \<Rightarrow> bool \<Rightarrow> 's \<Rightarrow> (api_error + unit) \<times> 's"
  deleteFile :: "file_kind \<Rightarrow> jstr \<Rightarrow> 's \<Rightarrow> (api_error + unit) \<times> 's"

record remote_entry =
  rkind :: file_kind
  rhash :: "jstr option"
  rguid :: "jstr option"

record remote_content =
  chash :: jstr
  cbytes :: bytes
  cguid :: "jstr option"
  cvalueHash :: "jstr option"

record precondition =
  contentHash :: "jstr option"
  valueHash :: "jstr option"
  absent :: bool

definition addGuids :: "file_kind \<Rightarrow> (jstr \<times> jstr) list \<Rightarrow> (jstr, remote_entry) jmap \<Rightarrow> (jstr, remote_entry) jmap" where
  "addGuids k xs out = fold (\<lambda>(p, g) out. jset out p \<lparr>rkind = k, rhash = None, rguid = Some g\<rparr>) xs out"

definition addHashes :: "cli_env \<Rightarrow> rtmd_config \<Rightarrow> (jstr \<times> jstr) list \<Rightarrow> (jstr, remote_entry) jmap \<Rightarrow> (jstr, remote_entry) jmap" where
  "addHashes E config xs out =
     fold (\<lambda>(p, h) out. if shouldSyncFile E config p KAttachment then jset out p \<lparr>rkind = KAttachment, rhash = Some h, rguid = None\<rparr> else out) xs out"

definition listRemote :: "cli_env \<Rightarrow> 's vault_api \<Rightarrow> rtmd_config \<Rightarrow> 's \<Rightarrow> (api_error + (jstr, remote_entry) jmap) \<times> 's" where
  "listRemote E A config s0 =
    (case listOf A KNote s0 of (Inl e, s) \<Rightarrow> (Inl e, s) | (Inr notes, s1) \<Rightarrow>
     (case (if (case attachmentSync config of Some a \<Rightarrow> \<not> enabled a | None \<Rightarrow> False) then (Inr [], s1) else listOf A KAttachment s1) of
        (Inl e, s) \<Rightarrow> (Inl e, s) | (Inr attachments, s2) \<Rightarrow>
     (case listOf A KCanvas s2 of (Inl e, s) \<Rightarrow> (Inl e, s) | (Inr canvases, s3) \<Rightarrow>
     (case listOf A KBase s3 of (Inl e, s) \<Rightarrow> (Inl e, s) | (Inr bases, s4) \<Rightarrow>
       (Inr (addGuids KBase bases (addGuids KCanvas canvases (addHashes E config attachments (addGuids KNote notes [])))), s4)))))"

definition fetchRemote :: "cli_env \<Rightarrow> 's vault_api \<Rightarrow> file_kind \<Rightarrow> jstr \<Rightarrow> 's \<Rightarrow> (api_error + remote_content) \<times> 's" where
  "fetchRemote E A k relPath s =
    (case k of
       KNote \<Rightarrow> (case readNote A relPath s of
           (Inl e, s') \<Rightarrow> (Inl e, s')
         | (Inr (content, g), s') \<Rightarrow>
             (Inr \<lparr>chash = hashText E content, cbytes = utf8 E content, cguid = Some g, cvalueHash = None\<rparr>, s'))
     | KAttachment \<Rightarrow> (case readAttachment A relPath s of
           (Inl e, s') \<Rightarrow> (Inl e, s')
         | (Inr bs, s') \<Rightarrow> (Inr \<lparr>chash = sha256 E bs, cbytes = bs, cguid = None, cvalueHash = None\<rparr>, s'))
     | _ \<Rightarrow> (case readStructured A k relPath s of
           (Inl e, s') \<Rightarrow> (Inl e, s')
         | (Inr (v, g, vh), s') \<Rightarrow>
             (Inr \<lparr>chash = hashText E (stringify E v), cbytes = utf8 E (stringifyTabs E v @ [10]), cguid = Some g, cvalueHash = vh\<rparr>, s')))"

section \<open>Status\<close>

datatype change_side = Added | Modified | Deleted

record status_entry =
  spath :: jstr
  skind :: file_kind
  slocal :: "change_side option"
  sremote :: "change_side option"

definition localChange :: "jstr option \<Rightarrow> jstr option \<Rightarrow> change_side option" where
  "localChange l s =
    (case (l, s) of
       (Some _, None) \<Rightarrow> Some Added
     | (None, Some _) \<Rightarrow> Some Deleted
     | (Some h, Some h') \<Rightarrow> if h \<noteq> h' then Some Modified else None
     | (None, None) \<Rightarrow> None)"

definition remoteChange :: "remote_entry option \<Rightarrow> jstr option \<Rightarrow> change_side option" where
  "remoteChange r s =
    (case (r, s) of
       (Some _, None) \<Rightarrow> Some Added
     | (None, Some _) \<Rightarrow> Some Deleted
     | (Some e, Some h') \<Rightarrow> if rhash e \<noteq> None \<and> rhash e \<noteq> Some h' then Some Modified else None
     | (None, None) \<Rightarrow> None)"

definition statusOf :: "(jstr, local_entry) jmap \<Rightarrow> snapshot \<Rightarrow> (jstr, remote_entry) jmap \<Rightarrow> jstr \<Rightarrow> status_entry" where
  "statusOf local snap remote p =
    \<lparr>spath = p,
     skind = (case jget local p of Some l \<Rightarrow> lkind l | None \<Rightarrow>
               (case jget snap p of Some s \<Rightarrow> kind s | None \<Rightarrow> (case jget remote p of Some r \<Rightarrow> rkind r | None \<Rightarrow> KNote))),
     slocal = localChange (map_option lhash (jget local p)) (map_option hash (jget snap p)),
     sremote = remoteChange (jget remote p) (map_option hash (jget snap p))\<rparr>"

definition classifyStatus :: "(jstr, local_entry) jmap \<Rightarrow> snapshot \<Rightarrow> (jstr, remote_entry) jmap \<Rightarrow> status_entry list" where
  "classifyStatus local snap remote =
     filter (\<lambda>e. slocal e \<noteq> None \<or> sremote e \<noteq> None)
       (map (statusOf local snap remote) (sort (remdups (jkeys local @ jkeys snap @ jkeys remote))))"

section \<open>Pull\<close>

datatype cli_error = ApiFailed api_error | FileSystem jstr | InvalidJson jstr

record 's sync_state =
  dir :: folder
  srv :: 's
  snap :: snapshot
  applied :: "(string \<times> jstr) list"
  conflicts :: "(jstr \<times> string) list"
  calls :: "api_call list"

text \<open>\<open>statSync\<close> throws when the path is gone.\<close>

definition recordLocal :: "jstr \<Rightarrow> file_kind \<Rightarrow> jstr \<Rightarrow> jstr option \<Rightarrow> 's sync_state \<Rightarrow> cli_error option \<times> 's sync_state" where
  "recordLocal relPath k h g st =
    (case lookupN (dir st) (pathSegs relPath) of
       Some (FFile bs mtime) \<Rightarrow>
         (None, st\<lparr>snap := jset (snap st) relPath \<lparr>kind = k, hash = h, size = length bs, mtimeMs = mtime, guid = g\<rparr>\<rparr>)
     | _ \<Rightarrow> (Some (FileSystem relPath), st))"

definition conflict :: "jstr \<Rightarrow> string \<Rightarrow> 's sync_state \<Rightarrow> cli_error option \<times> 's sync_state" where
  "conflict relPath reason st = (None, st\<lparr>conflicts := conflicts st @ [(relPath, reason)]\<rparr>)"

definition pullWrite :: "nat \<Rightarrow> jstr \<Rightarrow> file_kind \<Rightarrow> remote_content \<Rightarrow> bool \<Rightarrow> 's sync_state \<Rightarrow> cli_error option \<times> 's sync_state" where
  "pullWrite t relPath k content known st =
    (if lookupN (dir st) (pathSegs relPath) = Some FLink
     then conflict relPath ''local path is a symlink; refusing to overwrite'' st
     else case writeN (dir st) (pathSegs relPath) (FFile (cbytes content) t) of
            None \<Rightarrow> (Some (FileSystem relPath), st)
          | Some d \<Rightarrow>
              (case recordLocal relPath k (chash content) (cguid content) (st\<lparr>dir := d\<rparr>) of
                 (Some e, st') \<Rightarrow> (Some e, st')
               | (None, st') \<Rightarrow> (None, st'\<lparr>applied := applied st' @ [(if known then ''update'' else ''create'', relPath)]\<rparr>)))"

definition pullOne :: "cli_env \<Rightarrow> 's vault_api \<Rightarrow> bool \<Rightarrow> nat \<Rightarrow> (jstr, local_entry) jmap \<Rightarrow> jstr \<Rightarrow> remote_entry
     \<Rightarrow> 's sync_state \<Rightarrow> cli_error option \<times> 's sync_state" where
  "pullOne E A theirs t local relPath r st =
    (if isExcluded relPath then (None, st)
     else let sn = jget (snap st) relPath; l = jget local relPath
     in if (case sn of Some s \<Rightarrow> rhash r = Some (hash s) | None \<Rightarrow> False) then (None, st)
     else case fetchRemote E A (rkind r) relPath (srv st) of
            (Inl e, s') \<Rightarrow> (Some (ApiFailed e), st\<lparr>srv := s'\<rparr>)
          | (Inr content, s') \<Rightarrow>
              let st1 = st\<lparr>srv := s'\<rparr>;
                  remoteChanged = (case sn of None \<Rightarrow> True | Some s \<Rightarrow> chash content \<noteq> hash s);
                  localChanged = (case sn of Some s \<Rightarrow> (case l of None \<Rightarrow> True | Some e \<Rightarrow> lhash e \<noteq> hash s) | None \<Rightarrow> l \<noteq> None)
              in if \<not> remoteChanged then (None, st1)
                 else if (case l of Some e \<Rightarrow> lhash e = chash content | None \<Rightarrow> False)
                   then recordLocal relPath (rkind r) (chash content) (cguid content) st1
                 else if localChanged \<and> \<not> theirs
                   then conflict relPath ''modified locally and remotely (use --theirs to overwrite)'' st1
                 else pullWrite t relPath (rkind r) content (sn \<noteq> None) st1)"

fun pullAll :: "cli_env \<Rightarrow> 's vault_api \<Rightarrow> bool \<Rightarrow> nat \<Rightarrow> (jstr, local_entry) jmap \<Rightarrow> (jstr, remote_entry) jmap
     \<Rightarrow> 's sync_state \<Rightarrow> cli_error option \<times> 's sync_state" where
  "pullAll E A theirs t local [] st = (None, st)"
| "pullAll E A theirs t local ((p, r) # rs) st =
    (case pullOne E A theirs t local p r st of
       (Some e, st') \<Rightarrow> (Some e, st')
     | (None, st') \<Rightarrow> pullAll E A theirs t local rs st')"

definition pullDelete :: "bool \<Rightarrow> (jstr, local_entry) jmap \<Rightarrow> (jstr, remote_entry) jmap \<Rightarrow> jstr \<Rightarrow> 's sync_state
     \<Rightarrow> cli_error option \<times> 's sync_state" where
  "pullDelete theirs local remote relPath st =
    (if jhas remote relPath then (None, st)
     else case jget (snap st) relPath of
            None \<Rightarrow> (None, st)
          | Some s \<Rightarrow>
              (case jget local relPath of
                 Some l \<Rightarrow>
                   if lhash l \<noteq> hash s \<and> \<not> theirs
                   then conflict relPath ''deleted remotely but modified locally (use --theirs to delete)'' st
                   else (case removeN (dir st) (pathSegs relPath) of
                           None \<Rightarrow> (Some (FileSystem relPath), st)
                         | Some d \<Rightarrow> (None, st\<lparr>dir := d, snap := jdel (snap st) relPath, applied := applied st @ [(''delete'', relPath)]\<rparr>))
               | None \<Rightarrow> (None, st\<lparr>snap := jdel (snap st) relPath, applied := applied st @ [(''delete'', relPath)]\<rparr>)))"

fun pullDeletes :: "bool \<Rightarrow> (jstr, local_entry) jmap \<Rightarrow> (jstr, remote_entry) jmap \<Rightarrow> jstr list \<Rightarrow> 's sync_state
     \<Rightarrow> cli_error option \<times> 's sync_state" where
  "pullDeletes theirs local remote [] st = (None, st)"
| "pullDeletes theirs local remote (p # ps) st =
    (case pullDelete theirs local remote p st of
       (Some e, st') \<Rightarrow> (Some e, st')
     | (None, st') \<Rightarrow> pullDeletes theirs local remote ps st')"

definition startSync :: "cli_env \<Rightarrow> rtmd_config \<Rightarrow> folder \<Rightarrow> 's \<Rightarrow> snapshot \<Rightarrow> 's sync_state" where
  "startSync E config d s sn =
    \<lparr>dir = d, srv = s, snap = forgetIgnoredAttachments E config sn, applied = [], conflicts = [], calls = []\<rparr>"

definition pull :: "cli_env \<Rightarrow> 's vault_api \<Rightarrow> bool \<Rightarrow> nat \<Rightarrow> rtmd_config \<Rightarrow> folder \<Rightarrow> 's \<Rightarrow> snapshot \<Rightarrow> cli_error option \<times> 's sync_state" where
  "pull E A theirs t config d s sn =
    (let st = startSync E config d s sn;
         local = scanLocal E d (snap st) config
     in case listRemote E A config s of
          (Inl e, s') \<Rightarrow> (Some (ApiFailed e), st\<lparr>srv := s'\<rparr>)
        | (Inr remote, s') \<Rightarrow>
            (case pullAll E A theirs t local remote (st\<lparr>srv := s'\<rparr>) of
               (Some e, st') \<Rightarrow> (Some e, st')
             | (None, st') \<Rightarrow> pullDeletes theirs local remote (jkeys (snap st')) st'))"

section \<open>Push\<close>

definition call :: "api_call \<Rightarrow> 's sync_state \<Rightarrow> 's sync_state" where
  "call c st = st\<lparr>calls := calls st @ [c]\<rparr>"

text \<open>An upload: the new guid, if any, or the error.\<close>

definition uploadLocal :: "cli_env \<Rightarrow> 's vault_api \<Rightarrow> file_kind \<Rightarrow> jstr \<Rightarrow> bytes \<Rightarrow> bool \<Rightarrow> precondition \<Rightarrow> 's sync_state
     \<Rightarrow> (cli_error + jstr option) \<times> 's sync_state" where
  "uploadLocal E A k relPath bs ex pre st =
    (let done = (\<lambda>(r, s') c. (case r of Inl e \<Rightarrow> Inl (ApiFailed e) | Inr g \<Rightarrow> Inr (Some g), (call c st)\<lparr>srv := s'\<rparr>))
     in case k of
       KNote \<Rightarrow>
         (let text = fromUtf8 E bs
          in if ex then done (replaceNote A relPath text (contentHash pre) (srv st)) (CallReplace KNote relPath (contentHash pre))
             else done (createNote A relPath text (srv st)) (CallCreate KNote relPath))
     | KAttachment \<Rightarrow>
         (case uploadAttachment A relPath bs (contentHash pre) (absent pre) (srv st) of
            (r, s') \<Rightarrow> (case r of Inl e \<Rightarrow> Inl (ApiFailed e) | Inr _ \<Rightarrow> Inr None,
                        (call (CallUpload relPath (contentHash pre) (absent pre)) st)\<lparr>srv := s'\<rparr>))
     | _ \<Rightarrow>
         (case parseJson E (fromUtf8 E bs) of
            None \<Rightarrow> (Inl (InvalidJson relPath), st)
          | Some v \<Rightarrow>
              if ex then done (replaceStructured A k relPath v (valueHash pre) (srv st)) (CallReplace k relPath (valueHash pre))
              else done (createStructured A k relPath v (srv st)) (CallCreate k relPath)))"

definition pushUpload :: "cli_env \<Rightarrow> 's vault_api \<Rightarrow> bool \<Rightarrow> jstr \<Rightarrow> local_entry \<Rightarrow> bool \<Rightarrow> precondition \<Rightarrow> 's sync_state
     \<Rightarrow> cli_error option \<times> 's sync_state" where
  "pushUpload E A force relPath l ex pre st =
    (case lookupN (dir st) (pathSegs relPath) of
       Some (FFile bs _) \<Rightarrow>
         (case uploadLocal E A (lkind l) relPath bs ex pre st of
            (Inl (ApiFailed ConflictError), st') \<Rightarrow>
              conflict relPath ((if ex then ''modified'' else ''created'') @ '' remotely during push ('' @
                (if force then ''pull, then push again'' else ''use --force to overwrite'') @ '')'') st'
          | (Inl e, st') \<Rightarrow> (Some e, st')
          | (Inr g, st') \<Rightarrow>
              (case recordLocal relPath (lkind l) (lhash l) g st' of
                 (Some e, st'') \<Rightarrow> (Some e, st'')
               | (None, st'') \<Rightarrow> (None, st''\<lparr>applied := applied st'' @ [(if ex then ''update'' else ''create'', relPath)]\<rparr>)))
     | _ \<Rightarrow> (Some (FileSystem relPath), st))"

definition noPrecondition :: precondition where
  "noPrecondition = \<lparr>contentHash = None, valueHash = None, absent = False\<rparr>"

text \<open>The remote hash \<open>push\<close> compares with, and the version token: from the listing, or fetched.\<close>

definition remoteHashOf :: "cli_env \<Rightarrow> 's vault_api \<Rightarrow> remote_entry \<Rightarrow> jstr \<Rightarrow> 's \<Rightarrow> (api_error + (jstr \<times> jstr option)) \<times> 's" where
  "remoteHashOf E A r relPath s =
    (case rhash r of
       Some h \<Rightarrow> (Inr (h, None), s)
     | None \<Rightarrow> (case fetchRemote E A (rkind r) relPath s of
                  (Inl e, s') \<Rightarrow> (Inl e, s')
                | (Inr c, s') \<Rightarrow> (Inr (chash c, cvalueHash c), s')))"

definition pushOne :: "cli_env \<Rightarrow> 's vault_api \<Rightarrow> bool \<Rightarrow> (jstr, remote_entry) jmap \<Rightarrow> jstr \<Rightarrow> local_entry
     \<Rightarrow> 's sync_state \<Rightarrow> cli_error option \<times> 's sync_state" where
  "pushOne E A force remote relPath l st =
    (let sn = jget (snap st) relPath
     in if (case sn of Some s \<Rightarrow> lhash l = hash s | None \<Rightarrow> False) then (None, st)
     else case jget remote relPath of
       Some r \<Rightarrow>
         if force then pushUpload E A force relPath l True noPrecondition st
         else (case remoteHashOf E A r relPath (srv st) of
                 (Inl e, s') \<Rightarrow> (Some (ApiFailed e), st\<lparr>srv := s'\<rparr>)
               | (Inr (h, vh), s') \<Rightarrow>
                   let st1 = st\<lparr>srv := s'\<rparr>
                   in if h = lhash l then recordLocal relPath (lkind l) (lhash l) (rguid r) st1
                      else if (case sn of None \<Rightarrow> True | Some s \<Rightarrow> h \<noteq> hash s)
                        then conflict relPath ''modified remotely too (use --force to overwrite)'' st1
                      else pushUpload E A force relPath l True \<lparr>contentHash = Some h, valueHash = vh, absent = False\<rparr> st1)
     | None \<Rightarrow>
         if sn \<noteq> None \<and> \<not> force
         then conflict relPath ''deleted remotely but modified locally (use --force to re-create)'' st
         else pushUpload E A force relPath l False
                (if force then noPrecondition else \<lparr>contentHash = None, valueHash = None, absent = True\<rparr>) st)"

fun pushAll :: "cli_env \<Rightarrow> 's vault_api \<Rightarrow> bool \<Rightarrow> (jstr, remote_entry) jmap \<Rightarrow> (jstr, local_entry) jmap
     \<Rightarrow> 's sync_state \<Rightarrow> cli_error option \<times> 's sync_state" where
  "pushAll E A force remote [] st = (None, st)"
| "pushAll E A force remote ((p, l) # ls) st =
    (case pushOne E A force remote p l st of
       (Some e, st') \<Rightarrow> (Some e, st')
     | (None, st') \<Rightarrow> pushAll E A force remote ls st')"

definition deleteRemote :: "'s vault_api \<Rightarrow> file_kind \<Rightarrow> jstr \<Rightarrow> 's sync_state \<Rightarrow> cli_error option \<times> 's sync_state" where
  "deleteRemote A k relPath st =
    (case deleteFile A k relPath (srv st) of
       (Inl e, s') \<Rightarrow> (Some (ApiFailed e), (call (CallDelete k relPath) st)\<lparr>srv := s'\<rparr>)
     | (Inr _, s') \<Rightarrow> (None, (call (CallDelete k relPath) st)\<lparr>srv := s'\<rparr>))"

definition pushDelete :: "cli_env \<Rightarrow> 's vault_api \<Rightarrow> bool \<Rightarrow> (jstr, local_entry) jmap \<Rightarrow> (jstr, remote_entry) jmap \<Rightarrow> jstr
     \<Rightarrow> 's sync_state \<Rightarrow> cli_error option \<times> 's sync_state" where
  "pushDelete E A force local remote relPath st =
    (if jhas local relPath then (None, st)
     else case jget (snap st) relPath of
       None \<Rightarrow> (None, st)
     | Some s \<Rightarrow>
        (case jget remote relPath of
           None \<Rightarrow> (None, st\<lparr>snap := jdel (snap st) relPath\<rparr>)
         | Some r \<Rightarrow>
            (let del = (\<lambda>st1. case deleteRemote A (kind s) relPath st1 of
                   (Some e, st') \<Rightarrow> (Some e, st')
                 | (None, st') \<Rightarrow> (None, st'\<lparr>applied := applied st' @ [(''delete'', relPath)], snap := jdel (snap st') relPath\<rparr>))
             in if force then del st
                else case remoteHashOf E A r relPath (srv st) of
                       (Inl e, s') \<Rightarrow> (Some (ApiFailed e), st\<lparr>srv := s'\<rparr>)
                     | (Inr (h, _), s') \<Rightarrow>
                         if h \<noteq> hash s
                         then conflict relPath ''deleted locally but modified remotely (use --force to delete)'' (st\<lparr>srv := s'\<rparr>)
                         else del (st\<lparr>srv := s'\<rparr>))))"

fun pushDeletes :: "cli_env \<Rightarrow> 's vault_api \<Rightarrow> bool \<Rightarrow> (jstr, local_entry) jmap \<Rightarrow> (jstr, remote_entry) jmap \<Rightarrow> jstr list
     \<Rightarrow> 's sync_state \<Rightarrow> cli_error option \<times> 's sync_state" where
  "pushDeletes E A force local remote [] st = (None, st)"
| "pushDeletes E A force local remote (p # ps) st =
    (case pushDelete E A force local remote p st of
       (Some e, st') \<Rightarrow> (Some e, st')
     | (None, st') \<Rightarrow> pushDeletes E A force local remote ps st')"

definition push :: "cli_env \<Rightarrow> 's vault_api \<Rightarrow> bool \<Rightarrow> rtmd_config \<Rightarrow> folder \<Rightarrow> 's \<Rightarrow> snapshot \<Rightarrow> cli_error option \<times> 's sync_state" where
  "push E A force config d s sn =
    (let st = startSync E config d s sn;
         local = scanLocal E d (snap st) config
     in case listRemote E A config s of
          (Inl e, s') \<Rightarrow> (Some (ApiFailed e), st\<lparr>srv := s'\<rparr>)
        | (Inr remote, s') \<Rightarrow>
            (case pushAll E A force remote local (st\<lparr>srv := s'\<rparr>) of
               (Some e, st') \<Rightarrow> (Some e, st')
             | (None, st') \<Rightarrow> pushDeletes E A force local remote (jkeys (snap st')) st'))"

section \<open>Trees\<close>

text \<open>Names are non-empty, without slashes, and no folder lists one twice.\<close>

fun nodeOk :: "fnode \<Rightarrow> bool" where
  "nodeOk (FDir es) = (distinct (map fst es) \<and> (\<forall>p \<in> set es. fst p \<noteq> [] \<and> 47 \<notin> set (fst p) \<and> nodeOk (snd p)))"
| "nodeOk _ = True"

fun isDir :: "fnode \<Rightarrow> bool" where
  "isDir (FDir _) = True"
| "isDir _ = False"

lemma writeN_same: "writeN es ps f = Some es' \<Longrightarrow> lookupN es' ps = Some f"
proof (induction es ps f arbitrary: es' rule: writeN.induct)
  case (3 es n m ns f)
  then show ?case by (auto split: option.splits fnode.splits)
qed (auto split: option.splits fnode.splits)

lemma writeN_other:
  "writeN es qs f = Some es' \<Longrightarrow> ps \<noteq> qs \<Longrightarrow> lookupN es ps = Some x \<Longrightarrow> \<not> isDir x \<Longrightarrow> lookupN es' ps = Some x"
proof (induction es qs f arbitrary: es' ps rule: writeN.induct)
  case (1 es f)
  then show ?case by simp
next
  case (2 es n f)
  then have w: "es' = jset es n f" and nodir: "\<And>s. jget es n \<noteq> Some (FDir s)" by (auto split: option.splits fnode.splits)
  show ?case
  proof (cases ps rule: list.exhaust [case_names Nil Cons])
    case Nil
    then show ?thesis using 2(3,4) by auto
  next
    case (Cons m ms)
    then show ?thesis using 2(2-) w nodir by (cases ms) (auto split: option.splits fnode.splits if_splits)
  qed
next
  case (3 es n m ns f)
  let ?qs = "m # ns"
  obtain sub sub' where w: "es' = jset es n (FDir sub')" "writeN sub ?qs f = Some sub'"
      and sub: "jget es n = None \<and> sub = [] \<or> jget es n = Some (FDir sub)"
    using 3(3) by (auto split: option.splits fnode.splits)
  show ?case
  proof (cases ps)
    case Nil
    then show ?thesis using 3(5,6) by auto
  next
    case (Cons k ks)
    show ?thesis
    proof (cases "k = n \<and> ks \<noteq> []")
      case False
      then show ?thesis using 3(5,6) Cons sub w(1) by (cases ks) (auto split: option.splits fnode.splits)
    next
      case True
      then have d: "jget es n = Some (FDir sub)" "lookupN sub ks = Some x" using 3(5) Cons sub by (cases ks; auto)+
      moreover have "ks \<noteq> ?qs" using 3(4) Cons True by simp
      ultimately have "lookupN sub' ks = Some x" using 3(2) [OF _ _ w(2)] 3(6) by simp
      then show ?thesis using Cons True w(1) by (cases ks) simp_all
    qed
  qed
qed

lemma removeN_other:
  "removeN es qs = Some es' \<Longrightarrow> ps \<noteq> qs \<Longrightarrow> lookupN es ps = Some x \<Longrightarrow> \<not> isDir x \<Longrightarrow> lookupN es' ps = Some x"
proof (induction es qs arbitrary: es' ps rule: removeN.induct)
  case (1 es)
  then show ?case by simp
next
  case (2 es n)
  then have w: "es' = jdel es n" and nodir: "\<And>s. jget es n \<noteq> Some (FDir s)" by (auto split: option.splits fnode.splits)
  show ?case
  proof (cases ps)
    case Nil
    then show ?thesis using 2(3,4) by auto
  next
    case (Cons m ms)
    then show ?thesis using 2(2-) w nodir by (cases ms) (auto split: option.splits fnode.splits if_splits)
  qed
next
  case (3 es n m ns)
  show ?case
  proof (cases "\<exists>sub. jget es n = Some (FDir sub)")
    case False
    then have "es' = es" using 3(2) by (auto split: option.splits fnode.splits)
    then show ?thesis using 3(4) by simp
  next
    case True
    then obtain sub sub' where w: "jget es n = Some (FDir sub)" "es' = jset es n (FDir sub')" "removeN sub (m # ns) = Some sub'"
      using 3(2) by (auto split: option.splits)
    show ?thesis
    proof (cases "\<exists>k ks. ps = n # k # ks")
      case False
      show ?thesis
      proof (cases ps)
        case Nil
        then show ?thesis using 3(4,5) by auto
      next
        case (Cons k ks)
        then show ?thesis using 3(4,5) w(1,2) False by (cases ks) (auto split: option.splits fnode.splits)
      qed
    next
      case True
      then obtain ks where ks: "ps = n # ks" "ks \<noteq> []" by blast
      then have "lookupN sub ks = Some x" "ks \<noteq> m # ns" using 3(3,4) w(1) by (cases ks; simp)+
      then have "lookupN sub' ks = Some x" using 3(1) [OF w(1) refl w(3)] 3(5) by simp
      then show ?thesis using ks w(2) by (cases ks) simp_all
    qed
  qed
qed

subsection \<open>What the scan sees\<close>

definition relPathOf :: "jstr \<Rightarrow> jstr list \<Rightarrow> jstr" where
  "relPathOf = joinParts"

lemma relPathOf_Cons: "name \<noteq> [] \<Longrightarrow> relPathOf sub (name # ns) = relPathOf (if sub = [] then name else sub @ lit ''/'' @ name) ns"
  by (simp add: relPathOf_def joinParts_def)

lemma scan_sound:
  shows "nodeOk (FDir es) \<Longrightarrow> jget (walk E sn config sub es out) p = Some l \<Longrightarrow> jget out p = Some l
      \<or> (\<exists>ns bs m. ns \<noteq> [] \<and> (\<forall>n \<in> set ns. n \<noteq> [] \<and> 47 \<notin> set n) \<and> p = relPathOf sub ns \<and> lookupN es ns = Some (FFile bs m)
           \<and> lkind l = kindForPath p)"
    and "nodeOk node \<Longrightarrow> jget (walkEntry E sn config rel node out) p = Some l \<Longrightarrow> jget out p = Some l
      \<or> (p = rel \<and> lkind l = kindForPath p \<and> (\<exists>bs m. node = FFile bs m))
      \<or> (\<exists>es ns bs m. node = FDir es \<and> ns \<noteq> [] \<and> (\<forall>n \<in> set ns. n \<noteq> [] \<and> 47 \<notin> set n) \<and> p = relPathOf rel ns
           \<and> lookupN es ns = Some (FFile bs m) \<and> lkind l = kindForPath p)"
proof (induction E sn config sub es out and E sn config rel node out arbitrary: l and l rule: walk_walkEntry.induct)
  case (1 E sn config sub out)
  then show ?case by simp
next
  case (2 E sn config sub name node es out)
  let ?rel = "if sub = [] then name else sub @ lit ''/'' @ name"
  let ?out = "if isExcluded ?rel then out else walkEntry E sn config ?rel node out"
  have ok: "nodeOk (FDir es)" "nodeOk node" "name \<noteq> []" "47 \<notin> set name" "name \<notin> fst ` set es" using 2(3) by auto
  have "jget (walk E sn config sub es ?out) p = Some l" using 2(4) by (simp add: Let_def)
  from 2(2) [OF refl ok(1) this] show ?case
  proof (elim disjE exE conjE)
    fix ns bs m assume ns: "ns \<noteq> []" "\<forall>n \<in> set ns. n \<noteq> [] \<and> 47 \<notin> set n" "p = relPathOf sub ns" "lookupN es ns = Some (FFile bs m)"
      "lkind l = kindForPath p"
    have "jhas es (hd ns)" using ns(1,4) by (cases ns rule: remdups_adj.cases) (auto split: option.splits)
    then have "hd ns \<in> fst ` set es" by (simp only: jhas_iff)
    then have "hd ns \<noteq> name" using ok(5) by blast
    then have "lookupN ((name, node) # es) ns = Some (FFile bs m)" using ns(1,4) by (cases ns rule: remdups_adj.cases) auto
    then show ?thesis using ns by blast
  next
    assume o: "jget ?out p = Some l"
    show ?thesis
    proof (cases "isExcluded ?rel")
      case True
      then show ?thesis using o by simp
    next
      case False
      then have "jget (walkEntry E sn config ?rel node out) p = Some l" using o by simp
      from 2(1) [OF refl False ok(2) this] show ?thesis
      proof (elim disjE exE conjE)
        fix bs m assume "p = ?rel" "lkind l = kindForPath p" "node = FFile bs m"
        then show ?thesis using ok(3,4) by (intro disjI2 exI [of _ "[name]"] exI [of _ bs] exI [of _ m]) (simp add: relPathOf_def joinParts_def)
      next
        fix fs ns bs m assume a: "node = FDir fs" "ns \<noteq> []" "\<forall>n \<in> set ns. n \<noteq> [] \<and> 47 \<notin> set n" "p = relPathOf ?rel ns"
          "lookupN fs ns = Some (FFile bs m)" "lkind l = kindForPath p"
        then have "lookupN ((name, node) # es) (name # ns) = Some (FFile bs m)" by (cases ns) auto
        then show ?thesis using a ok(3,4) relPathOf_Cons [of name sub ns] by (intro disjI2 exI [of _ "name # ns"] exI [of _ bs] exI [of _ m]) simp
      qed simp
    qed
  qed
next
  case (4 E sn config rel es out)
  then show ?case by (simp only: walkEntry.simps nodeOk.simps fnode.inject) blast
next
  case (6 E sn config rel bs mtime out)
  then show ?case by (auto simp: scanFile_def Let_def split: if_splits)
qed simp_all

lemma scanned_file:
  assumes "nodeOk (FDir d)" "jget (scanLocal E d sn config) p = Some l"
  shows "[] \<notin> set (splitOn 47 p) \<and> lkind l = kindForPath p \<and> (\<exists>bs m. lookupN d (pathSegs p) = Some (FFile bs m))"
proof -
  obtain ns bs m where ns: "ns \<noteq> []" "\<forall>n \<in> set ns. n \<noteq> [] \<and> 47 \<notin> set n" "p = joinParts [] ns" "lookupN d ns = Some (FFile bs m)"
      "lkind l = kindForPath p"
    using scan_sound(1) [OF assms(1), of E sn config "[]" "[]" p l] assms(2) unfolding scanLocal_def relPathOf_def by auto
  then have s: "splitOn 47 p = ns" using splitOn_joined by simp
  moreover have "filter (\<lambda>s. s \<noteq> []) ns = ns" using ns(2) by (intro filter_True) blast
  ultimately have "pathSegs p = ns" by (simp add: pathSegs_def)
  then show ?thesis using ns s by auto
qed

lemma pathSegs_normal: "[] \<notin> set (splitOn 47 p) \<Longrightarrow> pathSegs p = splitOn 47 p"
  unfolding pathSegs_def by (intro filter_True) auto

lemma pathSegs_inject:
  assumes "[] \<notin> set (splitOn 47 p)" "[] \<notin> set (splitOn 47 q)" "pathSegs p = pathSegs q"
  shows "p = q"
  using assms joinParts_splitOn pathSegs_normal by metis

section \<open>Pull keeps local edits\<close>

text \<open>An entry of the scan that differs from the last synced version, or was never synced.\<close>

definition edited :: "snapshot \<Rightarrow> (jstr, local_entry) jmap \<Rightarrow> jstr \<Rightarrow> bool" where
  "edited sn local p \<longleftrightarrow> (case jget local p of None \<Rightarrow> False
     | Some l \<Rightarrow> (case jget sn p of None \<Rightarrow> True | Some s \<Rightarrow> lhash l \<noteq> hash s))"

definition normalPath :: "jstr \<Rightarrow> bool" where
  "normalPath p \<longleftrightarrow> [] \<notin> set (splitOn 47 p)"

lemma recordLocal_effect:
  "recordLocal q k h g st = (e, st') \<Longrightarrow> dir st' = dir st \<and> calls st' = calls st \<and> (p \<noteq> q \<longrightarrow> jget (snap st') p = jget (snap st) p)"
  by (auto simp: recordLocal_def split: option.splits fnode.splits)

lemma conflict_effect: "conflict q r st = (e, st') \<Longrightarrow> e = None \<and> dir st' = dir st \<and> snap st' = snap st \<and> calls st' = calls st"
  by (auto simp: conflict_def)

text \<open>A step of pull at another path leaves a file (or link) and its snapshot alone.\<close>

lemma pullWrite_other:
  assumes "pullWrite t q k content known st = (e, st')" "normalPath p" "normalPath q" "p \<noteq> q"
    and "lookupN (dir st) (pathSegs p) = Some x" "\<not> isDir x"
  shows "lookupN (dir st') (pathSegs p) = Some x \<and> jget (snap st') p = jget (snap st) p"
proof -
  have segs: "pathSegs p \<noteq> pathSegs q" using pathSegs_inject assms(2-4) unfolding normalPath_def by blast
  show ?thesis
  proof (cases "lookupN (dir st) (pathSegs q) = Some FLink \<or> writeN (dir st) (pathSegs q) (FFile (cbytes content) t) = None")
    case True
    then show ?thesis using assms(1,5) by (auto simp: pullWrite_def conflict_def split: if_splits)
  next
    case False
    then obtain d where d: "writeN (dir st) (pathSegs q) (FFile (cbytes content) t) = Some d" by blast
    obtain e1 st1 where r: "recordLocal q k (chash content) (cguid content) (st\<lparr>dir := d\<rparr>) = (e1, st1)" by fastforce
    have "lookupN d (pathSegs p) = Some x" by (rule writeN_other [OF d segs assms(5,6)])
    then show ?thesis using False d r recordLocal_effect [OF r, of p] assms(1,4)
      by (cases e1) (auto simp: pullWrite_def)
  qed
qed

lemma pullOne_other:
  assumes "pullOne E A theirs t local q r st = (e, st')" "normalPath p" "normalPath q" "p \<noteq> q"
    and "lookupN (dir st) (pathSegs p) = Some x" "\<not> isDir x"
  shows "lookupN (dir st') (pathSegs p) = Some x \<and> jget (snap st') p = jget (snap st) p"
proof -
  have wr: "lookupN (dir st') (pathSegs p) = Some x \<and> jget (snap st') p = jget (snap st1) p"
    if "pullWrite t q k c b st1 = (e, st')" "dir st1 = dir st" for k c b st1
    using pullWrite_other [OF that(1) assms(2-4), of x] that(2) assms(5,6) by simp
  have rec: "dir st' = dir st1 \<and> jget (snap st') p = jget (snap st1) p" if "recordLocal q k h g st1 = (e, st')" for k h g st1
    using recordLocal_effect [OF that, of p] assms(4) by simp
  have con: "dir st' = dir st1 \<and> snap st' = snap st1" if "conflict q m st1 = (e, st')" for m st1
    using conflict_effect [OF that] by simp
  show ?thesis
    using assms(1,5) unfolding pullOne_def Let_def
    by (auto split: if_splits option.splits sum.splits prod.splits dest!: wr rec con)
qed

text \<open>At its own path pull neither overwrites an edited file nor a link.\<close>

lemma pullOne_same:
  assumes "pullOne E A False t local p r st = (e, st')"
    and "edited (snap st) local p \<or> lookupN (dir st) (pathSegs p) = Some FLink"
  shows "dir st' = dir st"
proof -
  have wr: "dir st' = dir st1" if "pullWrite t p k c b st1 = (e, st')" "lookupN (dir st1) (pathSegs p) = Some FLink" for k c b st1
    using that by (auto simp: pullWrite_def conflict_def)
  have rec: "dir st' = dir st1" if "recordLocal p k h g st1 = (e, st')" for k h g st1
    using recordLocal_effect [OF that] by simp
  have con: "dir st' = dir st1" if "conflict p m st1 = (e, st')" for m st1
    using conflict_effect [OF that] by simp
  show ?thesis
    using assms unfolding pullOne_def Let_def edited_def
    by (auto split: if_splits option.splits sum.splits prod.splits dest!: rec con dest: wr)
qed

lemma edited_cong: "jget sn' p = jget sn p \<Longrightarrow> edited sn' local p = edited sn local p"
  by (simp add: edited_def split: option.split)

lemma pullAll_other:
  assumes "pullAll E A theirs t local rs st = (e, st')" "normalPath p" "\<forall>q \<in> set (jkeys rs). normalPath q" "p \<notin> set (jkeys rs)"
    and "lookupN (dir st) (pathSegs p) = Some x" "\<not> isDir x"
  shows "lookupN (dir st') (pathSegs p) = Some x \<and> jget (snap st') p = jget (snap st) p"
  using assms
proof (induction rs arbitrary: st)
  case (Cons qr rs)
  obtain q r where qr: "qr = (q, r)" by (cases qr)
  obtain e1 st1 where o: "pullOne E A theirs t local q r st = (e1, st1)" by fastforce
  have "lookupN (dir st1) (pathSegs p) = Some x \<and> jget (snap st1) p = jget (snap st) p"
    using pullOne_other [OF o assms(2) _ _ Cons.prems(5,6)] Cons.prems(3,4) qr by simp
  then show ?case using Cons.IH [of st1] Cons.prems o qr by (cases e1) auto
qed simp

lemma pullAll_keeps:
  assumes "pullAll E A False t local rs st = (e, st')" "normalPath p" "\<forall>q \<in> set (jkeys rs). normalPath q" "jwf rs"
    and "lookupN (dir st) (pathSegs p) = Some x" "\<not> isDir x"
    and "edited (snap st) local p \<or> x = FLink"
  shows "lookupN (dir st') (pathSegs p) = Some x \<and> (p \<notin> set (jkeys rs) \<longrightarrow> jget (snap st') p = jget (snap st) p)"
  using assms
proof (induction rs arbitrary: st)
  case (Cons qr rs)
  obtain q r where qr: "qr = (q, r)" by (cases qr)
  obtain e1 st1 where o: "pullOne E A False t local q r st = (e1, st1)" by fastforce
  have tail: "jwf rs" "\<forall>q \<in> set (jkeys rs). normalPath q" "normalPath q" "q \<notin> set (jkeys rs)" using Cons.prems(3,4) qr by auto
  show ?case
  proof (cases "p = q")
    case True
    then have d: "lookupN (dir st1) (pathSegs p) = Some x"
      using pullOne_same [OF o [folded True]] Cons.prems(5,7) by auto
    then show ?thesis
      using Cons.prems(1) o qr True tail pullAll_other [OF _ assms(2) tail(2) _ d assms(6)] by (cases e1) auto
  next
    case False
    then have s: "lookupN (dir st1) (pathSegs p) = Some x" "jget (snap st1) p = jget (snap st) p"
      using pullOne_other [OF o assms(2) tail(3) _ Cons.prems(5,6)] by blast+
    have "edited (snap st1) local p \<or> x = FLink" using Cons.prems(7) edited_cong [OF s(2)] by simp
    then show ?thesis using Cons.IH [of st1, OF _ assms(2) tail(2,1) s(1) assms(6)] Cons.prems(1) o qr s False by (cases e1) auto
  qed
qed simp

lemma pullDelete_keeps:
  assumes "pullDelete False local remote q st = (e, st')" "normalPath p" "\<forall>q. jhas local q \<longrightarrow> normalPath q"
    and "lookupN (dir st) (pathSegs p) = Some x" "\<not> isDir x"
    and keep: "jhas remote p \<or> edited (snap st) local p \<or> \<not> jhas local p"
  shows "lookupN (dir st') (pathSegs p) = Some x \<and> (jhas remote p \<or> edited (snap st') local p \<or> \<not> jhas local p)"
proof (cases "p = q")
  case True
  then have "dir st' = dir st" "jhas remote p \<or> \<not> jhas local p \<or> snap st' = snap st"
    using assms(1) keep unfolding pullDelete_def conflict_def edited_def by (auto split: if_splits option.splits)
  then show ?thesis using assms(4) keep by auto
next
  case False
  have "lookupN d (pathSegs p) = Some x" if "removeN (dir st) (pathSegs q) = Some d" "jhas local q" for d
  proof (rule removeN_other [OF that(1) _ assms(4,5)])
    show "pathSegs p \<noteq> pathSegs q" using pathSegs_inject assms(2,3) that(2) False unfolding normalPath_def by blast
  qed
  then have d: "lookupN (dir st') (pathSegs p) = Some x"
    using assms(1,4) False unfolding pullDelete_def conflict_def by (auto split: if_splits option.splits)
  have "jget (snap st') p = jget (snap st) p"
    using assms(1) False unfolding pullDelete_def conflict_def by (auto split: if_splits option.splits)
  then show ?thesis using d keep edited_cong by blast
qed

lemma pullDeletes_keeps:
  assumes "pullDeletes False local remote qs st = (e, st')" "normalPath p" "\<forall>q. jhas local q \<longrightarrow> normalPath q"
    and "lookupN (dir st) (pathSegs p) = Some x" "\<not> isDir x"
    and "jhas remote p \<or> edited (snap st) local p \<or> \<not> jhas local p"
  shows "lookupN (dir st') (pathSegs p) = Some x"
  using assms
proof (induction qs arbitrary: st)
  case (Cons q qs)
  obtain e1 st1 where o: "pullDelete False local remote q st = (e1, st1)" by fastforce
  note keep = pullDelete_keeps [OF o assms(2,3) Cons.prems(4) assms(5) Cons.prems(6)]
  show ?case using Cons.IH [of st1, OF _ assms(2,3) _ assms(5)] Cons.prems(1) o keep by (cases e1) auto
qed simp

lemma jwf_fold_jset: "jwf m \<Longrightarrow> jwf (fold (\<lambda>(p, x) out. jset out p (f x)) xs m)"
  by (induction xs arbitrary: m) (auto simp: split_beta)

lemma jwf_listRemote:
  assumes "listRemote E A config s = (Inr remote, s')"
  shows "jwf remote"
proof -
  have "jwf m \<Longrightarrow> jwf (addGuids k xs m)" for k xs m
    unfolding addGuids_def by (rule jwf_fold_jset)
  moreover have "jwf m \<Longrightarrow> jwf (addHashes E config xs m)" for xs m
    unfolding addHashes_def by (induction xs arbitrary: m) (auto simp: split_beta)
  ultimately show ?thesis using assms by (auto simp: listRemote_def split: prod.splits sum.splits)
qed


definition demoEnv :: cli_env where
  "demoEnv = \<lparr>sha256 = map (\<lambda>b. of_nat (unat b)), utf8 = map (\<lambda>u. of_nat (unat u)), fromUtf8 = map (\<lambda>b. of_nat (unat b)),
     parseJson = (\<lambda>_. None), stringify = (\<lambda>_. []), stringifyTabs = (\<lambda>_. []), isMatch = (\<lambda>_ _. True)\<rparr>"

definition demoApi :: "unit vault_api" where
  "demoApi = \<lparr>listOf = (\<lambda>k s. (Inr (if k = KNote then [(lit ''a.md'', lit ''g'')] else []), s)),
     readNote = (\<lambda>p s. (Inr (lit ''z'', lit ''g''), s)), readStructured = (\<lambda>k p s. (Inr (JNull, lit ''g'', None), s)),
     readAttachment = (\<lambda>p s. (Inr [], s)), replaceNote = (\<lambda>p x h s. (Inr (lit ''g''), s)), createNote = (\<lambda>p x s. (Inr (lit ''g''), s)),
     replaceStructured = (\<lambda>k p v h s. (Inr (lit ''g''), s)), createStructured = (\<lambda>k p v s. (Inr (lit ''g''), s)),
     uploadAttachment = (\<lambda>p bs h a s. (Inr (), s)), deleteFile = (\<lambda>k p s. (Inr (), s))\<rparr>"

lemma demo_list:
  "listRemote demoEnv demoApi \<lparr>attachmentSync = None\<rparr> () = (Inr [(lit ''a.md'', \<lparr>rkind = KNote, rhash = None, rguid = Some (lit ''g'')\<rparr>)], ())"
  by (simp add: listRemote_def demoApi_def addGuids_def addHashes_def)

lemma demo_path: "splitOn 47 (lit ''a.md'') = [lit ''a.md'']" "\<not> isExcluded (lit ''a.md'')" "kindForPath (lit ''a.md'') = KNote"
proof -
  show s: "splitOn 47 (lit ''a.md'') = [lit ''a.md'']" by (simp add: lit_def)
  show "\<not> isExcluded (lit ''a.md'')" by (simp only: isExcluded_def s) (simp add: startsWith_def)
  have "map toLowerUnit (lit ''a.md'') = lit ''a.md''" by (simp add: lit_def toLowerUnit_def)
  then show "kindForPath (lit ''a.md'') = KNote" by (simp add: kindForPath_def endsWith_def)
qed


section \<open>Push only overwrites what it has seen\<close>

text \<open>What a write request of push is protected by, given the snapshot of the last sync and the listings.\<close>

definition guarded :: "cli_env \<Rightarrow> 's vault_api \<Rightarrow> (jstr, remote_entry) jmap \<Rightarrow> snapshot \<Rightarrow> (jstr, local_entry) jmap \<Rightarrow> api_call \<Rightarrow> bool" where
  "guarded E A remote sn local c =
    (case c of
       CallReplace k p m \<Rightarrow> (\<exists>s. jget sn p = Some s \<and>
         (if k = KNote then m = Some (hash s)
          else \<exists>ct s1 s2. fetchRemote E A k p s1 = (Inr ct, s2) \<and> chash ct = hash s \<and> m = cvalueHash ct))
     | CallCreate k p \<Rightarrow> jget sn p = None \<and> jget remote p = None
     | CallUpload p m a \<Rightarrow> (\<exists>s. jget sn p = Some s \<and> m = Some (hash s)) \<or> jget sn p = None \<and> jget remote p = None \<and> a
     | CallDelete k p \<Rightarrow> (\<exists>s r. jget local p = None \<and> jget sn p = Some s \<and> k = kind s \<and> jget remote p = Some r \<and>
         (rhash r = Some (hash s) \<or> (\<exists>ct s1 s2. fetchRemote E A (rkind r) p s1 = (Inr ct, s2) \<and> chash ct = hash s))))"

lemma uploadLocal_effect:
  assumes "uploadLocal E A k p bs ex pre st = (r, st')"
  shows "dir st' = dir st \<and> snap st' = snap st \<and> (calls st' = calls st \<or> (\<exists>c. calls st' = calls st @ [c] \<and>
    (c = (if k = KAttachment then CallUpload p (contentHash pre) (absent pre)
      else if ex then CallReplace k p (if k = KNote then contentHash pre else valueHash pre) else CallCreate k p))))"
  using assms by (cases k) (auto simp: uploadLocal_def Let_def call_def split: if_splits option.splits prod.splits sum.splits)

lemma pushUpload_effect:
  assumes "pushUpload E A force p l ex pre st = (e, st')"
  shows "(\<forall>q. q \<noteq> p \<longrightarrow> jget (snap st') q = jget (snap st) q) \<and> (calls st' = calls st \<or> (\<exists>c. calls st' = calls st @ [c] \<and>
    (c = (if lkind l = KAttachment then CallUpload p (contentHash pre) (absent pre)
      else if ex then CallReplace (lkind l) p (if lkind l = KNote then contentHash pre else valueHash pre) else CallCreate (lkind l) p))))"
proof (cases "\<exists>bs m. lookupN (dir st) (pathSegs p) = Some (FFile bs m)")
  case False
  then show ?thesis using assms by (auto simp: pushUpload_def split: option.splits fnode.splits)
next
  case True
  then obtain bs m where f: "lookupN (dir st) (pathSegs p) = Some (FFile bs m)" by blast
  obtain r st1 where u: "uploadLocal E A (lkind l) p bs ex pre st = (r, st1)" by fastforce
  note eff = uploadLocal_effect [OF u]
  have "calls st' = calls st1 \<and> (\<forall>q. q \<noteq> p \<longrightarrow> jget (snap st') q = jget (snap st1) q)"
  proof (cases r)
    case (Inl e1)
    then show ?thesis using assms f u by (auto simp: pushUpload_def conflict_def split: cli_error.splits api_error.splits)
  next
    case (Inr g)
    obtain e2 st2 where rec: "recordLocal p (lkind l) (lhash l) g st1 = (e2, st2)" by fastforce
    then show ?thesis using assms f u Inr recordLocal_effect [OF rec] by (cases e2) (auto simp: pushUpload_def)
  qed
  then show ?thesis using eff by auto
qed

lemma remoteHashOf_cases:
  assumes "remoteHashOf E A r p s = (Inr (h, vh), s')"
  shows "rhash r = Some h \<or> rhash r = None \<and> (\<exists>ct. fetchRemote E A (rkind r) p s = (Inr ct, s') \<and> h = chash ct \<and> vh = cvalueHash ct)"
  using assms by (auto simp: remoteHashOf_def split: option.splits prod.splits sum.splits)

definition entryOk :: "jstr \<Rightarrow> remote_entry \<Rightarrow> bool" where
  "entryOk p r \<longleftrightarrow> rkind r = kindForPath p \<and> (rhash r = None \<longleftrightarrow> rkind r \<noteq> KAttachment)"

lemma guarded_step:
  assumes "\<forall>c \<in> set cs. guarded E A remote sn local c" "cs' = cs \<or> (\<exists>c. cs' = cs @ [c] \<and> c = d)" "guarded E A remote sn local d"
  shows "\<forall>c \<in> set cs'. guarded E A remote sn local c"
  using assms by auto

lemma pushOne_guarded:
  assumes o: "pushOne E A False remote p l st = (e, st')" and sn: "jget (snap st) p = jget sn p"
    and k: "lkind l = kindForPath p" "\<forall>r. jget remote p = Some r \<longrightarrow> entryOk p r"
    and g: "\<forall>c \<in> set (calls st). guarded E A remote sn local c"
  shows "(\<forall>c \<in> set (calls st'). guarded E A remote sn local c) \<and> (\<forall>q. q \<noteq> p \<longrightarrow> jget (snap st') q = jget (snap st) q)"
proof (cases "case jget sn p of Some s \<Rightarrow> lhash l = hash s | None \<Rightarrow> False")
  case True
  then show ?thesis using o g sn by (simp add: pushOne_def)
next
  case changed: False
  show ?thesis
  proof (cases "jget remote p")
    case None
    have up: ?thesis if u: "pushUpload E A False p l False \<lparr>contentHash = None, valueHash = None, absent = True\<rparr> st = (e, st')" "jget sn p = None"
    proof -
      note eff = pushUpload_effect [OF u(1)]
      have "\<forall>c \<in> set (calls st'). guarded E A remote sn local c"
        by (rule guarded_step [OF g eff [THEN conjunct2]]) (use None u(2) in \<open>simp add: guarded_def\<close>)
      then show ?thesis using eff by blast
    qed
    show ?thesis
    proof (cases "jget sn p")
      case None
      then show ?thesis using o changed sn \<open>jget remote p = None\<close> up by (simp add: pushOne_def)
    next
      case (Some s)
      then show ?thesis using o changed sn \<open>jget remote p = None\<close> g by (auto simp: pushOne_def conflict_def)
    qed
  next
    case (Some r)
    then have r: "rkind r = lkind l" "rhash r = None \<longleftrightarrow> lkind l \<noteq> KAttachment" using k by (auto simp: entryOk_def)
    obtain res s' where res: "remoteHashOf E A r p (srv st) = (res, s')" by fastforce
    show ?thesis
    proof (cases res)
      case (Inl e1)
      then show ?thesis using o changed sn Some res g by (auto simp: pushOne_def)
    next
      case (Inr hv)
      obtain h vh where hv: "hv = (h, vh)" by (cases hv)
      let ?st = "st\<lparr>srv := s'\<rparr>"
      have up: ?thesis if u: "pushUpload E A False p l True \<lparr>contentHash = Some h, valueHash = vh, absent = False\<rparr> ?st = (e, st')"
          and s: "jget sn p = Some s" "h = hash s" for s
      proof -
        have "\<exists>ct s1 s2. fetchRemote E A (lkind l) p s1 = (Inr ct, s2) \<and> chash ct = hash s \<and> vh = cvalueHash ct" if ka: "lkind l \<noteq> KAttachment"
        proof -
          obtain ct where "fetchRemote E A (lkind l) p (srv st) = (Inr ct, s')" "h = chash ct" "vh = cvalueHash ct"
            using remoteHashOf_cases [of E A r p "srv st" h vh s'] res Inr hv r ka by auto
          then show ?thesis using s(2) by (intro exI [of _ ct] exI [of _ "srv st"] exI [of _ s']) simp
        qed
        then have d: "guarded E A remote sn local (if lkind l = KAttachment then CallUpload p (Some h) False
          else if True then CallReplace (lkind l) p (if lkind l = KNote then Some h else vh) else CallCreate (lkind l) p)"
          using s by (simp add: guarded_def)
        have g': "\<forall>c \<in> set (calls ?st). guarded E A remote sn local c" using g by simp
        note eff = pushUpload_effect [OF u]
        have "\<forall>c \<in> set (calls st'). guarded E A remote sn local c"
          by (rule guarded_step [OF g' eff [THEN conjunct2]]) (simp only: precondition.simps d)
        then show ?thesis using eff [THEN conjunct1] by simp
      qed
      have rec: ?thesis if "recordLocal p (lkind l) (lhash l) (rguid r) ?st = (e, st')"
        using recordLocal_effect [OF that] g by auto
      have con: ?thesis if "conflict p m ?st = (e, st')" for m
        using conflict_effect [OF that] g by auto
      show ?thesis
        using o changed sn Some res Inr hv up rec con
        by (auto simp: pushOne_def Let_def split: if_splits option.splits)
    qed
  qed
qed

lemma pushAll_guarded:
  assumes "pushAll E A False remote ls st = (e, st')" "jwf ls" "\<forall>p \<in> set (jkeys ls). jget (snap st) p = jget sn p"
    and "\<forall>(p, l) \<in> set ls. lkind l = kindForPath p" "\<forall>p r. jget remote p = Some r \<longrightarrow> entryOk p r"
    and "\<forall>c \<in> set (calls st). guarded E A remote sn local c"
  shows "(\<forall>c \<in> set (calls st'). guarded E A remote sn local c) \<and> (\<forall>q. q \<notin> set (jkeys ls) \<longrightarrow> jget (snap st') q = jget (snap st) q)"
  using assms
proof (induction ls arbitrary: st)
  case (Cons pl ls)
  obtain p l where pl: "pl = (p, l)" by (cases pl)
  obtain e1 st1 where o: "pushOne E A False remote p l st = (e1, st1)" by fastforce
  have "(\<forall>c \<in> set (calls st1). guarded E A remote sn local c) \<and> (\<forall>q. q \<noteq> p \<longrightarrow> jget (snap st1) q = jget (snap st) q)"
    by (rule pushOne_guarded [OF o]) (use Cons.prems pl in auto)
  note one = this [THEN conjunct1] this [THEN conjunct2]
  have "\<forall>q \<in> set (jkeys ls). jget (snap st1) q = jget sn q" 
  proof
    fix q assume q: "q \<in> set (jkeys ls)"
    then have "q \<noteq> p" using Cons.prems(2) pl by auto
    then show "jget (snap st1) q = jget sn q" using one(2) Cons.prems(3) q pl by auto
  qed
  then show ?case using Cons.IH [of st1] Cons.prems pl o one by (cases e1) auto
qed simp

lemma pushDelete_guarded:
  assumes o: "pushDelete E A False local remote p st = (e, st')"
    and sn: "\<not> jhas local p \<longrightarrow> jget (snap st) p = jget sn p \<or> jget (snap st) p = None"
    and g: "\<forall>c \<in> set (calls st). guarded E A remote sn local c"
  shows "(\<forall>c \<in> set (calls st'). guarded E A remote sn local c)
    \<and> (\<forall>q. jget (snap st') q = jget (snap st) q \<or> jget (snap st') q = None)"
proof (cases "jhas local p \<or> jget (snap st) p = None \<or> jget remote p = None")
  case True
  then show ?thesis using o g by (auto simp: pushDelete_def split: option.splits if_splits)
next
  case False
  then obtain s r where s: "jget (snap st) p = Some s" "jget remote p = Some r" "jget local p = None" "jget sn p = Some s"
    using sn by auto
  obtain res s' where res: "remoteHashOf E A r p (srv st) = (res, s')" by fastforce
  show ?thesis
  proof (cases res)
    case (Inl e1)
    then show ?thesis using o s res g by (auto simp: pushDelete_def)
  next
    case (Inr hv)
    obtain h vh where hv: "hv = (h, vh)" by (cases hv)
    have "rhash r = Some h \<or> (\<exists>ct s1 s2. fetchRemote E A (rkind r) p s1 = (Inr ct, s2) \<and> chash ct = h)"
      using remoteHashOf_cases [of E A r p "srv st" h vh s'] res Inr hv by blast
    then have "guarded E A remote sn local (CallDelete (kind s) p)" if "h = hash s"
      using s that by (simp add: guarded_def)
    then show ?thesis using o s res Inr hv g
      by (auto simp: pushDelete_def deleteRemote_def conflict_def call_def Let_def split: if_splits prod.splits sum.splits)
  qed
qed

lemma pushDeletes_guarded:
  assumes "pushDeletes E A False local remote ps st = (e, st')"
    and "\<forall>p. \<not> jhas local p \<longrightarrow> jget (snap st) p = jget sn p \<or> jget (snap st) p = None"
    and "\<forall>c \<in> set (calls st). guarded E A remote sn local c"
  shows "\<forall>c \<in> set (calls st'). guarded E A remote sn local c"
  using assms
proof (induction ps arbitrary: st)
  case (Cons p ps)
  obtain e1 st1 where o: "pushDelete E A False local remote p st = (e1, st1)" by fastforce
  have "\<not> jhas local p \<longrightarrow> jget (snap st) p = jget sn p \<or> jget (snap st) p = None" by (rule Cons.prems(2) [THEN spec])
  note one = pushDelete_guarded [OF o this Cons.prems(3)]
  have all: "\<forall>q. \<not> jhas local q \<longrightarrow> jget (snap st1) q = jget sn q \<or> jget (snap st1) q = None"
  proof (intro allI impI)
    fix q
    assume q: "\<not> jhas local q"
    from one have "jget (snap st1) q = jget (snap st) q \<or> jget (snap st1) q = None" by (rule conjunct2 [THEN spec])
    then show "jget (snap st1) q = jget sn q \<or> jget (snap st1) q = None"
      using Cons.prems(2) [rule_format, OF q] by (elim disjE) simp_all
  qed
  show ?case
  proof (cases e1)
    case None
    then have "pushDeletes E A False local remote ps st1 = (e, st')" using Cons.prems(1) o by simp
    from Cons.IH [OF this all one [THEN conjunct1]] show ?thesis .
  next
    case (Some x)
    then have "st' = st1" using Cons.prems(1) o by simp
    then show ?thesis using one by (elim conjE) (simp only:)
  qed
qed simp

lemma listRemote_kinds:
  assumes "listRemote E A config s = (Inr remote, s')" "jget remote p = Some r"
  shows "rhash r = None \<longleftrightarrow> rkind r \<noteq> KAttachment"
proof -
  let ?ok = "\<lambda>m. \<forall>p r. jget m p = Some r \<longrightarrow> (rhash r = None \<longleftrightarrow> rkind r \<noteq> KAttachment)"
  have guids: "?ok m \<Longrightarrow> ?ok (addGuids k xs m)" if "k \<noteq> KAttachment" for k xs and m :: "(jstr, remote_entry) jmap"
  proof (induction xs arbitrary: m)
    case (Cons x xs)
    have "?ok (jset m (fst x) \<lparr>rkind = k, rhash = None, rguid = Some (snd x)\<rparr>)" using Cons.prems that by simp
    from Cons.IH [OF this] show ?case by (simp add: addGuids_def split_beta)
  qed (simp add: addGuids_def)
  have hashes: "?ok m \<Longrightarrow> ?ok (addHashes E config xs m)" for xs and m :: "(jstr, remote_entry) jmap"
  proof (induction xs arbitrary: m)
    case (Cons x xs)
    obtain p h where x: "x = (p, h)" by (cases x)
    have "?ok (jset m p \<lparr>rkind = KAttachment, rhash = Some h, rguid = None\<rparr>)" using Cons.prems by simp
    from Cons.IH [OF this] Cons.IH [OF Cons.prems] show ?case by (simp add: addHashes_def x)
  qed (simp add: addHashes_def)
  have "?ok (addGuids KBase bs (addGuids KCanvas cs (addHashes E config as (addGuids KNote ns []))))" for as bs cs ns
    by (intro guids hashes) simp_all
  then show ?thesis using assms by (auto simp: listRemote_def split: prod.splits sum.splits)
qed

lemma jwf_walk:
  "jwf out \<Longrightarrow> jwf (walk E sn config sub es out)"
  "jwf out \<Longrightarrow> jwf (walkEntry E sn config rel node out)"
proof (induction E sn config sub es out and E sn config rel node out rule: walk_walkEntry.induct)
  case (2 E sn config sub name node es out)
  then show ?case by (simp add: Let_def del: jwf_jset)
next
  case (6 E sn config rel bs mtime out)
  then show ?case by (simp add: scanFile_def Let_def)
qed simp_all

lemma scanLocal_entries:
  assumes "nodeOk (FDir d)"
  shows "jwf (scanLocal E d sn config)" "\<forall>(p, l) \<in> set (scanLocal E d sn config). lkind l = kindForPath p"
proof -
  show wf: "jwf (scanLocal E d sn config)" unfolding scanLocal_def by (rule jwf_walk) simp
  have "lkind l = kindForPath p" if "(p, l) \<in> set (scanLocal E d sn config)" for p l
    using scanned_file [OF assms, of E sn config p l] map_of_is_SomeI [OF wf that] by blast
  then show "\<forall>(p, l) \<in> set (scanLocal E d sn config). lkind l = kindForPath p" by blast
qed

text \<open>
  C10: A push without \<open>--force\<close> only writes over what the last sync has seen, whatever the vault answers
  or fails with in between and whoever edits it meanwhile. Each of its write requests is either a
  create of a file that neither the snapshot nor the listing has (an attachment with
  \<open>If-None-Match: *\<close>), or a replace that carries the version of the last sync as its precondition (the
  snapshot's hash for notes and attachments, the version token the vault returned together with a value of
  exactly that hash for canvases and bases), or the deletion of a file that is gone from the folder and that the vault
  still showed with the snapshot's hash. The listings agree with the endings of the paths.
\<close>

theorem push_guarded:
  assumes "nodeOk (FDir d)" "listRemote E A config s = (Inr remote, s')"
    and "\<forall>p r. jget remote p = Some r \<longrightarrow> rkind r = kindForPath p"
    and "c \<in> set (calls (snd (push E A False config d s sn)))"
  shows "guarded E A remote (forgetIgnoredAttachments E config sn) (scanLocal E d (forgetIgnoredAttachments E config sn) config) c"
proof -
  let ?sn = "forgetIgnoredAttachments E config sn" and ?st = "(startSync E config d s sn)\<lparr>srv := s'\<rparr>"
  let ?local = "scanLocal E d ?sn config"
  have start: "snap ?st = ?sn" "calls ?st = []" by (simp_all add: startSync_def)
  have ok: "\<forall>p r. jget remote p = Some r \<longrightarrow> entryOk p r"
    using assms(3) listRemote_kinds [OF assms(2)] unfolding entryOk_def by blast
  obtain e1 st1 where o: "pushAll E A False remote ?local ?st = (e1, st1)" by fastforce
  have "(\<forall>c \<in> set (calls st1). guarded E A remote ?sn ?local c) \<and> (\<forall>q. q \<notin> set (jkeys ?local) \<longrightarrow> jget (snap st1) q = jget (snap ?st) q)"
    by (rule pushAll_guarded [OF o scanLocal_entries(1) [OF assms(1)] _ scanLocal_entries(2) [OF assms(1)] ok]) (simp_all only: start, simp_all)
  note one = this [THEN conjunct1] this [THEN conjunct2, unfolded start]
  obtain e2 st2 where d: "pushDeletes E A False ?local remote (jkeys (snap st1)) st1 = (e2, st2)" by fastforce
  have "\<forall>c \<in> set (calls st2). guarded E A remote ?sn ?local c"
    by (rule pushDeletes_guarded [OF d _ one(1)]) (use one(2) in \<open>auto simp: map_of_eq_None_iff\<close>)
  moreover have "snd (push E A False config d s sn) = (if e1 = None then st2 else st1)"
    using assms(2) o d by (cases e1) (simp_all add: push_def Let_def startSync_def)
  ultimately show ?thesis using one(1) assms(4) by (auto split: if_splits)
qed

text \<open>A note edited in the folder since the last sync, unchanged in the vault, is replaced under the snapshot's hash.\<close>

definition demoSnap :: snapshot where
  "demoSnap = [(lit ''a.md'', \<lparr>kind = KNote, hash = lit ''z'', size = 7, mtimeMs = 3, guid = None\<rparr>)]"

lemma demo_push:
  "calls (snd (push demoEnv demoApi False \<lparr>attachmentSync = None\<rparr> [(lit ''a.md'', FFile [1] 5)] () demoSnap))
    = [CallReplace KNote (lit ''a.md'') (Some (lit ''z''))]"
proof -
  let ?d = "[(lit ''a.md'', FFile [1] 5)]" and ?c = "\<lparr>attachmentSync = None\<rparr>" and ?p = "lit ''a.md''"
  let ?r = "\<lparr>rkind = KNote, rhash = None, rguid = Some (lit ''g'')\<rparr>"
  have forget: "forgetIgnoredAttachments demoEnv ?c demoSnap = demoSnap"
    by (simp add: forgetIgnoredAttachments_def demoSnap_def shouldSyncFile_def)
  have local: "scanLocal demoEnv ?d demoSnap ?c = [(?p, \<lparr>lkind = KNote, lsize = 1, lmtime = 5, lhash = [1]\<rparr>)]"
    by (simp add: scanLocal_def demo_path scanFile_def shouldSyncFile_def demoSnap_def hashLocalContent_def demoEnv_def)
  have z: "lit ''z'' = [122]" by (simp add: lit_def)
  have fetch: "remoteHashOf demoEnv demoApi ?r ?p () = (Inr (lit ''z'', None), ())"
    by (simp add: remoteHashOf_def fetchRemote_def demoApi_def demoEnv_def hashText_def z)
  have segs: "pathSegs ?p = [?p]" by (simp add: pathSegs_def demo_path)
  have put: "replaceNote demoApi ?p x h () = (Inr (lit ''g''), ())" for x h by (simp add: demoApi_def)
  show ?thesis
    unfolding push_def Let_def startSync_def sync_state.simps forget local demo_list prod.case sum.case
    by (simp add: demoSnap_def pushOne_def fetch z pushUpload_def segs uploadLocal_def put call_def recordLocal_def pushDelete_def Let_def)
qed

theorem push_guarded_witness:
  "CallReplace KNote (lit ''a.md'') (Some (lit ''z'')) \<in> set (calls (snd (push demoEnv demoApi False \<lparr>attachmentSync = None\<rparr> [(lit ''a.md'', FFile [1] 5)] () demoSnap)))
   \<and> guarded demoEnv demoApi [(lit ''a.md'', \<lparr>rkind = KNote, rhash = None, rguid = Some (lit ''g'')\<rparr>)]
       (forgetIgnoredAttachments demoEnv \<lparr>attachmentSync = None\<rparr> demoSnap)
       (scanLocal demoEnv [(lit ''a.md'', FFile [1] 5)] (forgetIgnoredAttachments demoEnv \<lparr>attachmentSync = None\<rparr> demoSnap) \<lparr>attachmentSync = None\<rparr>)
       (CallReplace KNote (lit ''a.md'') (Some (lit ''z'')))"
proof -
  let ?d = "[(lit ''a.md'', FFile [1] 5)]"
  have "(47 :: 16 word) \<notin> set (lit ''a.md'')" by (simp add: lit_def)
  then have ok: "nodeOk (FDir ?d)" by simp
  have k: "\<forall>p r. jget [(lit ''a.md'', \<lparr>rkind = KNote, rhash = None, rguid = Some (lit ''g'')\<rparr>)] p = Some r \<longrightarrow> rkind r = kindForPath p"
    by (simp add: demo_path)
  show ?thesis by (rule conjI, simp add: demo_push) (rule push_guarded [OF ok demo_list k], simp add: demo_push)
qed

end
