(* ===== verification/Structured_Merge.thy ===== *)
theory Structured_Merge
  imports Js_Prelude
begin

text \<open>
  The three-way merge of structured documents at startup, with the comparisons it uses:
  \<open>mergeStructuredStartupResult\<close>, \<open>jsonEqual\<close> and \<open>jsonContains\<close> of
  \<^verbatim>\<open>src/structured/reconcile.ts\<close>.

  Objects are association lists. The \<open>in\<close> operator is membership of an own key: the model
  covers values none of whose keys is the name of a member of \<open>Object.prototype\<close>. The
  identity test \<open>left === right\<close> at the head of \<open>jsonEqual\<close> only short-cuts comparisons that
  succeed anyway (\<open>jsonEqual_refl\<close>), so on objects and arrays it is left out.

  \<open>atPath\<close> reads a value through nested records. The merge is specified by what every path of
  the result holds.
\<close>

section \<open>Model\<close>

record structured_merge =
  sValue :: json
  sConflicted :: bool

fun jsonEqual :: "json \<Rightarrow> json \<Rightarrow> bool" where
  "jsonEqual (JArr left) (JArr right) =
     (length left = length right \<and> (\<forall>(v, w) \<in> set (zip left right). jsonEqual v w))"
| "jsonEqual (JObj left) (JObj right) =
     (length left = length right
      \<and> (\<forall>(key, v) \<in> set left. case jget right key of None \<Rightarrow> False | Some w \<Rightarrow> jsonEqual v w))"
| "jsonEqual left right = (left = right)"

text \<open>The scan of \<open>jsonContains\<close> over two arrays: how many elements of \<open>inner\<close> were found.\<close>

fun containsScan :: "json list \<Rightarrow> json list \<Rightarrow> bool" where
  "containsScan _ [] = True"
| "containsScan [] (_ # _) = False"
| "containsScan (v # outer) (w # inner) =
     (if jsonEqual v w then containsScan outer inner else containsScan outer (w # inner))"

fun jsonContains :: "json \<Rightarrow> json \<Rightarrow> bool" where
  "jsonContains outer inner =
     (jsonEqual outer inner
      \<or> (case (outer, inner) of
           (JArr xs, JArr ys) \<Rightarrow> containsScan xs ys
         | (JObj xs, JObj ys) \<Rightarrow>
             (\<forall>(key, w) \<in> set ys. case jget xs key of None \<Rightarrow> False | Some v \<Rightarrow> jsonContains v w)
         | _ \<Rightarrow> False))"

declare jsonContains.simps [simp del]

text \<open>The keys of the three records, each once, in the order in which the \<open>Set\<close> meets them.\<close>

definition mergeKeys :: "(jstr \<times> json) list \<Rightarrow> (jstr \<times> json) list \<Rightarrow> (jstr \<times> json) list \<Rightarrow> jstr list" where
  "mergeKeys base ours theirs = rev (remdups (rev (jkeys base @ jkeys ours @ jkeys theirs)))"

text \<open>
  One round of the loop gives what is stored under the key (\<open>None\<close>: nothing) and whether it
  raises the flag.
\<close>

function mergeStructuredStartupResult :: "json \<Rightarrow> json \<Rightarrow> json \<Rightarrow> structured_merge" where
  "mergeStructuredStartupResult baseline ours theirs =
     (if jsonEqual ours baseline then \<lparr>sValue = theirs, sConflicted = False\<rparr>
      else if jsonEqual theirs baseline \<or> jsonEqual ours theirs
      then \<lparr>sValue = ours, sConflicted = False\<rparr>
      else if \<not> isRecord ours \<or> \<not> isRecord theirs then \<lparr>sValue = ours, sConflicted = True\<rparr>
      else
        let base = objFields baseline;
            rounds = map (\<lambda>key.
              (key,
               case jget (objFields ours) key of
                 None \<Rightarrow>
                   (case jget base key of
                      None \<Rightarrow> (jget (objFields theirs) key, False)
                    | Some b \<Rightarrow>
                        (case jget (objFields theirs) key of
                           None \<Rightarrow> (None, False)
                         | Some r \<Rightarrow> if \<not> jsonEqual r b then (Some r, True) else (None, False)))
               | Some l \<Rightarrow>
                   (case jget (objFields theirs) key of
                      None \<Rightarrow>
                        (case jget base key of
                           None \<Rightarrow> (Some l, False)
                         | Some b \<Rightarrow> if \<not> jsonEqual l b then (Some l, True) else (None, False))
                    | Some r \<Rightarrow>
                        (case jget base key of
                           None \<Rightarrow>
                             if isRecord l \<and> isRecord r
                             then let child = mergeStructuredStartupResult (JObj []) l r
                                  in (Some (sValue child), sConflicted child)
                             else (Some l, \<not> jsonEqual l r)
                         | Some b \<Rightarrow>
                             let child = mergeStructuredStartupResult b l r
                             in (Some (sValue child), sConflicted child)))))
              (mergeKeys base (objFields ours) (objFields theirs))
        in \<lparr>sValue = JObj (concat (map (\<lambda>(key, v, _). case v of None \<Rightarrow> [] | Some x \<Rightarrow> [(key, x)]) rounds)),
            sConflicted = (\<exists>(_, _, flag) \<in> set rounds. flag)\<rparr>)"
  by pat_completeness auto
termination
proof (relation "measure (\<lambda>(b, l, r). size l)", goal_cases)
  case 1
  show ?case by simp
next
  case (2 baseline ours theirs)
  then show ?case by (cases ours) (auto simp: size_json_lookup)
next
  case (3 baseline ours theirs)
  then show ?case by (cases ours) (auto simp: size_json_lookup)
qed

declare mergeStructuredStartupResult.simps [simp del]

definition mergeStructuredStartup :: "json \<Rightarrow> json \<Rightarrow> json \<Rightarrow> json" where
  "mergeStructuredStartup baseline ours theirs = sValue (mergeStructuredStartupResult baseline ours theirs)"

section \<open>Deep equality\<close>

lemma jsonEqual_JObj:
  assumes "jwf a" "jwf b"
  shows "jsonEqual (JObj a) (JObj b) \<longleftrightarrow> (\<forall>k. rel_option jsonEqual (jget a k) (jget b k))"
proof
  assume eq: "jsonEqual (JObj a) (JObj b)"
  have sub: "fst ` set a \<subseteq> fst ` set b"
    using eq by (force simp: jhas_iff [symmetric] split: option.splits)
  moreover have "card (fst ` set a) = card (fst ` set b)"
    using eq assms by (metis distinct_card jsonEqual.simps(2) length_map list.set_map)
  ultimately have keys: "fst ` set a = fst ` set b" by (simp add: card_subset_eq)
  show "\<forall>k. rel_option jsonEqual (jget a k) (jget b k)"
  proof
    fix k
    show "rel_option jsonEqual (jget a k) (jget b k)"
    proof (cases "jget a k")
      case None
      then show ?thesis using keys jhas_iff by (metis option.rel_intros(1))
    next
      case (Some v)
      then have "(k, v) \<in> set a" by (rule map_of_SomeD)
      then show ?thesis using eq Some by (auto split: option.splits)
    qed
  qed
next
  assume rel: "\<forall>k. rel_option jsonEqual (jget a k) (jget b k)"
  then have "\<forall>k. jhas a k \<longleftrightarrow> jhas b k" by (metis option.rel_distinct(1,2) option.exhaust)
  then have "fst ` set a = fst ` set b" unfolding jhas_iff by blast
  then have "length a = length b" using assms by (metis distinct_card length_map list.set_map)
  moreover have "case jget b k of None \<Rightarrow> False | Some w \<Rightarrow> jsonEqual v w" if "(k, v) \<in> set a" for k v
    using rel [rule_format, of k] map_of_is_SomeI [OF assms(1) that] by (cases "jget b k") auto
  ultimately show "jsonEqual (JObj a) (JObj b)" by (simp only: jsonEqual.simps) blast
qed

lemma jsonEqual_JArr: "jsonEqual (JArr xs) (JArr ys) \<longleftrightarrow> list_all2 jsonEqual xs ys"
  by (simp add: list_all2_iff)

declare jsonEqual.simps(1,2) [simp del]
declare jsonEqual_JArr [simp]

lemma jsonEqual_shape:
  "jsonEqual v w \<Longrightarrow> isRecord v = isRecord w \<and> isArray v = isArray w \<and> (\<not> isRecord v \<and> \<not> isArray v \<longrightarrow> v = w)"
  by (cases "(v, w)" rule: jsonEqual.cases) auto

lemma jsonEqual_refl: "jsonWf v \<Longrightarrow> jsonEqual v v"
proof (induction v rule: measure_induct_rule [where f = size])
  case (less v)
  show ?case
  proof (cases v)
    case (JArr xs)
    then show ?thesis using less by (auto simp: list_all2_conv_all_nth size_json_elem)
  next
    case (JObj kvs)
    have "rel_option jsonEqual (jget kvs k) (jget kvs k)" for k
      using less JObj jsonWf_lookup [of kvs k] by (cases "jget kvs k") (auto simp: size_json_lookup)
    then show ?thesis using JObj less.prems by (simp add: jsonEqual_JObj)
  qed simp_all
qed

lemma jsonEqual_sym: "jsonWf v \<Longrightarrow> jsonWf w \<Longrightarrow> jsonEqual v w \<Longrightarrow> jsonEqual w v"
proof (induction v arbitrary: w rule: measure_induct_rule [where f = size])
  case (less v)
  show ?case
  proof (cases "(v, w)" rule: jsonEqual.cases)
    case (1 xs ys)
    have "jsonEqual (ys ! i) (xs ! i)" if "i < length xs" for i
      using less 1 that by (auto simp: list_all2_conv_all_nth size_json_elem)
    then show ?thesis using 1 less.prems by (auto simp: list_all2_conv_all_nth)
  next
    case (2 a b)
    have wf: "jwf a" "jwf b" using less.prems 2 by auto
    have "rel_option jsonEqual (jget b k) (jget a k)" for k
    proof -
      have "rel_option jsonEqual (jget a k) (jget b k)" using less.prems 2 wf by (simp add: jsonEqual_JObj)
      then show ?thesis
      proof (cases rule: option.rel_cases)
        case (Some x y)
        then show ?thesis
          using less 2 jsonWf_lookup [of a k x] jsonWf_lookup [of b k y] by (simp add: size_json_lookup)
      qed simp
    qed
    then show ?thesis using 2 wf by (simp add: jsonEqual_JObj)
  qed (use less.prems in auto)
qed

lemma jsonEqual_trans:
  "jsonWf u \<Longrightarrow> jsonWf v \<Longrightarrow> jsonWf w \<Longrightarrow> jsonEqual u v \<Longrightarrow> jsonEqual v w \<Longrightarrow> jsonEqual u w"
proof (induction u arbitrary: v w rule: measure_induct_rule [where f = size])
  case (less u)
  show ?case
  proof (cases "(u, v)" rule: jsonEqual.cases)
    case (1 xs ys)
    then obtain zs where zs: "w = JArr zs" using less.prems by (cases w) auto
    have "jsonEqual (xs ! i) (zs ! i)" if "i < length xs" for i
      using less.IH [of "xs ! i" "ys ! i" "zs ! i"] less.prems 1 zs that
      by (auto simp: list_all2_conv_all_nth size_json_elem)
    then show ?thesis using 1 zs less.prems by (auto simp: list_all2_conv_all_nth)
  next
    case (2 a b)
    then obtain c where c: "w = JObj c" using less.prems by (cases w) auto
    have wf: "jwf a" "jwf b" "jwf c" using less.prems 2 c by auto
    have "rel_option jsonEqual (jget a k) (jget c k)" for k
    proof -
      have "rel_option jsonEqual (jget a k) (jget b k)" "rel_option jsonEqual (jget b k) (jget c k)"
        using less.prems 2 c wf by (simp_all add: jsonEqual_JObj)
      then consider "jget a k = None" "jget c k = None"
        | x y z where "jget a k = Some x" "jget b k = Some y" "jget c k = Some z" "jsonEqual x y" "jsonEqual y z"
        by (cases "jget a k"; cases "jget b k"; cases "jget c k") auto
      then show ?thesis
      proof cases
        case (2 x y z)
        then show ?thesis
          using less.IH [of x y z] less.prems \<open>(u, v) = _\<close> c jsonWf_lookup [of a k x]
            jsonWf_lookup [of b k y] jsonWf_lookup [of c k z] by (simp add: size_json_lookup)
      qed simp
    qed
    then show ?thesis using 2 c wf by (simp add: jsonEqual_JObj)
  qed (use less.prems in auto)
qed

lemma jsonEqual_commute: "jsonWf v \<Longrightarrow> jsonWf w \<Longrightarrow> jsonEqual v w = jsonEqual w v"
  using jsonEqual_sym by blast

section \<open>Paths through records\<close>

fun atPath :: "jstr list \<Rightarrow> json \<Rightarrow> json option" where
  "atPath [] v = Some v"
| "atPath (k # ks) v = (case jget (objFields v) k of None \<Rightarrow> None | Some w \<Rightarrow> atPath ks w)"

abbreviation sameAt :: "jstr list \<Rightarrow> json \<Rightarrow> json \<Rightarrow> bool" where
  "sameAt p v w \<equiv> rel_option jsonEqual (atPath p v) (atPath p w)"

lemma jsonWf_field: "jsonWf v \<Longrightarrow> jget (objFields v) k = Some w \<Longrightarrow> jsonWf w"
  by (cases v) (auto dest: jsonWf_lookup [rotated])

lemma jsonEqual_field:
  assumes "jsonWf v" "jsonWf w" "jsonEqual v w"
  shows "rel_option jsonEqual (jget (objFields v) k) (jget (objFields w) k)"
  using assms by (cases "(v, w)" rule: jsonEqual.cases) (auto simp: jsonEqual_JObj)

lemma jsonEqual_sameAt: "jsonWf v \<Longrightarrow> jsonWf w \<Longrightarrow> jsonEqual v w \<Longrightarrow> sameAt p v w"
proof (induction p arbitrary: v w)
  case (Cons k p)
  have "rel_option jsonEqual (jget (objFields v) k) (jget (objFields w) k)"
    using jsonEqual_field Cons.prems by blast
  then show ?case
    by (cases "jget (objFields v) k"; cases "jget (objFields w) k")
      (use Cons jsonWf_field in auto)
qed simp

lemma atPath_wf: "jsonWf v \<Longrightarrow> atPath p v = Some w \<Longrightarrow> jsonWf w"
  by (induction p arbitrary: v) (auto split: option.splits dest: jsonWf_field)

lemma sameAt_refl: "jsonWf v \<Longrightarrow> sameAt p v v"
  by (simp add: jsonEqual_refl jsonEqual_sameAt)

lemma sameAt_sym: "jsonWf v \<Longrightarrow> jsonWf w \<Longrightarrow> sameAt p v w \<Longrightarrow> sameAt p w v"
  by (cases "atPath p v"; cases "atPath p w") (auto intro: jsonEqual_sym atPath_wf)

lemma sameAt_trans: "jsonWf u \<Longrightarrow> jsonWf v \<Longrightarrow> jsonWf w \<Longrightarrow> sameAt p u v \<Longrightarrow> sameAt p v w \<Longrightarrow> sameAt p u w"
  by (cases "atPath p u"; cases "atPath p v"; cases "atPath p w")
    (auto intro: jsonEqual_trans dest: atPath_wf)

section \<open>One key of the merge\<close>

text \<open>The rounds of the loop as a function of the key, for records that are merged key by key.\<close>

definition mergeRound ::
  "(jstr \<times> json) list \<Rightarrow> (jstr \<times> json) list \<Rightarrow> (jstr \<times> json) list \<Rightarrow> jstr \<Rightarrow> json option \<times> bool" where
  "mergeRound base ours theirs key =
     (case jget ours key of
                 None \<Rightarrow>
                   (case jget base key of
                      None \<Rightarrow> (jget theirs key, False)
                    | Some b \<Rightarrow>
                        (case jget theirs key of
                           None \<Rightarrow> (None, False)
                         | Some r \<Rightarrow> if \<not> jsonEqual r b then (Some r, True) else (None, False)))
               | Some l \<Rightarrow>
                   (case jget theirs key of
                      None \<Rightarrow>
                        (case jget base key of
                           None \<Rightarrow> (Some l, False)
                         | Some b \<Rightarrow> if \<not> jsonEqual l b then (Some l, True) else (None, False))
                    | Some r \<Rightarrow>
                        (case jget base key of
                           None \<Rightarrow>
                             if isRecord l \<and> isRecord r
                             then let child = mergeStructuredStartupResult (JObj []) l r
                                  in (Some (sValue child), sConflicted child)
                             else (Some l, \<not> jsonEqual l r)
                         | Some b \<Rightarrow>
                             let child = mergeStructuredStartupResult b l r
                             in (Some (sValue child), sConflicted child))))"

lemma mergeRound_eq:
  "mergeRound base ours theirs key =
     (case (jget base key, jget ours key, jget theirs key) of
        (None, None, r) \<Rightarrow> (r, False)
      | (None, Some l, None) \<Rightarrow> (Some l, False)
      | (None, Some l, Some r) \<Rightarrow>
          if isRecord l \<and> isRecord r
          then (Some (sValue (mergeStructuredStartupResult (JObj []) l r)),
                sConflicted (mergeStructuredStartupResult (JObj []) l r))
          else (Some l, \<not> jsonEqual l r)
      | (Some b, None, None) \<Rightarrow> (None, False)
      | (Some b, None, Some r) \<Rightarrow> if jsonEqual r b then (None, False) else (Some r, True)
      | (Some b, Some l, None) \<Rightarrow> if jsonEqual l b then (None, False) else (Some l, True)
      | (Some b, Some l, Some r) \<Rightarrow>
          (Some (sValue (mergeStructuredStartupResult b l r)),
           sConflicted (mergeStructuredStartupResult b l r)))"
  unfolding mergeRound_def Let_def
  by (cases "jget base key"; cases "jget ours key"; cases "jget theirs key") auto

lemma set_mergeKeys: "set (mergeKeys a b c) = {k. jhas a k \<or> jhas b k \<or> jhas c k}"
  unfolding mergeKeys_def jhas_iff by (simp del: rev_append) blast

lemma distinct_mergeKeys: "distinct (mergeKeys a b c)"
  by (simp add: mergeKeys_def)

lemma map_of_kept:
  "distinct ks \<Longrightarrow>
   map_of (concat (map (\<lambda>k. case f k of None \<Rightarrow> [] | Some x \<Rightarrow> [(k, x)]) ks)) k
     = (if k \<in> set ks then f k else None)"
  by (induction ks) (auto simp: map_add_def split: option.splits)

lemma keys_kept: "map fst (concat (map (\<lambda>k. case f k of None \<Rightarrow> [] | Some x \<Rightarrow> [(k, x)]) ks)) = filter (\<lambda>k. f k \<noteq> None) ks"
  by (induction ks) (auto split: option.splits)

lemma merge_records:
  assumes "\<not> jsonEqual (JObj l) b" "\<not> jsonEqual (JObj r) b" "\<not> jsonEqual (JObj l) (JObj r)"
  shows "\<exists>kvs. sValue (mergeStructuredStartupResult b (JObj l) (JObj r)) = JObj kvs \<and> jwf kvs
    \<and> (\<forall>k. jget kvs k = fst (mergeRound (objFields b) l r k))"
    and "sConflicted (mergeStructuredStartupResult b (JObj l) (JObj r)) \<longleftrightarrow> (\<exists>k. snd (mergeRound (objFields b) l r k))"
proof -
  let ?f = "mergeRound (objFields b) l r" and ?ks = "mergeKeys (objFields b) l r"
  have absent: "?f k = (None, False)" if "k \<notin> set ?ks" for k
    using that by (simp add: set_mergeKeys mergeRound_eq)
  have unfold: "mergeStructuredStartupResult b (JObj l) (JObj r) =
    \<lparr>sValue = JObj (concat (map (\<lambda>k. case fst (?f k) of None \<Rightarrow> [] | Some x \<Rightarrow> [(k, x)]) ?ks)),
     sConflicted = (\<exists>k \<in> set ?ks. snd (?f k))\<rparr>"
    using assms
    by (subst mergeStructuredStartupResult.simps, unfold objFields.simps, fold mergeRound_def)
      (simp add: Let_def comp_def split_beta cong: option.case_cong)
  show "\<exists>kvs. sValue (mergeStructuredStartupResult b (JObj l) (JObj r)) = JObj kvs \<and> jwf kvs
    \<and> (\<forall>k. jget kvs k = fst (?f k))"
    unfolding unfold using absent
    by (auto simp: map_of_kept keys_kept distinct_mergeKeys)
  show "sConflicted (mergeStructuredStartupResult b (JObj l) (JObj r)) \<longleftrightarrow> (\<exists>k. snd (?f k))"
    unfolding unfold using absent by fastforce
qed

lemma mergeRound_stored:
  assumes "fst (mergeRound base l r k) = Some x"
  obtains "jget l k = Some x" | "jget r k = Some x"
  | b' l' r' where "jget base k = Some b' \<or> b' = JObj []" "jget l k = Some l'" "jget r k = Some r'"
      "x = sValue (mergeStructuredStartupResult b' l' r')"
  using assms unfolding mergeRound_eq
  by (cases "jget base k"; cases "jget l k"; cases "jget r k") (auto split: if_splits)

lemma merge_wf: "jsonWf b \<Longrightarrow> jsonWf l \<Longrightarrow> jsonWf r \<Longrightarrow> jsonWf (sValue (mergeStructuredStartupResult b l r))"
proof (induction l arbitrary: b r rule: measure_induct_rule [where f = size])
  case (less l)
  show ?case
  proof (cases "jsonEqual l b \<or> jsonEqual r b \<or> jsonEqual l r \<or> \<not> isRecord l \<or> \<not> isRecord r")
    case True
    then show ?thesis using less.prems by (subst mergeStructuredStartupResult.simps) auto
  next
    case False
    then obtain lk rk where records: "l = JObj lk" "r = JObj rk" by (cases l; cases r) auto
    with False obtain kvs where kvs: "sValue (mergeStructuredStartupResult b l r) = JObj kvs" "jwf kvs"
      "\<forall>k. jget kvs k = fst (mergeRound (objFields b) lk rk k)"
      using merge_records(1) [of lk b rk] by auto
    have "jsonWf x" if "(k, x) \<in> set kvs" for k x
    proof -
      have "fst (mergeRound (objFields b) lk rk k) = Some x" using kvs(3) map_of_is_SomeI [OF kvs(2) that] by simp
      then show ?thesis
      proof (cases rule: mergeRound_stored)
        case (3 b' l' r')
        moreover have "jsonWf b'" using 3(1) less.prems(1) jsonWf_field [of b k b'] by auto
        moreover have "size l' < size l" using 3(2) records by (simp add: size_json_lookup)
        ultimately show ?thesis
          using less.IH less.prems(2,3) records jsonWf_field [of l k l'] jsonWf_field [of r k r'] by simp
      qed (use less.prems(2,3) records jsonWf_field [of l k x] jsonWf_field [of r k x] in auto)
    qed
    then show ?thesis using kvs by auto
  qed
qed

text \<open>The cases of a merge, for an induction over the local value.\<close>

lemma merge_cases [consumes 3, case_names ours_same theirs_same both_same scalar records]:
  assumes "jsonWf b" "jsonWf l" "jsonWf r"
  obtains "jsonEqual l b" "mergeStructuredStartupResult b l r = \<lparr>sValue = r, sConflicted = False\<rparr>"
  | "jsonEqual r b" "mergeStructuredStartupResult b l r = \<lparr>sValue = l, sConflicted = False\<rparr>"
  | "jsonEqual l r" "mergeStructuredStartupResult b l r = \<lparr>sValue = l, sConflicted = False\<rparr>"
  | "\<not> jsonEqual l b" "\<not> jsonEqual r b" "\<not> jsonEqual l r" "\<not> isRecord l \<or> \<not> isRecord r"
    "mergeStructuredStartupResult b l r = \<lparr>sValue = l, sConflicted = True\<rparr>"
  | lk rk kvs where "\<not> jsonEqual l b" "\<not> jsonEqual r b" "\<not> jsonEqual l r" "l = JObj lk" "r = JObj rk"
    "sValue (mergeStructuredStartupResult b l r) = JObj kvs" "jwf kvs"
    "\<And>k. jget kvs k = fst (mergeRound (objFields b) lk rk k)"
    "sConflicted (mergeStructuredStartupResult b l r) \<longleftrightarrow> (\<exists>k. snd (mergeRound (objFields b) lk rk k))"
proof (cases "jsonEqual l b \<or> jsonEqual r b \<or> jsonEqual l r \<or> \<not> isRecord l \<or> \<not> isRecord r")
  case True
  then show ?thesis
    using that(1-4) mergeStructuredStartupResult.simps [of b l r] by (auto split: if_splits)
next
  case False
  then obtain lk rk where records: "l = JObj lk" "r = JObj rk" by (cases l; cases r) auto
  then show ?thesis
    using merge_records [of lk b rk] False that(5) by blast
qed

text \<open>The round of one key is three-way below the key, if its recursive merge is.\<close>

lemma round_three_way:
  fixes base lk rk :: "(jstr \<times> json) list"
  defines "beneath \<equiv> \<lambda>ps v. case v of None \<Rightarrow> None | Some w \<Rightarrow> atPath ps w"
  assumes IH: "\<And>b' l' r'. jget lk k = Some l' \<Longrightarrow> jget rk k = Some r' \<Longrightarrow> jsonWf b' \<Longrightarrow>
        \<not> sConflicted (mergeStructuredStartupResult b' l' r') \<Longrightarrow>
        (sameAt ps l' b' \<longrightarrow> sameAt ps (sValue (mergeStructuredStartupResult b' l' r')) r')
        \<and> (sameAt ps r' b' \<longrightarrow> sameAt ps (sValue (mergeStructuredStartupResult b' l' r')) l')"
    and wf: "\<And>b'. jget base k = Some b' \<Longrightarrow> jsonWf b'" "\<And>l'. jget lk k = Some l' \<Longrightarrow> jsonWf l'"
        "\<And>r'. jget rk k = Some r' \<Longrightarrow> jsonWf r'"
    and quiet: "\<not> snd (mergeRound base lk rk k)"
  shows "(rel_option jsonEqual (beneath ps (jget lk k)) (beneath ps (jget base k)) \<longrightarrow>
          rel_option jsonEqual (beneath ps (fst (mergeRound base lk rk k))) (beneath ps (jget rk k)))
       \<and> (rel_option jsonEqual (beneath ps (jget rk k)) (beneath ps (jget base k)) \<longrightarrow>
          rel_option jsonEqual (beneath ps (fst (mergeRound base lk rk k))) (beneath ps (jget lk k)))"
proof (cases "jget lk k")
  case None
  show ?thesis
  proof (cases "jget base k")
    case None
    then show ?thesis
      using \<open>jget lk k = None\<close> wf(3) sameAt_refl by (cases "jget rk k") (auto simp: mergeRound_eq beneath_def)
  next
    case (Some b')
    show ?thesis
    proof (cases "jget rk k")
      case None
      then show ?thesis using \<open>jget lk k = None\<close> Some by (auto simp: mergeRound_eq beneath_def)
    next
      case (Some r')
      then have "jsonEqual r' b'" "fst (mergeRound base lk rk k) = None"
        using quiet \<open>jget lk k = None\<close> \<open>jget base k = Some b'\<close> by (auto simp: mergeRound_eq split: if_splits)
      then show ?thesis
        using \<open>jget lk k = None\<close> \<open>jget base k = Some b'\<close> Some wf jsonEqual_sameAt [of r' b' ps]
        by (cases "atPath ps b'"; cases "atPath ps r'") (auto simp: beneath_def)
    qed
  qed
next
  case (Some l')
  note l' = this wf(2) [OF this]
  show ?thesis
  proof (cases "jget rk k")
    case None
    show ?thesis
    proof (cases "jget base k")
      case None
      then show ?thesis using \<open>jget rk k = None\<close> l' sameAt_refl [of l' ps] by (auto simp: mergeRound_eq beneath_def)
    next
      case (Some b')
      then have "jsonEqual l' b'" "fst (mergeRound base lk rk k) = None"
        using quiet \<open>jget rk k = None\<close> l' by (auto simp: mergeRound_eq split: if_splits)
      then show ?thesis
        using \<open>jget rk k = None\<close> Some l' wf(1) jsonEqual_sameAt [of l' b' ps]
        by (cases "atPath ps b'"; cases "atPath ps l'") (auto simp: beneath_def)
    qed
  next
    case (Some r')
    note r' = this wf(3) [OF this]
    show ?thesis
    proof (cases "jget base k")
      case (Some b')
      then show ?thesis using l' r' IH [of l' r' b'] wf(1) quiet by (auto simp: mergeRound_eq beneath_def)
    next
      case None
      show ?thesis
      proof (cases "isRecord l' \<and> isRecord r'")
        case True
        have nested: "sameAt ps v (JObj []) \<or> ps = []" if "rel_option jsonEqual (atPath ps v) None" for v
          using that by (cases ps) auto
        show ?thesis
          using True None l' r' IH [of l' r' "JObj []"] quiet nested
          by (cases ps) (auto simp: mergeRound_eq beneath_def)
      next
        case False
        then have "jsonEqual l' r'" using None l' r' quiet by (auto simp: mergeRound_eq split: if_splits)
        then show ?thesis
          using False None l' r' jsonEqual_sameAt [of l' r' ps] sameAt_refl [of l' ps]
          by (auto simp: mergeRound_eq beneath_def)
      qed
    qed
  qed
qed

lemma round_commute:
  assumes IH: "\<And>b' l' r'. jget lk k = Some l' \<Longrightarrow> jget rk k = Some r' \<Longrightarrow> jsonWf b' \<Longrightarrow>
        sConflicted (mergeStructuredStartupResult b' l' r') = sConflicted (mergeStructuredStartupResult b' r' l')
        \<and> (\<not> sConflicted (mergeStructuredStartupResult b' l' r') \<longrightarrow>
             jsonEqual (sValue (mergeStructuredStartupResult b' l' r')) (sValue (mergeStructuredStartupResult b' r' l')))"
    and wf: "\<And>b'. jget base k = Some b' \<Longrightarrow> jsonWf b'" "\<And>l'. jget lk k = Some l' \<Longrightarrow> jsonWf l'"
        "\<And>r'. jget rk k = Some r' \<Longrightarrow> jsonWf r'"
  shows "snd (mergeRound base lk rk k) = snd (mergeRound base rk lk k)
    \<and> (\<not> snd (mergeRound base lk rk k) \<longrightarrow>
         rel_option jsonEqual (fst (mergeRound base lk rk k)) (fst (mergeRound base rk lk k)))"
proof (cases "jget lk k")
  case None
  then show ?thesis
    using wf(3) jsonEqual_refl by (cases "jget base k"; cases "jget rk k") (auto simp: mergeRound_eq)
next
  case (Some l')
  note l' = this wf(2) [OF this]
  show ?thesis
  proof (cases "jget rk k")
    case None
    then show ?thesis using l' jsonEqual_refl by (cases "jget base k") (auto simp: mergeRound_eq)
  next
    case (Some r')
    note r' = this wf(3) [OF this]
    have "jsonEqual l' r' = jsonEqual r' l'" using l' r' jsonEqual_commute by blast
    then show ?thesis
      using l' r' wf(1) IH [OF l'(1) r'(1)] by (cases "jget base k") (simp_all add: mergeRound_eq)
  qed
qed

section \<open>Containment\<close>

lemma containsScan_subseq: "containsScan xs ys \<Longrightarrow> \<exists>zs. subseq zs xs \<and> list_all2 jsonEqual zs ys"
proof (induction xs ys rule: containsScan.induct)
  case (3 v outer w inner)
  show ?case
  proof (cases "jsonEqual v w")
    case True
    with 3 obtain zs where "subseq zs outer" "list_all2 jsonEqual zs inner" by auto
    with True have "subseq (v # zs) (v # outer)" "list_all2 jsonEqual (v # zs) (w # inner)" by auto
    then show ?thesis by blast
  next
    case False
    with 3 show ?thesis by (auto intro: list_emb_Cons)
  qed
qed auto

lemma jsonContains_field:
  assumes "jsonWf outer" "jsonWf inner" "jsonContains outer inner" "jget (objFields inner) k = Some w"
  shows "\<exists>u. jget (objFields outer) k = Some u \<and> jsonContains u w"
proof (cases "jsonEqual outer inner")
  case True
  from jsonEqual_field [OF assms(1,2) True, of k] assms(4) show ?thesis
    by (cases "jget (objFields outer) k") (auto simp: jsonContains.simps)
next
  case False
  then obtain xs ys where records: "outer = JObj xs" "inner = JObj ys"
    using assms(3,4) by (cases outer; cases inner) (auto simp: jsonContains.simps)
  have "(k, w) \<in> set ys" using assms(4) records by (simp add: map_of_SomeD)
  then show ?thesis
    using False assms(3) [unfolded jsonContains.simps [of outer inner]] records by (auto split: option.splits)
qed

section \<open>Properties\<close>





text \<open>
  C27: The merge reports a conflict or not regardless of which side is called local, and if it
  reports none both sides get the same value: two devices that merge the same three versions
  converge.
\<close>

theorem mergeStructured_commute:
  assumes "jsonWf b" "jsonWf l" "jsonWf r"
  shows "sConflicted (mergeStructuredStartupResult b l r) = sConflicted (mergeStructuredStartupResult b r l)
    \<and> (\<not> sConflicted (mergeStructuredStartupResult b l r) \<longrightarrow>
         jsonEqual (mergeStructuredStartup b l r) (mergeStructuredStartup b r l))"
  using assms unfolding mergeStructuredStartup_def
proof (induction l arbitrary: b r rule: measure_induct_rule [where f = size])
  case (less l)
  note eq = jsonEqual_commute [OF less.prems(2,3)]
  have refl: "jsonEqual l l" "jsonEqual r r" using jsonEqual_refl less.prems(2,3) by blast+
  show ?case
  proof (cases "isRecord l \<and> isRecord r \<and> \<not> jsonEqual l b \<and> \<not> jsonEqual r b \<and> \<not> jsonEqual l r")
    case False
    have both: "jsonEqual l r \<and> jsonEqual r l" if "jsonEqual l b" "jsonEqual r b"
      using that less.prems jsonEqual_trans [of l b r] jsonEqual_sym by blast
    show ?thesis
      using False eq refl both mergeStructuredStartupResult.simps [of b l r] mergeStructuredStartupResult.simps [of b r l]
      by (cases "jsonEqual l b"; cases "jsonEqual r b"; cases "jsonEqual l r") (auto split del: if_split)
  next
    case True
    then obtain lk rk where records: "l = JObj lk" "r = JObj rk" by (cases l; cases r) auto
    have IH: "sConflicted (mergeStructuredStartupResult b' l' r') = sConflicted (mergeStructuredStartupResult b' r' l')
        \<and> (\<not> sConflicted (mergeStructuredStartupResult b' l' r') \<longrightarrow>
             jsonEqual (sValue (mergeStructuredStartupResult b' l' r')) (sValue (mergeStructuredStartupResult b' r' l')))"
      if "jget lk k = Some l'" "jget rk k = Some r'" "jsonWf b'" for k b' l' r'
      using less.IH [of l' b' r'] less.prems(2,3) records that jsonWf_field [of l k l'] jsonWf_field [of r k r']
      by (simp add: size_json_lookup)
    have wf: "\<And>k b'. jget (objFields b) k = Some b' \<Longrightarrow> jsonWf b'"
      "\<And>k l'. jget lk k = Some l' \<Longrightarrow> jsonWf l'" "\<And>k r'. jget rk k = Some r' \<Longrightarrow> jsonWf r'"
      using jsonWf_field less.prems unfolding records by (metis objFields.simps(1))+
    have rounds: "snd (mergeRound (objFields b) lk rk k) = snd (mergeRound (objFields b) rk lk k)
      \<and> (\<not> snd (mergeRound (objFields b) lk rk k) \<longrightarrow>
         rel_option jsonEqual (fst (mergeRound (objFields b) lk rk k)) (fst (mergeRound (objFields b) rk lk k)))" for k
      by (rule round_commute [OF IH wf])
    have ne: "\<not> jsonEqual (JObj lk) b" "\<not> jsonEqual (JObj rk) b" "\<not> jsonEqual (JObj lk) (JObj rk)"
      "\<not> jsonEqual (JObj rk) (JObj lk)" using True eq unfolding records by blast+
    obtain kvs where kvs: "sValue (mergeStructuredStartupResult b l r) = JObj kvs" "jwf kvs"
      "\<And>k. jget kvs k = fst (mergeRound (objFields b) lk rk k)"
      using merge_records(1) [OF ne(1,2,3)] records by blast
    obtain kvs' where kvs': "sValue (mergeStructuredStartupResult b r l) = JObj kvs'" "jwf kvs'"
      "\<And>k. jget kvs' k = fst (mergeRound (objFields b) rk lk k)"
      using merge_records(1) [OF ne(2,1,4)] records by blast
    have flags: "sConflicted (mergeStructuredStartupResult b l r) \<longleftrightarrow> (\<exists>k. snd (mergeRound (objFields b) lk rk k))"
      "sConflicted (mergeStructuredStartupResult b r l) \<longleftrightarrow> (\<exists>k. snd (mergeRound (objFields b) rk lk k))"
      unfolding records by (rule merge_records(2) [OF ne(1,2,3)], rule merge_records(2) [OF ne(2,1,4)])
    show ?thesis
      unfolding kvs(1) kvs'(1) jsonEqual_JObj [OF kvs(2) kvs'(2)] kvs(3) kvs'(3) flags
      using rounds by blast
  qed
qed

theorem mergeStructured_commute_witness:
  "jsonEqual (mergeStructuredStartup (JObj []) (JObj [(lit ''a'', JNum 2)]) (JObj [(lit ''b'', JNull)]))
     (mergeStructuredStartup (JObj []) (JObj [(lit ''b'', JNull)]) (JObj [(lit ''a'', JNum 2)]))"
proof -
  have "\<not> sConflicted (mergeStructuredStartupResult (JObj []) (JObj [(lit ''a'', JNum 2)]) (JObj [(lit ''b'', JNull)]))"
    by (simp add: mergeStructuredStartupResult.simps mergeKeys_def jsonEqual.simps Let_def)
  then show ?thesis
    using mergeStructured_commute [of "JObj []" "JObj [(lit ''a'', JNum 2)]" "JObj [(lit ''b'', JNull)]"] by simp
qed

text \<open>
  What \<open>jsonContains\<close> accepts lacks nothing: every path of the inner value exists in the outer
  one, with a record for a record, an array that has the elements in order for an array, and
  the same scalar for a scalar.
\<close>

theorem jsonContains_lacks_nothing:
  assumes "jsonWf outer" "jsonWf inner" "jsonContains outer inner" "atPath p inner = Some v"
  shows "\<exists>w. atPath p outer = Some w \<and>
    (if isRecord v then isRecord w
     else if isArray v then isArray w \<and> (\<exists>zs. subseq zs (elements w) \<and> list_all2 jsonEqual zs (elements v))
     else w = v)"
  using assms
proof (induction p arbitrary: outer inner)
  case Nil
  then have c: "jsonContains outer v" by simp
  show ?case
  proof (cases "jsonEqual outer v")
    case True
    show ?thesis
    proof (cases "isArray v")
      case True
      then obtain xs ys where arrays: "outer = JArr xs" "v = JArr ys"
        using \<open>jsonEqual outer v\<close> by (cases v; cases outer) auto
      have "subseq xs xs" "list_all2 jsonEqual xs ys" using \<open>jsonEqual outer v\<close> arrays by auto
      then show ?thesis unfolding arrays by simp blast
    next
      case False
      have "isRecord v \<longrightarrow> isRecord outer" "\<not> isRecord v \<longrightarrow> outer = v"
        using False jsonEqual_shape [OF \<open>jsonEqual outer v\<close>] by blast+
      with False show ?thesis unfolding atPath.simps by (intro exI [of _ outer]) (simp split: if_split)
    qed
  next
    case False
    then have "case (outer, v) of (JArr xs, JArr ys) \<Rightarrow> containsScan xs ys | (JObj xs, JObj ys) \<Rightarrow> True | _ \<Rightarrow> False"
      using c [unfolded jsonContains.simps [of outer v]] by (auto split: json.splits)
    then show ?thesis using containsScan_subseq by (auto split: json.splits)
  qed
next
  case (Cons k p)
  obtain w where w: "jget (objFields inner) k = Some w" "atPath p w = Some v"
    using Cons.prems(4) by (auto split: option.splits)
  obtain u where u: "jget (objFields outer) k = Some u" "jsonContains u w"
    using jsonContains_field [OF Cons.prems(1-3) w(1)] by blast
  have "jsonWf u" "jsonWf w" using jsonWf_field Cons.prems(1,2) u(1) w(1) by blast+
  then show ?case using Cons.IH [OF _ _ u(2) w(2)] u(1) by simp
qed

theorem jsonContains_lacks_nothing_witness:
  "\<exists>w. atPath [lit ''a''] (JObj [(lit ''b'', JNull), (lit ''a'', JNum 1)]) = Some w \<and> w = JNum 1
     \<and> jsonContains (JObj [(lit ''b'', JNull), (lit ''a'', JNum 1)]) (JObj [(lit ''a'', JNum 1)])"
proof -
  have c: "jsonContains (JObj [(lit ''b'', JNull), (lit ''a'', JNum 1)]) (JObj [(lit ''a'', JNum 1)])"
    by (simp add: jsonContains.simps)
  then show ?thesis
    using jsonContains_lacks_nothing [OF _ _ c, of "[lit ''a'']" "JNum 1"] by simp
qed

end
