(* ===== verification/Structured_Reconcile.thy ===== *)
theory Structured_Reconcile
  imports Structured_Merge Text_Diff
begin

text \<open>
  Writing a JSON value into nested shared types in place: \<open>reconcileInto\<close>, \<open>reconcileMap\<close>,
  \<open>reconcileArray\<close>, \<open>reconcileValue\<close> and \<open>toValue\<close> of \<^verbatim>\<open>src/structured/reconcile.ts\<close>.

  A shared document is its tree of contents, \<open>'t ynode\<close>; \<open>'t\<close> is the type of shared texts.
  The operations by which the code changes a \<open>Y.Map\<close>, \<open>Y.Array\<close> or \<open>Y.Text\<close> belong to Yjs and
  are the fields of the argument \<open>'t yjs\<close>; the locale \<open>yjs_doc\<close> has their documented effect, and
  \<open>plainYjs\<close> is an instance. A shared child is changed where it stands, without an operation of
  its parent (\<open>inPlace\<close>). Each function also returns whether it issued any operation.
\<close>

section \<open>Model\<close>

datatype 't ynode =
    YMap "(jstr \<times> 't ynode) list"
  | YArray "'t ynode list"
  | YText 't
  | YPlain json

record 't yjs =
  mapSet :: "(jstr \<times> 't ynode) list \<Rightarrow> jstr \<Rightarrow> 't ynode \<Rightarrow> (jstr \<times> 't ynode) list"
  mapDelete :: "(jstr \<times> 't ynode) list \<Rightarrow> jstr \<Rightarrow> (jstr \<times> 't ynode) list"
  arrInsert :: "'t ynode list \<Rightarrow> nat \<Rightarrow> 't ynode list \<Rightarrow> 't ynode list"
  arrDelete :: "'t ynode list \<Rightarrow> nat \<Rightarrow> nat \<Rightarrow> 't ynode list"
  newText :: 't
  textStr :: "'t \<Rightarrow> jstr"
  textDel :: "'t \<Rightarrow> nat \<Rightarrow> nat \<Rightarrow> 't"
  textIns :: "'t \<Rightarrow> nat \<Rightarrow> jstr \<Rightarrow> 't"

definition DEFAULT_TEXT_KEYS :: "jstr list" where
  "DEFAULT_TEXT_KEYS = [lit ''text'', lit ''label'', lit ''filter'', lit ''formula'', lit ''query'',
     lit ''name'', lit ''description'']"

definition shouldUseText :: "jstr list option \<Rightarrow> jstr option \<Rightarrow> json \<Rightarrow> bool" where
  "shouldUseText textKeys key v =
     (case v of
        JStr s \<Rightarrow>
          (case key of
             None \<Rightarrow> False
           | Some k \<Rightarrow> k \<noteq> [] \<and>
               (k \<in> set (case textKeys of None \<Rightarrow> DEFAULT_TEXT_KEYS | Some ks \<Rightarrow> ks) \<or> length s > 256))
      | _ \<Rightarrow> False)"

definition strOf :: "json \<Rightarrow> jstr" where
  "strOf v = (case v of JStr s \<Rightarrow> s | _ \<Rightarrow> [])"

text \<open>A new, empty shared type of the kind of the node, and whether the node is a shared type.\<close>

fun fresh :: "'t yjs \<Rightarrow> 't ynode \<Rightarrow> 't ynode" where
  "fresh Y (YMap _) = YMap []"
| "fresh Y (YArray _) = YArray []"
| "fresh Y (YText _) = YText (newText Y)"
| "fresh Y (YPlain v) = YPlain v"

fun isShared :: "'t ynode \<Rightarrow> bool" where
  "isShared (YPlain _) = False"
| "isShared _ = True"

definition inPlace :: "(jstr \<times> 't ynode) list \<Rightarrow> jstr \<Rightarrow> 't ynode \<Rightarrow> (jstr \<times> 't ynode) list" where
  "inPlace m key node = map (\<lambda>(k, v). if k = key then (k, node) else (k, v)) m"

text \<open>The first loop of \<open>reconcileMap\<close>: keys the value does not have are deleted.\<close>

definition missing :: "(jstr \<times> 't ynode) list \<Rightarrow> (jstr \<times> json) list \<Rightarrow> jstr list" where
  "missing m kvs = filter (\<lambda>k. \<not> jhas kvs k) (jkeys m)"

definition dropMissing :: "'t yjs \<Rightarrow> (jstr \<times> 't ynode) list \<Rightarrow> (jstr \<times> json) list \<Rightarrow> (jstr \<times> 't ynode) list" where
  "dropMissing Y m kvs = fold (\<lambda>k m. mapDelete Y m k) (missing m kvs) m"

text \<open>
  What a parent does with the result of \<open>reconcileValue\<close>: attach a new shared type (before it is
  filled), leave a shared type that was changed in place, or store a plain value that differs.
\<close>

definition settleKey ::
  "'t yjs \<Rightarrow> (jstr \<times> 't ynode) list \<Rightarrow> jstr \<Rightarrow> 't ynode \<Rightarrow> bool \<Rightarrow> (jstr \<times> 't ynode) list \<times> bool" where
  "settleKey Y m key node attached =
     (if attached then (inPlace (mapSet Y m key (fresh Y node)) key node, True)
      else if isShared node then (inPlace m key node, False)
      else if jget m key \<noteq> Some node then (mapSet Y m key node, True)
      else (m, False))"

definition replaceAt :: "'t yjs \<Rightarrow> 't ynode list \<Rightarrow> nat \<Rightarrow> 't ynode \<Rightarrow> 't ynode list" where
  "replaceAt Y array i node =
     (let array = (if i < length array then arrDelete Y array i 1 else array)
      in arrInsert Y array i [node])"

definition arrGet :: "'t ynode list \<Rightarrow> nat \<Rightarrow> 't ynode option" where
  "arrGet array i = (if i < length array then Some (array ! i) else None)"

definition settleIndex ::
  "'t yjs \<Rightarrow> 't ynode list \<Rightarrow> nat \<Rightarrow> 't ynode \<Rightarrow> bool \<Rightarrow> 't ynode list \<times> bool" where
  "settleIndex Y array i node attached =
     (if attached then ((replaceAt Y array i (fresh Y node))[i := node], True)
      else if isShared node then (array[i := node], False)
      else if arrGet array i \<noteq> Some node then (replaceAt Y array i node, True)
      else (array, False))"

text \<open>The last statement of \<open>reconcileArray\<close>: surplus elements are deleted.\<close>

definition cutSurplus :: "'t yjs \<Rightarrow> 't ynode list \<Rightarrow> nat \<Rightarrow> 't ynode list \<times> bool" where
  "cutSurplus Y array n =
     (if length array > n then (arrDelete Y array n (length array - n), True) else (array, False))"

text \<open>
  \<open>reconcileValue\<close> gives the node, whether it had to attach a new shared type, and whether it
  issued an operation on an existing one. The second loop of \<open>reconcileMap\<close> is
  \<open>reconcileEntries\<close>, the loop of \<open>reconcileArray\<close> is \<open>reconcileFrom\<close>.
\<close>

function (sequential) reconcileValue ::
    "'t yjs \<Rightarrow> jstr list option \<Rightarrow> 't ynode option \<Rightarrow> json \<Rightarrow> jstr option \<Rightarrow> 't ynode \<times> bool \<times> bool"
  and reconcileEntries ::
    "'t yjs \<Rightarrow> jstr list option \<Rightarrow> (jstr \<times> 't ynode) list \<Rightarrow> (jstr \<times> json) list
     \<Rightarrow> (jstr \<times> 't ynode) list \<times> bool"
  and reconcileFrom ::
    "'t yjs \<Rightarrow> jstr list option \<Rightarrow> 't ynode list \<Rightarrow> nat \<Rightarrow> json list \<Rightarrow> 't ynode list \<times> bool"
where
  "reconcileValue Y tk current (JArr next) key =
     (let (array, attached) = (case current of Some (YArray a) \<Rightarrow> (a, False) | _ \<Rightarrow> ([], True));
          (array, wrote) = reconcileFrom Y tk array 0 next;
          (array, trimmed) = cutSurplus Y array (length next)
      in (YArray array, attached, wrote \<or> trimmed))"
| "reconcileValue Y tk current (JObj next) key =
     (let (m, attached) = (case current of Some (YMap m) \<Rightarrow> (m, False) | _ \<Rightarrow> ([], True));
          (m', wrote) = reconcileEntries Y tk (dropMissing Y m next) next
      in (YMap m', attached, missing m next \<noteq> [] \<or> wrote))"
| "reconcileValue Y tk current next key =
     (if shouldUseText tk key next
      then let (text, attached) = (case current of Some (YText t) \<Rightarrow> (t, False) | _ \<Rightarrow> (newText Y, True))
           in (YText (applyStringToYText (textStr Y) (textDel Y) (textIns Y) text (strOf next)),
               attached, textStr Y text \<noteq> strOf next)
      else (YPlain next, False, False))"
| "reconcileEntries Y tk m [] = (m, False)"
| "reconcileEntries Y tk m ((key, next) # rest) =
     (let (node, attached, wrote) = reconcileValue Y tk (jget m key) next (Some key);
          (m, stored) = settleKey Y m key node attached;
          (m, wroteRest) = reconcileEntries Y tk m rest
      in (m, wrote \<or> stored \<or> wroteRest))"
| "reconcileFrom Y tk array i [] = (array, False)"
| "reconcileFrom Y tk array i (next # rest) =
     (let (node, attached, wrote) = reconcileValue Y tk (arrGet array i) next None;
          (array, stored) = settleIndex Y array i node attached;
          (array, wroteRest) = reconcileFrom Y tk array (Suc i) rest
      in (array, wrote \<or> stored \<or> wroteRest))"
  by pat_completeness auto
termination
  by (relation "measure (\<lambda>x. case x of
        Inl (_, _, _, v, _) \<Rightarrow> size v
      | Inr (Inl (_, _, _, kvs)) \<Rightarrow> size_list (size_prod (\<lambda>_. 0) size) kvs
      | Inr (Inr (_, _, _, _, xs)) \<Rightarrow> size_list size xs)") auto

definition reconcileMap ::
  "'t yjs \<Rightarrow> jstr list option \<Rightarrow> (jstr \<times> 't ynode) list \<Rightarrow> (jstr \<times> json) list
   \<Rightarrow> (jstr \<times> 't ynode) list \<times> bool" where
  "reconcileMap Y tk m kvs =
     (case reconcileEntries Y tk (dropMissing Y m kvs) kvs of
        (m', wrote) \<Rightarrow> (m', missing m kvs \<noteq> [] \<or> wrote))"

definition reconcileArray ::
  "'t yjs \<Rightarrow> jstr list option \<Rightarrow> 't ynode list \<Rightarrow> json list \<Rightarrow> 't ynode list \<times> bool" where
  "reconcileArray Y tk array xs =
     (case reconcileFrom Y tk array 0 xs of
        (array, wrote) \<Rightarrow> (case cutSurplus Y array (length xs) of (array, trimmed) \<Rightarrow> (array, wrote \<or> trimmed)))"

fun reconcileInto :: "'t yjs \<Rightarrow> jstr list option \<Rightarrow> 't ynode \<Rightarrow> json \<Rightarrow> 't ynode \<times> bool" where
  "reconcileInto Y tk (YMap m) v =
     (case reconcileMap Y tk m (objFields v) of (m, wrote) \<Rightarrow> (YMap m, wrote))"
| "reconcileInto Y tk (YArray a) v =
     (case reconcileArray Y tk a (elements v) of (a, wrote) \<Rightarrow> (YArray a, wrote))"
| "reconcileInto Y tk other v = (other, False)"

fun toValue :: "('t \<Rightarrow> jstr) \<Rightarrow> 't ynode \<Rightarrow> json" where
  "toValue str (YMap m) = JObj (map (\<lambda>(k, child). (k, toValue str child)) m)"
| "toValue str (YArray a) = JArr (map (toValue str) a)"
| "toValue str (YText t) = JStr (str t)"
| "toValue str (YPlain v) = v"

section \<open>The contract of the shared types\<close>

locale yjs_doc = ytext "textStr Y" "textDel Y" "textIns Y" for Y :: "'t yjs" +
  assumes mapSet_get: "jwf m \<Longrightarrow> jget (mapSet Y m k v) k' = (if k' = k then Some v else jget m k')"
    and mapSet_wf: "jwf m \<Longrightarrow> jwf (mapSet Y m k v)"
    and mapDelete_get: "jwf m \<Longrightarrow> jget (mapDelete Y m k) k' = (if k' = k then None else jget m k')"
    and mapDelete_wf: "jwf m \<Longrightarrow> jwf (mapDelete Y m k)"
    and arrInsert_at: "i \<le> length a \<Longrightarrow> arrInsert Y a i xs = take i a @ xs @ drop i a"
    and arrDelete_at: "i + n \<le> length a \<Longrightarrow> arrDelete Y a i n = take i a @ drop (i + n) a"
    and newText_empty: "textStr Y (newText Y) = []"

definition plainYjs :: "jstr yjs" where
  "plainYjs = \<lparr>mapSet = jset, mapDelete = jdel,
     arrInsert = \<lambda>a i xs. take i a @ xs @ drop i a, arrDelete = \<lambda>a i n. take i a @ drop (i + n) a,
     newText = [], textStr = \<lambda>s. s, textDel = textDelete, textIns = textInsert\<rparr>"

interpretation plain: yjs_doc plainYjs
  unfolding yjs_doc_def yjs_doc_axioms_def plainYjs_def
  by (simp add: yjsText.ytext_axioms)

subsection \<open>What reconciling leaves\<close>

text \<open>
  \<open>matches\<close>: the node is what reconciling leaves for a value under a key. Maps have the value's
  keys and arrays its length; a string is a shared text or plain as \<open>shouldUseText\<close> says.
\<close>

fun matches :: "('t \<Rightarrow> jstr) \<Rightarrow> jstr list option \<Rightarrow> 't ynode \<Rightarrow> json \<Rightarrow> jstr option \<Rightarrow> bool" where
  "matches str tk (YMap m) (JObj kvs) key =
     (jwf m \<and> fst ` set m = fst ` set kvs
      \<and> (\<forall>(k, v) \<in> set kvs. case jget m k of None \<Rightarrow> False | Some n \<Rightarrow> matches str tk n v (Some k)))"
| "matches str tk (YArray a) (JArr xs) key =
     (length a = length xs \<and> (\<forall>(n, v) \<in> set (zip a xs). matches str tk n v None))"
| "matches str tk (YText t) v key = (shouldUseText tk key v \<and> str t = strOf v)"
| "matches str tk (YPlain w) v key = (w = v \<and> \<not> shouldUseText tk key v \<and> \<not> isRecord v \<and> \<not> isArray v)"
| "matches str tk _ v key = False"

text \<open>Strings without surrogates, for which \<open>applyStringToYText\<close> is right.\<close>

definition plainStr :: "jstr \<Rightarrow> bool" where
  "plainStr s \<longleftrightarrow> (\<forall>u \<in> set s. \<not> isHighSurrogate u \<and> \<not> isLowSurrogate u)"

fun jsonPlain :: "json \<Rightarrow> bool" where
  "jsonPlain (JStr s) = plainStr s"
| "jsonPlain (JArr xs) = (\<forall>x \<in> set xs. jsonPlain x)"
| "jsonPlain (JObj kvs) = (\<forall>p \<in> set kvs. jsonPlain (snd p))"
| "jsonPlain _ = True"

fun nodeOk :: "('t \<Rightarrow> jstr) \<Rightarrow> 't ynode \<Rightarrow> bool" where
  "nodeOk str (YMap m) = (jwf m \<and> (\<forall>p \<in> set m. nodeOk str (snd p)))"
| "nodeOk str (YArray a) = (\<forall>n \<in> set a. nodeOk str n)"
| "nodeOk str (YText t) = plainStr (str t)"
| "nodeOk str (YPlain v) = jsonWf v"

lemma plainStr_wf16: "plainStr s \<Longrightarrow> wf16 s"
  by (induction s rule: wf16.induct) (auto simp: plainStr_def)

lemma jsonWf_toValue: "nodeOk str n \<Longrightarrow> jsonWf (toValue str n)"
proof (induction str n rule: toValue.induct)
  case (1 str m)
  have keys: "map fst (map (\<lambda>(k, child). (k, toValue str child)) m) = map fst m" by (induction m) auto
  have "jwf (map (\<lambda>(k, child). (k, toValue str child)) m)" unfolding keys using 1(2) by simp
  moreover have "jsonWf (toValue str child)" if "(k, child) \<in> set m" for k child
    using 1(1) [OF that refl] 1(2) that by auto
  ultimately show ?case by auto
qed auto

lemma matches_text:
  "matches str tk n v key \<Longrightarrow> \<not> isRecord v \<Longrightarrow> \<not> isArray v \<Longrightarrow>
   (case n of YText t \<Rightarrow> shouldUseText tk key v \<and> str t = strOf v
    | YPlain w \<Rightarrow> w = v \<and> \<not> shouldUseText tk key v | _ \<Rightarrow> False)"
  by (cases n; cases v) auto

lemma strOf_text: "shouldUseText tk key v \<Longrightarrow> v = JStr (strOf v)"
  by (cases v) (auto simp: shouldUseText_def strOf_def)

lemma matches_toValue: "matches str tk n v key \<Longrightarrow> jsonWf v \<Longrightarrow> jsonEqual (toValue str n) v"
proof (induction str tk n v key rule: matches.induct)
  case (1 str tk m kvs key)
  let ?c = "map (\<lambda>(k, child). (k, toValue str child)) m"
  have keys: "map fst ?c = map fst m" by (induction m) auto
  have get: "jget ?c k = map_option (toValue str) (jget m k)" for k by (induction m) auto
  have "rel_option jsonEqual (jget ?c k) (jget kvs k)" for k
  proof (cases "jget kvs k")
    case None
    then have "jget m k = None" using 1(2) jhas_iff [of m k] jhas_iff [of kvs k] by auto
    then show ?thesis using None get by simp
  next
    case (Some v)
    then have kv: "(k, v) \<in> set kvs" by (rule map_of_SomeD)
    then obtain n where n: "jget m k = Some n" "matches str tk n v (Some k)"
      using 1(2) by (auto split: option.splits)
    have "jsonEqual (toValue str n) v" using 1(1) [OF kv refl n] 1(3) kv by auto
    then show ?thesis using Some get n by simp
  qed
  moreover have "jwf ?c" "jwf kvs" using 1(2,3) unfolding keys by auto
  ultimately show ?case by (simp only: toValue.simps jsonEqual_JObj) blast
next
  case (2 str tk a xs key)
  have "jsonEqual (toValue str (a ! i)) (xs ! i)" if "i < length xs" for i
  proof -
    have "(a ! i, xs ! i) \<in> set (zip a xs)" using 2(2) that by (auto simp: in_set_zip)
    then show ?thesis using 2 that by fastforce
  qed
  then show ?case using 2(2) by (auto simp: list_all2_conv_all_nth)
next
  case (3 str tk t v key)
  then have "v = JStr (str t)" using strOf_text [of tk key v] by simp
  then show ?case by simp
next
  case (4 str tk w v key)
  then show ?case using jsonEqual_refl by simp
qed auto

subsection \<open>Nothing is written where nothing changes\<close>

lemma inPlace_same: "jwf m \<Longrightarrow> jget m k = Some n \<Longrightarrow> inPlace m k n = m"
  unfolding inPlace_def by (rule map_idI) (auto dest: map_of_is_SomeI)

lemma settleKey_same:
  "jwf m \<Longrightarrow> jget m k = Some n \<Longrightarrow> settleKey Y m k n False = (m, False)"
  by (simp add: settleKey_def inPlace_same)

lemma settleIndex_same: "i < length a \<Longrightarrow> settleIndex Y a i (a ! i) False = (a, False)"
  by (simp add: settleIndex_def arrGet_def)

lemma missing_same: "fst ` set m = fst ` set kvs \<Longrightarrow> missing m kvs = []"
  unfolding missing_def filter_empty_conv jhas_iff by auto

lemma scalar_same:
  "\<not> isRecord v \<Longrightarrow> \<not> isArray v \<Longrightarrow> matches (textStr Y) tk n v key \<Longrightarrow>
     reconcileValue Y tk (Some n) v key = (n, False, False)"
  by (cases v; cases n) (auto simp: shouldUseText_def applyStringToYText_def)

lemma reconcile_same:
  shows "current = Some n \<Longrightarrow> matches (textStr Y) tk n v key \<Longrightarrow> jsonWf v \<Longrightarrow>
      reconcileValue Y tk current v key = (n, False, False)"
    and "jwf m \<Longrightarrow> \<forall>(k, v) \<in> set kvs. jsonWf v \<and> (\<exists>n. jget m k = Some n \<and> matches (textStr Y) tk n v (Some k)) \<Longrightarrow>
      reconcileEntries Y tk m kvs = (m, False)"
    and "\<forall>j < length xs. i + j < length a \<and> jsonWf (xs ! j) \<and> matches (textStr Y) tk (a ! (i + j)) (xs ! j) None \<Longrightarrow>
      reconcileFrom Y tk a i xs = (a, False)"
proof (induction Y tk current v key and Y tk m kvs and Y tk a i xs arbitrary: n and and
    rule: reconcileValue_reconcileEntries_reconcileFrom.induct)
  case (1 Y tk current "next" key)
  then obtain a where a: "n = YArray a" by (cases n) (auto simp: shouldUseText_def)
  have "\<forall>j < length next. 0 + j < length a \<and> jsonWf (next ! j) \<and> matches (textStr Y) tk (a ! (0 + j)) (next ! j) None"
    using 1(3,4) a by (auto simp: in_set_zip)
  then have "reconcileFrom Y tk a 0 next = (a, False)" using 1(1) [of "(a, False)" a False] 1(2) a by simp
  then show ?case using 1(2,3) a by (simp add: cutSurplus_def)
next
  case (2 Y tk current "next" key)
  then obtain m where m: "n = YMap m" by (cases n) (auto simp: shouldUseText_def)
  have wf: "jwf m" "missing m next = []" using 2(3) m missing_same by auto
  have "\<exists>n. jget m k = Some n \<and> matches (textStr Y) tk n v (Some k)" if "(k, v) \<in> set next" for k v
    using 2(3) m that by (auto split: option.splits)
  moreover have "jsonWf v" if "(k, v) \<in> set next" for k v using 2(4) that by auto
  ultimately have "reconcileEntries Y tk m next = (m, False)"
    using 2(1) [of "(m, False)" m False] 2(2) m wf by (auto simp: dropMissing_def)
  then show ?case using 2(2) m wf by (simp add: dropMissing_def)
next
  case "3_1"
  then show ?case by (simp only: scalar_same isRecord.simps isArray.simps not_False_eq_True)
next
  case "3_2"
  then show ?case by (simp only: scalar_same isRecord.simps isArray.simps not_False_eq_True)
next
  case "3_3"
  then show ?case by (simp only: scalar_same isRecord.simps isArray.simps not_False_eq_True)
next
  case "3_4"
  then show ?case by (simp only: scalar_same isRecord.simps isArray.simps not_False_eq_True)
next
  case (5 Y tk m key "next" rest)
  then obtain n where n: "jget m key = Some n" "matches (textStr Y) tk n next (Some key)" "jsonWf next" by auto
  then have v: "reconcileValue Y tk (jget m key) next (Some key) = (n, False, False)" using 5(1) by simp
  then show ?case using 5(2) [OF v [symmetric]] 5(3,4) n settleKey_same [of m key n] by simp blast
next
  case (7 Y tk a i "next" rest)
  have i: "i < length a" "jsonWf next" "matches (textStr Y) tk (a ! i) next None" using 7(3) by force+
  then have v: "reconcileValue Y tk (arrGet a i) next None = (a ! i, False, False)"
    using 7(1) [of "a ! i"] by (simp add: arrGet_def)
  have "\<forall>j < length rest. Suc i + j < length a \<and> jsonWf (rest ! j) \<and> matches (textStr Y) tk (a ! (Suc i + j)) (rest ! j) None"
    using 7(3) by force
  then show ?case using 7(2) [OF v [symmetric]] i v settleIndex_same [of i a Y] by simp blast
qed auto

subsection \<open>What is left matches\<close>

lemma keys_inPlace [simp]: "map fst (inPlace m k n) = map fst m"
  by (induction m) (auto simp: inPlace_def)

lemma jget_inPlace: "jget (inPlace m k n) k' = (if k' = k then map_option (\<lambda>_. n) (jget m k) else jget m k')"
  by (induction m) (auto simp: inPlace_def)

lemma nodeOk_YMap: "nodeOk str (YMap m) \<longleftrightarrow> jwf m \<and> (\<forall>k n. jget m k = Some n \<longrightarrow> nodeOk str n)"
proof -
  have "(\<forall>p \<in> set m. nodeOk str (snd p)) \<longleftrightarrow> (\<forall>k n. jget m k = Some n \<longrightarrow> nodeOk str n)" if "jwf m"
  proof
    assume "\<forall>p \<in> set m. nodeOk str (snd p)"
    then show "\<forall>k n. jget m k = Some n \<longrightarrow> nodeOk str n" using map_of_SomeD by (metis snd_conv)
  next
    assume "\<forall>k n. jget m k = Some n \<longrightarrow> nodeOk str n"
    then show "\<forall>p \<in> set m. nodeOk str (snd p)" using map_of_is_SomeI [OF that] by (metis prod.collapse)
  qed
  then show ?thesis by auto
qed

context yjs_doc
begin

lemma settleKey_get:
  assumes "jwf m" "attached \<or> \<not> isShared node \<or> jhas m key" "settleKey Y m key node attached = (m', w)"
  shows "jwf m' \<and> jget m' k = (if k = key then Some node else jget m k)"
  using assms by (auto simp: settleKey_def mapSet_wf mapSet_get jget_inPlace split: if_splits)

lemma replaceAt_eq: "i \<le> length a \<Longrightarrow> replaceAt Y a i n = take i a @ n # drop (Suc i) a"
  by (auto simp: replaceAt_def Let_def arrDelete_at arrInsert_at min_def)

lemma settleIndex_eq:
  assumes "i \<le> length a" "attached \<or> \<not> isShared node \<or> i < length a" "settleIndex Y a i node attached = (a', w)"
  shows "a' = take i a @ node # drop (Suc i) a"
  using assms
  by (auto simp: settleIndex_def replaceAt_eq list_update_append upd_conv_take_nth_drop arrGet_def
      id_take_nth_drop [symmetric] split: if_splits)

lemma dropMissing_get:
  assumes "jwf m"
  shows "jwf (dropMissing Y m kvs) \<and> jget (dropMissing Y m kvs) k = (if jhas kvs k then jget m k else None)"
proof -
  have "jwf (fold (\<lambda>k m. mapDelete Y m k) ks m)
      \<and> jget (fold (\<lambda>k m. mapDelete Y m k) ks m) k = (if k \<in> set ks then None else jget m k)" for ks
    using assms by (induction ks arbitrary: m) (auto simp: mapDelete_wf mapDelete_get)
  moreover have "k \<in> set (missing m kvs) \<longleftrightarrow> jhas m k \<and> \<not> jhas kvs k"
    unfolding missing_def jhas_iff by auto
  ultimately show ?thesis by (cases "jget m k") (auto simp: dropMissing_def)
qed

lemma text_written:
  assumes "plainStr (textStr Y t)" "jsonPlain v" "shouldUseText tk key v"
  shows "textStr Y (applyStringToYText (textStr Y) (textDel Y) (textIns Y) t (strOf v)) = strOf v" "plainStr (strOf v)"
proof -
  show p: "plainStr (strOf v)" using assms(2) strOf_text [OF assms(3)] by (metis jsonPlain.simps(1))
  show "textStr Y (applyStringToYText (textStr Y) (textDel Y) (textIns Y) t (strOf v)) = strOf v"
    by (rule str_applyStringToYText) (use assms(1) p plainStr_wf16 in \<open>auto simp: plainStr_def\<close>)
qed

lemma scalar_written:
  assumes "\<forall>n. current = Some n \<longrightarrow> nodeOk (textStr Y) n" "jsonPlain v" "\<not> isRecord v" "\<not> isArray v"
    and "reconcileValue Y tk current v key = (node, attached, w)"
  shows "matches (textStr Y) tk node v key \<and> nodeOk (textStr Y) node \<and> (attached \<or> \<not> isShared node \<or> current \<noteq> None)"
proof (cases "shouldUseText tk key v")
  case True
  let ?t = "case current of Some (YText t) \<Rightarrow> (t, False) | _ \<Rightarrow> (newText Y, True)"
  have r: "node = YText (applyStringToYText (textStr Y) (textDel Y) (textIns Y) (fst ?t) (strOf v))" "attached = snd ?t"
    using assms(5) True strOf_text [OF True] by (cases v; auto split: prod.splits)+
  have "plainStr (textStr Y (fst ?t))"
    using assms(1) newText_empty by (auto simp: plainStr_def split: option.split ynode.split)
  from text_written [OF this assms(2) True] show ?thesis
    using True r by (auto split: option.splits ynode.splits)
next
  case False
  then show ?thesis using assms(3,4,5) by (cases v) auto
qed

end

lemma entries_step:
  assumes "jwf m'" "\<And>k. jget m' k = (if k = key then Some node else jget m k)" "matches str tk node next (Some key)"
    "nodeOk str node" "key \<notin> fst ` set rest"
    and "\<And>k. case jget rest k of None \<Rightarrow> jget m'' k = jget m' k
          | Some v \<Rightarrow> (\<exists>n. jget m'' k = Some n \<and> matches str tk n v (Some k) \<and> nodeOk str n)"
  shows "case jget ((key, next) # rest) k of None \<Rightarrow> jget m'' k = jget m k
          | Some v \<Rightarrow> (\<exists>n. jget m'' k = Some n \<and> matches str tk n v (Some k) \<and> nodeOk str n)"
proof (cases "k = key")
  case True
  then have "jget rest k = None" using assms(5) jhas_iff [of rest k] by blast
  then show ?thesis using assms(2,3,4) assms(6) [of k] True by auto
next
  case False
  then show ?thesis using assms(2) assms(6) [of k] by (auto split: option.splits)
qed

lemma reconcile_matches:
  shows "yjs_doc Y \<Longrightarrow> \<forall>n. current = Some n \<longrightarrow> nodeOk (textStr Y) n \<Longrightarrow> jsonWf v \<Longrightarrow> jsonPlain v \<Longrightarrow>
      reconcileValue Y tk current v key = (node, attached, w) \<Longrightarrow>
      matches (textStr Y) tk node v key \<and> nodeOk (textStr Y) node \<and> (attached \<or> \<not> isShared node \<or> current \<noteq> None)"
    and "yjs_doc Y \<Longrightarrow> nodeOk (textStr Y) (YMap m) \<Longrightarrow> jsonWf (JObj kvs) \<Longrightarrow> jsonPlain (JObj kvs) \<Longrightarrow>
      reconcileEntries Y tk m kvs = (m', w) \<Longrightarrow>
      jwf m' \<and> (\<forall>k. case jget kvs k of None \<Rightarrow> jget m' k = jget m k
          | Some v \<Rightarrow> (\<exists>n. jget m' k = Some n \<and> matches (textStr Y) tk n v (Some k) \<and> nodeOk (textStr Y) n))"
    and "yjs_doc Y \<Longrightarrow> \<forall>n \<in> set a. nodeOk (textStr Y) n \<Longrightarrow> i \<le> length a \<Longrightarrow> \<forall>x \<in> set xs. jsonWf x \<and> jsonPlain x \<Longrightarrow>
      reconcileFrom Y tk a i xs = (a', w) \<Longrightarrow>
      length a' = max (length a) (i + length xs) \<and> take i a' = take i a
      \<and> (\<forall>j < length xs. matches (textStr Y) tk (a' ! (i + j)) (xs ! j) None) \<and> (\<forall>n \<in> set a'. nodeOk (textStr Y) n)"
proof (induction Y tk current v key and Y tk m kvs and Y tk a i xs
    arbitrary: node attached w and m' w and a' w
    rule: reconcileValue_reconcileEntries_reconcileFrom.induct)
  case (1 Y tk current "next" key)
  obtain a att where a: "(case current of Some (YArray a) \<Rightarrow> (a, False) | _ \<Rightarrow> ([], True)) = (a, att)" by fastforce
  obtain a' wrote where a': "reconcileFrom Y tk a 0 next = (a', wrote)" by fastforce
  have "\<forall>n \<in> set a. nodeOk (textStr Y) n" "att \<or> current \<noteq> None"
    using 1(3) a by (auto split: option.splits ynode.splits)
  moreover from this have IH: "length a' = max (length a) (length next)"
      "\<forall>j < length next. matches (textStr Y) tk (a' ! j) (next ! j) None" "\<forall>n \<in> set a'. nodeOk (textStr Y) n"
    using 1(1) [OF refl a [symmetric] 1(2) _ _ _ a'] 1(4,5) by auto
  moreover have "fst (cutSurplus Y a' (length next)) = take (length next) a'"
    using IH(1) by (simp add: cutSurplus_def yjs_doc.arrDelete_at [OF 1(2)])
  moreover have "\<forall>n \<in> set (take (length next) a'). nodeOk (textStr Y) n" using IH(3) by (meson in_set_takeD)
  ultimately show ?case
    using 1(6) a a' by (auto simp: in_set_zip split_beta)
next
  case (2 Y tk current "next" key)
  obtain m att where m: "(case current of Some (YMap m) \<Rightarrow> (m, False) | _ \<Rightarrow> ([], True)) = (m, att)" by fastforce
  obtain m' wrote where m': "reconcileEntries Y tk (dropMissing Y m next) next = (m', wrote)" by fastforce
  have ok: "nodeOk (textStr Y) (YMap m)" "att \<or> current \<noteq> None"
    using 2(3) m by (auto split: option.splits ynode.splits)
  then have wf: "jwf m" by simp
  note drop = yjs_doc.dropMissing_get [OF 2(2) wf, of "next"]
  have "nodeOk (textStr Y) (YMap (dropMissing Y m next))"
    using ok(1) drop unfolding nodeOk_YMap by auto
  note step = 2(1) [OF refl m [symmetric] 2(2) this 2(4,5) m']
  have IH: "jwf m'" "\<And>k. case jget next k of None \<Rightarrow> jget m' k = None
          | Some v \<Rightarrow> (\<exists>n. jget m' k = Some n \<and> matches (textStr Y) tk n v (Some k) \<and> nodeOk (textStr Y) n)"
  proof -
    show "jwf m'" using step by blast
    show "case jget next k of None \<Rightarrow> jget m' k = None
          | Some v \<Rightarrow> (\<exists>n. jget m' k = Some n \<and> matches (textStr Y) tk n v (Some k) \<and> nodeOk (textStr Y) n)" for k
      using step [THEN conjunct2, rule_format, of k] drop [of k] by (cases "jget next k") simp_all
  qed
  have "jhas m' k \<longleftrightarrow> jhas next k" for k using IH(2) [of k] by (auto split: option.splits)
  then have "fst ` set m' = fst ` set next" unfolding jhas_iff by blast
  moreover have "\<exists>n. jget m' k = Some n \<and> matches (textStr Y) tk n v (Some k)" if "(k, v) \<in> set next" for k v
    using IH(2) [of k] map_of_is_SomeI [OF _ that] 2(4) by auto
  moreover have "nodeOk (textStr Y) n" if "jget m' k = Some n" for k n
    using IH(2) [of k] that by (auto split: option.splits)
  ultimately have "matches (textStr Y) tk (YMap m') (JObj next) key" "nodeOk (textStr Y) (YMap m')"
    using IH(1) unfolding nodeOk_YMap by force+
  then show ?case using 2(6) m m' ok(2) by auto
next
  case (5 Y tk m key "next" rest)
  obtain node att w1 where v: "reconcileValue Y tk (jget m key) next (Some key) = (node, att, w1)"
    by (metis prod_cases3)
  obtain m1 w2 where m1: "settleKey Y m key node att = (m1, w2)" by fastforce
  obtain m2 w3 where m2: "reconcileEntries Y tk m1 rest = (m2, w3)" by fastforce
  have ok: "jwf m" "\<forall>n. jget m key = Some n \<longrightarrow> nodeOk (textStr Y) n" using 5(4) unfolding nodeOk_YMap by auto
  have node: "matches (textStr Y) tk node next (Some key)" "nodeOk (textStr Y) node" "att \<or> \<not> isShared node \<or> jhas m key"
    using 5(1) [OF 5(3) ok(2) _ _ v] 5(5,6) by auto
  have get: "jwf m1" "\<And>k. jget m1 k = (if k = key then Some node else jget m k)"
    using yjs_doc.settleKey_get [OF 5(3) ok(1) node(3) m1] by auto
  have "nodeOk (textStr Y) (YMap m1)" using get 5(4) node(2) unfolding nodeOk_YMap by auto
  from 5(2) [OF v [symmetric] refl refl m1 [symmetric] refl 5(3) this _ _ m2]
  have m2': "jwf m2" "\<And>k. case jget rest k of None \<Rightarrow> jget m2 k = jget m1 k
          | Some v \<Rightarrow> (\<exists>n. jget m2 k = Some n \<and> matches (textStr Y) tk n v (Some k) \<and> nodeOk (textStr Y) n)"
    using 5(5,6) by auto
  have "key \<notin> fst ` set rest" using 5(5) by simp
  note result = entries_step [OF get node(1,2) this m2'(2)]
  moreover have "m2 = m'" using 5(7) v m1 m2 by simp
  ultimately show ?case using m2'(1) by blast
next
  case (7 Y tk a i "next" rest)
  obtain node att w1 where v: "reconcileValue Y tk (arrGet a i) next None = (node, att, w1)"
    by (metis prod_cases3)
  obtain a1 w2 where a1: "settleIndex Y a i node att = (a1, w2)" by fastforce
  obtain a2 w3 where a2: "reconcileFrom Y tk a1 (Suc i) rest = (a2, w3)" by fastforce
  have "\<forall>n. arrGet a i = Some n \<longrightarrow> nodeOk (textStr Y) n" using 7(4) by (auto simp: arrGet_def)
  then have node: "matches (textStr Y) tk node next None" "nodeOk (textStr Y) node" "att \<or> \<not> isShared node \<or> i < length a"
    using 7(1) [OF 7(3) _ _ _ v] 7(6) by (auto simp: arrGet_def split: if_splits)
  have eq: "a1 = take i a @ node # drop (Suc i) a"
    by (rule yjs_doc.settleIndex_eq [OF 7(3,5) node(3) a1])
  have "\<forall>n \<in> set a1. nodeOk (textStr Y) n" "Suc i \<le> length a1"
    using 7(4,5) node(2) eq by (auto dest: in_set_takeD in_set_dropD)
  from 7(2) [OF v [symmetric] refl refl a1 [symmetric] refl 7(3) this _ a2]
  have IH: "length a2 = max (length a1) (Suc i + length rest)" "take (Suc i) a2 = take (Suc i) a1"
      "\<forall>j < length rest. matches (textStr Y) tk (a2 ! (Suc i + j)) (rest ! j) None" "\<forall>n \<in> set a2. nodeOk (textStr Y) n"
    using 7(6) by auto
  have "length a2 = max (length a) (i + length (next # rest))" using IH(1) eq 7(5) by auto
  moreover have "take i a2 = take i a"
    using arg_cong [OF IH(2), of "take i"] eq 7(5) by (simp add: min_def)
  moreover have "a2 ! i = node"
    using arg_cong [OF IH(2), of "\<lambda>l. l ! i"] eq 7(5) by (simp add: nth_append)
  then have "matches (textStr Y) tk (a2 ! (i + j)) ((next # rest) ! j) None" if "j < length (next # rest)" for j
    using IH(3) node(1) that by (cases j) auto
  ultimately show ?case using IH(4) 7(7) v a1 a2 by simp
next
  case (4 Y tk m)
  then show ?case by simp
next
  case (6 Y tk a i)
  then show ?case by simp
next
  case "3_1"
  show ?case by (rule yjs_doc.scalar_written [OF "3_1"(1,2,4) _ _ "3_1"(5)]) simp_all
next
  case "3_2"
  show ?case by (rule yjs_doc.scalar_written [OF "3_2"(1,2,4) _ _ "3_2"(5)]) simp_all
next
  case "3_3"
  show ?case by (rule yjs_doc.scalar_written [OF "3_3"(1,2,4) _ _ "3_3"(5)]) simp_all
next
  case "3_4"
  show ?case by (rule yjs_doc.scalar_written [OF "3_4"(1,2,4) _ _ "3_4"(5)]) simp_all
qed

section \<open>Properties\<close>



text \<open>
  The same for arrays: any array of shared or plain elements is brought to the value's
  elements, in order and number, and a second run issues no operation.
\<close>

theorem reconcileArray_writes:
  assumes "yjs_doc Y" "nodeOk (textStr Y) (YArray a)" "jsonWf (JArr xs)" "jsonPlain (JArr xs)"
  shows "jsonEqual (toValue (textStr Y) (YArray (fst (reconcileArray Y tk a xs)))) (JArr xs)
    \<and> reconcileArray Y tk (fst (reconcileArray Y tk a xs)) xs = (fst (reconcileArray Y tk a xs), False)"
proof -
  let ?r = "reconcileValue Y tk (Some (YArray a)) (JArr xs) None"
  have r: "fst ?r = YArray (fst (reconcileArray Y tk a xs))"
    by (simp add: reconcileArray_def split_beta)
  have "matches (textStr Y) tk (fst ?r) (JArr xs) None"
    using reconcile_matches(1) [OF assms(1) _ assms(3,4), of "Some (YArray a)" tk None] assms(2)
    by (metis option.inject prod.collapse)
  then have m: "matches (textStr Y) tk (YArray (fst (reconcileArray Y tk a xs))) (JArr xs) None" unfolding r .
  from reconcile_same(1) [OF refl m assms(3)]
  have "reconcileArray Y tk (fst (reconcileArray Y tk a xs)) xs = (fst (reconcileArray Y tk a xs), False)"
    by (auto simp: reconcileArray_def split_beta prod_eq_iff)
  then show ?thesis using matches_toValue [OF m assms(3)] by blast
qed

theorem reconcileArray_writes_witness:
  "jsonEqual (toValue (textStr plainYjs) (YArray (fst (reconcileArray plainYjs None
      [YMap [], YPlain JNull, YPlain JNull] [JObj [(lit ''a'', JNum 1)], JNull]))))
     (JArr [JObj [(lit ''a'', JNum 1)], JNull])"
  by (rule reconcileArray_writes [OF plain.yjs_doc_axioms, THEN conjunct1])
    (simp_all add: plainYjs_def)

end
