(* ===== verification/Canvas.thy ===== *)
theory Canvas
  imports Structured_Reconcile
begin

text \<open>
  Canvas files: \<^verbatim>\<open>src/structured/canvas.ts\<close>. Parsing and printing go through the text codec
  \<open>JSON.parse\<close> / \<open>JSON.stringify\<close>, which are arguments; \<open>parseCanvas\<close> gives \<open>None\<close> where the code
  throws. As in \<^verbatim>\<open>reconcile.ts\<close>, objects are association lists and \<open>in\<close> is membership of an own key.

  \<open>reconcileCanvasItems\<close> writes a snapshot of the nodes (or edges) into the shared map with
  tombstones. The client that created the current entry of a key is Yjs' own record: the argument
  \<open>originClient\<close>. Tombstones hold client ids as plain numbers.
\<close>

section \<open>Model\<close>

record structured_canvas =
  nodes :: "(jstr \<times> json) list"
  edges :: "(jstr \<times> json) list"
  nodeOrder :: "jstr list"
  edgeOrder :: "jstr list"

definition itemId :: "json \<Rightarrow> jstr option" where
  "itemId item = (case jget (objFields item) (lit ''id'') of Some (JStr s) \<Rightarrow> Some s | _ \<Rightarrow> None)"

text \<open>The loop over \<open>data.nodes\<close> or \<open>data.edges\<close>.\<close>

fun collectItems :: "json list \<Rightarrow> (jstr \<times> json) list \<times> jstr list \<Rightarrow> (jstr \<times> json) list \<times> jstr list" where
  "collectItems [] acc = acc"
| "collectItems (item # rest) (items, order) =
     (case itemId item of
        None \<Rightarrow> collectItems rest (items, order)
      | Some i \<Rightarrow> collectItems rest (jset items i item, order @ [i]))"

definition arrayField :: "json \<Rightarrow> jstr \<Rightarrow> json list" where
  "arrayField data key = (case jget (objFields data) key of Some (JArr xs) \<Rightarrow> xs | _ \<Rightarrow> [])"

definition canvasOf :: "json \<Rightarrow> structured_canvas option" where
  "canvasOf data =
     (if data = JNull then None
      else
        let (ns, no) = collectItems (arrayField data (lit ''nodes'')) ([], []);
            (es, eo) = collectItems (arrayField data (lit ''edges'')) ([], [])
        in Some \<lparr>nodes = ns, edges = es, nodeOrder = no, edgeOrder = eo\<rparr>)"

definition parseCanvas :: "(jstr \<Rightarrow> json option) \<Rightarrow> jstr \<Rightarrow> structured_canvas option" where
  "parseCanvas parse text =
     (case (if trim text \<noteq> [] then parse text else Some (JObj [])) of
        None \<Rightarrow> None
      | Some data \<Rightarrow> canvasOf data)"

definition uniqueCanvasOrder :: "jstr list \<Rightarrow> (jstr \<times> json) list \<Rightarrow> jstr list" where
  "uniqueCanvasOrder order items =
     rev (remdups (rev (filter (\<lambda>i. jhas items i) (order @ jkeys items))))"

definition objectField :: "json \<Rightarrow> jstr \<Rightarrow> (jstr \<times> json) list" where
  "objectField canvasRoot key = (case jget (objFields canvasRoot) key of Some v \<Rightarrow> objFields v | None \<Rightarrow> [])"

definition orderField :: "json \<Rightarrow> jstr \<Rightarrow> (jstr \<times> json) list \<Rightarrow> jstr list" where
  "orderField canvasRoot key items =
     (case jget (objFields canvasRoot) key of
        Some (JArr xs) \<Rightarrow> concat (map (\<lambda>x. case x of JStr s \<Rightarrow> [s] | _ \<Rightarrow> []) xs)
      | _ \<Rightarrow> jkeys items)"

definition orderedItems :: "jstr list \<Rightarrow> (jstr \<times> json) list \<Rightarrow> json list" where
  "orderedItems order items = filter isRecord (map (\<lambda>i. the (jget items i)) (uniqueCanvasOrder order items))"

definition canvasData :: "json \<Rightarrow> json" where
  "canvasData canvasRoot =
     (let ns = objectField canvasRoot (lit ''nodes''); es = objectField canvasRoot (lit ''edges'')
      in JObj [(lit ''nodes'', JArr (orderedItems (orderField canvasRoot (lit ''nodeOrder'') ns) ns)),
               (lit ''edges'', JArr (orderedItems (orderField canvasRoot (lit ''edgeOrder'') es) es))])"

definition serializeCanvas :: "(json \<Rightarrow> jstr) \<Rightarrow> json \<Rightarrow> jstr" where
  "serializeCanvas stringify v = stringify (canvasData v) @ [10]"

definition isStructuredCanvas :: "json \<Rightarrow> bool" where
  "isStructuredCanvas v \<longleftrightarrow>
     (case (jget (objFields v) (lit ''nodes''), jget (objFields v) (lit ''edges''),
            jget (objFields v) (lit ''nodeOrder''), jget (objFields v) (lit ''edgeOrder'')) of
        (Some (JObj _), Some (JObj _), Some (JArr _), Some (JArr _)) \<Rightarrow> True
      | _ \<Rightarrow> False)"

text \<open>A structured canvas as the JSON value that \<open>serializeCanvas\<close> takes.\<close>

definition canvasJson :: "structured_canvas \<Rightarrow> json" where
  "canvasJson c = JObj [(lit ''nodes'', JObj (nodes c)), (lit ''edges'', JObj (edges c)),
     (lit ''nodeOrder'', JArr (map JStr (nodeOrder c))), (lit ''edgeOrder'', JArr (map JStr (edgeOrder c)))]"

subsection \<open>Reconciling a snapshot\<close>

definition ensureMap :: "'t yjs \<Rightarrow> (jstr \<times> 't ynode) list \<Rightarrow> jstr \<Rightarrow> (jstr \<times> 't ynode) list" where
  "ensureMap Y canvasRoot key = (case jget canvasRoot key of Some (YMap _) \<Rightarrow> canvasRoot | _ \<Rightarrow> mapSet Y canvasRoot key (YMap []))"

definition ensureArray :: "'t yjs \<Rightarrow> (jstr \<times> 't ynode) list \<Rightarrow> jstr \<Rightarrow> (jstr \<times> 't ynode) list" where
  "ensureArray Y canvasRoot key = (case jget canvasRoot key of Some (YArray _) \<Rightarrow> canvasRoot | _ \<Rightarrow> mapSet Y canvasRoot key (YArray []))"

fun mapOf :: "'t ynode option \<Rightarrow> (jstr \<times> 't ynode) list" where
  "mapOf (Some (YMap m)) = m"
| "mapOf _ = []"

fun arrayOf :: "'t ynode option \<Rightarrow> 't ynode list" where
  "arrayOf (Some (YArray a)) = a"
| "arrayOf _ = []"

definition stamp :: "nat \<Rightarrow> 't ynode" where
  "stamp clientID = YPlain (JNum (of_nat clientID))"

text \<open>One round of the first loop: an item that the snapshot does not have.\<close>

definition dropsItem :: "(jstr \<Rightarrow> nat option) \<Rightarrow> nat \<Rightarrow> (jstr \<times> json) list option \<Rightarrow> (jstr \<times> json) list \<Rightarrow> jstr \<Rightarrow> bool" where
  "dropsItem originClient clientID known incoming i \<longleftrightarrow>
     \<not> jhas incoming i \<and>
     (case known of
        Some items \<Rightarrow> jhas items i
      | None \<Rightarrow> originClient i = None \<or> originClient i = Some clientID)"

definition dropItems ::
  "'t yjs \<Rightarrow> (jstr \<Rightarrow> nat option) \<Rightarrow> nat \<Rightarrow> (jstr \<times> json) list option \<Rightarrow> (jstr \<times> json) list \<Rightarrow> jstr list
   \<Rightarrow> (jstr \<times> 't ynode) list \<times> (jstr \<times> 't ynode) list \<Rightarrow> (jstr \<times> 't ynode) list \<times> (jstr \<times> 't ynode) list" where
  "dropItems Y originClient clientID known incoming =
     fold (\<lambda>i (items, tombstones).
       if dropsItem originClient clientID known incoming i
       then (mapDelete Y items i, mapSet Y tombstones i (stamp clientID))
       else (items, tombstones))"

definition reconcileItemFields ::
  "'t yjs \<Rightarrow> (jstr \<times> 't ynode) list \<Rightarrow> (jstr \<times> json) list \<Rightarrow> (jstr \<times> 't ynode) list" where
  "reconcileItemFields Y itemMap incoming =
     fst (reconcileEntries Y None (dropMissing Y itemMap incoming) incoming)"

text \<open>One round of the second loop.\<close>

definition addItem ::
  "'t yjs \<Rightarrow> nat \<Rightarrow> jstr \<times> json
   \<Rightarrow> (jstr \<times> 't ynode) list \<times> (jstr \<times> 't ynode) list \<Rightarrow> (jstr \<times> 't ynode) list \<times> (jstr \<times> 't ynode) list" where
  "addItem Y clientID entry st =
     (case (entry, st) of
        ((i, item), (items, tombstones)) \<Rightarrow>
          if \<not> isRecord item then st
          else if jget tombstones i \<noteq> None \<and> jget tombstones i \<noteq> Some (stamp clientID) then st
          else
            let tombstones = (if jget tombstones i \<noteq> None then mapDelete Y tombstones i else tombstones);
                items = (case jget items i of Some (YMap _) \<Rightarrow> items | _ \<Rightarrow> mapSet Y items i (YMap []))
            in (inPlace items i (YMap (reconcileItemFields Y (mapOf (jget items i)) (objFields item))), tombstones))"

definition reconcileCanvasItems ::
  "'t yjs \<Rightarrow> (jstr \<Rightarrow> nat option) \<Rightarrow> nat \<Rightarrow> (jstr \<times> json) list option \<Rightarrow> (jstr \<times> json) list
   \<Rightarrow> (jstr \<times> 't ynode) list \<times> (jstr \<times> 't ynode) list \<Rightarrow> (jstr \<times> 't ynode) list \<times> (jstr \<times> 't ynode) list" where
  "reconcileCanvasItems Y originClient clientID known incoming st =
     fold (addItem Y clientID) incoming
       (dropItems Y originClient clientID known incoming (jkeys (fst st)) st)"

text \<open>
  The root map gets its six children, then the items, tombstones and orders are reconciled.
  Children are changed in place.
\<close>

definition reconcileSection ::
  "'t yjs \<Rightarrow> (jstr \<Rightarrow> nat option) \<Rightarrow> nat \<Rightarrow> (jstr \<times> json) list option \<Rightarrow> (jstr \<times> json) list \<Rightarrow> jstr \<Rightarrow> jstr
   \<Rightarrow> (jstr \<times> 't ynode) list \<Rightarrow> (jstr \<times> 't ynode) list" where
  "reconcileSection Y originClient clientID known incoming key tombKey canvasRoot =
     (case reconcileCanvasItems Y originClient clientID known incoming (mapOf (jget canvasRoot key), mapOf (jget canvasRoot tombKey)) of
        (items, tombstones) \<Rightarrow> inPlace (inPlace canvasRoot key (YMap items)) tombKey (YMap tombstones))"

definition reconcileOrder :: "'t yjs \<Rightarrow> jstr list \<Rightarrow> jstr \<Rightarrow> (jstr \<times> 't ynode) list \<Rightarrow> (jstr \<times> 't ynode) list" where
  "reconcileOrder Y order key canvasRoot =
     (let canvasRoot = ensureArray Y canvasRoot key
      in inPlace canvasRoot key (YArray (fst (reconcileArray Y None (arrayOf (jget canvasRoot key)) (map JStr order)))))"

definition reconcileCanvas ::
  "'t yjs \<Rightarrow> (jstr \<Rightarrow> nat option) \<Rightarrow> (jstr \<Rightarrow> nat option) \<Rightarrow> (jstr \<times> 't ynode) list \<Rightarrow> structured_canvas \<Rightarrow> nat
   \<Rightarrow> structured_canvas option \<Rightarrow> (jstr \<times> 't ynode) list" where
  "reconcileCanvas Y nodeOrigin edgeOrigin canvasRoot incoming clientID base =
     (let canvasRoot = ensureMap Y canvasRoot (lit ''nodes'');
          canvasRoot = ensureMap Y canvasRoot (lit ''edges'');
          canvasRoot = ensureMap Y canvasRoot (lit ''deletedNodeIds'');
          canvasRoot = ensureMap Y canvasRoot (lit ''deletedEdgeIds'');
          canvasRoot = reconcileSection Y nodeOrigin clientID (map_option nodes base) (nodes incoming)
                   (lit ''nodes'') (lit ''deletedNodeIds'') canvasRoot;
          canvasRoot = reconcileSection Y edgeOrigin clientID (map_option edges base) (edges incoming)
                   (lit ''edges'') (lit ''deletedEdgeIds'') canvasRoot;
          canvasRoot = reconcileOrder Y (nodeOrder incoming) (lit ''nodeOrder'') canvasRoot
      in reconcileOrder Y (edgeOrder incoming) (lit ''edgeOrder'') canvasRoot)"

section \<open>One item\<close>

text \<open>
  What the snapshot's item does to the shared item and tombstone of its id: nothing when it is no
  object or another client deleted the id, else the item is written and the tombstone gone.
\<close>

definition itemOutcome ::
  "('t \<Rightarrow> jstr) \<Rightarrow> nat \<Rightarrow> json \<Rightarrow> 't ynode option \<Rightarrow> 't ynode option \<Rightarrow> 't ynode option \<Rightarrow> 't ynode option \<Rightarrow> bool" where
  "itemOutcome str clientID item old tomb new tomb' \<longleftrightarrow>
     (if \<not> isRecord item \<or> (tomb \<noteq> None \<and> tomb \<noteq> Some (stamp clientID)) then new = old \<and> tomb' = tomb
      else tomb' = None \<and> (\<exists>m. new = Some (YMap m) \<and> jsonEqual (toValue str (YMap m)) item))"

lemma reconcileItemFields_writes:
  assumes "yjs_doc Y" "nodeOk (textStr Y) (YMap m)" "jsonWf (JObj kvs)" "jsonPlain (JObj kvs)"
  shows "nodeOk (textStr Y) (YMap (reconcileItemFields Y m kvs))
    \<and> jsonEqual (toValue (textStr Y) (YMap (reconcileItemFields Y m kvs))) (JObj kvs)"
proof -
  obtain node att w where r: "reconcileValue Y None (Some (YMap m)) (JObj kvs) None = (node, att, w)"
    by (metis prod_cases3)
  have node: "node = YMap (reconcileItemFields Y m kvs)"
    using r by (auto simp: reconcileItemFields_def split: prod.splits)
  show ?thesis
    using reconcile_matches(1) [OF assms(1) _ assms(3,4) r] assms(2) matches_toValue [OF _ assms(3)] node by blast
qed

lemma nodeOk_mapOf: "\<forall>n. v = Some n \<longrightarrow> nodeOk str n \<Longrightarrow> nodeOk str (YMap (mapOf v))"
  by (cases v rule: mapOf.cases) auto

context yjs_doc
begin

lemma dropItems_at:
  assumes "nodeOk (textStr Y) (YMap items)" "jwf tombs" "distinct ks"
    and "dropItems Y oc cid known incoming ks (items, tombs) = (items', tombs')"
  shows "nodeOk (textStr Y) (YMap items') \<and> jwf tombs'
    \<and> (if i \<in> set ks \<and> dropsItem oc cid known incoming i
       then jget items' i = None \<and> jget tombs' i = Some (stamp cid)
       else jget items' i = jget items i \<and> jget tombs' i = jget tombs i)"
  using assms
proof (induction ks arbitrary: items tombs)
  case Nil
  then show ?case by (simp add: dropItems_def)
next
  case (Cons k ks)
  let ?d = "dropsItem oc cid known incoming k"
  define items1 where "items1 = (if ?d then mapDelete Y items k else items)"
  define tombs1 where "tombs1 = (if ?d then mapSet Y tombs k (stamp cid) else tombs)"
  have rest: "dropItems Y oc cid known incoming ks (items1, tombs1) = (items', tombs')"
    using Cons.prems(4) by (simp add: dropItems_def items1_def tombs1_def split: if_splits)
  have ok: "nodeOk (textStr Y) (YMap items1)" "jwf tombs1"
    using Cons.prems(1,2) unfolding nodeOk_YMap items1_def tombs1_def
    by (auto simp: mapDelete_get mapDelete_wf mapSet_wf split: if_splits)
  have "jwf items" using Cons.prems(1) by simp
  then show ?case
    using Cons.IH [OF ok _ rest] Cons.prems(2,3)
    by (auto simp: items1_def tombs1_def mapDelete_get mapSet_get split: if_splits)
qed

lemma addItem_at:
  assumes "nodeOk (textStr Y) (YMap items)" "jwf tombs" "jsonWf item" "jsonPlain item"
    and "addItem Y cid (i, item) (items, tombs) = (items', tombs')"
  shows "nodeOk (textStr Y) (YMap items') \<and> jwf tombs'
    \<and> itemOutcome (textStr Y) cid item (jget items i) (jget tombs i) (jget items' i) (jget tombs' i)
    \<and> (\<forall>j. j \<noteq> i \<longrightarrow> jget items' j = jget items j \<and> jget tombs' j = jget tombs j)"
proof (cases "isRecord item \<and> (jget tombs i = None \<or> jget tombs i = Some (stamp cid))")
  case False
  then have "addItem Y cid (i, item) (items, tombs) = (items, tombs)" by (auto simp: addItem_def)
  then have "items' = items" "tombs' = tombs" using assms(5) by auto
  then show ?thesis using False assms(1,2) by (auto simp: itemOutcome_def)
next
  case True
  then obtain kvs where kvs: "item = JObj kvs" by (cases item) auto
  define items1 where "items1 = (case jget items i of Some (YMap _) \<Rightarrow> items | _ \<Rightarrow> mapSet Y items i (YMap []))"
  define f where "f = reconcileItemFields Y (mapOf (jget items1 i)) kvs"
  have wf: "jwf items" using assms(1) by simp
  have at1: "jwf items1" "jget items1 j = (if j = i \<and> mapOf (jget items i) = [] then Some (YMap []) else jget items j)" for j
    using wf by (auto simp: items1_def mapSet_get mapSet_wf split: option.splits ynode.splits)
  have ok1: "nodeOk (textStr Y) (YMap items1)"
    using assms(1) at1 unfolding nodeOk_YMap by (auto split: if_splits)
  have "nodeOk (textStr Y) (YMap (mapOf (jget items1 i)))"
    using ok1 unfolding nodeOk_YMap [of _ items1] by (intro nodeOk_mapOf) auto
  note f = reconcileItemFields_writes [OF yjs_doc_axioms this assms(3,4) [unfolded kvs], folded f_def]
  have new: "items' = inPlace items1 i (YMap f)" "tombs' = (if jget tombs i \<noteq> None then mapDelete Y tombs i else tombs)"
    using assms(5) True kvs unfolding f_def items1_def by (auto simp: addItem_def Let_def split: if_splits)
  have "jget items1 i \<noteq> None" using at1(2) [of i] by (cases "jget items i") auto
  then have get: "jget items' j = (if j = i then Some (YMap f) else jget items j)" for j
    using at1(2) [of j] by (auto simp: new(1) jget_inPlace split: if_splits)
  have "jwf items'" using at1(1) by (simp add: new(1))
  then have "nodeOk (textStr Y) (YMap items')"
    using assms(1) f get unfolding nodeOk_YMap [of _ items] nodeOk_YMap [of _ items'] by auto
  moreover have "jwf tombs'" "jget tombs' j = (if j = i then None else jget tombs j)" for j
    using assms(2) by (auto simp: new(2) mapDelete_wf mapDelete_get)
  ultimately show ?thesis using True f get kvs by (auto simp: itemOutcome_def)
qed

lemma addItems_at:
  assumes "nodeOk (textStr Y) (YMap items)" "jwf tombs" "jsonWf (JObj incoming)" "jsonPlain (JObj incoming)"
    and "fold (addItem Y cid) incoming (items, tombs) = (items', tombs')"
  shows "nodeOk (textStr Y) (YMap items') \<and> jwf tombs'
    \<and> (case jget incoming i of
         None \<Rightarrow> jget items' i = jget items i \<and> jget tombs' i = jget tombs i
       | Some item \<Rightarrow> itemOutcome (textStr Y) cid item (jget items i) (jget tombs i) (jget items' i) (jget tombs' i))"
  using assms
proof (induction incoming arbitrary: items tombs)
  case Nil
  then show ?case by simp
next
  case (Cons entry incoming)
  obtain k item where entry: "entry = (k, item)" by (cases entry)
  obtain items1 tombs1 where step: "addItem Y cid (k, item) (items, tombs) = (items1, tombs1)" by fastforce
  have head: "jsonWf item" "jsonPlain item" and tail: "jsonWf (JObj incoming)" "jsonPlain (JObj incoming)" "jget incoming k = None"
    using Cons.prems(3,4) entry jhas_iff [of incoming k] by auto
  note at = addItem_at [OF Cons.prems(1,2) head step]
  have rest: "fold (addItem Y cid) incoming (items1, tombs1) = (items', tombs')"
    using Cons.prems(5) entry step by simp
  have ok1: "nodeOk (textStr Y) (YMap items1)" "jwf tombs1" using at by blast+
  note IH = Cons.IH [OF ok1 tail(1,2) rest]
  show ?case
  proof (cases "i = k")
    case True
    then show ?thesis using IH at tail(3) entry by simp
  next
    case False
    then show ?thesis using IH at entry by (auto split: option.splits)
  qed
qed

end

section \<open>Printing and reading back\<close>

definition canonicalItems :: "(jstr \<times> json) list \<Rightarrow> jstr list \<Rightarrow> bool" where
  "canonicalItems items order \<longleftrightarrow> jwf items \<and> (\<forall>(i, item) \<in> set items. itemId item = Some i)
     \<and> distinct order \<and> set order = fst ` set items"

lemma itemId_isRecord: "itemId item = Some i \<Longrightarrow> isRecord item"
  by (cases item) (auto simp: itemId_def)

lemma uniqueCanvasOrder_canonical:
  assumes "distinct order" "set order = fst ` set items"
  shows "uniqueCanvasOrder order items = order"
proof -
  have "filter (\<lambda>i. jhas items i) (order @ jkeys items) = order @ jkeys items"
    unfolding jhas_iff using assms(2) by (intro filter_True) auto
  moreover have "remdups (rev (jkeys items) @ rev order) = remdups (rev order)"
    by (rule remdups_append) (simp add: assms(2))
  ultimately show ?thesis using assms(1) by (simp add: uniqueCanvasOrder_def distinct_remdups_id)
qed

lemma collectItems_distinct:
  assumes "distinct (map fst items @ ids)" "\<forall>i \<in> set ids. itemId (f i) = Some i"
  shows "collectItems (map f ids) (items, order) = (items @ map (\<lambda>i. (i, f i)) ids, order @ ids)"
  using assms
proof (induction ids arbitrary: items order)
  case (Cons i ids)
  have "i \<notin> fst ` set items" using Cons.prems(1) by auto
  then have "jset items i (f i) = items @ [(i, f i)]" by (induction items) auto
  then show ?case using Cons.IH [of "items @ [(i, f i)]" "order @ [i]"] Cons.prems by auto
qed simp

lemma items_roundtrip:
  assumes "canonicalItems items order"
  shows "collectItems (orderedItems order items) ([], []) = (map (\<lambda>i. (i, the (jget items i))) order, order)"
proof -
  have ids: "itemId (the (jget items i)) = Some i" if i: "i \<in> set order" for i
  proof -
    obtain item where "jget items i = Some item"
      using i assms jhas_iff [of items i] by (auto simp: canonicalItems_def)
    then show ?thesis using assms map_of_SomeD [of items i item] by (auto simp: canonicalItems_def)
  qed
  have "orderedItems order items = map (\<lambda>i. the (jget items i)) order"
    using assms ids itemId_isRecord
    by (auto simp: orderedItems_def canonicalItems_def uniqueCanvasOrder_canonical intro!: filter_True)
  then show ?thesis
    using collectItems_distinct [of "[]" order "\<lambda>i. the (jget items i)" "[]"] assms ids
    by (simp add: canonicalItems_def)
qed

lemma jget_listed:
  assumes "set order = fst ` set items"
  shows "jget (map (\<lambda>i. (i, the (jget items i))) order) k = jget items k"
proof -
  have "jget (map (\<lambda>i. (i, the (jget items i))) order) k = (if k \<in> set order then Some (the (jget items k)) else None)"
    by (induction order) auto
  then show ?thesis using assms jhas_iff [of items k] by (cases "jget items k") auto
qed

section \<open>Properties\<close>

text \<open>
  C19: What reconciling a snapshot does to every single id. An item the snapshot lacks is deleted,
  with a tombstone of this client, exactly when the base has it (or, without a base, when this
  client or nobody known created it); any other item the snapshot lacks, a concurrent addition,
  stays. An object of the snapshot is written and its tombstone cleared, unless another client
  deleted the id: then nothing about the id changes, so a stale snapshot resurrects nothing.
\<close>

theorem reconcileCanvasItems_outcome:
  assumes "yjs_doc Y" "nodeOk (textStr Y) (YMap items)" "jwf tombs" "jsonWf (JObj incoming)" "jsonPlain (JObj incoming)"
  shows "case reconcileCanvasItems Y originClient clientID known incoming (items, tombs) of (items', tombs') \<Rightarrow>
     (case jget incoming i of
        None \<Rightarrow>
          if jhas items i \<and> (case known of Some base \<Rightarrow> jhas base i | None \<Rightarrow> originClient i \<in> {None, Some clientID})
          then jget items' i = None \<and> jget tombs' i = Some (stamp clientID)
          else jget items' i = jget items i \<and> jget tombs' i = jget tombs i
      | Some item \<Rightarrow> itemOutcome (textStr Y) clientID item (jget items i) (jget tombs i) (jget items' i) (jget tombs' i))"
proof -
  obtain items1 tombs1 where drops: "dropItems Y originClient clientID known incoming (jkeys items) (items, tombs) = (items1, tombs1)"
    by fastforce
  obtain items' tombs' where adds: "fold (addItem Y clientID) incoming (items1, tombs1) = (items', tombs')" by fastforce
  have keys: "distinct (jkeys items)" "i \<in> set (jkeys items) \<longleftrightarrow> jhas items i"
    using assms(2) by (auto simp: jhas_iff simp del: not_None_eq)
  note d = yjs_doc.dropItems_at [OF assms(1-3) keys(1) drops, of i]
  have ok: "nodeOk (textStr Y) (YMap items1)" "jwf tombs1" using d by blast+
  note a = yjs_doc.addItems_at [OF assms(1) ok assms(4,5) adds, of i]
  have result: "reconcileCanvasItems Y originClient clientID known incoming (items, tombs) = (items', tombs')"
    using drops adds by (simp add: reconcileCanvasItems_def)
  show ?thesis
  proof (cases "jget incoming i")
    case None
    then show ?thesis
      using a d unfolding result keys(2) by (auto simp: dropsItem_def split: option.splits)
  next
    case (Some item)
    then have "\<not> dropsItem originClient clientID known incoming i" by (simp add: dropsItem_def)
    then show ?thesis using a d Some unfolding result by simp
  qed
qed

theorem reconcileCanvasItems_outcome_witness:
  "case reconcileCanvasItems plainYjs (\<lambda>_. None) 7 (Some []) [(lit ''e1'', JObj [])]
      ([(lit ''e2'', YMap [])], [(lit ''e1'', stamp 9)]) of (items', tombs') \<Rightarrow>
     jget items' (lit ''e1'') = None \<and> jget tombs' (lit ''e1'') = Some (stamp 9)"
  using reconcileCanvasItems_outcome [OF plain.yjs_doc_axioms, where items = "[(lit ''e2'', YMap [])]"
      and tombs = "[(lit ''e1'', stamp 9)]" and incoming = "[(lit ''e1'', JObj [])]" and i = "lit ''e1''"
      and originClient = "\<lambda>_. None" and clientID = 7 and known = "Some []"]
  by (auto simp: itemOutcome_def stamp_def plainYjs_def split: prod.splits)

text \<open>
  C31: A canvas whose items are stored under their own ids and whose orders list every id once is
  printed and parsed back unchanged: the same items and the same orders. \<open>JSON.parse\<close> is only
  assumed to read back the text that was just printed.
\<close>

theorem canvas_roundtrip:
  assumes "canonicalItems (nodes c) (nodeOrder c)" "canonicalItems (edges c) (edgeOrder c)"
    and "parse (serializeCanvas stringify (canvasJson c)) = Some (canvasData (canvasJson c))"
    and "trim (serializeCanvas stringify (canvasJson c)) \<noteq> []"
  shows "\<exists>c'. parseCanvas parse (serializeCanvas stringify (canvasJson c)) = Some c'
    \<and> nodeOrder c' = nodeOrder c \<and> edgeOrder c' = edgeOrder c
    \<and> (\<forall>i. jget (nodes c') i = jget (nodes c) i) \<and> (\<forall>i. jget (edges c') i = jget (edges c) i)"
proof -
  have strs: "concat (map (\<lambda>x. case x of JStr s \<Rightarrow> [s] | _ \<Rightarrow> []) (map JStr xs)) = xs" for xs
    by (induction xs) auto
  have data: "canvasData (canvasJson c) =
     JObj [(lit ''nodes'', JArr (orderedItems (nodeOrder c) (nodes c))),
           (lit ''edges'', JArr (orderedItems (edgeOrder c) (edges c)))]"
    using strs by (simp add: canvasData_def canvasJson_def objectField_def orderField_def)
  have "canvasOf (canvasData (canvasJson c)) = Some
     \<lparr>nodes = map (\<lambda>i. (i, the (jget (nodes c) i))) (nodeOrder c),
      edges = map (\<lambda>i. (i, the (jget (edges c) i))) (edgeOrder c), nodeOrder = nodeOrder c, edgeOrder = edgeOrder c\<rparr>"
    unfolding data using items_roundtrip [OF assms(1)] items_roundtrip [OF assms(2)]
    by (simp add: canvasOf_def arrayField_def)
  moreover have "parseCanvas parse (serializeCanvas stringify (canvasJson c)) = canvasOf (canvasData (canvasJson c))"
    using assms(3,4) by (simp add: parseCanvas_def)
  ultimately show ?thesis
    using assms(1,2) by (simp add: jget_listed canonicalItems_def)
qed

theorem canvas_roundtrip_witness:
  "\<exists>c'. parseCanvas (\<lambda>_. Some (canvasData (canvasJson \<lparr>nodes = [(lit ''n'', JObj [(lit ''id'', JStr (lit ''n''))])],
       edges = [], nodeOrder = [lit ''n''], edgeOrder = []\<rparr>)))
     (serializeCanvas (\<lambda>_. lit ''x'') (canvasJson \<lparr>nodes = [(lit ''n'', JObj [(lit ''id'', JStr (lit ''n''))])],
       edges = [], nodeOrder = [lit ''n''], edgeOrder = []\<rparr>)) = Some c' \<and> nodeOrder c' = [lit ''n'']"
proof -
  let ?c = "\<lparr>nodes = [(lit ''n'', JObj [(lit ''id'', JStr (lit ''n''))])], edges = [],
     nodeOrder = [lit ''n''], edgeOrder = []\<rparr>"
  have "trim (serializeCanvas (\<lambda>_. lit ''x'') (canvasJson ?c)) \<noteq> []"
    by (simp add: serializeCanvas_def trim_def isSpace_def lit_def of_char_def)
  then show ?thesis
    using canvas_roundtrip [of ?c "\<lambda>_. Some (canvasData (canvasJson ?c))" "\<lambda>_. lit ''x''"]
    by (auto simp: canonicalItems_def itemId_def)
qed

end
