(* ===== verification/Canvas_Operations.thy ===== *)
theory Canvas_Operations
  imports Canvas
begin

text \<open>
  Canvas edits as operations: \<^verbatim>\<open>src/structured/canvasOperations.ts\<close>. \<open>diffCanvas\<close> turns two
  snapshots into operations, \<open>applyCanvasOperations\<close> plays them on the shared document and
  afterwards makes both order arrays list every live item exactly once.

  The six children of the root that the operations work on are the record \<open>canvas_doc\<close>; they
  are opened (created where missing) before and stored in place after the loop.
\<close>

section \<open>Model\<close>

record field_patch =
  patchSet :: "(jstr \<times> json) list"
  patchRemove :: "jstr list"

datatype canvas_operation =
    NodeCreate json
  | NodePatch jstr field_patch
  | NodeDelete jstr
  | NodeRestore json
  | EdgeCreate json
  | EdgePatch jstr field_patch
  | EdgeDelete jstr
  | EdgeRestore json
  | NodeOrder "jstr list"
  | EdgeOrder "jstr list"

subsection \<open>Comparing snapshots\<close>

definition normalizeCanvas :: "(jstr \<Rightarrow> json option) \<Rightarrow> (json \<Rightarrow> jstr) \<Rightarrow> json option \<Rightarrow> structured_canvas option" where
  "normalizeCanvas parse stringify data =
     parseCanvas parse (stringify (case data of None \<Rightarrow> JObj [] | Some JNull \<Rightarrow> JObj [] | Some d \<Rightarrow> d))"

fun equalJson :: "json \<Rightarrow> json \<Rightarrow> bool" where
  "equalJson (JArr left) (JArr right) =
     (length left = length right \<and> (\<forall>(v, w) \<in> set (zip left right). equalJson v w))"
| "equalJson (JObj left) (JObj right) =
     (sort (jkeys left) = sort (jkeys right)
      \<and> (\<forall>(key, v) \<in> set left. case jget right key of None \<Rightarrow> False | Some w \<Rightarrow> equalJson v w))"
| "equalJson left right = (left = right)"

definition diffFields :: "(jstr \<times> json) list \<Rightarrow> (jstr \<times> json) list \<Rightarrow> field_patch" where
  "diffFields previous next =
     (let keys = filter (\<lambda>key. key \<noteq> lit ''id'') (sort (mergeKeys previous next []))
      in \<lparr>patchSet = concat (map (\<lambda>key.
              case jget next key of
                None \<Rightarrow> []
              | Some v \<Rightarrow>
                  (case jget previous key of
                     None \<Rightarrow> [(key, v)]
                   | Some w \<Rightarrow> if \<not> equalJson w v then [(key, v)] else [])) keys),
          patchRemove = filter (\<lambda>key. \<not> jhas next key) keys\<rparr>)"

definition diffItems ::
  "(jstr \<Rightarrow> canvas_operation) \<Rightarrow> (json \<Rightarrow> canvas_operation) \<Rightarrow> (jstr \<Rightarrow> field_patch \<Rightarrow> canvas_operation)
   \<Rightarrow> (jstr \<times> json) list \<Rightarrow> (jstr \<times> json) list \<Rightarrow> canvas_operation list" where
  "diffItems mkDelete mkCreate mkPatch previous next =
     map mkDelete (filter (\<lambda>i. \<not> jhas next i) (sort (jkeys previous))) @
     concat (map (\<lambda>i.
       let nextItem = the (jget next i)
       in if \<not> isRecord nextItem then []
          else case jget previous i of
                 Some (JObj previousItem) \<Rightarrow>
                   (let patch = diffFields previousItem (objFields nextItem)
                    in if patchSet patch \<noteq> [] \<or> patchRemove patch \<noteq> [] then [mkPatch i patch] else [])
               | _ \<Rightarrow> [mkCreate nextItem]) (sort (jkeys next)))"

definition diffCanvas :: "structured_canvas \<Rightarrow> structured_canvas \<Rightarrow> canvas_operation list" where
  "diffCanvas previous next =
     diffItems NodeDelete NodeCreate NodePatch (nodes previous) (nodes next)
     @ diffItems EdgeDelete EdgeCreate EdgePatch (edges previous) (edges next)
     @ (if nodeOrder previous = nodeOrder next then [] else [NodeOrder (nodeOrder next)])
     @ (if edgeOrder previous = edgeOrder next then [] else [EdgeOrder (edgeOrder next)])"

subsection \<open>Playing operations\<close>

type_synonym 't ymap = "(jstr \<times> 't ynode) list"

record 't canvas_doc =
  cNodes :: "'t ymap"
  cEdges :: "'t ymap"
  cDeletedNodes :: "'t ymap"
  cDeletedEdges :: "'t ymap"
  cNodeOrder :: "'t ynode list"
  cEdgeOrder :: "'t ynode list"

definition idNode :: "jstr \<Rightarrow> 't ynode" where
  "idNode i = YPlain (JStr i)"

definition patchItem :: "'t yjs \<Rightarrow> 't ymap \<Rightarrow> jstr \<Rightarrow> field_patch \<Rightarrow> 't ymap" where
  "patchItem Y items i patch =
     (case jget items i of
        Some (YMap item) \<Rightarrow>
          (let item = fold (\<lambda>key item. if key \<noteq> lit ''id'' then mapDelete Y item key else item)
                        (sort (patchRemove patch)) item;
               item = fst (reconcileEntries Y None item
                        (map (\<lambda>key. (key, the (jget (patchSet patch) key)))
                          (filter (\<lambda>key. key \<noteq> lit ''id'') (sort (jkeys (patchSet patch))))));
               item = (if jget item (lit ''id'') \<noteq> Some (idNode i) then mapSet Y item (lit ''id'') (idNode i) else item)
           in inPlace items i (YMap item))
      | _ \<Rightarrow> items)"

definition putItem :: "'t yjs \<Rightarrow> 't ymap \<Rightarrow> jstr \<Rightarrow> json \<Rightarrow> 't ymap" where
  "putItem Y items i v =
     (let items = (case jget items i of Some (YMap _) \<Rightarrow> items | _ \<Rightarrow> mapSet Y items i (YMap []))
      in patchItem Y items i \<lparr>patchSet = objFields v, patchRemove = []\<rparr>)"

definition restoreItem :: "'t yjs \<Rightarrow> json \<Rightarrow> 't ymap \<times> 't ymap \<Rightarrow> 't ymap \<times> 't ymap" where
  "restoreItem Y v st =
     (case st of (items, tombstones) \<Rightarrow>
        (case itemId v of
           None \<Rightarrow> st
         | Some i \<Rightarrow> if i = [] then st else (putItem Y items i v, mapDelete Y tombstones i)))"

definition createItem :: "'t yjs \<Rightarrow> nat \<Rightarrow> json \<Rightarrow> 't ymap \<times> 't ymap \<Rightarrow> 't ymap \<times> 't ymap" where
  "createItem Y clientID v st =
     (case st of (items, tombstones) \<Rightarrow>
        (case itemId v of
           None \<Rightarrow> st
         | Some i \<Rightarrow>
             if i = [] then st
             else if jget tombstones i \<noteq> None \<and> jget tombstones i \<noteq> Some (stamp clientID) then st
             else (putItem Y items i v,
                   if jget tombstones i \<noteq> None then mapDelete Y tombstones i else tombstones)))"

text \<open>An order array is rewritten from a list of values; ids are strings.\<close>

definition setOrder :: "'t yjs \<Rightarrow> 't ynode list \<Rightarrow> jstr list \<Rightarrow> 't ynode list" where
  "setOrder Y order ids = fst (reconcileArray Y None order (map JStr ids))"

definition deleteItem ::
  "'t yjs \<Rightarrow> nat \<Rightarrow> jstr \<Rightarrow> 't ymap \<times> 't ymap \<times> 't ynode list \<Rightarrow> 't ymap \<times> 't ymap \<times> 't ynode list" where
  "deleteItem Y clientID i st =
     (case st of (items, tombstones, order) \<Rightarrow>
        if \<not> jhas items i then st
        else (mapDelete Y items i, mapSet Y tombstones i (stamp clientID),
              fst (reconcileArray Y None order
                (map (toValue (textStr Y)) (filter (\<lambda>candidate. candidate \<noteq> idNode i) order)))))"

definition deleteConnectedEdges ::
  "'t yjs \<Rightarrow> nat \<Rightarrow> jstr \<Rightarrow> 't ymap \<times> 't ymap \<times> 't ynode list \<Rightarrow> 't ymap \<times> 't ymap \<times> 't ynode list" where
  "deleteConnectedEdges Y clientID nodeId st =
     fold (\<lambda>(edgeId, edge) st.
       case edge of
         YMap e \<Rightarrow>
           if jget e (lit ''fromNode'') = Some (idNode nodeId) \<or> jget e (lit ''toNode'') = Some (idNode nodeId)
           then deleteItem Y clientID edgeId st else st
       | _ \<Rightarrow> st) (fst st) st"

definition validOrder :: "jstr list \<Rightarrow> 't ymap \<Rightarrow> jstr list" where
  "validOrder order items =
     (let result = rev (remdups (rev (filter (\<lambda>i. jhas items i) order)))
      in result @ filter (\<lambda>i. i \<notin> set result) (sort (jkeys items)))"

definition plainStrings :: "'t ynode list \<Rightarrow> jstr list" where
  "plainStrings order = concat (map (\<lambda>c. case c of YPlain (JStr s) \<Rightarrow> [s] | _ \<Rightarrow> []) order)"

definition canonicalizeOrder :: "'t yjs \<Rightarrow> 't ynode list \<Rightarrow> 't ymap \<Rightarrow> 't ynode list \<times> bool" where
  "canonicalizeOrder Y order items =
     (let next = validOrder (plainStrings order) items
      in if order = map idNode next then (order, False) else (setOrder Y order next, True))"

definition canonicalizeCanvasOrders :: "'t yjs \<Rightarrow> 't canvas_doc \<Rightarrow> 't canvas_doc \<times> bool" where
  "canonicalizeCanvasOrders Y d =
     (case canonicalizeOrder Y (cNodeOrder d) (cNodes d) of (no, c1) \<Rightarrow>
        (case canonicalizeOrder Y (cEdgeOrder d) (cEdges d) of (eo, c2) \<Rightarrow>
           (d\<lparr>cNodeOrder := no, cEdgeOrder := eo\<rparr>, c2 \<or> c1)))"

fun applyOperation :: "'t yjs \<Rightarrow> nat \<Rightarrow> canvas_operation \<Rightarrow> 't canvas_doc \<Rightarrow> 't canvas_doc" where
  "applyOperation Y clientID (NodeCreate node) d =
     (case createItem Y clientID node (cNodes d, cDeletedNodes d) of
        (items, tombs) \<Rightarrow> d\<lparr>cNodes := items, cDeletedNodes := tombs\<rparr>)"
| "applyOperation Y clientID (NodePatch i patch) d = d\<lparr>cNodes := patchItem Y (cNodes d) i patch\<rparr>"
| "applyOperation Y clientID (NodeDelete i) d =
     (case deleteItem Y clientID i (cNodes d, cDeletedNodes d, cNodeOrder d) of (items, tombs, order) \<Rightarrow>
        (case deleteConnectedEdges Y clientID i (cEdges d, cDeletedEdges d, cEdgeOrder d) of (es, etombs, eorder) \<Rightarrow>
           d\<lparr>cNodes := items, cDeletedNodes := tombs, cNodeOrder := order,
             cEdges := es, cDeletedEdges := etombs, cEdgeOrder := eorder\<rparr>))"
| "applyOperation Y clientID (NodeRestore node) d =
     (case restoreItem Y node (cNodes d, cDeletedNodes d) of
        (items, tombs) \<Rightarrow> d\<lparr>cNodes := items, cDeletedNodes := tombs\<rparr>)"
| "applyOperation Y clientID (EdgeCreate edge) d =
     (case createItem Y clientID edge (cEdges d, cDeletedEdges d) of
        (items, tombs) \<Rightarrow> d\<lparr>cEdges := items, cDeletedEdges := tombs\<rparr>)"
| "applyOperation Y clientID (EdgePatch i patch) d = d\<lparr>cEdges := patchItem Y (cEdges d) i patch\<rparr>"
| "applyOperation Y clientID (EdgeDelete i) d =
     (case deleteItem Y clientID i (cEdges d, cDeletedEdges d, cEdgeOrder d) of
        (items, tombs, order) \<Rightarrow> d\<lparr>cEdges := items, cDeletedEdges := tombs, cEdgeOrder := order\<rparr>)"
| "applyOperation Y clientID (EdgeRestore edge) d =
     (case restoreItem Y edge (cEdges d, cDeletedEdges d) of
        (items, tombs) \<Rightarrow> d\<lparr>cEdges := items, cDeletedEdges := tombs\<rparr>)"
| "applyOperation Y clientID (NodeOrder order) d =
     d\<lparr>cNodeOrder := setOrder Y (cNodeOrder d) (validOrder order (cNodes d))\<rparr>"
| "applyOperation Y clientID (EdgeOrder order) d =
     d\<lparr>cEdgeOrder := setOrder Y (cEdgeOrder d) (validOrder order (cEdges d))\<rparr>"

text \<open>The body of \<open>apply\<close> on the opened document, and the whole function on the root map.\<close>

definition playOperations :: "'t yjs \<Rightarrow> nat \<Rightarrow> canvas_operation list \<Rightarrow> 't canvas_doc \<Rightarrow> 't canvas_doc" where
  "playOperations Y clientID operations d =
     fst (canonicalizeCanvasOrders Y (fold (applyOperation Y clientID) operations d))"

definition openCanvas :: "'t yjs \<Rightarrow> 't ymap \<Rightarrow> 't ymap" where
  "openCanvas Y m =
     ensureArray Y (ensureArray Y (ensureMap Y (ensureMap Y (ensureMap Y (ensureMap Y m (lit ''nodes''))
       (lit ''edges'')) (lit ''deletedNodeIds'')) (lit ''deletedEdgeIds'')) (lit ''nodeOrder'')) (lit ''edgeOrder'')"

definition readCanvas :: "'t ymap \<Rightarrow> 't canvas_doc" where
  "readCanvas m = \<lparr>cNodes = mapOf (jget m (lit ''nodes'')), cEdges = mapOf (jget m (lit ''edges'')),
     cDeletedNodes = mapOf (jget m (lit ''deletedNodeIds'')), cDeletedEdges = mapOf (jget m (lit ''deletedEdgeIds'')),
     cNodeOrder = arrayOf (jget m (lit ''nodeOrder'')), cEdgeOrder = arrayOf (jget m (lit ''edgeOrder''))\<rparr>"

definition storeCanvas :: "'t ymap \<Rightarrow> 't canvas_doc \<Rightarrow> 't ymap" where
  "storeCanvas m d =
     inPlace (inPlace (inPlace (inPlace (inPlace (inPlace m (lit ''nodes'') (YMap (cNodes d)))
       (lit ''edges'') (YMap (cEdges d))) (lit ''deletedNodeIds'') (YMap (cDeletedNodes d)))
       (lit ''deletedEdgeIds'') (YMap (cDeletedEdges d))) (lit ''nodeOrder'') (YArray (cNodeOrder d)))
       (lit ''edgeOrder'') (YArray (cEdgeOrder d))"

definition applyCanvasOperations :: "'t yjs \<Rightarrow> nat \<Rightarrow> canvas_operation list \<Rightarrow> 't ymap \<Rightarrow> 't ymap" where
  "applyCanvasOperations Y clientID operations m =
     (let m = openCanvas Y m in storeCanvas m (playOperations Y clientID operations (readCanvas m)))"

section \<open>Orders\<close>

context yjs_doc
begin

lemma reconcileFrom_strings:
  "i \<le> length a \<Longrightarrow>
   fst (reconcileFrom Y tk a i (map JStr ids)) = take i a @ map idNode ids @ drop (i + length ids) a"
proof (induction ids arbitrary: a i)
  case (Cons s ids)
  have v: "reconcileValue Y tk (arrGet a i) (JStr s) None = (idNode s, False, False)"
    by (simp add: shouldUseText_def idNode_def)
  obtain a1 w where a1: "settleIndex Y a i (idNode s) False = (a1, w)" by fastforce
  have eq: "a1 = take i a @ idNode s # drop (Suc i) a"
    by (rule settleIndex_eq [OF Cons.prems _ a1]) (simp add: idNode_def)
  then have "Suc i \<le> length a1" using Cons.prems by simp
  from Cons.IH [OF this] show ?case
    using v a1 Cons.prems by (simp add: eq split_beta drop_Cons' add.commute)
qed simp

lemma setOrder_eq: "setOrder Y order ids = map idNode ids"
proof -
  obtain a w where a: "reconcileFrom Y None order 0 (map JStr ids) = (a, w)" by fastforce
  have "a = map idNode ids @ drop (length ids) order"
    using reconcileFrom_strings [of 0 order None ids] a by simp
  then show ?thesis
    using a by (auto simp: setOrder_def reconcileArray_def cutSurplus_def arrDelete_at)
qed

lemma patchItem_keys: "map fst (patchItem Y items i patch) = map fst items"
  by (auto simp: patchItem_def Let_def split: option.splits ynode.splits)

lemma putItem_wf: "jwf items \<Longrightarrow> jwf (putItem Y items i v)"
  by (auto simp: putItem_def patchItem_keys mapSet_wf Let_def split: option.splits ynode.splits)

lemma createItem_wf: "jwf items \<Longrightarrow> jwf (fst (createItem Y cid v (items, tombs)))"
  by (auto simp: createItem_def putItem_wf split: option.splits)

lemma restoreItem_wf: "jwf items \<Longrightarrow> jwf (fst (restoreItem Y v (items, tombs)))"
  by (auto simp: restoreItem_def putItem_wf split: option.splits)

lemma deleteItem_wf: "jwf (fst st) \<Longrightarrow> jwf (fst (deleteItem Y cid i st))"
  by (cases st) (auto simp: deleteItem_def mapDelete_wf)

lemma deleteConnectedEdges_wf: "jwf (fst st) \<Longrightarrow> jwf (fst (deleteConnectedEdges Y cid i st))"
proof -
  have "jwf (fst (fold (\<lambda>(edgeId, edge) st. case edge of YMap e \<Rightarrow>
           if jget e (lit ''fromNode'') = Some (idNode i) \<or> jget e (lit ''toNode'') = Some (idNode i)
           then deleteItem Y cid edgeId st else st | _ \<Rightarrow> st) es st))" if "jwf (fst st)" for es st
    using that
  proof (induction es arbitrary: st)
    case (Cons e es)
    show ?case
      using Cons.IH Cons.prems deleteItem_wf by (cases e; cases "snd e") auto
  qed simp
  then show "jwf (fst st) \<Longrightarrow> ?thesis" unfolding deleteConnectedEdges_def by blast
qed

lemma applyOperation_wf:
  assumes "jwf (cNodes d)" "jwf (cEdges d)"
  shows "jwf (cNodes (applyOperation Y cid op d)) \<and> jwf (cEdges (applyOperation Y cid op d))"
  using assms createItem_wf restoreItem_wf deleteItem_wf [of "(_, _)"] deleteConnectedEdges_wf [of "(_, _)"]
  by (cases op) (auto simp: patchItem_keys split_beta)

end

lemma validOrder_canonical:
  assumes "jwf items"
  shows "distinct (validOrder order items) \<and> set (validOrder order items) = fst ` set items"
proof -
  let ?r = "rev (remdups (rev (filter (\<lambda>i. jhas items i) order)))"
  have "set ?r \<subseteq> fst ` set items" unfolding jhas_iff by auto
  then show ?thesis using assms by (auto simp: validOrder_def Let_def)
qed

definition orderCanonical :: "'t ynode list \<Rightarrow> 't ymap \<Rightarrow> bool" where
  "orderCanonical order items \<longleftrightarrow>
     (\<exists>ids. order = map idNode ids \<and> distinct ids \<and> set ids = fst ` set items)"

context yjs_doc
begin

lemma canonicalizeOrder_canonical:
  assumes "jwf items"
  shows "orderCanonical (fst (canonicalizeOrder Y order items)) items"
  using validOrder_canonical [OF assms, of "plainStrings order"]
  by (auto simp: canonicalizeOrder_def orderCanonical_def setOrder_eq Let_def)

end

section \<open>Patches\<close>

lemma equalJson_jsonEqual: "equalJson v w \<Longrightarrow> jsonEqual v w"
proof (induction v w rule: equalJson.induct)
  case (1 left right)
  then have "\<forall>(v, w) \<in> set (zip left right). jsonEqual v w" "length left = length right" by auto
  then show ?case by (simp add: list_all2_iff)
next
  case (2 left right)
  have "sort (jkeys left) = sort (jkeys right)" using 2(2) by (simp only: equalJson.simps)
  then have "length (sort (jkeys left)) = length (sort (jkeys right))" by (rule arg_cong)
  then have "length left = length right" by (simp only: length_sort length_map)
  then show ?case using 2 by (auto simp: jsonEqual.simps(2) split: option.splits)
qed auto

lemma diffFields_set:
  "jget (patchSet (diffFields previous next)) key =
     (if key = lit ''id'' then None
      else case jget next key of
             None \<Rightarrow> None
           | Some v \<Rightarrow> (case jget previous key of None \<Rightarrow> Some v | Some w \<Rightarrow> if equalJson w v then None else Some v))"
proof -
  let ?g = "\<lambda>key. case jget next key of None \<Rightarrow> None
     | Some v \<Rightarrow> (case jget previous key of None \<Rightarrow> Some v | Some w \<Rightarrow> if equalJson w v then None else Some v)"
  let ?ks = "filter (\<lambda>key. key \<noteq> lit ''id'') (sort (mergeKeys previous next []))"
  have "patchSet (diffFields previous next) = concat (map (\<lambda>k. case ?g k of None \<Rightarrow> [] | Some x \<Rightarrow> [(k, x)]) ?ks)"
  proof -
    have "(\<lambda>k. case jget next k of None \<Rightarrow> [] | Some v \<Rightarrow> (case jget previous k of None \<Rightarrow> [(k, v)]
        | Some w \<Rightarrow> if \<not> equalJson w v then [(k, v)] else []))
      = (\<lambda>k. case ?g k of None \<Rightarrow> [] | Some x \<Rightarrow> [(k, x)])"
    proof
      show "(case jget next k of None \<Rightarrow> [] | Some v \<Rightarrow> (case jget previous k of None \<Rightarrow> [(k, v)]
          | Some w \<Rightarrow> if \<not> equalJson w v then [(k, v)] else []))
        = (case ?g k of None \<Rightarrow> [] | Some x \<Rightarrow> [(k, x)])" for k
        by (cases "jget next k"; cases "jget previous k") simp_all
    qed
    then show ?thesis by (simp add: diffFields_def Let_def)
  qed
  then have "jget (patchSet (diffFields previous next)) key = (if key \<in> set ?ks then ?g key else None)"
    by (simp only:) (rule map_of_kept, simp add: distinct_mergeKeys)
  then show ?thesis by (cases "jget next key"; cases "jget previous key") (simp_all add: set_mergeKeys)
qed

lemma diffFields_wf: "jwf (patchSet (diffFields previous next))"
proof -
  have "map fst (concat (map (\<lambda>k. case f k of None \<Rightarrow> [] | Some v \<Rightarrow> (case g k of None \<Rightarrow> [(k, v)]
        | Some w \<Rightarrow> if \<not> equalJson w v then [(k, v)] else []) ) ks))
      = filter (\<lambda>k. case f k of None \<Rightarrow> False | Some v \<Rightarrow> (case g k of None \<Rightarrow> True | Some w \<Rightarrow> \<not> equalJson w v)) ks"
    for f :: "jstr \<Rightarrow> json option" and g ks
    by (induction ks) (auto split: option.splits)
  then show ?thesis by (simp add: diffFields_def Let_def distinct_mergeKeys)
qed

lemma diffFields_remove:
  "set (patchRemove (diffFields previous next)) = {key. key \<noteq> lit ''id'' \<and> jhas previous key \<and> \<not> jhas next key}"
  by (auto simp: diffFields_def Let_def set_mergeKeys)

lemma jget_sortedEntries:
  fixes kvs :: "(jstr \<times> json) list"
  assumes "jwf kvs"
  shows "jget (map (\<lambda>k. (k, the (jget kvs k))) (filter P (sort (jkeys kvs)))) k = (if P k then jget kvs k else None)"
proof -
  have "jget (map (\<lambda>k. (k, f k)) ks) k = (if k \<in> set ks then Some (f k) else None)" for f :: "jstr \<Rightarrow> json" and ks
    by (induction ks) auto
  then show ?thesis using jhas_iff [of kvs k] by (cases "jget kvs k") auto
qed

context yjs_doc
begin

lemma removeFields_get:
  assumes "nodeOk (textStr Y) (YMap item)"
  shows "nodeOk (textStr Y) (YMap (fold (\<lambda>key item. if key \<noteq> x then mapDelete Y item key else item) ks item))
    \<and> jget (fold (\<lambda>key item. if key \<noteq> x then mapDelete Y item key else item) ks item) k
        = (if k \<in> set ks \<and> k \<noteq> x then None else jget item k)"
  using assms
proof (induction ks arbitrary: item)
  case (Cons key ks)
  have "nodeOk (textStr Y) (YMap (if key \<noteq> x then mapDelete Y item key else item))"
    using Cons.prems unfolding nodeOk_YMap by (auto simp: mapDelete_get mapDelete_wf)
  from Cons.IH [OF this] show ?case using Cons.prems by (auto simp: mapDelete_get)
qed simp

end

lemma jsonPlain_lookup: "jsonPlain (JObj kvs) \<Longrightarrow> jget kvs k = Some v \<Longrightarrow> jsonPlain v"
  using map_of_SomeD [of kvs k v] by auto

lemma wf_by_lookup:
  assumes "jwf kvs" "\<And>k v. jget kvs k = Some v \<Longrightarrow> jsonWf v \<and> jsonPlain v"
  shows "jsonWf (JObj kvs) \<and> jsonPlain (JObj kvs)"
proof -
  have "jsonWf v \<and> jsonPlain v" if "(k, v) \<in> set kvs" for k v
    using assms(2) map_of_is_SomeI [OF assms(1) that] by blast
  then show ?thesis using assms(1) by auto
qed

lemma toValue_fields:
  "jwf m \<Longrightarrow> jwf kvs \<Longrightarrow> jsonEqual (toValue str (YMap m)) (JObj kvs)
     \<longleftrightarrow> (\<forall>k. rel_option jsonEqual (map_option (toValue str) (jget m k)) (jget kvs k))"
proof -
  assume wf: "jwf m" "jwf kvs"
  have keys: "map fst (map (\<lambda>(k, child). (k, toValue str child)) m) = map fst m" by (induction m) auto
  have get: "jget (map (\<lambda>(k, child). (k, toValue str child)) m) k = map_option (toValue str) (jget m k)" for k
    by (induction m) auto
  have "jwf (map (\<lambda>(k, child). (k, toValue str child)) m)" using wf unfolding keys by simp
  then show ?thesis using jsonEqual_JObj wf(2) get by simp
qed

section \<open>Properties\<close>

text \<open>
  C29: Whatever operations are played, in whatever order and on whatever orders the document had
  (duplicates, dead ids, foreign values), both order arrays end up listing every live item
  exactly once and nothing else.
\<close>

theorem playOperations_canonical:
  assumes "yjs_doc Y" "jwf (cNodes d)" "jwf (cEdges d)"
  shows "orderCanonical (cNodeOrder (playOperations Y cid ops d)) (cNodes (playOperations Y cid ops d))
    \<and> orderCanonical (cEdgeOrder (playOperations Y cid ops d)) (cEdges (playOperations Y cid ops d))"
proof -
  have "jwf (cNodes (fold (applyOperation Y cid) ops d)) \<and> jwf (cEdges (fold (applyOperation Y cid) ops d))"
    using assms(2,3)
  proof (induction ops arbitrary: d)
    case (Cons op ops)
    then show ?case using yjs_doc.applyOperation_wf [OF assms(1), of d cid op] by simp
  qed simp
  then show ?thesis
    using yjs_doc.canonicalizeOrder_canonical [OF assms(1)]
    by (simp add: playOperations_def canonicalizeCanvasOrders_def split_beta)
qed

theorem playOperations_canonical_witness:
  "orderCanonical (cNodeOrder (playOperations plainYjs 7 [NodeCreate (JObj [(lit ''id'', JStr (lit ''n''))])]
      \<lparr>cNodes = [], cEdges = [], cDeletedNodes = [], cDeletedEdges = [], cNodeOrder = [YPlain JNull, idNode (lit ''x'')],
       cEdgeOrder = []\<rparr>))
     (cNodes (playOperations plainYjs 7 [NodeCreate (JObj [(lit ''id'', JStr (lit ''n''))])]
      \<lparr>cNodes = [], cEdges = [], cDeletedNodes = [], cDeletedEdges = [], cNodeOrder = [YPlain JNull, idNode (lit ''x'')],
       cEdgeOrder = []\<rparr>))"
  by (rule playOperations_canonical [OF plain.yjs_doc_axioms, THEN conjunct1]) simp_all



text \<open>
  The operations of a diff are played in an order that loses an edge: when a node is deleted
  and one of its edges is reconnected to another node between two snapshots, the edge is deleted
  together with the node before its patch arrives, although the new snapshot has it.
\<close>

theorem reconnected_edge_is_lost:
  "let node = (\<lambda>i. (lit i, JObj [(lit ''id'', JStr (lit i))]));
       edge = (\<lambda>i. JObj [(lit ''id'', JStr (lit ''e'')), (lit ''fromNode'', JStr (lit i))]);
       previous = \<lparr>nodes = [node ''a'', node ''b''], edges = [(lit ''e'', edge ''a'')],
                   nodeOrder = [lit ''a'', lit ''b''], edgeOrder = [lit ''e'']\<rparr>;
       next = \<lparr>nodes = [node ''b''], edges = [(lit ''e'', edge ''b'')],
               nodeOrder = [lit ''b''], edgeOrder = [lit ''e'']\<rparr>;
       d = \<lparr>cNodes = [(lit ''a'', YMap [(lit ''id'', idNode (lit ''a''))]), (lit ''b'', YMap [(lit ''id'', idNode (lit ''b''))])],
            cEdges = [(lit ''e'', YMap [(lit ''id'', idNode (lit ''e'')), (lit ''fromNode'', idNode (lit ''a''))])],
            cDeletedNodes = [], cDeletedEdges = [],
            cNodeOrder = [idNode (lit ''a''), idNode (lit ''b'')], cEdgeOrder = [idNode (lit ''e'')]\<rparr>
   in jget (edges next) (lit ''e'') = Some (edge ''b'')
      \<and> cEdges (playOperations plainYjs 7 (diffCanvas previous next) d) = []"
proof -
  let ?node = "\<lambda>i. (lit i, JObj [(lit ''id'', JStr (lit i))])"
  let ?edge = "\<lambda>i. JObj [(lit ''id'', JStr (lit ''e'')), (lit ''fromNode'', JStr (lit i))]"
  have "diffItems NodeDelete NodeCreate NodePatch [?node ''a'', ?node ''b''] [?node ''b''] = [NodeDelete (lit ''a'')]"
    by (simp add: diffItems_def diffFields_def mergeKeys_def Let_def)
  moreover have "diffItems EdgeDelete EdgeCreate EdgePatch [(lit ''e'', ?edge ''a'')] [(lit ''e'', ?edge ''b'')]
      = [EdgePatch (lit ''e'') \<lparr>patchSet = [(lit ''fromNode'', JStr (lit ''b''))], patchRemove = []\<rparr>]"
    by (simp add: diffItems_def diffFields_def mergeKeys_def Let_def)
  moreover have "cEdges (playOperations plainYjs 7 ops d) = cEdges (fold (applyOperation plainYjs 7) ops d)" for ops d
    by (simp add: playOperations_def canonicalizeCanvasOrders_def split_beta)
  ultimately show ?thesis
    by (simp add: diffCanvas_def deleteItem_def deleteConnectedEdges_def patchItem_def plainYjs_def split_beta)
qed

end
