(* ===== verification/Local_Sync_State.thy ===== *)
theory Local_Sync_State
  imports Js_Prelude
begin

text \<open>
  The device-local record of what was reconciled on disk: \<^verbatim>\<open>src/localSyncState.ts\<close>.

  The paths are kept in a \<open>Y.Map\<close> of plain values. Its operations are the argument
  \<open>('m, 'v) ydict\<close>, with the contract \<open>ymap\<close> (an extension of \<open>dictionary\<close>); an association list
  is the interpretation \<open>ym\<close>. Of the map \<open>meta\<close> only the value \<open>indexEpoch\<close> is used.
  A field that may be undefined, null or a string is an \<open>option option\<close> (\<open>None\<close> undefined,
  \<open>Some None\<close> null). Persistence in IndexedDB is not modelled.
\<close>

section \<open>Model\<close>

record ('m, 'v) ydict =
  dGet :: "'m \<Rightarrow> jstr \<Rightarrow> 'v option"
  dPut :: "'m \<Rightarrow> jstr \<Rightarrow> 'v \<Rightarrow> 'm"
  dRemove :: "'m \<Rightarrow> jstr \<Rightarrow> 'm"
  dEntries :: "'m \<Rightarrow> (jstr \<times> 'v) list"
  dEmpty :: 'm

datatype materialized_kind = KText | KCanvas | KBase | KBinary | KConfig

record local_path_state =
  kind :: materialized_kind
  identity :: "jstr option option"
  fingerprint :: "jstr option"
  candidate :: "bool option"
  candidateFingerprint :: "jstr option"
  diskFingerprintF :: "jstr option"
  replacedIdentity :: "jstr option option"
  publishedFrom :: "jstr option option"

datatype stored = Legacy materialized_kind | Recorded local_path_state

type_synonym 'm paths_map = "('m, stored) ydict"

record 'm sync_state =
  paths :: 'm
  indexEpoch :: "rat option"

definition onlyKind :: "materialized_kind \<Rightarrow> local_path_state" where
  "onlyKind k = \<lparr>kind = k, identity = None, fingerprint = None, candidate = None, candidateFingerprint = None,
     diskFingerprintF = None, replacedIdentity = None, publishedFrom = None\<rparr>"

text \<open>A value that JavaScript takes for true: \<open>s ? {f: s} : {}\<close>.\<close>

definition truthy :: "jstr option \<Rightarrow> jstr option" where
  "truthy s = (if s = Some [] then None else s)"

fun upgraded :: "stored \<Rightarrow> local_path_state" where
  "upgraded (Legacy k) = onlyKind k"
| "upgraded (Recorded s) = s"

definition getPath :: "'m paths_map \<Rightarrow> 'm sync_state \<Rightarrow> jstr \<Rightarrow> local_path_state option" where
  "getPath D st path = map_option upgraded (dGet D (paths st) path)"

definition setPath :: "'m paths_map \<Rightarrow> 'm sync_state \<Rightarrow> jstr \<Rightarrow> local_path_state \<Rightarrow> 'm sync_state" where
  "setPath D st path s = st\<lparr>paths := dPut D (paths st) path (Recorded s)\<rparr>"

definition hasPath :: "'m paths_map \<Rightarrow> 'm sync_state \<Rightarrow> jstr \<Rightarrow> bool" where
  "hasPath D st path \<longleftrightarrow> dGet D (paths st) path \<noteq> None"

definition entries :: "'m paths_map \<Rightarrow> 'm sync_state \<Rightarrow> (jstr \<times> local_path_state) list" where
  "entries D st = map (\<lambda>(path, v). (path, upgraded v)) (dEntries D (paths st))"

definition carriedDiskFingerprint :: "local_path_state option \<Rightarrow> jstr option \<Rightarrow> jstr option" where
  "carriedDiskFingerprint current ident =
     (case current of
        None \<Rightarrow> None
      | Some c \<Rightarrow> if truthy (diskFingerprintF c) \<noteq> None \<and> identity c = Some ident then diskFingerprintF c else None)"

definition carriedPublishedFrom :: "local_path_state option \<Rightarrow> jstr option \<Rightarrow> jstr option option" where
  "carriedPublishedFrom current ident =
     (case current of
        None \<Rightarrow> None
      | Some c \<Rightarrow> if publishedFrom c \<noteq> None \<and> identity c = Some ident then publishedFrom c else None)"

definition adoptIndexEpoch :: "'m paths_map \<Rightarrow> rat \<Rightarrow> 'm sync_state \<Rightarrow> 'm sync_state \<times> bool" where
  "adoptIndexEpoch D epoch st =
     (let rewound = (case indexEpoch st of None \<Rightarrow> False | Some recorded \<Rightarrow> recorded > epoch)
      in (st\<lparr>paths := (if rewound then dEmpty D else paths st), indexEpoch := Some epoch\<rparr>, rewound))"

definition mark :: "'m paths_map \<Rightarrow> jstr \<Rightarrow> materialized_kind \<Rightarrow> 'm sync_state \<Rightarrow> 'm sync_state" where
  "mark D path k st =
     (case getPath D st path of
        None \<Rightarrow> setPath D st path (onlyKind k)
      | Some c \<Rightarrow> if kind c = k then st else setPath D st path (c\<lparr>kind := k\<rparr>))"

definition beginCandidate ::
  "'m paths_map \<Rightarrow> jstr \<Rightarrow> materialized_kind \<Rightarrow> jstr option \<Rightarrow> jstr option \<Rightarrow> 'm sync_state \<Rightarrow> 'm sync_state" where
  "beginCandidate D path k ident candFp st =
     (let current = getPath D st path;
          pending = (case candFp of Some f \<Rightarrow> Some f
                     | None \<Rightarrow> (case current of None \<Rightarrow> None | Some c \<Rightarrow> candidateFingerprint c))
      in if (case current of None \<Rightarrow> False
             | Some c \<Rightarrow> kind c = k \<and> identity c = Some ident \<and> candidate c = Some True \<and> candidateFingerprint c = pending)
         then st
         else setPath D st path
           \<lparr>kind = k, identity = Some ident,
            fingerprint = (case current of None \<Rightarrow> None | Some c \<Rightarrow> truthy (fingerprint c)),
            candidate = Some True, candidateFingerprint = truthy pending,
            diskFingerprintF = carriedDiskFingerprint current ident,
            replacedIdentity = None, publishedFrom = None\<rparr>)"

definition migrateLegacyIdentity ::
  "'m paths_map \<Rightarrow> jstr \<Rightarrow> materialized_kind \<Rightarrow> jstr \<Rightarrow> 'm sync_state \<Rightarrow> 'm sync_state" where
  "migrateLegacyIdentity D path k ident st =
     (case getPath D st path of
        None \<Rightarrow> st
      | Some c \<Rightarrow> if identity c \<noteq> None then st
                  else setPath D st path (c\<lparr>kind := k, identity := Some (Some ident), candidate := Some False\<rparr>))"

definition commit :: "'m paths_map \<Rightarrow> jstr \<Rightarrow> materialized_kind \<Rightarrow> jstr \<Rightarrow> 'm sync_state \<Rightarrow> 'm sync_state" where
  "commit D path k ident st =
     (let current = getPath D st path
      in setPath D st path
        \<lparr>kind = k, identity = Some (Some ident),
         fingerprint = (case current of None \<Rightarrow> None
                        | Some c \<Rightarrow> if identity c = Some (Some ident) then truthy (fingerprint c) else None),
         candidate = (case current of None \<Rightarrow> Some False
                      | Some c \<Rightarrow> (case candidate c of None \<Rightarrow> Some False | Some b \<Rightarrow> Some b)),
         candidateFingerprint = (case current of None \<Rightarrow> None | Some c \<Rightarrow> truthy (candidateFingerprint c)),
         diskFingerprintF = carriedDiskFingerprint current (Some ident),
         replacedIdentity = None, publishedFrom = None\<rparr>)"

definition markSynced ::
  "'m paths_map \<Rightarrow> jstr \<Rightarrow> materialized_kind \<Rightarrow> jstr \<Rightarrow> jstr \<Rightarrow> bool \<Rightarrow> 'm sync_state \<Rightarrow> 'm sync_state" where
  "markSynced D path k ident fp reconciled st =
     (let current = getPath D st path;
          cand = (case current of None \<Rightarrow> False
                  | Some c \<Rightarrow> candidate c = Some True \<and> \<not> reconciled \<and> candidateFingerprint c \<noteq> Some fp);
          next = \<lparr>kind = k, identity = Some (Some ident), fingerprint = Some fp, candidate = Some cand,
                  candidateFingerprint = (if cand then (case current of None \<Rightarrow> None | Some c \<Rightarrow> truthy (candidateFingerprint c))
                                          else None),
                  diskFingerprintF = carriedDiskFingerprint current (Some ident),
                  replacedIdentity = None, publishedFrom = carriedPublishedFrom current (Some ident)\<rparr>
      in if current = Some next then st else setPath D st path next)"

definition markPublished ::
  "'m paths_map \<Rightarrow> jstr \<Rightarrow> materialized_kind \<Rightarrow> jstr \<Rightarrow> jstr option \<Rightarrow> 'm sync_state \<Rightarrow> 'm sync_state" where
  "markPublished D path k ident replaced st =
     setPath D st path
       \<lparr>kind = k, identity = Some (Some ident), fingerprint = Some ident, candidate = Some False,
        candidateFingerprint = None, diskFingerprintF = carriedDiskFingerprint (getPath D st path) (Some ident),
        replacedIdentity = Some replaced, publishedFrom = Some replaced\<rparr>"

definition markDisk ::
  "'m paths_map \<Rightarrow> jstr \<Rightarrow> materialized_kind \<Rightarrow> jstr \<Rightarrow> jstr \<Rightarrow> 'm sync_state \<Rightarrow> 'm sync_state" where
  "markDisk D path k ident fp st =
     (case getPath D st path of
        None \<Rightarrow> st
      | Some c \<Rightarrow> if identity c \<noteq> Some (Some ident) \<or> diskFingerprintF c = Some fp then st
                  else setPath D st path (c\<lparr>kind := k, diskFingerprintF := Some fp\<rparr>))"

definition diskFingerprint :: "'m paths_map \<Rightarrow> 'm sync_state \<Rightarrow> jstr \<Rightarrow> jstr \<Rightarrow> jstr option" where
  "diskFingerprint D st path ident =
     (case getPath D st path of
        None \<Rightarrow> None
      | Some c \<Rightarrow> if identity c = Some (Some ident) then diskFingerprintF c else None)"

definition candidateIdentity :: "'m paths_map \<Rightarrow> 'm sync_state \<Rightarrow> jstr \<Rightarrow> materialized_kind \<Rightarrow> jstr option" where
  "candidateIdentity D st path k =
     (case getPath D st path of
        None \<Rightarrow> None
      | Some c \<Rightarrow> if kind c \<noteq> k \<or> candidate c \<noteq> Some True then None
                  else (case identity c of Some i \<Rightarrow> truthy i | None \<Rightarrow> None))"

definition hasIdentityConflict :: "'m paths_map \<Rightarrow> 'm sync_state \<Rightarrow> jstr \<Rightarrow> jstr \<Rightarrow> bool" where
  "hasIdentityConflict D st path ident \<longleftrightarrow>
     (case getPath D st path of None \<Rightarrow> False
      | Some c \<Rightarrow> identity c \<noteq> None \<and> identity c \<noteq> Some (Some ident))"

definition acknowledgedFingerprint :: "'m paths_map \<Rightarrow> 'm sync_state \<Rightarrow> jstr \<Rightarrow> jstr \<Rightarrow> jstr option" where
  "acknowledgedFingerprint D st path ident =
     (case getPath D st path of
        None \<Rightarrow> None
      | Some c \<Rightarrow> if identity c \<noteq> Some (Some ident) \<or> candidate c = Some True then None else fingerprint c)"

definition removePath :: "'m paths_map \<Rightarrow> jstr \<Rightarrow> 'm sync_state \<Rightarrow> 'm sync_state" where
  "removePath D path st = st\<lparr>paths := dRemove D (paths st) path\<rparr>"

definition movePath :: "'m paths_map \<Rightarrow> jstr \<Rightarrow> jstr \<Rightarrow> materialized_kind \<Rightarrow> 'm sync_state \<Rightarrow> 'm sync_state" where
  "movePath D from target k st =
     (let current = getPath D st from
      in setPath D (removePath D from st) target
           (case current of
              Some c \<Rightarrow> c\<lparr>kind := k\<rparr>
            | None \<Rightarrow> (onlyKind k)\<lparr>identity := Some None, candidate := Some True\<rparr>))"

section \<open>Sequences of operations\<close>

datatype state_op =
    OAdopt rat
  | OMark jstr materialized_kind
  | OBegin jstr materialized_kind "jstr option" "jstr option"
  | OMigrate jstr materialized_kind jstr
  | OCommit jstr materialized_kind jstr
  | OSynced jstr materialized_kind jstr jstr bool
  | OPublished jstr materialized_kind jstr "jstr option"
  | ODisk jstr materialized_kind jstr jstr
  | ORemove jstr
  | OMove jstr jstr materialized_kind

fun runOp :: "'m paths_map \<Rightarrow> state_op \<Rightarrow> 'm sync_state \<Rightarrow> 'm sync_state" where
  "runOp D (OAdopt e) st = fst (adoptIndexEpoch D e st)"
| "runOp D (OMark p k) st = mark D p k st"
| "runOp D (OBegin p k i f) st = beginCandidate D p k i f st"
| "runOp D (OMigrate p k i) st = migrateLegacyIdentity D p k i st"
| "runOp D (OCommit p k i) st = commit D p k i st"
| "runOp D (OSynced p k i f r) st = markSynced D p k i f r st"
| "runOp D (OPublished p k i r) st = markPublished D p k i r st"
| "runOp D (ODisk p k i f) st = markDisk D p k i f st"
| "runOp D (ORemove p) st = removePath D p st"
| "runOp D (OMove p q k) st = movePath D p q k st"

section \<open>The contract of the map\<close>

locale ymap = dictionary "dGet D" "dPut D" "dRemove D" for D :: "('m, 'v) ydict" +
  assumes get_empty: "dGet D (dEmpty D) k = None"
    and entries_get: "(k, v) \<in> set (dEntries D m) \<longleftrightarrow> dGet D m k = Some v"

definition alistDict :: "((jstr, 'v) jmap, 'v) ydict" where
  "alistDict = \<lparr>dGet = jget, dPut = jset, dRemove = jdel,
     dEntries = AList.clearjunk, dEmpty = []\<rparr>"

lemma clearjunk_entries: "(k, v) \<in> set (AList.clearjunk m) \<longleftrightarrow> jget m k = Some v"
  using map_of_eq_Some_iff [OF distinct_clearjunk, of m k v] by (simp add: map_of_clearjunk)

interpretation ym: ymap "alistDict :: ((jstr, stored) jmap, stored) ydict"
  by unfold_locales (simp_all add: alistDict_def clearjunk_entries)

context ymap
begin

lemma entries_spec:
  "(path, s) \<in> set (map (\<lambda>(path, v). (path, f v)) (dEntries D m)) \<longleftrightarrow> (\<exists>v. dGet D m path = Some v \<and> s = f v)"
  by (auto simp: entries_get image_iff split: prod.splits)

end

text \<open>
  What a record may claim, given the operations of its history: a fingerprint of a record that is
  no candidate was acknowledged, a disk fingerprint was seen on disk, and a published version was
  published, each for the record's own identity.
\<close>

definition recOk :: "state_op set \<Rightarrow> local_path_state \<Rightarrow> bool" where
  "recOk H c \<longleftrightarrow>
     (identity c = None \<longrightarrow> fingerprint c = None \<and> diskFingerprintF c = None \<and> publishedFrom c = None)
     \<and> (\<forall>i f. identity c = Some (Some i) \<longrightarrow> candidate c \<noteq> Some True \<longrightarrow> fingerprint c = Some f \<longrightarrow>
          (\<exists>p k r. OSynced p k i f r \<in> H) \<or> (f = i \<and> (\<exists>p k r. OPublished p k i r \<in> H)))
     \<and> (\<forall>i d. identity c = Some (Some i) \<longrightarrow> diskFingerprintF c = Some d \<longrightarrow> (\<exists>p k. ODisk p k i d \<in> H))
     \<and> (\<forall>i x. identity c = Some (Some i) \<longrightarrow> publishedFrom c = Some x \<longrightarrow> (\<exists>p k. OPublished p k i x \<in> H))"

lemma recOkI:
  assumes "identity c = Some (Some i)"
    and "\<And>f. candidate c \<noteq> Some True \<Longrightarrow> fingerprint c = Some f \<Longrightarrow>
          (\<exists>p k r. OSynced p k i f r \<in> H) \<or> (f = i \<and> (\<exists>p k r. OPublished p k i r \<in> H))"
    and "\<And>d. diskFingerprintF c = Some d \<Longrightarrow> \<exists>p k. ODisk p k i d \<in> H"
    and "\<And>x. publishedFrom c = Some x \<Longrightarrow> \<exists>p k. OPublished p k i x \<in> H"
  shows "recOk H c"
  using assms unfolding recOk_def by auto

lemma recOk_fingerprint:
  "recOk H c \<Longrightarrow> identity c = Some (Some i) \<Longrightarrow> candidate c \<noteq> Some True \<Longrightarrow> fingerprint c = Some f \<Longrightarrow>
   (\<exists>p k r. OSynced p k i f r \<in> H) \<or> (f = i \<and> (\<exists>p k r. OPublished p k i r \<in> H))"
  by (simp add: recOk_def)

lemma recOk_mono: "recOk H c \<Longrightarrow> H \<subseteq> H' \<Longrightarrow> recOk H' c"
  unfolding recOk_def by blast

lemma recOk_kind: "recOk H c \<Longrightarrow> recOk H (c\<lparr>kind := k\<rparr>)"
  by (simp add: recOk_def)

lemma recOk_onlyKind: "recOk H (onlyKind k)" "recOk H ((onlyKind k)\<lparr>identity := Some None, candidate := Some True\<rparr>)"
  by (simp_all add: recOk_def onlyKind_def)

lemma truthy_Some: "truthy s = Some x \<Longrightarrow> s = Some x"
  by (simp add: truthy_def split: if_splits)

lemma carriedDisk_ok:
  "(\<And>c. current = Some c \<Longrightarrow> recOk H c) \<Longrightarrow> carriedDiskFingerprint current (Some i) = Some d \<Longrightarrow> \<exists>p k. ODisk p k i d \<in> H"
  by (cases current) (auto simp: carriedDiskFingerprint_def recOk_def split: if_splits)

lemma carriedPublished_ok:
  "(\<And>c. current = Some c \<Longrightarrow> recOk H c) \<Longrightarrow> carriedPublishedFrom current (Some i) = Some x \<Longrightarrow> \<exists>p k. OPublished p k i x \<in> H"
  by (cases current) (auto simp: carriedPublishedFrom_def recOk_def split: if_splits)

definition stOk :: "'m paths_map \<Rightarrow> state_op set \<Rightarrow> 'm sync_state \<Rightarrow> bool" where
  "stOk D H st \<longleftrightarrow> (\<forall>p c. getPath D st p = Some c \<longrightarrow> recOk H c)"

lemma stOkD: "stOk D H st \<Longrightarrow> getPath D st p = Some c \<Longrightarrow> recOk H c"
  by (simp add: stOk_def)

lemma stOk_mono: "stOk D H st \<Longrightarrow> H \<subseteq> H' \<Longrightarrow> stOk D H' st"
  unfolding stOk_def using recOk_mono by blast

lemma getPath_setPath:
  "ymap D \<Longrightarrow> getPath D (setPath D st p c) q = (if q = p then Some c else getPath D st q)"
  using dictionary.get_put [OF ymap.axioms(1)] by (fastforce simp: getPath_def setPath_def)

lemma getPath_removePath:
  "ymap D \<Longrightarrow> getPath D (removePath D p st) q = (if q = p then None else getPath D st q)"
  using dictionary.get_remove [OF ymap.axioms(1)] by (fastforce simp: getPath_def removePath_def)

lemma stOk_set: "ymap D \<Longrightarrow> stOk D H st \<Longrightarrow> recOk H c \<Longrightarrow> stOk D H (setPath D st p c)"
  by (auto simp: stOk_def getPath_setPath)

lemma stOk_remove: "ymap D \<Longrightarrow> stOk D H st \<Longrightarrow> stOk D H (removePath D p st)"
  by (auto simp: stOk_def getPath_removePath)

lemma runOp_ok:
  assumes "ymap D" "stOk D H st"
  shows "stOk D (insert op H) (runOp D op st)"
proof -
  let ?H = "insert op H"
  have ok: "stOk D ?H st" using assms(2) stOk_mono by blast
  note rec = stOkD [OF ok]
  note put = stOk_set [OF assms(1) ok]
  have disk: "\<exists>p k. ODisk p k i d \<in> ?H" if "carriedDiskFingerprint (getPath D st p) (Some i) = Some d" for p i d
    by (rule carriedDisk_ok [OF rec that])
  have pub: "\<exists>p k. OPublished p k i x \<in> ?H" if "carriedPublishedFrom (getPath D st p) (Some i) = Some x" for p i x
    by (rule carriedPublished_ok [OF rec that])
  show ?thesis
  proof (cases op)
    case (OAdopt e)
    then show ?thesis
      using ok ymap.get_empty [OF assms(1)] by (auto simp: adoptIndexEpoch_def Let_def stOk_def getPath_def)
  next
    case (OMark p k)
    then show ?thesis
      using ok put recOk_onlyKind(1) recOk_kind rec by (auto simp: mark_def split: option.splits)
  next
    case (OBegin p k i f)
    have "recOk ?H \<lparr>kind = k, identity = Some i, fingerprint = fp, candidate = Some True, candidateFingerprint = cf,
        diskFingerprintF = carriedDiskFingerprint (getPath D st p) i, replacedIdentity = None, publishedFrom = None\<rparr>" for fp cf
      using disk by (simp add: recOk_def)
    then show ?thesis using ok put by (simp add: OBegin beginCandidate_def Let_def)
  next
    case (OMigrate p k i)
    have "recOk ?H (c\<lparr>kind := k, identity := Some (Some i), candidate := Some False\<rparr>)"
      if "getPath D st p = Some c" "identity c = None" for c
      using rec [OF that(1)] that(2) by (auto simp: recOk_def)
    then show ?thesis using ok put OMigrate by (auto simp: migrateLegacyIdentity_def split: option.splits)
  next
    case (OCommit p k i)
    have fp: "(\<exists>p k r. OSynced p k i f r \<in> ?H) \<or> (f = i \<and> (\<exists>p k r. OPublished p k i r \<in> ?H))"
      if "getPath D st p = Some c" "identity c = Some (Some i)" "candidate c \<noteq> Some True" "truthy (fingerprint c) = Some f" for c f
      by (rule recOk_fingerprint [OF rec [OF that(1)] that(2,3) truthy_Some [OF that(4)]])
    have "recOk ?H \<lparr>kind = k, identity = Some (Some i),
         fingerprint = (case getPath D st p of None \<Rightarrow> None
                        | Some c \<Rightarrow> if identity c = Some (Some i) then truthy (fingerprint c) else None),
         candidate = (case getPath D st p of None \<Rightarrow> Some False
                      | Some c \<Rightarrow> (case candidate c of None \<Rightarrow> Some False | Some b \<Rightarrow> Some b)),
         candidateFingerprint = cf, diskFingerprintF = carriedDiskFingerprint (getPath D st p) (Some i),
         replacedIdentity = None, publishedFrom = None\<rparr>" (is "recOk _ ?c") for cf
    proof (rule recOkI)
      fix f assume f: "candidate ?c \<noteq> Some True" "fingerprint ?c = Some f"
      obtain c where c: "getPath D st p = Some c" using f(2) by (cases "getPath D st p") auto
      have i: "identity c = Some (Some i)" "truthy (fingerprint c) = Some f" using f(2) c by (auto split: if_splits)
      have "candidate c \<noteq> Some True" using f(1) c by (auto split: option.splits)
      then show "(\<exists>p k r. OSynced p k i f r \<in> ?H) \<or> (f = i \<and> (\<exists>p k r. OPublished p k i r \<in> ?H))"
        by (rule fp [OF c i(1) _ i(2)])
    qed (use disk in auto)
    then show ?thesis using put by (simp add: OCommit commit_def Let_def)
  next
    case (OSynced p k i f r)
    have "recOk ?H \<lparr>kind = k, identity = Some (Some i), fingerprint = Some f, candidate = cand, candidateFingerprint = cf,
        diskFingerprintF = carriedDiskFingerprint (getPath D st p) (Some i), replacedIdentity = None,
        publishedFrom = carriedPublishedFrom (getPath D st p) (Some i)\<rparr>" for cand cf
    proof -
      have synced: "\<exists>p k r. OSynced p k i f r \<in> ?H" using OSynced by blast
      show ?thesis
      proof (rule recOkI, simp)
        fix g assume "fingerprint (\<lparr>kind = k, identity = Some (Some i), fingerprint = Some f, candidate = cand,
            candidateFingerprint = cf, diskFingerprintF = carriedDiskFingerprint (getPath D st p) (Some i),
            replacedIdentity = None, publishedFrom = carriedPublishedFrom (getPath D st p) (Some i)\<rparr>) = Some g"
        then have "g = f" by simp
        then show "(\<exists>p k r. OSynced p k i g r \<in> ?H) \<or> (g = i \<and> (\<exists>p k r. OPublished p k i r \<in> ?H))"
          using synced by blast
      qed (use disk pub in simp_all)
    qed
    then show ?thesis using ok put by (simp add: OSynced markSynced_def Let_def)
  next
    case (OPublished p k i r)
    have "recOk ?H \<lparr>kind = k, identity = Some (Some i), fingerprint = Some i, candidate = Some False,
        candidateFingerprint = None, diskFingerprintF = carriedDiskFingerprint (getPath D st p) (Some i),
        replacedIdentity = Some r, publishedFrom = Some r\<rparr>"
    proof -
      have mine: "OPublished p k i r \<in> ?H" using OPublished by blast
      show ?thesis
      proof (rule recOkI, simp)
        fix g assume "fingerprint (\<lparr>kind = k, identity = Some (Some i), fingerprint = Some i, candidate = Some False,
            candidateFingerprint = None, diskFingerprintF = carriedDiskFingerprint (getPath D st p) (Some i),
            replacedIdentity = Some r, publishedFrom = Some r\<rparr>) = Some g"
        then have "g = i" by simp
        then show "(\<exists>p k r. OSynced p k i g r \<in> ?H) \<or> (g = i \<and> (\<exists>p k r. OPublished p k i r \<in> ?H))"
          using mine by blast
      next
        fix x assume "publishedFrom (\<lparr>kind = k, identity = Some (Some i), fingerprint = Some i, candidate = Some False,
            candidateFingerprint = None, diskFingerprintF = carriedDiskFingerprint (getPath D st p) (Some i),
            replacedIdentity = Some r, publishedFrom = Some r\<rparr>) = Some x"
        then have "x = r" by simp
        then show "\<exists>p k. OPublished p k i x \<in> ?H" using mine by blast
      qed (use disk in simp_all)
    qed
    then show ?thesis using put by (simp add: OPublished markPublished_def)
  next
    case (ODisk p k i f)
    have "recOk ?H (c\<lparr>kind := k, diskFingerprintF := Some f\<rparr>)"
      if "getPath D st p = Some c" "identity c = Some (Some i)" for c
      using rec [OF that(1)] that(2) ODisk by (auto simp: recOk_def)
    then show ?thesis using ok put ODisk by (auto simp: markDisk_def split: option.splits)
  next
    case (ORemove p)
    then show ?thesis using stOk_remove [OF assms(1) ok] by simp
  next
    case (OMove p q k)
    then show ?thesis
      using stOk_set [OF assms(1) stOk_remove [OF assms(1) ok]] rec recOk_kind recOk_onlyKind(2)
      by (auto simp: movePath_def Let_def split: option.splits)
  qed
qed

section \<open>Properties\<close>

text \<open>
  C15: Whatever operations run on an empty record, in whatever order, including renames, index
  rewinds and identity changes: a fingerprint it reports as acknowledged for an identity was
  acknowledged for exactly that identity (by \<open>markSynced\<close>, or as a version this device
  published), a disk fingerprint was recorded for that identity, and a version it claims to have
  published was published.
\<close>

theorem local_state_sound:
  assumes "ymap D"
  shows "let st = fold (runOp D) ops \<lparr>paths = dEmpty D, indexEpoch = None\<rparr> in
    (\<forall>f. acknowledgedFingerprint D st path i = Some f \<longrightarrow>
       (\<exists>p k r. OSynced p k i f r \<in> set ops) \<or> (f = i \<and> (\<exists>p k r. OPublished p k i r \<in> set ops)))
    \<and> (\<forall>d. diskFingerprint D st path i = Some d \<longrightarrow> (\<exists>p k. ODisk p k i d \<in> set ops))
    \<and> (\<forall>c x. getPath D st path = Some c \<and> identity c = Some (Some i) \<and> publishedFrom c = Some x \<longrightarrow>
         (\<exists>p k. OPublished p k i x \<in> set ops))"
proof -
  have "stOk D (H \<union> set ops) (fold (runOp D) ops st)" if "stOk D H st" for H st
    using that
  proof (induction ops arbitrary: H st)
    case (Cons op ops)
    from Cons.IH [OF runOp_ok [OF assms Cons.prems]] show ?case by simp
  qed simp
  moreover have "stOk D {} \<lparr>paths = dEmpty D, indexEpoch = None\<rparr>"
    using ymap.get_empty [OF assms] by (simp add: stOk_def getPath_def)
  ultimately have "stOk D (set ops) (fold (runOp D) ops \<lparr>paths = dEmpty D, indexEpoch = None\<rparr>)" by fastforce
  note rec = stOkD [OF this]
  show ?thesis
    unfolding Let_def acknowledgedFingerprint_def diskFingerprint_def
    using rec [of path] by (fastforce simp: recOk_def split: option.splits if_splits)
qed

theorem local_state_sound_witness:
  "acknowledgedFingerprint alistDict (fold (runOp alistDict) [OSynced (lit ''a'') KText (lit ''g'') (lit ''f'') False, OMove (lit ''a'') (lit ''b'') KText]
       \<lparr>paths = dEmpty alistDict, indexEpoch = None\<rparr>) (lit ''b'') (lit ''g'') = Some (lit ''f'')
   \<and> (\<exists>p k r. OSynced p k (lit ''g'') (lit ''f'') r \<in> set [OSynced (lit ''a'') KText (lit ''g'') (lit ''f'') False, OMove (lit ''a'') (lit ''b'') KText])"
proof
  show a: "acknowledgedFingerprint alistDict (fold (runOp alistDict) [OSynced (lit ''a'') KText (lit ''g'') (lit ''f'') False, OMove (lit ''a'') (lit ''b'') KText]
       \<lparr>paths = dEmpty alistDict, indexEpoch = None\<rparr>) (lit ''b'') (lit ''g'') = Some (lit ''f'')"
    by (simp add: acknowledgedFingerprint_def movePath_def markSynced_def getPath_def setPath_def removePath_def
        alistDict_def carriedDiskFingerprint_def carriedPublishedFrom_def Let_def)
  let ?ops = "[OSynced (lit ''a'') KText (lit ''g'') (lit ''f'') False, OMove (lit ''a'') (lit ''b'') KText]"
  have "(\<exists>p k r. OSynced p k (lit ''g'') (lit ''f'') r \<in> set ?ops)
      \<or> (lit ''f'' = lit ''g'' \<and> (\<exists>p k r. OPublished p k (lit ''g'') r \<in> set ?ops))"
    using local_state_sound [OF ym.ymap_axioms, of ?ops "lit ''b''" "lit ''g''", unfolded Let_def, THEN conjunct1] a by blast
  moreover have "lit ''f'' \<noteq> lit ''g''" by simp
  ultimately show "\<exists>p k r. OSynced p k (lit ''g'') (lit ''f'') r \<in> set ?ops" by blast
qed

text \<open>
  C34: A pending local candidate is never dropped by accident: whatever operation runs, a path that
  is a candidate stays one, with its kind of identity kept or replaced by \<open>commit\<close> or a new
  \<open>beginCandidate\<close>, unless the operation removes, renames or publishes the path, acknowledges
  it as reconciled, acknowledges exactly its pending content, or resets the whole record.
\<close>

theorem candidate_kept:
  assumes "ymap D" "getPath D st path = Some c" "candidate c = Some True" "identity c \<noteq> None"
    and "case op of
           OAdopt e \<Rightarrow> \<not> snd (adoptIndexEpoch D e st)
         | ORemove p \<Rightarrow> p \<noteq> path
         | OMove p q k \<Rightarrow> p \<noteq> path \<and> q \<noteq> path
         | OPublished p k i r \<Rightarrow> p \<noteq> path
         | OSynced p k i f r \<Rightarrow> p = path \<longrightarrow> \<not> r \<and> candidateFingerprint c \<noteq> Some f
         | _ \<Rightarrow> True"
  shows "\<exists>c'. getPath D (runOp D op st) path = Some c' \<and> candidate c' = Some True \<and> identity c' \<noteq> None"
proof (cases op)
  case (OAdopt e)
  then show ?thesis using assms(2-5) by (auto simp: adoptIndexEpoch_def Let_def getPath_def)
qed (use assms(2-5) getPath_setPath [OF assms(1)] getPath_removePath [OF assms(1)] in
    \<open>auto simp: mark_def beginCandidate_def migrateLegacyIdentity_def commit_def markSynced_def markPublished_def
        markDisk_def movePath_def Let_def split: option.splits if_splits\<close>)

theorem candidate_kept_witness:
  "\<exists>c'. getPath alistDict (runOp alistDict (OCommit (lit ''a'') KText (lit ''g''))
      (beginCandidate alistDict (lit ''a'') KText None (Some (lit ''f'')) \<lparr>paths = [], indexEpoch = None\<rparr>)) (lit ''a'') = Some c'
    \<and> candidate c' = Some True \<and> identity c' \<noteq> None"
proof -
  let ?st = "beginCandidate alistDict (lit ''a'') KText None (Some (lit ''f'')) \<lparr>paths = [], indexEpoch = None\<rparr>"
  obtain c where "getPath alistDict ?st (lit ''a'') = Some c" "candidate c = Some True" "identity c \<noteq> None"
    by (simp add: beginCandidate_def getPath_def setPath_def alistDict_def carriedDiskFingerprint_def)
  then show ?thesis by (rule candidate_kept [OF ym.ymap_axioms]) simp
qed

end
