(* ===== verification/Capabilities.thy ===== *)
theory Capabilities
  imports Js_Prelude
begin

text \<open>
  The compatibility check of a server's advertised capabilities: \<^verbatim>\<open>src/caps.ts\<close>. The decoded
  response is JSON; a missing field is \<open>None\<close>. The detail text of a refusal is kept as data
  (which rule failed, on which capability). As elsewhere \<open>in\<close> is membership of an own key.
\<close>

section \<open>Model\<close>

definition SYNC_FORMAT :: jstr where "SYNC_FORMAT = lit ''crsqlite-1''"

definition CAP_NAMES :: "jstr list" where
  "CAP_NAMES = [lit ''restApi'', lit ''oauth'', lit ''pluginDbSync'', lit ''attachmentShim'',
     lit ''documentEpoch'', lit ''documentInvalidation'']"

definition REQUIRED_CAPS :: "(jstr \<times> jstr list) list" where
  "REQUIRED_CAPS = [(lit ''restApi'', [lit ''3'']), (lit ''oauth'', [lit ''1'']), (lit ''pluginDbSync'', [SYNC_FORMAT]),
     (lit ''attachmentShim'', [lit ''https://realtime.md/attachment-shim/v1'']),
     (lit ''documentEpoch'', [lit ''1'']), (lit ''documentInvalidation'', [lit ''1''])]"

definition MANDATORY_CAPS :: "jstr list" where
  "MANDATORY_CAPS = [lit ''restApi'', lit ''oauth'', lit ''pluginDbSync'', lit ''attachmentShim'', lit ''documentEpoch'']"

definition accepted :: "jstr \<Rightarrow> jstr list" where
  "accepted name = (case jget REQUIRED_CAPS name of None \<Rightarrow> [] | Some vs \<Rightarrow> vs)"

definition serverSupportsCapability :: "json option \<Rightarrow> jstr \<Rightarrow> bool" where
  "serverSupportsCapability caps name =
     (case caps of
        Some (JObj capsMap) \<Rightarrow>
          (case jget capsMap name of Some (JStr advertised) \<Rightarrow> advertised \<in> set (accepted name) | _ \<Rightarrow> False)
      | _ \<Rightarrow> False)"

datatype refusal =
    NoCaps
  | MissingCap jstr
  | NonStringCap jstr
  | WrongVersion jstr jstr
  | UnknownRequired jstr
  | UnsupportedRequired jstr

datatype compat_reason = ServerIncompatible | ClientTooOld

datatype compatibility_result = Compatible | Refused compat_reason refusal

fun checkMandatory :: "(jstr \<times> json) list \<Rightarrow> jstr list \<Rightarrow> refusal option" where
  "checkMandatory capsMap [] = None"
| "checkMandatory capsMap (name # rest) =
     (case jget capsMap name of
        None \<Rightarrow> Some (MissingCap name)
      | Some (JStr advertised) \<Rightarrow>
          if advertised \<notin> set (accepted name) then Some (WrongVersion name advertised)
          else checkMandatory capsMap rest
      | Some _ \<Rightarrow> Some (NonStringCap name))"

fun checkRequired :: "(jstr \<times> json) list \<Rightarrow> json list \<Rightarrow> compatibility_result" where
  "checkRequired capsMap [] = Compatible"
| "checkRequired capsMap (JStr name # rest) =
     (if name \<notin> set CAP_NAMES then Refused ClientTooOld (UnknownRequired name)
      else if \<not> serverSupportsCapability (Some (JObj capsMap)) name
      then Refused ServerIncompatible (UnsupportedRequired name)
      else checkRequired capsMap rest)"
| "checkRequired capsMap (_ # rest) = checkRequired capsMap rest"

definition checkServerCaps :: "json option \<Rightarrow> json option \<Rightarrow> compatibility_result" where
  "checkServerCaps caps requiredCaps =
     (case caps of
        Some (JObj capsMap) \<Rightarrow>
          (case checkMandatory capsMap MANDATORY_CAPS of
             Some r \<Rightarrow> Refused ServerIncompatible r
           | None \<Rightarrow>
               (case requiredCaps of Some (JArr names) \<Rightarrow> checkRequired capsMap names | _ \<Rightarrow> Compatible))
      | _ \<Rightarrow> Refused ServerIncompatible NoCaps)"

section \<open>Lemmas\<close>

lemma checkMandatory_None:
  "checkMandatory capsMap names = None \<longleftrightarrow> (\<forall>name \<in> set names. serverSupportsCapability (Some (JObj capsMap)) name)"
  by (induction names) (auto simp: serverSupportsCapability_def split: option.splits json.splits)

lemma checkRequired_ok:
  "checkRequired capsMap names = Compatible \<longleftrightarrow>
   (\<forall>name. JStr name \<in> set names \<longrightarrow> name \<in> set CAP_NAMES \<and> serverSupportsCapability (Some (JObj capsMap)) name)"
  by (induction capsMap names rule: checkRequired.induct) auto

lemma checkRequired_tooOld:
  "checkRequired capsMap names = Refused ClientTooOld r \<Longrightarrow>
   \<exists>name. r = UnknownRequired name \<and> JStr name \<in> set names \<and> name \<notin> set CAP_NAMES"
  by (induction capsMap names rule: checkRequired.induct) (auto split: if_splits)

section \<open>Properties\<close>

text \<open>
  C39: The check accepts a server exactly when it advertises an accepted version of every mandatory
  capability, and every capability the server demands is one this client knows and whose
  advertised version it accepts; other advertised capabilities are ignored. It tells the client
  to be too old only for a demanded capability this client does not know, and then every
  mandatory one was fine.
\<close>

theorem checkServerCaps_correct:
  "(checkServerCaps caps requiredCaps = Compatible \<longleftrightarrow>
      (\<forall>name \<in> set MANDATORY_CAPS. serverSupportsCapability caps name)
      \<and> (\<forall>name. JStr name \<in> set (case requiredCaps of Some v \<Rightarrow> elements v | None \<Rightarrow> []) \<longrightarrow>
           name \<in> set CAP_NAMES \<and> serverSupportsCapability caps name))
   \<and> (\<forall>r. checkServerCaps caps requiredCaps = Refused ClientTooOld r \<longrightarrow>
        (\<forall>name \<in> set MANDATORY_CAPS. serverSupportsCapability caps name)
        \<and> (\<exists>name. r = UnknownRequired name \<and> name \<notin> set CAP_NAMES
             \<and> JStr name \<in> set (case requiredCaps of Some v \<Rightarrow> elements v | None \<Rightarrow> [])))"
proof (cases "\<exists>capsMap. caps = Some (JObj capsMap)")
  case False
  then have "checkServerCaps caps requiredCaps = Refused ServerIncompatible NoCaps"
    by (auto simp: checkServerCaps_def split: option.splits json.splits)
  moreover from False have "\<not> serverSupportsCapability caps name" for name
    by (auto simp: serverSupportsCapability_def split: option.splits json.splits)
  ultimately show ?thesis by (auto simp: MANDATORY_CAPS_def)
next
  case True
  then obtain capsMap where caps: "caps = Some (JObj capsMap)" by blast
  show ?thesis
  proof (cases "checkMandatory capsMap MANDATORY_CAPS")
    case (Some r)
    then have "\<not> (\<forall>name \<in> set MANDATORY_CAPS. serverSupportsCapability caps name)"
      using checkMandatory_None caps by (metis option.distinct(1))
    then show ?thesis using Some caps by (simp add: checkServerCaps_def)
  next
    case None
    then have "\<forall>name \<in> set MANDATORY_CAPS. serverSupportsCapability caps name"
      using checkMandatory_None caps by blast
    then show ?thesis
      using None caps checkRequired_ok [of capsMap] checkRequired_tooOld [of capsMap]
      by (auto simp: checkServerCaps_def split: option.splits json.splits) blast
  qed
qed

theorem checkServerCaps_correct_witness:
  "checkServerCaps (Some (JObj [(lit ''restApi'', JStr (lit ''2''))])) None \<noteq> Compatible"
proof -
  have "\<not> serverSupportsCapability (Some (JObj [(lit ''restApi'', JStr (lit ''2''))])) (lit ''restApi'')"
    by (simp add: serverSupportsCapability_def accepted_def REQUIRED_CAPS_def)
  moreover have "lit ''restApi'' \<in> set MANDATORY_CAPS" by (simp add: MANDATORY_CAPS_def)
  ultimately show ?thesis
    using checkServerCaps_correct [of "Some (JObj [(lit ''restApi'', JStr (lit ''2''))])" None] by blast
qed

end
