(* ===== verification/Compatibility_Gate.thy ===== *)
theory Compatibility_Gate
  imports Js_Prelude
begin

text \<open>
  The gate that every sync connection passes: \<^verbatim>\<open>src/sync/compatibilityGate.ts\<close>.

  The code is asynchronous. Its state is the record \<open>gate\<close>; the checks under way are kept in
  \<open>running\<close> with the generation and the server they captured when they started. What happens
  between two \<open>await\<close>s is one definition: a round of the loop in \<open>ensure\<close>, the start of
  \<open>verify\<close>, the end of a check and its \<open>finally\<close> callback. The server URL, the clock and
  \<open>knownIncompatible()\<close> are read at each step and may change between steps (record \<open>env\<close>).
  \<open>gate_step\<close> are the possible steps, in any interleaving.
\<close>

section \<open>Model\<close>

definition INCOMPATIBLE_RECHECK_MS :: int where "INCOMPATIBLE_RECHECK_MS = 60000"
definition UNREACHABLE_RECHECK_MS :: int where "UNREACHABLE_RECHECK_MS = 3000"

datatype gate_error = CompatibilityError | OtherError nat

record task =
  tGeneration :: int
  tServerKey :: jstr

record gate =
  generation :: int
  verifiedGeneration :: int
  inFlight :: "nat option"
  failure :: "(gate_error \<times> int) option"
  serverKey :: jstr
  nextTask :: nat
  running :: "(nat \<times> task) list"

record env =
  serverUrl :: jstr
  now :: int
  knownIncompatible :: bool

definition newGate :: "jstr \<Rightarrow> gate" where
  "newGate url = \<lparr>generation = 0, verifiedGeneration = -1, inFlight = None, failure = None,
     serverKey = url, nextTask = 0, running = []\<rparr>"

definition invalidate :: "gate \<Rightarrow> gate" where
  "invalidate g = g\<lparr>generation := generation g + 1\<rparr>"

definition followServer :: "env \<Rightarrow> gate \<Rightarrow> gate" where
  "followServer e g =
     (if serverUrl e = serverKey g then g
      else (invalidate (g\<lparr>serverKey := serverUrl e\<rparr>))\<lparr>failure := None, inFlight := None\<rparr>)"

definition isOpen :: "env \<Rightarrow> gate \<Rightarrow> gate \<times> bool" where
  "isOpen e g =
     (let g = followServer e g in (g, verifiedGeneration g = generation g \<and> \<not> knownIncompatible e))"

definition blocksTraffic :: "env \<Rightarrow> gate \<Rightarrow> gate \<times> bool" where
  "blocksTraffic e g =
     (let g = followServer e g
      in (g, knownIncompatible e \<or> (case failure g of Some (CompatibilityError, _) \<Rightarrow> True | _ \<Rightarrow> False)))"

text \<open>\<open>runCheck\<close> up to its first \<open>await\<close>: the task is under way and recorded as in flight.\<close>

definition runCheck :: "gate \<Rightarrow> gate \<times> nat" where
  "runCheck g =
     (let n = nextTask g
      in (g\<lparr>inFlight := Some n, nextTask := Suc n,
            running := jset (running g) n \<lparr>tGeneration = generation g, tServerKey = serverKey g\<rparr>\<rparr>, n))"

datatype ensure_round = Returns | Awaits nat | Throws gate_error

definition ensureRound :: "env \<Rightarrow> gate \<Rightarrow> gate \<times> ensure_round" where
  "ensureRound e g =
     (case isOpen e g of (g, opened) \<Rightarrow>
        if opened then (g, Returns)
        else case inFlight g of
          Some n \<Rightarrow> (g, Awaits n)
        | None \<Rightarrow>
            (case failure g of
               Some (err, retryAt) \<Rightarrow>
                 if now e < retryAt then (g, Throws err)
                 else (case runCheck g of (g, n) \<Rightarrow> (g, Awaits n))
             | None \<Rightarrow> (case runCheck g of (g, n) \<Rightarrow> (g, Awaits n))))"

definition verifyStart :: "env \<Rightarrow> gate \<Rightarrow> gate \<times> nat" where
  "verifyStart e g =
     (let g = followServer e g
      in case inFlight g of
           Some n \<Rightarrow> (g, n)
         | None \<Rightarrow> runCheck (g\<lparr>failure := None, verifiedGeneration := -1\<rparr>))"

definition verifyEnd :: "gate \<Rightarrow> gate_error option" where
  "verifyEnd g = map_option fst (failure g)"

definition recordFailure :: "env \<Rightarrow> gate_error \<Rightarrow> gate \<Rightarrow> gate" where
  "recordFailure e err g =
     g\<lparr>failure := Some (err, now e + (if err = CompatibilityError then INCOMPATIBLE_RECHECK_MS else UNREACHABLE_RECHECK_MS)),
       verifiedGeneration := -1\<rparr>"

text \<open>The rest of the task after \<open>await this.check()\<close>, which gave a result or an error.\<close>

definition checkEnds :: "env \<Rightarrow> gate_error option \<Rightarrow> task \<Rightarrow> gate \<Rightarrow> gate" where
  "checkEnds e err t g =
     (if tServerKey t \<noteq> serverKey g then g
      else case err of
             Some x \<Rightarrow> recordFailure e x g
           | None \<Rightarrow>
               if knownIncompatible e then recordFailure e CompatibilityError g
               else g\<lparr>failure := None, verifiedGeneration := tGeneration t\<rparr>)"

definition checkFinally :: "nat \<Rightarrow> gate \<Rightarrow> gate" where
  "checkFinally n g = (if inFlight g = Some n then g\<lparr>inFlight := None\<rparr> else g)"

section \<open>Interleavings\<close>

text \<open>
  A system state is the gate, the tasks that ended but whose \<open>finally\<close> has not run yet, and
  the record of checks that passed: the generation and server they were started for.
\<close>

record system =
  theGate :: gate
  ended :: "nat list"
  passed :: "(int \<times> jstr) set"

inductive gate_step :: "system \<Rightarrow> system \<Rightarrow> bool" where
  invalidates: "gate_step s (s\<lparr>theGate := invalidate (theGate s)\<rparr>)"
| asks: "gate_step s (s\<lparr>theGate := fst (isOpen e (theGate s))\<rparr>)"
| asksTraffic: "gate_step s (s\<lparr>theGate := fst (blocksTraffic e (theGate s))\<rparr>)"
| ensures: "gate_step s (s\<lparr>theGate := fst (ensureRound e (theGate s))\<rparr>)"
| verifies: "gate_step s (s\<lparr>theGate := fst (verifyStart e (theGate s))\<rparr>)"
| checkPasses: "jget (running (theGate s)) n = Some t \<Longrightarrow>
    gate_step s \<lparr>theGate = (checkEnds e None t (theGate s))\<lparr>running := jdel (running (theGate s)) n\<rparr>,
      ended = n # ended s, passed = insert (tGeneration t, tServerKey t) (passed s)\<rparr>"
| checkFails: "jget (running (theGate s)) n = Some t \<Longrightarrow>
    gate_step s \<lparr>theGate = (checkEnds e (Some err) t (theGate s))\<lparr>running := jdel (running (theGate s)) n\<rparr>,
      ended = n # ended s, passed = passed s\<rparr>"
| cleansUp: "n \<in> set (ended s) \<Longrightarrow>
    gate_step s (s\<lparr>theGate := checkFinally n (theGate s), ended := removeAll n (ended s)\<rparr>)"

inductive gate_reachable :: "jstr \<Rightarrow> system \<Rightarrow> bool" for url where
  start: "gate_reachable url \<lparr>theGate = newGate url, ended = [], passed = {}\<rparr>"
| step: "gate_reachable url s \<Longrightarrow> gate_step s s' \<Longrightarrow> gate_reachable url s'"

inductive_cases gate_stepE: "gate_step s s'"

section \<open>Invariant\<close>

text \<open>
  No check belongs to a later generation; one of the current generation belongs to the current
  server; a verification of the current generation was really made for the current server; and a
  check that is not the one in flight was started in an earlier generation, so no two checks of
  one generation run at a time.
\<close>

inductive gateInv :: "gate \<Rightarrow> nat set \<Rightarrow> (int \<times> jstr) set \<Rightarrow> bool" where
  "gateInv g ends proved"
  if "0 \<le> generation g" "verifiedGeneration g \<le> generation g"
    "verifiedGeneration g = generation g \<Longrightarrow> (generation g, serverKey g) \<in> proved"
    "jwf (running g)"
    "\<And>n t. jget (running g) n = Some t \<Longrightarrow> n < nextTask g \<and> n \<notin> ends"
    "\<And>n t. jget (running g) n = Some t \<Longrightarrow> tGeneration t \<le> generation g"
    "\<And>n t. jget (running g) n = Some t \<Longrightarrow> tGeneration t = generation g \<Longrightarrow> tServerKey t = serverKey g"
    "\<And>n t. jget (running g) n = Some t \<Longrightarrow> inFlight g \<noteq> Some n \<Longrightarrow> tGeneration t < generation g"
    "\<And>n n' t t'. jget (running g) n = Some t \<Longrightarrow> jget (running g) n' = Some t' \<Longrightarrow> n \<noteq> n' \<Longrightarrow> tGeneration t \<noteq> tGeneration t'"
    "\<And>n. n \<in> ends \<Longrightarrow> n < nextTask g"

inductive_cases gateInvE: "gateInv g ends proved"

lemma inv_newGate: "gateInv (newGate url) {} {}"
  by (rule gateInv.intros) (simp_all add: newGate_def)

lemma inv_advance:
  assumes "gateInv g ends proved" "generation g' = generation g + 1" "verifiedGeneration g' = verifiedGeneration g"
    and "running g' = running g" "nextTask g' = nextTask g"
  shows "gateInv g' ends proved"
  using assms(1)
proof (cases rule: gateInv.cases)
  case 1
  have earlier: "tGeneration t < generation g'" if "jget (running g) n = Some t" for n t
    using 1(6) [OF that] assms(2) by simp
  show ?thesis
  proof (rule gateInv.intros)
    show "tServerKey t = serverKey g'" if "jget (running g') n = Some t" "tGeneration t = generation g'" for n t
      using earlier [of n t] that assms(4) by simp
    show "tGeneration t \<noteq> tGeneration t'"
      if "jget (running g') n = Some t" "jget (running g') n' = Some t'" "n \<noteq> n'" for n n' t t'
      using 1(9) that assms(4) by simp
    show "(generation g', serverKey g') \<in> proved" if "verifiedGeneration g' = generation g'"
      using that 1(2) assms(2,3) by simp
    show "tGeneration t \<le> generation g'" if "jget (running g') n = Some t" for n t
      using earlier [of n t] that assms(4) by simp
  qed (use 1(1,2,4,5,10) earlier assms(2-5) in simp_all)
qed

lemma inv_invalidate: "gateInv g ends proved \<Longrightarrow> gateInv (invalidate g) ends proved"
  by (rule inv_advance) (simp_all add: invalidate_def)

lemma inv_followServer: "gateInv g ends proved \<Longrightarrow> gateInv (followServer e g) ends proved"
  by (cases "serverUrl e = serverKey g") (auto simp: followServer_def invalidate_def intro: inv_advance)

lemma inv_forget:
  assumes "gateInv g ends proved" "generation g' = generation g" "verifiedGeneration g' = -1"
    and "running g' = running g" "nextTask g' = nextTask g" "inFlight g' = inFlight g" "serverKey g' = serverKey g"
  shows "gateInv g' ends proved"
  using assms(1)
proof (cases rule: gateInv.cases)
  case 1
  show ?thesis
  proof (rule gateInv.intros)
    show "tGeneration t \<noteq> tGeneration t'"
      if "jget (running g') n = Some t" "jget (running g') n' = Some t'" "n \<noteq> n'" for n n' t t'
      using 1(9) that assms(4) by simp
  qed (use 1(1,4-8,10) assms(2-7) in simp_all)
qed

lemma inv_runCheck:
  assumes "gateInv g ends proved" "inFlight g = None"
  shows "gateInv (fst (runCheck g)) ends proved"
  using assms(1)
proof (cases rule: gateInv.cases)
  case 1
  have old: "tGeneration t < generation g" "n < nextTask g" if "jget (running g) n = Some t" for n t
    using 1(5,8) [OF that] assms(2) by simp_all
  show ?thesis
  proof (rule gateInv.intros)
    fix n n' t t'
    assume "jget (running (fst (runCheck g))) n = Some t" "jget (running (fst (runCheck g))) n' = Some t'" "n \<noteq> n'"
    then show "tGeneration t \<noteq> tGeneration t'"
      using old [of n t] old [of n' t'] 1(9) [of n t n' t'] by (auto simp: runCheck_def Let_def split: if_splits)
  next
    fix n t assume n: "jget (running (fst (runCheck g))) n = Some t"
    show "n < nextTask (fst (runCheck g)) \<and> n \<notin> ends"
      using n 1(5) [of n t] 1(10) [of n] by (auto simp: runCheck_def Let_def split: if_splits)
    show "tGeneration t \<le> generation (fst (runCheck g))"
      using n old [of n t] by (auto simp: runCheck_def Let_def split: if_splits)
    show "tServerKey t = serverKey (fst (runCheck g))" if "tGeneration t = generation (fst (runCheck g))"
      using n that 1(7) [of n t] by (auto simp: runCheck_def Let_def split: if_splits)
    show "tGeneration t < generation (fst (runCheck g))" if "inFlight (fst (runCheck g)) \<noteq> Some n"
      using n that old [of n t] by (auto simp: runCheck_def Let_def split: if_splits)
  next
    show "n < nextTask (fst (runCheck g))" if "n \<in> ends" for n
      using 1(10) [OF that] by (simp add: runCheck_def Let_def)
  qed (use 1(1-4) in \<open>simp_all add: runCheck_def Let_def\<close>)
qed

lemma inv_ensureRound: "gateInv g ends proved \<Longrightarrow> gateInv (fst (ensureRound e g)) ends proved"
  using inv_followServer [of g ends proved e] inv_runCheck [of "followServer e g" ends proved]
  by (auto simp: ensureRound_def isOpen_def Let_def split: option.splits prod.splits)

lemma inv_verifyStart: "gateInv g ends proved \<Longrightarrow> gateInv (fst (verifyStart e g)) ends proved"
proof -
  assume "gateInv g ends proved"
  then have f: "gateInv (followServer e g) ends proved" by (rule inv_followServer)
  let ?g = "(followServer e g)\<lparr>failure := None, verifiedGeneration := -1\<rparr>"
  have "gateInv ?g ends proved" by (rule inv_forget [OF f]) simp_all
  then have "inFlight (followServer e g) = None \<Longrightarrow> gateInv (fst (runCheck ?g)) ends proved"
    by (intro inv_runCheck) simp_all
  then show ?thesis using f by (auto simp: verifyStart_def Let_def split: option.splits)
qed

lemma inv_ends:
  assumes "gateInv g ends proved" "jget (running g) n = Some t"
  shows "gateInv (g\<lparr>running := jdel (running g) n\<rparr>) (insert n ends) proved"
  using assms(1)
proof (cases rule: gateInv.cases)
  case 1
  show ?thesis
  proof (rule gateInv.intros)
    show "tGeneration u \<noteq> tGeneration u'"
      if "jget (running (g\<lparr>running := jdel (running g) n\<rparr>)) m = Some u"
        "jget (running (g\<lparr>running := jdel (running g) n\<rparr>)) m' = Some u'" "m \<noteq> m'" for m m' u u'
      using 1(9) that by (auto split: if_splits)
  next
    fix m u assume m: "jget (running (g\<lparr>running := jdel (running g) n\<rparr>)) m = Some u"
    then have m': "jget (running g) m = Some u" "m \<noteq> n" by (auto split: if_splits)
    show "m < nextTask (g\<lparr>running := jdel (running g) n\<rparr>) \<and> m \<notin> insert n ends" using 1(5) [OF m'(1)] m'(2) by simp
    show "tGeneration u \<le> generation (g\<lparr>running := jdel (running g) n\<rparr>)" using 1(6) [OF m'(1)] by simp
    show "tServerKey u = serverKey (g\<lparr>running := jdel (running g) n\<rparr>)"
      if "tGeneration u = generation (g\<lparr>running := jdel (running g) n\<rparr>)" using 1(7) [OF m'(1)] that by simp
    show "tGeneration u < generation (g\<lparr>running := jdel (running g) n\<rparr>)"
      if "inFlight (g\<lparr>running := jdel (running g) n\<rparr>) \<noteq> Some m" using 1(8) [OF m'(1)] that by simp
  next
    show "m < nextTask (g\<lparr>running := jdel (running g) n\<rparr>)" if "m \<in> insert n ends" for m
      using that 1(10) [of m] 1(5) [OF assms(2)] by auto
  qed (use 1(1-4) in simp_all)
qed

lemma inv_mono: "gateInv g ends proved \<Longrightarrow> proved \<subseteq> proved' \<Longrightarrow> gateInv g ends proved'"
  by (erule gateInvE) (rule gateInv.intros; blast)

lemma inv_verified:
  assumes "gateInv g ends proved" "jget (running g) n = Some t" "tServerKey t = serverKey g"
  shows "gateInv (g\<lparr>failure := None, verifiedGeneration := tGeneration t\<rparr>) ends (insert (tGeneration t, tServerKey t) proved)"
  using assms(1)
proof (cases rule: gateInv.cases)
  case 1
  show ?thesis
  proof (rule gateInv.intros)
    show "tGeneration u \<noteq> tGeneration u'"
      if "jget (running (g\<lparr>failure := None, verifiedGeneration := tGeneration t\<rparr>)) m = Some u"
        "jget (running (g\<lparr>failure := None, verifiedGeneration := tGeneration t\<rparr>)) m' = Some u'" "m \<noteq> m'" for m m' u u'
      using 1(9) that by simp
  qed (use 1(1,4-8,10) assms(2,3) in simp_all)
qed

lemma inv_checkEnds:
  assumes "gateInv g ends proved" "jget (running g) n = Some t"
  shows "gateInv (checkEnds e err t g) ends (if err = None then insert (tGeneration t, tServerKey t) proved else proved)"
proof -
  have mono: "gateInv g ends (insert (tGeneration t, tServerKey t) proved)"
    by (rule inv_mono [OF assms(1)]) blast
  have fail: "gateInv (recordFailure e x g) ends proved'" if "gateInv g ends proved'" for x proved'
    using that by (rule inv_forget) (simp_all add: recordFailure_def)
  show ?thesis
    using assms(1) mono fail inv_verified [OF assms] by (cases err) (auto simp: checkEnds_def)
qed

lemma inv_checkFinally:
  assumes "gateInv g ends proved" "n \<in> ends"
  shows "gateInv (checkFinally n g) (ends - {n}) proved"
  using assms(1)
proof (cases rule: gateInv.cases)
  case 1
  have same: "generation (checkFinally n g) = generation g" "verifiedGeneration (checkFinally n g) = verifiedGeneration g"
    "running (checkFinally n g) = running g" "nextTask (checkFinally n g) = nextTask g" "serverKey (checkFinally n g) = serverKey g"
    by (simp_all add: checkFinally_def)
  show ?thesis
  proof (rule gateInv.intros)
    fix m t assume m: "jget (running (checkFinally n g)) m = Some t" "inFlight (checkFinally n g) \<noteq> Some m"
    then have "jget (running g) m = Some t" using same by simp
    moreover have "m \<noteq> n" using 1(5) [OF calculation] assms(2) by auto
    then have "inFlight g \<noteq> Some m" using m(2) by (auto simp: checkFinally_def split: if_splits)
    ultimately show "tGeneration t < generation (checkFinally n g)" using 1(8) same by simp
  next
    show "tGeneration u \<noteq> tGeneration u'"
      if "jget (running (checkFinally n g)) m = Some u" "jget (running (checkFinally n g)) m' = Some u'" "m \<noteq> m'" for m m' u u'
      using 1(9) that same by simp
  qed (use 1(1-7,10) in \<open>auto simp: same\<close>)
qed

lemma reachable_inv: "gate_reachable url s \<Longrightarrow> gateInv (theGate s) (set (ended s)) (passed s)"
proof (induction rule: gate_reachable.induct)
  case start
  then show ?case using inv_newGate by simp
next
  case (step s s')
  from step.hyps(2) show ?case
  proof (cases rule: gate_step.cases)
    case invalidates
    then show ?thesis using inv_invalidate [OF step.IH] by simp
  next
    case (asks e)
    then show ?thesis using inv_followServer [OF step.IH] by (simp add: isOpen_def Let_def)
  next
    case (asksTraffic e)
    then show ?thesis using inv_followServer [OF step.IH] by (simp add: blocksTraffic_def Let_def)
  next
    case (ensures e)
    then show ?thesis using inv_ensureRound [OF step.IH] by simp
  next
    case (verifies e)
    then show ?thesis using inv_verifyStart [OF step.IH] by simp
  next
    case (checkPasses n t e)
    have "running (checkEnds e None t (theGate s)) = running (theGate s)"
      by (simp add: checkEnds_def recordFailure_def)
    then show ?thesis
      using inv_ends [OF inv_checkEnds [OF step.IH checkPasses(2), of e None]] checkPasses by simp
  next
    case (checkFails n t e err)
    have "running (checkEnds e (Some err) t (theGate s)) = running (theGate s)"
      by (simp add: checkEnds_def recordFailure_def)
    then show ?thesis
      using inv_ends [OF inv_checkEnds [OF step.IH checkFails(2), of e "Some err"]] checkFails by simp
  next
    case (cleansUp n)
    then show ?thesis using inv_checkFinally [OF step.IH cleansUp(2)] by (simp add: set_removeAll)
  qed
qed

text \<open>A remembered failure goes with a gate that is not verified.\<close>

lemma reachable_failure:
  "gate_reachable url s \<Longrightarrow> failure (theGate s) \<noteq> None \<Longrightarrow> verifiedGeneration (theGate s) = -1"
proof (induction rule: gate_reachable.induct)
  case start
  then show ?case by (simp add: newGate_def)
next
  case (step s s')
  from step.hyps(2) step.IH step.prems show ?case
    by (cases rule: gate_step.cases)
      (auto simp: invalidate_def followServer_def isOpen_def blocksTraffic_def ensureRound_def verifyStart_def
        runCheck_def checkEnds_def recordFailure_def checkFinally_def Let_def
        split: if_splits option.splits prod.splits)
qed

section \<open>The interface of a connection gate\<close>

text \<open>
  What connections rely on: a dropped connection closes the gate until something verifies the
  server again, no matter how many connections drop.
\<close>

locale connection_gate =
  fixes valid :: "'g \<Rightarrow> bool" and opens :: "'e \<Rightarrow> 'g \<Rightarrow> 'g \<times> bool" and drops :: "'g \<Rightarrow> 'g"
  assumes valid_drops: "valid g \<Longrightarrow> valid (drops g)"
    and valid_opens: "valid g \<Longrightarrow> valid (fst (opens e g))"
    and drops_closes: "valid g \<Longrightarrow> \<not> snd (opens e (drops g))"
begin

lemma valid_all_drop: "valid g \<Longrightarrow> valid ((drops ^^ k) g)"
  by (induction k) (auto intro: valid_drops)

lemma closed_after_drops: "valid g \<Longrightarrow> 0 < k \<Longrightarrow> \<not> snd (opens e ((drops ^^ k) g))"
  using drops_closes [OF valid_all_drop] by (cases k) auto

end

interpretation cgate: connection_gate "\<lambda>g. \<exists>ends proved. gateInv g ends proved" isOpen invalidate
proof
  fix g e assume "\<exists>ends proved. gateInv g ends proved"
  then obtain ends proved where inv: "gateInv g ends proved" by blast
  show "\<exists>ends proved. gateInv (invalidate g) ends proved" using inv_invalidate [OF inv] by blast
  show "\<exists>ends proved. gateInv (fst (isOpen e g)) ends proved"
    using inv_followServer [OF inv] by (auto simp: isOpen_def Let_def)
  from inv have "verifiedGeneration g \<le> generation g" by (cases rule: gateInv.cases)
  then show "\<not> snd (isOpen e (invalidate g))"
    by (auto simp: isOpen_def followServer_def invalidate_def Let_def)
qed

section \<open>Properties\<close>

text \<open>
  C13: In every interleaving of connections, drops, server switches and checks, an open gate means
  that the current server itself passed a check which was started after the last dropped
  connection and after the last switch of servers, and that it is not known to be incompatible. At
  no time do two checks of the same generation run.
\<close>

theorem gate_open_is_verified:
  assumes "gate_reachable url s"
  shows "(snd (isOpen e (theGate s)) \<longrightarrow>
      \<not> knownIncompatible e \<and> serverKey (fst (isOpen e (theGate s))) = serverUrl e
      \<and> (generation (fst (isOpen e (theGate s))), serverUrl e) \<in> passed s)
    \<and> (\<forall>n n' t t'. jget (running (theGate s)) n = Some t \<and> jget (running (theGate s)) n' = Some t'
         \<and> tGeneration t = tGeneration t' \<longrightarrow> n = n')"
proof -
  let ?g = "followServer e (theGate s)"
  have inv: "gateInv (theGate s) (set (ended s)) (passed s)" by (rule reachable_inv [OF assms])
  have key: "serverKey ?g = serverUrl e" by (simp add: followServer_def invalidate_def)
  from inv_followServer [OF inv] have "verifiedGeneration ?g = generation ?g \<longrightarrow> (generation ?g, serverKey ?g) \<in> passed s"
    by (cases rule: gateInv.cases) blast
  moreover from inv have "\<forall>n n' t t'. jget (running (theGate s)) n = Some t \<and> jget (running (theGate s)) n' = Some t'
         \<and> tGeneration t = tGeneration t' \<longrightarrow> n = n'"
    by (cases rule: gateInv.cases) blast
  ultimately show ?thesis using key by (simp add: isOpen_def Let_def)
qed

theorem gate_open_is_verified_witness:
  "\<exists>s. gate_reachable (lit ''u'') s
     \<and> snd (isOpen \<lparr>serverUrl = lit ''u'', now = 0, knownIncompatible = False\<rparr> (theGate s)) \<and> (0, lit ''u'') \<in> passed s"
proof -
  let ?e = "\<lparr>serverUrl = lit ''u'', now = 0, knownIncompatible = False\<rparr>"
  let ?s0 = "\<lparr>theGate = newGate (lit ''u''), ended = [], passed = {}\<rparr>"
  let ?s1 = "?s0\<lparr>theGate := fst (ensureRound ?e (theGate ?s0))\<rparr>"
  let ?t = "\<lparr>tGeneration = 0, tServerKey = lit ''u''\<rparr>"
  let ?s2 = "\<lparr>theGate = (checkEnds ?e None ?t (theGate ?s1))\<lparr>running := jdel (running (theGate ?s1)) 0\<rparr>,
      ended = 0 # ended ?s1, passed = insert (tGeneration ?t, tServerKey ?t) (passed ?s1)\<rparr>"
  have g1: "theGate ?s1 = (newGate (lit ''u''))\<lparr>inFlight := Some 0, nextTask := 1, running := [(0, ?t)]\<rparr>"
    by (simp add: ensureRound_def isOpen_def followServer_def newGate_def runCheck_def Let_def)
  have "gate_reachable (lit ''u'') ?s1" by (rule gate_reachable.step [OF gate_reachable.start]) (rule gate_step.ensures)
  then have r: "gate_reachable (lit ''u'') ?s2"
    by (rule gate_reachable.step) (rule gate_step.checkPasses, simp only: g1, simp)
  have o2: "snd (isOpen ?e (theGate ?s2))"
    by (simp only: g1) (simp add: isOpen_def followServer_def checkEnds_def newGate_def Let_def)
  with gate_open_is_verified [OF r, of ?e] have "(generation (fst (isOpen ?e (theGate ?s2))), lit ''u'') \<in> passed ?s2"
    by simp
  with r o2 show ?thesis by auto
qed

text \<open>
  C35: While a failed check is remembered, every further attempt of any connection is refused with
  that failure and starts no request, however many connections drop in the meantime; the failure
  is remembered for a minute when the server was incompatible and for three seconds otherwise.
\<close>

theorem failure_delays_recheck:
  assumes "gate_reachable url s" "failure (theGate s) = Some (err, retryAt)" "inFlight (theGate s) = None"
    and "serverUrl e = serverKey (theGate s)" "now e < retryAt"
  shows "ensureRound e ((invalidate ^^ k) (theGate s)) = ((invalidate ^^ k) (theGate s), Throws err)
    \<and> (\<forall>e' x g. failure (recordFailure e' x g) =
         Some (x, now e' + (if x = CompatibilityError then 60000 else 3000)))"
proof -
  have keeps: "failure ((invalidate ^^ k) g) = failure g \<and> inFlight ((invalidate ^^ k) g) = inFlight g
      \<and> serverKey ((invalidate ^^ k) g) = serverKey g \<and> verifiedGeneration ((invalidate ^^ k) g) = verifiedGeneration g
      \<and> generation ((invalidate ^^ k) g) = generation g + int k" for g
    by (induction k) (auto simp: invalidate_def)
  have "verifiedGeneration (theGate s) = -1" using reachable_failure [OF assms(1)] assms(2) by simp
  moreover from reachable_inv [OF assms(1)] have "0 \<le> generation (theGate s)" by (cases rule: gateInv.cases)
  ultimately have "\<not> snd (isOpen e ((invalidate ^^ k) (theGate s)))"
    using keeps [of "theGate s"] assms(4) by (simp add: isOpen_def followServer_def Let_def)
  then show ?thesis
    using keeps [of "theGate s"] assms(2-5)
    by (simp add: ensureRound_def isOpen_def followServer_def recordFailure_def
        INCOMPATIBLE_RECHECK_MS_def UNREACHABLE_RECHECK_MS_def Let_def)
qed

theorem failure_delays_recheck_witness:
  "\<exists>s. gate_reachable (lit ''u'') s
     \<and> snd (ensureRound \<lparr>serverUrl = lit ''u'', now = 59999, knownIncompatible = False\<rparr> (invalidate (theGate s)))
         = Throws CompatibilityError"
proof -
  let ?e = "\<lparr>serverUrl = lit ''u'', now = 0, knownIncompatible = False\<rparr>"
  let ?e' = "\<lparr>serverUrl = lit ''u'', now = 59999, knownIncompatible = False\<rparr>"
  let ?s0 = "\<lparr>theGate = newGate (lit ''u''), ended = [], passed = {}\<rparr>"
  let ?s1 = "?s0\<lparr>theGate := fst (ensureRound ?e (theGate ?s0))\<rparr>"
  let ?t = "\<lparr>tGeneration = 0, tServerKey = lit ''u''\<rparr>"
  let ?s2 = "\<lparr>theGate = (checkEnds ?e (Some CompatibilityError) ?t (theGate ?s1))\<lparr>running := jdel (running (theGate ?s1)) 0\<rparr>,
      ended = 0 # ended ?s1, passed = passed ?s1\<rparr>"
  let ?s3 = "?s2\<lparr>theGate := checkFinally 0 (theGate ?s2), ended := removeAll 0 (ended ?s2)\<rparr>"
  have g1: "theGate ?s1 = (newGate (lit ''u''))\<lparr>inFlight := Some 0, nextTask := 1, running := [(0, ?t)]\<rparr>"
    by (simp add: ensureRound_def isOpen_def followServer_def newGate_def runCheck_def Let_def)
  have "gate_reachable (lit ''u'') ?s1" by (rule gate_reachable.step [OF gate_reachable.start]) (rule gate_step.ensures)
  then have "gate_reachable (lit ''u'') ?s2"
    by (rule gate_reachable.step) (rule gate_step.checkFails, simp only: g1, simp)
  then have r: "gate_reachable (lit ''u'') ?s3"
    by (rule gate_reachable.step) (rule gate_step.cleansUp, simp)
  have "failure (theGate ?s3) = Some (CompatibilityError, 60000)" "inFlight (theGate ?s3) = None"
    "serverKey (theGate ?s3) = lit ''u''"
    by (simp_all only: g1)
      (simp_all add: checkEnds_def checkFinally_def recordFailure_def newGate_def INCOMPATIBLE_RECHECK_MS_def)
  then have "snd (ensureRound ?e' ((invalidate ^^ 1) (theGate ?s3))) = Throws CompatibilityError"
    using failure_delays_recheck [OF r, of CompatibilityError 60000 ?e' 1] by simp
  with r show ?thesis by (intro exI [of _ ?s3]) simp
qed

end
