(* ===== verification/Client_Token.thy ===== *)
theory Client_Token
  imports Document_Epoch
begin

text \<open>
  Tokens for document connections: \<^verbatim>\<open>src/sync/clientToken.ts\<close>.

  The module's variables are the record \<open>token_state\<close>. \<open>getClientToken\<close> is split at its
  \<open>await\<close>s: the checks before the request, the wait for a slot, and what is done with the answer.
  The token request itself (\<open>auth.docToken\<close>) is an HTTP call whose answer is an argument. What
  the function tells the plugin to do with the document's epoch (\<open>acceptDocumentEpoch\<close>,
  \<open>rewindDocumentEpoch\<close>) is part of the outcome. A request waiting for a slot is a number.
\<close>

section \<open>Model\<close>

definition TOKEN_EXPIRY_MARGIN_MS :: int where "TOKEN_EXPIRY_MARGIN_MS = 60000"
definition TOKEN_RETRY_DELAY_MS :: int where "TOKEN_RETRY_DELAY_MS = 30000"
definition SERVER_FAILURES_BEFORE_BACKOFF :: nat where "SERVER_FAILURES_BEFORE_BACKOFF = 3"
definition MAX_CONCURRENT_TOKEN_REQUESTS :: nat where "MAX_CONCURRENT_TOKEN_REQUESTS = 6"
definition EPOCH_REGRESSION_GRACE_MS :: int where "EPOCH_REGRESSION_GRACE_MS = 600000"

record client_token =
  tokenUrl :: jstr
  tokenEpoch :: "int option"
  epochPending :: bool
  expiresAt :: "int option"

datatype token_error =
    NoActiveVault
  | DocumentEpochChanged jstr int
  | DocumentEpochPending jstr int int
  | InvalidToken jstr
  | HttpError nat
  | OtherFailure

record token_state =
  tokenRetryDelayMs :: int
  nextTokenAttemptAt :: int
  consecutiveServerFailures :: nat
  activeTokenRequests :: nat
  tokenRequestWaiters :: "nat list"
  epochLagSince :: "(jstr, int) jmap"

definition clientTokenExpired :: "client_token \<Rightarrow> int \<Rightarrow> bool" where
  "clientTokenExpired token now =
     (case expiresAt token of None \<Rightarrow> False | Some t \<Rightarrow> now \<ge> t - TOKEN_EXPIRY_MARGIN_MS)"

definition resetTokenRetryState :: "int \<Rightarrow> token_state" where
  "resetTokenRetryState delayMs = \<lparr>tokenRetryDelayMs = delayMs, nextTokenAttemptAt = 0,
     consecutiveServerFailures = 0, activeTokenRequests = 0, tokenRequestWaiters = [], epochLagSince = []\<rparr>"

definition isServerUnavailableStatus :: "nat \<Rightarrow> bool" where
  "isServerUnavailableStatus status \<longleftrightarrow> status = 408 \<or> status = 429 \<or> status = 502 \<or> status = 503 \<or> status = 504"

fun backsOffEveryDocument :: "token_error \<Rightarrow> token_state \<Rightarrow> bool \<times> token_state" where
  "backsOffEveryDocument (DocumentEpochChanged _ _) st = (False, st)"
| "backsOffEveryDocument (DocumentEpochPending _ _ _) st = (False, st)"
| "backsOffEveryDocument (HttpError status) st =
     (if isServerUnavailableStatus status then (True, st)
      else if status \<ge> 500
      then let failures = consecutiveServerFailures st + 1
           in (failures \<ge> SERVER_FAILURES_BEFORE_BACKOFF, st\<lparr>consecutiveServerFailures := failures\<rparr>)
      else (False, st))"
| "backsOffEveryDocument _ st = (True, st)"

text \<open>The slots: a request is granted at once or queued, and a release grants the next waiter.\<close>

definition waitForTokenAttemptSlot :: "nat \<Rightarrow> token_state \<Rightarrow> bool \<times> token_state" where
  "waitForTokenAttemptSlot request st =
     (if activeTokenRequests st < MAX_CONCURRENT_TOKEN_REQUESTS
      then (True, st\<lparr>activeTokenRequests := activeTokenRequests st + 1\<rparr>)
      else (False, st\<lparr>tokenRequestWaiters := tokenRequestWaiters st @ [request]\<rparr>))"

definition releaseSlot :: "token_state \<Rightarrow> nat option \<times> token_state" where
  "releaseSlot st =
     (let st = st\<lparr>activeTokenRequests := activeTokenRequests st - 1\<rparr>
      in case tokenRequestWaiters st of
           [] \<Rightarrow> (None, st)
         | request # rest \<Rightarrow>
             (Some request, st\<lparr>tokenRequestWaiters := rest, activeTokenRequests := activeTokenRequests st + 1\<rparr>))"

definition staleEpoch :: "int option \<Rightarrow> int \<Rightarrow> int option" where
  "staleEpoch expectedEpoch localEpoch =
     (case expectedEpoch of None \<Rightarrow> None | Some e \<Rightarrow> if localEpoch \<noteq> e then Some localEpoch else None)"

definition beforeRequest :: "jstr \<Rightarrow> jstr \<Rightarrow> int option \<Rightarrow> int \<Rightarrow> token_error option" where
  "beforeRequest vaultId docId expectedEpoch localEpoch =
     (if vaultId = [] then Some NoActiveVault
      else case staleEpoch expectedEpoch localEpoch of
             Some e \<Rightarrow> Some (DocumentEpochChanged docId e)
           | None \<Rightarrow> None)"

definition requestDelay :: "token_state \<Rightarrow> int \<Rightarrow> int" where
  "requestDelay st now = max 0 (nextTokenAttemptAt st - now)"

datatype epoch_action = NoAction | AcceptEpoch int | RewindEpoch int

text \<open>The body of the \<open>try\<close> after the server answered with a token (or none).\<close>

definition onToken ::
  "jstr \<Rightarrow> int option \<Rightarrow> int \<Rightarrow> int \<Rightarrow> client_token option \<Rightarrow> token_state
   \<Rightarrow> (token_error + client_token) \<times> epoch_action \<times> token_state" where
  "onToken docId expectedEpoch localEpoch now answer st =
     (let st = st\<lparr>nextTokenAttemptAt := 0, consecutiveServerFailures := 0\<rparr>
      in case answer of
           None \<Rightarrow> (Inl (InvalidToken docId), NoAction, st)
         | Some token \<Rightarrow>
             if tokenUrl token = [] then (Inl (InvalidToken docId), NoAction, st)
             else
               let serverEpoch = (case tokenEpoch token of None \<Rightarrow> 0 | Some e \<Rightarrow> e);
                   st = (if serverEpoch \<ge> localEpoch then st\<lparr>epochLagSince := jdel (epochLagSince st) docId\<rparr> else st)
               in if serverEpoch > localEpoch
                  then (Inl (DocumentEpochChanged docId serverEpoch), AcceptEpoch serverEpoch, st)
                  else if serverEpoch < localEpoch
                  then let since = (case jget (epochLagSince st) docId of None \<Rightarrow> now | Some t \<Rightarrow> t)
                       in if now - since \<ge> EPOCH_REGRESSION_GRACE_MS
                          then (Inl (DocumentEpochChanged docId serverEpoch), RewindEpoch serverEpoch,
                                st\<lparr>epochLagSince := jdel (epochLagSince st) docId\<rparr>)
                          else (Inl (DocumentEpochPending docId localEpoch serverEpoch), NoAction,
                                st\<lparr>epochLagSince := jset (epochLagSince st) docId since\<rparr>)
                  else if epochPending token
                  then (Inl (DocumentEpochPending docId localEpoch serverEpoch), NoAction, st)
                  else case staleEpoch expectedEpoch localEpoch of
                         Some e \<Rightarrow> (Inl (DocumentEpochChanged docId e), NoAction, st)
                       | None \<Rightarrow> (Inr token, NoAction, st))"

text \<open>The \<open>catch\<close> block.\<close>

definition onFailure :: "token_error \<Rightarrow> int \<Rightarrow> token_state \<Rightarrow> token_state" where
  "onFailure err now st =
     (case backsOffEveryDocument err st of
        (backsOff, st) \<Rightarrow> if backsOff then st\<lparr>nextTokenAttemptAt := now + tokenRetryDelayMs st\<rparr> else st)"

text \<open>
  All that follows the request: the answer is an error of the call or what the server returned;
  then the slot is released.
\<close>

definition finishRequest ::
  "jstr \<Rightarrow> int option \<Rightarrow> int \<Rightarrow> int \<Rightarrow> token_error + client_token option \<Rightarrow> token_state
   \<Rightarrow> (token_error + client_token) \<times> epoch_action \<times> nat option \<times> token_state" where
  "finishRequest docId expectedEpoch localEpoch now answer st =
     (let (result, action, st) =
        (case answer of
           Inl err \<Rightarrow> (Inl err, NoAction, st)
         | Inr t \<Rightarrow> onToken docId expectedEpoch localEpoch now t st);
          st = (case result of Inl err \<Rightarrow> onFailure err now st | Inr _ \<Rightarrow> st);
          (granted, st) = releaseSlot st
      in (result, action, granted, st))"

section \<open>Slots\<close>

text \<open>The requests that hold a slot, over every order of arrivals and finished requests.\<close>

inductive slots :: "token_state \<Rightarrow> nat list \<Rightarrow> bool" where
  start: "slots (resetTokenRetryState d) []"
| granted: "slots st hs \<Longrightarrow> waitForTokenAttemptSlot r st = (True, st') \<Longrightarrow> slots st' (r # hs)"
| queued: "slots st hs \<Longrightarrow> waitForTokenAttemptSlot r st = (False, st') \<Longrightarrow> slots st' hs"
| finished: "slots st hs \<Longrightarrow> h \<in> set hs \<Longrightarrow>
    finishRequest docId expected localEpoch now answer st = (result, action, next, st') \<Longrightarrow>
    slots st' (case next of None \<Rightarrow> remove1 h hs | Some r \<Rightarrow> r # remove1 h hs)"

lemma onFailure_slots:
  "activeTokenRequests (onFailure err now st) = activeTokenRequests st
   \<and> tokenRequestWaiters (onFailure err now st) = tokenRequestWaiters st"
  by (cases err) (auto simp: onFailure_def Let_def split: prod.splits if_splits)

lemma onToken_slots:
  "activeTokenRequests (snd (snd (onToken docId expected localEpoch now answer st))) = activeTokenRequests st
   \<and> tokenRequestWaiters (snd (snd (onToken docId expected localEpoch now answer st))) = tokenRequestWaiters st"
  by (auto simp: onToken_def Let_def split: option.splits)

lemma finishRequest_slots:
  assumes "finishRequest docId expected localEpoch now answer st = (result, action, next, st')"
  shows "\<exists>st1. activeTokenRequests st1 = activeTokenRequests st \<and> tokenRequestWaiters st1 = tokenRequestWaiters st
     \<and> releaseSlot st1 = (next, st')"
proof -
  obtain r a st0 where st0: "(case answer of Inl err \<Rightarrow> (Inl err, NoAction, st)
      | Inr t \<Rightarrow> onToken docId expected localEpoch now t st) = (r, a, st0)" by (metis prod_cases3)
  have same0: "activeTokenRequests st0 = activeTokenRequests st \<and> tokenRequestWaiters st0 = tokenRequestWaiters st"
  proof (cases answer)
    case (Inr t)
    then show ?thesis using st0 onToken_slots [of docId expected localEpoch now t st] by simp
  qed (use st0 in simp)
  let ?st1 = "case r of Inl err \<Rightarrow> onFailure err now st0 | Inr _ \<Rightarrow> st0"
  have same: "activeTokenRequests ?st1 = activeTokenRequests st0 \<and> tokenRequestWaiters ?st1 = tokenRequestWaiters st0"
    using onFailure_slots by (cases r) simp_all
  have "releaseSlot ?st1 = (next, st')"
    using assms st0 unfolding finishRequest_def Let_def by (auto split: prod.splits)
  with same0 same show ?thesis by (intro exI [of _ ?st1]) simp
qed

section \<open>Properties\<close>

text \<open>
  C22: A token is handed out only if the epoch it names is this device's epoch of the document, is
  the epoch the caller's document was built for, and is not still being activated. The device's
  epoch is moved forward only to a later epoch of the server, and back only after the server has
  lagged behind for ten minutes since the lag was first recorded.
\<close>

theorem token_matches_epoch:
  assumes "finishRequest docId expected localEpoch now answer st = (result, action, next, st')"
  shows "(\<forall>token. result = Inr token \<longrightarrow>
       answer = Inr (Some token) \<and> tokenUrl token \<noteq> []
       \<and> (case tokenEpoch token of None \<Rightarrow> 0 | Some e \<Rightarrow> e) = localEpoch
       \<and> (expected = None \<or> expected = Some localEpoch) \<and> \<not> epochPending token \<and> action = NoAction)
    \<and> (\<forall>e. action = AcceptEpoch e \<longrightarrow> e > localEpoch \<and> result = Inl (DocumentEpochChanged docId e))
    \<and> (\<forall>e. action = RewindEpoch e \<longrightarrow> e < localEpoch \<and> result = Inl (DocumentEpochChanged docId e)
         \<and> (\<exists>since. jget (epochLagSince st) docId = Some since \<and> now - since \<ge> EPOCH_REGRESSION_GRACE_MS))"
proof (cases answer)
  case (Inl err)
  then have "result = Inl err" "action = NoAction"
    using assms unfolding finishRequest_def Let_def by (simp_all split: prod.splits)
  then show ?thesis by simp
next
  case (Inr t)
  obtain st1 where on: "onToken docId expected localEpoch now t st = (result, action, st1)"
    using assms Inr by (auto simp: finishRequest_def Let_def split: prod.splits)
  show ?thesis
  proof (cases t)
    case None
    then show ?thesis using on by (auto simp: onToken_def)
  next
    case (Some token)
    let ?se = "case tokenEpoch token of None \<Rightarrow> 0 | Some e \<Rightarrow> e"
    consider "tokenUrl token = []" | "tokenUrl token \<noteq> []" "?se > localEpoch"
      | "tokenUrl token \<noteq> []" "?se < localEpoch" | "tokenUrl token \<noteq> []" "?se = localEpoch"
      by (cases ?se localEpoch rule: linorder_cases) blast+
    then show ?thesis
    proof cases
      case 3
      then show ?thesis
        using on Some Inr by (cases "jget (epochLagSince st) docId")
          (auto simp: onToken_def Let_def EPOCH_REGRESSION_GRACE_MS_def split: if_splits)
    qed (use on Some Inr in \<open>auto simp: onToken_def Let_def staleEpoch_def split: if_splits option.splits\<close>)
  qed
qed

theorem token_matches_epoch_witness:
  "finishRequest (lit ''d'') (Some 3) 3 0 (Inr (Some \<lparr>tokenUrl = lit ''u'', tokenEpoch = Some 3, epochPending = False, expiresAt = None\<rparr>))
      (resetTokenRetryState 30000)
    = (Inr \<lparr>tokenUrl = lit ''u'', tokenEpoch = Some 3, epochPending = False, expiresAt = None\<rparr>, NoAction, None, resetTokenRetryState 30000)
   \<and> (Some 3 = (None :: int option) \<or> Some 3 = Some (3 :: int))"
proof -
  let ?t = "\<lparr>tokenUrl = lit ''u'', tokenEpoch = Some 3, epochPending = False, expiresAt = None\<rparr>"
  have f: "finishRequest (lit ''d'') (Some 3) 3 0 (Inr (Some ?t)) (resetTokenRetryState 30000)
      = (Inr ?t, NoAction, None, resetTokenRetryState 30000)"
    by (simp add: finishRequest_def onToken_def releaseSlot_def staleEpoch_def resetTokenRetryState_def)
  have "Some 3 = (None :: int option) \<or> Some 3 = Some (3 :: int)"
    using token_matches_epoch [OF f, THEN conjunct1, rule_format, OF refl] by blast
  with f show ?thesis by blast
qed

text \<open>
  C36: Over every order of arriving and finishing requests, at most six hold a slot, the counter is
  exactly the number of holders (a failed request gives its slot back too), nobody waits while a
  slot is free, and a freed slot goes to the request that has waited longest.
\<close>

theorem token_slots_bounded:
  assumes "slots st hs"
  shows "activeTokenRequests st = length hs \<and> length hs \<le> 6
    \<and> (tokenRequestWaiters st \<noteq> [] \<longrightarrow> length hs = 6)
    \<and> (\<forall>r rest. tokenRequestWaiters st = r # rest \<longrightarrow>
         fst (releaseSlot st) = Some r \<and> tokenRequestWaiters (snd (releaseSlot st)) = rest)"
proof -
  have "activeTokenRequests st = length hs \<and> length hs \<le> 6 \<and> (tokenRequestWaiters st \<noteq> [] \<longrightarrow> length hs = 6)"
    using assms
  proof (induction rule: slots.induct)
    case (start d)
    then show ?case by (simp add: resetTokenRetryState_def)
  next
    case (granted st hs r st')
    then show ?case
      by (auto simp: waitForTokenAttemptSlot_def MAX_CONCURRENT_TOKEN_REQUESTS_def split: if_splits)
  next
    case (queued st hs r st')
    then show ?case
      by (auto simp: waitForTokenAttemptSlot_def MAX_CONCURRENT_TOKEN_REQUESTS_def split: if_splits)
  next
    case (finished st hs h docId expected localEpoch now answer result action "next" st')
    obtain st1 where st1: "activeTokenRequests st1 = activeTokenRequests st" "tokenRequestWaiters st1 = tokenRequestWaiters st"
      "releaseSlot st1 = (next, st')" using finishRequest_slots [OF finished.hyps(3)] by blast
    have "0 < length hs" "length (remove1 h hs) = length hs - 1"
      using finished.hyps(2) by (auto simp: length_remove1)
    then show ?case
      using finished.IH st1 by (auto simp: releaseSlot_def Let_def split: list.splits)
  qed
  then show ?thesis by (auto simp: releaseSlot_def Let_def)
qed

theorem token_slots_bounded_witness:
  "slots (snd (waitForTokenAttemptSlot 1 (resetTokenRetryState 5))) [1]
   \<and> activeTokenRequests (snd (waitForTokenAttemptSlot 1 (resetTokenRetryState 5))) = 1"
proof -
  have s: "slots (snd (waitForTokenAttemptSlot 1 (resetTokenRetryState 5))) [1]"
    by (rule slots.granted [OF slots.start])
      (simp add: waitForTokenAttemptSlot_def resetTokenRetryState_def MAX_CONCURRENT_TOKEN_REQUESTS_def)
  then show ?thesis using token_slots_bounded [OF s] by simp
qed

end
