(* ===== verification/Config_Categories.thy ===== *)
theory Config_Categories
  imports Js_Prelude
begin

text \<open>
  The settings categories of \<open>src/src/configCategories.ts\<close>: the category table, the persisted
  toggles and their sanitizing, and the classification of a path below the config folder.

  The regular expression for workspace files denotes four strings, which are listed. A record of
  toggles is a map from category ids to booleans; the persisted value is a JSON value or
  \<open>undefined\<close> (\<open>None\<close>).
\<close>

section \<open>The category table\<close>

datatype config_category_id =
    MainSettings
  | Appearance
  | ThemesAndSnippets
  | Hotkeys
  | CorePluginList
  | CorePluginSettings
  | CommunityPluginList
  | InstalledCommunityPlugins
  | Workspace

primrec idName :: "config_category_id \<Rightarrow> jstr" where
  "idName MainSettings = lit ''mainSettings''"
| "idName Appearance = lit ''appearance''"
| "idName ThemesAndSnippets = lit ''themesAndSnippets''"
| "idName Hotkeys = lit ''hotkeys''"
| "idName CorePluginList = lit ''corePluginList''"
| "idName CorePluginSettings = lit ''corePluginSettings''"
| "idName CommunityPluginList = lit ''communityPluginList''"
| "idName InstalledCommunityPlugins = lit ''installedCommunityPlugins''"
| "idName Workspace = lit ''workspace''"

record config_category =
  categoryId :: config_category_id
  categoryName :: string
  categoryDesc :: string
  defaultEnabled :: bool
  requiresReload :: bool

definition CONFIG_CATEGORIES :: "config_category list" where
  "CONFIG_CATEGORIES =
    [\<lparr>categoryId = MainSettings, categoryName = ''Main settings'',
       categoryDesc = ''Editor, files & links, and general vault settings (app.json).'',
       defaultEnabled = True, requiresReload = False\<rparr>,
     \<lparr>categoryId = Appearance, categoryName = ''Appearance'',
       categoryDesc = ''Base theme, selected theme, enabled snippet list, and typography (appearance.json).'',
       defaultEnabled = True, requiresReload = False\<rparr>,
     \<lparr>categoryId = ThemesAndSnippets, categoryName = ''Themes and snippets'',
       categoryDesc = ''Downloaded theme files and CSS snippet files (themes/, snippets/).'',
       defaultEnabled = True, requiresReload = True\<rparr>,
     \<lparr>categoryId = Hotkeys, categoryName = ''Hotkeys'',
       categoryDesc = ''Custom hotkeys (hotkeys.json).'',
       defaultEnabled = True, requiresReload = False\<rparr>,
     \<lparr>categoryId = CorePluginList, categoryName = ''Active core plugin list'',
       categoryDesc = ''Which core plugins are enabled (core-plugins.json).'',
       defaultEnabled = True, requiresReload = True\<rparr>,
     \<lparr>categoryId = CorePluginSettings, categoryName = ''Core plugin settings'',
       categoryDesc = ''Settings of core plugins, e.g. daily-notes.json, templates.json, graph.json.'',
       defaultEnabled = True, requiresReload = False\<rparr>,
     \<lparr>categoryId = CommunityPluginList, categoryName = ''Active community plugin list'',
       categoryDesc = ''Which community plugins are enabled (community-plugins.json). Off by default, matching Obsidian Sync.'',
       defaultEnabled = False, requiresReload = True\<rparr>,
     \<lparr>categoryId = InstalledCommunityPlugins, categoryName = ''Installed community plugin list'',
       categoryDesc = ''Community plugin code, settings, and data (plugins/). Off by default, matching Obsidian Sync. The Realtime plugin's own folder is always excluded.'',
       defaultEnabled = False, requiresReload = True\<rparr>,
     \<lparr>categoryId = Workspace, categoryName = ''Workspace layout'',
       categoryDesc = ''Open tabs and pane layout (workspace.json and friends). Obsidian Sync syncs these implicitly; here it is optional because they change on almost every interaction.'',
       defaultEnabled = False, requiresReload = False\<rparr>]"

section \<open>Toggles\<close>

type_synonym config_sync_categories = "(config_category_id, bool) jmap"

definition defaultConfigSyncCategories :: config_sync_categories where
  "defaultConfigSyncCategories =
     fold (\<lambda>category out. jset out (categoryId category) (defaultEnabled category)) CONFIG_CATEGORIES []"

definition sanitizeConfigSyncCategories :: "json option \<Rightarrow> config_sync_categories" where
  "sanitizeConfigSyncCategories v =
     (let out = defaultConfigSyncCategories
      in case v of
           Some (JObj fs) \<Rightarrow>
             fold (\<lambda>category out.
               case jget fs (idName (categoryId category)) of
                 Some (JBool b) \<Rightarrow> jset out (categoryId category) b
               | _ \<Rightarrow> out) CONFIG_CATEGORIES out
         | _ \<Rightarrow> out)"

definition enabledConfigCategories :: "config_sync_categories \<Rightarrow> config_category_id list" where
  "enabledConfigCategories categories =
     map categoryId (filter (\<lambda>c. jget categories (categoryId c) = Some True) CONFIG_CATEGORIES)"

definition RELOAD_CATEGORY_IDS :: "config_category_id list" where
  "RELOAD_CATEGORY_IDS = map categoryId (filter requiresReload CONFIG_CATEGORIES)"

definition categoryRequiresReload :: "config_category_id \<Rightarrow> bool" where
  "categoryRequiresReload c \<longleftrightarrow> c \<in> set RELOAD_CATEGORY_IDS"

section \<open>Classification of paths\<close>

definition categoryForConfigPath :: "jstr \<Rightarrow> config_category_id option" where
  "categoryForConfigPath relPath =
    (if relPath = [] \<or> startsWith relPath (lit ''/'') \<or> 92 \<in> set relPath then None
     else if startsWith relPath (lit ''themes/'') \<or> startsWith relPath (lit ''snippets/'')
       then Some ThemesAndSnippets
     else if startsWith relPath (lit ''plugins/'') then Some InstalledCommunityPlugins
     else if 47 \<in> set relPath then None
     else if relPath = lit ''app.json'' then Some MainSettings
     else if relPath = lit ''appearance.json'' then Some Appearance
     else if relPath = lit ''hotkeys.json'' then Some Hotkeys
     else if relPath = lit ''core-plugins.json'' \<or> relPath = lit ''core-plugins-migration.json''
       then Some CorePluginList
     else if relPath = lit ''community-plugins.json'' then Some CommunityPluginList
     else if relPath \<in> {lit ''workspace.json'', lit ''workspaces.json'', lit ''workspace-mobile.json'',
         lit ''workspaces-mobile.json''} then Some Workspace
     else if endsWith relPath (lit ''.json'') then Some CorePluginSettings
     else None)"

definition categoryForVaultPath :: "jstr \<Rightarrow> jstr \<Rightarrow> config_category_id option" where
  "categoryForVaultPath path configDir =
    (let prefix = configDir @ lit ''/''
     in if \<not> startsWith path prefix then None
        else categoryForConfigPath (drop (length prefix) path))"

section \<open>Facts on toggles and paths\<close>

lemma all_categories: "categoryId ` set CONFIG_CATEGORIES = UNIV"
proof -
  have "c \<in> categoryId ` set CONFIG_CATEGORIES" for c by (cases c) (simp_all add: CONFIG_CATEGORIES_def)
  then show ?thesis by blast
qed

lemma category_listed: obtains x where "x \<in> set CONFIG_CATEGORIES" "categoryId x = c"
  using all_categories by (metis UNIV_I imageE)

lemma distinct_categories: "distinct (map categoryId CONFIG_CATEGORIES)"
  by (simp add: CONFIG_CATEGORIES_def)

text \<open>A loop that overwrites some entries, seen at one key.\<close>

lemma jget_fold_override:
  assumes "distinct (map f xs)"
  shows "jget (fold (\<lambda>x m. case g x of Some b \<Rightarrow> jset m (f x) b | None \<Rightarrow> m) xs m) k =
    (case find (\<lambda>x. f x = k) xs of None \<Rightarrow> jget m k | Some x \<Rightarrow> (case g x of None \<Rightarrow> jget m k | Some b \<Rightarrow> Some b))"
  using assms
proof (induction xs arbitrary: m)
  case Nil
  then show ?case by simp
next
  case (Cons x xs)
  have "f x = k \<Longrightarrow> find (\<lambda>x. f x = k) xs = None" using Cons.prems by (auto simp: find_None_iff image_iff)
  then show ?case using Cons by (auto split: option.splits)
qed

text \<open>What the persisted value says of a category, if anything.\<close>

definition persisted :: "json option \<Rightarrow> config_category_id \<Rightarrow> bool option" where
  "persisted v c =
     (case v of Some (JObj fs) \<Rightarrow> (case jget fs (idName c) of Some (JBool b) \<Rightarrow> Some b | _ \<Rightarrow> None) | _ \<Rightarrow> None)"

definition defaultOf :: "config_category_id \<Rightarrow> bool" where
  "defaultOf c \<longleftrightarrow> c \<notin> {CommunityPluginList, InstalledCommunityPlugins, Workspace}"

lemma jget_default: "jget defaultConfigSyncCategories c = Some (defaultOf c)"
  by (cases c) (simp_all add: defaultConfigSyncCategories_def CONFIG_CATEGORIES_def defaultOf_def)

lemma find_category:
  obtains x where "find (\<lambda>x. categoryId x = c) CONFIG_CATEGORIES = Some x" "categoryId x = c"
proof -
  have "find (\<lambda>x. categoryId x = c) CONFIG_CATEGORIES \<noteq> None"
    by (rule category_listed [of c]) (auto simp: find_None_iff)
  then show ?thesis using that by (auto simp: find_Some_iff)
qed

lemma jget_sanitize:
  "jget (sanitizeConfigSyncCategories v) c = Some (case persisted v c of None \<Rightarrow> defaultOf c | Some b \<Rightarrow> b)"
proof (cases "\<exists>fs. v = Some (JObj fs)")
  case True
  then obtain fs where v: "v = Some (JObj fs)" by blast
  have step: "(\<lambda>category out. case jget fs (idName (categoryId category)) of
                 Some (JBool b) \<Rightarrow> jset out (categoryId category) b | _ \<Rightarrow> out)
     = (\<lambda>x m. case persisted v (categoryId x) of Some b \<Rightarrow> jset m (categoryId x) b | None \<Rightarrow> m)"
    by (intro ext) (simp add: persisted_def v split: option.split json.split)
  obtain x where x: "find (\<lambda>x. categoryId x = c) CONFIG_CATEGORIES = Some x" "categoryId x = c"
    by (rule find_category)
  have "sanitizeConfigSyncCategories v = fold (\<lambda>x m. case persisted v (categoryId x) of Some b \<Rightarrow> jset m (categoryId x) b | None \<Rightarrow> m)
      CONFIG_CATEGORIES defaultConfigSyncCategories"
    unfolding sanitizeConfigSyncCategories_def step [symmetric] by (simp add: v)
  then show ?thesis
    using jget_fold_override [OF distinct_categories, of "\<lambda>x. persisted v (categoryId x)" defaultConfigSyncCategories c] x
    by (simp add: jget_default split: option.split)
next
  case False
  then have "sanitizeConfigSyncCategories v = defaultConfigSyncCategories" "persisted v c = None"
    by (auto simp: sanitizeConfigSyncCategories_def persisted_def split: option.split json.split)
  then show ?thesis by (simp add: jget_default)
qed

lemma enabled_iff: "c \<in> set (enabledConfigCategories cs) \<longleftrightarrow> jget cs c = Some True"
  by (rule category_listed [of c]) (auto simp: enabledConfigCategories_def)

lemma categoryForVaultPath_Some:
  "categoryForVaultPath p d = Some c \<longleftrightarrow> (\<exists>rel. p = d @ lit ''/'' @ rel \<and> categoryForConfigPath rel = Some c)"
  by (auto simp: categoryForVaultPath_def Let_def startsWith_prefix prefix_def)

lemma config_folder_unique:
  assumes "d @ lit ''/'' @ r = d' @ lit ''/'' @ r'" "47 \<notin> set d" "47 \<notin> set d'"
  shows "d = d' \<and> r = r'"
proof -
  have slash: "lit ''/'' = [47]" by (simp add: lit_def)
  have "takeWhile (\<lambda>u. u \<noteq> 47) (e @ lit ''/'' @ s) = e" if "47 \<notin> set e" for e s :: jstr
    using that by (simp add: slash takeWhile_append2 takeWhile_append)
  from this [OF assms(2), of r] this [OF assms(3), of r'] assms(1) have "d = d'" by simp
  then show ?thesis using assms(1) by simp
qed

text \<open>
  Each device only classifies paths of its own settings profile, into one category: when two
  devices classify the same vault path, they have the same config folder, hence agree on the
  category. Whether the category is enabled is decided by the persisted boolean alone, and by
  the default of the category when nothing (or no boolean) was persisted for it; the result
  names no category twice.
\<close>

theorem config_profile_participation:
  assumes "categoryForVaultPath p d = Some c" "categoryForVaultPath p d' = Some c'"
    and "47 \<notin> set d" "47 \<notin> set d'"
  shows "d' = d \<and> c' = c \<and> distinct (enabledConfigCategories (sanitizeConfigSyncCategories v))
    \<and> (c \<in> set (enabledConfigCategories (sanitizeConfigSyncCategories v)) \<longleftrightarrow>
         (case persisted v c of Some b \<Rightarrow> b | None \<Rightarrow> defaultOf c))"
proof -
  obtain rel where rel: "p = d @ lit ''/'' @ rel" "categoryForConfigPath rel = Some c"
    using iffD1 [OF categoryForVaultPath_Some assms(1)] by (elim exE conjE)
  obtain rel' where rel': "p = d' @ lit ''/'' @ rel'" "categoryForConfigPath rel' = Some c'"
    using iffD1 [OF categoryForVaultPath_Some assms(2)] by (elim exE conjE)
  have "d = d' \<and> rel = rel'" by (rule config_folder_unique [OF trans [OF rel(1) [symmetric] rel'(1)] assms(3,4)])
  then have same: "d' = d" "c' = c" using rel(2) rel'(2) by simp_all
  have "distinct (map categoryId (filter P CONFIG_CATEGORIES))" for P
    using distinct_categories by (rule distinct_map_filter)
  then have dist: "distinct (enabledConfigCategories cs)" for cs unfolding enabledConfigCategories_def .
  have "c \<in> set (enabledConfigCategories (sanitizeConfigSyncCategories v)) \<longleftrightarrow>
      (case persisted v c of Some b \<Rightarrow> b | None \<Rightarrow> defaultOf c)"
    unfolding enabled_iff jget_sanitize by (cases "persisted v c") simp_all
  then show ?thesis by (intro conjI same dist)
qed

theorem config_profile_participation_witness:
  "categoryForVaultPath (lit ''.obsidian/app.json'') (lit ''.obsidian'') = Some MainSettings
   \<and> MainSettings \<notin> set (enabledConfigCategories (sanitizeConfigSyncCategories (Some (JObj [(lit ''mainSettings'', JBool False)]))))"
proof -
  have p: "categoryForVaultPath (lit ''.obsidian/app.json'') (lit ''.obsidian'') = Some MainSettings"
    by (simp add: categoryForVaultPath_def categoryForConfigPath_def startsWith_def Let_def) (simp add: lit_def)
  moreover have "(47 :: 16 word) \<notin> set (lit ''.obsidian'')" by (simp add: lit_def)
  ultimately show ?thesis
    using config_profile_participation [OF p p, of "Some (JObj [(lit ''mainSettings'', JBool False)])"]
    by (simp add: persisted_def)
qed

end
