(* ===== verification/Async_Script.thy ===== *)
theory Async_Script
  imports Js_Prelude
begin

text \<open>
  Asynchronous code. An operation takes the state to the state and a result, \<open>None\<close> when
  the code throws. The state carries a script: every \<open>await\<close> consumes one item, which says what
  happens before and after the awaited effect and whether the awaited call fails. A statement about
  every script is then one about every interleaving at the \<open>await\<close>s. The state also carries the trace
  of the actions taken so far, which no operation reads.

  The locale \<open>scripted\<close> is the contract of what happens meanwhile: it takes no action of the
  component's own. Its triples say that an operation only takes actions that are justified by
  the actions before them.
\<close>

section \<open>Operations\<close>

datatype 'e script_item = Meanwhile (happensBefore: "'e list") (fails: bool) (happensAfter: "'e list")

record ('e, 'a) async =
  script :: "'e script_item list"
  trace :: "'a list"

type_synonym ('s, 'r) async_op = "'s \<Rightarrow> 'r option \<times> 's"

definition andThen :: "('s, 'a) async_op \<Rightarrow> ('a \<Rightarrow> ('s, 'b) async_op) \<Rightarrow> ('s, 'b) async_op" where
  "andThen m f s = (case m s of (None, s') \<Rightarrow> (None, s') | (Some x, s') \<Rightarrow> f x s')"

definition give :: "'a \<Rightarrow> ('s, 'a) async_op" where
  "give x s = (Some x, s)"

text \<open>A call whose rejection is caught: \<open>None\<close> when it was rejected.\<close>

definition caught :: "('s, 'a) async_op \<Rightarrow> ('s, 'a option) async_op" where
  "caught m s = (case m s of (r, s') \<Rightarrow> (Some r, s'))"

definition awaiting ::
  "('e \<Rightarrow> ('e, 'a, 'z) async_scheme \<Rightarrow> ('e, 'a, 'z) async_scheme) \<Rightarrow> (('e, 'a, 'z) async_scheme, 'r) async_op
     \<Rightarrow> (('e, 'a, 'z) async_scheme, 'r) async_op" where
  "awaiting occur effect s =
    (case script s of
       [] \<Rightarrow> effect s
     | Meanwhile before f after # rest \<Rightarrow>
         (let s1 = fold occur before (s\<lparr>script := rest\<rparr>)
          in if f then (None, fold occur after s1)
             else case effect s1 of (r, s2) \<Rightarrow> (r, fold occur after s2)))"

definition act :: "'a \<Rightarrow> ('e, 'a, 'z) async_scheme \<Rightarrow> ('e, 'a, 'z) async_scheme" where
  "act a s = s\<lparr>trace := trace s @ [a]\<rparr>"

lemma awaiting_quiet [simp]: "script s = [] \<Longrightarrow> awaiting occur m s = m s"
  by (simp add: awaiting_def)

lemma act_simps [simp]: "script (act a s) = script s" "trace (act a s) = trace s @ [a]"
  by (simp_all add: act_def)

section \<open>Justified actions\<close>

text \<open>Each action is justified, given the actions before it.\<close>

fun traceOk :: "('a list \<Rightarrow> 'a \<Rightarrow> bool) \<Rightarrow> 'a list \<Rightarrow> 'a list \<Rightarrow> bool" where
  "traceOk ok earlier [] = True"
| "traceOk ok earlier (a # as) = (ok earlier a \<and> traceOk ok (earlier @ [a]) as)"

definition good :: "('a list \<Rightarrow> 'a \<Rightarrow> bool) \<Rightarrow> ('e, 'a, 'z) async_scheme \<Rightarrow> bool" where
  "good ok s \<longleftrightarrow> traceOk ok [] (trace s)"

text \<open>From a good state in which the actions \<open>A\<close> have happened, the operation leads to a good state in
  which they have, and those of \<open>B\<close> of the result.\<close>

definition hoare :: "('a list \<Rightarrow> 'a \<Rightarrow> bool) \<Rightarrow> 'a set \<Rightarrow> (('e, 'a, 'z) async_scheme, 'r) async_op \<Rightarrow> ('r \<Rightarrow> 'a set) \<Rightarrow> bool" where
  "hoare ok A m B \<longleftrightarrow> (\<forall>s r s'. m s = (r, s') \<longrightarrow> good ok s \<longrightarrow> A \<subseteq> set (trace s) \<longrightarrow>
     good ok s' \<and> A \<subseteq> set (trace s') \<and> (\<forall>x. r = Some x \<longrightarrow> B x \<subseteq> set (trace s')))"

abbreviation safe :: "('a list \<Rightarrow> 'a \<Rightarrow> bool) \<Rightarrow> 'a set \<Rightarrow> (('e, 'a, 'z) async_scheme, 'r) async_op \<Rightarrow> bool" where
  "safe ok A m \<equiv> hoare ok A m (\<lambda>_. {})"

lemma traceOk_append: "traceOk ok e (xs @ ys) \<longleftrightarrow> traceOk ok e xs \<and> traceOk ok (e @ xs) ys"
  by (induction xs arbitrary: e) auto

lemma good_act: "good ok (act a s) \<longleftrightarrow> good ok s \<and> ok (trace s) a"
  by (simp add: good_def traceOk_append)

lemma good_cong: "trace s' = trace s \<Longrightarrow> good ok s' = good ok s"
  by (simp add: good_def)

named_theorems safe_intros \<open>rules for safe operations\<close>

lemma hoareI:
  assumes "\<And>s r s'. m s = (r, s') \<Longrightarrow> good ok s \<Longrightarrow> A \<subseteq> set (trace s) \<Longrightarrow>
     good ok s' \<and> A \<subseteq> set (trace s') \<and> (\<forall>x. r = Some x \<longrightarrow> B x \<subseteq> set (trace s'))"
  shows "hoare ok A m B"
  using assms unfolding hoare_def by blast

lemma hoareD:
  assumes "hoare ok A m B" "m s = (r, s')" "good ok s" "A \<subseteq> set (trace s)"
  shows "good ok s' \<and> A \<subseteq> set (trace s') \<and> (\<forall>x. r = Some x \<longrightarrow> B x \<subseteq> set (trace s'))"
  using assms unfolding hoare_def by blast

lemma hoare_andThen:
  assumes m: "hoare ok A m B" and f: "\<And>x. hoare ok (A \<union> B x) (f x) C"
  shows "hoare ok A (andThen m f) C"
proof (rule hoareI)
  fix s r s'
  assume r: "andThen m f s = (r, s')" and g: "good ok s" "A \<subseteq> set (trace s)"
  obtain r1 s1 where m1: "m s = (r1, s1)" by fastforce
  note one = hoareD [OF m m1 g]
  show "good ok s' \<and> A \<subseteq> set (trace s') \<and> (\<forall>x. r = Some x \<longrightarrow> C x \<subseteq> set (trace s'))"
  proof (cases r1)
    case None
    then show ?thesis using r m1 one by (simp add: andThen_def)
  next
    case (Some x)
    then have "f x s1 = (r, s')" "A \<union> B x \<subseteq> set (trace s1)" using r m1 one by (simp_all add: andThen_def)
    then show ?thesis using hoareD [OF f [of x]] one by blast
  qed
qed

lemma safe_same: "(\<And>s. trace (snd (m s)) = trace s) \<Longrightarrow> safe ok A m"
  unfolding hoare_def good_def by (metis empty_subsetI snd_conv)

lemma safe_andThen [safe_intros]: "safe ok A m \<Longrightarrow> (\<And>x. safe ok A (f x)) \<Longrightarrow> safe ok A (andThen m f)"
  by (rule hoare_andThen [where B = "\<lambda>_. {}"]) simp_all

lemma safe_state:
  assumes "\<And>s. \<exists>m. f s = m s \<and> safe ok A m"
  shows "safe ok A f"
  using assms unfolding hoare_def by metis

lemma safe_give [safe_intros]: "safe ok A (give x)"
  by (rule safe_same) (simp add: give_def)

lemma safe_return [safe_intros]: "safe ok A (\<lambda>s. (r, s))" "safe ok A (\<lambda>s. (q s, s))"
  by (rule safe_same; simp)+

lemma safe_if [safe_intros]: "(b \<Longrightarrow> safe ok A m) \<Longrightarrow> (\<not> b \<Longrightarrow> safe ok A n) \<Longrightarrow> safe ok A (if b then m else n)"
  by simp

lemma safe_ifState [safe_intros]: "safe ok A m \<Longrightarrow> safe ok A n \<Longrightarrow> safe ok A (\<lambda>s. if b s then m s else n s)"
  unfolding hoare_def by (metis (mono_tags))

lemma safe_optionState [safe_intros]:
  "safe ok A m \<Longrightarrow> (\<And>x. safe ok A (n x)) \<Longrightarrow> safe ok A (\<lambda>s. case x of None \<Rightarrow> m s | Some x \<Rightarrow> n x s)"
  by (cases x) simp_all

lemma safe_caught [safe_intros]:
  assumes "safe ok A m"
  shows "safe ok A (caught m)"
proof (rule hoareI)
  fix s r s'
  assume r: "caught m s = (r, s')" and g: "good ok s" "A \<subseteq> set (trace s)"
  obtain r1 where "m s = (r1, s')" using r by (auto simp: caught_def split: prod.splits)
  from hoareD [OF assms this g]
  show "good ok s' \<and> A \<subseteq> set (trace s') \<and> (\<forall>x. r = Some x \<longrightarrow> {} \<subseteq> set (trace s'))" by simp
qed

lemma safe_after: "safe ok A m \<Longrightarrow> (\<And>s. trace (f s) = trace s) \<Longrightarrow> safe ok A (\<lambda>s. m (f s))"
  unfolding hoare_def good_def by metis

text \<open>An operation that goes on after taking some justified actions.\<close>

lemma safe_step:
  assumes "\<And>s. A \<subseteq> set (trace s) \<Longrightarrow> \<exists>m s' as. f s = m s' \<and> trace s' = trace s @ as \<and> traceOk ok (trace s) as \<and> safe ok A m"
  shows "safe ok A f"
proof (rule hoareI)
  fix s r s'
  assume r: "f s = (r, s')" and g: "good ok s" "A \<subseteq> set (trace s)"
  obtain m s1 as where s1: "f s = m s1" "trace s1 = trace s @ as" "traceOk ok (trace s) as" "safe ok A m" using assms [OF g(2)] by blast
  then have "good ok s1" "A \<subseteq> set (trace s1)" using g by (auto simp: good_def traceOk_append)
  with hoareD [OF s1(4)] r s1(1) show "good ok s' \<and> A \<subseteq> set (trace s') \<and> (\<forall>x. r = Some x \<longrightarrow> {} \<subseteq> set (trace s'))" by metis
qed

lemma safe_good: "safe ok {} m \<Longrightarrow> good ok s \<Longrightarrow> good ok (snd (m s))"
  unfolding hoare_def by (metis empty_subsetI prod.collapse)

lemma good_if: "good ok (snd x) \<Longrightarrow> good ok (snd y) \<Longrightarrow> good ok (snd (if b then x else y))"
  by simp

section \<open>What happens meanwhile\<close>

locale scripted =
  fixes occur :: "'e \<Rightarrow> ('e, 'a, 'z) async_scheme \<Rightarrow> ('e, 'a, 'z) async_scheme"
  assumes trace_occur: "trace (occur e s) = trace s"
begin

lemma trace_events: "trace (fold occur es s) = trace s"
  by (induction es arbitrary: s) (simp_all add: trace_occur)

lemma hoare_awaiting:
  assumes m: "hoare ok A m B"
  shows "hoare ok A (awaiting occur m) B"
proof (rule hoareI)
  fix s r s'
  assume r: "awaiting occur m s = (r, s')" and g: "good ok s" "A \<subseteq> set (trace s)"
  show "good ok s' \<and> A \<subseteq> set (trace s') \<and> (\<forall>x. r = Some x \<longrightarrow> B x \<subseteq> set (trace s'))"
  proof (cases "script s")
    case Nil
    then show ?thesis using hoareD [OF m _ g] r by simp
  next
    case (Cons i rest)
    obtain b f a where i: "i = Meanwhile b f a" by (cases i)
    define s1 where "s1 = fold occur b (s\<lparr>script := rest\<rparr>)"
    have t: "trace s1 = trace s" by (simp add: s1_def trace_events)
    show ?thesis
    proof (cases f)
      case True
      then show ?thesis using r g Cons i t by (auto simp: awaiting_def s1_def Let_def good_def trace_events)
    next
      case False
      obtain r1 s2 where m1: "m s1 = (r1, s2)" by fastforce
      then have "r = r1" "s' = fold occur a s2" using r Cons i False by (simp_all add: awaiting_def s1_def Let_def)
      moreover have "good ok s1" "A \<subseteq> set (trace s1)" using g t by (simp_all add: good_def)
      ultimately show ?thesis using hoareD [OF m m1] by (simp add: good_def trace_events)
    qed
  qed
qed

lemma awaiting_give:
  assumes "awaiting occur (give v) s = (Some x, s')"
  shows "x = v"
  using assms by (auto simp: awaiting_def give_def Let_def split: list.splits script_item.splits if_splits)

lemma safe_awaitGive:
  assumes "safe ok A (f v)"
  shows "safe ok A (andThen (awaiting occur (give v)) f)"
proof (rule hoareI)
  fix s r s'
  assume r: "andThen (awaiting occur (give v)) f s = (r, s')" and g: "good ok s" "A \<subseteq> set (trace s)"
  obtain r1 s1 where m: "awaiting occur (give v) s = (r1, s1)" by fastforce
  note one = hoareD [OF hoare_awaiting [OF safe_give] m g]
  show "good ok s' \<and> A \<subseteq> set (trace s') \<and> (\<forall>x. r = Some x \<longrightarrow> {} \<subseteq> set (trace s'))"
  proof (cases r1)
    case None
    then show ?thesis using r m one by (simp add: andThen_def)
  next
    case (Some x)
    then have "f v s1 = (r, s')" using r m awaiting_give [of v s x s1] by (simp add: andThen_def)
    then show ?thesis using hoareD [OF assms] one by blast
  qed
qed

end

end
