(* ===== verification/Conflict_Recovery.thy ===== *)
theory Conflict_Recovery
  imports Text_Diff Document_Epoch
begin

text \<open>
  Recovery copies: \<open>src/src/conflictRecovery.ts\<close>, \<open>ensureParentFolder\<close> of
  \<open>src/src/vaultHelpers.ts\<close> and the glob lists of \<open>src/src/glob.ts\<close>.

  Obsidian's \<open>normalizePath\<close>, the Unicode letter and number classes of the regular expression
  in \<open>sourceLabel\<close> and \<open>picomatch\<close> are arguments. The vault is a map from paths to contents
  with a list of folders; \<open>create\<close> refuses an existing path and a missing parent folder, as
  Obsidian does. A date is given by its UTC fields. The loop that looks for a free name is a
  recursion whose termination is proved: different copy numbers give different names.
\<close>

section \<open>The vault\<close>

record 'c vault =
  files :: "(jstr, 'c) jmap"
  folders :: "jstr list"

datatype vault_error = AlreadyExists | NoParentFolder

definition getAbstractFileByPath :: "('c, 'z) vault_scheme \<Rightarrow> jstr \<Rightarrow> bool" where
  "getAbstractFileByPath v p \<longleftrightarrow> jhas (files v) p \<or> p \<in> set (folders v)"

definition folderOf :: "jstr \<Rightarrow> jstr" where
  "folderOf p = take (nat (lastIndexOf p 47)) p"

definition createFile :: "'c vault \<Rightarrow> jstr \<Rightarrow> 'c \<Rightarrow> vault_error + 'c vault" where
  "createFile v p c =
    (if getAbstractFileByPath v p then Inl AlreadyExists
     else if lastIndexOf p 47 > 0 \<and> folderOf p \<notin> set (folders v) then Inl NoParentFolder
     else Inr (v\<lparr>files := jset (files v) p c\<rparr>))"

definition createFolder :: "'c vault \<Rightarrow> jstr \<Rightarrow> vault_error + 'c vault" where
  "createFolder v p =
    (if getAbstractFileByPath v p then Inl AlreadyExists else Inr (v\<lparr>folders := folders v @ [p]\<rparr>))"

text \<open>The loop of \<open>ensureParentFolder\<close>; an error of \<open>createFolder\<close> is ignored.\<close>

fun folderLoop :: "'c vault \<Rightarrow> jstr \<Rightarrow> jstr list \<Rightarrow> 'c vault" where
  "folderLoop v current [] = v"
| "folderLoop v current (part # parts) =
    (if part = [] then folderLoop v current parts
     else let current' = (if current \<noteq> [] then current @ lit ''/'' @ part else part)
          in if getAbstractFileByPath v current' then folderLoop v current' parts
             else folderLoop (case createFolder v current' of Inr v' \<Rightarrow> v' | Inl _ \<Rightarrow> v) current' parts)"

definition ensureParentFolder :: "'c vault \<Rightarrow> jstr \<Rightarrow> 'c vault" where
  "ensureParentFolder v path =
    (let slash = lastIndexOf path 47
     in if slash \<le> 0 then v else folderLoop v [] (splitOn 47 (take (nat slash) path)))"

section \<open>Names of recovery copies\<close>

record conflict_env =
  normalizePath :: "jstr \<Rightarrow> jstr"
  letterOrNumber :: "jstr \<Rightarrow> bool"
  clientName :: jstr

datatype conflict_source = LocalSide | RemoteSide

record date =
  year :: nat
  month :: nat
  day :: nat
  hours :: nat
  minutes :: nat
  seconds :: nat
  millis :: nat

definition isLineTerminator :: "16 word \<Rightarrow> bool" where
  "isLineTerminator u \<longleftrightarrow> u \<in> {10, 13, 0x2028, 0x2029}"

definition COPY_MARK :: jstr where
  "COPY_MARK = lit '' (conflicted copy ''"

text \<open>\<open>CONFLICT_COPY_RE\<close>: the mark, at least one character that ends no line, a closing parenthesis, the end.\<close>

definition matchesCopy :: "jstr \<Rightarrow> bool" where
  "matchesCopy s \<longleftrightarrow> list_ex (\<lambda>i. startsWith (drop i s) COPY_MARK
     \<and> (let m = drop (i + length COPY_MARK) s
        in 2 \<le> length m \<and> last m = 41 \<and> list_all (\<lambda>u. \<not> isLineTerminator u) (butlast m))) [0..<length s]"

definition isConflictCopy :: "conflict_env \<Rightarrow> jstr \<Rightarrow> bool" where
  "isConflictCopy E path =
    (let normalized = normalizePath E path; dot = lastIndexOf normalized 46;
         base = (if dot > lastIndexOf normalized 47 then take (nat dot) normalized else normalized)
     in matchesCopy base)"

text \<open>The code points of a string, a surrogate pair being one.\<close>

fun codePoints :: "jstr \<Rightarrow> jstr list" where
  "codePoints (h # l # s) =
    (if isHighSurrogate h \<and> isLowSurrogate l then [h, l] # codePoints s else [h] # codePoints (l # s))"
| "codePoints s = map (\<lambda>u. [u]) s"

text \<open>\<open>replace(/P+/g, r)\<close>: every maximal run of matching elements becomes one.\<close>

function replaceRuns :: "('a \<Rightarrow> bool) \<Rightarrow> 'a \<Rightarrow> 'a list \<Rightarrow> 'a list" where
  "replaceRuns P r [] = []"
| "replaceRuns P r (x # xs) = (if P x then r # replaceRuns P r (dropWhile P xs) else x # replaceRuns P r xs)"
  by pat_completeness auto
termination
  by (relation "measure (\<lambda>(_, _, xs). length xs)") (auto simp: less_Suc_eq_le length_dropWhile_le)

definition labelChar :: "conflict_env \<Rightarrow> jstr \<Rightarrow> bool" where
  "labelChar E cp \<longleftrightarrow> letterOrNumber E cp \<or> cp \<in> {lit '' '', lit ''_'', lit ''-''}"

definition sourceLabel :: "conflict_env \<Rightarrow> conflict_source \<Rightarrow> jstr" where
  "sourceLabel E source =
    (if source = RemoteSide then lit ''Remote''
     else let label = trim (replaceRuns isSpace 32
                 (concat (replaceRuns (\<lambda>cp. \<not> labelChar E cp) (lit '' '') (codePoints (clientName E)))))
          in if label = [] then lit ''This device'' else label)"

definition padded :: "nat \<Rightarrow> nat \<Rightarrow> jstr" where
  "padded w n = replicate (w - length (decimal n)) 48 @ decimal n"

definition toISOString :: "date \<Rightarrow> jstr" where
  "toISOString d = padded 4 (year d) @ lit ''-'' @ padded 2 (month d) @ lit ''-'' @ padded 2 (day d)
     @ lit ''T'' @ padded 2 (hours d) @ lit '':'' @ padded 2 (minutes d) @ lit '':'' @ padded 2 (seconds d)
     @ lit ''.'' @ padded 3 (millis d) @ lit ''Z''"

fun replaceFirst :: "'a \<Rightarrow> 'a \<Rightarrow> 'a list \<Rightarrow> 'a list" where
  "replaceFirst c d [] = []"
| "replaceFirst c d (x # xs) = (if x = c then d # xs else x # replaceFirst c d xs)"

definition timestamp :: "date \<Rightarrow> jstr" where
  "timestamp now = slice (replaceFirst 84 32 (filter (\<lambda>u. u \<noteq> 45 \<and> u \<noteq> 58) (toISOString now))) 0 15"

definition splitPath :: "jstr \<Rightarrow> jstr \<times> jstr" where
  "splitPath path =
    (let slash = lastIndexOf path 47; dot = lastIndexOf path 46
     in if dot \<le> slash then (path, []) else (take (nat dot) path, drop (nat dot) path))"

definition candidatePath :: "conflict_env \<Rightarrow> jstr \<Rightarrow> conflict_source \<Rightarrow> date \<Rightarrow> nat \<Rightarrow> jstr" where
  "candidatePath E path source now copy =
    (let (stem, extension) = splitPath (normalizePath E path);
         suffix = lit ''conflicted copy '' @ sourceLabel E source @ lit '' '' @ timestamp now
     in stem @ lit '' ('' @ suffix @ (if copy > 1 then lit '' '' @ decimal copy else []) @ lit '')'' @ extension)"

subsection \<open>The search for a free name\<close>

lemma candidatePath_inject:
  "1 < j \<Longrightarrow> 1 < k \<Longrightarrow> candidatePath E path source now j = candidatePath E path source now k \<Longrightarrow> j = k"
  by (simp add: candidatePath_def split_beta Let_def decimal_inject)

lemma finite_taken_copies: "finite {k. candidatePath E path source now k \<in> set taken}"
proof -
  let ?c = "candidatePath E path source now"
  have "finite (?c ` {k. 1 < k \<and> ?c k \<in> set taken})" by (rule finite_subset [of _ "set taken"]) auto
  moreover have "inj_on ?c {k. 1 < k \<and> ?c k \<in> set taken}"
    by (intro inj_onI) (auto intro: candidatePath_inject)
  ultimately have "finite {k. 1 < k \<and> ?c k \<in> set taken}" by (rule finite_imageD)
  moreover have "{k. ?c k \<in> set taken} \<subseteq> {0, 1} \<union> {k. 1 < k \<and> ?c k \<in> set taken}" by auto
  ultimately show ?thesis by (meson finite.emptyI finite_UnI finite_insert finite_subset)
qed

text \<open>The number of the candidate in hand is \<open>copy\<close>; \<open>taken\<close> are the paths in use.\<close>

function freeCopy :: "conflict_env \<Rightarrow> jstr \<Rightarrow> conflict_source \<Rightarrow> date \<Rightarrow> jstr list \<Rightarrow> nat \<Rightarrow> jstr" where
  "freeCopy E path source now taken copy =
    (if candidatePath E path source now copy \<in> set taken
     then freeCopy E path source now taken (Suc copy)
     else candidatePath E path source now copy)"
  by pat_completeness auto
termination
proof (relation "measure (\<lambda>(E, path, source, now, taken, copy).
    card {k. copy \<le> k \<and> candidatePath E path source now k \<in> set taken})")
  fix E path source now taken copy
  let ?T = "\<lambda>n. {k. n \<le> k \<and> candidatePath E path source now k \<in> set taken}"
  assume "candidatePath E path source now copy \<in> set taken"
  then have "copy \<in> ?T copy - ?T (Suc copy)" "?T (Suc copy) \<subseteq> ?T copy" by auto
  then have "?T (Suc copy) \<subset> ?T copy" by blast
  moreover have "finite (?T copy)" by (rule finite_subset [OF _ finite_taken_copies [of E path source now taken]]) auto
  ultimately have "card (?T (Suc copy)) < card (?T copy)" by (simp add: psubset_card_mono)
  then show "((E, path, source, now, taken, Suc copy), (E, path, source, now, taken, copy)) \<in>
      measure (\<lambda>(E, path, source, now, taken, copy). card {k. copy \<le> k \<and> candidatePath E path source now k \<in> set taken})"
    by simp
qed simp

declare freeCopy.simps [simp del]

definition conflictCopyPath :: "conflict_env \<Rightarrow> 'c vault \<Rightarrow> jstr \<Rightarrow> conflict_source \<Rightarrow> date \<Rightarrow> jstr" where
  "conflictCopyPath E v path source now = freeCopy E path source now (jkeys (files v) @ folders v) 1"

section \<open>Keeping a version in a recovery copy\<close>

text \<open>The adapter writes without asking for the parent folder of a settings file: the file itself is in it.\<close>

definition preserveAdapterConflict ::
  "conflict_env \<Rightarrow> (jstr, 'c) jmap \<Rightarrow> jstr \<Rightarrow> 'c \<Rightarrow> conflict_source \<Rightarrow> date \<Rightarrow> jstr \<times> (jstr, 'c) jmap" where
  "preserveAdapterConflict E disk path content source now =
    (let destination = freeCopy E path source now (jkeys disk) 1
     in (destination, jset disk destination content))"

definition preserveConflict ::
  "conflict_env \<Rightarrow> 'c vault \<Rightarrow> jstr \<Rightarrow> 'c \<Rightarrow> conflict_source \<Rightarrow> date \<Rightarrow> vault_error + (jstr \<times> 'c vault)" where
  "preserveConflict E v path content source now =
    (let destination = conflictCopyPath E v path source now
     in case createFile (ensureParentFolder v destination) destination content of
          Inl e \<Rightarrow> Inl e
        | Inr v' \<Rightarrow> Inr (destination, v'))"

text \<open>The recovery copies of a path, as \<open>updateTextConflict\<close> recognises them.\<close>

definition isCopyOf :: "conflict_env \<Rightarrow> jstr \<Rightarrow> jstr \<Rightarrow> bool" where
  "isCopyOf E path file =
    (let (stem, extension) = splitPath (normalizePath E path)
     in startsWith file (stem @ COPY_MARK) \<and> endsWith file (lit '')'' @ extension))"

definition updateTextConflict ::
  "conflict_env \<Rightarrow> jstr vault \<Rightarrow> jstr \<Rightarrow> jstr \<Rightarrow> conflict_source \<Rightarrow> jstr option \<Rightarrow> date
     \<Rightarrow> vault_error + (jstr option \<times> jstr vault)" where
  "updateTextConflict E v path content source current now =
    (case current of
       Some c \<Rightarrow>
         if jhas (files v) c then Inr (Some c, v\<lparr>files := jset (files v) c content\<rparr>)
         else if list_ex (\<lambda>(p, text). isCopyOf E path p \<and> text = content) (files v) then Inr (None, v)
         else (case preserveConflict E v path content source now of Inl e \<Rightarrow> Inl e | Inr (d, v') \<Rightarrow> Inr (Some d, v'))
     | None \<Rightarrow>
         if list_ex (\<lambda>(p, text). isCopyOf E path p \<and> text = content) (files v) then Inr (None, v)
         else (case preserveConflict E v path content source now of Inl e \<Rightarrow> Inl e | Inr (d, v') \<Rightarrow> Inr (Some d, v')))"

section \<open>Glob lists\<close>

definition parseGlobs :: "jstr \<Rightarrow> jstr list" where
  "parseGlobs list = filter (\<lambda>s. length s > 0) (map trim (splitOn 44 list))"

definition matchesAnyGlob :: "(jstr \<Rightarrow> jstr \<Rightarrow> bool) \<Rightarrow> jstr \<Rightarrow> jstr list \<Rightarrow> bool" where
  "matchesAnyGlob isMatch path globs =
    foldl (\<lambda>matched glob.
      let negated = startsWith glob (lit ''!''); pattern = (if negated then drop 1 glob else glob)
      in if pattern = [] then matched else if isMatch path pattern then \<not> negated else matched) False globs"

section \<open>Where a name is cut\<close>

lemma lastIndexOf_drop: "c \<in> set (drop i s) \<Longrightarrow> int i \<le> lastIndexOf s c"
proof -
  assume c: "c \<in> set (drop i s)"
  then have "i \<le> length s" by (cases "i \<le> length s") auto
  have "lastIndexOf (take i s @ drop i s) c = int (length (take i s)) + lastIndexOf (drop i s) c"
    using c by (simp only: lastIndexOf_append if_True)
  moreover have "0 \<le> lastIndexOf (drop i s) c" using c lastIndexOf_nonneg by metis
  ultimately show ?thesis using \<open>i \<le> length s\<close> by simp
qed

lemma lastIndexOf_split:
  assumes "0 \<le> lastIndexOf s c"
  shows "drop (nat (lastIndexOf s c)) s = c # drop (Suc (nat (lastIndexOf s c))) s
    \<and> c \<notin> set (drop (Suc (nat (lastIndexOf s c))) s)"
  using assms
proof (induction s)
  case Nil
  then show ?case by simp
next
  case (Cons x s)
  show ?case
  proof (cases "0 \<le> lastIndexOf s c")
    case True
    then have "nat (lastIndexOf (x # s) c) = Suc (nat (lastIndexOf s c))" by simp
    then show ?thesis using Cons.IH [OF True] by simp
  next
    case False
    then have "c \<notin> set s" using lastIndexOf_nonneg by metis
    then show ?thesis using Cons.prems False by (simp add: Let_def split: if_splits)
  qed
qed

lemma splitPath_cases:
  assumes "splitPath p = (stem, ext)"
  obtains "stem = p" "ext = []" "lastIndexOf p 46 \<le> lastIndexOf p 47"
  | r where "p = stem @ ext" "ext = 46 # r" "46 \<notin> set r" "47 \<notin> set r"
proof (cases "lastIndexOf p 46 \<le> lastIndexOf p 47")
  case True
  then show ?thesis using assms that(1) by (simp add: splitPath_def)
next
  case False
  let ?d = "nat (lastIndexOf p 46)"
  have d: "0 \<le> lastIndexOf p 46" using False lastIndexOf_ge [of p 47] by simp
  note cut = lastIndexOf_split [OF d]
  have "47 \<notin> set (drop ?d p)" using lastIndexOf_drop [of 47 ?d p] False d by auto
  then have "47 \<notin> set (drop (Suc ?d) p)" using cut by (metis list.set_intros(2))
  moreover have "stem = take ?d p" "ext = drop ?d p" using assms False by (simp_all add: splitPath_def Let_def)
  moreover have "p = take ?d p @ drop ?d p" by simp
  ultimately show ?thesis using that(2) [of "drop (Suc ?d) p"] cut by metis
qed

section \<open>Recovery names are recognised\<close>

text \<open>Characters that may stand between the mark and the closing parenthesis.\<close>

definition innerChar :: "16 word \<Rightarrow> bool" where
  "innerChar u \<longleftrightarrow> u \<noteq> 46 \<and> u \<noteq> 47 \<and> \<not> isLineTerminator u"

lemma set_replaceRuns: "set (replaceRuns P r xs) \<subseteq> insert r {x \<in> set xs. \<not> P x}"
proof (induction P r xs rule: replaceRuns.induct)
  case (2 P r x xs)
  then show ?case by (auto dest: set_dropWhileD)
qed simp

lemma set_codePoints:
  "cp \<in> set (codePoints s) \<Longrightarrow> (\<exists>u. cp = [u]) \<or> (\<exists>h l. cp = [h, l] \<and> isHighSurrogate h \<and> isLowSurrogate l)"
  by (induction s rule: codePoints.induct) (auto split: if_splits)

lemma surrogate_inner: "isHighSurrogate u \<or> isLowSurrogate u \<Longrightarrow> innerChar u"
  unfolding isHighSurrogate_def isLowSurrogate_def innerChar_def isLineTerminator_def
  by (auto simp: word_le_nat_alt)

lemma lit_inner: "list_all (\<lambda>c. c \<notin> {CHR ''.'', CHR ''/'', CHR 0x0A, CHR 0x0D}) s \<Longrightarrow> u \<in> set (lit s) \<Longrightarrow> innerChar u"
proof -
  assume "list_all (\<lambda>c. c \<notin> {CHR ''.'', CHR ''/'', CHR 0x0A, CHR 0x0D}) s" "u \<in> set (lit s)"
  then obtain c where c: "u = word_of_nat (of_char c)" "c \<notin> {CHR ''.'', CHR ''/'', CHR 0x0A, CHR 0x0D}"
    by (auto simp: lit_def list_all_iff)
  have "(46 :: 16 word) = word_of_nat (of_char (CHR ''.''))" "(47 :: 16 word) = word_of_nat (of_char (CHR ''/''))"
      "(10 :: 16 word) = word_of_nat (of_char (CHR 0x0A))" "(13 :: 16 word) = word_of_nat (of_char (CHR 0x0D))"
    by simp_all
  then have "u \<notin> {46, 47, 10, 13}" using c by (metis insert_iff singletonD unit_of_char_inject)
  moreover have "unat u < 256" using c(1) by simp
  then have "u \<noteq> 0x2028" "u \<noteq> 0x2029" by auto
  ultimately show ?thesis by (simp add: innerChar_def isLineTerminator_def)
qed

lemma set_trim: "set (trim s) \<subseteq> set s"
  unfolding trim_def using set_dropWhileD [of _ isSpace] by (metis set_rev subsetI)

lemma sourceLabel_inner:
  assumes "\<not> letterOrNumber E (lit ''.'')" "\<not> letterOrNumber E (lit ''/'')" "u \<in> set (sourceLabel E source)"
  shows "innerChar u"
proof -
  let ?s = "concat (replaceRuns (\<lambda>cp. \<not> labelChar E cp) (lit '' '') (codePoints (clientName E)))"
  have inner: "innerChar u" if "u \<in> set ?s" "\<not> isSpace u" for u
  proof -
    obtain cp where cp: "u \<in> set cp" "cp = lit '' '' \<or> labelChar E cp \<and> cp \<in> set (codePoints (clientName E))"
      using \<open>u \<in> set ?s\<close> set_replaceRuns [of "\<lambda>cp. \<not> labelChar E cp" "lit '' ''"] by fastforce
    show ?thesis
    proof (cases "cp = lit '' ''")
      case True
      then show ?thesis using cp(1) by (auto intro: lit_inner [of "'' ''"])
    next
      case False
      then have l: "labelChar E cp" "cp \<in> set (codePoints (clientName E))" using cp(2) by auto
      from set_codePoints [OF l(2)] show ?thesis
      proof (elim disjE exE conjE)
        fix v assume v: "cp = [v]"
        then have "v \<noteq> 46 \<and> v \<noteq> 47" using l(1) assms(1,2) unfolding labelChar_def by (auto simp: lit_def)
        then show ?thesis using v cp(1) that(2) by (auto simp: innerChar_def isLineTerminator_def isSpace_def)
      qed (use cp(1) surrogate_inner in auto)
    qed
  qed
  have lits: "innerChar u" if "u \<in> set (lit ''Remote'') \<union> set (lit ''This device'') \<union> {32}" for u
    using that lit_inner [of "''Remote''" u] lit_inner [of "''This device''" u]
    by (auto simp: innerChar_def isLineTerminator_def)
  have "u \<in> set (lit ''Remote'') \<union> set (lit ''This device'') \<or> u \<in> set (trim (replaceRuns isSpace 32 ?s))"
    using assms(3) unfolding sourceLabel_def Let_def by (auto split: if_splits)
  then have "u \<in> set (lit ''Remote'') \<union> set (lit ''This device'') \<union> {32} \<or> u \<in> set ?s \<and> \<not> isSpace u"
    using set_trim [of "replaceRuns isSpace 32 ?s"] set_replaceRuns [of isSpace 32 ?s] by blast
  then show ?thesis using lits inner by blast
qed

lemma decimal_digit: "u \<in> set (decimal n) \<Longrightarrow> 48 \<le> u \<and> u \<le> 57"
  using digits_decimal [of n] by blast

lemma padded_digit: "u \<in> set (padded w n) \<Longrightarrow> 48 \<le> u \<and> u \<le> 57"
  unfolding padded_def using decimal_digit by auto

lemma digit_inner: "48 \<le> u \<and> u \<le> 57 \<Longrightarrow> innerChar u \<and> u \<noteq> 45 \<and> u \<noteq> 58 \<and> u \<noteq> 84"
  unfolding innerChar_def isLineTerminator_def by (auto simp: word_le_nat_alt)

lemma length_padded: "w \<le> length (padded w n)"
  by (simp add: padded_def)

lemma replaceFirst_skip: "c \<notin> set xs \<Longrightarrow> replaceFirst c d (xs @ c # ys) = xs @ d # ys"
  by (induction xs) auto

lemma timestamp_inner:
  assumes "u \<in> set (timestamp now)"
  shows "innerChar u"
proof -
  let ?p = "padded 4 (year now) @ padded 2 (month now) @ padded 2 (day now)"
  let ?q = "padded 2 (hours now) @ padded 2 (minutes now) @ padded 2 (seconds now)"
  let ?r = "lit ''.'' @ padded 3 (millis now) @ lit ''Z''"
  have keep: "filter (\<lambda>u. u \<noteq> 45 \<and> u \<noteq> 58) (padded w n) = padded w n" for w n
    using digit_inner padded_digit by (intro filter_True) blast
  have units: "lit ''-'' = [45]" "lit '':'' = [58]" "lit ''T'' = [84]" "lit ''.'' = [46]" "lit ''Z'' = [90]"
    by (simp_all add: lit_def)
  have strip: "filter (\<lambda>u. u \<noteq> 45 \<and> u \<noteq> 58) (toISOString now) = ?p @ 84 # ?q @ ?r"
    by (simp add: toISOString_def units keep)
  have "84 \<notin> set ?p" using digit_inner padded_digit by auto
  then have "replaceFirst 84 32 (?p @ 84 # ?q @ ?r) = ?p @ 32 # ?q @ ?r" by (rule replaceFirst_skip)
  then have "timestamp now = take 15 (?p @ 32 # ?q @ ?r)"
    unfolding timestamp_def strip slice_def by (simp only: drop_0 diff_zero)
  moreover have "15 \<le> length (?p @ 32 # ?q)"
    using length_padded [of 4 "year now"] length_padded [of 2 "month now"] length_padded [of 2 "day now"]
      length_padded [of 2 "hours now"] length_padded [of 2 "minutes now"] length_padded [of 2 "seconds now"] by simp
  then have "take 15 ((?p @ 32 # ?q) @ ?r) = take 15 (?p @ 32 # ?q)"
    unfolding take_append by (simp only: diff_is_0_eq' take_0 append_Nil2)
  ultimately have "timestamp now = take 15 (?p @ 32 # ?q)" by (simp only: append_assoc append_Cons)
  then have "u \<in> set (?p @ 32 # ?q)" using assms by (metis in_set_takeD)
  moreover have "innerChar 32" by (simp add: innerChar_def isLineTerminator_def)
  ultimately show ?thesis using digit_inner padded_digit by auto
qed

lemma candidatePath_shape:
  assumes "\<not> letterOrNumber E (lit ''.'')" "\<not> letterOrNumber E (lit ''/'')"
    and "splitPath (normalizePath E path) = (stem, ext)"
  obtains mid where "candidatePath E path source now copy = stem @ COPY_MARK @ mid @ [41] @ ext"
    "mid \<noteq> []" "\<forall>u \<in> set mid. innerChar u"
proof
  let ?m = "sourceLabel E source @ lit '' '' @ timestamp now @ (if copy > 1 then lit '' '' @ decimal copy else [])"
  have "lit '')'' = [41]" by (simp add: lit_def)
  moreover have mark: "lit '' ('' @ lit ''conflicted copy '' @ xs = COPY_MARK @ xs" for xs
    by (simp add: COPY_MARK_def lit_def)
  ultimately show "candidatePath E path source now copy = stem @ COPY_MARK @ ?m @ [41] @ ext"
    using assms(3) mark by (simp add: candidatePath_def Let_def)
  show "?m \<noteq> []" by simp
  have "innerChar u" if "u \<in> set (lit '' '') \<union> set (decimal copy)" for u
    using that lit_inner [of "'' ''" u] decimal_digit digit_inner by auto
  then show "\<forall>u \<in> set ?m. innerChar u"
    using sourceLabel_inner [OF assms(1,2)] timestamp_inner by (auto split: if_splits)
qed

lemma matchesCopy_shape:
  assumes "mid \<noteq> []" "\<forall>u \<in> set mid. innerChar u"
  shows "matchesCopy (s @ COPY_MARK @ mid @ [41])"
proof -
  have "2 \<le> length (mid @ [41])" using assms(1) by (cases mid) auto
  moreover have "list_all (\<lambda>u. \<not> isLineTerminator u) mid" using assms(2) by (simp add: list_all_iff innerChar_def)
  moreover have "length s \<in> set [0..<length (s @ COPY_MARK @ mid @ [41])]" by simp
  ultimately show ?thesis unfolding matchesCopy_def list_ex_iff Let_def
    by (intro bexI [of _ "length s"]) (simp_all add: butlast_append)
qed

lemma mark_inner: "u \<in> set COPY_MARK \<Longrightarrow> innerChar u"
  unfolding COPY_MARK_def by (rule lit_inner [of "'' (conflicted copy ''"]) simp_all

lemma strip_extension:
  assumes "46 \<notin> set r" "47 \<notin> set (r :: jstr)"
  shows "lastIndexOf (b @ 46 # r) 47 < lastIndexOf (b @ 46 # r) 46 \<and> take (nat (lastIndexOf (b @ 46 # r) 46)) (b @ 46 # r) = b"
  using assms lastIndexOf_less [of b 47] by (auto simp: lastIndexOf_append lastIndexOf_absent)

lemma isConflictCopy_normal:
  "normalizePath E q = q \<Longrightarrow> isConflictCopy E q = matchesCopy
     (let d = lastIndexOf q 46 in if d > lastIndexOf q 47 then take (nat d) q else q)"
  by (simp add: isConflictCopy_def Let_def)

lemma isConflictCopy_shape:
  assumes "splitPath p = (stem, ext)" "mid \<noteq> []" "\<forall>u \<in> set mid. innerChar u"
    and "normalizePath E (stem @ COPY_MARK @ mid @ [41] @ ext) = stem @ COPY_MARK @ mid @ [41] @ ext"
  shows "isConflictCopy E (stem @ COPY_MARK @ mid @ [41] @ ext)"
proof -
  let ?b = "stem @ COPY_MARK @ mid @ [41]"
  have in_tail: "46 \<notin> set (COPY_MARK @ mid @ [41])" "47 \<notin> set (COPY_MARK @ mid @ [41])"
    using mark_inner assms(3) by (auto simp: innerChar_def)
  from assms(1) have "(let d = lastIndexOf (?b @ ext) 46
      in if d > lastIndexOf (?b @ ext) 47 then take (nat d) (?b @ ext) else ?b @ ext) = ?b"
  proof (cases rule: splitPath_cases)
    case 1
    then have "lastIndexOf ?b 46 \<le> lastIndexOf ?b 47"
      using in_tail by (simp only: lastIndexOf_append if_False)
    then show ?thesis using 1 by simp
  next
    case (2 r)
    then show ?thesis using strip_extension [OF 2(3,4), of ?b] by (simp only: Let_def if_True)
  qed
  then show ?thesis
    using matchesCopy_shape [OF assms(2,3), of stem] isConflictCopy_normal [OF assms(4)]
    by (simp only: append_assoc)
qed

section \<open>Folders and free names\<close>

lemma freeCopy_free: "freeCopy E path source now taken copy \<notin> set taken"
  by (induction E path source now taken copy rule: freeCopy.induct) (metis freeCopy.simps)

lemma freeCopy_candidate: "\<exists>k. freeCopy E path source now taken copy = candidatePath E path source now k"
  by (induction E path source now taken copy rule: freeCopy.induct) (metis freeCopy.simps)

lemma conflictCopyPath_free: "\<not> getAbstractFileByPath v (conflictCopyPath E v path source now)"
  using freeCopy_free [of E path source now "jkeys (files v) @ folders v" 1]
  by (simp add: conflictCopyPath_def getAbstractFileByPath_def) (simp add: map_of_eq_None_iff)

lemma folderLoop_folders:
  assumes "[] \<notin> set parts" "\<forall>i. 0 < i \<longrightarrow> \<not> jhas (files v) (joinParts current (take i parts))"
  shows "files (folderLoop v current parts) = files v \<and> set (folders v) \<subseteq> set (folders (folderLoop v current parts))
    \<and> set (folders (folderLoop v current parts)) \<subseteq> set (folders v) \<union> {joinParts current (take i parts) | i. 0 < i}
    \<and> (parts \<noteq> [] \<longrightarrow> joinParts current parts \<in> set (folders (folderLoop v current parts)))"
  using assms
proof (induction v current parts rule: folderLoop.induct)
  case (1 v current)
  then show ?case by simp
next
  case (2 v current part parts)
  let ?c = "if current \<noteq> [] then current @ lit ''/'' @ part else part"
  let ?v = "if getAbstractFileByPath v ?c then v else v\<lparr>folders := folders v @ [?c]\<rparr>"
  have part: "part \<noteq> []" "[] \<notin> set parts" using 2(4) by auto
  have join: "joinParts current (part # ps) = joinParts ?c ps" for ps by (simp add: joinParts_def)
  have step: "folderLoop v current (part # parts) = folderLoop ?v ?c parts"
    using part by (simp add: Let_def createFolder_def)
  have nofile: "\<not> jhas (files v) (joinParts ?c (take i parts))" for i
    using 2(5) [rule_format, of "Suc i"] join by simp
  then have c: "\<not> jhas (files v) ?c" using nofile [of 0] by (simp add: joinParts_def)
  then have "?c \<in> set (folders ?v)" by (auto simp: getAbstractFileByPath_def)
  have IH: "files (folderLoop ?v ?c parts) = files v \<and> set (folders ?v) \<subseteq> set (folders (folderLoop ?v ?c parts))
    \<and> set (folders (folderLoop ?v ?c parts)) \<subseteq> set (folders ?v) \<union> {joinParts ?c (take i parts) | i. 0 < i}
    \<and> (parts \<noteq> [] \<longrightarrow> joinParts ?c parts \<in> set (folders (folderLoop ?v ?c parts)))"
  proof (cases "getAbstractFileByPath v ?c")
    case True
    show ?thesis using 2(2) [OF part(1) refl True part(2)] nofile True by simp
  next
    case False
    then have "createFolder v ?c = Inr ?v" by (simp add: createFolder_def)
    then show ?thesis using 2(3) [OF part(1) refl False part(2)] nofile False by simp
  qed
  have sub: "{joinParts ?c (take i parts) | i. 0 < i} \<union> {?c} \<subseteq> {joinParts current (take i (part # parts)) | i. 0 < i}"
  proof -
    have mem: "joinParts ?c (take i parts) \<in> {joinParts current (take i (part # parts)) | i. 0 < i}" for i
      using join [of "take i parts"] by (intro CollectI exI [of _ "Suc i"]) simp
    moreover have "joinParts ?c (take 0 parts) = ?c" by (simp add: joinParts_def)
    then have "?c \<in> {joinParts current (take i (part # parts)) | i. 0 < i}" using mem [of 0] by (simp only:)
    ultimately show ?thesis by blast
  qed
  have "set (folders v) \<subseteq> set (folders ?v)" "set (folders ?v) \<subseteq> set (folders v) \<union> {?c}" by auto
  moreover have "joinParts ?c parts \<in> set (folders (folderLoop ?v ?c parts))"
    using IH \<open>?c \<in> set (folders ?v)\<close> by (cases "parts = []") (auto simp: joinParts_def)
  ultimately show ?case unfolding step join using IH sub by blast
qed

lemma joinParts_take:
  assumes "[] \<notin> set parts" "0 < i" "parts \<noteq> []"
  shows "joinParts [] (take i parts) \<noteq> []
    \<and> joinParts [] parts = joinParts [] (take i parts) @ concat (map (\<lambda>p. 47 # p) (drop i parts))"
proof -
  obtain p ps where p: "parts = p # ps" "p \<noteq> []" using assms(1,3) by (cases parts) auto
  obtain k where "i = Suc k" using assms(2) by (cases i) auto
  then have "joinParts [] (take i parts) = joinParts p (take k ps)" using p by (simp add: joinParts_def)
  then have ne: "joinParts [] (take i parts) \<noteq> []" using joinParts_eq [OF p(2)] p(2) by simp
  have "joinParts [] (take i parts @ drop i parts) = joinParts (joinParts [] (take i parts)) (drop i parts)"
    unfolding joinParts_def foldl_append ..
  then show ?thesis using ne joinParts_eq [OF ne] by simp
qed

lemma ensureParentFolder_ready:
  assumes "0 < lastIndexOf p 47" "[] \<notin> set (splitOn 47 (folderOf p))"
    and "\<forall>q. jhas (files v) q \<longrightarrow> \<not> startsWith p (q @ lit ''/'')"
  shows "files (ensureParentFolder v p) = files v \<and> folderOf p \<in> set (folders (ensureParentFolder v p))
    \<and> (p \<in> set (folders (ensureParentFolder v p)) \<longrightarrow> p \<in> set (folders v))"
proof -
  let ?parts = "splitOn 47 (folderOf p)"
  have cut: "p = folderOf p @ 47 # drop (Suc (nat (lastIndexOf p 47))) p"
    using lastIndexOf_split [of p 47] assms(1) unfolding folderOf_def by (metis append_take_drop_id less_imp_le)
  have joined: "joinParts [] ?parts = folderOf p" by (rule joinParts_splitOn [OF assms(2)])
  have prefix: "joinParts [] (take i ?parts) \<noteq> [] \<and> startsWith p (joinParts [] (take i ?parts) @ lit ''/'')" if i: "0 < i" for i
  proof -
    note jt = joinParts_take [OF assms(2) i splitOn_nonempty]
    obtain tl where "concat (map (\<lambda>p. 47 # p) (drop i ?parts)) @ 47 # drop (Suc (nat (lastIndexOf p 47))) p = 47 # tl"
      by (cases "drop i ?parts") auto
    then have "p = joinParts [] (take i ?parts) @ 47 # tl" using cut jt joined by (metis append.assoc)
    then show ?thesis using jt by (auto simp: startsWith_prefix prefix_def lit_def)
  qed
  have "\<forall>i. 0 < i \<longrightarrow> \<not> jhas (files v) (joinParts [] (take i ?parts))" using prefix assms(3) by blast
  note loop = folderLoop_folders [OF assms(2) this]
  have e: "ensureParentFolder v p = folderLoop v [] ?parts"
    using assms(1) by (simp add: ensureParentFolder_def folderOf_def Let_def)
  have "\<not> startsWith p (p @ lit ''/'')" by (simp add: startsWith_def lit_def)
  then have "p \<noteq> joinParts [] (take i ?parts)" if "0 < i" for i using prefix [OF that] by metis
  then have "p \<notin> {joinParts [] (take i ?parts) | i. 0 < i}" by blast
  then have "p \<in> set (folders (folderLoop v [] ?parts)) \<Longrightarrow> p \<in> set (folders v)" using loop by blast
  moreover have "folderOf p \<in> set (folders (folderLoop v [] ?parts))"
    using loop joined splitOn_nonempty [of 47 "folderOf p"] by simp
  ultimately show ?thesis using loop unfolding e by simp
qed

text \<open>A recovery copy lies in the folder of the path it was made for.\<close>

lemma shape_folder:
  assumes "splitPath n = (stem, ext)" "\<forall>u \<in> set mid. innerChar u"
  shows "lastIndexOf (stem @ COPY_MARK @ mid @ [41] @ ext) 47 = lastIndexOf n 47
    \<and> folderOf (stem @ COPY_MARK @ mid @ [41] @ ext) = folderOf n"
proof -
  let ?t = "COPY_MARK @ mid @ [41] @ ext"
  have e: "47 \<notin> set ext" "n = stem @ ext" using assms(1) by (cases rule: splitPath_cases; simp)+
  then have "47 \<notin> set ?t" using mark_inner assms(2) by (auto simp: innerChar_def)
  then have "lastIndexOf (stem @ ?t) 47 = lastIndexOf stem 47" by (simp only: lastIndexOf_append if_False)
  moreover have "lastIndexOf n 47 = lastIndexOf stem 47" using e by (simp only: lastIndexOf_append if_False)
  moreover have "nat (lastIndexOf stem 47) \<le> length stem" using lastIndexOf_less [of stem 47] by simp
  ultimately show ?thesis using e(2) by (simp add: folderOf_def)
qed

lemma startsWith_folder:
  assumes "startsWith d (q @ lit ''/'')"
  shows "startsWith (folderOf d @ lit ''/'') (q @ lit ''/'') \<and> 0 \<le> lastIndexOf d 47"
proof -
  obtain r where d: "d = q @ 47 # r" using assms by (auto simp: startsWith_prefix prefix_def lit_def)
  let ?n = "nat (lastIndexOf d 47)"
  have n: "int (length q) \<le> lastIndexOf d 47" by (rule lastIndexOf_drop) (simp add: d)
  have l: "?n < length d" using lastIndexOf_less [of d 47] n by simp
  have "d ! ?n = hd (drop ?n d)" by (rule hd_drop_conv_nth [OF l, symmetric])
  also have "\<dots> = 47" using lastIndexOf_split [of d 47] n by simp
  finally have "take ?n d @ [47] = take (Suc ?n) d" using l by (simp add: take_Suc_conv_app_nth)
  moreover have "take (Suc (length q)) (take (Suc ?n) d) = q @ [47]" using n d by (simp add: min_def)
  ultimately have "take (length (q @ lit ''/'')) (folderOf d @ lit ''/'') = q @ lit ''/''"
    by (simp add: folderOf_def lit_def)
  then show ?thesis using n by (simp add: startsWith_def)
qed

text \<open>The folders of a path that has no empty segment and no file among its folders can be made.\<close>

lemma ensureParentFolder_copy:
  assumes "[] \<notin> set (splitOn 47 n)" "\<forall>q. jhas (files v) q \<longrightarrow> \<not> startsWith n (q @ lit ''/'')"
    and "lastIndexOf d 47 = lastIndexOf n 47" "folderOf d = folderOf n" "\<not> getAbstractFileByPath v d"
  shows "files (ensureParentFolder v d) = files v \<and> \<not> getAbstractFileByPath (ensureParentFolder v d) d
    \<and> (0 < lastIndexOf d 47 \<longrightarrow> folderOf d \<in> set (folders (ensureParentFolder v d)))"
proof (cases "0 < lastIndexOf d 47")
  case False
  then have "ensureParentFolder v d = v" by (simp add: ensureParentFolder_def)
  then show ?thesis using False assms(5) by simp
next
  case True
  have n: "n = folderOf n @ 47 # drop (Suc (nat (lastIndexOf n 47))) n"
    using lastIndexOf_split [of n 47] True assms(3) unfolding folderOf_def by (metis append_take_drop_id less_imp_le)
  then have parts: "[] \<notin> set (splitOn 47 (folderOf d))"
    using assms(1,4) splitOn_append [of 47 "folderOf n"] by (metis Un_iff set_append)
  have "n = (folderOf n @ lit ''/'') @ drop (Suc (nat (lastIndexOf n 47))) n" using n by (simp add: lit_def)
  then have folder: "startsWith n (folderOf n @ lit ''/'')" by (metis startsWith_append)
  have "\<not> startsWith d (q @ lit ''/'')" if "jhas (files v) q" for q
  proof
    assume "startsWith d (q @ lit ''/'')"
    then have "startsWith (folderOf n @ lit ''/'') (q @ lit ''/'')" using startsWith_folder assms(4) by metis
    then have "startsWith n (q @ lit ''/'')" using folder unfolding startsWith_prefix by (rule prefix_order.trans)
    then show False using assms(2) that by blast
  qed
  then show ?thesis
    using ensureParentFolder_ready [OF True parts, of v] assms(5) by (auto simp: getAbstractFileByPath_def)
qed

lemma preserveConflict_copy:
  assumes "\<not> letterOrNumber E (lit ''.'')" "\<not> letterOrNumber E (lit ''/'')"
    and "[] \<notin> set (splitOn 47 (normalizePath E path))"
    and "\<forall>q. jhas (files v) q \<longrightarrow> \<not> startsWith (normalizePath E path) (q @ lit ''/'')"
  shows "\<exists>dest v'. preserveConflict E v path content source now = Inr (dest, v')
    \<and> \<not> getAbstractFileByPath v dest \<and> folderOf dest = folderOf (normalizePath E path)
    \<and> (normalizePath E dest = dest \<longrightarrow> isConflictCopy E dest)
    \<and> (\<forall>q. jget (files v') q = (if q = dest then Some content else jget (files v) q))"
proof -
  let ?n = "normalizePath E path"
  let ?d = "conflictCopyPath E v path source now"
  obtain stem ext where se: "splitPath ?n = (stem, ext)" by fastforce
  obtain k where "?d = candidatePath E path source now k"
    unfolding conflictCopyPath_def using freeCopy_candidate by blast
  with candidatePath_shape [OF assms(1,2) se] obtain mid where
    d: "?d = stem @ COPY_MARK @ mid @ [41] @ ext" and mid: "mid \<noteq> []" "\<forall>u \<in> set mid. innerChar u"
    by metis
  have copy: "normalizePath E ?d = ?d \<longrightarrow> isConflictCopy E ?d"
    using isConflictCopy_shape [OF se mid] unfolding d by blast
  have folder: "lastIndexOf ?d 47 = lastIndexOf ?n 47" "folderOf ?d = folderOf ?n"
    using shape_folder [OF se mid(2)] unfolding d by blast+
  note free = conflictCopyPath_free [of v E path source now]
  let ?w = "ensureParentFolder v ?d"
  note ready = ensureParentFolder_copy [OF assms(3,4) folder free]
  then have "createFile ?w ?d content = Inr (?w\<lparr>files := jset (files ?w) ?d content\<rparr>)"
    by (simp add: createFile_def)
  then have "preserveConflict E v path content source now = Inr (?d, ?w\<lparr>files := jset (files ?w) ?d content\<rparr>)"
    by (simp add: preserveConflict_def Let_def)
  then show ?thesis using free folder(2) copy ready by simp
qed

section \<open>Properties\<close>

text \<open>
  C40: Keeping a version in a recovery copy always succeeds and loses nothing: the name that is
  searched for is found (the search ends however many copies there are), was not in use, lies in
  the folder of the path, and is recognised as a conflict copy, so it is never synchronised; it
  then holds the content, and every other file is unchanged. The path has no empty segments after
  normalizing, no file of the vault is one of its folders, and a dot or slash is neither a letter
  nor a number.
\<close>

theorem preserveConflict_saves:
  assumes "\<not> letterOrNumber E (lit ''.'')" "\<not> letterOrNumber E (lit ''/'')"
    and "[] \<notin> set (splitOn 47 (normalizePath E path))"
    and "\<forall>q. jhas (files v) q \<longrightarrow> \<not> startsWith (normalizePath E path) (q @ lit ''/'')"
  shows "\<exists>dest v'. preserveConflict E v path content source now = Inr (dest, v')
    \<and> \<not> getAbstractFileByPath v dest \<and> folderOf dest = folderOf (normalizePath E path)
    \<and> (normalizePath E dest = dest \<longrightarrow> isConflictCopy E dest)
    \<and> (\<forall>q. jget (files v') q = (if q = dest then Some content else jget (files v) q))"
  by (rule preserveConflict_copy [OF assms])

definition asciiEnv :: conflict_env where
  "asciiEnv = \<lparr>normalizePath = id, letterOrNumber = (\<lambda>cp. case cp of [u] \<Rightarrow> 48 \<le> u \<and> u \<le> 57 \<or> 65 \<le> u \<and> u \<le> 90 \<or> 97 \<le> u \<and> u \<le> 122 | _ \<Rightarrow> False),
     clientName = lit ''Mac''\<rparr>"

lemma asciiEnv_facts:
  "\<not> letterOrNumber asciiEnv (lit ''.'')" "\<not> letterOrNumber asciiEnv (lit ''/'')" "normalizePath asciiEnv p = p"
  by (simp_all add: asciiEnv_def lit_def)

lemma no_folder_file: "\<not> startsWith (lit ''n/a.md'') (lit ''n/a.md/'')"
  by (simp add: startsWith_def)

theorem preserveConflict_saves_witness:
  "\<exists>dest v'. preserveConflict asciiEnv \<lparr>files = [(lit ''n/a.md'', lit ''x'')], folders = [lit ''n'']\<rparr> (lit ''n/a.md'') (lit ''y'')
      LocalSide \<lparr>year = 2024, month = 1, day = 2, hours = 3, minutes = 4, seconds = 5, millis = 6\<rparr> = Inr (dest, v')
    \<and> isConflictCopy asciiEnv dest \<and> jget (files v') dest = Some (lit ''y'') \<and> jget (files v') (lit ''n/a.md'') = Some (lit ''x'')"
proof -
  let ?v = "\<lparr>files = [(lit ''n/a.md'', lit ''x'')], folders = [lit ''n'']\<rparr>"
  have "[] \<notin> set (splitOn 47 (normalizePath asciiEnv (lit ''n/a.md'')))" by (simp add: asciiEnv_def) (simp add: lit_def)
  moreover have "\<forall>q. jhas (files ?v) q \<longrightarrow> \<not> startsWith (normalizePath asciiEnv (lit ''n/a.md'')) (q @ lit ''/'')"
    using no_folder_file by (auto simp: asciiEnv_facts split: if_splits)
  ultimately obtain dest v' where r: "preserveConflict asciiEnv ?v (lit ''n/a.md'') (lit ''y'')
      LocalSide \<lparr>year = 2024, month = 1, day = 2, hours = 3, minutes = 4, seconds = 5, millis = 6\<rparr> = Inr (dest, v')"
      "\<not> getAbstractFileByPath ?v dest" "isConflictCopy asciiEnv dest"
      "\<forall>q. jget (files v') q = (if q = dest then Some (lit ''y'') else jget (files ?v) q)"
    using preserveConflict_saves [OF asciiEnv_facts(1,2), of "lit ''n/a.md''" ?v "lit ''y''" LocalSide
        "\<lparr>year = 2024, month = 1, day = 2, hours = 3, minutes = 4, seconds = 5, millis = 6\<rparr>"]
    by (auto simp: asciiEnv_facts(3))
  then have "lit ''n/a.md'' \<noteq> dest" by (auto simp: getAbstractFileByPath_def)
  then show ?thesis using r by auto
qed

text \<open>
  Updating a conflict keeps the content in exactly one place: afterwards a recovery copy
  holds it, either one that already did (then nothing is written and \<open>None\<close> is returned) or the
  one that is returned. At most that one file changes, a file that existed is only overwritten
  when it is the current copy, and a later version for the returned copy replaces it there
  without a further file.
\<close>

theorem updateTextConflict_keeps:
  assumes "\<not> letterOrNumber E (lit ''.'')" "\<not> letterOrNumber E (lit ''/'')"
    and "[] \<notin> set (splitOn 47 (normalizePath E path))" "jwf (files v)"
    and "\<forall>q. jhas (files v) q \<longrightarrow> \<not> startsWith (normalizePath E path) (q @ lit ''/'')"
  shows "\<exists>r v'. updateTextConflict E v path content source current now = Inr (r, v')
    \<and> (case r of
         None \<Rightarrow> v' = v \<and> (\<exists>p. isCopyOf E path p \<and> jget (files v) p = Some content)
       | Some d \<Rightarrow> (\<forall>q. jget (files v') q = (if q = d then Some content else jget (files v) q))
           \<and> (jhas (files v) d \<longrightarrow> current = Some d)
           \<and> updateTextConflict E v' path later source (Some d) now' = Inr (Some d, v'\<lparr>files := jset (files v') d later\<rparr>))"
proof -
  let ?rest = "if list_ex (\<lambda>(p, text). isCopyOf E path p \<and> text = content) (files v) then Inr (None, v)
         else (case preserveConflict E v path content source now of Inl e \<Rightarrow> Inl e | Inr (d, v') \<Rightarrow> Inr (Some d, v'))"
  have again: "updateTextConflict E v' path later source (Some d) now' = Inr (Some d, v'\<lparr>files := jset (files v') d later\<rparr>)"
    if "jhas (files v') d" for v' d using that by (simp add: updateTextConflict_def)
  show ?thesis
  proof (cases "\<exists>c. current = Some c \<and> jhas (files v) c")
    case True
    then obtain c where c: "current = Some c" "jhas (files v) c" by blast
    let ?v' = "v\<lparr>files := jset (files v) c content\<rparr>"
    have "updateTextConflict E v path content source current now = Inr (Some c, ?v')"
      using c by (simp add: updateTextConflict_def)
    then show ?thesis using c(1) again [of ?v' c] by (intro exI [of _ "Some c"] exI [of _ ?v']) simp
  next
    case False
    then have u: "updateTextConflict E v path content source current now = ?rest"
      unfolding updateTextConflict_def by (cases current) auto
    show ?thesis
    proof (cases "list_ex (\<lambda>(p, text). isCopyOf E path p \<and> text = content) (files v)")
      case True
      then obtain p where "(p, content) \<in> set (files v)" "isCopyOf E path p" by (auto simp: list_ex_iff)
      then have "\<exists>p. isCopyOf E path p \<and> jget (files v) p = Some content" using assms(4) map_of_is_SomeI by metis
      then show ?thesis using u True by (intro exI [of _ None] exI [of _ v]) simp
    next
      case new: False
      obtain d v' where d: "preserveConflict E v path content source now = Inr (d, v')" "\<not> getAbstractFileByPath v d"
          "\<forall>q. jget (files v') q = (if q = d then Some content else jget (files v) q)"
        using preserveConflict_copy [OF assms(1,2,3,5), of content source now] by blast
      then have "\<not> jhas (files v) d" "jhas (files v') d" by (auto simp: getAbstractFileByPath_def)
      then show ?thesis using u new d(1,3) again [of v' d] by (intro exI [of _ "Some d"] exI [of _ v']) simp
    qed
  qed
qed

theorem updateTextConflict_keeps_witness:
  "\<exists>r v'. updateTextConflict asciiEnv \<lparr>files = [(lit ''n/a.md'', lit ''x'')], folders = [lit ''n'']\<rparr> (lit ''n/a.md'') (lit ''y'')
      LocalSide None \<lparr>year = 2024, month = 1, day = 2, hours = 3, minutes = 4, seconds = 5, millis = 6\<rparr> = Inr (r, v')
    \<and> jget (files v') (lit ''n/a.md'') = Some (lit ''x'')"
proof -
  let ?v = "\<lparr>files = [(lit ''n/a.md'', lit ''x'')], folders = [lit ''n'']\<rparr>"
  let ?now = "\<lparr>year = 2024, month = 1, day = 2, hours = 3, minutes = 4, seconds = 5, millis = 6\<rparr>"
  have "[] \<notin> set (splitOn 47 (normalizePath asciiEnv (lit ''n/a.md'')))" by (simp add: asciiEnv_def) (simp add: lit_def)
  moreover have "\<forall>q. jhas (files ?v) q \<longrightarrow> \<not> startsWith (normalizePath asciiEnv (lit ''n/a.md'')) (q @ lit ''/'')"
    using no_folder_file by (auto simp: asciiEnv_facts split: if_splits)
  ultimately obtain r v' where r: "updateTextConflict asciiEnv ?v (lit ''n/a.md'') (lit ''y'') LocalSide None ?now = Inr (r, v')"
      "case r of None \<Rightarrow> v' = ?v \<and> (\<exists>p. isCopyOf asciiEnv (lit ''n/a.md'') p \<and> jget (files ?v) p = Some (lit ''y''))
       | Some d \<Rightarrow> (\<forall>q. jget (files v') q = (if q = d then Some (lit ''y'') else jget (files ?v) q))
           \<and> (jhas (files ?v) d \<longrightarrow> None = Some d)
           \<and> updateTextConflict asciiEnv v' (lit ''n/a.md'') [] LocalSide (Some d) ?now = Inr (Some d, v'\<lparr>files := jset (files v') d []\<rparr>)"
    using updateTextConflict_keeps [OF asciiEnv_facts(1,2), of "lit ''n/a.md''" ?v "lit ''y''" LocalSide None ?now "[]" ?now]
    by auto
  then show ?thesis by (cases r) (auto split: if_splits)
qed

end
