(* ===== verification/Config_Sync.thy ===== *)
theory Config_Sync
  imports Async_Script Version_Lineage Local_Sync_State Conflict_Recovery Structured_Merge Config_Categories
begin

text \<open>
  Synchronisation of settings files: the class \<open>ConfigSync\<close> of \<open>src/src/ConfigSync.ts\<close>.

  The state is that of one device: the files below the config folder, the shared index
  \<open>configFiles\<close> as this device sees it, the blob server and the private fields of the class. An
  operation returns \<open>None\<close> when the code throws. Every \<open>await\<close> consumes one item of a script that
  says what happens meanwhile (edits of files, changes of the index by other devices, pausing, the
  clock) before and after the awaited effect, and whether the awaited call fails; so a statement
  about every script is one about every interleaving. Reconciliations of one path run one after
  the other, as the chains of the code make them; what those of other paths do appears as events.

  The two \<open>Y.Map\<close>s are given by their operations \<open>ydict\<close>; the blob server, SHA-256, the text and
  JSON codecs are arguments. \<open>trace\<close> records what the device did and is read by no operation.
\<close>

type_synonym bytes = "8 word list"

section \<open>State\<close>

record hash_cache_entry =
  hcSize :: nat
  hcMtime :: int
  hcHash :: jstr
  checkedAt :: int

definition HASH_REVALIDATE_MS :: int where "HASH_REVALIDATE_MS = 5 * 60000"

datatype event =
    EditFile jstr bytes int
  | RemoveFile jstr
  | IndexSet jstr config_meta
  | IndexDelete jstr
  | Tick nat
  | SetPaused bool
  | Destroy
  | WritingTimer jstr
  | RetryTimer jstr
  | PollTimer
  | NoticeTimer

datatype request = AskPath jstr | AskAll | AskInitialPull | AskPoll

datatype action =
    Stored jstr
  | Published jstr config_meta "config_meta option" bool
  | Unpublished jstr config_meta "jstr option" bool bool
  | Overwrites jstr bytes bool
  | Removes jstr bool
  | Preserved jstr bytes

record ('m, 'i, 'b) config_state = "(event, action) async" +
  disk :: "(jstr, bytes \<times> int) jmap"
  dirs :: "jstr list"
  clock :: int
  server :: 'b
  configFiles :: 'i
  localSync :: "'m sync_state option"
  enabledCategories :: "config_category_id list"
  lastSyncedHash :: "(jstr, jstr) jmap"
  hashCache :: "(jstr, hash_cache_entry) jmap"
  requests :: "request list"
  writing :: "jstr list"
  pendingDownloads :: "(jstr, jstr) jmap"
  retryTimers :: "jstr list"
  pollTimer :: bool
  started :: bool
  paused :: bool
  pauseGeneration :: nat
  destroyed :: bool
  pulling :: bool
  initialPullComplete :: bool
  reloadNoticeTimer :: bool

record ('m, 'i, 'b) config_env =
  dict :: "'m paths_map"
  index :: "('i, config_meta) ydict"
  sha256Hex :: "bytes \<Rightarrow> jstr"
  decode :: "bytes \<Rightarrow> jstr"
  encode :: "jstr \<Rightarrow> bytes"
  parseJson :: "jstr \<Rightarrow> json option"
  stringify :: "json \<Rightarrow> jstr"
  recovery :: conflict_env
  utc :: "int \<Rightarrow> date"
  configDir :: jstr
  getBlob :: "jstr option \<Rightarrow> jstr \<Rightarrow> 'b \<Rightarrow> bytes option \<times> 'b"
  blobExists :: "jstr \<Rightarrow> jstr \<Rightarrow> 'b \<Rightarrow> bool option \<times> 'b"
  putBlob :: "jstr \<Rightarrow> jstr \<Rightarrow> bytes \<Rightarrow> 'b \<Rightarrow> bool \<times> 'b"

type_synonym ('m, 'i, 'b, 'a) config_op = "(('m, 'i, 'b) config_state, 'a) async_op"

section \<open>Merging settings\<close>

definition isPlainObject :: "json \<Rightarrow> bool" where
  "isPlainObject v \<longleftrightarrow> (case v of JObj _ \<Rightarrow> True | _ \<Rightarrow> False)"

definition mergeJsonSettings :: "('m, 'i, 'b) config_env \<Rightarrow> jstr \<Rightarrow> jstr \<Rightarrow> jstr option" where
  "mergeJsonSettings E remoteText localText =
    (case (parseJson E remoteText, parseJson E localText) of
       (Some remote, Some local) \<Rightarrow>
         if \<not> isPlainObject remote \<or> \<not> isPlainObject local then None
         else Some (stringify E (JObj (fold (\<lambda>(k, v) out. jset out k v) (objFields local) (objFields remote))))
     | _ \<Rightarrow> None)"

definition mergeJsonSettingsThreeWay ::
  "('m, 'i, 'b) config_env \<Rightarrow> jstr \<Rightarrow> jstr \<Rightarrow> jstr \<Rightarrow> (jstr \<times> bool) option" where
  "mergeJsonSettingsThreeWay E baseText remoteText localText =
    (case (parseJson E baseText, parseJson E remoteText, parseJson E localText) of
       (Some base, Some remote, Some local) \<Rightarrow>
         if \<not> isPlainObject base \<or> \<not> isPlainObject remote \<or> \<not> isPlainObject local then None
         else let merged = mergeStructuredStartupResult base local remote
              in Some (stringify E (sValue merged), sConflicted merged)
     | _ \<Rightarrow> None)"

section \<open>Paths, pausing and requests\<close>

definition hardExcludeDir :: "('m, 'i, 'b) config_env \<Rightarrow> jstr" where
  "hardExcludeDir E = configDir E @ lit ''/plugins/realtime''"

definition isHardExcluded :: "('m, 'i, 'b) config_env \<Rightarrow> jstr \<Rightarrow> bool" where
  "isHardExcluded E path \<longleftrightarrow> (let d = hardExcludeDir E
     in path = d \<or> startsWith path (d @ lit ''/'') \<or> lit ''node_modules'' \<in> set (splitOn 47 path))"

definition syncableCategory ::
  "('m, 'i, 'b) config_env \<Rightarrow> jstr \<Rightarrow> ('m, 'i, 'b) config_state \<Rightarrow> config_category_id option" where
  "syncableCategory E path s =
    (if isHardExcluded E path \<or> isConflictCopy (recovery E) path then None
     else case categoryForVaultPath path (configDir E) of
            None \<Rightarrow> None
          | Some c \<Rightarrow> if c \<in> set (enabledCategories s) then Some c else None)"

definition canApply :: "nat \<Rightarrow> ('m, 'i, 'b) config_state \<Rightarrow> bool" where
  "canApply generation s \<longleftrightarrow> \<not> destroyed s \<and> \<not> paused s \<and> pauseGeneration s = generation"

text \<open>\<open>void this.reconcile(path)\<close>: the guards of \<open>reconcile\<close>, then the path joins the end of its chain.\<close>

definition askReconcile :: "('m, 'i, 'b) config_env \<Rightarrow> jstr \<Rightarrow> ('m, 'i, 'b) config_state \<Rightarrow> ('m, 'i, 'b) config_state" where
  "askReconcile E path s =
    (if syncableCategory E path s = None \<or> path \<in> set (writing s) then s
     else s\<lparr>requests := requests s @ [AskPath path]\<rparr>)"

definition askUnlessDestroyed :: "('m, 'i, 'b) config_env \<Rightarrow> jstr \<Rightarrow> ('m, 'i, 'b) config_state \<Rightarrow> ('m, 'i, 'b) config_state" where
  "askUnlessDestroyed E path s = (if destroyed s then s else askReconcile E path s)"

definition onConfigFilesChanged :: "('m, 'i, 'b) config_env \<Rightarrow> jstr \<Rightarrow> ('m, 'i, 'b) config_state \<Rightarrow> ('m, 'i, 'b) config_state" where
  "onConfigFilesChanged E path s =
    (if destroyed s \<or> \<not> started s \<or> paused s then s
     else if isHardExcluded E path then s else askReconcile E path s)"

definition schedulePoll :: "('m, 'i, 'b) config_state \<Rightarrow> ('m, 'i, 'b) config_state" where
  "schedulePoll s = (if destroyed s \<or> paused s \<or> pollTimer s then s else s\<lparr>pollTimer := True\<rparr>)"

definition setPaused :: "bool \<Rightarrow> ('m, 'i, 'b) config_state \<Rightarrow> ('m, 'i, 'b) config_state" where
  "setPaused p s =
    (if destroyed s \<or> paused s = p then s
     else let s1 = s\<lparr>paused := p, pauseGeneration := pauseGeneration s + 1\<rparr>
          in if p \<and> pollTimer s1 then s1\<lparr>pollTimer := False\<rparr>
             else if \<not> p \<and> started s1 then
               schedulePoll (s1\<lparr>requests := requests s1 @ [if initialPullComplete s1 then AskAll else AskInitialPull]\<rparr>)
             else s1)"

definition destroy :: "('m, 'i, 'b) config_state \<Rightarrow> ('m, 'i, 'b) config_state" where
  "destroy s =
    (if destroyed s then s
     else s\<lparr>destroyed := True, started := False, pollTimer := False, reloadNoticeTimer := False,
            retryTimers := [], requests := []\<rparr>)"

definition start :: "config_category_id list \<Rightarrow> ('m, 'i, 'b) config_state \<Rightarrow> ('m, 'i, 'b) config_state" where
  "start categories s =
    (if destroyed s then s
     else let s1 = s\<lparr>enabledCategories := categories\<rparr>
          in if started s1 then s1\<lparr>requests := requests s1 @ [AskInitialPull]\<rparr>
             else schedulePoll (s1\<lparr>started := True, requests := requests s1 @ [AskInitialPull]\<rparr>))"

text \<open>An entry of the index is set or deleted, here or by another device; the observer hears of it.\<close>

definition indexSet :: "('m, 'i, 'b) config_env \<Rightarrow> jstr \<Rightarrow> config_meta \<Rightarrow> ('m, 'i, 'b) config_state \<Rightarrow> ('m, 'i, 'b) config_state" where
  "indexSet E path meta s = onConfigFilesChanged E path (s\<lparr>configFiles := dPut (index E) (configFiles s) path meta\<rparr>)"

definition indexDelete :: "('m, 'i, 'b) config_env \<Rightarrow> jstr \<Rightarrow> ('m, 'i, 'b) config_state \<Rightarrow> ('m, 'i, 'b) config_state" where
  "indexDelete E path s = onConfigFilesChanged E path (s\<lparr>configFiles := dRemove (index E) (configFiles s) path\<rparr>)"

fun occur :: "('m, 'i, 'b) config_env \<Rightarrow> event \<Rightarrow> ('m, 'i, 'b) config_state \<Rightarrow> ('m, 'i, 'b) config_state" where
  "occur E (EditFile p bs t) s = s\<lparr>disk := jset (disk s) p (bs, t)\<rparr>"
| "occur E (RemoveFile p) s = s\<lparr>disk := jdel (disk s) p\<rparr>"
| "occur E (IndexSet p m) s = indexSet E p m s"
| "occur E (IndexDelete p) s = indexDelete E p s"
| "occur E (Tick n) s = s\<lparr>clock := clock s + int n\<rparr>"
| "occur E (SetPaused p) s = setPaused p s"
| "occur E Destroy s = destroy s"
| "occur E (WritingTimer p) s = s\<lparr>writing := filter (\<lambda>q. q \<noteq> p) (writing s)\<rparr>"
| "occur E (RetryTimer p) s =
    (if p \<in> set (retryTimers s) then askReconcile E p (s\<lparr>retryTimers := filter (\<lambda>q. q \<noteq> p) (retryTimers s)\<rparr>) else s)"
| "occur E PollTimer s =
    (if pollTimer s then s\<lparr>pollTimer := False, requests := requests s @ [AskPoll]\<rparr> else s)"
| "occur E NoticeTimer s = s\<lparr>reloadNoticeTimer := False\<rparr>"

section \<open>Asynchronous operations\<close>

definition adapterExists :: "jstr \<Rightarrow> ('m, 'i, 'b, bool) config_op" where
  "adapterExists path s = (Some (jhas (disk s) path \<or> path \<in> set (dirs s)), s)"

definition adapterStat :: "jstr \<Rightarrow> ('m, 'i, 'b, (nat \<times> int) option) config_op" where
  "adapterStat path s = (Some (map_option (\<lambda>(bs, t). (length bs, t)) (jget (disk s) path)), s)"

definition readBinary :: "jstr \<Rightarrow> ('m, 'i, 'b, bytes) config_op" where
  "readBinary path s = (map_option fst (jget (disk s) path), s)"

definition writeBinary :: "jstr \<Rightarrow> bytes \<Rightarrow> ('m, 'i, 'b, unit) config_op" where
  "writeBinary path bs s = (Some (), s\<lparr>disk := jset (disk s) path (bs, clock s)\<rparr>)"

definition adapterRemove :: "jstr \<Rightarrow> ('m, 'i, 'b, unit) config_op" where
  "adapterRemove path s = (if jhas (disk s) path then (Some (), s\<lparr>disk := jdel (disk s) path\<rparr>) else (None, s))"

text \<open>An error that says the folder exists already is tolerated.\<close>

definition adapterMkdir :: "jstr \<Rightarrow> ('m, 'i, 'b, unit) config_op" where
  "adapterMkdir path s =
    (Some (), if jhas (disk s) path \<or> path \<in> set (dirs s) then s else s\<lparr>dirs := dirs s @ [path]\<rparr>)"

definition fetchBlob :: "('m, 'i, 'b) config_env \<Rightarrow> jstr option \<Rightarrow> jstr \<Rightarrow> ('m, 'i, 'b, bytes) config_op" where
  "fetchBlob E path h s = (case getBlob E path h (server s) of (r, b) \<Rightarrow> (r, s\<lparr>server := b\<rparr>))"

definition askBlob :: "('m, 'i, 'b) config_env \<Rightarrow> jstr \<Rightarrow> jstr \<Rightarrow> ('m, 'i, 'b, bool) config_op" where
  "askBlob E path h s =
    (case blobExists E path h (server s) of
       (r, b) \<Rightarrow> (r, (if r = Some True then act (Stored h) else id) (s\<lparr>server := b\<rparr>)))"

definition storeBlob :: "('m, 'i, 'b) config_env \<Rightarrow> jstr \<Rightarrow> jstr \<Rightarrow> bytes \<Rightarrow> ('m, 'i, 'b, unit) config_op" where
  "storeBlob E path h bs s =
    (case putBlob E path h bs (server s) of
       (ok, b) \<Rightarrow> if ok then (Some (), act (Stored h) (s\<lparr>server := b\<rparr>)) else (None, s\<lparr>server := b\<rparr>))"

section \<open>Reading a settings file\<close>

definition localMeta :: "jstr \<Rightarrow> nat \<Rightarrow> int \<Rightarrow> config_meta" where
  "localMeta h sz t = \<lparr>vHash = h, vPrev = None, vLineage = None, cmSize = sz, cmMtime = t\<rparr>"

text \<open>The hash cached for the size and time the file has now, while it is fresh.\<close>

definition cachedHash :: "jstr \<Rightarrow> (nat \<times> int) option \<Rightarrow> ('m, 'i, 'b) config_state \<Rightarrow> hash_cache_entry option" where
  "cachedHash path stat s =
    (case (stat, jget (hashCache s) path) of
       (Some (sz, t), Some c) \<Rightarrow>
         if hcSize c = sz \<and> hcMtime c = t \<and> clock s - checkedAt c < HASH_REVALIDATE_MS then Some c else None
     | _ \<Rightarrow> None)"

definition readAndHash ::
  "('m, 'i, 'b) config_env \<Rightarrow> jstr \<Rightarrow> (nat \<times> int) option \<Rightarrow> int \<Rightarrow> ('m, 'i, 'b, config_meta option) config_op" where
  "readAndHash E path stat now =
    andThen (awaiting (occur E) (readBinary path)) (\<lambda>bs.
    andThen (awaiting (occur E) (give (sha256Hex E bs))) (\<lambda>h s.
      let mtime = (case stat of Some (_, t) \<Rightarrow> t | None \<Rightarrow> now)
      in (Some (Some (localMeta h (length bs) mtime)),
          s\<lparr>hashCache := (if map_option fst stat = Some (length bs)
              then jset (hashCache s) path \<lparr>hcSize = length bs, hcMtime = mtime, hcHash = h, checkedAt = now\<rparr>
              else jdel (hashCache s) path)\<rparr>)))"

text \<open>The result \<open>None\<close> is \<open>undefined\<close> (a read failed), \<open>Some None\<close> is \<open>null\<close> (no file).\<close>

definition localInfo :: "('m, 'i, 'b) config_env \<Rightarrow> jstr \<Rightarrow> ('m, 'i, 'b, config_meta option option) config_op" where
  "localInfo E path s =
    (case andThen (awaiting (occur E) (adapterExists path)) (\<lambda>ex.
            if \<not> ex then (\<lambda>s. (Some None, s\<lparr>hashCache := jdel (hashCache s) path\<rparr>))
            else andThen (awaiting (occur E) (adapterStat path)) (\<lambda>stat s.
              case cachedHash path stat s of
                Some c \<Rightarrow> (Some (Some (localMeta (hcHash c) (hcSize c) (hcMtime c))), s)
              | None \<Rightarrow> readAndHash E path stat (clock s) s)) s of
       (None, s') \<Rightarrow> (Some None, s')
     | (Some meta, s') \<Rightarrow> (Some (Some meta), s'))"

definition remoteHash :: "('m, 'i, 'b) config_env \<Rightarrow> jstr \<Rightarrow> ('m, 'i, 'b) config_state \<Rightarrow> jstr option" where
  "remoteHash E path s = map_option vHash (dGet (index E) (configFiles s) path)"

definition configStateMatches ::
  "('m, 'i, 'b) config_env \<Rightarrow> jstr \<Rightarrow> jstr \<Rightarrow> jstr option \<Rightarrow> ('m, 'i, 'b, bool) config_op" where
  "configStateMatches E path localHash expected =
    andThen (localInfo E path) (\<lambda>currentLocal s.
      (Some (\<not> destroyed s \<and> (\<exists>m. currentLocal = Some (Some m) \<and> vHash m = localHash) \<and> remoteHash E path s = expected), s))"

section \<open>Publishing\<close>

definition onLocal :: "('m sync_state \<Rightarrow> 'm sync_state) \<Rightarrow> ('m, 'i, 'b) config_state \<Rightarrow> ('m, 'i, 'b) config_state" where
  "onLocal f s = s\<lparr>localSync := map_option f (localSync s)\<rparr>"

text \<open>The entry that replaces \<open>replaced\<close>.\<close>

definition publishedMeta :: "config_meta \<Rightarrow> jstr option \<Rightarrow> config_meta option \<Rightarrow> config_meta" where
  "publishedMeta meta expected replaced =
    (let lineage = lineageAfter replaced
     in meta\<lparr>vPrev := Some (case expected of None \<Rightarrow> JNull | Some h \<Rightarrow> JStr h),
             vLineage := (if length lineage > 0 then Some (JArr (map JStr lineage)) else None)\<rparr>)"

definition publish :: "('m, 'i, 'b) config_env \<Rightarrow> jstr \<Rightarrow> config_meta \<Rightarrow> jstr option \<Rightarrow> nat \<Rightarrow> config_meta option option
     \<Rightarrow> ('m, 'i, 'b, unit) config_op" where
  "publish E path meta expected generation currentLocal s =
    (let replaced = dGet (index E) (configFiles s) path
     in if \<not> canApply generation s \<or> (case currentLocal of Some (Some m) \<Rightarrow> vHash m \<noteq> vHash meta | _ \<Rightarrow> True)
           \<or> map_option vHash replaced \<noteq> expected
        then (Some (), askReconcile E path s)
        else let final = publishedMeta meta expected replaced;
                 s1 = indexSet E path final (act (Published path final replaced (paused s \<or> destroyed s)) s)
             in (Some (), onLocal (markPublished (dict E) path KConfig (vHash final) expected)
                   (s1\<lparr>lastSyncedHash := jset (lastSyncedHash s1) path (vHash final)\<rparr>)))"

text \<open>What \<open>uploadBytes\<close> does after a check of \<open>canApply\<close> that failed, and otherwise.\<close>

definition guardApply :: "('m, 'i, 'b) config_env \<Rightarrow> jstr \<Rightarrow> nat \<Rightarrow> 'a \<Rightarrow> ('m, 'i, 'b, 'a) config_op \<Rightarrow> ('m, 'i, 'b, 'a) config_op" where
  "guardApply E path generation stop continue s =
    (if \<not> canApply generation s then (Some stop, askUnlessDestroyed E path s) else continue s)"

definition uploadBytes :: "('m, 'i, 'b) config_env \<Rightarrow> jstr \<Rightarrow> bytes \<Rightarrow> config_meta option \<Rightarrow> jstr option \<Rightarrow> nat
     \<Rightarrow> ('m, 'i, 'b, unit) config_op" where
  "uploadBytes E path bs meta expected generation =
    andThen (awaiting (occur E) (give (sha256Hex E bs))) (\<lambda>h. guardApply E path generation () (\<lambda>s.
      let final = (case meta of Some m \<Rightarrow> if h = vHash m then m else localMeta h (length bs) (clock s)
                   | None \<Rightarrow> localMeta h (length bs) (clock s));
          confirmed = guardApply E path generation ()
            (andThen (localInfo E path) (publish E path final expected generation))
      in andThen (awaiting (occur E) (askBlob E path (vHash final))) (\<lambda>exists.
           if exists then confirmed
           else guardApply E path generation ()
             (andThen (awaiting (occur E) (storeBlob E path (vHash final) bs)) (\<lambda>_. confirmed))) s))"

definition upload :: "('m, 'i, 'b) config_env \<Rightarrow> jstr \<Rightarrow> config_meta \<Rightarrow> jstr option \<Rightarrow> nat \<Rightarrow> ('m, 'i, 'b, unit) config_op" where
  "upload E path meta expected generation =
    andThen (awaiting (occur E) (readBinary path)) (\<lambda>bs. guardApply E path generation ()
      (uploadBytes E path bs (Some meta) expected generation))"

definition publishDelete :: "('m, 'i, 'b) config_env \<Rightarrow> jstr \<Rightarrow> nat \<Rightarrow> ('m, 'i, 'b, unit) config_op" where
  "publishDelete E path generation = guardApply E path generation () (\<lambda>s.
     let deleted = (case dGet (index E) (configFiles s) path of
                      None \<Rightarrow> id
                    | Some m \<Rightarrow> act (Unpublished path m (jget (lastSyncedHash s) path) (pulling s) (paused s \<or> destroyed s)));
         s1 = indexDelete E path (deleted s)
     in (Some (), onLocal (removePath (dict E) path) (s1\<lparr>lastSyncedHash := jdel (lastSyncedHash s1) path\<rparr>)))"

section \<open>Writing and deleting the local file\<close>

definition scheduleRetry :: "jstr \<Rightarrow> ('m, 'i, 'b) config_state \<Rightarrow> ('m, 'i, 'b) config_state" where
  "scheduleRetry path s =
    (if destroyed s \<or> path \<in> set (retryTimers s) then s else s\<lparr>retryTimers := retryTimers s @ [path]\<rparr>)"

fun ensureFolders :: "('m, 'i, 'b) config_env \<Rightarrow> jstr \<Rightarrow> jstr list \<Rightarrow> ('m, 'i, 'b, unit) config_op" where
  "ensureFolders E current [] = give ()"
| "ensureFolders E current (part # parts) =
    (let current' = (if current \<noteq> [] then current @ lit ''/'' @ part else part)
     in andThen (awaiting (occur E) (adapterExists current')) (\<lambda>ex.
          if ex then ensureFolders E current' parts
          else andThen (awaiting (occur E) (adapterMkdir current')) (\<lambda>_. ensureFolders E current' parts)))"

definition ensureParentFolders :: "('m, 'i, 'b) config_env \<Rightarrow> jstr \<Rightarrow> ('m, 'i, 'b, unit) config_op" where
  "ensureParentFolders E path = ensureFolders E [] (butlast (splitOn 47 path))"

definition noteDownloaded :: "('m, 'i, 'b) config_env \<Rightarrow> jstr \<Rightarrow> ('m, 'i, 'b) config_state \<Rightarrow> ('m, 'i, 'b) config_state" where
  "noteDownloaded E path s =
    (case syncableCategory E path s of
       None \<Rightarrow> s
     | Some c \<Rightarrow> if categoryRequiresReload c then s\<lparr>reloadNoticeTimer := True\<rparr> else s)"

definition startWriting :: "jstr \<Rightarrow> ('m, 'i, 'b) config_state \<Rightarrow> ('m, 'i, 'b) config_state" where
  "startWriting path s = s\<lparr>writing := List.insert path (writing s)\<rparr>"

text \<open>From the moment the checks of \<open>materializeDownload\<close> have passed.\<close>

definition writeDownload :: "('m, 'i, 'b) config_env \<Rightarrow> jstr \<Rightarrow> config_meta \<Rightarrow> bytes \<Rightarrow> nat \<Rightarrow> ('m, 'i, 'b, bool) config_op" where
  "writeDownload E path meta bs generation s0 =
    andThen (ensureParentFolders E path) (\<lambda>_ s.
      if \<not> canApply generation s then (Some False, askReconcile E path s)
      else andThen (awaiting (occur E) (writeBinary path bs)) (\<lambda>_ s.
        (Some True, noteDownloaded E path
           ((onLocal (markSynced (dict E) path KConfig (vHash meta) (vHash meta) True)
              (s\<lparr>hashCache := jdel (hashCache s) path, lastSyncedHash := jset (lastSyncedHash s) path (vHash meta)\<rparr>))
            \<lparr>pendingDownloads := jdel (pendingDownloads s) path\<rparr>)))
        (act (Overwrites path bs (paused s \<or> destroyed s)) s)) (startWriting path s0)"

definition materializeDownload :: "('m, 'i, 'b) config_env \<Rightarrow> jstr \<Rightarrow> config_meta \<Rightarrow> bytes \<Rightarrow> jstr option \<Rightarrow> nat
     \<Rightarrow> ('m, 'i, 'b, bool) config_op" where
  "materializeDownload E path meta bs expectedLocal generation = guardApply E path generation False
    (andThen (localInfo E path) (\<lambda>currentLocal s.
       if \<not> canApply generation s \<or> remoteHash E path s \<noteq> Some (vHash meta)
          \<or> (case currentLocal of Some (Some m) \<Rightarrow> Some (vHash m) | _ \<Rightarrow> None) \<noteq> expectedLocal
       then (Some False, askReconcile E path s)
       else writeDownload E path meta bs generation s))"

definition download :: "('m, 'i, 'b) config_env \<Rightarrow> jstr \<Rightarrow> config_meta \<Rightarrow> jstr option \<Rightarrow> nat \<Rightarrow> ('m, 'i, 'b, bool) config_op" where
  "download E path meta expectedLocal generation =
    andThen (caught (awaiting (occur E) (fetchBlob E (Some path) (vHash meta)))) (\<lambda>r s.
      case r of
        None \<Rightarrow> (Some False, if destroyed s then s
                  else scheduleRetry path (s\<lparr>pendingDownloads := jset (pendingDownloads s) path (vHash meta)\<rparr>))
      | Some bs \<Rightarrow> materializeDownload E path meta bs expectedLocal generation s)"

definition deleteLocal :: "('m, 'i, 'b) config_env \<Rightarrow> jstr \<Rightarrow> nat \<Rightarrow> ('m, 'i, 'b, unit) config_op" where
  "deleteLocal E path generation s0 =
    (let finish = (\<lambda>s. (Some (), noteDownloaded E path (onLocal (removePath (dict E) path)
                         (s\<lparr>lastSyncedHash := jdel (lastSyncedHash s) path\<rparr>))))
     in if \<not> canApply generation s0 then (Some (), s0)
        else andThen (awaiting (occur E) (adapterExists path)) (\<lambda>ex s.
          if \<not> ex then finish s
          else if \<not> canApply generation s then (Some (), askReconcile E path s)
          else andThen (awaiting (occur E) (adapterRemove path)) (\<lambda>_ s. finish (s\<lparr>hashCache := jdel (hashCache s) path\<rparr>))
                 (act (Removes path (paused s \<or> destroyed s)) s)) (startWriting path s0))"

text \<open>\<open>preserveAdapterConflict\<close>; the search for a free name is one step.\<close>

definition preserve :: "('m, 'i, 'b) config_env \<Rightarrow> jstr \<Rightarrow> bytes \<Rightarrow> conflict_source \<Rightarrow> ('m, 'i, 'b, jstr) config_op" where
  "preserve E path content source s0 =
    andThen (awaiting (occur E) (\<lambda>s. (Some (freeCopy (recovery E) path source (utc E (clock s0)) (jkeys (disk s) @ dirs s) 1), s)))
      (\<lambda>destination. andThen (awaiting (occur E) (writeBinary destination content)) (\<lambda>_ s.
         (Some destination, act (Preserved path content) s))) s0"

section \<open>Merging a conflict\<close>

definition writeMergedAndUpload :: "('m, 'i, 'b) config_env \<Rightarrow> jstr \<Rightarrow> jstr \<Rightarrow> jstr \<Rightarrow> nat \<Rightarrow> ('m, 'i, 'b, unit) config_op" where
  "writeMergedAndUpload E path merged remoteH generation s0 =
    (let bs = encode E merged; s = startWriting path s0
     in if \<not> canApply generation s then (Some (), askReconcile E path s)
        else andThen (awaiting (occur E) (writeBinary path bs)) (\<lambda>_ s.
               let s1 = s\<lparr>hashCache := jdel (hashCache s) path\<rparr>
               in if \<not> canApply generation s1 then (Some (), s1)
                  else uploadBytes E path bs None (Some remoteH) generation s1)
             (act (Overwrites path bs (paused s \<or> destroyed s)) s))"

text \<open>Go on if the local file and the index entry are still the ones the decision was made on.\<close>

definition ifUnchanged :: "('m, 'i, 'b) config_env \<Rightarrow> jstr \<Rightarrow> jstr \<Rightarrow> jstr option \<Rightarrow> 'a \<Rightarrow> ('m, 'i, 'b, 'a) config_op
     \<Rightarrow> ('m, 'i, 'b, 'a) config_op" where
  "ifUnchanged E path localH expected stop continue =
    andThen (configStateMatches E path localH expected) (\<lambda>ok s.
      if ok then continue s else (Some stop, askReconcile E path s))"

definition mergeWithoutBase :: "('m, 'i, 'b) config_env \<Rightarrow> jstr \<Rightarrow> config_meta \<Rightarrow> config_meta \<Rightarrow> nat \<Rightarrow> bytes \<Rightarrow> bytes
     \<Rightarrow> ('m, 'i, 'b, unit) config_op" where
  "mergeWithoutBase E path local remote generation remoteBytes localBytes s =
    (if \<not> canApply generation s then (Some (), s)
     else case mergeJsonSettings E (decode E remoteBytes) (decode E localBytes) of
       None \<Rightarrow>
         if cmMtime local \<ge> cmMtime remote
         then andThen (preserve E path remoteBytes RemoteSide) (\<lambda>_. ifUnchanged E path (vHash local) (Some (vHash remote)) ()
                (uploadBytes E path localBytes (Some local) (Some (vHash remote)) generation)) s
         else andThen (preserve E path localBytes LocalSide) (\<lambda>_. ifUnchanged E path (vHash local) (Some (vHash remote)) ()
                (andThen (download E path remote (Some (vHash local)) generation) (\<lambda>_. give ()))) s
     | Some merged \<Rightarrow>
         andThen (preserve E path remoteBytes RemoteSide) (\<lambda>_. ifUnchanged E path (vHash local) (Some (vHash remote)) ()
           (writeMergedAndUpload E path merged (vHash remote) generation)) s)"

definition mergeConflict :: "('m, 'i, 'b) config_env \<Rightarrow> jstr \<Rightarrow> config_meta \<Rightarrow> config_meta \<Rightarrow> nat \<Rightarrow> jstr option option
     \<Rightarrow> ('m, 'i, 'b, unit) config_op" where
  "mergeConflict E path local remote generation ancestor =
    andThen (caught (awaiting (occur E) (fetchBlob E (Some path) (vHash remote)))) (\<lambda>r s.
      case r of
        None \<Rightarrow> (Some (), if destroyed s then s else scheduleRetry path s)
      | Some remoteBytes \<Rightarrow>
          andThen (awaiting (occur E) (readBinary path)) (\<lambda>localBytes. guardApply E path generation ()
            (ifUnchanged E path (vHash local) (Some (vHash remote)) () (\<lambda>s.
              case truthy (case ancestor of None \<Rightarrow> jget (lastSyncedHash s) path | Some h \<Rightarrow> h) of
                None \<Rightarrow> mergeWithoutBase E path local remote generation remoteBytes localBytes s
              | Some baseHash \<Rightarrow>
                  andThen (caught (awaiting (occur E) (fetchBlob E None baseHash))) (\<lambda>baseBytes. guardApply E path generation ()
                    (case Option.bind baseBytes (\<lambda>b. mergeJsonSettingsThreeWay E (decode E b) (decode E remoteBytes) (decode E localBytes)) of
                       Some (text, False) \<Rightarrow> ifUnchanged E path (vHash local) (Some (vHash remote)) ()
                         (writeMergedAndUpload E path text (vHash remote) generation)
                     | _ \<Rightarrow> mergeWithoutBase E path local remote generation remoteBytes localBytes)) s))) s)"

section \<open>Reconciling a path\<close>

text \<open>A \<open>prev\<close> of another shape than a string is taken for null.\<close>

definition prevHash :: "config_meta \<Rightarrow> jstr option option" where
  "prevHash m = (case vPrev m of None \<Rightarrow> None | Some (JStr h) \<Rightarrow> Some (Some h) | Some _ \<Rightarrow> Some None)"

text \<open>The local file was never synced here and differs from the shared one: keep it in a copy, take the shared one.\<close>

definition adoptRemote :: "('m, 'i, 'b) config_env \<Rightarrow> jstr \<Rightarrow> nat \<Rightarrow> config_meta \<Rightarrow> config_meta \<Rightarrow> ('m, 'i, 'b, bool) config_op" where
  "adoptRemote E path generation local remote =
    andThen (awaiting (occur E) (readBinary path)) (\<lambda>localBytes.
    andThen (caught (awaiting (occur E) (fetchBlob E (Some path) (vHash remote)))) (\<lambda>r s.
      case r of
        None \<Rightarrow> (Some False, if destroyed s then s else scheduleRetry path s)
      | Some remoteBytes \<Rightarrow>
          if \<not> canApply generation s then (Some False, askReconcile E path s)
          else andThen (preserve E path localBytes LocalSide) (\<lambda>_. ifUnchanged E path (vHash local) (Some (vHash remote)) False
                 (andThen (materializeDownload E path remote remoteBytes (Some (vHash local)) generation)
                    (\<lambda>written s. (Some (written \<and> canApply generation s), s)))) s))"

text \<open>The shared file was deleted and the local one edited: keep it in a copy, delete it.\<close>

definition adoptDelete :: "('m, 'i, 'b) config_env \<Rightarrow> jstr \<Rightarrow> nat \<Rightarrow> config_meta \<Rightarrow> ('m, 'i, 'b, bool) config_op" where
  "adoptDelete E path generation local =
    andThen (awaiting (occur E) (readBinary path)) (\<lambda>localBytes s.
      if \<not> canApply generation s then (Some False, askReconcile E path s)
      else andThen (preserve E path localBytes LocalSide) (\<lambda>_. ifUnchanged E path (vHash local) None False
             (andThen (deleteLocal E path generation) (\<lambda>_ s. (Some (canApply generation s), s)))) s)"

definition perform :: "('m, 'i, 'b) config_env \<Rightarrow> jstr \<Rightarrow> nat \<Rightarrow> config_meta option \<Rightarrow> config_meta option \<Rightarrow> jstr option option
     \<Rightarrow> config_action \<Rightarrow> ('m, 'i, 'b, bool) config_op" where
  "perform E path generation local remote ancestor action =
    (let finish = (\<lambda>_ s. (Some (canApply generation s), s))
     in case (action, local, remote) of
          (CUpload, Some l, _) \<Rightarrow> andThen (upload E path l (map_option vHash remote) generation) finish
        | (CDownload, _, Some r) \<Rightarrow>
            andThen (download E path r (map_option vHash local) generation) (\<lambda>written.
              if written then finish () else give False)
        | (CDeleteLocal, _, _) \<Rightarrow> andThen (deleteLocal E path generation) finish
        | (CDeleteRemote, _, _) \<Rightarrow> andThen (publishDelete E path generation) finish
        | (CMerge, Some l, Some r) \<Rightarrow> andThen (mergeConflict E path l r generation ancestor) finish
        | _ \<Rightarrow> finish ())"

text \<open>Nothing to do: both sides agree.\<close>

definition settled :: "('m, 'i, 'b) config_env \<Rightarrow> jstr \<Rightarrow> config_meta option \<Rightarrow> ('m, 'i, 'b) config_state \<Rightarrow> ('m, 'i, 'b) config_state" where
  "settled E path remote s =
    (let s1 = s\<lparr>pendingDownloads := jdel (pendingDownloads s) path\<rparr>
     in case truthy (map_option vHash remote) of
          Some h \<Rightarrow> onLocal (markSynced (dict E) path KConfig h h False) (s1\<lparr>lastSyncedHash := jset (lastSyncedHash s1) path h\<rparr>)
        | None \<Rightarrow> s1\<lparr>lastSyncedHash := jdel (lastSyncedHash s1) path\<rparr>)"

text \<open>A file without a record becomes a candidate; a pending download of another version is forgotten.\<close>

definition prepare :: "('m, 'i, 'b) config_env \<Rightarrow> jstr \<Rightarrow> config_meta option \<Rightarrow> ('m, 'i, 'b) config_state \<Rightarrow> ('m, 'i, 'b) config_state" where
  "prepare E path local s =
    (let s1 = (case local of
                 None \<Rightarrow> s
               | Some l \<Rightarrow> onLocal (\<lambda>st. if hasPath (dict E) st path then st
                              else beginCandidate (dict E) path KConfig (Some (vHash l)) (Some (vHash l)) st) s)
     in if jget (pendingDownloads s1) path \<noteq> remoteHash E path s1
        then s1\<lparr>pendingDownloads := jdel (pendingDownloads s1) path\<rparr> else s1)"

definition configRecord :: "('m, 'i, 'b) config_env \<Rightarrow> jstr \<Rightarrow> ('m, 'i, 'b) config_state \<Rightarrow> local_path_state option" where
  "configRecord E path s =
    (case localSync s of
       None \<Rightarrow> None
     | Some st \<Rightarrow> (case getPath (dict E) st path of None \<Rightarrow> None | Some c \<Rightarrow> if kind c = KConfig then Some c else None))"

text \<open>From the local file read to the end; everything up to the chosen action is one synchronous step.\<close>

definition settle :: "('m, 'i, 'b) config_env \<Rightarrow> jstr \<Rightarrow> nat \<Rightarrow> config_meta option \<Rightarrow> ('m, 'i, 'b, bool) config_op" where
  "settle E path generation local s0 =
    (let s = prepare E path local s0;
         remote = dGet (index E) (configFiles s) path;
         base = jget (lastSyncedHash s) path;
         localState = configRecord E path s;
         ownPublishParent = (case localState of Some c \<Rightarrow> if identity c = Some base then publishedFrom c else None | None \<Rightarrow> None);
         own = map_option (\<lambda>_. ownPublishParent \<noteq> None) (localSync s);
         decided = decideConfigReconcile local remote base
           \<lparr>initialPull = pulling s \<or> jhas (pendingDownloads s) path,
            canMerge = endsWith path (lit ''.json''),
            replacedHash = (case localState of Some c \<Rightarrow> replacedIdentity c | None \<Rightarrow> None),
            ownBase = own\<rparr>;
         ancestor = (case (local, remote) of
                       (Some l, Some r) \<Rightarrow> if base = Some (vHash l)
                         then (if own = Some True then ownPublishParent else prevHash r) else None
                     | _ \<Rightarrow> None);
         continue = (if decided = CNone then (\<lambda>s. (Some True, settled E path remote s))
                     else perform E path generation local remote ancestor decided)
     in case (local, remote) of
          (Some l, Some r) \<Rightarrow>
            if vHash l \<noteq> vHash r \<and> (case localState of Some c \<Rightarrow> candidate c = Some True | None \<Rightarrow> False)
            then adoptRemote E path generation l r s else continue s
        | (Some l, None) \<Rightarrow>
            if base \<noteq> None \<and> base \<noteq> Some (vHash l) then adoptDelete E path generation l s else continue s
        | _ \<Rightarrow> continue s)"

definition reconcileNow :: "('m, 'i, 'b) config_env \<Rightarrow> jstr \<Rightarrow> ('m, 'i, 'b, bool) config_op" where
  "reconcileNow E path s0 =
    (if destroyed s0 \<or> paused s0 then (Some False, s0)
     else let generation = pauseGeneration s0
          in andThen (localInfo E path) (\<lambda>local s.
               case local of
                 None \<Rightarrow> (Some False, s)
               | Some l \<Rightarrow> if \<not> canApply generation s then (Some False, s) else settle E path generation l s) s0)"

text \<open>A turn of the chain of a path: an exception counts as not complete.\<close>

definition reconcile :: "('m, 'i, 'b) config_env \<Rightarrow> jstr \<Rightarrow> ('m, 'i, 'b) config_state \<Rightarrow> bool \<times> ('m, 'i, 'b) config_state" where
  "reconcile E path s =
    (if syncableCategory E path s = None \<or> path \<in> set (writing s) then (True, s)
     else case reconcileNow E path s of (r, s') \<Rightarrow> (r = Some True, s'))"

text \<open>The versions this device is known to have at the start.\<close>

definition seedEntry :: "('m, 'i, 'b) config_env \<Rightarrow> jstr \<times> config_meta \<Rightarrow> ('m, 'i, 'b) config_state \<Rightarrow> ('m, 'i, 'b) config_state" where
  "seedEntry E pm s =
    (case pm of (path, meta) \<Rightarrow>
      if vHash meta = [] then s
      else case localSync s of
        None \<Rightarrow> s\<lparr>lastSyncedHash := jset (lastSyncedHash s) path (vHash meta)\<rparr>
      | Some st \<Rightarrow>
          (let st' = migrateLegacyIdentity (dict E) path KConfig (vHash meta) st; s' = s\<lparr>localSync := Some st'\<rparr>
           in case getPath (dict E) st' path of
                None \<Rightarrow> s'
              | Some c \<Rightarrow> if kind c = KConfig \<and> candidate c \<noteq> Some True \<and> identity c = Some (Some (vHash meta))
                          then s'\<lparr>lastSyncedHash := jset (lastSyncedHash s') path (vHash meta)\<rparr> else s'))"

definition seedRecord :: "jstr \<times> local_path_state \<Rightarrow> ('m, 'i, 'b) config_state \<Rightarrow> ('m, 'i, 'b) config_state" where
  "seedRecord pc s =
    (case pc of (path, c) \<Rightarrow>
      (case identity c of
         Some (Some i) \<Rightarrow> if kind c = KConfig \<and> candidate c \<noteq> Some True \<and> i \<noteq> []
                         then s\<lparr>lastSyncedHash := jset (lastSyncedHash s) path i\<rparr> else s
       | _ \<Rightarrow> s))"

definition seedBaseline :: "('m, 'i, 'b) config_env \<Rightarrow> ('m, 'i, 'b) config_state \<Rightarrow> ('m, 'i, 'b) config_state" where
  "seedBaseline E s =
    (let s1 = fold (seedEntry E) (dEntries (index E) (configFiles s)) s
     in case localSync s1 of None \<Rightarrow> s1 | Some st \<Rightarrow> fold seedRecord (entries (dict E) st) s1)"

section \<open>What the device does to others\<close>

text \<open>
  An entry is published over the entry it names as its parent, after the server has confirmed the blob; an
  entry is deleted only when it is the version this device has last synced and no initial pull is under way;
  nothing is changed while the component is paused or destroyed.
\<close>

fun actionOk :: "action list \<Rightarrow> action \<Rightarrow> bool" where
  "actionOk earlier (Published path meta replaced stopped) =
    (\<not> stopped \<and> Stored (vHash meta) \<in> set earlier
     \<and> vPrev meta = Some (case replaced of None \<Rightarrow> JNull | Some r \<Rightarrow> JStr (vHash r))
     \<and> (\<forall>r. replaced = Some r \<longrightarrow> descendsFrom meta (vHash r)
          \<and> lineageAfter (Some meta) = (if vHash meta = [] then [] else take LINEAGE_LENGTH (take PREFIX_LENGTH (vHash meta) # lineageAfter replaced))))"
| "actionOk earlier (Unpublished path meta base initial stopped) = (\<not> stopped \<and> base = Some (vHash meta) \<and> \<not> initial)"
| "actionOk earlier (Overwrites path bs stopped) = (\<not> stopped)"
| "actionOk earlier (Removes path stopped) = (\<not> stopped)"
| "actionOk earlier _ = True"

text \<open>Steps that only change other fields.\<close>

lemma trace_steps [simp]:
  "trace (askReconcile E p s) = trace s" "trace (askUnlessDestroyed E p s) = trace s"
  "trace (onConfigFilesChanged E p s) = trace s" "trace (onLocal f s) = trace s" "trace (scheduleRetry p s) = trace s"
  "trace (noteDownloaded E p s) = trace s" "trace (startWriting p s) = trace s" "trace (setPaused b s) = trace s"
  "trace (destroy s) = trace s" "trace (indexSet E p m s) = trace s" "trace (indexDelete E p s) = trace s"
  "trace (settled E p r s) = trace s"
  by (simp_all add: askReconcile_def askUnlessDestroyed_def onConfigFilesChanged_def onLocal_def scheduleRetry_def
      noteDownloaded_def startWriting_def setPaused_def schedulePoll_def destroy_def indexSet_def indexDelete_def
      settled_def Let_def split: option.splits)

lemma trace_occur [simp]: "trace (occur E e s) = trace s"
  by (cases e) simp_all

interpretation cfg: scripted "occur E" for E :: "('m, 'i, 'b) config_env"
  by unfold_locales simp

lemmas safe_awaiting [safe_intros] = cfg.hoare_awaiting

lemma safe_primitives [safe_intros]:
  "safe actionOk A (adapterExists p)" "safe actionOk A (adapterStat p)" "safe actionOk A (readBinary p)" "safe actionOk A (writeBinary p bs)"
  "safe actionOk A (adapterRemove p)" "safe actionOk A (adapterMkdir p)" "safe actionOk A (fetchBlob E q h)"
  by (rule safe_same; simp add: adapterExists_def adapterStat_def readBinary_def writeBinary_def adapterRemove_def
      adapterMkdir_def fetchBlob_def split_beta)+

lemma safe_guardApply [safe_intros]: "safe actionOk A k \<Longrightarrow> safe actionOk A (guardApply E p g x k)"
proof -
  assume k: "safe actionOk A k"
  have "guardApply E p g x k = (\<lambda>s. if \<not> canApply g s then (Some x, askUnlessDestroyed E p s) else k s)"
    by (rule ext) (simp add: guardApply_def)
  moreover have "safe actionOk A (\<lambda>s. (Some x, askUnlessDestroyed E p s))" by (rule safe_same) simp
  ultimately show ?thesis using k by (simp only: safe_ifState)
qed

lemma safe_stop [safe_intros]: "safe actionOk A (\<lambda>s. (r, askReconcile E p s))"
  by (rule safe_same) simp

lemma safe_readAndHash [safe_intros]: "safe actionOk A (readAndHash E p st now)"
  unfolding readAndHash_def Let_def by (intro safe_intros) (rule safe_same, simp)

lemma safe_localInfo [safe_intros]: "safe actionOk A (localInfo E p)"
proof -
  let ?m = "andThen (awaiting (occur E) (adapterExists p)) (\<lambda>ex.
            if \<not> ex then (\<lambda>s. (Some None, s\<lparr>hashCache := jdel (hashCache s) p\<rparr>))
            else andThen (awaiting (occur E) (adapterStat p)) (\<lambda>stat s.
              case cachedHash p stat s of
                Some c \<Rightarrow> (Some (Some (localMeta (hcHash c) (hcSize c) (hcMtime c))), s)
              | None \<Rightarrow> readAndHash E p stat (clock s) s))"
  have "safe actionOk A (\<lambda>s. case cachedHash p stat s of
      Some c \<Rightarrow> (Some (Some (localMeta (hcHash c) (hcSize c) (hcMtime c))), s) | None \<Rightarrow> readAndHash E p stat (clock s) s)" for stat
  proof (rule safe_state)
    fix s
    show "\<exists>m. (case cachedHash p stat s of
        Some c \<Rightarrow> (Some (Some (localMeta (hcHash c) (hcSize c) (hcMtime c))), s) | None \<Rightarrow> readAndHash E p stat (clock s) s) = m s \<and> safe actionOk A m"
      using safe_readAndHash [of A E p stat "clock s"] safe_return(1) [of actionOk A] by (cases "cachedHash p stat s") fastforce+
  qed
  moreover have "safe actionOk A (\<lambda>s. (Some None, s\<lparr>hashCache := jdel (hashCache s) p\<rparr>))" by (rule safe_same) simp
  ultimately have "safe actionOk A ?m" by (intro safe_intros)
  moreover have "localInfo E p = caught ?m"
  proof (rule ext)
    fix s
    obtain r s' where "?m s = (r, s')" by fastforce
    then show "localInfo E p s = caught ?m s" by (cases r) (simp_all add: localInfo_def caught_def)
  qed
  ultimately show ?thesis by (simp only: safe_caught)
qed

lemma safe_configStateMatches [safe_intros]: "safe actionOk A (configStateMatches E p h x)"
  unfolding configStateMatches_def by (intro safe_intros)

lemma safe_ifUnchanged [safe_intros]: "safe actionOk A k \<Longrightarrow> safe actionOk A (ifUnchanged E p h x stop k)"
  unfolding ifUnchanged_def by (intro safe_andThen safe_configStateMatches) (intro safe_ifState safe_stop)

section \<open>Every publish is sound\<close>

lemma publishedMeta_ok:
  assumes "map_option vHash replaced = expected" "Stored (vHash meta) \<in> set earlier"
  shows "actionOk earlier (Published p (publishedMeta meta expected replaced) replaced False)"
proof -
  define m where "m = publishedMeta meta expected replaced"
  have h: "vHash m = vHash meta" by (simp add: m_def publishedMeta_def Let_def)
  have p: "vPrev m = Some (case replaced of None \<Rightarrow> JNull | Some r \<Rightarrow> JStr (vHash r))"
    using assms(1) by (auto simp: m_def publishedMeta_def Let_def split: option.splits)
  then have "\<forall>r. replaced = Some r \<longrightarrow> descendsFrom m (vHash r)" by (simp add: descendsFrom_def)
  moreover have "lineageAfter (Some m)
      = (if vHash m = [] then [] else take LINEAGE_LENGTH (take PREFIX_LENGTH (vHash m) # lineageAfter replaced))"
    by (simp add: lineageAfter_def [of "Some m"]) (simp add: m_def publishedMeta_def Let_def)
  ultimately show ?thesis using assms(2) h p by (simp add: m_def [symmetric])
qed

lemma publish_safe:
  assumes "Stored (vHash meta) \<in> A"
  shows "safe actionOk A (publish E p meta expected g cur)"
  unfolding hoare_def
proof (intro allI impI)
  fix s r s'
  assume r: "publish E p meta expected g cur s = (r, s')" and gd: "good actionOk s" and A: "A \<subseteq> set (trace s)"
  define replaced where "replaced = dGet (index E) (configFiles s) p"
  define a where "a = Published p (publishedMeta meta expected replaced) replaced (paused s \<or> destroyed s)"
  have "trace s' = trace s \<or> trace s' = trace s @ [a] \<and> actionOk (trace s) a"
  proof (cases "\<not> canApply g s \<or> (case cur of Some (Some m) \<Rightarrow> vHash m \<noteq> vHash meta | _ \<Rightarrow> True) \<or> map_option vHash replaced \<noteq> expected")
    case True
    then have "s' = askReconcile E p s" using r unfolding publish_def Let_def replaced_def [symmetric] by (simp split: if_splits)
    then show ?thesis by simp
  next
    case False
    then have "actionOk (trace s) a"
      using publishedMeta_ok [of replaced expected meta "trace s" p] assms A unfolding a_def canApply_def by auto
    moreover have "trace s' = trace s @ [a]"
      using r False unfolding publish_def Let_def replaced_def [symmetric] a_def by (auto simp: act_def)
    ultimately show ?thesis by simp
  qed
  then show "good actionOk s' \<and> A \<subseteq> set (trace s') \<and> (\<forall>x. r = Some x \<longrightarrow> {} \<subseteq> set (trace s'))"
    using gd A by (auto simp: good_def traceOk_append)
qed

lemma blob_confirmed:
  "hoare actionOk A (askBlob E p h) (\<lambda>ok. if ok then {Stored h} else {})" "hoare actionOk A (storeBlob E p h bs) (\<lambda>_. {Stored h})"
  unfolding hoare_def
  by (auto simp: askBlob_def storeBlob_def act_def good_def traceOk_append split: prod.splits if_splits)

lemma safe_uploadBytes [safe_intros]: "safe actionOk A (uploadBytes E p bs meta expected g)"
proof -
  have confirmed: "safe actionOk (insert (Stored (vHash final)) A) (guardApply E p g () (andThen (localInfo E p) (publish E p final expected g)))" for final
    by (intro safe_intros publish_safe) simp
  have store: "safe actionOk A (guardApply E p g () (andThen (awaiting (occur E) (storeBlob E p (vHash final) bs))
      (\<lambda>_. guardApply E p g () (andThen (localInfo E p) (publish E p final expected g)))))" for final
    by (rule safe_guardApply, rule hoare_andThen [OF safe_awaiting [OF blob_confirmed(2)]]) (simp add: confirmed)
  have ask: "safe actionOk A (andThen (awaiting (occur E) (askBlob E p (vHash final))) (\<lambda>exists.
      if exists then guardApply E p g () (andThen (localInfo E p) (publish E p final expected g))
      else guardApply E p g () (andThen (awaiting (occur E) (storeBlob E p (vHash final) bs))
        (\<lambda>_. guardApply E p g () (andThen (localInfo E p) (publish E p final expected g))))))" for final
  proof (rule hoare_andThen [OF safe_awaiting [OF blob_confirmed(1)]])
    fix exists
    show "safe actionOk (A \<union> (if exists then {Stored (vHash final)} else {})) (if exists then guardApply E p g () (andThen (localInfo E p) (publish E p final expected g))
      else guardApply E p g () (andThen (awaiting (occur E) (storeBlob E p (vHash final) bs))
        (\<lambda>_. guardApply E p g () (andThen (localInfo E p) (publish E p final expected g)))))"
      using confirmed [of final] store [of final] by simp
  qed
  show ?thesis unfolding uploadBytes_def Let_def
    by (intro safe_andThen safe_awaiting safe_give safe_guardApply safe_state) (use ask in blast)
qed

lemma safe_upload [safe_intros]: "safe actionOk A (upload E p meta expected g)"
  unfolding upload_def by (intro safe_intros)

section \<open>Every write is made while running\<close>

text \<open>A write or removal that starts right after a check of \<open>canApply\<close>.\<close>

lemma safe_acting:
  assumes "\<And>e. actionOk e (a False)" "safe actionOk A m" "\<And>s. trace (f s) = trace s"
  shows "safe actionOk A (\<lambda>s. if \<not> canApply g s then (Some x, f s) else m (act (a (paused s \<or> destroyed s)) s))"
  unfolding hoare_def
proof (intro allI impI)
  fix s r s'
  assume r: "(if \<not> canApply g s then (Some x, f s) else m (act (a (paused s \<or> destroyed s)) s)) = (r, s')"
    and gd: "good actionOk s" and A: "A \<subseteq> set (trace s)"
  show "good actionOk s' \<and> A \<subseteq> set (trace s') \<and> (\<forall>x. r = Some x \<longrightarrow> {} \<subseteq> set (trace s'))"
  proof (cases "canApply g s")
    case True
    then have "m (act (a False) s) = (r, s')" using r by (simp add: canApply_def)
    moreover have "good actionOk (act (a False) s)" using gd assms(1) by (simp add: good_act)
    moreover have "A \<subseteq> set (trace (act (a False) s))" using A by (auto simp: act_def)
    ultimately show ?thesis using assms(2) unfolding hoare_def by blast
  next
    case False
    then show ?thesis using r gd A assms(3) by (auto simp: good_def)
  qed
qed

lemma safe_ensureFolders [safe_intros]: "safe actionOk A (ensureFolders E cur parts)"
proof (induction parts arbitrary: cur)
  case Nil
  then show ?case by (simp add: safe_give)
next
  case (Cons part parts)
  show ?case unfolding ensureFolders.simps Let_def by (intro safe_intros Cons.IH)
qed

lemma safe_writeDownload [safe_intros]: "safe actionOk A (writeDownload E p meta bs g)"
proof -
  have fin: "safe actionOk A (\<lambda>s. (Some True, noteDownloaded E p
           ((onLocal (markSynced (dict E) p KConfig (vHash meta) (vHash meta) True)
              (s\<lparr>hashCache := jdel (hashCache s) p, lastSyncedHash := jset (lastSyncedHash s) p (vHash meta)\<rparr>))
            \<lparr>pendingDownloads := jdel (pendingDownloads s) p\<rparr>)))"
    by (rule safe_same) simp
  show ?thesis unfolding writeDownload_def ensureParentFolders_def
    by (rule safe_after, rule safe_andThen, rule safe_ensureFolders)
       (rule safe_acting [where a = "Overwrites p bs"], simp, intro safe_intros fin, simp, simp)
qed

lemma safe_materializeDownload [safe_intros]: "safe actionOk A (materializeDownload E p meta bs x g)"
  unfolding materializeDownload_def by (intro safe_intros)

lemma safe_download [safe_intros]: "safe actionOk A (download E p meta x g)"
proof -
  have "safe actionOk A (\<lambda>s. (Some False, if destroyed s then s else scheduleRetry p (s\<lparr>pendingDownloads := jset (pendingDownloads s) p (vHash meta)\<rparr>)))"
    by (rule safe_same) simp
  then show ?thesis unfolding download_def by (intro safe_intros)
qed

lemma safe_deleteLocal [safe_intros]: "safe actionOk A (deleteLocal E p g)"
proof -
  let ?fin = "\<lambda>s. (Some (), noteDownloaded E p (onLocal (removePath (dict E) p) (s\<lparr>lastSyncedHash := jdel (lastSyncedHash s) p\<rparr>)))"
  have fin: "safe actionOk A ?fin" by (rule safe_same) simp
  have "safe actionOk A (\<lambda>s. ?fin (s\<lparr>hashCache := jdel (hashCache s) p\<rparr>))" by (rule safe_same) simp
  then have rem: "safe actionOk A (andThen (awaiting (occur E) (adapterRemove p)) (\<lambda>_ s. ?fin (s\<lparr>hashCache := jdel (hashCache s) p\<rparr>)))"
    by (intro safe_intros)
  have acting: "safe actionOk A (\<lambda>s. if \<not> canApply g s then (Some (), askReconcile E p s)
      else andThen (awaiting (occur E) (adapterRemove p)) (\<lambda>_ s. ?fin (s\<lparr>hashCache := jdel (hashCache s) p\<rparr>)) (act (Removes p (paused s \<or> destroyed s)) s))"
    by (rule safe_acting [where a = "Removes p", OF _ rem]) simp_all
  show ?thesis unfolding deleteLocal_def Let_def
    by (rule safe_ifState [OF safe_return(1)], rule safe_after, rule safe_andThen [OF safe_awaiting [OF safe_primitives(1)]])
       (rule safe_ifState [OF fin acting], simp)
qed

lemma safe_preserve [safe_intros]: "safe actionOk A (preserve E p content src)"
proof -
  have pres: "safe actionOk A (\<lambda>s. (Some d, act (Preserved p content) s))" for d
    unfolding hoare_def by (auto simp: act_def good_def traceOk_append)
  show ?thesis unfolding preserve_def by (rule safe_state, rule exI, rule conjI, rule refl) (intro safe_intros pres)
qed

lemma safe_writeMergedAndUpload [safe_intros]: "safe actionOk A (writeMergedAndUpload E p text h g)"
proof -
  have up: "safe actionOk A (\<lambda>s. uploadBytes E p bs None (Some h) g (s\<lparr>hashCache := jdel (hashCache s) p\<rparr>))" for bs
    by (rule safe_after [OF safe_uploadBytes]) simp
  have keep: "safe actionOk A (\<lambda>s. (Some (), s\<lparr>hashCache := jdel (hashCache s) p\<rparr>))" by (rule safe_same) simp
  have "safe actionOk A (\<lambda>s. if \<not> canApply g s then (Some (), askReconcile E p s)
      else andThen (awaiting (occur E) (writeBinary p bs)) (\<lambda>_ s. if \<not> canApply g (s\<lparr>hashCache := jdel (hashCache s) p\<rparr>)
               then (Some (), s\<lparr>hashCache := jdel (hashCache s) p\<rparr>)
               else uploadBytes E p bs None (Some h) g (s\<lparr>hashCache := jdel (hashCache s) p\<rparr>)) (act (Overwrites p bs (paused s \<or> destroyed s)) s))" for bs
    by (rule safe_acting [where a = "Overwrites p bs"]) (simp, intro safe_intros up keep, simp)
  from safe_after [OF this [of "encode E text"], of "startWriting p"] show ?thesis
    unfolding writeMergedAndUpload_def Let_def by simp
qed

lemma safe_mergeWithoutBase [safe_intros]: "safe actionOk A (mergeWithoutBase E p l r g rb lb)"
  unfolding mergeWithoutBase_def by (cases "mergeJsonSettings E (decode E rb) (decode E lb)") (simp_all only: option.case, (intro safe_intros)+)

lemma safe_retry [safe_intros]: "safe actionOk A (\<lambda>s. (x, if destroyed s then s else scheduleRetry p s))"
  by (rule safe_same) simp

lemma safe_mergeConflict [safe_intros]: "safe actionOk A (mergeConflict E p l r g ancestor)"
proof -
  have three: "safe actionOk A (case t of Some (text, False) \<Rightarrow> ifUnchanged E p (vHash l) (Some (vHash r)) () (writeMergedAndUpload E p text (vHash r) g)
      | _ \<Rightarrow> mergeWithoutBase E p l r g rb lb)" for t rb lb
    by (cases t rule: option.exhaust) (auto intro!: safe_mergeWithoutBase safe_ifUnchanged safe_writeMergedAndUpload split: bool.split)
  have based: "safe actionOk A (\<lambda>s. case truthy (case ancestor of None \<Rightarrow> jget (lastSyncedHash s) p | Some h \<Rightarrow> h) of
      None \<Rightarrow> mergeWithoutBase E p l r g rb lb s
    | Some baseHash \<Rightarrow> andThen (caught (awaiting (occur E) (fetchBlob E None baseHash))) (\<lambda>baseBytes. guardApply E p g ()
        (case Option.bind baseBytes (\<lambda>b. mergeJsonSettingsThreeWay E (decode E b) (decode E rb) (decode E lb)) of
           Some (text, False) \<Rightarrow> ifUnchanged E p (vHash l) (Some (vHash r)) () (writeMergedAndUpload E p text (vHash r) g)
         | _ \<Rightarrow> mergeWithoutBase E p l r g rb lb)) s)" for rb lb
    by (rule safe_state, rule exI, rule conjI, rule refl) (intro safe_optionState safe_intros three)
  show ?thesis unfolding mergeConflict_def by (intro safe_intros based)
qed

lemma safe_adoptRemote [safe_intros]: "safe actionOk A (adoptRemote E p g l r)"
  unfolding adoptRemote_def by (intro safe_intros)

lemma safe_adoptDelete [safe_intros]: "safe actionOk A (adoptDelete E p g l)"
  unfolding adoptDelete_def by (intro safe_intros)

lemma publishDelete_good:
  assumes "good actionOk s" "jget (lastSyncedHash s) p = remoteHash E p s" "\<not> pulling s"
  shows "good actionOk (snd (publishDelete E p g s))"
  using assms by (auto simp: publishDelete_def guardApply_def remoteHash_def canApply_def Let_def good_def act_def traceOk_append split: option.splits)

lemma perform_good:
  assumes "good actionOk s" "action = CDeleteRemote \<longrightarrow> jget (lastSyncedHash s) p = remoteHash E p s \<and> \<not> pulling s"
  shows "good actionOk (snd (perform E p g local remote ancestor action s))"
proof (cases "action = CDeleteRemote")
  case True
  then have "good actionOk (snd (publishDelete E p g s))" using assms publishDelete_good by blast
  moreover obtain s' where "publishDelete E p g s = (Some (), s')"
    by (cases "canApply g s") (auto simp: publishDelete_def guardApply_def Let_def)
  ultimately show ?thesis using True by (simp add: perform_def andThen_def)
next
  case False
  have "safe actionOk {} (perform E p g local remote ancestor action)"
    unfolding perform_def Let_def using False
    by (cases action; cases local; cases remote) (auto intro!: safe_intros)
  then show ?thesis using assms(1) by (rule safe_good)
qed

lemma decide_delete:
  "decideConfigReconcile local remote base opts = CDeleteRemote \<Longrightarrow> base = map_option vHash remote \<and> \<not> initialPull opts"
  by (auto simp: decideConfigReconcile_def Let_def split: option.splits if_splits)

lemma fields_onLocal [simp]:
  "configFiles (onLocal f s) = configFiles s" "lastSyncedHash (onLocal f s) = lastSyncedHash s" "pulling (onLocal f s) = pulling s"
  by (simp_all add: onLocal_def)

lemma fields_prepare [simp]:
  "trace (prepare E p l s) = trace s" "configFiles (prepare E p l s) = configFiles s"
  "lastSyncedHash (prepare E p l s) = lastSyncedHash s" "pulling (prepare E p l s) = pulling s"
  by (simp_all add: prepare_def Let_def split: option.splits)

lemma good_bothCases:
  assumes "\<And>l r. good actionOk (snd (f l r))" "\<And>l. good actionOk (snd (h l))" "good actionOk (snd k)"
  shows "good actionOk (snd (case (local, remote) of (Some l, Some r) \<Rightarrow> f l r | (Some l, None) \<Rightarrow> h l | _ \<Rightarrow> k))"
  using assms by (cases local; cases remote) simp_all

lemma settle_good:
  assumes "good actionOk s0"
  shows "good actionOk (snd (settle E p g local s0))"
proof -
  define s where "s = prepare E p local s0"
  define remote where "remote = dGet (index E) (configFiles s) p"
  define continue where "continue = (\<lambda>decided ancestor. if decided = CNone then (\<lambda>s. (Some True, settled E p remote s))
                     else perform E p g local remote ancestor decided)"
  have s: "good actionOk s" using assms by (simp add: s_def good_def)
  have cont: "good actionOk (snd (continue (decideConfigReconcile local remote (jget (lastSyncedHash s) p)
      \<lparr>initialPull = pulling s \<or> q, canMerge = m, replacedHash = h, ownBase = own\<rparr>) ancestor s))" for q m h own ancestor
  proof -
    define d where "d = decideConfigReconcile local remote (jget (lastSyncedHash s) p)
      \<lparr>initialPull = pulling s \<or> q, canMerge = m, replacedHash = h, ownBase = own\<rparr>"
    have "d = CDeleteRemote \<longrightarrow> jget (lastSyncedHash s) p = remoteHash E p s \<and> \<not> pulling s"
      using decide_delete unfolding d_def remoteHash_def remote_def by fastforce
    then have "good actionOk (snd (continue d ancestor s))"
      using perform_good [OF s] s by (simp add: continue_def good_def)
    then show ?thesis by (simp only: d_def)
  qed
  have fold: "(if d = CNone then (\<lambda>s. (Some True, settled E p remote s)) else perform E p g local remote a d) = continue d a" for d a
    by (simp add: continue_def)
  show ?thesis
    unfolding settle_def Let_def s_def [symmetric] remote_def [symmetric] fold
    by (intro good_bothCases good_if cont safe_good [OF safe_adoptRemote s] safe_good [OF safe_adoptDelete s])
qed


section \<open>An undisturbed reconciliation\<close>

lemma ask_fields:
  "\<exists>q. askReconcile E p s = s\<lparr>requests := q\<rparr>"
  by (cases "syncableCategory E p s = None \<or> p \<in> set (writing s)") (auto simp: askReconcile_def intro: exI [of _ "requests s"])

lemma changed_fields: "\<exists>q. onConfigFilesChanged E p s = s\<lparr>requests := q\<rparr>"
  using ask_fields [of E p s] by (auto simp: onConfigFilesChanged_def intro: exI [of _ "requests s"])

lemma note_fields: "\<exists>b. noteDownloaded E p s = s\<lparr>reloadNoticeTimer := b\<rparr>"
  by (auto simp: noteDownloaded_def split: option.split intro: exI [of _ "reloadNoticeTimer s"])

text \<open>A cached hash of the present size and time is the hash of the content.\<close>

definition cacheOk :: "('m, 'i, 'b) config_env \<Rightarrow> jstr \<Rightarrow> ('m, 'i, 'b) config_state \<Rightarrow> bool" where
  "cacheOk E p s \<longleftrightarrow> (case (jget (hashCache s) p, jget (disk s) p) of
     (Some c, Some (bs, t)) \<Rightarrow> hcSize c = length bs \<and> hcMtime c = t \<longrightarrow> hcHash c = sha256Hex E bs
   | _ \<Rightarrow> True)"

definition quiet :: "('m, 'i, 'b) config_env \<Rightarrow> jstr \<Rightarrow> nat \<Rightarrow> ('m, 'i, 'b) config_state \<Rightarrow> bool" where
  "quiet E p g s \<longleftrightarrow> script s = [] \<and> canApply g s \<and> p \<notin> set (dirs s) \<and> cacheOk E p s"

definition localHashOf :: "('m, 'i, 'b) config_env \<Rightarrow> jstr \<Rightarrow> ('m, 'i, 'b) config_state \<Rightarrow> jstr option" where
  "localHashOf E p s = map_option (\<lambda>(bs, t). sha256Hex E bs) (jget (disk s) p)"

definition agree :: "('m, 'i, 'b) config_env \<Rightarrow> jstr \<Rightarrow> ('m, 'i, 'b) config_state \<Rightarrow> bool" where
  "agree E p s \<longleftrightarrow> localHashOf E p s = remoteHash E p s \<and> jget (lastSyncedHash s) p = remoteHash E p s"

lemma localInfo_quiet:
  assumes "quiet E p g s"
  obtains c where "localInfo E p s = (Some (Some (map_option (\<lambda>(bs, t). localMeta (sha256Hex E bs) (length bs) t) (jget (disk s) p))), s\<lparr>hashCache := c\<rparr>)"
    "quiet E p g (s\<lparr>hashCache := c\<rparr>)"
proof (cases "jget (disk s) p")
  case None
  then show ?thesis using assms that [of "jdel (hashCache s) p"]
    by (simp add: quiet_def localInfo_def andThen_def adapterExists_def cacheOk_def canApply_def)
next
  case (Some f)
  obtain bs t where f: "f = (bs, t)" by (cases f)
  show ?thesis
  proof (cases "cachedHash p (Some (length bs, t)) s")
    case None
    then show ?thesis
      using assms Some f that [of "jset (hashCache s) p \<lparr>hcSize = length bs, hcMtime = t, hcHash = sha256Hex E bs, checkedAt = clock s\<rparr>"]
      by (simp add: quiet_def localInfo_def andThen_def adapterExists_def adapterStat_def readAndHash_def readBinary_def give_def
          cacheOk_def canApply_def)
  next
    case (Some c)
    then have "hcHash c = sha256Hex E bs \<and> hcSize c = length bs \<and> hcMtime c = t"
      using assms \<open>jget (disk s) p = Some f\<close> f by (auto simp: cachedHash_def quiet_def cacheOk_def split: option.splits if_splits)
    then show ?thesis using assms \<open>jget (disk s) p = Some f\<close> f Some that [of "hashCache s"]
      by (simp add: quiet_def localInfo_def andThen_def adapterExists_def adapterStat_def)
  qed
qed

lemma view_same [simp]:
  "quiet E p g (s\<lparr>server := b\<rparr>) = quiet E p g s" "quiet E p g (s\<lparr>trace := tr\<rparr>) = quiet E p g s"
  "quiet E p g (s\<lparr>requests := q\<rparr>) = quiet E p g s" "quiet E p g (s\<lparr>writing := w\<rparr>) = quiet E p g s"
  "quiet E p g (s\<lparr>pendingDownloads := pd\<rparr>) = quiet E p g s" "quiet E p g (s\<lparr>localSync := l\<rparr>) = quiet E p g s"
  "remoteHash E p (s\<lparr>server := b\<rparr>) = remoteHash E p s" "remoteHash E p (s\<lparr>trace := tr\<rparr>) = remoteHash E p s"
  "remoteHash E p (s\<lparr>requests := q\<rparr>) = remoteHash E p s" "remoteHash E p (s\<lparr>writing := w\<rparr>) = remoteHash E p s"
  "remoteHash E p (s\<lparr>hashCache := c\<rparr>) = remoteHash E p s" "remoteHash E p (s\<lparr>disk := d\<rparr>) = remoteHash E p s"
  "remoteHash E p (s\<lparr>pendingDownloads := pd\<rparr>) = remoteHash E p s" "remoteHash E p (s\<lparr>localSync := l\<rparr>) = remoteHash E p s"
  by (simp_all add: quiet_def cacheOk_def canApply_def remoteHash_def)

lemma quiet_canApply: "quiet E p g s \<Longrightarrow> canApply g s" and quiet_script: "quiet E p g s \<Longrightarrow> script s = []"
  by (simp_all add: quiet_def)

text \<open>The server answers requests for blobs of the path and takes uploads; it serves the blob of a hash.\<close>

definition acceptsBlobs :: "('m, 'i, 'b) config_env \<Rightarrow> jstr \<Rightarrow> bool" where
  "acceptsBlobs E p \<longleftrightarrow> (\<forall>h bs b. fst (blobExists E p h b) \<noteq> None \<and> fst (putBlob E p h bs b))"

definition servesBlob :: "('m, 'i, 'b) config_env \<Rightarrow> jstr \<Rightarrow> jstr \<Rightarrow> bool" where
  "servesBlob E p h \<longleftrightarrow> (\<forall>b. \<exists>bs. fst (getBlob E (Some p) h b) = Some bs \<and> sha256Hex E bs = h)"

lemma publish_quiet:
  assumes "ymap (index E)" "canApply g s" "remoteHash E p s = expected" "vHash m = vHash meta"
  obtains s' where "publish E p meta expected g (Some (Some m)) s = (Some (), s')" "remoteHash E p s' = Some (vHash meta)"
    "jget (lastSyncedHash s') p = Some (vHash meta)" "disk s' = disk s" "canApply g s'"
proof -
  define final where "final = publishedMeta meta expected (dGet (index E) (configFiles s) p)"
  have h: "vHash final = vHash meta" by (simp add: final_def publishedMeta_def Let_def)
  define s0 where "s0 = (act (Published p final (dGet (index E) (configFiles s) p) (paused s \<or> destroyed s)) s)
    \<lparr>configFiles := dPut (index E) (configFiles s) p final\<rparr>"
  obtain q where q: "onConfigFilesChanged E p s0 = s0\<lparr>requests := q\<rparr>" using changed_fields by blast
  then have "publish E p meta expected g (Some (Some m)) s = (Some (), onLocal (markPublished (dict E) p KConfig (vHash final) expected)
      (s0\<lparr>requests := q, lastSyncedHash := jset (lastSyncedHash s0) p (vHash final)\<rparr>))"
    using assms(2-4) by (simp add: publish_def Let_def remoteHash_def final_def [symmetric] indexSet_def s0_def act_def)
  from that [OF this] show ?thesis
    using assms(2) h dictionary.get_put [OF ymap.axioms(1), OF assms(1)]
    by (simp add: remoteHash_def onLocal_def s0_def act_def canApply_def)
qed

lemma uploadBytes_quiet:
  assumes E: "ymap (index E)" "acceptsBlobs E p"
    and s: "quiet E p g s" "jget (disk s) p = Some (bs, t)" "remoteHash E p s = expected"
  obtains s' where "uploadBytes E p bs meta expected g s = (Some (), s')" "agree E p s'" "canApply g s'"
proof -
  define final where "final = (case meta of Some m \<Rightarrow> if sha256Hex E bs = vHash m then m else localMeta (sha256Hex E bs) (length bs) (clock s)
                   | None \<Rightarrow> localMeta (sha256Hex E bs) (length bs) (clock s))"
  have h: "vHash final = sha256Hex E bs" by (simp add: final_def localMeta_def split: option.split)
  define confirmed where "confirmed = guardApply E p g () (andThen (localInfo E p) (publish E p final expected g))"
  have con: "\<exists>s'. confirmed s1 = (Some (), s') \<and> agree E p s' \<and> canApply g s'"
    if s1: "quiet E p g s1" "disk s1 = disk s" "remoteHash E p s1 = expected" for s1
  proof -
    obtain c where c: "localInfo E p s1 = (Some (Some (Some (localMeta (sha256Hex E bs) (length bs) t))), s1\<lparr>hashCache := c\<rparr>)"
      and q: "quiet E p g (s1\<lparr>hashCache := c\<rparr>)"
      using localInfo_quiet [OF s1(1)] s1(2) s(2) by auto
    obtain s' where "publish E p final expected g (Some (Some (localMeta (sha256Hex E bs) (length bs) t))) (s1\<lparr>hashCache := c\<rparr>) = (Some (), s')"
      "remoteHash E p s' = Some (vHash final)" "jget (lastSyncedHash s') p = Some (vHash final)" "disk s' = disk s" "canApply g s'"
      using publish_quiet [OF E(1) quiet_canApply [OF q], of p expected "localMeta (sha256Hex E bs) (length bs) t" final] s1(2,3) h
      by (auto simp: localMeta_def)
    then show ?thesis using c quiet_canApply [OF s1(1)] s(2) h
      by (auto simp: confirmed_def guardApply_def andThen_def agree_def localHashOf_def)
  qed
  obtain x b1 where x: "blobExists E p (vHash final) (server s) = (Some x, b1)"
    using E(2) unfolding acceptsBlobs_def by (metis option.exhaust prod.collapse)
  obtain b2 where put: "putBlob E p (vHash final) bs b1 = (True, b2)"
    using E(2) unfolding acceptsBlobs_def by (metis prod.collapse)
  let ?s2 = "if x then act (Stored (vHash final)) (s\<lparr>server := b1\<rparr>) else act (Stored (vHash final)) (s\<lparr>server := b2\<rparr>)"
  have "uploadBytes E p bs meta expected g s = confirmed ?s2"
    using quiet_canApply [OF s(1)] quiet_script [OF s(1)] x put
    by (simp add: uploadBytes_def andThen_def give_def guardApply_def final_def [symmetric] confirmed_def [symmetric] askBlob_def storeBlob_def
        act_def canApply_def)
  moreover have "quiet E p g ?s2" "disk ?s2 = disk s" "remoteHash E p ?s2 = expected" using s by (simp_all add: act_def)
  ultimately show ?thesis using con [of ?s2] that by metis
qed

lemma ensureFolders_quiet:
  "script s = [] \<Longrightarrow> \<exists>d. ensureFolders E cur parts s = (Some (), s\<lparr>dirs := d\<rparr>)"
proof (induction parts arbitrary: cur s)
  case Nil
  then show ?case by (auto simp: give_def intro: exI [of _ "dirs s"])
next
  case (Cons part parts)
  define cur' where "cur' = (if cur \<noteq> [] then cur @ lit ''/'' @ part else part)"
  have "script (s\<lparr>dirs := d\<rparr>) = []" for d using Cons.prems by simp
  from Cons.IH [OF this] Cons.IH [OF Cons.prems] show ?case using Cons.prems
    by (auto simp: cur'_def [symmetric] Let_def andThen_def adapterExists_def adapterMkdir_def)
qed

lemma writeDownload_quiet:
  assumes "quiet E p g s" "remoteHash E p s = Some (vHash meta)" "sha256Hex E bs = vHash meta"
  obtains s' where "writeDownload E p meta bs g s = (Some True, s')" "agree E p s'" "canApply g s'"
proof -
  have "script (startWriting p s) = []" using quiet_script [OF assms(1)] by (simp add: startWriting_def)
  then obtain d where d: "ensureParentFolders E p (startWriting p s) = (Some (), (startWriting p s)\<lparr>dirs := d\<rparr>)"
    using ensureFolders_quiet unfolding ensureParentFolders_def by blast
  define s1 where "s1 = act (Overwrites p bs (paused s \<or> destroyed s)) ((startWriting p s)\<lparr>dirs := d\<rparr>)"
  define s2 where "s2 = s1\<lparr>disk := jset (disk s1) p (bs, clock s1)\<rparr>"
  define s3 where "s3 = (onLocal (markSynced (dict E) p KConfig (vHash meta) (vHash meta) True)
      (s2\<lparr>hashCache := jdel (hashCache s2) p, lastSyncedHash := jset (lastSyncedHash s2) p (vHash meta)\<rparr>))
      \<lparr>pendingDownloads := jdel (pendingDownloads s2) p\<rparr>"
  have script: "script s1 = []" "canApply g ((startWriting p s)\<lparr>dirs := d\<rparr>)"
    using assms(1) by (simp_all add: s1_def act_def startWriting_def quiet_def canApply_def)
  have "writeDownload E p meta bs g s = (Some True, noteDownloaded E p s3)"
    using d script by (simp add: writeDownload_def andThen_def writeBinary_def s3_def s2_def s1_def startWriting_def act_def)
  moreover obtain b where "noteDownloaded E p s3 = s3\<lparr>reloadNoticeTimer := b\<rparr>" using note_fields by blast
  ultimately show ?thesis using that [of "s3\<lparr>reloadNoticeTimer := b\<rparr>"] assms
    by (auto simp add: agree_def localHashOf_def remoteHash_def s3_def s2_def s1_def act_def startWriting_def onLocal_def quiet_def canApply_def)
qed

lemma localInfo_hash:
  assumes "quiet E p g s"
  obtains c cur where "localInfo E p s = (Some (Some cur), s\<lparr>hashCache := c\<rparr>)" "quiet E p g (s\<lparr>hashCache := c\<rparr>)"
    "map_option vHash cur = localHashOf E p s"
proof (rule localInfo_quiet [OF assms])
  fix c
  let ?cur = "map_option (\<lambda>(bs, t). localMeta (sha256Hex E bs) (length bs) t) (jget (disk s) p)"
  assume "localInfo E p s = (Some (Some ?cur), s\<lparr>hashCache := c\<rparr>)" "quiet E p g (s\<lparr>hashCache := c\<rparr>)"
  moreover have "map_option vHash ?cur = localHashOf E p s"
    by (cases "jget (disk s) p") (auto simp: localHashOf_def localMeta_def)
  ultimately show thesis by (rule that)
qed

lemma materializeDownload_quiet:
  assumes "quiet E p g s" "remoteHash E p s = Some (vHash meta)" "sha256Hex E bs = vHash meta" "localHashOf E p s = expected"
  obtains s' where "materializeDownload E p meta bs expected g s = (Some True, s')" "agree E p s'" "canApply g s'"
proof -
  obtain c cur where c: "localInfo E p s = (Some (Some cur), s\<lparr>hashCache := c\<rparr>)" "quiet E p g (s\<lparr>hashCache := c\<rparr>)"
    "map_option vHash cur = localHashOf E p s" by (rule localInfo_hash [OF assms(1)])
  have "(case Some cur of Some (Some m) \<Rightarrow> Some (vHash m) | _ \<Rightarrow> None) = expected" using c(3) assms(4) by (cases cur) auto
  then have "materializeDownload E p meta bs expected g s = writeDownload E p meta bs g (s\<lparr>hashCache := c\<rparr>)"
    using c(1) quiet_canApply [OF assms(1)] quiet_canApply [OF c(2)] assms(2)
    by (simp add: materializeDownload_def guardApply_def andThen_def)
  then show ?thesis using writeDownload_quiet [OF c(2) _ assms(3)] assms(2) that by (metis view_same(11))
qed

lemma fetchBlob_quiet:
  assumes "servesBlob E p h" "script s = []"
  obtains bs b where "caught (awaiting (occur E) (fetchBlob E (Some p) h)) s = (Some (Some bs), s\<lparr>server := b\<rparr>)" "sha256Hex E bs = h"
proof -
  obtain bs where bs: "fst (getBlob E (Some p) h (server s)) = Some bs" "sha256Hex E bs = h"
    using assms(1) unfolding servesBlob_def by blast
  obtain b where "getBlob E (Some p) h (server s) = (Some bs, b)" using bs(1) by (metis prod.collapse)
  then show ?thesis using that [of bs b] bs(2) assms(2) by (simp add: caught_def fetchBlob_def)
qed

lemma localHashOf_same [simp]:
  "localHashOf E p (s\<lparr>server := b\<rparr>) = localHashOf E p s" "localHashOf E p (s\<lparr>trace := tr\<rparr>) = localHashOf E p s"
  "localHashOf E p (s\<lparr>hashCache := c\<rparr>) = localHashOf E p s" "localHashOf E p (s\<lparr>pendingDownloads := pd\<rparr>) = localHashOf E p s"
  "localHashOf E p (s\<lparr>localSync := l\<rparr>) = localHashOf E p s" "localHashOf E p (s\<lparr>writing := w\<rparr>) = localHashOf E p s"
  by (simp_all add: localHashOf_def)

lemma download_quiet:
  assumes "quiet E p g s" "remoteHash E p s = Some (vHash meta)" "servesBlob E p (vHash meta)" "localHashOf E p s = expected"
  obtains s' where "download E p meta expected g s = (Some True, s')" "agree E p s'" "canApply g s'"
proof -
  obtain bs b where b: "caught (awaiting (occur E) (fetchBlob E (Some p) (vHash meta))) s = (Some (Some bs), s\<lparr>server := b\<rparr>)"
    "sha256Hex E bs = vHash meta" by (rule fetchBlob_quiet [OF assms(3) quiet_script [OF assms(1)]])
  obtain s' where "materializeDownload E p meta bs expected g (s\<lparr>server := b\<rparr>) = (Some True, s')" "agree E p s'" "canApply g s'"
    using materializeDownload_quiet [of E p g "s\<lparr>server := b\<rparr>" meta bs expected] assms b(2) by auto
  then show ?thesis using that [of s'] b(1) by (simp add: download_def andThen_def)
qed

lemma upload_quiet:
  assumes "ymap (index E)" "acceptsBlobs E p" "quiet E p g s" "localHashOf E p s \<noteq> None" "remoteHash E p s = expected"
  obtains s' where "upload E p meta expected g s = (Some (), s')" "agree E p s'" "canApply g s'"
proof -
  obtain bs t where d: "jget (disk s) p = Some (bs, t)" using assms(4) by (auto simp: localHashOf_def)
  obtain s' where "uploadBytes E p bs (Some meta) expected g s = (Some (), s')" "agree E p s'" "canApply g s'"
    by (rule uploadBytes_quiet [OF assms(1,2,3) d assms(5)])
  then show ?thesis using that [of s'] d quiet_script [OF assms(3)] quiet_canApply [OF assms(3)]
    by (simp add: upload_def andThen_def readBinary_def guardApply_def)
qed

lemma deleteLocal_quiet:
  assumes "quiet E p g s" "remoteHash E p s = None"
  obtains s' where "deleteLocal E p g s = (Some (), s')" "agree E p s'" "canApply g s'"
proof -
  define s1 where "s1 = (if jhas (disk s) p
    then (let a = act (Removes p (paused s \<or> destroyed s)) (startWriting p s) in a\<lparr>disk := jdel (disk a) p, hashCache := jdel (hashCache a) p\<rparr>)
    else startWriting p s)"
  define s2 where "s2 = onLocal (removePath (dict E) p) (s1\<lparr>lastSyncedHash := jdel (lastSyncedHash s1) p\<rparr>)"
  have "deleteLocal E p g s = (Some (), noteDownloaded E p s2)"
    using assms(1) unfolding s2_def s1_def
    by (simp add: deleteLocal_def andThen_def adapterExists_def adapterRemove_def startWriting_def act_def quiet_def canApply_def Let_def)
  moreover obtain b where "noteDownloaded E p s2 = s2\<lparr>reloadNoticeTimer := b\<rparr>" using note_fields by blast
  moreover have "disk s2 = jdel (disk s) p \<or> \<not> jhas (disk s) p \<and> disk s2 = disk s"
    by (auto simp: s2_def s1_def startWriting_def act_def onLocal_def Let_def)
  then have "jget (disk s2) p = None" by (cases "jget (disk s) p") auto
  ultimately show ?thesis using that [of "s2\<lparr>reloadNoticeTimer := b\<rparr>"] assms
    by (auto simp: agree_def localHashOf_def remoteHash_def s2_def s1_def act_def startWriting_def onLocal_def quiet_def canApply_def Let_def)
qed

lemma preserve_quiet:
  assumes "quiet E p g s" "jhas (disk s) p"
  obtains d where "preserve E p content src s = (Some d, act (Preserved p content) (s\<lparr>disk := jset (disk s) d (content, clock s)\<rparr>))" "d \<noteq> p"
proof -
  define d where "d = freeCopy (recovery E) p src (utc E (clock s)) (jkeys (disk s) @ dirs s) 1"
  have "d \<notin> set (jkeys (disk s) @ dirs s)" unfolding d_def by (rule freeCopy_free)
  then have "d \<noteq> p" using assms(2) by (auto simp: jhas_iff simp del: not_None_eq)
  then show ?thesis using that [of d] quiet_script [OF assms(1)]
    by (simp add: preserve_def andThen_def writeBinary_def d_def)
qed

lemma quiet_otherFile: "d \<noteq> p \<Longrightarrow> quiet E p g (s\<lparr>disk := jset (disk s) d f\<rparr>) = quiet E p g s"
  "d \<noteq> p \<Longrightarrow> localHashOf E p (s\<lparr>disk := jset (disk s) d f\<rparr>) = localHashOf E p s"
  by (simp_all add: quiet_def cacheOk_def canApply_def localHashOf_def)

lemma ifUnchanged_quiet:
  assumes "quiet E p g s" "localHashOf E p s = Some h" "remoteHash E p s = x"
  obtains c where "ifUnchanged E p h x stop k s = k (s\<lparr>hashCache := c\<rparr>)" "quiet E p g (s\<lparr>hashCache := c\<rparr>)"
proof -
  obtain c cur where c: "localInfo E p s = (Some (Some cur), s\<lparr>hashCache := c\<rparr>)" "quiet E p g (s\<lparr>hashCache := c\<rparr>)"
    "map_option vHash cur = localHashOf E p s" by (rule localInfo_hash [OF assms(1)])
  have "\<exists>m. cur = Some m \<and> vHash m = h" using c(3) assms(2) by auto
  moreover have "\<not> destroyed s" using quiet_canApply [OF assms(1)] by (simp add: canApply_def)
  ultimately have "configStateMatches E p h x s = (Some True, s\<lparr>hashCache := c\<rparr>)"
    using c(1) assms(3) by (simp add: configStateMatches_def andThen_def)
  then show ?thesis using that [of c] c(2) by (simp add: ifUnchanged_def andThen_def)
qed

text \<open>Keep a version in a copy, see that nothing changed, then go on.\<close>

lemma preserved_quiet:
  assumes "quiet E p g s" "localHashOf E p s = Some h" "remoteHash E p s = x"
  obtains s1 where "andThen (preserve E p content src) (\<lambda>_. ifUnchanged E p h x stop k) s = k s1" "quiet E p g s1"
    "localHashOf E p s1 = Some h" "remoteHash E p s1 = x" "jget (disk s1) p = jget (disk s) p"
proof -
  have "jhas (disk s) p" using assms(2) by (auto simp: localHashOf_def)
  then obtain d where d: "preserve E p content src s = (Some d, act (Preserved p content) (s\<lparr>disk := jset (disk s) d (content, clock s)\<rparr>))" "d \<noteq> p"
    by (rule preserve_quiet [OF assms(1)])
  define s0 where "s0 = act (Preserved p content) (s\<lparr>disk := jset (disk s) d (content, clock s)\<rparr>)"
  have q: "quiet E p g s0" "localHashOf E p s0 = Some h" "remoteHash E p s0 = x" "jget (disk s0) p = jget (disk s) p"
    using assms d(2) by (simp_all add: s0_def act_def quiet_otherFile)
  obtain c where "ifUnchanged E p h x stop k s0 = k (s0\<lparr>hashCache := c\<rparr>)" "quiet E p g (s0\<lparr>hashCache := c\<rparr>)"
    by (rule ifUnchanged_quiet [OF q(1,2,3)])
  then show ?thesis using that [of "s0\<lparr>hashCache := c\<rparr>"] q d(1) by (simp add: andThen_def s0_def [symmetric])
qed

lemma writeMergedAndUpload_quiet:
  assumes "ymap (index E)" "acceptsBlobs E p" "quiet E p g s" "remoteHash E p s = Some h"
  obtains s' where "writeMergedAndUpload E p text h g s = (Some (), s')" "agree E p s'" "canApply g s'"
proof -
  let ?bs = "encode E text"
  define s1 where "s1 = (act (Overwrites p ?bs (paused s \<or> destroyed s)) (startWriting p s))
    \<lparr>disk := jset (disk s) p (?bs, clock s), hashCache := jdel (hashCache s) p\<rparr>"
  have q: "quiet E p g s1" using assms(3) by (simp add: s1_def quiet_def canApply_def cacheOk_def act_def startWriting_def)
  have d: "jget (disk s1) p = Some (?bs, clock s)" "remoteHash E p s1 = Some h"
    using assms(4) by (simp_all add: s1_def act_def startWriting_def)
  obtain s' where "uploadBytes E p ?bs None (Some h) g s1 = (Some (), s')" "agree E p s'" "canApply g s'"
    by (rule uploadBytes_quiet [OF assms(1,2) q d])
  moreover have "writeMergedAndUpload E p text h g s = uploadBytes E p ?bs None (Some h) g s1"
    using assms(3) quiet_canApply [OF q] by (simp add: writeMergedAndUpload_def andThen_def writeBinary_def s1_def act_def startWriting_def
        quiet_def canApply_def Let_def)
  ultimately show ?thesis using that by metis
qed

lemma mergeWithoutBase_quiet:
  assumes E: "ymap (index E)" "acceptsBlobs E p" "servesBlob E p (vHash r)"
    and s: "quiet E p g s" "localHashOf E p s = Some (vHash l)" "remoteHash E p s = Some (vHash r)" "jget (disk s) p = Some (lb, t)"
  obtains s' where "mergeWithoutBase E p l r g rb lb s = (Some (), s')" "agree E p s'" "canApply g s'"
proof (cases "mergeJsonSettings E (decode E rb) (decode E lb)")
  case (Some merged)
  obtain s1 where s1: "andThen (preserve E p rb RemoteSide) (\<lambda>_. ifUnchanged E p (vHash l) (Some (vHash r)) ()
      (writeMergedAndUpload E p merged (vHash r) g)) s = writeMergedAndUpload E p merged (vHash r) g s1" "quiet E p g s1" "remoteHash E p s1 = Some (vHash r)"
    by (rule preserved_quiet [OF s(1,2,3)])
  obtain s' where "writeMergedAndUpload E p merged (vHash r) g s1 = (Some (), s')" "agree E p s'" "canApply g s'"
    by (rule writeMergedAndUpload_quiet [OF E(1,2) s1(2,3)])
  then show ?thesis using that [of s'] s1(1) Some quiet_canApply [OF s(1)] by (simp add: mergeWithoutBase_def)
next
  case None
  show ?thesis
  proof (cases "cmMtime l \<ge> cmMtime r")
    case True
    obtain s1 where s1: "andThen (preserve E p rb RemoteSide) (\<lambda>_. ifUnchanged E p (vHash l) (Some (vHash r)) ()
        (uploadBytes E p lb (Some l) (Some (vHash r)) g)) s = uploadBytes E p lb (Some l) (Some (vHash r)) g s1" "quiet E p g s1"
        "remoteHash E p s1 = Some (vHash r)" "jget (disk s1) p = Some (lb, t)"
      by (rule preserved_quiet [OF s(1,2,3)]) (use s(4) in simp)
    obtain s' where "uploadBytes E p lb (Some l) (Some (vHash r)) g s1 = (Some (), s')" "agree E p s'" "canApply g s'"
      by (rule uploadBytes_quiet [OF E(1,2) s1(2,4,3)])
    then show ?thesis using that [of s'] s1(1) None True quiet_canApply [OF s(1)] by (simp add: mergeWithoutBase_def)
  next
    case False
    obtain s1 where s1: "andThen (preserve E p lb LocalSide) (\<lambda>_. ifUnchanged E p (vHash l) (Some (vHash r)) ()
        (andThen (download E p r (Some (vHash l)) g) (\<lambda>_. give ()))) s = andThen (download E p r (Some (vHash l)) g) (\<lambda>_. give ()) s1" "quiet E p g s1"
        "localHashOf E p s1 = Some (vHash l)" "remoteHash E p s1 = Some (vHash r)"
      by (rule preserved_quiet [OF s(1,2,3)])
    obtain s' where "download E p r (Some (vHash l)) g s1 = (Some True, s')" "agree E p s'" "canApply g s'"
      by (rule download_quiet [OF s1(2,4) E(3) s1(3)])
    then show ?thesis using that [of s'] s1(1) None False quiet_canApply [OF s(1)] by (simp add: mergeWithoutBase_def andThen_def give_def)
  qed
qed

lemma mergeConflict_quiet:
  assumes E: "ymap (index E)" "acceptsBlobs E p" "servesBlob E p (vHash r)"
    and s: "quiet E p g s" "localHashOf E p s = Some (vHash l)" "remoteHash E p s = Some (vHash r)"
  obtains s' where "mergeConflict E p l r g ancestor s = (Some (), s')" "agree E p s'" "canApply g s'"
proof -
  obtain rb b where rb: "caught (awaiting (occur E) (fetchBlob E (Some p) (vHash r))) s = (Some (Some rb), s\<lparr>server := b\<rparr>)"
    by (rule fetchBlob_quiet [OF E(3) quiet_script [OF s(1)]])
  obtain lb t where lb: "jget (disk s) p = Some (lb, t)" using s(2) by (auto simp: localHashOf_def)
  define k where "k = (\<lambda>s. case truthy (case ancestor of None \<Rightarrow> jget (lastSyncedHash s) p | Some h \<Rightarrow> h) of
      None \<Rightarrow> mergeWithoutBase E p l r g rb lb s
    | Some baseHash \<Rightarrow> andThen (caught (awaiting (occur E) (fetchBlob E None baseHash))) (\<lambda>baseBytes. guardApply E p g ()
        (case Option.bind baseBytes (\<lambda>b. mergeJsonSettingsThreeWay E (decode E b) (decode E rb) (decode E lb)) of
           Some (text, False) \<Rightarrow> ifUnchanged E p (vHash l) (Some (vHash r)) () (writeMergedAndUpload E p text (vHash r) g)
         | _ \<Rightarrow> mergeWithoutBase E p l r g rb lb)) s)"
  obtain c where c: "ifUnchanged E p (vHash l) (Some (vHash r)) () k (s\<lparr>server := b\<rparr>) = k (s\<lparr>server := b, hashCache := c\<rparr>)"
      "quiet E p g (s\<lparr>server := b, hashCache := c\<rparr>)"
    using ifUnchanged_quiet [of E p g "s\<lparr>server := b\<rparr>" "vHash l" "Some (vHash r)" "()" k] s by auto
  define s1 where "s1 = s\<lparr>server := b, hashCache := c\<rparr>"
  have s1: "quiet E p g s1" "localHashOf E p s1 = Some (vHash l)" "remoteHash E p s1 = Some (vHash r)" "jget (disk s1) p = Some (lb, t)"
    using c(2) s lb by (simp_all add: s1_def)
  have "mergeConflict E p l r g ancestor s = ifUnchanged E p (vHash l) (Some (vHash r)) () k (s\<lparr>server := b\<rparr>)"
    unfolding k_def using rb lb quiet_script [OF s(1)] quiet_canApply [OF s(1)]
    by (simp add: mergeConflict_def andThen_def [of "caught (awaiting (occur E) (fetchBlob E (Some p) (vHash r)))"]
        andThen_def [of "awaiting (occur E) (readBinary p)"] readBinary_def guardApply_def canApply_def)
  then have start: "mergeConflict E p l r g ancestor s = k s1" using c(1) by (simp only: s1_def)
  have without: "\<exists>s'. mergeWithoutBase E p l r g rb lb s2 = (Some (), s') \<and> agree E p s' \<and> canApply g s'"
    if "quiet E p g s2" "localHashOf E p s2 = Some (vHash l)" "remoteHash E p s2 = Some (vHash r)" "jget (disk s2) p = Some (lb, t)" for s2
    using mergeWithoutBase_quiet [OF E that] by metis
  have "\<exists>s'. k s1 = (Some (), s') \<and> agree E p s' \<and> canApply g s'"
  proof (cases "truthy (case ancestor of None \<Rightarrow> jget (lastSyncedHash s1) p | Some h \<Rightarrow> h)")
    case None
    then show ?thesis using without [OF s1] by (simp add: k_def)
  next
    case (Some base)
    obtain bb b2 where bb: "caught (awaiting (occur E) (fetchBlob E None base)) s1 = (Some bb, s1\<lparr>server := b2\<rparr>)"
      using quiet_script [OF s1(1)] by (cases "getBlob E None base (server s1)") (auto simp: caught_def fetchBlob_def)
    let ?s2 = "s1\<lparr>server := b2\<rparr>"
    have s2: "quiet E p g ?s2" "localHashOf E p ?s2 = Some (vHash l)" "remoteHash E p ?s2 = Some (vHash r)" "jget (disk ?s2) p = Some (lb, t)"
      using s1 by simp_all
    have merged: "\<exists>s'. ifUnchanged E p (vHash l) (Some (vHash r)) () (writeMergedAndUpload E p m (vHash r) g) ?s2 = (Some (), s')
        \<and> agree E p s' \<and> canApply g s'" for m
      using ifUnchanged_quiet [OF s2(1,2,3), of "()" "writeMergedAndUpload E p m (vHash r) g"]
        writeMergedAndUpload_quiet [OF E(1,2), of g _ "vHash r" m] s2(3) by (metis view_same(11))
    show ?thesis
      using bb Some quiet_canApply [OF s2(1)] without [OF s2] merged
      by (auto simp: k_def andThen_def guardApply_def split: option.split bool.split)
  qed
  then show ?thesis using start that by metis
qed

lemma adoptRemote_quiet:
  assumes "servesBlob E p (vHash r)" "quiet E p g s" "localHashOf E p s = Some (vHash l)" "remoteHash E p s = Some (vHash r)"
  obtains s' where "adoptRemote E p g l r s = (Some True, s')" "agree E p s'" "canApply g s'"
proof -
  obtain rb b where rb: "caught (awaiting (occur E) (fetchBlob E (Some p) (vHash r))) s = (Some (Some rb), s\<lparr>server := b\<rparr>)" "sha256Hex E rb = vHash r"
    by (rule fetchBlob_quiet [OF assms(1) quiet_script [OF assms(2)]])
  obtain lb t where lb: "jget (disk s) p = Some (lb, t)" using assms(3) by (auto simp: localHashOf_def)
  define k where "k = andThen (materializeDownload E p r rb (Some (vHash l)) g) (\<lambda>written s. (Some (written \<and> canApply g s), s))"
  have q: "quiet E p g (s\<lparr>server := b\<rparr>)" "localHashOf E p (s\<lparr>server := b\<rparr>) = Some (vHash l)" "remoteHash E p (s\<lparr>server := b\<rparr>) = Some (vHash r)"
    using assms by simp_all
  obtain s1 where s1: "andThen (preserve E p lb LocalSide) (\<lambda>_. ifUnchanged E p (vHash l) (Some (vHash r)) False k) (s\<lparr>server := b\<rparr>) = k s1"
      "quiet E p g s1" "localHashOf E p s1 = Some (vHash l)" "remoteHash E p s1 = Some (vHash r)"
    by (rule preserved_quiet [OF q])
  obtain s' where s': "materializeDownload E p r rb (Some (vHash l)) g s1 = (Some True, s')" "agree E p s'" "canApply g s'"
    by (rule materializeDownload_quiet [OF s1(2,4) rb(2) s1(3)])
  have "adoptRemote E p g l r s = k s1"
    using rb(1) lb s1(1) quiet_script [OF assms(2)] quiet_canApply [OF q(1)]
    by (simp add: adoptRemote_def andThen_def [of "awaiting (occur E) (readBinary p)"] andThen_def [of "caught (awaiting (occur E) (fetchBlob E (Some p) (vHash r)))"]
        readBinary_def k_def)
  then show ?thesis using that [of s'] s' by (simp add: k_def andThen_def)
qed

lemma adoptDelete_quiet:
  assumes "quiet E p g s" "localHashOf E p s = Some (vHash l)" "remoteHash E p s = None"
  obtains s' where "adoptDelete E p g l s = (Some True, s')" "agree E p s'"
proof -
  obtain lb t where lb: "jget (disk s) p = Some (lb, t)" using assms(2) by (auto simp: localHashOf_def)
  define k where "k = andThen (deleteLocal E p g) (\<lambda>_ s. (Some (canApply g s), s))"
  obtain s1 where s1: "andThen (preserve E p lb LocalSide) (\<lambda>_. ifUnchanged E p (vHash l) None False k) s = k s1"
      "quiet E p g s1" "remoteHash E p s1 = None"
    by (rule preserved_quiet [OF assms])
  obtain s' where s': "deleteLocal E p g s1 = (Some (), s')" "agree E p s'" "canApply g s'"
    by (rule deleteLocal_quiet [OF s1(2,3)])
  have "adoptDelete E p g l s = k s1"
    using lb s1(1) quiet_script [OF assms(1)] quiet_canApply [OF assms(1)]
    by (simp add: adoptDelete_def andThen_def [of "awaiting (occur E) (readBinary p)"] readBinary_def k_def)
  then show ?thesis using that [of s'] s' by (simp add: k_def andThen_def)
qed

lemma publishDelete_quiet:
  assumes "ymap (index E)" "quiet E p g s" "localHashOf E p s = None"
  obtains s' where "publishDelete E p g s = (Some (), s')" "agree E p s'" "canApply g s'"
proof -
  obtain tr where tr: "(case dGet (index E) (configFiles s) p of None \<Rightarrow> id
      | Some m \<Rightarrow> act (Unpublished p m (jget (lastSyncedHash s) p) (pulling s) (paused s \<or> destroyed s))) s = s\<lparr>trace := tr\<rparr>"
    by (cases "dGet (index E) (configFiles s) p") (auto simp: act_def intro: that [of "trace s"])
  obtain q where "onConfigFilesChanged E p (s\<lparr>trace := tr, configFiles := dRemove (index E) (configFiles s) p\<rparr>)
      = s\<lparr>trace := tr, configFiles := dRemove (index E) (configFiles s) p, requests := q\<rparr>"
    using changed_fields [of E p "s\<lparr>trace := tr, configFiles := dRemove (index E) (configFiles s) p\<rparr>"] by auto
  then have "publishDelete E p g s = (Some (), onLocal (removePath (dict E) p)
      (s\<lparr>trace := tr, configFiles := dRemove (index E) (configFiles s) p, requests := q, lastSyncedHash := jdel (lastSyncedHash s) p\<rparr>))"
    using quiet_canApply [OF assms(2)] by (simp add: publishDelete_def guardApply_def Let_def tr indexDelete_def)
  from that [OF this] show ?thesis
    using assms(3) quiet_canApply [OF assms(2)] dictionary.get_remove [OF ymap.axioms(1), OF assms(1)]
    by (simp add: agree_def localHashOf_def remoteHash_def onLocal_def canApply_def)
qed

lemma decide_shape:
  assumes "decideConfigReconcile local remote base opts = a"
  shows "a = CNone \<Longrightarrow> map_option vHash local = map_option vHash remote" "a = CUpload \<Longrightarrow> local \<noteq> None"
    "a = CDownload \<Longrightarrow> remote \<noteq> None" "a = CDeleteLocal \<Longrightarrow> remote = None" "a = CDeleteRemote \<Longrightarrow> local = None"
    "a = CMerge \<Longrightarrow> local \<noteq> None \<and> remote \<noteq> None"
  using assms by (auto simp: decideConfigReconcile_def Let_def split: option.splits if_splits)

lemma perform_quiet:
  assumes E: "ymap (index E)" "acceptsBlobs E p" "\<forall>r. remote = Some r \<longrightarrow> servesBlob E p (vHash r)"
    and s: "quiet E p g s" "localHashOf E p s = map_option vHash local" "remoteHash E p s = map_option vHash remote"
    and a: "decideConfigReconcile local remote base opts = a" "a \<noteq> CNone"
  obtains s' where "perform E p g local remote anc a s = (Some True, s')" "agree E p s'"
proof (cases a)
  case CUpload
  then obtain l where l: "local = Some l" using decide_shape(2) [OF a(1)] by auto
  obtain s' where "upload E p l (map_option vHash remote) g s = (Some (), s')" "agree E p s'" "canApply g s'"
    by (rule upload_quiet [OF E(1,2) s(1) _ s(3)]) (use s(2) l in simp)
  then show ?thesis using that [of s'] CUpload l by (simp add: perform_def andThen_def)
next
  case CDownload
  then obtain r where r: "remote = Some r" using decide_shape(3) [OF a(1)] by auto
  obtain s' where "download E p r (map_option vHash local) g s = (Some True, s')" "agree E p s'" "canApply g s'"
    by (rule download_quiet [OF s(1) _ _ s(2)]) (use s(3) E(3) r in simp_all)
  then show ?thesis using that [of s'] CDownload r by (simp add: perform_def andThen_def)
next
  case CDeleteLocal
  obtain s' where "deleteLocal E p g s = (Some (), s')" "agree E p s'" "canApply g s'"
    by (rule deleteLocal_quiet [OF s(1)]) (use s(3) decide_shape(4) [OF a(1)] CDeleteLocal in simp)
  then show ?thesis using that [of s'] CDeleteLocal by (simp add: perform_def andThen_def)
next
  case CDeleteRemote
  obtain s' where "publishDelete E p g s = (Some (), s')" "agree E p s'" "canApply g s'"
    by (rule publishDelete_quiet [OF E(1) s(1)]) (use s(2) decide_shape(5) [OF a(1)] CDeleteRemote in simp)
  then show ?thesis using that [of s'] CDeleteRemote by (simp add: perform_def andThen_def)
next
  case CMerge
  then obtain l r where lr: "local = Some l" "remote = Some r" using decide_shape(6) [OF a(1)] by auto
  obtain s' where "mergeConflict E p l r g anc s = (Some (), s')" "agree E p s'" "canApply g s'"
    by (rule mergeConflict_quiet [OF E(1,2) _ s(1)]) (use s(2,3) E(3) lr in simp_all)
  then show ?thesis using that [of s'] CMerge lr by (simp add: perform_def andThen_def)
qed (use a in simp)

lemma settled_quiet:
  assumes "localHashOf E p s = map_option vHash remote" "remoteHash E p s = map_option vHash remote" "remoteHash E p s \<noteq> Some []"
  shows "agree E p (settled E p remote s)"
  using assms by (cases remote) (auto simp: settled_def truthy_def agree_def onLocal_def remoteHash_def localHashOf_def Let_def)

lemma prepare_quiet:
  "quiet E p g (prepare E p l s) = quiet E p g s" "localHashOf E p (prepare E p l s) = localHashOf E p s"
  "remoteHash E p (prepare E p l s) = remoteHash E p s"
  by (simp_all add: prepare_def onLocal_def Let_def split: option.split)

lemma settle_quiet:
  assumes E: "ymap (index E)" "acceptsBlobs E p" "\<forall>h. remoteHash E p s0 = Some h \<longrightarrow> servesBlob E p h" "\<forall>bs. sha256Hex E bs \<noteq> []"
    and s0: "quiet E p g s0" "localHashOf E p s0 = map_option vHash local"
  shows "\<exists>s'. settle E p g local s0 = (Some True, s') \<and> agree E p s'"
proof -
  define s where "s = prepare E p local s0"
  define remote where "remote = dGet (index E) (configFiles s) p"
  have s: "quiet E p g s" "localHashOf E p s = map_option vHash local" "remoteHash E p s = map_option vHash remote"
    using s0 by (simp_all add: s_def prepare_quiet) (simp add: remote_def s_def remoteHash_def)
  have serves: "\<forall>r. remote = Some r \<longrightarrow> servesBlob E p (vHash r)" using E(3) s(3) by (simp add: s_def prepare_quiet)
  have nonempty: "localHashOf E p s \<noteq> Some []" using E(4) by (auto simp: localHashOf_def)
  define continue where "continue = (\<lambda>d anc. if d = CNone then (\<lambda>s. (Some True, settled E p remote s)) else perform E p g local remote anc d)"
  have fold: "(if d = CNone then (\<lambda>s. (Some True, settled E p remote s)) else perform E p g local remote a d) = continue d a" for d a
    by (simp add: continue_def)
  have cont: "\<exists>s'. continue (decideConfigReconcile local remote base opts) anc s = (Some True, s') \<and> agree E p s'" for base opts anc
  proof (cases "decideConfigReconcile local remote base opts = CNone")
    case True
    then show ?thesis using decide_shape(1) [OF True] settled_quiet [of E p s remote] s nonempty by (simp add: continue_def)
  next
    case False
    then show ?thesis using perform_quiet [OF E(1,2) serves s refl False, of anc] by (auto simp: continue_def)
  qed
  have adoptR: "\<exists>s'. adoptRemote E p g l r s = (Some True, s') \<and> agree E p s'" if "local = Some l" "remote = Some r" for l r
    using adoptRemote_quiet [of E p r g s l] serves s that by auto
  have adoptD: "\<exists>s'. adoptDelete E p g l s = (Some True, s') \<and> agree E p s'" if "local = Some l" "remote = None" for l
    using adoptDelete_quiet [of E p g s l] s that by auto
  show ?thesis
    unfolding settle_def Let_def s_def [symmetric] remote_def [symmetric] fold
    by (cases local; cases remote) (use cont adoptR adoptD in \<open>auto split: if_split\<close>)
qed

text \<open>
  C12: A reconciliation that nothing disturbs brings the device and the shared index together, whatever
  the two sides, the recorded baseline and the local record say, whether it uploads, downloads, deletes,
  merges or keeps a version aside: it reports success, afterwards the file on disk has exactly the hash
  of the shared entry (or there is neither), and this hash is the recorded baseline. The server takes uploads and serves
  the blob of the shared entry, the hash cache is coherent with the file, and the path is a file of an enabled category.
\<close>

theorem reconcile_converges:
  assumes "ymap (index E)" "acceptsBlobs E path" "\<forall>h. remoteHash E path s = Some h \<longrightarrow> servesBlob E path h" "\<forall>bs. sha256Hex E bs \<noteq> []"
    and "script s = []" "\<not> paused s" "\<not> destroyed s" "path \<notin> set (dirs s)" "cacheOk E path s"
    and "syncableCategory E path s \<noteq> None" "path \<notin> set (writing s)"
  shows "fst (reconcile E path s) \<and> agree E path (snd (reconcile E path s))"
proof -
  have q: "quiet E path (pauseGeneration s) s" using assms by (simp add: quiet_def canApply_def)
  obtain c cur where c: "localInfo E path s = (Some (Some cur), s\<lparr>hashCache := c\<rparr>)" "quiet E path (pauseGeneration s) (s\<lparr>hashCache := c\<rparr>)"
    "map_option vHash cur = localHashOf E path s" by (rule localInfo_hash [OF q])
  obtain s' where "settle E path (pauseGeneration s) cur (s\<lparr>hashCache := c\<rparr>) = (Some True, s')" "agree E path s'"
    using settle_quiet [OF assms(1,2) _ assms(4) c(2), of cur] assms(3) c(3) by auto
  then have "reconcileNow E path s = (Some True, s') \<and> agree E path s'"
    using c(1) assms(6,7) quiet_canApply [OF c(2)] by (simp add: reconcileNow_def andThen_def Let_def)
  then show ?thesis using assms(10,11) by (auto simp: reconcile_def)
qed

text \<open>A device without the file takes it from the profile.\<close>

definition demoEnv :: "((jstr, stored) jmap, (jstr, config_meta) jmap, unit) config_env" where
  "demoEnv = \<lparr>dict = alistDict, index = alistDict, sha256Hex = (\<lambda>bs. 1 # map ucast bs), decode = map ucast, encode = map ucast,
     parseJson = (\<lambda>_. None), stringify = (\<lambda>_. []), recovery = \<lparr>normalizePath = id, letterOrNumber = (\<lambda>_. False), clientName = []\<rparr>,
     utc = (\<lambda>_. \<lparr>year = 0, month = 0, day = 0, hours = 0, minutes = 0, seconds = 0, millis = 0\<rparr>), configDir = lit ''.o'',
     getBlob = (\<lambda>_ _ b. (Some [7], b)), blobExists = (\<lambda>_ _ b. (Some False, b)), putBlob = (\<lambda>_ _ _ b. (True, b))\<rparr>"

definition demoPath :: jstr where
  "demoPath = lit ''.o/app.json''"

definition demoState :: "((jstr, stored) jmap, (jstr, config_meta) jmap, unit) config_state" where
  "demoState = \<lparr>script = [], trace = [], disk = [], dirs = [], clock = 0, server = (),
     configFiles = [(demoPath, \<lparr>vHash = [1, 7], vPrev = Some JNull, vLineage = None, cmSize = 1, cmMtime = 5\<rparr>)],
     localSync = Some \<lparr>paths = [], indexEpoch = None\<rparr>, enabledCategories = [MainSettings], lastSyncedHash = [], hashCache = [],
     requests = [], writing = [], pendingDownloads = [], retryTimers = [], pollTimer = True, started = True, paused = False,
     pauseGeneration = 0, destroyed = False, pulling = True, initialPullComplete = False, reloadNoticeTimer = False\<rparr>"

lemma demo_syncable: "syncableCategory demoEnv demoPath demoState = Some MainSettings"
proof -
  have h: "hardExcludeDir demoEnv = lit ''.o/plugins/realtime''" by (simp add: hardExcludeDir_def demoEnv_def lit_def)
  have "splitOn 47 demoPath = [lit ''.o'', lit ''app.json'']" by (simp add: demoPath_def lit_def)
  then have "\<not> isHardExcluded demoEnv demoPath"
    by (simp add: isHardExcluded_def h) (simp add: demoPath_def lit_def startsWith_def)
  moreover have "\<not> isConflictCopy (recovery demoEnv) demoPath"
    by (simp add: isConflictCopy_def demoEnv_def demoPath_def lit_def matchesCopy_def COPY_MARK_def startsWith_def)
  moreover have "categoryForVaultPath demoPath (configDir demoEnv) = Some MainSettings"
    by (simp add: categoryForVaultPath_def categoryForConfigPath_def demoEnv_def demoPath_def lit_def startsWith_def)
  ultimately show ?thesis by (simp add: syncableCategory_def demoState_def)
qed

theorem reconcile_converges_witness:
  "remoteHash demoEnv demoPath demoState = Some [1, 7] \<and> disk demoState = []
   \<and> fst (reconcile demoEnv demoPath demoState) \<and> agree demoEnv demoPath (snd (reconcile demoEnv demoPath demoState))"
proof -
  have r: "remoteHash demoEnv demoPath demoState = Some [1, 7]"
    by (simp add: remoteHash_def demoEnv_def demoState_def alistDict_def)
  have d: "ymap (index demoEnv)" unfolding demoEnv_def config_env.simps
    by unfold_locales (simp_all add: alistDict_def clearjunk_entries)
  have a: "acceptsBlobs demoEnv demoPath" by (simp add: acceptsBlobs_def demoEnv_def)
  have v: "\<forall>h. remoteHash demoEnv demoPath demoState = Some h \<longrightarrow> servesBlob demoEnv demoPath h"
    by (simp add: r) (simp add: servesBlob_def demoEnv_def)
  have n: "\<forall>bs. sha256Hex demoEnv bs \<noteq> []" by (simp add: demoEnv_def)
  have "fst (reconcile demoEnv demoPath demoState) \<and> agree demoEnv demoPath (snd (reconcile demoEnv demoPath demoState))"
    by (rule reconcile_converges [OF d a v n]) (simp_all add: demo_syncable, simp_all add: demoState_def cacheOk_def)
  then show ?thesis using r by (simp add: demoState_def)
qed

end
