(* ===== verification/Transfer_Limiter.thy ===== *)
theory Transfer_Limiter
  imports Js_Prelude
begin

text \<open>
  The class \<open>TransferLimiter\<close> of \<open>src/src/BinarySync.ts\<close>, which bounds concurrent transfers and the
  bytes they hold, and the delay between retries.

  A call of \<open>run\<close> is a job with a size. It is new until it has looked at the limits for the first time;
  it then runs, or waits for a wake-up, after which it looks again. A finished job wakes every
  waiter; the woken jobs look one after the other, in any order with new ones and further ends.
\<close>

section \<open>Model\<close>

record limiter =
  active :: nat
  bytes :: int
  waiters :: "nat list"

record limiter_state = limiter +
  running :: "nat list"
  woken :: "nat list"

text \<open>The condition of the loop in \<open>run\<close>.\<close>

definition mustWait :: "nat \<Rightarrow> int \<Rightarrow> int \<Rightarrow> ('z limiter_scheme) \<Rightarrow> bool" where
  "mustWait maxJobs maxBytes cost l \<longleftrightarrow> active l > 0 \<and> (active l \<ge> maxJobs \<or> bytes l + cost > maxBytes)"

text \<open>A job looks at the limits: it waits, or starts its work.\<close>

definition look :: "nat \<Rightarrow> int \<Rightarrow> (nat \<Rightarrow> int) \<Rightarrow> nat \<Rightarrow> limiter_state \<Rightarrow> limiter_state" where
  "look maxJobs maxBytes cost j l =
    (if mustWait maxJobs maxBytes (cost j) l then l\<lparr>waiters := waiters l @ [j]\<rparr>
     else l\<lparr>active := active l + 1, bytes := bytes l + cost j, running := running l @ [j]\<rparr>)"

text \<open>The \<open>finally\<close> block of a job.\<close>

definition finish :: "(nat \<Rightarrow> int) \<Rightarrow> nat \<Rightarrow> limiter_state \<Rightarrow> limiter_state" where
  "finish cost j l = l\<lparr>active := active l - 1, bytes := bytes l - cost j, running := remove1 j (running l),
     woken := woken l @ waiters l, waiters := []\<rparr>"

definition DRAIN_RETRY_MS :: nat where "DRAIN_RETRY_MS = 2000"
definition MAX_RETRY_MS :: nat where "MAX_RETRY_MS = 60000"

definition retryDelay :: "nat \<Rightarrow> nat" where
  "retryDelay failures = min MAX_RETRY_MS (DRAIN_RETRY_MS * 2 ^ min (failures - 1) 5)"

section \<open>Interleavings\<close>

definition idle :: limiter_state where
  "idle = \<lparr>active = 0, bytes = 0, waiters = [], running = [], woken = []\<rparr>"

inductive limited :: "nat \<Rightarrow> int \<Rightarrow> (nat \<Rightarrow> int) \<Rightarrow> limiter_state \<Rightarrow> bool" for maxJobs maxBytes cost where
  start: "limited maxJobs maxBytes cost idle"
| arrive: "limited maxJobs maxBytes cost l \<Longrightarrow> j \<notin> set (running l) \<union> set (waiters l) \<union> set (woken l)
    \<Longrightarrow> limited maxJobs maxBytes cost (look maxJobs maxBytes cost j l)"
| again: "limited maxJobs maxBytes cost l \<Longrightarrow> j \<in> set (woken l)
    \<Longrightarrow> limited maxJobs maxBytes cost (look maxJobs maxBytes cost j (l\<lparr>woken := remove1 j (woken l)\<rparr>))"
| ends: "limited maxJobs maxBytes cost l \<Longrightarrow> j \<in> set (running l) \<Longrightarrow> limited maxJobs maxBytes cost (finish cost j l)"

definition limitOk :: "nat \<Rightarrow> int \<Rightarrow> (nat \<Rightarrow> int) \<Rightarrow> limiter_state \<Rightarrow> bool" where
  "limitOk maxJobs maxBytes cost l \<longleftrightarrow>
     active l = length (running l) \<and> bytes l = sum_list (map cost (running l))
     \<and> (active l \<le> 1 \<or> active l \<le> maxJobs \<and> bytes l \<le> maxBytes)
     \<and> (waiters l \<noteq> [] \<longrightarrow> running l \<noteq> [])
     \<and> distinct (running l @ waiters l @ woken l)"

lemma sum_list_remove1: "j \<in> set xs \<Longrightarrow> sum_list (map f (remove1 j xs)) = sum_list (map f xs) - (f j :: int)"
  by (induction xs) auto

lemma look_ok:
  assumes "limitOk maxJobs maxBytes cost l" "j \<notin> set (running l @ waiters l @ woken l)"
  shows "limitOk maxJobs maxBytes cost (look maxJobs maxBytes cost j l)"
  using assms by (auto simp: limitOk_def look_def mustWait_def)

lemma finish_ok:
  assumes "limitOk maxJobs maxBytes cost l" "j \<in> set (running l)" "\<forall>j. 0 \<le> cost j"
  shows "limitOk maxJobs maxBytes cost (finish cost j l)"
proof -
  have "0 \<le> cost j" using assms(3) by simp
  then show ?thesis
    using assms(1,2) by (auto simp: limitOk_def finish_def sum_list_remove1 length_remove1 dest: notin_set_remove1)
qed

lemma limited_ok:
  assumes "limited maxJobs maxBytes cost l" "\<forall>j. 0 \<le> cost j"
  shows "limitOk maxJobs maxBytes cost l"
  using assms(1)
proof induction
  case start
  then show ?case by (simp add: limitOk_def idle_def)
next
  case (arrive l j)
  then show ?case by (intro look_ok) auto
next
  case (again l j)
  have "limitOk maxJobs maxBytes cost (l\<lparr>woken := remove1 j (woken l)\<rparr>)"
    using again.IH by (auto simp: limitOk_def dest: notin_set_remove1)
  moreover have "j \<notin> set (running l @ waiters l @ remove1 j (woken l))"
    using again by (auto simp: limitOk_def)
  ultimately show ?case by (intro look_ok) simp_all
next
  case (ends l j)
  then show ?case using assms(2) by (intro finish_ok) simp_all
qed

lemma retryDelay_bounds: "DRAIN_RETRY_MS \<le> retryDelay n \<and> retryDelay n \<le> MAX_RETRY_MS \<and> retryDelay n \<le> retryDelay (Suc n)"
proof -
  define x y :: nat where "x = 2 ^ min (n - 1) 5" and "y = 2 ^ min (Suc n - 1) 5"
  have "x \<le> y" unfolding x_def y_def by (rule power_increasing) simp_all
  moreover have "1 \<le> x" by (simp add: x_def)
  ultimately show ?thesis
    unfolding retryDelay_def DRAIN_RETRY_MS_def MAX_RETRY_MS_def x_def [symmetric] y_def [symmetric] by (simp add: min_def)
qed

text \<open>
  C37: However jobs arrive, wait, are woken and end, the limiter keeps its promises: at most the
  allowed number of jobs run and they hold at most the allowed bytes, or a single job runs alone; the
  counters are exactly the running jobs and their sizes; no job is lost, none is counted twice, and none
  sleeps while nothing runs, so the end of the running jobs wakes it.
\<close>

theorem transfers_limited:
  assumes "limited maxJobs maxBytes cost l" "\<forall>j. 0 \<le> cost j"
  shows "(length (running l) \<le> 1 \<or> length (running l) \<le> maxJobs \<and> sum_list (map cost (running l)) \<le> maxBytes)
    \<and> active l = length (running l) \<and> bytes l = sum_list (map cost (running l))
    \<and> distinct (running l @ waiters l @ woken l) \<and> (waiters l \<noteq> [] \<longrightarrow> running l \<noteq> [])"
  using limited_ok [OF assms] by (auto simp: limitOk_def)

theorem transfers_limited_witness:
  "limited 1 10 (\<lambda>j. 4) (look 1 10 (\<lambda>j. 4) 1 (look 1 10 (\<lambda>j. 4) 0 idle))
   \<and> waiters (look 1 10 (\<lambda>j. 4) 1 (look 1 10 (\<lambda>j. 4) 0 idle)) = [1]
   \<and> length (running (look 1 10 (\<lambda>j. 4) 1 (look 1 10 (\<lambda>j. 4) 0 idle))) \<le> 1"
proof -
  let ?l = "look 1 10 (\<lambda>j. 4) 1 (look 1 10 (\<lambda>j. 4) 0 idle)"
  have one: "limited 1 10 (\<lambda>j. 4) (look 1 10 (\<lambda>j. 4) 0 idle)"
    by (rule limited.arrive [OF limited.start]) (simp add: idle_def)
  have r: "limited 1 10 (\<lambda>j. 4) ?l"
    by (rule limited.arrive [OF one]) (simp add: idle_def look_def mustWait_def)
  have "waiters ?l = [1]" by (simp add: idle_def look_def mustWait_def)
  then show ?thesis using transfers_limited [OF r] r by auto
qed

end
