(* ===== verification/Binary_Sync.thy ===== *)
theory Binary_Sync
  imports Async_Script Transfer_Limiter Version_Lineage Local_Sync_State Conflict_Recovery
begin

text \<open>
  Synchronisation of attachments: the class \<open>BinarySync\<close> of \<open>src/src/BinarySync.ts\<close>.

  The state is that of one device: the vault, the shared index \<open>binaries\<close> as this device sees
  it, the blob server and the private fields of the class. Operations run under a script of what
  happens at their \<open>await\<close>s (theory \<open>Async_Script\<close>): files edited, events of the vault, changes of the
  index by other devices, pausing, and what the other operations of the same class do meanwhile
  (the upload queue and conflict prompts change the baseline). The user's answers to the prompts
  of a conflict are a list; when it is used up the prompt stays open (no result).

  The two \<open>Y.Map\<close>s are given by their operations \<open>ydict\<close>; the blob server and SHA-256 are arguments. The
  limiters of theory \<open>Transfer_Limiter\<close> only delay an operation, so they are an \<open>await\<close> here. The hash of a
  file is hexadecimal and never empty, so that a local hash is truthy exactly when the file exists; an entry
  of the index may have an empty hash, which counts as no file.
\<close>

type_synonym bytes = "8 word list"

section \<open>State\<close>

record binary_meta = ventry +
  bmSize :: nat

record upload_job =
  jobPath :: jstr
  jobHash :: jstr
  jobSize :: nat
  attempts :: nat
  urgent :: bool
  expectedRemoteHash :: "jstr option"
  diskVersion :: nat
  deferredSince :: "int option"

datatype upload_status = SIdle | SUploading | SPending

datatype bin_event =
    FileEdited jstr bytes
  | FileDeleted jstr
  | ChangedEvent jstr
  | DeletedEvent jstr
  | RenamedEvent jstr jstr
  | RemoteSet jstr binary_meta
  | RemoteDelete jstr
  | BaselineMoved jstr "jstr option"
  | Pausing bool
  | Destroying
  | Opened jstr
  | Closed jstr
  | TextBusy bool
  | PendingRemoval "jstr list"
  | Ticking nat
  | WritingOver jstr
  | ReconcileTimer jstr
  | Prioritize "jstr list"
  | Unprioritize "jstr list"
  | HoldMoved jstr
  | ReleaseMoved jstr
  | StopTracking jstr
  | RetryNow

datatype bin_action =
    Agreed jstr jstr "jstr option"
  | Preserved jstr bytes
  | PutBlob jstr bytes
  | Stored jstr
  | Published jstr binary_meta "binary_meta option" bool
  | Trashed jstr jstr
  | Unpublished jstr binary_meta "jstr option" bool bool
  | Overwrites jstr bytes jstr "jstr option" bool
  | Removes jstr bool

record ('m, 'i, 'b) binary_state = "(bin_event, bin_action) async" +
  fs :: "bytes vault"
  openPaths :: "jstr list"
  textBusy :: bool
  pendingRemovals :: "jstr list"
  clock :: int
  server :: 'b
  binaries :: 'i
  trash :: "(jstr \<times> jstr \<times> nat) list"
  localSync :: "'m sync_state option"
  lastSyncedHash :: "(jstr, jstr) jmap"
  chains :: "jstr list"
  pendingReconcile :: "jstr list"
  deferredReconciles :: "jstr list"
  deferredInitialPulls :: "jstr list"
  pendingDownloads :: "jstr list"
  downloadFailures :: "(jstr, nat) jmap"
  reconcileTimers :: "jstr list"
  writing :: "jstr list"
  liveDeletes :: "jstr list"
  ignoredPaths :: "jstr list"
  pullingMissingRemote :: bool
  movingAway :: "jstr list"
  uploadQueue :: "upload_job list"
  urgentPaths :: "jstr list"
  diskVersions :: "(jstr, nat) jmap"
  draining :: bool
  activeUpload :: bool
  drainTimer :: "nat option"
  uploadStatus :: upload_status
  started :: bool
  paused :: bool
  destroyed :: bool

record ('m, 'i, 'b) binary_env =
  dict :: "'m paths_map"
  index :: "('i, binary_meta) ydict"
  sha256Hex :: "bytes \<Rightarrow> jstr"
  recovery :: conflict_env
  utc :: "int \<Rightarrow> date"
  shouldTrack :: "jstr \<Rightarrow> bool"
  getBlob :: "jstr \<Rightarrow> jstr \<Rightarrow> 'b \<Rightarrow> bytes option \<times> 'b"
  blobExists :: "jstr \<Rightarrow> jstr \<Rightarrow> nat \<Rightarrow> 'b \<Rightarrow> bool option \<times> 'b"
  putBlob :: "jstr \<Rightarrow> jstr \<Rightarrow> bytes \<Rightarrow> 'b \<Rightarrow> bool \<times> 'b"

type_synonym ('m, 'i, 'b, 'a) binary_op = "(('m, 'i, 'b) binary_state, 'a) async_op"

definition LARGE_FILE_BYTES :: nat where "LARGE_FILE_BYTES = 5 * 1024 * 1024"
definition MAX_UPLOAD_ATTEMPTS :: nat where "MAX_UPLOAD_ATTEMPTS = 5"
definition MAX_LARGE_UPLOAD_DEFERRAL_MS :: int where "MAX_LARGE_UPLOAD_DEFERRAL_MS = 60000"

text \<open>Adding to and deleting from a \<open>Set\<close>.\<close>

abbreviation setWith :: "'a \<Rightarrow> 'a list \<Rightarrow> 'a list" where
  "setWith x xs \<equiv> List.insert x xs"

abbreviation setWithout :: "'a \<Rightarrow> 'a list \<Rightarrow> 'a list" where
  "setWithout x xs \<equiv> filter (\<lambda>y. y \<noteq> x) xs"

definition fileAt :: "('m, 'i, 'b) binary_state \<Rightarrow> jstr \<Rightarrow> bytes option" where
  "fileAt s path = jget (files (fs s)) path"

definition remoteMeta :: "('m, 'i, 'b) binary_env \<Rightarrow> ('m, 'i, 'b) binary_state \<Rightarrow> jstr \<Rightarrow> binary_meta option" where
  "remoteMeta E s path = dGet (index E) (binaries s) path"

definition remoteHash :: "('m, 'i, 'b) binary_env \<Rightarrow> ('m, 'i, 'b) binary_state \<Rightarrow> jstr \<Rightarrow> jstr option" where
  "remoteHash E s path = map_option vHash (remoteMeta E s path)"

definition onLocal :: "('m sync_state \<Rightarrow> 'm sync_state) \<Rightarrow> ('m, 'i, 'b) binary_state \<Rightarrow> ('m, 'i, 'b) binary_state" where
  "onLocal f s = s\<lparr>localSync := map_option f (localSync s)\<rparr>"

section \<open>Requests, the upload queue and timers\<close>

text \<open>\<open>void this.reconcile(path)\<close>: start a chain, or ask the running one for another turn.\<close>

definition askReconcile :: "jstr \<Rightarrow> ('m, 'i, 'b) binary_state \<Rightarrow> ('m, 'i, 'b) binary_state" where
  "askReconcile path s =
    (if path \<in> set (chains s) then s\<lparr>pendingReconcile := setWith path (pendingReconcile s)\<rparr>
     else s\<lparr>chains := chains s @ [path]\<rparr>)"

definition reconcileLater :: "jstr \<Rightarrow> ('m, 'i, 'b) binary_state \<Rightarrow> ('m, 'i, 'b) binary_state" where
  "reconcileLater path s = s\<lparr>reconcileTimers := reconcileTimers s @ [path]\<rparr>"

definition deferReconcile :: "jstr \<Rightarrow> bool \<Rightarrow> ('m, 'i, 'b) binary_state \<Rightarrow> ('m, 'i, 'b) binary_state" where
  "deferReconcile path initial s =
    s\<lparr>deferredReconciles := setWith path (deferredReconciles s),
      deferredInitialPulls := (if initial then setWith path (deferredInitialPulls s) else deferredInitialPulls s)\<rparr>"

definition bumpDiskVersion :: "jstr \<Rightarrow> ('m, 'i, 'b) binary_state \<Rightarrow> ('m, 'i, 'b) binary_state" where
  "bumpDiskVersion path s =
    s\<lparr>diskVersions := jset (diskVersions s) path ((case jget (diskVersions s) path of Some n \<Rightarrow> n | None \<Rightarrow> 0) + 1)\<rparr>"

definition refreshUploadStatus :: "('m, 'i, 'b) binary_state \<Rightarrow> ('m, 'i, 'b) binary_state" where
  "refreshUploadStatus s =
    s\<lparr>uploadStatus := (if destroyed s then SIdle else if activeUpload s then SUploading
       else if uploadQueue s \<noteq> [] then SPending else SIdle)\<rparr>"

definition scheduleDrain :: "nat \<Rightarrow> ('m, 'i, 'b) binary_state \<Rightarrow> ('m, 'i, 'b) binary_state" where
  "scheduleDrain delay s = (if paused s \<or> drainTimer s \<noteq> None then s else s\<lparr>drainTimer := Some delay\<rparr>)"

definition enqueueUpload :: "upload_job \<Rightarrow> ('m, 'i, 'b) binary_state \<Rightarrow> ('m, 'i, 'b) binary_state" where
  "enqueueUpload job s =
    (let q = filter (\<lambda>j. jobPath j \<noteq> jobPath job) (uploadQueue s)
     in scheduleDrain 0 (refreshUploadStatus (s\<lparr>uploadQueue := (if urgent job then job # q else q @ [job])\<rparr>)))"

section \<open>Triggers\<close>

text \<open>The paths not yet urgent, marked one after the other.\<close>

fun newlyUrgent :: "('m, 'i, 'b) binary_env \<Rightarrow> jstr list \<Rightarrow> jstr list \<Rightarrow> jstr list" where
  "newlyUrgent E [] urgentNow = []"
| "newlyUrgent E (p # ps) urgentNow =
    (if \<not> shouldTrack E p then newlyUrgent E ps urgentNow
     else (if p \<in> set urgentNow then [] else [p]) @ newlyUrgent E ps (setWith p urgentNow))"

definition prioritizePaths :: "('m, 'i, 'b) binary_env \<Rightarrow> jstr list \<Rightarrow> ('m, 'i, 'b) binary_state \<Rightarrow> ('m, 'i, 'b) binary_state" where
  "prioritizePaths E ps s =
    (if destroyed s then s
     else let added = newlyUrgent E ps (urgentPaths s);
              marked = fold setWith added (urgentPaths s);
              q = map (\<lambda>j. if jobPath j \<in> set marked then j\<lparr>urgent := True\<rparr> else j) (uploadQueue s);
              s1 = s\<lparr>urgentPaths := marked, uploadQueue := filter urgent q @ filter (\<lambda>j. \<not> urgent j) q\<rparr>;
              ask = (\<lambda>p s. askReconcile p (if \<not> started s \<or> pullingMissingRemote s
                        then s\<lparr>deferredInitialPulls := setWith p (deferredInitialPulls s)\<rparr> else s))
          in scheduleDrain 0 (fold ask added s1))"

fun firstNotUrgent :: "jstr \<Rightarrow> upload_job list \<Rightarrow> upload_job list" where
  "firstNotUrgent p [] = []"
| "firstNotUrgent p (j # js) = (if jobPath j = p then j\<lparr>urgent := False\<rparr> # js else j # firstNotUrgent p js)"

definition unprioritizePaths :: "jstr list \<Rightarrow> ('m, 'i, 'b) binary_state \<Rightarrow> ('m, 'i, 'b) binary_state" where
  "unprioritizePaths ps s =
    fold (\<lambda>p s. s\<lparr>urgentPaths := setWithout p (urgentPaths s), uploadQueue := firstNotUrgent p (uploadQueue s)\<rparr>) ps s"

definition onBinariesChanged :: "('m, 'i, 'b) binary_env \<Rightarrow> jstr \<Rightarrow> ('m, 'i, 'b) binary_state \<Rightarrow> ('m, 'i, 'b) binary_state" where
  "onBinariesChanged E path s =
    (if destroyed s \<or> \<not> started s then s
     else if \<not> shouldTrack E path \<or> path \<in> set (ignoredPaths s) then s else askReconcile path s)"

definition indexSet :: "('m, 'i, 'b) binary_env \<Rightarrow> jstr \<Rightarrow> binary_meta \<Rightarrow> ('m, 'i, 'b) binary_state \<Rightarrow> ('m, 'i, 'b) binary_state" where
  "indexSet E path meta s = onBinariesChanged E path (s\<lparr>binaries := dPut (index E) (binaries s) path meta\<rparr>)"

definition indexDelete :: "('m, 'i, 'b) binary_env \<Rightarrow> jstr \<Rightarrow> ('m, 'i, 'b) binary_state \<Rightarrow> ('m, 'i, 'b) binary_state" where
  "indexDelete E path s = onBinariesChanged E path (s\<lparr>binaries := dRemove (index E) (binaries s) path\<rparr>)"

definition stopTrackingPath :: "('m, 'i, 'b) binary_env \<Rightarrow> jstr \<Rightarrow> ('m, 'i, 'b) binary_state \<Rightarrow> ('m, 'i, 'b) binary_state" where
  "stopTrackingPath E path s =
    indexDelete E path (s\<lparr>ignoredPaths := setWith path (ignoredPaths s), lastSyncedHash := jdel (lastSyncedHash s) path\<rparr>)"

definition holdMovedPath :: "jstr \<Rightarrow> ('m, 'i, 'b) binary_state \<Rightarrow> ('m, 'i, 'b) binary_state" where
  "holdMovedPath path s =
    (if destroyed s then s
     else s\<lparr>movingAway := setWith path (movingAway s), deferredInitialPulls := setWithout path (deferredInitialPulls s),
            liveDeletes := setWithout path (liveDeletes s)\<rparr>)"

definition releaseMovedPath :: "('m, 'i, 'b) binary_env \<Rightarrow> jstr \<Rightarrow> ('m, 'i, 'b) binary_state \<Rightarrow> ('m, 'i, 'b) binary_state" where
  "releaseMovedPath E path s =
    (if destroyed s \<or> path \<notin> set (movingAway s) then s
     else let s1 = s\<lparr>movingAway := setWithout path (movingAway s)\<rparr>
          in if fileAt s1 path \<noteq> None \<or> (remoteHash E s1 path \<noteq> None \<and> remoteHash E s1 path \<noteq> jget (lastSyncedHash s1) path)
             then askReconcile path s1
             else let s2 = indexDelete E path s1
                  in onLocal (removePath (dict E) path)
                       (s2\<lparr>lastSyncedHash := jdel (lastSyncedHash s2) path, pendingDownloads := setWithout path (pendingDownloads s2)\<rparr>))"

definition ignoresEvent :: "('m, 'i, 'b) binary_env \<Rightarrow> jstr \<Rightarrow> ('m, 'i, 'b) binary_state \<Rightarrow> bool" where
  "ignoresEvent E path s \<longleftrightarrow> \<not> shouldTrack E path \<or> path \<in> set (ignoredPaths s) \<or> path \<in> set (writing s)"

definition onLocalChanged :: "('m, 'i, 'b) binary_env \<Rightarrow> jstr \<Rightarrow> ('m, 'i, 'b) binary_state \<Rightarrow> ('m, 'i, 'b) binary_state" where
  "onLocalChanged E path s =
    (if ignoresEvent E path s then s
     else askReconcile path ((bumpDiskVersion path s)\<lparr>movingAway := setWithout path (movingAway s)\<rparr>))"

text \<open>What a delete and the old path of a rename have in common.\<close>

definition pathRemoved :: "jstr \<Rightarrow> ('m, 'i, 'b) binary_state \<Rightarrow> ('m, 'i, 'b) binary_state" where
  "pathRemoved path s =
    askReconcile path ((bumpDiskVersion path s)\<lparr>liveDeletes := setWith path (liveDeletes s),
      movingAway := setWithout path (movingAway s), deferredInitialPulls := setWithout path (deferredInitialPulls s)\<rparr>)"

definition onLocalDeleted :: "('m, 'i, 'b) binary_env \<Rightarrow> jstr \<Rightarrow> ('m, 'i, 'b) binary_state \<Rightarrow> ('m, 'i, 'b) binary_state" where
  "onLocalDeleted E path s = (if ignoresEvent E path s then s else pathRemoved path s)"

definition onLocalRenamed :: "('m, 'i, 'b) binary_env \<Rightarrow> jstr \<Rightarrow> jstr \<Rightarrow> ('m, 'i, 'b) binary_state \<Rightarrow> ('m, 'i, 'b) binary_state" where
  "onLocalRenamed E newPath oldPath s =
    (let track = (\<lambda>p. shouldTrack E p \<and> p \<notin> set (ignoredPaths s));
         s1 = (if track oldPath then pathRemoved oldPath s else s)
     in if track newPath then askReconcile newPath (bumpDiskVersion newPath s1) else s1)"

definition retryNow :: "('m, 'i, 'b) binary_state \<Rightarrow> ('m, 'i, 'b) binary_state" where
  "retryNow s =
    (if destroyed s \<or> paused s then s
     else let s1 = s\<lparr>drainTimer := None\<rparr>;
              s2 = (if uploadQueue s1 \<noteq> [] then scheduleDrain 0 s1 else s1)
          in fold askReconcile (jkeys (downloadFailures s2)) (s2\<lparr>downloadFailures := []\<rparr>))"

definition setPaused :: "bool \<Rightarrow> ('m, 'i, 'b) binary_state \<Rightarrow> ('m, 'i, 'b) binary_state" where
  "setPaused p s =
    (if destroyed s \<or> paused s = p then s
     else let s1 = s\<lparr>paused := p\<rparr>
          in if p then s1\<lparr>drainTimer := None\<rparr>
             else let s2 = (if uploadQueue s1 \<noteq> [] then scheduleDrain 0 s1 else s1)
                  in fold askReconcile (deferredReconciles s2) (s2\<lparr>deferredReconciles := []\<rparr>))"

definition destroy :: "('m, 'i, 'b) binary_state \<Rightarrow> ('m, 'i, 'b) binary_state" where
  "destroy s =
    (if destroyed s then s
     else refreshUploadStatus (s\<lparr>destroyed := True, drainTimer := None, uploadQueue := [], chains := [], pendingReconcile := [],
       deferredReconciles := [], deferredInitialPulls := [], pendingDownloads := [], movingAway := [], urgentPaths := []\<rparr>))"

fun occur :: "('m, 'i, 'b) binary_env \<Rightarrow> bin_event \<Rightarrow> ('m, 'i, 'b) binary_state \<Rightarrow> ('m, 'i, 'b) binary_state" where
  "occur E (FileEdited p bs) s = s\<lparr>fs := (fs s)\<lparr>files := jset (files (fs s)) p bs\<rparr>\<rparr>"
| "occur E (FileDeleted p) s = s\<lparr>fs := (fs s)\<lparr>files := jdel (files (fs s)) p\<rparr>\<rparr>"
| "occur E (ChangedEvent p) s = onLocalChanged E p s"
| "occur E (DeletedEvent p) s = onLocalDeleted E p s"
| "occur E (RenamedEvent p q) s = onLocalRenamed E p q s"
| "occur E (RemoteSet p m) s = indexSet E p m s"
| "occur E (RemoteDelete p) s = indexDelete E p s"
| "occur E (BaselineMoved p h) s =
    s\<lparr>lastSyncedHash := (case h of Some x \<Rightarrow> jset (lastSyncedHash s) p x | None \<Rightarrow> jdel (lastSyncedHash s) p)\<rparr>"
| "occur E (Pausing b) s = setPaused b s"
| "occur E Destroying s = destroy s"
| "occur E (Opened p) s = s\<lparr>openPaths := setWith p (openPaths s)\<rparr>"
| "occur E (Closed p) s = s\<lparr>openPaths := setWithout p (openPaths s)\<rparr>"
| "occur E (TextBusy b) s = s\<lparr>textBusy := b\<rparr>"
| "occur E (PendingRemoval ps) s = s\<lparr>pendingRemovals := ps\<rparr>"
| "occur E (Ticking n) s = s\<lparr>clock := clock s + int n\<rparr>"
| "occur E (WritingOver p) s = s\<lparr>writing := setWithout p (writing s)\<rparr>"
| "occur E (ReconcileTimer p) s =
    (if p \<in> set (reconcileTimers s) then askReconcile p (s\<lparr>reconcileTimers := remove1 p (reconcileTimers s)\<rparr>) else s)"
| "occur E (Prioritize ps) s = prioritizePaths E ps s"
| "occur E (Unprioritize ps) s = unprioritizePaths ps s"
| "occur E (HoldMoved p) s = holdMovedPath p s"
| "occur E (ReleaseMoved p) s = releaseMovedPath E p s"
| "occur E (StopTracking p) s = stopTrackingPath E p s"
| "occur E RetryNow s = retryNow s"

section \<open>Disk and server\<close>

definition vaultRead :: "jstr \<Rightarrow> ('m, 'i, 'b, bytes) binary_op" where
  "vaultRead path s = (fileAt s path, s)"

definition vaultModify :: "jstr \<Rightarrow> bytes \<Rightarrow> ('m, 'i, 'b, unit) binary_op" where
  "vaultModify path bs s =
    (if fileAt s path = None then (None, s) else (Some (), s\<lparr>fs := (fs s)\<lparr>files := jset (files (fs s)) path bs\<rparr>\<rparr>))"

definition vaultCreate :: "jstr \<Rightarrow> bytes \<Rightarrow> ('m, 'i, 'b, unit) binary_op" where
  "vaultCreate path bs s = (case createFile (fs s) path bs of Inl _ \<Rightarrow> (None, s) | Inr v \<Rightarrow> (Some (), s\<lparr>fs := v\<rparr>))"

definition vaultDelete :: "jstr \<Rightarrow> ('m, 'i, 'b, unit) binary_op" where
  "vaultDelete path s =
    (if fileAt s path = None then (None, s) else (Some (), s\<lparr>fs := (fs s)\<lparr>files := jdel (files (fs s)) path\<rparr>\<rparr>))"

definition parentFolder :: "jstr \<Rightarrow> ('m, 'i, 'b, unit) binary_op" where
  "parentFolder path s = (Some (), s\<lparr>fs := ensureParentFolder (fs s) path\<rparr>)"

definition fetchBlob :: "('m, 'i, 'b) binary_env \<Rightarrow> jstr \<Rightarrow> jstr \<Rightarrow> ('m, 'i, 'b, bytes) binary_op" where
  "fetchBlob E path h s = (case getBlob E path h (server s) of (r, b) \<Rightarrow> (r, s\<lparr>server := b\<rparr>))"

definition askBlob :: "('m, 'i, 'b) binary_env \<Rightarrow> jstr \<Rightarrow> jstr \<Rightarrow> nat \<Rightarrow> ('m, 'i, 'b, bool) binary_op" where
  "askBlob E path h sz s =
    (case blobExists E path h sz (server s) of
       (r, b) \<Rightarrow> (r, (if r = Some True then act (Stored h) else id) (s\<lparr>server := b\<rparr>)))"

definition storeBlob :: "('m, 'i, 'b) binary_env \<Rightarrow> jstr \<Rightarrow> jstr \<Rightarrow> bytes \<Rightarrow> ('m, 'i, 'b, unit) binary_op" where
  "storeBlob E path h bs s =
    (case putBlob E path h bs (server s) of
       (ok, b) \<Rightarrow> if ok then (Some (), act (Stored h) (act (PutBlob h bs) (s\<lparr>server := b\<rparr>))) else (None, s\<lparr>server := b\<rparr>))"

text \<open>The hash of the file: \<open>None\<close> is \<open>undefined\<close> (a read failed), \<open>Some None\<close> is \<open>null\<close> (no file).\<close>

definition hashDisk :: "('m, 'i, 'b) binary_env \<Rightarrow> jstr \<Rightarrow> ('m, 'i, 'b, jstr option option) binary_op" where
  "hashDisk E path s =
    (if fileAt s path = None then andThen (caught (awaiting (occur E) (give ()))) (\<lambda>_. give (Some None)) s
     else andThen (caught (andThen (awaiting (occur E) (vaultRead path)) (\<lambda>bs. awaiting (occur E) (give (sha256Hex E bs)))))
            (\<lambda>h. give (map_option Some h)) s)"

definition readDisk :: "('m, 'i, 'b) binary_env \<Rightarrow> jstr \<Rightarrow> ('m, 'i, 'b, bytes option) binary_op" where
  "readDisk E path s =
    (if fileAt s path = None then awaiting (occur E) (give None) s
     else andThen (awaiting (occur E) (vaultRead path)) (\<lambda>bs. give (Some bs)) s)"

definition conflictStateMatches ::
  "('m, 'i, 'b) binary_env \<Rightarrow> jstr \<Rightarrow> jstr option \<Rightarrow> jstr option \<Rightarrow> ('m, 'i, 'b, bool) binary_op" where
  "conflictStateMatches E path localH remoteH =
    andThen (hashDisk E path) (\<lambda>currentLocal s.
      (Some (\<not> destroyed s \<and> currentLocal = Some localH \<and> remoteHash E s path = remoteH), s))"

text \<open>\<open>preserveBinaryConflict\<close>: the name is chosen at once, then the folder and the file are made.\<close>

definition preserveBinary :: "('m, 'i, 'b) binary_env \<Rightarrow> jstr \<Rightarrow> bytes \<Rightarrow> conflict_source \<Rightarrow> ('m, 'i, 'b, jstr) binary_op" where
  "preserveBinary E path content source s =
    (let destination = conflictCopyPath (recovery E) (fs s) path source (utc E (clock s))
     in andThen (awaiting (occur E) (parentFolder destination)) (\<lambda>_.
        andThen (awaiting (occur E) (vaultCreate destination content)) (\<lambda>_ s.
          (Some destination, act (Preserved path content) s))) s)"

definition startWriting :: "jstr \<Rightarrow> ('m, 'i, 'b) binary_state \<Rightarrow> ('m, 'i, 'b) binary_state" where
  "startWriting path s = s\<lparr>writing := setWith path (writing s)\<rparr>"

text \<open>The write itself starts in the same step as the check; \<open>h\<close> and \<open>expected\<close> are only recorded.\<close>

definition writeDisk :: "('m, 'i, 'b) binary_env \<Rightarrow> jstr \<Rightarrow> bytes \<Rightarrow> jstr \<Rightarrow> jstr option \<Rightarrow> ('m, 'i, 'b, bool) binary_op" where
  "writeDisk E path bs h expected s0 =
    (if destroyed s0 then (Some False, s0)
     else let s = startWriting path s0;
              written = (\<lambda>r. give (r \<noteq> None));
              s1 = act (Overwrites path bs h expected (destroyed s)) s
          in if fileAt s path \<noteq> None
             then if path \<in> set (openPaths s) then (Some False, s)
                  else andThen (caught (awaiting (occur E) (vaultModify path bs))) written s1
             else andThen (caught (andThen (awaiting (occur E) (parentFolder path)) (\<lambda>_. awaiting (occur E) (vaultCreate path bs)))) written s1)"

definition retryDownloadLater :: "jstr \<Rightarrow> ('m, 'i, 'b) binary_state \<Rightarrow> ('m, 'i, 'b) binary_state" where
  "retryDownloadLater path s =
    (let failures = (case jget (downloadFailures s) path of Some n \<Rightarrow> n | None \<Rightarrow> 0) + 1
     in reconcileLater path (s\<lparr>downloadFailures := jset (downloadFailures s) path failures\<rparr>))"

definition downloadDone :: "('m, 'i, 'b) binary_env \<Rightarrow> jstr \<Rightarrow> jstr \<Rightarrow> ('m, 'i, 'b) binary_state \<Rightarrow> ('m, 'i, 'b) binary_state" where
  "downloadDone E path h s =
    onLocal (markSynced (dict E) path KBinary h h True)
      (s\<lparr>downloadFailures := jdel (downloadFailures s) path, lastSyncedHash := jset (lastSyncedHash s) path h,
         pendingDownloads := setWithout path (pendingDownloads s), urgentPaths := setWithout path (urgentPaths s)\<rparr>)"

definition verifyWritten :: "('m, 'i, 'b) binary_env \<Rightarrow> jstr \<Rightarrow> jstr \<Rightarrow> ('m, 'i, 'b, bool) binary_op" where
  "verifyWritten E path h =
    andThen (hashDisk E path) (\<lambda>writtenHash s.
      if writtenHash \<noteq> Some (Some h)
      then (Some False, if destroyed s then s else retryDownloadLater path s)
      else (Some True, downloadDone E path h s))"

definition installDownload :: "('m, 'i, 'b) binary_env \<Rightarrow> jstr \<Rightarrow> jstr \<Rightarrow> jstr option \<Rightarrow> bytes \<Rightarrow> ('m, 'i, 'b, bool) binary_op" where
  "installDownload E path h expected bs =
    andThen (hashDisk E path) (\<lambda>currentLocal s.
      if destroyed s then (Some False, s)
      else if remoteHash E s path \<noteq> Some h \<or> currentLocal \<noteq> Some expected
      then (Some False, askReconcile path (s\<lparr>pendingDownloads := setWithout path (pendingDownloads s)\<rparr>))
      else andThen (writeDisk E path bs h expected) (\<lambda>ok s.
             if \<not> ok then (Some False, if destroyed s then s else retryDownloadLater path s)
             else if destroyed s then (Some False, s)
             else verifyWritten E path h s) s)"

definition transferToDisk :: "('m, 'i, 'b) binary_env \<Rightarrow> jstr \<Rightarrow> jstr \<Rightarrow> jstr option \<Rightarrow> ('m, 'i, 'b, bool) binary_op" where
  "transferToDisk E path h expected s0 =
    (if destroyed s0 then (Some False, s0)
     else andThen (caught (awaiting (occur E) (fetchBlob E path h))) (\<lambda>r s.
       if destroyed s then (Some False, s)
       else case r of
         None \<Rightarrow> (Some False, retryDownloadLater path s)
       | Some bs \<Rightarrow> andThen (awaiting (occur E) (give (sha256Hex E bs))) (\<lambda>actual s.
           if actual \<noteq> h then (Some False, if destroyed s then s else retryDownloadLater path s)
           else if paused s
           then (Some False, deferReconcile path (pullingMissingRemote s) (s\<lparr>pendingDownloads := setWithout path (pendingDownloads s)\<rparr>))
           else installDownload E path h expected bs s) s) s0)"

definition downloadToDisk :: "('m, 'i, 'b) binary_env \<Rightarrow> jstr \<Rightarrow> jstr \<Rightarrow> jstr option \<Rightarrow> ('m, 'i, 'b, bool) binary_op" where
  "downloadToDisk E path h expected s =
    (if paused s then (Some False, deferReconcile path (pullingMissingRemote s) s)
     else let s1 = s\<lparr>pendingDownloads := setWith path (pendingDownloads s)\<rparr>
          in if path \<in> set (openPaths s1) then (Some False, reconcileLater path s1)
             else andThen (awaiting (occur E) (give ())) (\<lambda>_. transferToDisk E path h expected) s1)"

definition deleteLocal :: "('m, 'i, 'b) binary_env \<Rightarrow> jstr \<Rightarrow> ('m, 'i, 'b, unit) binary_op" where
  "deleteLocal E path s =
    (let forget = (\<lambda>s. onLocal (removePath (dict E) path) (s\<lparr>lastSyncedHash := jdel (lastSyncedHash s) path\<rparr>))
     in if destroyed s then (Some (), s)
        else if paused s then (Some (), deferReconcile path (pullingMissingRemote s) s)
        else if fileAt s path = None then (Some (), forget s)
        else andThen (caught (awaiting (occur E) (vaultDelete path))) (\<lambda>r s.
               (Some (), if r \<noteq> None then forget s else if destroyed s then s else reconcileLater path s))
             (act (Removes path (destroyed s \<or> paused s)) (startWriting path s)))"

section \<open>The index\<close>

definition publishMeta :: "('m, 'i, 'b) binary_env \<Rightarrow> jstr \<Rightarrow> binary_meta \<Rightarrow> jstr option \<Rightarrow> ('m, 'i, 'b) binary_state \<Rightarrow> ('m, 'i, 'b) binary_state" where
  "publishMeta E path meta prev s =
    (let s1 = indexSet E path meta s
     in onLocal (markPublished (dict E) path KBinary (vHash meta) prev)
          (s1\<lparr>lastSyncedHash := jset (lastSyncedHash s1) path (vHash meta)\<rparr>))"

definition publishDelete :: "('m, 'i, 'b) binary_env \<Rightarrow> jstr \<Rightarrow> bool \<Rightarrow> ('m, 'i, 'b) binary_state \<Rightarrow> ('m, 'i, 'b) binary_state" where
  "publishDelete E path initial s =
    (let s1 = (case remoteMeta E s path of
                 None \<Rightarrow> s
               | Some m \<Rightarrow> act (Unpublished path m (jget (lastSyncedHash s) path) initial (destroyed s \<or> paused s))
                   (if vHash m = [] then s
                    else act (Trashed path (vHash m)) (s\<lparr>trash := trash s @ [(path, vHash m, bmSize m)]\<rparr>)));
         s2 = indexDelete E path s1
     in onLocal (removePath (dict E) path) (s2\<lparr>lastSyncedHash := jdel (lastSyncedHash s2) path\<rparr>))"

definition hasPath :: "('m, 'i, 'b) binary_env \<Rightarrow> ('m, 'i, 'b) binary_state \<Rightarrow> jstr \<Rightarrow> bool" where
  "hasPath E s path \<longleftrightarrow> remoteMeta E s path \<noteq> None"

definition hasHash :: "('m, 'i, 'b) binary_env \<Rightarrow> ('m, 'i, 'b) binary_state \<Rightarrow> jstr \<Rightarrow> bool" where
  "hasHash E s h \<longleftrightarrow> list_ex (\<lambda>(_, m). vHash m = h) (dEntries (index E) (binaries s))"

text \<open>The entry published in place of \<open>replaced\<close>.\<close>

definition entryFor :: "jstr \<Rightarrow> nat \<Rightarrow> jstr option \<Rightarrow> binary_meta option \<Rightarrow> binary_meta" where
  "entryFor h sz prev replaced =
    (let lineage = lineageAfter replaced
     in \<lparr>vHash = h, vPrev = Some (case prev of None \<Rightarrow> JNull | Some p \<Rightarrow> JStr p),
         vLineage = (if length lineage > 0 then Some (JArr (map JStr lineage)) else None), bmSize = sz\<rparr>)"

definition restoreEntry :: "('m, 'i, 'b) binary_env \<Rightarrow> jstr \<Rightarrow> jstr \<Rightarrow> nat \<Rightarrow> ('m, 'i, 'b, bool) binary_op" where
  "restoreEntry E path h sz s0 =
    (if destroyed s0 then (Some False, s0)
     else andThen (awaiting (occur E) (askBlob E path h sz)) (\<lambda>ex s.
       if \<not> ex \<or> destroyed s then (Some False, s)
       else let replaced = remoteMeta E s path;
                meta = entryFor h sz (map_option vHash replaced) replaced;
                s1 = act (Published path meta replaced (destroyed s)) s
            in (Some True, askReconcile path (indexSet E path meta
                  (s1\<lparr>ignoredPaths := setWithout path (ignoredPaths s1), lastSyncedHash := jdel (lastSyncedHash s1) path\<rparr>)))) s0)"

section \<open>The upload queue\<close>

definition queueLocalUpload :: "jstr \<Rightarrow> jstr option \<Rightarrow> jstr \<Rightarrow> ('m, 'i, 'b, bool) binary_op" where
  "queueLocalUpload path expected localH s =
    (case fileAt s path of
       None \<Rightarrow> (Some False, s)
     | Some bs \<Rightarrow>
         if destroyed s then (Some False, s)
         else (Some True, enqueueUpload
                \<lparr>jobPath = path, jobHash = localH, jobSize = length bs, attempts = 0, urgent = path \<in> set (urgentPaths s),
                 expectedRemoteHash = expected, diskVersion = (case jget (diskVersions s) path of Some n \<Rightarrow> n | None \<Rightarrow> 0),
                 deferredSince = None\<rparr> s))"

text \<open>The job to upload next, and the queue in which a job held back knows since when.\<close>

fun nextUploadIndex :: "bool \<Rightarrow> int \<Rightarrow> upload_job list \<Rightarrow> nat option \<times> upload_job list" where
  "nextUploadIndex busy now [] = (None, [])"
| "nextUploadIndex busy now (job # jobs) =
    (if urgent job \<or> jobSize job < LARGE_FILE_BYTES \<or> \<not> busy then (Some 0, job # jobs)
     else let since = (case deferredSince job of Some t \<Rightarrow> t | None \<Rightarrow> now);
              job' = job\<lparr>deferredSince := Some since\<rparr>
          in if now - since \<ge> MAX_LARGE_UPLOAD_DEFERRAL_MS then (Some 0, job' # jobs)
             else (case nextUploadIndex busy now jobs of (i, jobs') \<Rightarrow> (map_option Suc i, job' # jobs')))"

text \<open>Publish an uploaded job if the file and the index entry are still the ones it was queued for.\<close>

definition publishUpload :: "('m, 'i, 'b) binary_env \<Rightarrow> upload_job \<Rightarrow> nat \<Rightarrow> ('m, 'i, 'b, bool) binary_op" where
  "publishUpload E job sz s =
    (let path = jobPath job; replaced = remoteMeta E s path
     in if destroyed s then (Some True, s)
        else if paused s then (Some False, s)
        else if (case jget (diskVersions s) path of Some n \<Rightarrow> n | None \<Rightarrow> 0) \<noteq> diskVersion job then (Some True, askReconcile path s)
        else if map_option vHash replaced \<noteq> expectedRemoteHash job then (Some True, askReconcile path s)
        else let meta = entryFor (jobHash job) sz (expectedRemoteHash job) replaced;
                 s1 = publishMeta E path meta (expectedRemoteHash job) (act (Published path meta replaced (destroyed s \<or> paused s)) s)
             in (Some True, s1\<lparr>urgentPaths := setWithout path (urgentPaths s1)\<rparr>))"

definition ifRunning :: "('m, 'i, 'b, bool) binary_op \<Rightarrow> ('m, 'i, 'b, bool) binary_op" where
  "ifRunning continue s = (if destroyed s then (Some True, s) else if paused s then (Some False, s) else continue s)"

definition doUpload :: "('m, 'i, 'b) binary_env \<Rightarrow> upload_job \<Rightarrow> ('m, 'i, 'b, bool) binary_op" where
  "doUpload E job =
    andThen (readDisk E (jobPath job)) (\<lambda>r. ifRunning (\<lambda>s.
      case r of
        None \<Rightarrow> (Some True, askReconcile (jobPath job) s)
      | Some bs \<Rightarrow> andThen (awaiting (occur E) (give (sha256Hex E bs))) (\<lambda>h s.
          if h \<noteq> jobHash job then (Some True, askReconcile (jobPath job) s)
          else andThen (awaiting (occur E) (askBlob E (jobPath job) (jobHash job) (length bs))) (\<lambda>ex. ifRunning
                 (if ex then publishUpload E job (length bs)
                  else andThen (awaiting (occur E) (storeBlob E (jobPath job) (jobHash job) bs)) (\<lambda>_. publishUpload E job (length bs)))) s) s))"

definition isTransientTransferError :: "nat option \<Rightarrow> bool" where
  "isTransientTransferError err =
    (case err of
       None \<Rightarrow> True
     | Some status \<Rightarrow> status = 408 \<or> status = 429 \<or> status = 502 \<or> status = 503 \<or> status = 504 \<or> status \<ge> 500)"

text \<open>What \<open>drain\<close> does when \<open>doUpload\<close> throws; \<open>err\<close> is the status of an \<open>HttpError\<close>, if it is one.\<close>

definition uploadFailed :: "nat option \<Rightarrow> upload_job \<Rightarrow> ('m, 'i, 'b) binary_state \<Rightarrow> ('m, 'i, 'b) binary_state" where
  "uploadFailed err job0 s =
    (let job = job0\<lparr>attempts := attempts job0 + 1\<rparr>
     in if isTransientTransferError err then scheduleDrain (retryDelay (attempts job)) (s\<lparr>uploadQueue := uploadQueue s @ [job]\<rparr>)
        else if attempts job < MAX_UPLOAD_ATTEMPTS then scheduleDrain DRAIN_RETRY_MS (s\<lparr>uploadQueue := uploadQueue s @ [job]\<rparr>)
        else s)"

text \<open>One round of the loop of \<open>drain\<close>, and whether there is another.\<close>

definition drainRound :: "('m, 'i, 'b) binary_env \<Rightarrow> nat option \<Rightarrow> ('m, 'i, 'b) binary_state \<Rightarrow> bool \<times> ('m, 'i, 'b) binary_state" where
  "drainRound E err s =
    (let finally = (\<lambda>s. refreshUploadStatus (s\<lparr>activeUpload := False\<rparr>))
     in if uploadQueue s = [] \<or> destroyed s \<or> paused s then (False, s)
        else case nextUploadIndex (textBusy s) (clock s) (uploadQueue s) of
          (None, q) \<Rightarrow> (False, scheduleDrain DRAIN_RETRY_MS (s\<lparr>uploadQueue := q\<rparr>))
        | (Some i, q) \<Rightarrow>
            (case doUpload E (q ! i) (refreshUploadStatus (s\<lparr>uploadQueue := take i q @ drop (Suc i) q, activeUpload := True\<rparr>)) of
               (Some True, s1) \<Rightarrow> (True, finally s1)
             | (Some False, s1) \<Rightarrow> (False, finally (s1\<lparr>uploadQueue := q ! i # uploadQueue s1\<rparr>))
             | (None, s1) \<Rightarrow> (False, finally (uploadFailed err (q ! i) s1))))"

text \<open>The rounds as long as the list says what each of them may fail with.\<close>

fun drainLoop :: "('m, 'i, 'b) binary_env \<Rightarrow> nat option list \<Rightarrow> ('m, 'i, 'b) binary_state \<Rightarrow> ('m, 'i, 'b) binary_state" where
  "drainLoop E [] s = s"
| "drainLoop E (err # errs) s =
    (case drainRound E err s of
       (True, s1) \<Rightarrow> drainLoop E errs s1
     | (False, s1) \<Rightarrow>
         (let s2 = refreshUploadStatus (s1\<lparr>draining := False\<rparr>)
          in if \<not> paused s2 \<and> uploadQueue s2 \<noteq> [] then scheduleDrain 0 s2 else s2))"

definition drain :: "('m, 'i, 'b) binary_env \<Rightarrow> nat option list \<Rightarrow> ('m, 'i, 'b) binary_state \<Rightarrow> ('m, 'i, 'b) binary_state" where
  "drain E errs s =
    (if draining s \<or> destroyed s \<or> paused s then s
     else drainLoop E errs (refreshUploadStatus (s\<lparr>draining := True\<rparr>)))"

section \<open>Conflicts\<close>

datatype conflict_choice = KeepLocal | KeepRemote

text \<open>Go on if nothing changed; \<open>False\<close> asks the user again.\<close>

definition ifMatches :: "('m, 'i, 'b) binary_env \<Rightarrow> jstr \<Rightarrow> jstr option \<Rightarrow> jstr option \<Rightarrow> ('m, 'i, 'b, bool) binary_op \<Rightarrow> ('m, 'i, 'b, bool) binary_op" where
  "ifMatches E path localH remoteH continue =
    andThen (conflictStateMatches E path localH remoteH) (\<lambda>ok. if ok then continue else give False)"

definition keepLocal :: "('m, 'i, 'b) binary_env \<Rightarrow> jstr \<Rightarrow> jstr option \<Rightarrow> jstr option \<Rightarrow> ('m, 'i, 'b, bool) binary_op" where
  "keepLocal E path localH remoteH =
    (let upload = (case localH of Some h \<Rightarrow> queueLocalUpload path remoteH h | None \<Rightarrow> give True)
     in case remoteH of
          None \<Rightarrow> upload
        | Some h \<Rightarrow> if h = [] then upload else
            andThen (awaiting (occur E) (fetchBlob E path h)) (\<lambda>remoteBytes. ifMatches E path localH remoteH
            (andThen (preserveBinary E path remoteBytes RemoteSide) (\<lambda>_. ifMatches E path localH remoteH upload))))"

definition keepRemote :: "('m, 'i, 'b) binary_env \<Rightarrow> jstr \<Rightarrow> jstr option \<Rightarrow> jstr option \<Rightarrow> ('m, 'i, 'b, bool) binary_op" where
  "keepRemote E path localH remoteH =
    (let replace = (case remoteH of
           None \<Rightarrow> andThen (deleteLocal E path) (\<lambda>_. give True)
         | Some h \<Rightarrow> downloadToDisk E path h localH)
     in case localH of
          None \<Rightarrow> replace
        | Some lh \<Rightarrow> andThen (readDisk E path) (\<lambda>r. case r of
            None \<Rightarrow> (\<lambda>s. (None, s))
          | Some localBytes \<Rightarrow> andThen (awaiting (occur E) (give (sha256Hex E localBytes))) (\<lambda>h.
              if h \<noteq> lh then give False
              else ifMatches E path localH remoteH
                (andThen (preserveBinary E path localBytes LocalSide) (\<lambda>_. ifMatches E path localH remoteH replace)))))"

definition applyConflictChoice :: "('m, 'i, 'b) binary_env \<Rightarrow> jstr \<Rightarrow> conflict_choice \<Rightarrow> jstr option \<Rightarrow> jstr option
     \<Rightarrow> ('m, 'i, 'b, bool) binary_op" where
  "applyConflictChoice E path choice localH remoteH =
    (case choice of KeepLocal \<Rightarrow> keepLocal E path localH remoteH | KeepRemote \<Rightarrow> keepRemote E path localH remoteH)"

text \<open>The beginning of a round of the loop: \<open>ask\<close> is called with both hashes when the conflict still exists.\<close>

definition conflictRound :: "('m, 'i, 'b) binary_env \<Rightarrow> jstr \<Rightarrow> (jstr option \<Rightarrow> jstr option \<Rightarrow> ('m, 'i, 'b, bool) binary_op)
     \<Rightarrow> ('m, 'i, 'b, bool) binary_op" where
  "conflictRound E path ask s0 =
    (let defer = (\<lambda>s. (Some True, deferReconcile path (pullingMissingRemote s) s))
     in if destroyed s0 then (Some True, s0)
        else if paused s0 then defer s0
        else andThen (hashDisk E path) (\<lambda>nowLocal s.
          case nowLocal of
            None \<Rightarrow> (Some True, s)
          | Some l \<Rightarrow>
              if paused s then defer s
              else if l = remoteHash E s path
              then (Some True, case l of Some h \<Rightarrow> s\<lparr>lastSyncedHash := jset (lastSyncedHash s) path h\<rparr> | None \<Rightarrow> s)
              else ask l (remoteHash E s path) s) s0)"

text \<open>\<open>False\<close>: the prompt is still open.\<close>

fun conflictLoop :: "('m, 'i, 'b) binary_env \<Rightarrow> jstr \<Rightarrow> conflict_choice list \<Rightarrow> ('m, 'i, 'b, bool) binary_op" where
  "conflictLoop E path [] = conflictRound E path (\<lambda>_ _. give False)"
| "conflictLoop E path (choice # choices) = conflictRound E path (\<lambda>l r.
     andThen (awaiting (occur E) (give ())) (\<lambda>_ s.
       if destroyed s then (Some True, s)
       else if paused s then (Some True, deferReconcile path (pullingMissingRemote s) s)
       else andThen (conflictStateMatches E path l r) (\<lambda>ok.
              if \<not> ok then conflictLoop E path choices
              else andThen (applyConflictChoice E path choice l r) (\<lambda>finished.
                     if finished then give True else conflictLoop E path choices)) s))"

definition resolveConflict :: "('m, 'i, 'b) binary_env \<Rightarrow> jstr \<Rightarrow> conflict_choice list \<Rightarrow> ('m, 'i, 'b, bool) binary_op" where
  "resolveConflict E path choices =
    andThen (caught (conflictLoop E path choices)) (\<lambda>r s.
      case r of
        None \<Rightarrow> (Some True, if destroyed s then s else reconcileLater path s)
      | Some b \<Rightarrow> (Some b, s))"

section \<open>Reconciling a path\<close>

definition andDone :: "('m, 'i, 'b, 'a) binary_op \<Rightarrow> ('m, 'i, 'b, bool) binary_op" where
  "andDone m = andThen m (\<lambda>_. give True)"

text \<open>Both sides exist and differ.\<close>

definition reconcileBoth :: "('m, 'i, 'b) binary_env \<Rightarrow> jstr \<Rightarrow> conflict_choice list \<Rightarrow> jstr \<Rightarrow> binary_meta \<Rightarrow> ('m, 'i, 'b, bool) binary_op" where
  "reconcileBoth E path choices localH remote s =
    (let base = jget (lastSyncedHash s) path;
         state = (case localSync s of None \<Rightarrow> None | Some st \<Rightarrow> getPath (dict E) st path);
         ownBase = (case state of None \<Rightarrow> False | Some c \<Rightarrow> identity c = Some base \<and> publishedFrom c \<noteq> None);
         pull = andDone (downloadToDisk E path (vHash remote) (Some localH)) (act (Agreed path localH base) s)
     in if base = Some (vHash remote) then andDone (queueLocalUpload path (Some (vHash remote)) localH) s
        else if base = Some localH then
          (if descendsFrom remote localH then pull
           else if (case state of None \<Rightarrow> False | Some c \<Rightarrow> replacedIdentity c = Some (Some (vHash remote)))
             then andDone (queueLocalUpload path (Some (vHash remote)) localH) s
           else if localSync s \<noteq> None \<and> \<not> ownBase then pull
           else if vPrev remote = None then pull
           else resolveConflict E path choices s)
        else resolveConflict E path choices s)"

text \<open>From the local file read on.\<close>

definition reconcileWith :: "('m, 'i, 'b) binary_env \<Rightarrow> jstr \<Rightarrow> conflict_choice list \<Rightarrow> bool \<Rightarrow> bool \<Rightarrow> jstr option option \<Rightarrow> ('m, 'i, 'b, bool) binary_op" where
  "reconcileWith E path choices liveDelete initial localHash s0 =
    (let s = (case localHash of
                Some (Some h) \<Rightarrow> onLocal (\<lambda>st. if Local_Sync_State.hasPath (dict E) st path then st
                                    else beginCandidate (dict E) path KBinary (Some h) (Some h) st) s0
              | _ \<Rightarrow> s0);
         remote = remoteMeta E s path;
         present = (case remote of Some r \<Rightarrow> if vHash r = [] then None else Some r | None \<Rightarrow> None);
         base = jget (lastSyncedHash s) path
     in if localHash = Some (map_option vHash remote)
        then (Some True,
              let s1 = (case map_option vHash remote of
                          Some h \<Rightarrow> onLocal (markSynced (dict E) path KBinary h h True) (s\<lparr>lastSyncedHash := jset (lastSyncedHash s) path h\<rparr>)
                        | None \<Rightarrow> s\<lparr>lastSyncedHash := jdel (lastSyncedHash s) path\<rparr>)
              in s1\<lparr>pendingDownloads := setWithout path (pendingDownloads s1), urgentPaths := setWithout path (urgentPaths s1)\<rparr>)
        else case (localHash, present) of
          (None, _) \<Rightarrow> (Some True, s)
        | (Some (Some h), None) \<Rightarrow>
            if base = None then andDone (queueLocalUpload path None h) s
            else if base = Some h then andDone (deleteLocal E path) (act (Agreed path h base) s)
            else resolveConflict E path choices s
        | (Some None, Some r) \<Rightarrow>
            if base = Some (vHash r) \<and> \<not> initial \<and> (liveDelete \<or> path \<notin> set (pendingDownloads s))
            then (Some True, publishDelete E path initial s)
            else if path \<in> set (pendingRemovals s) then (Some True, s)
            else andDone (downloadToDisk E path (vHash r) None) s
        | (Some (Some h), Some r) \<Rightarrow> reconcileBoth E path choices h r s
        | (Some None, None) \<Rightarrow> (Some True, s))"

definition reconcileNow :: "('m, 'i, 'b) binary_env \<Rightarrow> jstr \<Rightarrow> conflict_choice list \<Rightarrow> ('m, 'i, 'b, bool) binary_op" where
  "reconcileNow E path choices s0 =
    (if destroyed s0 \<or> \<not> shouldTrack E path \<or> path \<in> set (ignoredPaths s0) \<or> path \<in> set (movingAway s0) then (Some True, s0)
     else let liveDelete = path \<in> set (liveDeletes s0);
              initial = (\<not> liveDelete \<and> (pullingMissingRemote s0 \<or> path \<in> set (deferredInitialPulls s0)));
              s1 = s0\<lparr>liveDeletes := setWithout path (liveDeletes s0),
                      deferredInitialPulls := (if \<not> liveDelete \<and> \<not> pullingMissingRemote s0
                        then setWithout path (deferredInitialPulls s0) else deferredInitialPulls s0)\<rparr>;
              defer = (\<lambda>s. (Some True, deferReconcile path initial
                        (if liveDelete then s\<lparr>liveDeletes := setWith path (liveDeletes s)\<rparr> else s)))
          in if paused s1 then defer s1
             else andThen (hashDisk E path) (\<lambda>localHash s.
               if destroyed s then (Some True, s)
               else if paused s then defer s
               else reconcileWith E path choices liveDelete initial localHash s) s1)"

text \<open>A turn of the chain of a path.\<close>

definition reconcileTurn :: "('m, 'i, 'b) binary_env \<Rightarrow> jstr \<Rightarrow> conflict_choice list \<Rightarrow> ('m, 'i, 'b) binary_state \<Rightarrow> ('m, 'i, 'b) binary_state" where
  "reconcileTurn E path choices s =
    (if path \<notin> set (chains s) then s
     else let ended = (\<lambda>s. s\<lparr>chains := setWithout path (chains s)\<rparr>)
          in case reconcileNow E path choices (s\<lparr>pendingReconcile := setWithout path (pendingReconcile s)\<rparr>) of
               (None, s1) \<Rightarrow> ended s1
             | (Some False, s1) \<Rightarrow> s1
             | (Some True, s1) \<Rightarrow>
                 (let s2 = s1\<lparr>pendingReconcile := setWithout path (pendingReconcile s1)\<rparr>
                  in if path \<in> set (pendingReconcile s1) \<and> \<not> destroyed s1 then s2 else ended s2))"

section \<open>Startup\<close>

definition seedEntry :: "('m, 'i, 'b) binary_env \<Rightarrow> jstr \<times> binary_meta \<Rightarrow> ('m, 'i, 'b) binary_state \<Rightarrow> ('m, 'i, 'b) binary_state" where
  "seedEntry E pm s =
    (case pm of (path, meta) \<Rightarrow>
      if vHash meta = [] then s
      else case localSync s of
        None \<Rightarrow> s\<lparr>lastSyncedHash := jset (lastSyncedHash s) path (vHash meta)\<rparr>
      | Some st \<Rightarrow>
          (let st' = migrateLegacyIdentity (dict E) path KBinary (vHash meta) st; s' = s\<lparr>localSync := Some st'\<rparr>
           in case getPath (dict E) st' path of
                None \<Rightarrow> s'
              | Some c \<Rightarrow> if identity c = Some (Some (vHash meta)) \<and> candidate c \<noteq> Some True
                          then s'\<lparr>lastSyncedHash := jset (lastSyncedHash s') path (vHash meta)\<rparr> else s'))"

definition seedRecord :: "jstr \<times> local_path_state \<Rightarrow> ('m, 'i, 'b) binary_state \<Rightarrow> ('m, 'i, 'b) binary_state" where
  "seedRecord pc s =
    (case pc of (path, c) \<Rightarrow>
      (case identity c of
         Some (Some i) \<Rightarrow> if kind c = KBinary \<and> candidate c \<noteq> Some True \<and> i \<noteq> [] \<and> fingerprint c = Some i
                         then s\<lparr>lastSyncedHash := jset (lastSyncedHash s) path i\<rparr> else s
       | _ \<Rightarrow> s))"

definition seedBaseline :: "('m, 'i, 'b) binary_env \<Rightarrow> ('m, 'i, 'b) binary_state \<Rightarrow> ('m, 'i, 'b) binary_state" where
  "seedBaseline E s =
    (let s1 = fold (seedEntry E) (dEntries (index E) (binaries s)) s
     in case localSync s1 of None \<Rightarrow> s1 | Some st \<Rightarrow> fold seedRecord (entries (dict E) st) s1)"

section \<open>What the device does\<close>

text \<open>
  An entry is published over the entry it names as its parent, after the server has confirmed the
  blob, and only bytes of the right hash are uploaded; an entry is deleted only when it is the version
  last synced, no initial pull is under way and the deletion is in the trash; the local file is overwritten
  or removed only when the version given up is the synced one or kept in a recovery copy.
\<close>

definition givenUp :: "('m, 'i, 'b) binary_env \<Rightarrow> bin_action set \<Rightarrow> jstr \<Rightarrow> jstr \<Rightarrow> bool" where
  "givenUp E earlier path l \<longleftrightarrow> Agreed path l (Some l) \<in> earlier \<or> (\<exists>c. Preserved path c \<in> earlier \<and> sha256Hex E c = l)"

fun actionOk :: "('m, 'i, 'b) binary_env \<Rightarrow> bin_action list \<Rightarrow> bin_action \<Rightarrow> bool" where
  "actionOk E earlier (Agreed path l base) = (base = Some l)"
| "actionOk E earlier (PutBlob h bs) = (sha256Hex E bs = h)"
| "actionOk E earlier (Published path meta replaced stopped) =
    (\<not> stopped \<and> Stored (vHash meta) \<in> set earlier
     \<and> vPrev meta = Some (case replaced of None \<Rightarrow> JNull | Some r \<Rightarrow> JStr (vHash r))
     \<and> (\<forall>r. replaced = Some r \<longrightarrow> descendsFrom meta (vHash r)))"
| "actionOk E earlier (Unpublished path meta base initial stopped) =
    (\<not> stopped \<and> \<not> initial \<and> base = Some (vHash meta) \<and> (vHash meta \<noteq> [] \<longrightarrow> Trashed path (vHash meta) \<in> set earlier))"
| "actionOk E earlier (Overwrites path bs h expected stopped) =
    (\<not> stopped \<and> sha256Hex E bs = h \<and> (\<forall>l. expected = Some l \<longrightarrow> givenUp E (set earlier) path l))"
| "actionOk E earlier (Removes path stopped) = (\<not> stopped \<and> (\<exists>l. givenUp E (set earlier) path l))"
| "actionOk E earlier _ = True"

lemma givenUp_mono: "givenUp E A path l \<Longrightarrow> A \<subseteq> B \<Longrightarrow> givenUp E B path l"
  unfolding givenUp_def by blast

subsection \<open>Steps that take no action\<close>

lemma trace_requests [simp]:
  "trace (askReconcile p s) = trace s" "trace (reconcileLater p s) = trace s" "trace (deferReconcile p b s) = trace s"
  "trace (bumpDiskVersion p s) = trace s" "trace (refreshUploadStatus s) = trace s" "trace (scheduleDrain n s) = trace s"
  "trace (enqueueUpload j s) = trace s" "trace (onLocal f s) = trace s" "trace (startWriting p s) = trace s"
  "trace (retryDownloadLater p s) = trace s"
  by (simp_all add: askReconcile_def reconcileLater_def deferReconcile_def bumpDiskVersion_def refreshUploadStatus_def
      scheduleDrain_def enqueueUpload_def onLocal_def startWriting_def retryDownloadLater_def Let_def)

lemma trace_fold: "(\<And>x s. trace (f x s) = trace s) \<Longrightarrow> trace (fold f xs s) = trace s"
  by (induction xs arbitrary: s) simp_all

lemma trace_triggers [simp]:
  "trace (onBinariesChanged E p s) = trace s" "trace (indexSet E p m s) = trace s" "trace (indexDelete E p s) = trace s"
  "trace (stopTrackingPath E p s) = trace s" "trace (holdMovedPath p s) = trace s" "trace (releaseMovedPath E p s) = trace s"
  "trace (onLocalChanged E p s) = trace s" "trace (pathRemoved p s) = trace s" "trace (onLocalDeleted E p s) = trace s"
  "trace (onLocalRenamed E p q s) = trace s" "trace (retryNow s) = trace s" "trace (setPaused b s) = trace s"
  "trace (destroy s) = trace s" "trace (prioritizePaths E ps s) = trace s" "trace (unprioritizePaths ps s) = trace s"
  "trace (downloadDone E p h s) = trace s" "trace (publishMeta E p m pr s) = trace s"
  by (simp_all add: onBinariesChanged_def indexSet_def indexDelete_def stopTrackingPath_def holdMovedPath_def releaseMovedPath_def
      onLocalChanged_def pathRemoved_def onLocalDeleted_def onLocalRenamed_def retryNow_def setPaused_def destroy_def
      prioritizePaths_def unprioritizePaths_def downloadDone_def publishMeta_def trace_fold Let_def)

lemma trace_binEvent [simp]: "trace (occur E e s) = trace s"
  by (cases e) simp_all

interpretation bin: scripted "occur E" for E :: "('m, 'i, 'b) binary_env"
  by unfold_locales simp

lemmas safe_awaiting [safe_intros] = bin.hoare_awaiting

lemma safe_vaultOps [safe_intros]:
  "safe (actionOk E) A (vaultRead p)" "safe (actionOk E) A (vaultModify p bs)" "safe (actionOk E) A (vaultCreate p bs)"
  "safe (actionOk E) A (vaultDelete p)" "safe (actionOk E) A (parentFolder p)" "safe (actionOk E) A (fetchBlob E p h)"
  "safe (actionOk E) A (queueLocalUpload p x h)"
  by (rule safe_same; simp add: vaultRead_def vaultModify_def vaultCreate_def vaultDelete_def parentFolder_def fetchBlob_def
      queueLocalUpload_def split: sum.split option.split prod.split)+

lemma safe_requests [safe_intros]:
  "safe (actionOk E) A (\<lambda>s. (r, askReconcile p s))" "safe (actionOk E) A (\<lambda>s. (r, deferReconcile p (b s) s))"
  "safe (actionOk E) A (\<lambda>s. (r, retryDownloadLater p s))" "safe (actionOk E) A (\<lambda>s. (r, reconcileLater p s))"
  "safe (actionOk E) A (\<lambda>s. (r, if destroyed s then s else retryDownloadLater p s))"
  "safe (actionOk E) A (\<lambda>s. (r, if destroyed s then s else reconcileLater p s))"
  by (rule safe_same; simp)+

lemma safe_hashDisk [safe_intros]: "safe (actionOk E) A (hashDisk E p)"
  unfolding hashDisk_def by (intro safe_intros)

lemma safe_readDisk [safe_intros]: "safe (actionOk E) A (readDisk E p)"
  unfolding readDisk_def by (intro safe_intros)

lemma safe_conflictStateMatches [safe_intros]: "safe (actionOk E) A (conflictStateMatches E p l r)"
  unfolding conflictStateMatches_def by (intro safe_intros)

lemma safe_ifMatches [safe_intros]: "safe (actionOk E) A k \<Longrightarrow> safe (actionOk E) A (ifMatches E p l r k)"
  unfolding ifMatches_def by (intro safe_intros)

subsection \<open>Blobs and recovery copies\<close>

lemma binBlob_confirmed:
  "hoare (actionOk E) A (askBlob E p h n) (\<lambda>ok. if ok then {Stored h} else {})"
  "sha256Hex E bs = h \<Longrightarrow> hoare (actionOk E) A (storeBlob E p h bs) (\<lambda>_. {Stored h})"
  unfolding hoare_def
  by (auto simp: askBlob_def storeBlob_def good_act good_def traceOk_append split: prod.splits if_splits)

lemma preserveBinary_keeps: "hoare (actionOk E) A (preserveBinary E p c src) (\<lambda>_. {Preserved p c})"
proof -
  have kept: "hoare (actionOk E) A (\<lambda>s. (Some d, act (Preserved p c) s)) (\<lambda>_. {Preserved p c})" for A :: "bin_action set" and d
    unfolding hoare_def by (auto simp: good_act)
  have "hoare (actionOk E) A (andThen (awaiting (occur E) (parentFolder d)) (\<lambda>_. andThen (awaiting (occur E) (vaultCreate d c))
      (\<lambda>_ s. (Some d, act (Preserved p c) s)))) (\<lambda>_. {Preserved p c})" for d
    by (rule hoare_andThen [where B = "\<lambda>_. {}"], intro safe_intros, rule hoare_andThen [where B = "\<lambda>_. {}"], intro safe_intros, rule kept)
  then show ?thesis unfolding preserveBinary_def Let_def hoare_def by blast
qed

text \<open>After the recovery copy of a version, it may be given up.\<close>

lemma safe_preserved:
  assumes "\<And>B. givenUp E B p (sha256Hex E c) \<Longrightarrow> safe (actionOk E) B m"
  shows "safe (actionOk E) A (andThen (preserveBinary E p c src) (\<lambda>_. m))"
  by (rule hoare_andThen [OF preserveBinary_keeps], rule assms) (auto simp: givenUp_def)

subsection \<open>The local file\<close>

abbreviation mayReplace :: "('m, 'i, 'b) binary_env \<Rightarrow> bin_action set \<Rightarrow> jstr \<Rightarrow> jstr option \<Rightarrow> bool" where
  "mayReplace E A path expected \<equiv> \<forall>l. expected = Some l \<longrightarrow> givenUp E A path l"

lemma writeDisk_safe:
  assumes "mayReplace E A p expected" "sha256Hex E bs = h"
  shows "safe (actionOk E) A (writeDisk E p bs h expected)"
proof (rule safe_step)
  fix s :: "('a, 'b, 'c) binary_state"
  assume A: "A \<subseteq> set (trace s)"
  let ?a = "Overwrites p bs h expected False"
  have ok: "actionOk E (trace s) ?a" using assms A by (auto intro: givenUp_mono)
  have m: "safe (actionOk E) A (andThen (caught (awaiting (occur E) (vaultModify p bs))) (\<lambda>r. give (r \<noteq> None)))"
    "safe (actionOk E) A (andThen (caught (andThen (awaiting (occur E) (parentFolder p)) (\<lambda>_. awaiting (occur E) (vaultCreate p bs)))) (\<lambda>r. give (r \<noteq> None)))"
    by (intro safe_intros)+
  let ?f = "startWriting p s"
  consider "destroyed s" | "\<not> destroyed s" "fileAt ?f p \<noteq> None" "p \<in> set (openPaths ?f)" | "\<not> destroyed s" "fileAt ?f p \<noteq> None" "p \<notin> set (openPaths ?f)"
    | "\<not> destroyed s" "fileAt ?f p = None" by blast
  then show "\<exists>m s' as. writeDisk E p bs h expected s = m s' \<and> trace s' = trace s @ as \<and> traceOk (actionOk E) (trace s) as \<and> safe (actionOk E) A m"
  proof cases
    case 1
    then show ?thesis by (intro exI [of _ "\<lambda>s. (Some False, s)"] exI [of _ s] exI [of _ "[]"]) (simp add: writeDisk_def safe_return)
  next
    case 2
    then show ?thesis by (intro exI [of _ "\<lambda>s. (Some False, s)"] exI [of _ ?f] exI [of _ "[]"]) (simp add: writeDisk_def safe_return Let_def)
  next
    case 3
    then show ?thesis using m(1) ok
      by (intro exI [of _ "andThen (caught (awaiting (occur E) (vaultModify p bs))) (\<lambda>r. give (r \<noteq> None))"] exI [of _ "act ?a ?f"] exI [of _ "[?a]"])
         (simp add: writeDisk_def Let_def startWriting_def)
  next
    case 4
    then show ?thesis using m(2) ok
      by (intro exI [of _ "andThen (caught (andThen (awaiting (occur E) (parentFolder p)) (\<lambda>_. awaiting (occur E) (vaultCreate p bs)))) (\<lambda>r. give (r \<noteq> None))"]
            exI [of _ "act ?a ?f"] exI [of _ "[?a]"])
         (simp add: writeDisk_def Let_def startWriting_def)
  qed
qed

lemma safe_verifyWritten [safe_intros]: "safe (actionOk E) A (verifyWritten E p h)"
  unfolding verifyWritten_def by (intro safe_intros; rule safe_same; simp)

lemma safe_forgetDownload [safe_intros]:
  "safe (actionOk E) A (\<lambda>s. (r, askReconcile p (s\<lparr>pendingDownloads := f s\<rparr>)))"
  "safe (actionOk E) A (\<lambda>s. (r, deferReconcile p (b s) (s\<lparr>pendingDownloads := f s\<rparr>)))"
  by (rule safe_same; simp)+

lemma installDownload_safe:
  assumes "mayReplace E A p expected" "sha256Hex E bs = h"
  shows "safe (actionOk E) A (installDownload E p h expected bs)"
  unfolding installDownload_def by (intro safe_intros writeDisk_safe [OF assms])

lemma transferToDisk_safe:
  assumes "mayReplace E A p expected"
  shows "safe (actionOk E) A (transferToDisk E p h expected)"
proof -
  have hashed: "safe (actionOk E) A (andThen (awaiting (occur E) (give (sha256Hex E bs))) (\<lambda>actual s.
      if actual \<noteq> h then (Some False, if destroyed s then s else retryDownloadLater p s)
      else if paused s
      then (Some False, deferReconcile p (pullingMissingRemote s) (s\<lparr>pendingDownloads := setWithout p (pendingDownloads s)\<rparr>))
      else installDownload E p h expected bs s))" for bs
  proof (rule bin.safe_awaitGive, cases "sha256Hex E bs = h")
    case True
    from installDownload_safe [OF assms True] True
    show "safe (actionOk E) A (\<lambda>s. if sha256Hex E bs \<noteq> h then (Some False, if destroyed s then s else retryDownloadLater p s)
      else if paused s
      then (Some False, deferReconcile p (pullingMissingRemote s) (s\<lparr>pendingDownloads := setWithout p (pendingDownloads s)\<rparr>))
      else installDownload E p h expected bs s)" by (simp only: simp_thms if_False) (intro safe_intros)
  next
    case False
    then show "safe (actionOk E) A (\<lambda>s. if sha256Hex E bs \<noteq> h then (Some False, if destroyed s then s else retryDownloadLater p s)
      else if paused s
      then (Some False, deferReconcile p (pullingMissingRemote s) (s\<lparr>pendingDownloads := setWithout p (pendingDownloads s)\<rparr>))
      else installDownload E p h expected bs s)" by (simp only: simp_thms if_True) (intro safe_intros)
  qed
  show ?thesis unfolding transferToDisk_def
    by (rule safe_ifState [OF safe_return(1)], rule safe_andThen [OF safe_caught [OF safe_awaiting [OF safe_vaultOps(6)]]])
       (rule safe_ifState [OF safe_return(1) safe_optionState [OF safe_requests(3) hashed]])
qed

lemma downloadToDisk_safe:
  assumes "mayReplace E A p expected"
  shows "safe (actionOk E) A (downloadToDisk E p h expected)"
proof -
  have later: "safe (actionOk E) A (\<lambda>s. (Some False, reconcileLater p (s\<lparr>pendingDownloads := f s\<rparr>)))" for f
    by (rule safe_same) simp
  have run: "safe (actionOk E) A (andThen (awaiting (occur E) (give ())) (\<lambda>_. transferToDisk E p h expected))"
    by (intro safe_intros transferToDisk_safe [OF assms])
  show ?thesis unfolding downloadToDisk_def Let_def
    by (intro safe_ifState safe_requests later safe_after [OF run]) simp
qed

lemma safe_forget [safe_intros]:
  "safe (actionOk E) A (\<lambda>s. (r, onLocal f (s\<lparr>lastSyncedHash := g s\<rparr>)))"
  by (rule safe_same) simp

lemma deleteLocal_safe:
  assumes "givenUp E A p l"
  shows "safe (actionOk E) A (deleteLocal E p)"
proof (rule safe_step)
  fix s :: "('a, 'b, 'c) binary_state"
  assume A: "A \<subseteq> set (trace s)"
  let ?a = "Removes p False"
  let ?forget = "\<lambda>s. onLocal (removePath (dict E) p) (s\<lparr>lastSyncedHash := jdel (lastSyncedHash s) p\<rparr>)"
  let ?m = "andThen (caught (awaiting (occur E) (vaultDelete p))) (\<lambda>r s.
     (Some (), if r \<noteq> None then ?forget s else if destroyed s then s else reconcileLater p s))"
  have ok: "actionOk E (trace s) ?a" using assms A by (auto intro: givenUp_mono)
  have "safe (actionOk E) A (\<lambda>s. (Some (), if r \<noteq> None then ?forget s else if destroyed s then s else reconcileLater p s))" for r :: "unit option"
    by (rule safe_same) simp
  then have m: "safe (actionOk E) A ?m" by (intro safe_intros)
  have quiet: "safe (actionOk E) A (\<lambda>s. if destroyed s then (Some (), s) else if paused s then (Some (), deferReconcile p (pullingMissingRemote s) s)
     else (Some (), ?forget s))" by (intro safe_intros)
  show "\<exists>m s' as. deleteLocal E p s = m s' \<and> trace s' = trace s @ as \<and> traceOk (actionOk E) (trace s) as \<and> safe (actionOk E) A m"
  proof (cases "destroyed s \<or> paused s \<or> fileAt s p = None")
    case True
    then show ?thesis using quiet by (intro exI [of _ "\<lambda>s. if destroyed s then (Some (), s) else if paused s then (Some (), deferReconcile p (pullingMissingRemote s) s)
     else (Some (), ?forget s)"] exI [of _ s] exI [of _ "[]"]) (auto simp: deleteLocal_def Let_def)
  next
    case False
    then show ?thesis using m ok by (intro exI [of _ ?m] exI [of _ "act ?a (startWriting p s)"] exI [of _ "[?a]"]) (auto simp: deleteLocal_def Let_def)
  qed
qed

subsection \<open>Publishing\<close>

lemma entryFor_ok:
  assumes "Stored h \<in> set earlier"
  shows "actionOk E earlier (Published p (entryFor h n (map_option vHash replaced) replaced) replaced False)"
  using assms by (auto simp: entryFor_def descendsFrom_def Let_def split: option.splits)

lemma publishUpload_safe:
  assumes "Stored (jobHash job) \<in> A"
  shows "safe (actionOk E) A (publishUpload E job n)"
proof (rule hoareI)
  fix s r s'
  assume r: "publishUpload E job n s = (r, s')" and g: "good (actionOk E) s" "A \<subseteq> set (trace s)"
  define replaced where "replaced = remoteMeta E s (jobPath job)"
  define a where "a = Published (jobPath job) (entryFor (jobHash job) n (map_option vHash replaced) replaced) replaced False"
  have "actionOk E (trace s) a" unfolding a_def by (rule entryFor_ok) (use assms g in blast)
  moreover have "trace s' = trace s \<or> trace s' = trace s @ [a]"
    using r by (auto simp: publishUpload_def Let_def replaced_def a_def split: if_splits)
  ultimately show "good (actionOk E) s' \<and> A \<subseteq> set (trace s') \<and> (\<forall>x. r = Some x \<longrightarrow> {} \<subseteq> set (trace s'))"
    using g by (auto simp: good_def traceOk_append)
qed

lemma safe_ifRunning [safe_intros]: "safe (actionOk E) A m \<Longrightarrow> safe (actionOk E) A (ifRunning m)"
  unfolding ifRunning_def by (intro safe_intros)

lemma safe_doUpload [safe_intros]: "safe (actionOk E) A (doUpload E job)"
proof -
  let ?p = "jobPath job" and ?h = "jobHash job"
  have put: "safe (actionOk E) A (andThen (awaiting (occur E) (storeBlob E ?p ?h bs)) (\<lambda>_. publishUpload E job (length bs)))"
    if "sha256Hex E bs = ?h" for bs
    by (rule hoare_andThen [OF safe_awaiting [OF binBlob_confirmed(2) [OF that]]]) (rule publishUpload_safe, simp)
  have ask: "safe (actionOk E) A (andThen (awaiting (occur E) (askBlob E ?p ?h (length bs))) (\<lambda>ex. ifRunning
      (if ex then publishUpload E job (length bs)
       else andThen (awaiting (occur E) (storeBlob E ?p ?h bs)) (\<lambda>_. publishUpload E job (length bs)))))"
    if "sha256Hex E bs = ?h" for bs
    by (rule hoare_andThen [OF safe_awaiting [OF binBlob_confirmed(1)]], rule safe_ifRunning)
       (use put that publishUpload_safe [of job "insert (Stored ?h) A"] in auto)
  have hashed: "safe (actionOk E) A (andThen (awaiting (occur E) (give (sha256Hex E bs))) (\<lambda>h s.
      if h \<noteq> ?h then (Some True, askReconcile ?p s)
      else andThen (awaiting (occur E) (askBlob E ?p ?h (length bs))) (\<lambda>ex. ifRunning
        (if ex then publishUpload E job (length bs)
         else andThen (awaiting (occur E) (storeBlob E ?p ?h bs)) (\<lambda>_. publishUpload E job (length bs)))) s))" for bs
    by (rule bin.safe_awaitGive, cases "sha256Hex E bs = ?h") (simp_all add: ask safe_requests)
  show ?thesis unfolding doUpload_def
    by (rule safe_andThen [OF safe_readDisk], rule safe_ifRunning, rule safe_optionState [OF safe_requests(1) hashed])
qed

lemma safe_restoreEntry: "safe (actionOk E) A (restoreEntry E p h n)"
proof -
  have publish: "safe (actionOk E) (A \<union> (if ex then {Stored h} else {})) (\<lambda>s. if \<not> ex \<or> destroyed s then (Some False, s)
       else let replaced = remoteMeta E s p;
                meta = entryFor h n (map_option vHash replaced) replaced;
                s1 = act (Published p meta replaced (destroyed s)) s
            in (Some True, askReconcile p (indexSet E p meta
                  (s1\<lparr>ignoredPaths := setWithout p (ignoredPaths s1), lastSyncedHash := jdel (lastSyncedHash s1) p\<rparr>))))" for ex
    unfolding hoare_def using entryFor_ok by (auto simp: good_act good_def traceOk_append Let_def split: if_splits)
  show ?thesis unfolding restoreEntry_def
    by (rule safe_ifState [OF safe_return(1)], rule hoare_andThen [OF safe_awaiting [OF binBlob_confirmed(1)] publish])
qed

subsection \<open>Conflicts\<close>

lemma safe_keepLocal [safe_intros]: "safe (actionOk E) A (keepLocal E p l r)"
proof -
  have up: "safe (actionOk E) B (case l of Some h \<Rightarrow> queueLocalUpload p r h | None \<Rightarrow> give True)" for B
    by (cases l) (simp_all add: safe_vaultOps safe_give)
  have "safe (actionOk E) A (andThen (awaiting (occur E) (fetchBlob E p h)) (\<lambda>bs. ifMatches E p l r
      (andThen (preserveBinary E p bs RemoteSide) (\<lambda>_. ifMatches E p l r (case l of Some h \<Rightarrow> queueLocalUpload p r h | None \<Rightarrow> give True)))))" for h
    by (rule safe_andThen, intro safe_intros, rule safe_ifMatches, rule safe_preserved, rule safe_ifMatches, rule up)
  then show ?thesis unfolding keepLocal_def Let_def by (cases r) (simp_all add: up)
qed

lemma keepRemote_safe:
  assumes "l \<noteq> r"
  shows "safe (actionOk E) A (keepRemote E p l r)"
proof -
  define replace where "replace = (case r of None \<Rightarrow> andThen (deleteLocal E p) (\<lambda>_. give True) | Some h \<Rightarrow> downloadToDisk E p h l)"
  have replace: "safe (actionOk E) B replace" if "\<forall>x. l = Some x \<longrightarrow> givenUp E B p x" for B
    using that assms by (cases r; cases l) (auto simp: replace_def intro: safe_intros deleteLocal_safe downloadToDisk_safe)
  have kept: "safe (actionOk E) A (andThen (awaiting (occur E) (give (sha256Hex E bs))) (\<lambda>h. if h \<noteq> x then give False
      else ifMatches E p l r (andThen (preserveBinary E p bs LocalSide) (\<lambda>_. ifMatches E p l r replace))))" if "l = Some x" for bs x
    by (rule bin.safe_awaitGive) (use that in \<open>auto intro!: safe_give safe_ifMatches safe_preserved replace\<close>)
  have gone: "safe (actionOk E) A (\<lambda>s. (None, s))" by (rule safe_return)
  show ?thesis
  proof (cases l)
    case None
    then show ?thesis using replace [of A] unfolding keepRemote_def Let_def replace_def by simp
  next
    case (Some x)
    have opened: "safe (actionOk E) A (case v of None \<Rightarrow> (\<lambda>s. (None, s)) | Some bs \<Rightarrow> andThen (awaiting (occur E) (give (sha256Hex E bs))) (\<lambda>h. if h \<noteq> x then give False
      else ifMatches E p l r (andThen (preserveBinary E p bs LocalSide) (\<lambda>_. ifMatches E p l r replace))))" for v
      using kept [OF Some] gone by (cases v) simp_all
    show ?thesis unfolding keepRemote_def Let_def Some option.case
      by (intro safe_andThen safe_readDisk opened [unfolded replace_def Some])
  qed
qed

lemma applyConflictChoice_safe: "l \<noteq> r \<Longrightarrow> safe (actionOk E) A (applyConflictChoice E p c l r)"
  unfolding applyConflictChoice_def by (cases c) (simp_all add: safe_keepLocal keepRemote_safe)

lemma conflictRound_safe:
  assumes "\<And>l r. l \<noteq> r \<Longrightarrow> safe (actionOk E) A (ask l r)"
  shows "safe (actionOk E) A (conflictRound E p ask)"
proof -
  have asked: "safe (actionOk E) A (\<lambda>s. if paused s then (Some True, deferReconcile p (pullingMissingRemote s) s)
      else if l = remoteHash E s p
      then (Some True, case l of Some h \<Rightarrow> s\<lparr>lastSyncedHash := jset (lastSyncedHash s) p h\<rparr> | None \<Rightarrow> s)
      else ask l (remoteHash E s p) s)" for l
  proof (rule safe_step)
    fix s :: "('a, 'b, 'c) binary_state"
    let ?f = "\<lambda>s. if paused s then (Some True, deferReconcile p (pullingMissingRemote s) s)
      else (Some True, case l of Some h \<Rightarrow> s\<lparr>lastSyncedHash := jset (lastSyncedHash s) p h\<rparr> | None \<Rightarrow> s)"
    have f: "safe (actionOk E) A ?f" by (rule safe_same) (simp split: option.split)
    show "\<exists>m s' as. (if paused s then (Some True, deferReconcile p (pullingMissingRemote s) s)
      else if l = remoteHash E s p
      then (Some True, case l of Some h \<Rightarrow> s\<lparr>lastSyncedHash := jset (lastSyncedHash s) p h\<rparr> | None \<Rightarrow> s)
      else ask l (remoteHash E s p) s) = m s' \<and> trace s' = trace s @ as \<and> traceOk (actionOk E) (trace s) as \<and> safe (actionOk E) A m"
    proof (cases "paused s \<or> l = remoteHash E s p")
      case True
      then show ?thesis using f by (intro exI [of _ ?f] exI [of _ s] exI [of _ "[]"]) auto
    next
      case False
      then show ?thesis using assms by (intro exI [of _ "ask l (remoteHash E s p)"] exI [of _ s] exI [of _ "[]"]) simp
    qed
  qed
  show ?thesis unfolding conflictRound_def Let_def
    by (intro safe_ifState safe_return safe_requests safe_andThen safe_hashDisk safe_optionState asked)
qed

lemma safe_conflictLoop [safe_intros]: "safe (actionOk E) A (conflictLoop E p choices)"
proof (induction choices)
  case Nil
  then show ?case unfolding conflictLoop.simps by (intro conflictRound_safe safe_intros)
next
  case (Cons c choices)
  show ?case unfolding conflictLoop.simps
    by (rule conflictRound_safe) (intro safe_intros applyConflictChoice_safe Cons.IH, assumption)
qed

lemma safe_resolveConflict [safe_intros]: "safe (actionOk E) A (resolveConflict E p choices)"
  unfolding resolveConflict_def by (intro safe_intros)

subsection \<open>Reconciling\<close>

lemma safe_andDone [safe_intros]: "safe (actionOk E) A m \<Longrightarrow> safe (actionOk E) A (andDone m)"
  unfolding andDone_def by (intro safe_intros)

text \<open>The synced version is given up.\<close>

lemma agreed_good:
  assumes "\<And>B. givenUp E B p l \<Longrightarrow> safe (actionOk E) B m" "good (actionOk E) s" "base = Some l"
  shows "good (actionOk E) (snd (m (act (Agreed p l base) s)))"
proof -
  have "safe (actionOk E) {Agreed p l (Some l)} m" by (rule assms(1)) (simp add: givenUp_def)
  from hoareD [OF this prod.collapse [symmetric], of "act (Agreed p l base) s"] assms(2,3)
  show ?thesis by (simp add: good_act)
qed

lemma reconcileBoth_good:
  assumes "good (actionOk E) s"
  shows "good (actionOk E) (snd (reconcileBoth E p choices l r s))"
proof -
  have pull: "jget (lastSyncedHash s) p = Some l \<Longrightarrow>
      good (actionOk E) (snd (andDone (downloadToDisk E p (vHash r) (Some l)) (act (Agreed p l (jget (lastSyncedHash s) p)) s)))"
    by (rule agreed_good [OF _ assms]) (simp_all add: safe_andDone downloadToDisk_safe)
  have up: "good (actionOk E) (snd (andDone (queueLocalUpload p (Some (vHash r)) l) s))"
    by (rule safe_good [OF _ assms]) (intro safe_intros)
  have ask: "good (actionOk E) (snd (resolveConflict E p choices s))"
    by (rule safe_good [OF _ assms]) (intro safe_intros)
  show ?thesis unfolding reconcileBoth_def Let_def using pull up ask by simp
qed

lemma publishBinaryDelete_good:
  assumes "good (actionOk E) s" "remoteMeta E s p = Some r" "jget (lastSyncedHash s) p = Some (vHash r)" "\<not> initial" "\<not> destroyed s" "\<not> paused s"
  shows "good (actionOk E) (publishDelete E p initial s)"
  using assms by (auto simp: publishDelete_def Let_def good_def traceOk_append)

lemma reconcileWith_good:
  assumes "good (actionOk E) s0" "\<not> destroyed s0" "\<not> paused s0"
  shows "good (actionOk E) (snd (reconcileWith E p choices live initial localH s0))"
proof -
  define s where "s = (case localH of
      Some (Some h) \<Rightarrow> onLocal (\<lambda>st. if Local_Sync_State.hasPath (dict E) st p then st
                          else beginCandidate (dict E) p KBinary (Some h) (Some h) st) s0
    | _ \<Rightarrow> s0)"
  define present where "present = (case remoteMeta E s p of Some r \<Rightarrow> if vHash r = [] then None else Some r | None \<Rightarrow> None)"
  have s: "good (actionOk E) s" "\<not> destroyed s" "\<not> paused s"
    using assms by (simp_all add: s_def good_def onLocal_def split: option.splits)
  have r: "remoteMeta E s p = Some x" if "present = Some x" for x
    using that by (auto simp: present_def split: option.splits if_splits)
  have agreed: "good (actionOk E) (let s1 = (case map_option vHash (remoteMeta E s p) of
        Some h \<Rightarrow> onLocal (markSynced (dict E) p KBinary h h True) (s\<lparr>lastSyncedHash := jset (lastSyncedHash s) p h\<rparr>)
      | None \<Rightarrow> s\<lparr>lastSyncedHash := jdel (lastSyncedHash s) p\<rparr>)
    in s1\<lparr>pendingDownloads := setWithout p (pendingDownloads s1), urgentPaths := setWithout p (urgentPaths s1)\<rparr>)"
    using s(1) by (simp add: good_def Let_def split: option.split)
  have remove: "jget (lastSyncedHash s) p = Some h \<Longrightarrow>
      good (actionOk E) (snd (andDone (deleteLocal E p) (act (Agreed p h (jget (lastSyncedHash s) p)) s)))" for h
    by (rule agreed_good [OF _ s(1)]) (simp_all add: safe_andDone deleteLocal_safe)
  have ops: "good (actionOk E) (snd (andDone (queueLocalUpload p None h) s))" "good (actionOk E) (snd (resolveConflict E p choices s))"
    "good (actionOk E) (snd (andDone (downloadToDisk E p h None) s))" for h
    by (rule safe_good [OF _ s(1)], (intro safe_intros downloadToDisk_safe; simp))+
  have del: "present = Some x \<Longrightarrow> jget (lastSyncedHash s) p = Some (vHash x) \<Longrightarrow> \<not> initial \<Longrightarrow> good (actionOk E) (publishDelete E p initial s)" for x
    using publishBinaryDelete_good [OF s(1) r _ _ s(2,3)] .
  show ?thesis
  proof (cases "localH = Some (map_option vHash (remoteMeta E s p))")
    case True
    with agreed show ?thesis unfolding reconcileWith_def Let_def s_def [symmetric] by (simp only: simp_thms if_True snd_conv)
  next
    case False
    then show ?thesis
      unfolding reconcileWith_def Let_def s_def [symmetric] present_def [symmetric]
      using remove ops del reconcileBoth_good [OF s(1)] s(1) by (auto split: option.split)
  qed
qed

lemma reconcileNow_good:
  assumes "good (actionOk E) s0"
  shows "good (actionOk E) (snd (reconcileNow E p choices s0))"
proof -
  define s1 where "s1 = s0\<lparr>liveDeletes := setWithout p (liveDeletes s0),
    deferredInitialPulls := (if p \<notin> set (liveDeletes s0) \<and> \<not> pullingMissingRemote s0
      then setWithout p (deferredInitialPulls s0) else deferredInitialPulls s0)\<rparr>"
  obtain h s2 where h: "hashDisk E p s1 = (h, s2)" by fastforce
  have "good (actionOk E) s1" using assms by (simp add: s1_def good_def)
  then have s2: "good (actionOk E) s1" "good (actionOk E) s2" using safe_good [OF safe_hashDisk, of E s1 p] h by simp_all
  have deferred: "good (actionOk E) (deferReconcile p i x) = good (actionOk E) x" "good (actionOk E) (x\<lparr>liveDeletes := d\<rparr>) = good (actionOk E) x" for x i d
    by (simp_all add: good_def)
  show ?thesis
    unfolding reconcileNow_def Let_def s1_def [symmetric] andThen_def h
    using s2 assms reconcileWith_good [OF s2(2)] by (simp add: deferred split: option.split)
qed

lemma reconcileTurn_good:
  assumes "good (actionOk E) s"
  shows "good (actionOk E) (reconcileTurn E p choices s)"
proof -
  let ?s = "s\<lparr>pendingReconcile := setWithout p (pendingReconcile s)\<rparr>"
  obtain r s1 where r: "reconcileNow E p choices ?s = (r, s1)" by fastforce
  have "good (actionOk E) s1" using reconcileNow_good [of E ?s p choices] assms r by (simp add: good_def)
  then show ?thesis using assms r by (auto simp: reconcileTurn_def Let_def good_def split: option.split bool.split)
qed

lemma drainRound_good:
  assumes "good (actionOk E) s"
  shows "good (actionOk E) (snd (drainRound E err s))"
proof (cases "uploadQueue s = [] \<or> destroyed s \<or> paused s")
  case True
  then show ?thesis using assms by (simp add: drainRound_def)
next
  case False
  obtain i q where iq: "nextUploadIndex (textBusy s) (clock s) (uploadQueue s) = (i, q)" by fastforce
  show ?thesis
  proof (cases i)
    case None
    then show ?thesis using assms False iq by (simp add: drainRound_def Let_def good_def)
  next
    case (Some n)
    let ?s = "refreshUploadStatus (s\<lparr>uploadQueue := take n q @ drop (Suc n) q, activeUpload := True\<rparr>)"
    obtain r s1 where r: "doUpload E (q ! n) ?s = (r, s1)" by fastforce
    have "good (actionOk E) s1" using safe_good [OF safe_doUpload, of E ?s "q ! n"] assms r by (simp add: good_def)
    moreover have "trace (uploadFailed e j s1) = trace s1" for e j by (simp add: uploadFailed_def Let_def)
    ultimately show ?thesis using assms False iq Some r by (auto simp: drainRound_def Let_def good_def split: option.split bool.split)
  qed
qed

lemma drainLoop_good: "good (actionOk E) s \<Longrightarrow> good (actionOk E) (drainLoop E errs s)"
proof (induction errs arbitrary: s)
  case (Cons err errs)
  obtain b s1 where r: "drainRound E err s = (b, s1)" by fastforce
  have "good (actionOk E) s1" using drainRound_good [OF Cons.prems, of err] r by simp
  then show ?case using Cons.IH [of s1] r by (cases b) (auto simp: Let_def good_def)
qed simp


end
