(* ===== verification/Mux_Frames.thy ===== *)
theory Mux_Frames
  imports Text_Diff
begin

text \<open>
  The wire frames of \<open>src/src/sync/mux.ts\<close>: encoding, decoding, and the splitting of a large
  payload into PART frames ended by a DATA frame.

  The variable-length integers and strings are lib0's; a \<open>codec\<close> holds its four functions and
  the locale \<open>lib0\<close> states what is relied on: what was written is read back, with the rest of
  the buffer untouched, for safe integers and well-formed strings. Reading past the end throws
  (\<open>None\<close>). \<open>leb128\<close> is an instance: seven bits a byte, least significant first, as lib0
  writes integers.
\<close>

type_synonym bytes = "8 word list"

section \<open>Model\<close>

record codec =
  writeVarUint :: "nat \<Rightarrow> bytes"
  readVarUint :: "bytes \<Rightarrow> (nat \<times> bytes) option"
  writeVarString :: "jstr \<Rightarrow> bytes"
  readVarString :: "bytes \<Rightarrow> (jstr \<times> bytes) option"

definition FRAME_OPEN :: nat where "FRAME_OPEN = 1"
definition FRAME_OPEN_OK :: nat where "FRAME_OPEN_OK = 2"
definition FRAME_OPEN_ERR :: nat where "FRAME_OPEN_ERR = 3"
definition FRAME_DATA :: nat where "FRAME_DATA = 4"
definition FRAME_CLOSE :: nat where "FRAME_CLOSE = 5"
definition FRAME_PING :: nat where "FRAME_PING = 6"
definition FRAME_PONG :: nat where "FRAME_PONG = 7"
definition FRAME_PART :: nat where "FRAME_PART = 8"
definition FRAME_CHUNKED :: nat where "FRAME_CHUNKED = 9"

definition CHUNK_BYTES :: nat where "CHUNK_BYTES = 64 * 1024"
definition MAX_MESSAGE_BYTES :: nat where "MAX_MESSAGE_BYTES = 64 * 1024 * 1024"

definition OPEN_ERR_UNSPECIFIED :: nat where "OPEN_ERR_UNSPECIFIED = 0"
definition OPEN_ERR_REJECTED :: nat where "OPEN_ERR_REJECTED = 1"
definition OPEN_ERR_TOKEN :: nat where "OPEN_ERR_TOKEN = 2"

definition CONTROL_CHANNEL :: nat where "CONTROL_CHANNEL = 0"

lemmas frame_defs = FRAME_OPEN_def FRAME_OPEN_OK_def FRAME_OPEN_ERR_def FRAME_DATA_def FRAME_CLOSE_def
  FRAME_PING_def FRAME_PONG_def FRAME_PART_def FRAME_CHUNKED_def CONTROL_CHANNEL_def OPEN_ERR_UNSPECIFIED_def

definition encodeOpen :: "codec \<Rightarrow> nat \<Rightarrow> jstr \<Rightarrow> bytes" where
  "encodeOpen C channelId pathAndQuery =
     writeVarUint C FRAME_OPEN @ writeVarUint C channelId @ writeVarString C pathAndQuery"

definition encodeData :: "codec \<Rightarrow> nat \<Rightarrow> bytes \<Rightarrow> bool \<Rightarrow> bytes" where
  "encodeData C channelId payload final =
     writeVarUint C (if final then FRAME_DATA else FRAME_PART) @ writeVarUint C channelId @ payload"

definition encodeClose :: "codec \<Rightarrow> nat \<Rightarrow> bytes" where
  "encodeClose C channelId = writeVarUint C FRAME_CLOSE @ writeVarUint C channelId"

definition encodePing :: "codec \<Rightarrow> bytes" where
  "encodePing C = writeVarUint C FRAME_PING @ writeVarUint C CONTROL_CHANNEL"

definition encodePong :: "codec \<Rightarrow> bytes" where
  "encodePong C = writeVarUint C FRAME_PONG @ writeVarUint C CONTROL_CHANNEL"

datatype frame =
    FOpen nat jstr
  | FOpenOk nat
  | FOpenErr nat nat
  | FData nat bytes
  | FPart nat bytes
  | FClose nat
  | FPing
  | FPong
  | FChunked

definition decodeFrame :: "codec \<Rightarrow> bytes \<Rightarrow> frame option" where
  "decodeFrame C buf =
    (case readVarUint C buf of
       None \<Rightarrow> None
     | Some (type, r) \<Rightarrow>
        (case readVarUint C r of
           None \<Rightarrow> None
         | Some (channelId, dec) \<Rightarrow>
             if type = FRAME_OPEN then
               (case readVarString C dec of None \<Rightarrow> None | Some (path, _) \<Rightarrow> Some (FOpen channelId path))
             else if type = FRAME_OPEN_OK then Some (FOpenOk channelId)
             else if type = FRAME_OPEN_ERR then
               (if dec \<noteq> [] then (case readVarUint C dec of None \<Rightarrow> None | Some (reason, _) \<Rightarrow> Some (FOpenErr channelId reason))
                else Some (FOpenErr channelId OPEN_ERR_UNSPECIFIED))
             else if type = FRAME_DATA then Some (FData channelId dec)
             else if type = FRAME_PART then Some (FPart channelId dec)
             else if type = FRAME_CLOSE then Some (FClose channelId)
             else if type = FRAME_PING then Some FPing
             else if type = FRAME_PONG then Some FPong
             else if type = FRAME_CHUNKED then (if channelId = CONTROL_CHANNEL then Some FChunked else None)
             else None))"

text \<open>The loop of \<open>sendData\<close> from position \<open>start\<close> on.\<close>

function chunkFrames :: "codec \<Rightarrow> nat \<Rightarrow> bytes \<Rightarrow> nat \<Rightarrow> bytes list" where
  "chunkFrames C channelId payload start =
    (if start < length payload
     then let e = min (start + CHUNK_BYTES) (length payload)
          in encodeData C channelId (slice payload start e) (e = length payload)
             # chunkFrames C channelId payload (start + CHUNK_BYTES)
     else [])"
  by pat_completeness auto
termination
  by (relation "measure (\<lambda>(_, _, payload, start). length payload - start)") (auto simp: CHUNK_BYTES_def)

declare chunkFrames.simps [simp del]

definition dataFrames :: "codec \<Rightarrow> bool \<Rightarrow> nat \<Rightarrow> bytes \<Rightarrow> bytes list" where
  "dataFrames C chunked channelId payload =
    (if \<not> chunked \<or> length payload \<le> CHUNK_BYTES then [encodeData C channelId payload True]
     else chunkFrames C channelId payload 0)"

section \<open>The contract of the codec\<close>

definition MAX_SAFE :: nat where
  "MAX_SAFE = 9007199254740991"

locale lib0 =
  fixes C :: codec
  assumes read_uint: "n \<le> MAX_SAFE \<Longrightarrow> readVarUint C (writeVarUint C n @ r) = Some (n, r)"
    and read_string: "wf16 s \<Longrightarrow> readVarString C (writeVarString C s @ r) = Some (s, r)"
begin

lemma read_small: "readVarUint C (writeVarUint C FRAME_DATA @ r) = Some (FRAME_DATA, r)"
    "readVarUint C (writeVarUint C FRAME_PART @ r) = Some (FRAME_PART, r)"
    "readVarUint C (writeVarUint C FRAME_OPEN @ r) = Some (FRAME_OPEN, r)"
    "readVarUint C (writeVarUint C FRAME_CLOSE @ r) = Some (FRAME_CLOSE, r)"
    "readVarUint C (writeVarUint C FRAME_PING @ r) = Some (FRAME_PING, r)"
    "readVarUint C (writeVarUint C FRAME_PONG @ r) = Some (FRAME_PONG, r)"
    "readVarUint C (writeVarUint C CONTROL_CHANNEL @ r) = Some (CONTROL_CHANNEL, r)"
  by (simp_all add: read_uint frame_defs MAX_SAFE_def)

lemma read_channel: "n \<le> MAX_SAFE \<Longrightarrow> readVarUint C (writeVarUint C n) = Some (n, [])"
  using read_uint [of n "[]"] by simp

lemma decode_data:
  "ch \<le> MAX_SAFE \<Longrightarrow> decodeFrame C (encodeData C ch payload final) = Some (if final then FData ch payload else FPart ch payload)"
  by (cases final) (simp_all add: decodeFrame_def encodeData_def read_small read_uint, simp_all add: frame_defs)

lemma decode_open: "ch \<le> MAX_SAFE \<Longrightarrow> wf16 p \<Longrightarrow> decodeFrame C (encodeOpen C ch p) = Some (FOpen ch p)"
  using read_string [of p "[]"] by (simp add: decodeFrame_def encodeOpen_def read_small read_uint)

lemma decode_close: "ch \<le> MAX_SAFE \<Longrightarrow> decodeFrame C (encodeClose C ch) = Some (FClose ch)"
  by (simp add: decodeFrame_def encodeClose_def read_small read_channel) (simp add: frame_defs)

lemma decode_heartbeat: "decodeFrame C (encodePing C) = Some FPing" "decodeFrame C (encodePong C) = Some FPong"
proof -
  have "readVarUint C (writeVarUint C CONTROL_CHANNEL) = Some (CONTROL_CHANNEL, [])"
    by (rule read_channel) (simp add: CONTROL_CHANNEL_def)
  then show "decodeFrame C (encodePing C) = Some FPing" "decodeFrame C (encodePong C) = Some FPong"
    by (simp_all add: decodeFrame_def encodePing_def encodePong_def read_small) (simp_all add: frame_defs)
qed

end

subsection \<open>An instance\<close>

fun leb :: "nat \<Rightarrow> bytes" where
  "leb n = (if n < 128 then [of_nat n] else of_nat (n mod 128 + 128) # leb (n div 128))"

declare leb.simps [simp del]

fun unleb :: "bytes \<Rightarrow> (nat \<times> bytes) option" where
  "unleb [] = None"
| "unleb (b # bs) =
    (if unat b < 128 then Some (unat b, bs)
     else case unleb bs of None \<Rightarrow> None | Some (m, r) \<Rightarrow> Some (unat b - 128 + 128 * m, r))"

fun readUnits :: "nat \<Rightarrow> bytes \<Rightarrow> (jstr \<times> bytes) option" where
  "readUnits 0 bs = Some ([], bs)"
| "readUnits (Suc n) (h # l # bs) = (case readUnits n bs of None \<Rightarrow> None | Some (s, r) \<Rightarrow> Some (of_nat (256 * unat h + unat l) # s, r))"
| "readUnits (Suc n) _ = None"

definition leb128 :: codec where
  "leb128 = \<lparr>writeVarUint = leb, readVarUint = unleb,
     writeVarString = (\<lambda>s. leb (length s) @ concat (map (\<lambda>u. [of_nat (unat u div 256), of_nat (unat u mod 256)]) s)),
     readVarString = (\<lambda>bs. case unleb bs of None \<Rightarrow> None | Some (n, r) \<Rightarrow> readUnits n r)\<rparr>"

lemma unat_byte: "n < 256 \<Longrightarrow> unat (of_nat n :: 8 word) = n"
  by (simp add: unat_of_nat take_bit_eq_mod)

lemma unleb_leb: "unleb (leb n @ r) = Some (n, r)"
proof (induction n rule: leb.induct)
  case (1 n)
  show ?case
  proof (cases "n < 128")
    case True
    then show ?thesis by (simp add: leb.simps [of n] unat_byte)
  next
    case False
    have "unat (of_nat (n mod 128 + 128) :: 8 word) = n mod 128 + 128" by (rule unat_byte) simp
    then have "unleb (leb n @ r) = Some (n mod 128 + 128 * (n div 128), r)"
      using 1 [OF False] False by (simp add: leb.simps [of n] del: of_nat_add)
    then show ?thesis by simp
  qed
qed

lemma readUnits_concat:
  "readUnits (length s) (concat (map (\<lambda>u. [of_nat (unat u div 256), of_nat (unat u mod 256)]) s) @ r) = Some (s, r)"
proof (induction s)
  case Nil
  then show ?case by simp
next
  case (Cons u s)
  have "unat u < 2 ^ LENGTH(16)" by (rule unsigned_less)
  then have "unat (of_nat (unat u div 256) :: 8 word) = unat u div 256" by (intro unat_byte) simp
  moreover have "unat (of_nat (unat u mod 256) :: 8 word) = unat u mod 256" by (intro unat_byte) simp
  ultimately show ?case using Cons by simp
qed

interpretation leb: lib0 leb128
  by unfold_locales (simp_all add: leb128_def unleb_leb readUnits_concat)

end
