(* ===== verification/Mux_Connection.thy ===== *)
theory Mux_Connection
  imports Mux_Frames
begin

text \<open>
  The multiplexer of \<open>src/src/sync/mux.ts\<close>: shards of real sockets (\<open>MuxConnection\<close>) that carry
  the virtual sockets (\<open>MuxWebSocket\<close>) of the document providers.

  Objects are numbered: \<open>socks\<close>, \<open>conns\<close> and \<open>vsocks\<close> hold the real sockets, the connections
  and the virtual sockets, each with the next free number. Timers hold the time at which they are
  due. The frames sent on a socket and the events delivered to the providers are recorded in the
  order of their calls. The handlers of a provider (\<open>onopen\<close>, \<open>onmessage\<close>, \<open>onerror\<close>,
  \<open>onclose\<close>) run inside the call that delivers the event and may call the multiplexer again:
  they are the argument \<open>cl\<close>, a function from the state to the state, called with the
  virtual socket and the event.

  Each handler of a real socket, each timer callback and each method a provider may call is one
  step; \<open>muxStep\<close> lists them. A WebSocket changes its \<open>readyState\<close> to OPEN in the task
  that fires \<open>onopen\<close>, and delivers messages only while OPEN.
\<close>

section \<open>State\<close>

datatype ws_state = WsConnecting | WsOpen | WsClosing | WsClosed

datatype vevent = EvOpen | EvData bytes | EvError "jstr option" | EvClose nat

record sock =
  sockState :: ws_state
  sockConn :: nat
  listening :: bool
  sentFrames :: "bytes list"
  openedAt :: nat

record conn =
  connUrl :: jstr
  ws :: "nat option"
  channels :: "(nat, nat) jmap"
  pendingOpens :: "(nat, jstr) jmap"
  nextChannelId :: nat
  heartbeatTimer :: "nat option"
  openRetryTimer :: "nat option"
  openPaceTimer :: "nat option"
  openRetryMs :: nat
  openBlockedUntil :: nat
  openBurstRemaining :: nat
  lastActivity :: nat
  chunked :: bool
  partials :: "(nat, bytes list \<times> nat) jmap"

record vsock =
  readyState :: ws_state
  vconn :: nat
  channelId :: nat

record mux =
  socks :: "nat \<Rightarrow> sock"
  nextSock :: nat
  conns :: "nat \<Rightarrow> conn"
  nextConn :: nat
  vsocks :: "nat \<Rightarrow> vsock"
  nextVsock :: nat
  pools :: "(jstr, nat list) jmap"
  now :: nat
  jitter :: nat
  delivered :: "(nat \<times> vevent) list"

type_synonym client = "nat \<Rightarrow> vevent \<Rightarrow> mux \<Rightarrow> mux"

definition HEARTBEAT_INTERVAL_MS :: nat where "HEARTBEAT_INTERVAL_MS = 5000"
definition HEARTBEAT_TIMEOUT_MS :: nat where "HEARTBEAT_TIMEOUT_MS = 12000"
definition OPEN_RETRY_INITIAL_MS :: nat where "OPEN_RETRY_INITIAL_MS = 1000"
definition OPEN_RETRY_MAX_MS :: nat where "OPEN_RETRY_MAX_MS = 10000"
definition OPEN_BURST_SIZE :: nat where "OPEN_BURST_SIZE = 8"
definition OPEN_PACE_INTERVAL_MS :: nat where "OPEN_PACE_INTERVAL_MS = 100"
definition OPEN_PACE_JITTER_MS :: nat where "OPEN_PACE_JITTER_MS = 25"
definition MAX_CHANNELS_PER_CONNECTION :: nat where "MAX_CHANNELS_PER_CONNECTION = 512"
definition CLOSE_CODE_TRANSPORT :: nat where "CLOSE_CODE_TRANSPORT = 1006"
definition SOCKET_ERROR_TOKEN_REJECTED :: jstr where "SOCKET_ERROR_TOKEN_REJECTED = lit ''token-rejected''"

definition setConn :: "nat \<Rightarrow> (conn \<Rightarrow> conn) \<Rightarrow> mux \<Rightarrow> mux" where
  "setConn c f s = s\<lparr>conns := (conns s)(c := f (conns s c))\<rparr>"

definition setSock :: "nat \<Rightarrow> (sock \<Rightarrow> sock) \<Rightarrow> mux \<Rightarrow> mux" where
  "setSock w f s = s\<lparr>socks := (socks s)(w := f (socks s w))\<rparr>"

definition setV :: "nat \<Rightarrow> (vsock \<Rightarrow> vsock) \<Rightarrow> mux \<Rightarrow> mux" where
  "setV v f s = s\<lparr>vsocks := (vsocks s)(v := f (vsocks s v))\<rparr>"

definition wsOpen :: "mux \<Rightarrow> nat \<Rightarrow> bool" where
  "wsOpen s c \<longleftrightarrow> (case ws (conns s c) of Some w \<Rightarrow> sockState (socks s w) = WsOpen | None \<Rightarrow> False)"

text \<open>\<open>this.ws.send(buf)\<close>.\<close>

definition wsSend :: "nat \<Rightarrow> bytes \<Rightarrow> mux \<Rightarrow> mux" where
  "wsSend c buf s = (case ws (conns s c) of None \<Rightarrow> s | Some w \<Rightarrow> setSock w (\<lambda>k. k\<lparr>sentFrames := sentFrames k @ [buf]\<rparr>) s)"

definition discardSocket :: "nat \<Rightarrow> mux \<Rightarrow> mux" where
  "discardSocket w s = setSock w (\<lambda>k. k\<lparr>listening := False, sockState := (if sockState k = WsClosed then WsClosed else WsClosing)\<rparr>) s"

section \<open>Virtual sockets, towards the provider\<close>

definition notify :: "client \<Rightarrow> nat \<Rightarrow> vevent \<Rightarrow> mux \<Rightarrow> mux" where
  "notify cl v e s = cl v e (s\<lparr>delivered := delivered s @ [(v, e)]\<rparr>)"

definition deliverOpen :: "client \<Rightarrow> nat \<Rightarrow> mux \<Rightarrow> mux" where
  "deliverOpen cl v s =
    (if readyState (vsocks s v) \<noteq> WsConnecting then s
     else notify cl v EvOpen (setV v (\<lambda>k. k\<lparr>readyState := WsOpen\<rparr>) s))"

definition deliverData :: "client \<Rightarrow> nat \<Rightarrow> bytes \<Rightarrow> mux \<Rightarrow> mux" where
  "deliverData cl v payload s = notify cl v (EvData payload) s"

definition deliverError :: "client \<Rightarrow> nat \<Rightarrow> jstr option \<Rightarrow> mux \<Rightarrow> mux" where
  "deliverError cl v reason s = notify cl v (EvError reason) s"

definition deliverClose :: "client \<Rightarrow> nat \<Rightarrow> nat \<Rightarrow> mux \<Rightarrow> mux" where
  "deliverClose cl v code s =
    (if readyState (vsocks s v) = WsClosed then s
     else notify cl v (EvClose code) (setV v (\<lambda>k. k\<lparr>readyState := WsClosed\<rparr>) s))"

section \<open>Timers and the admission of opens\<close>

definition clearOpenRetryTimer :: "nat \<Rightarrow> mux \<Rightarrow> mux" where
  "clearOpenRetryTimer c = setConn c (\<lambda>k. k\<lparr>openRetryTimer := None\<rparr>)"

definition clearOpenPaceTimer :: "nat \<Rightarrow> mux \<Rightarrow> mux" where
  "clearOpenPaceTimer c = setConn c (\<lambda>k. k\<lparr>openPaceTimer := None\<rparr>)"

definition stopHeartbeat :: "nat \<Rightarrow> mux \<Rightarrow> mux" where
  "stopHeartbeat c = setConn c (\<lambda>k. k\<lparr>heartbeatTimer := None\<rparr>)"

definition startHeartbeat :: "nat \<Rightarrow> mux \<Rightarrow> mux" where
  "startHeartbeat c s = setConn c (\<lambda>k. k\<lparr>heartbeatTimer := Some (now s + HEARTBEAT_INTERVAL_MS)\<rparr>) (stopHeartbeat c s)"

definition scheduleOpenRetry :: "nat \<Rightarrow> nat \<Rightarrow> mux \<Rightarrow> mux" where
  "scheduleOpenRetry c waitMs s =
    (if openRetryTimer (conns s c) \<noteq> None then s
     else setConn c (\<lambda>k. k\<lparr>openRetryTimer := Some (now s + waitMs)\<rparr>) s)"

definition schedulePacedOpen :: "nat \<Rightarrow> mux \<Rightarrow> mux" where
  "schedulePacedOpen c s =
    (if openPaceTimer (conns s c) \<noteq> None then s
     else setConn c (\<lambda>k. k\<lparr>openPaceTimer := Some (now s + OPEN_PACE_INTERVAL_MS + jitter s)\<rparr>) s)"

definition backOffOpens :: "nat \<Rightarrow> mux \<Rightarrow> mux" where
  "backOffOpens c s = setConn c (\<lambda>k.
     let ms = (if openRetryMs k = 0 then OPEN_RETRY_INITIAL_MS else min (openRetryMs k * 2) OPEN_RETRY_MAX_MS)
     in k\<lparr>openRetryMs := ms, openBlockedUntil := now s + ms\<rparr>) s"

definition resetOpenBackoff :: "nat \<Rightarrow> mux \<Rightarrow> mux" where
  "resetOpenBackoff c s = clearOpenRetryTimer c (setConn c (\<lambda>k. k\<lparr>openRetryMs := 0, openBlockedUntil := 0\<rparr>) s)"

definition sendNextOpen :: "codec \<Rightarrow> nat \<Rightarrow> mux \<Rightarrow> bool \<times> mux" where
  "sendNextOpen C c s =
    (if \<not> wsOpen s c then (False, s)
     else case pendingOpens (conns s c) of
            [] \<Rightarrow> (False, s)
          | (ch, path) # _ \<Rightarrow>
              (True, wsSend c (encodeOpen C ch path) (setConn c (\<lambda>k. k\<lparr>pendingOpens := jdel (pendingOpens k) ch\<rparr>) s)))"

fun flushLoop :: "codec \<Rightarrow> nat \<Rightarrow> nat \<Rightarrow> mux \<Rightarrow> mux" where
  "flushLoop C c 0 s = s"
| "flushLoop C c (Suc n) s =
    (case sendNextOpen C c s of
       (True, s') \<Rightarrow> flushLoop C c n (setConn c (\<lambda>k. k\<lparr>openBurstRemaining := n\<rparr>) s')
     | (False, s') \<Rightarrow> s')"

definition flushOpens :: "codec \<Rightarrow> nat \<Rightarrow> mux \<Rightarrow> mux" where
  "flushOpens C c s =
    (if \<not> wsOpen s c then s
     else if openBlockedUntil (conns s c) > now s
       then scheduleOpenRetry c (openBlockedUntil (conns s c) - now s) s
     else let s1 = clearOpenRetryTimer c s
          in if openPaceTimer (conns s1 c) \<noteq> None then s1
             else let s2 = flushLoop C c (openBurstRemaining (conns s1 c)) s1
                  in if pendingOpens (conns s2 c) \<noteq> [] then schedulePacedOpen c s2 else s2)"

text \<open>The callback of the pacing timer.\<close>

definition paceFires :: "codec \<Rightarrow> nat \<Rightarrow> mux \<Rightarrow> mux" where
  "paceFires C c s0 =
    (let s = clearOpenPaceTimer c s0
     in if now s < openBlockedUntil (conns s c) then flushOpens C c s
        else let s1 = snd (sendNextOpen C c s)
             in if pendingOpens (conns s1 c) \<noteq> [] then schedulePacedOpen c s1 else s1)"

section \<open>The life of a connection\<close>

definition release :: "nat \<Rightarrow> mux \<Rightarrow> mux" where
  "release c s =
    (if channels (conns s c) \<noteq> [] \<or> pendingOpens (conns s c) \<noteq> [] then s
     else case jget (pools s) (connUrl (conns s c)) of
            None \<Rightarrow> s
          | Some pool \<Rightarrow>
              let pool' = remove1 c pool
              in if pool' = [] then s\<lparr>pools := jdel (pools s) (connUrl (conns s c))\<rparr>
                 else s\<lparr>pools := jset (pools s) (connUrl (conns s c)) pool'\<rparr>)"

definition dropSocket :: "nat \<Rightarrow> mux \<Rightarrow> mux" where
  "dropSocket c s =
    (let s1 = setConn c (\<lambda>k. k\<lparr>ws := None\<rparr>) s
     in case ws (conns s c) of None \<Rightarrow> s1 | Some w \<Rightarrow> discardSocket w s1)"

definition teardown :: "nat \<Rightarrow> mux \<Rightarrow> mux" where
  "teardown c s =
    release c (dropSocket c (setConn c (\<lambda>k. k\<lparr>partials := [], chunked := False\<rparr>)
      (clearOpenPaceTimer c (resetOpenBackoff c (stopHeartbeat c s)))))"

text \<open>Error and close of every channel in a list, in order.\<close>

fun failAll :: "client \<Rightarrow> nat list \<Rightarrow> mux \<Rightarrow> mux" where
  "failAll cl [] s = s"
| "failAll cl (v # vs) s = failAll cl vs (deliverClose cl v CLOSE_CODE_TRANSPORT (deliverError cl v None s))"

definition handleDown :: "client \<Rightarrow> nat \<Rightarrow> mux \<Rightarrow> mux" where
  "handleDown cl c s =
    (let s1 = clearOpenPaceTimer c (resetOpenBackoff c (stopHeartbeat c s));
         vs = map snd (channels (conns s1 c));
         s2 = dropSocket c (setConn c (\<lambda>k. k\<lparr>channels := [], pendingOpens := [], partials := [], chunked := False\<rparr>) s1)
     in release c (failAll cl vs s2))"

definition teardownIfIdle :: "nat \<Rightarrow> mux \<Rightarrow> mux" where
  "teardownIfIdle c s =
    (if channels (conns s c) \<noteq> [] \<or> pendingOpens (conns s c) \<noteq> [] then s
     else if openBlockedUntil (conns s c) \<le> now s then teardown c s
     else scheduleOpenRetry c (openBlockedUntil (conns s c) - now s) s)"

text \<open>The callback of the retry timer.\<close>

definition retryFires :: "codec \<Rightarrow> nat \<Rightarrow> mux \<Rightarrow> mux" where
  "retryFires C c s = teardownIfIdle c (flushOpens C c (clearOpenRetryTimer c s))"

definition failOpenedChannels :: "client \<Rightarrow> nat \<Rightarrow> mux \<Rightarrow> mux" where
  "failOpenedChannels cl c s =
    (let opened = filter (\<lambda>(ch, _). \<not> jhas (pendingOpens (conns s c)) ch) (channels (conns s c))
     in failAll cl (map snd opened)
          (setConn c (\<lambda>k. k\<lparr>channels := fold (\<lambda>(ch, _) m. jdel m ch) opened (channels k)\<rparr>) s))"

definition ensureSocket :: "client \<Rightarrow> nat \<Rightarrow> mux \<Rightarrow> mux" where
  "ensureSocket cl c s =
    (let closing = ws (conns s c)
     in if (case closing of Some w \<Rightarrow> sockState (socks s w) \<in> {WsOpen, WsConnecting} | None \<Rightarrow> False) then s
        else let s1 = (case closing of Some w \<Rightarrow> discardSocket w s | None \<Rightarrow> s);
                 w' = nextSock s1;
                 s2 = s1\<lparr>socks := (socks s1)(w' := \<lparr>sockState = WsConnecting, sockConn = c, listening = True, sentFrames = [], openedAt = 0\<rparr>),
                         nextSock := Suc w'\<rparr>;
                 s3 = setConn c (\<lambda>k. k\<lparr>ws := Some w', chunked := False, partials := []\<rparr>) s2
             in if closing \<noteq> None then failOpenedChannels cl c s3 else s3)"

definition openChannel :: "codec \<Rightarrow> client \<Rightarrow> nat \<Rightarrow> nat \<Rightarrow> jstr \<Rightarrow> mux \<Rightarrow> mux" where
  "openChannel C cl c ch path s =
    (let s1 = ensureSocket cl c (setConn c (\<lambda>k. k\<lparr>pendingOpens := jset (pendingOpens k) ch path\<rparr>) s)
     in if wsOpen s1 c then flushOpens C c s1 else s1)"

definition sendData :: "codec \<Rightarrow> nat \<Rightarrow> nat \<Rightarrow> bytes \<Rightarrow> mux \<Rightarrow> mux" where
  "sendData C c ch payload s =
    (if \<not> wsOpen s c then s
     else fold (wsSend c) (dataFrames C (chunked (conns s c)) ch payload) s)"

definition closeChannel :: "codec \<Rightarrow> nat \<Rightarrow> nat \<Rightarrow> mux \<Rightarrow> mux" where
  "closeChannel C c ch s =
    (let s1 = setConn c (\<lambda>k. k\<lparr>pendingOpens := jdel (pendingOpens k) ch, channels := jdel (channels k) ch,
                partials := jdel (partials k) ch\<rparr>) s;
         s2 = (if wsOpen s1 c then wsSend c (encodeClose C ch) s1 else s1)
     in if channels (conns s2 c) = [] \<and> pendingOpens (conns s2 c) = [] then teardown c s2 else s2)"

section \<open>Methods of a virtual socket\<close>

definition newConn :: "jstr \<Rightarrow> conn" where
  "newConn url = \<lparr>connUrl = url, ws = None, channels = [], pendingOpens = [], nextChannelId = 1,
     heartbeatTimer = None, openRetryTimer = None, openPaceTimer = None, openRetryMs = 0, openBlockedUntil = 0,
     openBurstRemaining = OPEN_BURST_SIZE, lastActivity = 0, chunked = False, partials = []\<rparr>"

definition acquire :: "jstr \<Rightarrow> mux \<Rightarrow> nat \<times> mux" where
  "acquire url s =
    (let pool = (case jget (pools s) url of Some p \<Rightarrow> p | None \<Rightarrow> [])
     in case find (\<lambda>c. length (channels (conns s c)) < MAX_CHANNELS_PER_CONNECTION) pool of
          Some c \<Rightarrow> (c, s)
        | None \<Rightarrow> (nextConn s, s\<lparr>conns := (conns s)(nextConn s := newConn url), nextConn := Suc (nextConn s),
                     pools := jset (pools s) url (pool @ [nextConn s])\<rparr>))"

text \<open>\<open>register\<close> with the new virtual socket, numbered \<open>nextVsock\<close>.\<close>

definition register :: "nat \<Rightarrow> mux \<Rightarrow> nat \<times> mux" where
  "register c s =
    (let ch = nextChannelId (conns s c); v = nextVsock s
     in (ch, setConn c (\<lambda>k. k\<lparr>nextChannelId := Suc ch, channels := jset (channels k) ch v\<rparr>)
          (s\<lparr>vsocks := (vsocks s)(v := \<lparr>readyState = WsConnecting, vconn = c, channelId = ch\<rparr>), nextVsock := Suc v\<rparr>)))"

record parsed_url =
  protocol :: jstr
  host :: jstr
  pathname :: jstr
  search :: jstr

definition muxUrl :: "parsed_url \<Rightarrow> jstr" where
  "muxUrl u = protocol u @ lit ''//'' @ host u @ lit ''/dmux?chunked=1''"

definition newMuxWebSocket :: "codec \<Rightarrow> client \<Rightarrow> parsed_url \<Rightarrow> mux \<Rightarrow> mux" where
  "newMuxWebSocket C cl u s =
    (let (c, s1) = acquire (muxUrl u) s;
         (ch, s2) = register c s1
     in openChannel C cl c ch (pathname u @ search u) s2)"

definition vsend :: "codec \<Rightarrow> nat \<Rightarrow> bytes \<Rightarrow> mux \<Rightarrow> mux" where
  "vsend C v data s =
    (if readyState (vsocks s v) \<noteq> WsOpen then s
     else sendData C (vconn (vsocks s v)) (channelId (vsocks s v)) data s)"

definition vclose :: "codec \<Rightarrow> nat \<Rightarrow> mux \<Rightarrow> mux" where
  "vclose C v s =
    (if readyState (vsocks s v) = WsClosed then s
     else closeChannel C (vconn (vsocks s v)) (channelId (vsocks s v)) (setV v (\<lambda>k. k\<lparr>readyState := WsClosed\<rparr>) s))"

section \<open>Frames from the server\<close>

definition receivePart :: "codec \<Rightarrow> client \<Rightarrow> nat \<Rightarrow> nat \<Rightarrow> bytes \<Rightarrow> mux \<Rightarrow> mux" where
  "receivePart C cl c ch payload s =
    (case jget (channels (conns s c)) ch of
       None \<Rightarrow> s
     | Some v \<Rightarrow>
        let (parts, size) = (case jget (partials (conns s c)) ch of Some p \<Rightarrow> p | None \<Rightarrow> ([], 0));
            parts' = parts @ [payload]; size' = size + length payload
        in if size' > MAX_MESSAGE_BYTES
           then vclose C v (deliverError cl v None (setConn c (\<lambda>k. k\<lparr>partials := jdel (partials k) ch\<rparr>) s))
           else setConn c (\<lambda>k. k\<lparr>partials := jset (partials k) ch (parts', size')\<rparr>) s)"

definition receiveData :: "client \<Rightarrow> nat \<Rightarrow> nat \<Rightarrow> bytes \<Rightarrow> mux \<Rightarrow> mux" where
  "receiveData cl c ch payload s =
    (let (joined, s1) = (case jget (partials (conns s c)) ch of
           Some (parts, _) \<Rightarrow> (concat (parts @ [payload]), setConn c (\<lambda>k. k\<lparr>partials := jdel (partials k) ch\<rparr>) s)
         | None \<Rightarrow> (payload, s))
     in case jget (channels (conns s1 c)) ch of None \<Rightarrow> s1 | Some v \<Rightarrow> deliverData cl v joined s1)"

definition forgetChannel :: "nat \<Rightarrow> nat \<Rightarrow> mux \<Rightarrow> mux" where
  "forgetChannel c ch = setConn c (\<lambda>k. k\<lparr>channels := jdel (channels k) ch, partials := jdel (partials k) ch\<rparr>)"

definition receiveOpenOk :: "codec \<Rightarrow> client \<Rightarrow> nat \<Rightarrow> nat \<Rightarrow> mux \<Rightarrow> mux" where
  "receiveOpenOk C cl c ch s =
    (let s1 = (if now s \<ge> openBlockedUntil (conns s c) then flushOpens C c (resetOpenBackoff c s) else s)
     in case jget (channels (conns s1 c)) ch of None \<Rightarrow> s1 | Some v \<Rightarrow> deliverOpen cl v s1)"

definition receiveOpenErr :: "client \<Rightarrow> nat \<Rightarrow> nat \<Rightarrow> nat \<Rightarrow> mux \<Rightarrow> mux" where
  "receiveOpenErr cl c ch reason s =
    (let s1 = (if reason = OPEN_ERR_REJECTED \<or> reason = OPEN_ERR_UNSPECIFIED then backOffOpens c s else s);
         s2 = forgetChannel c ch s1
     in teardownIfIdle c (case jget (channels (conns s1 c)) ch of
          None \<Rightarrow> s2
        | Some v \<Rightarrow> deliverClose cl v CLOSE_CODE_TRANSPORT
            (deliverError cl v (if reason = OPEN_ERR_TOKEN then Some SOCKET_ERROR_TOKEN_REJECTED else None) s2)))"

definition receiveClose :: "client \<Rightarrow> nat \<Rightarrow> nat \<Rightarrow> mux \<Rightarrow> mux" where
  "receiveClose cl c ch s =
    (let s1 = forgetChannel c ch s
     in teardownIfIdle c (case jget (channels (conns s c)) ch of
          None \<Rightarrow> s1
        | Some v \<Rightarrow> deliverClose cl v CLOSE_CODE_TRANSPORT s1))"

definition receive :: "codec \<Rightarrow> client \<Rightarrow> nat \<Rightarrow> bytes \<Rightarrow> mux \<Rightarrow> mux" where
  "receive C cl c buf s0 =
    (let s = setConn c (\<lambda>k. k\<lparr>lastActivity := now s0\<rparr>) s0
     in case decodeFrame C buf of
          None \<Rightarrow> s
        | Some frame \<Rightarrow>
            (case frame of
               FPong \<Rightarrow> s
             | FPing \<Rightarrow> s
             | FChunked \<Rightarrow> setConn c (\<lambda>k. k\<lparr>chunked := True\<rparr>) s
             | FPart ch payload \<Rightarrow> receivePart C cl c ch payload s
             | FData ch payload \<Rightarrow> receiveData cl c ch payload s
             | FOpenOk ch \<Rightarrow> receiveOpenOk C cl c ch s
             | FOpenErr ch reason \<Rightarrow> receiveOpenErr cl c ch reason s
             | FClose ch \<Rightarrow> receiveClose cl c ch s
             | FOpen _ _ \<Rightarrow> s))"

section \<open>Handlers of the real socket\<close>

definition onSockOpen :: "codec \<Rightarrow> nat \<Rightarrow> mux \<Rightarrow> mux" where
  "onSockOpen C w s0 =
    (let s = setSock w (\<lambda>k. k\<lparr>sockState := WsOpen, openedAt := now s0\<rparr>) s0; c = sockConn (socks s w)
     in if \<not> listening (socks s w) \<or> ws (conns s c) \<noteq> Some w then s
        else flushOpens C c (startHeartbeat c
               (setConn c (\<lambda>k. k\<lparr>lastActivity := now s, openBurstRemaining := OPEN_BURST_SIZE\<rparr>) s)))"

definition onSockMessage :: "codec \<Rightarrow> client \<Rightarrow> nat \<Rightarrow> bytes \<Rightarrow> mux \<Rightarrow> mux" where
  "onSockMessage C cl w buf s =
    (let c = sockConn (socks s w)
     in if listening (socks s w) \<and> ws (conns s c) = Some w then receive C cl c buf s else s)"

text \<open>\<open>onclose\<close> and \<open>onerror\<close>.\<close>

definition onSockDown :: "client \<Rightarrow> nat \<Rightarrow> mux \<Rightarrow> mux" where
  "onSockDown cl w s =
    (let c = sockConn (socks s w)
     in if listening (socks s w) \<and> ws (conns s c) = Some w then handleDown cl c s else s)"

text \<open>\<open>fails\<close> says whether \<open>send\<close> throws.\<close>

definition heartbeatTick :: "codec \<Rightarrow> client \<Rightarrow> nat \<Rightarrow> bool \<Rightarrow> mux \<Rightarrow> mux" where
  "heartbeatTick C cl c fails s =
    (if \<not> wsOpen s c then s
     else if int (now s) - int (lastActivity (conns s c)) > int HEARTBEAT_TIMEOUT_MS then handleDown cl c s
     else if fails then handleDown cl c s
     else wsSend c (encodePing C) s)"

section \<open>Steps\<close>

inductive muxStep :: "codec \<Rightarrow> client \<Rightarrow> mux \<Rightarrow> mux \<Rightarrow> bool" for C cl where
  tick: "t \<ge> now s \<Longrightarrow> j \<le> OPEN_PACE_JITTER_MS \<Longrightarrow> muxStep C cl s (s\<lparr>now := t, jitter := j\<rparr>)"
| newSocket: "muxStep C cl s (newMuxWebSocket C cl u s)"
| sends: "v < nextVsock s \<Longrightarrow> muxStep C cl s (vsend C v data s)"
| closes: "v < nextVsock s \<Longrightarrow> muxStep C cl s (vclose C v s)"
| sockOpens: "w < nextSock s \<Longrightarrow> sockState (socks s w) = WsConnecting \<Longrightarrow> muxStep C cl s (onSockOpen C w s)"
| sockMessage: "w < nextSock s \<Longrightarrow> sockState (socks s w) = WsOpen \<Longrightarrow> muxStep C cl s (onSockMessage C cl w buf s)"
| sockClosing: "w < nextSock s \<Longrightarrow> sockState (socks s w) = WsOpen \<Longrightarrow>
    muxStep C cl s (setSock w (\<lambda>k. k\<lparr>sockState := WsClosing\<rparr>) s)"
| sockClosed: "w < nextSock s \<Longrightarrow> muxStep C cl s (onSockDown cl w (setSock w (\<lambda>k. k\<lparr>sockState := WsClosed\<rparr>) s))"
| sockError: "w < nextSock s \<Longrightarrow> muxStep C cl s (onSockDown cl w s)"
| paceTimer: "openPaceTimer (conns s c) = Some t \<Longrightarrow> t \<le> now s \<Longrightarrow> muxStep C cl s (paceFires C c s)"
| retryTimer: "openRetryTimer (conns s c) = Some t \<Longrightarrow> t \<le> now s \<Longrightarrow> muxStep C cl s (retryFires C c s)"
| heartbeat: "heartbeatTimer (conns s c) = Some t \<Longrightarrow> t \<le> now s \<Longrightarrow>
    muxStep C cl s (heartbeatTick C cl c fails (setConn c (\<lambda>k. k\<lparr>heartbeatTimer := Some (now s + HEARTBEAT_INTERVAL_MS)\<rparr>) s))"

definition muxInit :: mux where
  "muxInit = \<lparr>socks = (\<lambda>_. \<lparr>sockState = WsClosed, sockConn = 0, listening = False, sentFrames = [], openedAt = 0\<rparr>), nextSock = 0,
     conns = (\<lambda>_. newConn []), nextConn = 0, vsocks = (\<lambda>_. \<lparr>readyState = WsClosed, vconn = 0, channelId = 0\<rparr>), nextVsock = 0,
     pools = [], now = 0, jitter = 0, delivered = []\<rparr>"

inductive muxReach :: "codec \<Rightarrow> client \<Rightarrow> mux \<Rightarrow> bool" for C cl where
  start: "muxReach C cl muxInit"
| step: "muxReach C cl s \<Longrightarrow> muxStep C cl s s' \<Longrightarrow> muxReach C cl s'"

section \<open>The invariant\<close>

text \<open>
  \<open>F\<close> are the virtual sockets in flight: already taken off their connection, but not yet told.
  Between two steps there are none; a provider's handler runs while there may be some.
\<close>

definition pooledIn :: "(jstr, nat list) jmap \<Rightarrow> jstr \<Rightarrow> nat \<Rightarrow> bool" where
  "pooledIn P url c \<longleftrightarrow> (\<exists>pool. jget P url = Some pool \<and> c \<in> set pool)"

definition sockOk :: "(nat \<Rightarrow> sock) \<Rightarrow> nat \<Rightarrow> nat \<Rightarrow> conn \<Rightarrow> bool" where
  "sockOk S n c k \<longleftrightarrow> (\<forall>w. ws k = Some w \<longrightarrow> w < n \<and> listening (S w) \<and> sockConn (S w) = c
     \<and> (sockState (S w) = WsOpen \<and> pendingOpens k \<noteq> [] \<longrightarrow> openRetryTimer k \<noteq> None \<or> openPaceTimer k \<noteq> None))"

definition channelsOk :: "(nat \<Rightarrow> vsock) \<Rightarrow> nat \<Rightarrow> nat \<Rightarrow> conn \<Rightarrow> bool" where
  "channelsOk V n c k \<longleftrightarrow> jwf (channels k) \<and> length (channels k) \<le> MAX_CHANNELS_PER_CONNECTION
     \<and> (\<forall>ch v. jget (channels k) ch = Some v \<longrightarrow>
          v < n \<and> vconn (V v) = c \<and> channelId (V v) = ch \<and> readyState (V v) \<noteq> WsClosed)"

definition connOk :: "mux \<Rightarrow> nat \<Rightarrow> bool" where
  "connOk s c \<longleftrightarrow> channelsOk (vsocks s) (nextVsock s) c (conns s c) \<and> sockOk (socks s) (nextSock s) c (conns s c)
     \<and> (channels (conns s c) \<noteq> [] \<longrightarrow> ws (conns s c) \<noteq> None \<and> pooledIn (pools s) (connUrl (conns s c)) c)"

definition vsocksOk :: "nat set \<Rightarrow> mux \<Rightarrow> bool" where
  "vsocksOk F s \<longleftrightarrow> (\<forall>v \<ge> nextVsock s. readyState (vsocks s v) = WsClosed)
     \<and> inj_on (\<lambda>v. (vconn (vsocks s v), channelId (vsocks s v))) {..<nextVsock s}
     \<and> (\<forall>v < nextVsock s. vconn (vsocks s v) < nextConn s
          \<and> channelId (vsocks s v) < nextChannelId (conns s (vconn (vsocks s v)))
          \<and> (readyState (vsocks s v) \<noteq> WsClosed \<longrightarrow>
               v \<in> F \<or> jget (channels (conns s (vconn (vsocks s v)))) (channelId (vsocks s v)) = Some v))"

definition flightOk :: "nat set \<Rightarrow> mux \<Rightarrow> bool" where
  "flightOk F s \<longleftrightarrow> (\<forall>v \<in> F. v < nextVsock s \<and> (\<forall>c ch. jget (channels (conns s c)) ch \<noteq> Some v))"

definition poolsOk :: "mux \<Rightarrow> bool" where
  "poolsOk s \<longleftrightarrow> (\<forall>url pool. jget (pools s) url = Some pool \<longrightarrow>
     pool \<noteq> [] \<and> distinct pool \<and> (\<forall>c \<in> set pool. c < nextConn s \<and> connUrl (conns s c) = url))"

definition muxOk :: "nat set \<Rightarrow> mux \<Rightarrow> bool" where
  "muxOk F s \<longleftrightarrow> (\<forall>c. connOk s c) \<and> vsocksOk F s \<and> flightOk F s \<and> poolsOk s"

lemma muxOk_conn: "muxOk F s \<Longrightarrow> connOk s c"
  by (simp add: muxOk_def)

lemma muxOk_channels: "muxOk F s \<Longrightarrow> channelsOk (vsocks s) (nextVsock s) c (conns s c)"
  by (simp add: muxOk_def connOk_def)

lemma muxOk_sock: "muxOk F s \<Longrightarrow> sockOk (socks s) (nextSock s) c (conns s c)"
  by (simp add: muxOk_def connOk_def)

lemma muxOk_jwf: "muxOk F s \<Longrightarrow> jwf (channels (conns s c))"
  using muxOk_channels unfolding channelsOk_def by blast

lemma channelsOk_D:
  "channelsOk V n c k \<Longrightarrow> jget (channels k) ch = Some v \<Longrightarrow>
     v < n \<and> vconn (V v) = c \<and> channelId (V v) = ch \<and> readyState (V v) \<noteq> WsClosed"
  by (simp add: channelsOk_def)

subsection \<open>Changes of one connection\<close>

lemma conns_setConn [simp]:
  "conns (setConn c f s) = (conns s)(c := f (conns s c))" "socks (setConn c f s) = socks s" "nextSock (setConn c f s) = nextSock s"
  "vsocks (setConn c f s) = vsocks s" "nextVsock (setConn c f s) = nextVsock s" "pools (setConn c f s) = pools s"
  "nextConn (setConn c f s) = nextConn s" "now (setConn c f s) = now s" "jitter (setConn c f s) = jitter s"
  "delivered (setConn c f s) = delivered s"
  by (simp_all add: setConn_def)

lemma socks_setSock [simp]:
  "socks (setSock w f s) = (socks s)(w := f (socks s w))" "conns (setSock w f s) = conns s" "nextSock (setSock w f s) = nextSock s"
  "vsocks (setSock w f s) = vsocks s" "nextVsock (setSock w f s) = nextVsock s" "pools (setSock w f s) = pools s"
  "nextConn (setSock w f s) = nextConn s" "now (setSock w f s) = now s" "jitter (setSock w f s) = jitter s"
  "delivered (setSock w f s) = delivered s"
  by (simp_all add: setSock_def)

lemma vsocks_setV [simp]:
  "vsocks (setV v f s) = (vsocks s)(v := f (vsocks s v))" "conns (setV v f s) = conns s" "nextSock (setV v f s) = nextSock s"
  "socks (setV v f s) = socks s" "nextVsock (setV v f s) = nextVsock s" "pools (setV v f s) = pools s"
  "nextConn (setV v f s) = nextConn s" "now (setV v f s) = now s" "jitter (setV v f s) = jitter s"
  "delivered (setV v f s) = delivered s"
  by (simp_all add: setV_def)

text \<open>A change that leaves the channels of the connection alone.\<close>

lemma muxOk_setConn:
  assumes ok: "muxOk F s" and k: "k = conns s c" "k' = f k"
    and same: "connUrl k' = connUrl k" "channels k' = channels k" "nextChannelId k' = nextChannelId k"
    and sock: "sockOk (socks s) (nextSock s) c k'" "channels k \<noteq> [] \<longrightarrow> ws k' \<noteq> None"
  shows "muxOk F (setConn c f s)"
proof -
  have "connOk (setConn c f s) d" for d
    using muxOk_conn [OF ok, of d] muxOk_conn [OF ok, of c] same sock
    by (auto simp: connOk_def channelsOk_def k)
  moreover have "vsocksOk F (setConn c f s)" "flightOk F (setConn c f s)" "poolsOk (setConn c f s)"
    using ok same unfolding muxOk_def vsocksOk_def flightOk_def poolsOk_def k by (auto simp: fun_upd_apply)
  ultimately show ?thesis by (simp add: muxOk_def)
qed

lemma nonempty_has: "m \<noteq> [] \<Longrightarrow> \<exists>k v. jget m k = Some v"
  by (cases m) auto

lemma takeOff_nonempty:
  "(\<And>ch. jget m' ch = (if ch \<in> D then None else jget m ch)) \<Longrightarrow> m' \<noteq> [] \<Longrightarrow> m \<noteq> []"
  using nonempty_has [of m'] by (auto split: if_splits)

text \<open>Taking channels off a connection: their sockets are then in flight.\<close>

lemma muxOk_takeOff:
  assumes ok: "muxOk F s" and k: "k = conns s c" "k' = f k"
    and same: "connUrl k' = connUrl k" "nextChannelId k' = nextChannelId k"
    and ch: "jwf (channels k')" "length (channels k') \<le> length (channels k)"
      "\<And>ch. jget (channels k') ch = (if ch \<in> D then None else jget (channels k) ch)"
    and sock: "sockOk (socks s) (nextSock s) c k'" "channels k' \<noteq> [] \<longrightarrow> ws k' \<noteq> None"
  shows "muxOk (F \<union> {v. \<exists>ch \<in> D. jget (channels k) ch = Some v}) (setConn c f s)"
proof -
  let ?F = "F \<union> {v. \<exists>ch \<in> D. jget (channels k) ch = Some v}" and ?s = "setConn c f s"
  have chs: "channelsOk (vsocks s) (nextVsock s) c k" using muxOk_channels [OF ok] k by simp
  have "channels k' \<noteq> [] \<longrightarrow> channels k \<noteq> []" using takeOff_nonempty [OF ch(3)] by blast
  moreover have "channelsOk (vsocks s) (nextVsock s) c k'" using chs ch by (auto simp: channelsOk_def)
  ultimately have "connOk ?s d" for d
    using muxOk_conn [OF ok, of d] same sock by (auto simp: connOk_def k)
  moreover have "vsocksOk ?F ?s"
    using ok same ch(3) unfolding muxOk_def vsocksOk_def k by (auto simp: fun_upd_apply)
  moreover have "flightOk ?F ?s" unfolding flightOk_def
  proof (intro ballI conjI allI)
    fix v assume v: "v \<in> ?F"
    then show "v < nextVsock ?s" using ok chs unfolding muxOk_def flightOk_def channelsOk_def by auto
    fix d ch'
    show "jget (channels (conns ?s d)) ch' \<noteq> Some v"
    proof
      assume r: "jget (channels (conns ?s d)) ch' = Some v"
      then have r': "jget (channels (conns s d)) ch' = Some v" using ch(3) by (auto simp: k split: if_splits)
      then have "v \<notin> F" using ok unfolding muxOk_def flightOk_def by blast
      then obtain ch where c: "ch \<in> D" "jget (channels k) ch = Some v" using v by blast
      then have "d = c" "ch' = ch"
        using channelsOk_D [OF muxOk_channels [OF ok] r'] channelsOk_D [OF chs c(2)] by simp_all
      then show False using r c(1) ch(3) by (simp add: k)
    qed
  qed
  moreover have "poolsOk ?s" using ok same unfolding muxOk_def poolsOk_def k by auto
  ultimately show ?thesis by (simp add: muxOk_def)
qed

text \<open>A socket in flight is closed; it may then be taken out of flight.\<close>

lemma muxOk_closeFlying:
  assumes ok: "muxOk G s" and v: "v \<in> G" and F: "G - {v} \<subseteq> F" "F \<subseteq> G"
  shows "muxOk F (setV v (\<lambda>k. k\<lparr>readyState := WsClosed\<rparr>) s)"
proof -
  let ?s = "setV v (\<lambda>k. k\<lparr>readyState := WsClosed\<rparr>) s"
  have fl: "\<And>c ch. jget (channels (conns s c)) ch \<noteq> Some v" using ok v unfolding muxOk_def flightOk_def by blast
  have "connOk ?s c" for c
    using muxOk_conn [OF ok, of c] fl by (auto simp: connOk_def channelsOk_def)
  moreover have same: "vconn (vsocks ?s u) = vconn (vsocks s u)" "channelId (vsocks ?s u) = channelId (vsocks s u)" for u
    by simp_all
  have "vsocksOk F ?s"
    using ok F unfolding muxOk_def vsocksOk_def same by auto
  moreover have "flightOk F ?s" "poolsOk ?s"
    using ok F unfolding muxOk_def flightOk_def poolsOk_def by auto
  ultimately show ?thesis by (simp add: muxOk_def)
qed

text \<open>A real socket on which something is sent, or one that no connection uses.\<close>

lemma muxOk_setSock:
  assumes "muxOk F s"
    and "listening (f (socks s w)) = listening (socks s w)" "sockConn (f (socks s w)) = sockConn (socks s w)"
    and "sockState (f (socks s w)) = WsOpen \<Longrightarrow> sockState (socks s w) = WsOpen"
  shows "muxOk F (setSock w f s)"
proof -
  have "connOk (setSock w f s) c" for c
    using muxOk_conn [OF assms(1), of c] assms(2-) by (auto simp: connOk_def sockOk_def)
  then show ?thesis using assms(1) by (simp add: muxOk_def vsocksOk_def flightOk_def poolsOk_def)
qed

lemma muxOk_unusedSock:
  assumes "muxOk F s" "\<And>c. ws (conns s c) \<noteq> Some w"
  shows "muxOk F (setSock w f s)"
proof -
  have "connOk (setSock w f s) c" for c
    using muxOk_conn [OF assms(1), of c] assms(2) by (auto simp: connOk_def sockOk_def)
  then show ?thesis using assms(1) by (simp add: muxOk_def vsocksOk_def flightOk_def poolsOk_def)
qed

lemma muxOk_wsSend: "muxOk F s \<Longrightarrow> muxOk F (wsSend c buf s)"
  unfolding wsSend_def by (auto split: option.split intro!: muxOk_setSock)

lemma muxOk_log: "muxOk F (s\<lparr>delivered := d\<rparr>) = muxOk F s"
  by (simp add: muxOk_def connOk_def vsocksOk_def flightOk_def poolsOk_def)

subsection \<open>Flushing the queue of opens\<close>

text \<open>Everything but the progress of the queue of connection \<open>c\<close>.\<close>

definition preOk :: "nat \<Rightarrow> nat set \<Rightarrow> mux \<Rightarrow> bool" where
  "preOk c F s \<longleftrightarrow> muxOk F (setConn c (\<lambda>k. k\<lparr>pendingOpens := []\<rparr>) s)"

definition progress :: "mux \<Rightarrow> nat \<Rightarrow> bool" where
  "progress s c \<longleftrightarrow> (wsOpen s c \<and> pendingOpens (conns s c) \<noteq> [] \<longrightarrow>
     openRetryTimer (conns s c) \<noteq> None \<or> openPaceTimer (conns s c) \<noteq> None)"

lemma setConn_twice [simp]: "setConn c f (setConn c g s) = setConn c (\<lambda>k. f (g k)) s"
  by (simp add: setConn_def)

lemma setConn_id: "f (conns s c) = conns s c \<Longrightarrow> setConn c f s = s"
  by (simp add: setConn_def fun_upd_idem)

lemma preOk_setConn:
  assumes "preOk c F s" "\<And>k. connUrl (f k) = connUrl k \<and> channels (f k) = channels k \<and> nextChannelId (f k) = nextChannelId k \<and> ws (f k) = ws k"
  shows "preOk c F (setConn c f s)"
proof -
  let ?e = "\<lambda>k. k\<lparr>pendingOpens := []\<rparr>"
  have "muxOk F (setConn c (\<lambda>k. ?e (f (k\<lparr>pendingOpens := pendingOpens (conns s c)\<rparr>))) (setConn c ?e s))"
    by (rule muxOk_setConn [OF assms(1) [unfolded preOk_def] refl refl])
      (use assms(2) muxOk_conn [OF assms(1) [unfolded preOk_def], of c] in \<open>auto simp: connOk_def sockOk_def\<close>)
  then show ?thesis by (simp add: preOk_def setConn_def)
qed

lemma muxOk_preOk: "muxOk F s \<longleftrightarrow> preOk c F s \<and> progress s c"
proof
  assume ok: "muxOk F s"
  have "muxOk F (setConn c (\<lambda>k. k\<lparr>pendingOpens := []\<rparr>) s)"
    by (rule muxOk_setConn [OF ok refl refl]) (use muxOk_conn [OF ok, of c] in \<open>auto simp: connOk_def sockOk_def\<close>)
  moreover have "progress s c"
    using muxOk_sock [OF ok, of c] by (auto simp: progress_def sockOk_def wsOpen_def split: option.splits)
  ultimately show "preOk c F s \<and> progress s c" by (simp add: preOk_def)
next
  assume pre: "preOk c F s \<and> progress s c"
  let ?s = "setConn c (\<lambda>k. k\<lparr>pendingOpens := []\<rparr>) s"
  have ok: "muxOk F ?s" using pre by (simp add: preOk_def)
  have "muxOk F (setConn c (\<lambda>k. k\<lparr>pendingOpens := pendingOpens (conns s c)\<rparr>) ?s)"
  proof (rule muxOk_setConn [OF ok refl refl])
    show "sockOk (socks ?s) (nextSock ?s) c (conns ?s c\<lparr>pendingOpens := pendingOpens (conns s c)\<rparr>)"
      using muxOk_sock [OF ok, of c] pre by (auto simp: sockOk_def progress_def wsOpen_def)
  qed (use muxOk_conn [OF ok, of c] in \<open>auto simp: connOk_def\<close>)
  then show "muxOk F s" by (simp add: setConn_id)
qed

lemma preOk_wsSend: "preOk c F s \<Longrightarrow> preOk c F (wsSend c buf s)"
proof -
  assume "preOk c F s"
  then have "muxOk F (wsSend c buf (setConn c (\<lambda>k. k\<lparr>pendingOpens := []\<rparr>) s))"
    unfolding preOk_def by (rule muxOk_wsSend)
  moreover have "wsSend c buf (setConn c (\<lambda>k. k\<lparr>pendingOpens := []\<rparr>) s) = setConn c (\<lambda>k. k\<lparr>pendingOpens := []\<rparr>) (wsSend c buf s)"
    by (simp add: wsSend_def setConn_def setSock_def split: option.split)
  ultimately show ?thesis by (simp add: preOk_def)
qed

lemma wsOpen_setConn [simp]: "(\<And>k. ws (f k) = ws k) \<Longrightarrow> wsOpen (setConn c f s) d = wsOpen s d"
  by (auto simp: wsOpen_def fun_upd_apply split: option.split)

lemma wsOpen_setV [simp]: "wsOpen (setV v f s) c = wsOpen s c"
  by (auto simp: wsOpen_def split: option.split)

lemma conns_wsSend [simp]: "conns (wsSend c buf s) = conns s" "wsOpen (wsSend c buf s) d = wsOpen s d"
  "now (wsSend c buf s) = now s" "jitter (wsSend c buf s) = jitter s"
  by (auto simp: wsSend_def wsOpen_def split: option.split)

lemma sendNextOpen_pre:
  assumes "preOk c F s"
  shows "preOk c F (snd (sendNextOpen C c s)) \<and> wsOpen (snd (sendNextOpen C c s)) c = wsOpen s c"
proof -
  have "preOk c F (wsSend c buf (setConn c (\<lambda>k. k\<lparr>pendingOpens := jdel (pendingOpens k) ch\<rparr>) s))" for buf ch
    by (rule preOk_wsSend, rule preOk_setConn [OF assms]) simp
  then show ?thesis using assms by (auto simp: sendNextOpen_def split: list.split)
qed

lemma flushLoop_pre: "preOk c F s \<Longrightarrow> preOk c F (flushLoop C c n s) \<and> wsOpen (flushLoop C c n s) c = wsOpen s c"
proof (induction n arbitrary: s)
  case 0
  then show ?case by simp
next
  case (Suc n)
  obtain b s' where b: "sendNextOpen C c s = (b, s')" by fastforce
  then have s': "preOk c F s'" "wsOpen s' c = wsOpen s c" using sendNextOpen_pre [OF Suc.prems, of C] by simp_all
  have "preOk c F (setConn c (\<lambda>k. k\<lparr>openBurstRemaining := n\<rparr>) s')" by (rule preOk_setConn [OF s'(1)]) simp
  then show ?case using Suc.IH s' b by (cases b) simp_all
qed

lemma schedulePacedOpen_ok:
  assumes "preOk c F s"
  shows "muxOk F (schedulePacedOpen c s)"
proof -
  have "preOk c F (schedulePacedOpen c s)"
    unfolding schedulePacedOpen_def using assms by (auto intro!: preOk_setConn)
  moreover have "progress (schedulePacedOpen c s) c" by (simp add: schedulePacedOpen_def progress_def)
  ultimately show ?thesis using muxOk_preOk by blast
qed

lemma scheduleOpenRetry_ok:
  assumes "preOk c F s"
  shows "muxOk F (scheduleOpenRetry c t s)"
proof -
  have "preOk c F (scheduleOpenRetry c t s)"
    unfolding scheduleOpenRetry_def using assms by (auto intro!: preOk_setConn)
  moreover have "progress (scheduleOpenRetry c t s) c" by (simp add: scheduleOpenRetry_def progress_def)
  ultimately show ?thesis using muxOk_preOk by blast
qed

text \<open>A queue that is empty or paced makes progress.\<close>

lemma paced_ok:
  "preOk c F s \<Longrightarrow> muxOk F (if pendingOpens (conns s c) \<noteq> [] then schedulePacedOpen c s else s)"
  using schedulePacedOpen_ok muxOk_preOk [of F s c] by (simp add: progress_def)

lemma flushOpens_ok:
  assumes "preOk c F s"
  shows "muxOk F (flushOpens C c s)"
proof (cases "wsOpen s c")
  case False
  then show ?thesis using assms muxOk_preOk [of F s c] by (simp add: flushOpens_def progress_def)
next
  case True
  let ?s1 = "clearOpenRetryTimer c s"
  have pre: "preOk c F ?s1" unfolding clearOpenRetryTimer_def by (rule preOk_setConn [OF assms]) simp
  have "muxOk F ?s1" if "openPaceTimer (conns ?s1 c) \<noteq> None"
    using pre that muxOk_preOk [of F ?s1 c] by (simp add: progress_def)
  moreover have "muxOk F (if pendingOpens (conns s2 c) \<noteq> [] then schedulePacedOpen c s2 else s2)"
    if "s2 = flushLoop C c (openBurstRemaining (conns ?s1 c)) ?s1" for s2
    using flushLoop_pre [OF pre] paced_ok unfolding that by blast
  ultimately show ?thesis
    using True scheduleOpenRetry_ok [OF assms] by (simp add: flushOpens_def Let_def)
qed

lemma paceFires_ok: "muxOk F s \<Longrightarrow> muxOk F (paceFires C c s)"
proof -
  assume "muxOk F s"
  then have "preOk c F s" using muxOk_preOk by blast
  then have pre: "preOk c F (clearOpenPaceTimer c s)" unfolding clearOpenPaceTimer_def by (rule preOk_setConn) simp
  then have "preOk c F (snd (sendNextOpen C c (clearOpenPaceTimer c s)))" using sendNextOpen_pre by blast
  then show ?thesis unfolding paceFires_def Let_def using flushOpens_ok [OF pre] paced_ok by simp
qed

subsection \<open>Letting a connection go\<close>

lemma release_ok:
  assumes ok: "muxOk F s"
  shows "muxOk F (release c s)"
proof (cases "channels (conns s c) \<noteq> [] \<or> pendingOpens (conns s c) \<noteq> [] \<or> jget (pools s) (connUrl (conns s c)) = None")
  case True
  then show ?thesis using ok by (auto simp: release_def split: option.split)
next
  case False
  let ?u = "connUrl (conns s c)"
  obtain pool where pool: "jget (pools s) ?u = Some pool" using False by auto
  define P where "P = (if remove1 c pool = [] then jdel (pools s) ?u else jset (pools s) ?u (remove1 c pool))"
  have r: "release c s = s\<lparr>pools := P\<rparr>" using False pool by (simp add: release_def Let_def P_def)
  have getP: "jget P u = (if u = ?u then (if remove1 c pool = [] then None else Some (remove1 c pool)) else jget (pools s) u)" for u
    by (simp add: P_def)
  have ps: "poolsOk s" using ok by (simp add: muxOk_def)
  have "connOk (s\<lparr>pools := P\<rparr>) d" for d
  proof -
    have "pooledIn P (connUrl (conns s d)) d" if "d \<noteq> c" "pooledIn (pools s) (connUrl (conns s d)) d"
    proof -
      obtain p where p: "jget (pools s) (connUrl (conns s d)) = Some p" "d \<in> set p" using \<open>pooledIn _ _ _\<close> by (auto simp: pooledIn_def)
      show ?thesis
      proof (cases "connUrl (conns s d) = ?u")
        case True
        then have "d \<in> set (remove1 c pool)" using p pool \<open>d \<noteq> c\<close> by simp
        then have "remove1 c pool \<noteq> []" by auto
        then show ?thesis using True \<open>d \<in> set (remove1 c pool)\<close> by (simp add: pooledIn_def getP)
      next
        case False
        then show ?thesis using p unfolding pooledIn_def getP by simp
      qed
    qed
    then show ?thesis using muxOk_conn [OF ok, of d] False by (cases "d = c") (auto simp: connOk_def)
  qed
  moreover have "p \<noteq> [] \<and> distinct p \<and> (\<forall>d \<in> set p. d < nextConn s \<and> connUrl (conns s d) = u)" if p: "jget P u = Some p" for u p
  proof (cases "u = ?u")
    case True
    then have "p = remove1 c pool" "p \<noteq> []" using p unfolding getP by (simp_all split: if_splits)
    then show ?thesis using ps pool set_remove1_subset [of c pool] True unfolding poolsOk_def by auto
  next
    case False
    then show ?thesis using ps p unfolding getP poolsOk_def by simp
  qed
  then have "poolsOk (s\<lparr>pools := P\<rparr>)" by (simp add: poolsOk_def)
  ultimately show ?thesis unfolding r using ok by (simp add: muxOk_def vsocksOk_def flightOk_def)
qed

lemma dropSocket_ok:
  assumes pre: "preOk c F s" and none: "channels (conns s c) = []"
  shows "muxOk F (dropSocket c s)"
proof -
  let ?e = "setConn c (\<lambda>k. k\<lparr>pendingOpens := []\<rparr>) s" and ?s = "setConn c (\<lambda>k. k\<lparr>ws := None\<rparr>) s"
  have e: "muxOk F ?e" using pre by (simp add: preOk_def)
  have "muxOk F (setConn c (\<lambda>k. k\<lparr>ws := None, pendingOpens := pendingOpens (conns s c)\<rparr>) ?e)"
    by (rule muxOk_setConn [OF e refl refl]) (use none in \<open>simp_all add: sockOk_def\<close>)
  then have s: "muxOk F ?s" by (simp add: setConn_def)
  have "muxOk F (discardSocket w ?s)" if w: "ws (conns s c) = Some w" for w
  proof -
    have "sockConn (socks s w) = c" using muxOk_sock [OF e, of c] w by (simp add: sockOk_def)
    moreover have "sockConn (socks s w) = d" if "ws (conns s d) = Some w" "d \<noteq> c" for d
      using muxOk_sock [OF e, of d] that by (simp add: sockOk_def)
    ultimately have "ws (conns ?s d) \<noteq> Some w" for d by (cases "d = c") auto
    then show ?thesis unfolding discardSocket_def by (rule muxOk_unusedSock [OF s])
  qed
  then show ?thesis using s by (auto simp: dropSocket_def Let_def split: option.split)
qed

lemmas timer_defs = stopHeartbeat_def resetOpenBackoff_def clearOpenRetryTimer_def clearOpenPaceTimer_def

lemma teardown_ok:
  assumes "preOk c F s" "channels (conns s c) = []"
  shows "muxOk F (teardown c s)"
proof -
  have "preOk c F (setConn c (\<lambda>k. k\<lparr>partials := [], chunked := False\<rparr>)
      (clearOpenPaceTimer c (resetOpenBackoff c (stopHeartbeat c s))))"
    unfolding timer_defs setConn_twice by (rule preOk_setConn [OF assms(1)]) simp
  then show ?thesis unfolding teardown_def
    using assms(2) by (intro release_ok dropSocket_ok) (simp_all add: timer_defs)
qed

lemma teardownIfIdle_ok:
  assumes "muxOk F s"
  shows "muxOk F (teardownIfIdle c s)"
proof -
  have "preOk c F s" using assms muxOk_preOk by blast
  then show ?thesis unfolding teardownIfIdle_def using assms teardown_ok scheduleOpenRetry_ok by auto
qed

lemma retryFires_ok: "muxOk F s \<Longrightarrow> muxOk F (retryFires C c s)"
proof -
  assume "muxOk F s"
  then have "preOk c F s" using muxOk_preOk by blast
  then have "preOk c F (clearOpenRetryTimer c s)" unfolding clearOpenRetryTimer_def by (rule preOk_setConn) simp
  then show ?thesis unfolding retryFires_def by (intro teardownIfIdle_ok flushOpens_ok)
qed

subsection \<open>Providers that use the interface\<close>

text \<open>The handlers of the providers may do anything that keeps the invariant, whatever is in flight.\<close>

locale mux_client =
  fixes cl :: client
  assumes client_ok: "muxOk F s \<Longrightarrow> muxOk F (cl v e s)"
begin

lemma notify_ok: "muxOk F s \<Longrightarrow> muxOk F (notify cl v e s)"
  unfolding notify_def by (rule client_ok) (simp add: muxOk_log)

lemma deliverError_ok: "muxOk F s \<Longrightarrow> muxOk F (deliverError cl v r s)"
  unfolding deliverError_def by (rule notify_ok)

lemma deliverData_ok: "muxOk F s \<Longrightarrow> muxOk F (deliverData cl v d s)"
  unfolding deliverData_def by (rule notify_ok)

lemma deliverClose_ok:
  assumes "muxOk (insert v F) s"
  shows "muxOk (F - {v}) (deliverClose cl v code s)"
proof (cases "readyState (vsocks s v) = WsClosed")
  case True
  then have "setV v (\<lambda>k. k\<lparr>readyState := WsClosed\<rparr>) s = s" by (simp add: setV_def fun_upd_idem)
  then show ?thesis using muxOk_closeFlying [OF assms insertI1, of "F - {v}"] True by (auto simp: deliverClose_def)
next
  case False
  then show ?thesis using notify_ok [OF muxOk_closeFlying [OF assms insertI1, of "F - {v}"]] by (auto simp: deliverClose_def)
qed

lemma failAll_ok: "muxOk (F \<union> set vs) s \<Longrightarrow> distinct vs \<Longrightarrow> F \<inter> set vs = {} \<Longrightarrow> muxOk F (failAll cl vs s)"
proof (induction vs arbitrary: s)
  case Nil
  then show ?case by simp
next
  case (Cons v vs)
  have eq: "insert v (F \<union> set vs) = F \<union> set (v # vs)" "(F \<union> set vs) - {v} = F \<union> set vs" using Cons.prems(2,3) by auto
  have "muxOk (insert v (F \<union> set vs)) (deliverError cl v None s)"
    unfolding eq(1) by (rule deliverError_ok [OF Cons.prems(1)])
  from deliverClose_ok [OF this] have "muxOk (F \<union> set vs) (deliverClose cl v CLOSE_CODE_TRANSPORT (deliverError cl v None s))"
    unfolding eq(2) .
  from Cons.IH [OF this] show ?case using Cons.prems(2,3) by simp
qed

end

lemma muxOk_values:
  assumes "channelsOk V n c k"
  shows "distinct (map snd (filter P (channels k)))"
    "set (map snd (filter P (channels k))) = {v. \<exists>ch. jget (channels k) ch = Some v \<and> P (ch, v)}"
proof -
  have wf: "jwf (channels k)" using assms by (simp add: channelsOk_def)
  have mem: "(ch, v) \<in> set (channels k) \<longleftrightarrow> jget (channels k) ch = Some v" for ch v
    using wf by (metis map_of_eq_Some_iff)
  have "inj_on snd (set (filter P (channels k)))"
  proof (intro inj_onI)
    fix p q assume "p \<in> set (filter P (channels k))" "q \<in> set (filter P (channels k))" "snd p = snd q"
    then show "p = q" using channelsOk_D [OF assms] mem by (metis filter_is_subset prod.collapse subsetD)
  qed
  then show "distinct (map snd (filter P (channels k)))" using wf by (simp add: distinct_map)
  show "set (map snd (filter P (channels k))) = {v. \<exists>ch. jget (channels k) ch = Some v \<and> P (ch, v)}"
    using mem by force
qed

text \<open>Taking off channels while the progress of the queue is open.\<close>

lemma preOk_takeOff:
  assumes pre: "preOk c F s"
    and same: "\<And>k. connUrl (f k) = connUrl k \<and> nextChannelId (f k) = nextChannelId k \<and> ws (f k) = ws k"
    and ch: "jwf (channels (f (conns s c)))" "length (channels (f (conns s c))) \<le> length (channels (conns s c))"
      "\<And>ch. jget (channels (f (conns s c))) ch = (if ch \<in> D then None else jget (channels (conns s c)) ch)"
  shows "preOk c (F \<union> {v. \<exists>ch \<in> D. jget (channels (conns s c)) ch = Some v}) (setConn c f s)"
proof -
  let ?e = "\<lambda>k. k\<lparr>pendingOpens := []\<rparr>"
  let ?f = "\<lambda>k. ?e (f (k\<lparr>pendingOpens := pendingOpens (conns s c)\<rparr>))"
  have ok: "muxOk F (setConn c ?e s)" using pre by (simp add: preOk_def)
  have "muxOk (F \<union> {v. \<exists>ch \<in> D. jget (channels (conns (setConn c ?e s) c)) ch = Some v}) (setConn c ?f (setConn c ?e s))"
    by (rule muxOk_takeOff [OF ok refl refl])
      (use same ch muxOk_conn [OF ok, of c] takeOff_nonempty [OF ch(3)] in \<open>auto simp: connOk_def sockOk_def\<close>)
  then show ?thesis by (simp add: preOk_def setConn_def)
qed

lemma setV_setConn: "setV v f (setConn c g s) = setConn c g (setV v f s)"
  by (cases s) (simp add: setV_def setConn_def)

lemma preOk_closeFlying:
  "preOk c G s \<Longrightarrow> v \<in> G \<Longrightarrow> G - {v} \<subseteq> F \<Longrightarrow> F \<subseteq> G \<Longrightarrow> preOk c F (setV v (\<lambda>k. k\<lparr>readyState := WsClosed\<rparr>) s)"
  using muxOk_closeFlying [of G "setConn c (\<lambda>k. k\<lparr>pendingOpens := []\<rparr>) s" v F]
  by (simp add: preOk_def setV_setConn)

lemma length_jdel_le: "length (jdel m k) \<le> length m"
  by (induction m) auto

text \<open>Closing a virtual socket, in flight or not.\<close>

lemma vclose_ok:
  assumes ok: "muxOk F s"
  shows "muxOk F (vclose C v s)"
proof (cases "readyState (vsocks s v) = WsClosed")
  case True
  then show ?thesis using ok by (simp add: vclose_def)
next
  case False
  let ?c = "vconn (vsocks s v)" and ?ch = "channelId (vsocks s v)"
  let ?f = "\<lambda>k. k\<lparr>pendingOpens := jdel (pendingOpens k) ?ch, channels := jdel (channels k) ?ch, partials := jdel (partials k) ?ch\<rparr>"
  let ?G = "F \<union> {u. \<exists>ch \<in> {?ch}. jget (channels (conns s ?c)) ch = Some u}"
  let ?s1 = "setConn ?c ?f (setV v (\<lambda>k. k\<lparr>readyState := WsClosed\<rparr>) s)"
  have vs: "vsocksOk F s" "flightOk F s" using ok by (simp_all add: muxOk_def)
  have v1: "v < nextVsock s" using vs(1) False unfolding vsocksOk_def by (meson leI)
  then have v: "v < nextVsock s" "v \<in> F \<or> jget (channels (conns s ?c)) ?ch = Some v"
    using vs(1) False unfolding vsocksOk_def by blast+
  have only: "u = v" if "jget (channels (conns s ?c)) ?ch = Some u" for u
    using channelsOk_D [OF muxOk_channels [OF ok] that] v(1) vs(1) unfolding vsocksOk_def inj_on_def by auto
  note pre_s = iffD1 [OF muxOk_preOk ok, of ?c, THEN conjunct1] and prog_s = iffD1 [OF muxOk_preOk ok, of ?c, THEN conjunct2]
  have "jwf (channels (conns s ?c))" by (rule muxOk_jwf [OF ok])
  then have "preOk ?c ?G (setConn ?c ?f s)"
    by (intro preOk_takeOff [where f = ?f and D = "{?ch}", OF pre_s]) (simp_all add: length_jdel_le)
  moreover have "v \<in> ?G" using v(2) by auto
  moreover have "?G - {v} \<subseteq> F" "F \<subseteq> ?G" using only by auto
  ultimately have "preOk ?c F (setV v (\<lambda>k. k\<lparr>readyState := WsClosed\<rparr>) (setConn ?c ?f s))"
    by (rule preOk_closeFlying)
  then have pre: "preOk ?c F ?s1" by (simp only: setV_setConn)
  define s2 where "s2 = (if wsOpen ?s1 ?c then wsSend ?c (encodeClose C ?ch) ?s1 else ?s1)"
  have pre2: "preOk ?c F s2" using pre preOk_wsSend by (simp add: s2_def)
  have "wsOpen ?s1 ?c = wsOpen s ?c" by simp
  then have "progress s2 ?c" using prog_s unfolding progress_def s2_def by auto
  then have "muxOk F s2" using pre2 muxOk_preOk by blast
  moreover have "vclose C v s = (if channels (conns s2 ?c) = [] \<and> pendingOpens (conns s2 ?c) = [] then teardown ?c s2 else s2)"
    using False by (simp add: vclose_def closeChannel_def Let_def s2_def)
  ultimately show ?thesis using teardown_ok [OF pre2] by auto
qed

lemma vsend_ok: "muxOk F s \<Longrightarrow> muxOk F (vsend C v data s)"
proof -
  assume ok: "muxOk F s"
  have "muxOk F s \<Longrightarrow> muxOk F (fold (wsSend c) bufs s)" for c bufs s
    by (induction bufs arbitrary: s) (simp_all add: muxOk_wsSend)
  then show ?thesis using ok by (simp add: vsend_def sendData_def)
qed

lemma not_flying: "muxOk F s \<Longrightarrow> jget (channels (conns s c)) ch = Some v \<Longrightarrow> v \<notin> F"
  unfolding muxOk_def flightOk_def by blast

lemma forgetChannel_ok:
  assumes ok: "muxOk F s"
  shows "muxOk (F \<union> {v. jget (channels (conns s c)) ch = Some v}) (forgetChannel c ch s)"
proof -
  have "muxOk (F \<union> {v. \<exists>d \<in> {ch}. jget (channels (conns s c)) d = Some v}) (forgetChannel c ch s)"
    unfolding forgetChannel_def
    by (rule muxOk_takeOff [where D = "{ch}", OF ok refl refl])
      (use muxOk_jwf [OF ok, of c] muxOk_conn [OF ok, of c] in \<open>auto simp: length_jdel_le connOk_def sockOk_def\<close>)
  then show ?thesis by simp
qed

lemma muxOk_irrelevant:
  assumes "muxOk F s" "\<And>k. connUrl (f k) = connUrl k \<and> channels (f k) = channels k \<and> nextChannelId (f k) = nextChannelId k
      \<and> ws (f k) = ws k \<and> pendingOpens (f k) = pendingOpens k \<and> openRetryTimer (f k) = openRetryTimer k
      \<and> openPaceTimer (f k) = openPaceTimer k"
  shows "muxOk F (setConn c f s)"
  by (rule muxOk_setConn [OF assms(1) refl refl])
    (use assms(2) muxOk_conn [OF assms(1), of c] in \<open>auto simp: connOk_def sockOk_def\<close>)

lemma setOpen_ok:
  assumes ok: "muxOk F s" and "readyState (vsocks s v) \<noteq> WsClosed"
  shows "muxOk F (setV v (\<lambda>k. k\<lparr>readyState := WsOpen\<rparr>) s)"
proof -
  let ?s = "setV v (\<lambda>k. k\<lparr>readyState := WsOpen\<rparr>) s"
  have same: "vconn (vsocks ?s u) = vconn (vsocks s u)" "channelId (vsocks ?s u) = channelId (vsocks s u)"
      "readyState (vsocks ?s u) = WsClosed \<longleftrightarrow> readyState (vsocks s u) = WsClosed" for u
    using assms(2) by simp_all
  have "connOk ?s c" for c
    using muxOk_conn [OF ok, of c] unfolding connOk_def channelsOk_def same by simp
  moreover have "vsocksOk F ?s" "flightOk F ?s" "poolsOk ?s"
    using ok unfolding muxOk_def vsocksOk_def flightOk_def poolsOk_def same by simp_all
  ultimately show ?thesis by (simp add: muxOk_def)
qed

context mux_client
begin

lemma handleDown_ok:
  assumes "muxOk F s"
  shows "muxOk F (handleDown cl c s)"
proof -
  let ?s1 = "clearOpenPaceTimer c (resetOpenBackoff c (stopHeartbeat c s))"
  let ?f = "\<lambda>k. k\<lparr>channels := [], pendingOpens := [], partials := [], chunked := False\<rparr>"
  let ?vs = "map snd (channels (conns s c))"
  have pre: "preOk c F ?s1" unfolding timer_defs setConn_twice
    by (rule preOk_setConn [OF iffD1 [OF muxOk_preOk assms, THEN conjunct1]]) simp
  have chs: "channelsOk (vsocks s) (nextVsock s) c (conns s c)" by (rule muxOk_channels [OF assms])
  have same: "channels (conns ?s1 c) = channels (conns s c)" by (simp add: timer_defs)
  have vs: "set ?vs = {v. \<exists>ch \<in> UNIV. jget (channels (conns ?s1 c)) ch = Some v}" "distinct ?vs"
    using muxOk_values [OF chs, of "\<lambda>_. True"] unfolding same by simp_all
  have "preOk c (F \<union> set ?vs) (setConn c ?f ?s1)"
    unfolding vs(1) by (intro preOk_takeOff [where f = ?f and D = UNIV, OF pre]) simp_all
  then have "muxOk (F \<union> set ?vs) (dropSocket c (setConn c ?f ?s1))" by (rule dropSocket_ok) simp
  moreover have "F \<inter> set ?vs = {}"
    using not_flying [OF assms] muxOk_values(2) [OF chs, of "\<lambda>_. True"] by auto
  ultimately have "muxOk F (failAll cl ?vs (dropSocket c (setConn c ?f ?s1)))" using vs(2) failAll_ok by blast
  then show ?thesis unfolding handleDown_def Let_def same by (rule release_ok)
qed

lemma receivePart_ok: "muxOk F s \<Longrightarrow> muxOk F (receivePart C cl c ch payload s)"
  unfolding receivePart_def Let_def
  by (auto split: option.split prod.split intro!: vclose_ok deliverError_ok muxOk_irrelevant)

lemma receiveData_ok: "muxOk F s \<Longrightarrow> muxOk F (receiveData cl c ch payload s)"
  unfolding receiveData_def Let_def
  by (auto split: option.split prod.split intro!: deliverData_ok muxOk_irrelevant)

lemma deliverOpen_ok: "muxOk F s \<Longrightarrow> muxOk F (deliverOpen cl v s)"
  unfolding deliverOpen_def by (auto intro!: notify_ok setOpen_ok)

lemma receiveOpenOk_ok:
  assumes "muxOk F s"
  shows "muxOk F (receiveOpenOk C cl c ch s)"
proof -
  have "preOk c F (resetOpenBackoff c s)" unfolding timer_defs setConn_twice
    by (rule preOk_setConn [OF iffD1 [OF muxOk_preOk assms, THEN conjunct1]]) simp
  then have "muxOk F (if now s \<ge> openBlockedUntil (conns s c) then flushOpens C c (resetOpenBackoff c s) else s)"
    using assms flushOpens_ok by simp
  then show ?thesis unfolding receiveOpenOk_def Let_def by (auto split: option.split intro!: deliverOpen_ok)
qed

lemma failOne_ok:
  assumes "muxOk (F \<union> {v. jget m ch = Some v}) s" "\<And>v. jget m ch = Some v \<Longrightarrow> v \<notin> F"
    and "\<And>v s. muxOk (insert v F) s \<Longrightarrow> muxOk (insert v F) (g v s)"
  shows "muxOk F (case jget m ch of None \<Rightarrow> s | Some v \<Rightarrow> deliverClose cl v CLOSE_CODE_TRANSPORT (g v s))"
proof (cases "jget m ch")
  case None
  then show ?thesis using assms(1) by simp
next
  case (Some v)
  then have "F \<union> {v. jget m ch = Some v} = insert v F" "F - {v} = F" using assms(2) by auto
  then show ?thesis using deliverClose_ok [OF assms(3), of v s] assms(1) Some by simp
qed

lemma receiveOpenErr_ok:
  assumes "muxOk F s"
  shows "muxOk F (receiveOpenErr cl c ch reason s)"
proof -
  let ?s1 = "if reason = OPEN_ERR_REJECTED \<or> reason = OPEN_ERR_UNSPECIFIED then backOffOpens c s else s"
  have ok: "muxOk F ?s1" using assms unfolding backOffOpens_def by (auto intro!: muxOk_irrelevant simp: Let_def)
  show ?thesis unfolding receiveOpenErr_def Let_def
    by (intro teardownIfIdle_ok failOne_ok forgetChannel_ok [OF ok] deliverError_ok not_flying [OF ok])
qed

lemma receiveClose_ok:
  assumes "muxOk F s"
  shows "muxOk F (receiveClose cl c ch s)"
proof -
  have "muxOk F (case jget (channels (conns s c)) ch of None \<Rightarrow> forgetChannel c ch s
      | Some v \<Rightarrow> deliverClose cl v CLOSE_CODE_TRANSPORT ((\<lambda>_ s. s) v (forgetChannel c ch s)))"
    by (rule failOne_ok [OF forgetChannel_ok [OF assms] not_flying [OF assms]])
  then show ?thesis unfolding receiveClose_def Let_def by (intro teardownIfIdle_ok) simp
qed

lemma receive_ok:
  assumes "muxOk F s"
  shows "muxOk F (receive C cl c buf s)"
proof -
  have ok: "muxOk F (setConn c (\<lambda>k. k\<lparr>lastActivity := now s\<rparr>) s)" by (rule muxOk_irrelevant [OF assms]) simp
  then have "muxOk F (setConn c (\<lambda>k. k\<lparr>chunked := True\<rparr>) (setConn c (\<lambda>k. k\<lparr>lastActivity := now s\<rparr>) s))"
    by (rule muxOk_irrelevant) simp
  then show ?thesis
    using receivePart_ok [OF ok] receiveData_ok [OF ok] receiveOpenOk_ok [OF ok] receiveOpenErr_ok [OF ok] receiveClose_ok [OF ok] ok
    unfolding receive_def Let_def by (auto split: option.split frame.split)
qed

lemma failOpenedChannels_ok:
  assumes ok: "muxOk F s"
  shows "muxOk F (failOpenedChannels cl c s)"
proof -
  let ?P = "\<lambda>(ch, _ :: nat). \<not> jhas (pendingOpens (conns s c)) ch"
  let ?opened = "filter ?P (channels (conns s c))"
  let ?D = "{ch. \<not> jhas (pendingOpens (conns s c)) ch}"
  have wf: "jwf (channels (conns s c))" by (rule muxOk_jwf [OF ok])
  have fold_key: "fold (\<lambda>(ch, _ :: nat) m. jdel m ch) l m = fold (\<lambda>ch m. jdel m ch) (map fst l) m" for l and m :: "(nat, nat) jmap"
    by (induction l arbitrary: m) auto
  have len: "length (fold (\<lambda>ch m. jdel m ch) l m) \<le> length m" for l and m :: "(nat, nat) jmap"
    by (induction l arbitrary: m) (simp, metis fold_simps(2) le_trans length_jdel_le)
  have wf': "jwf m \<Longrightarrow> jwf (fold (\<lambda>ch m. jdel m ch) l m)" for l and m :: "(nat, nat) jmap"
    by (induction l arbitrary: m) auto
  have get: "jget (fold (\<lambda>(ch, _) m. jdel m ch) ?opened (channels (conns s c))) ch
      = (if ch \<in> ?D then None else jget (channels (conns s c)) ch)" for ch
    unfolding fold_key jm.get_remove_all using jhas_iff [of "channels (conns s c)" ch] by force
  have "muxOk (F \<union> {v. \<exists>ch \<in> ?D. jget (channels (conns s c)) ch = Some v})
      (setConn c (\<lambda>k. k\<lparr>channels := fold (\<lambda>(ch, _) m. jdel m ch) ?opened (channels k)\<rparr>) s)"
    by (rule muxOk_takeOff [where D = ?D, OF ok refl refl])
      (use wf wf' len get muxOk_conn [OF ok, of c] in \<open>auto simp: connOk_def sockOk_def fold_key\<close>)
  moreover have "set (map snd ?opened) = {v. \<exists>ch \<in> ?D. jget (channels (conns s c)) ch = Some v}"
      "distinct (map snd ?opened)"
    using muxOk_values [OF muxOk_channels [OF ok, of c], of ?P] by auto
  moreover have "F \<inter> {v. \<exists>ch \<in> ?D. jget (channels (conns s c)) ch = Some v} = {}" using not_flying [OF ok] by auto
  ultimately show ?thesis unfolding failOpenedChannels_def Let_def by (intro failAll_ok) simp_all
qed

end

subsection \<open>New virtual sockets\<close>

text \<open>Registering a new virtual socket, with whatever else changes of the connection.\<close>

lemma muxOk_register:
  assumes ok: "muxOk F s" and c: "c < nextConn s" "pooledIn (pools s) (connUrl (conns s c)) c"
      "length (channels (conns s c)) < MAX_CHANNELS_PER_CONNECTION"
    and v: "v = nextVsock s" and k: "k = conns s c" "ch = nextChannelId k"
    and k': "connUrl k' = connUrl k" "nextChannelId k' = Suc ch" "channels k' = jset (channels k) ch v" "ws k' \<noteq> None"
      "sockOk (socks s) (nextSock s) c k'"
  shows "muxOk F (s\<lparr>vsocks := (vsocks s)(v := \<lparr>readyState = WsConnecting, vconn = c, channelId = ch\<rparr>), nextVsock := Suc v,
      conns := (conns s)(c := k')\<rparr>)" (is "muxOk F ?s")
proof -
  have vs: "vsocksOk F s" and fl: "flightOk F s" using ok by (simp_all add: muxOk_def)
  have chs: "channelsOk (vsocks s) (nextVsock s) d (conns s d)" for d by (rule muxOk_channels [OF ok])
  have old: "u < nextVsock s \<and> u \<noteq> v" if "jget (channels (conns s d)) x = Some u" for d x u
    using channelsOk_D [OF chs that] v by simp
  have fresh: "(vconn (vsocks s u), channelId (vsocks s u)) \<noteq> (c, ch)" if "u < nextVsock s" for u
    using vs that unfolding vsocksOk_def k by auto
  have "jget (channels k) ch = None"
  proof (cases "jget (channels k) ch")
    case (Some u)
    then show ?thesis using channelsOk_D [OF chs, of c ch u] fresh [of u] k by simp
  qed simp
  then have len: "length (channels k') \<le> MAX_CHANNELS_PER_CONNECTION" using c(3) k(1) k'(3) by (simp add: length_jset)
  have "connOk ?s d" for d
  proof (cases "d = c")
    case True
    have "channelsOk (vsocks ?s) (nextVsock ?s) c k'"
      using chs [of c] len old [of c] v unfolding channelsOk_def k'(3) k(1) by (auto simp: less_Suc_eq)
    then show ?thesis using True c(2) k' k(1) by (simp add: connOk_def)
  next
    case False
    have "channelsOk (vsocks ?s) (nextVsock ?s) d (conns s d)"
      using chs [of d] old [of d] v unfolding channelsOk_def by (auto simp: less_Suc_eq)
    then show ?thesis using False muxOk_conn [OF ok, of d] by (simp add: connOk_def)
  qed
  moreover have "vsocksOk F ?s"
  proof -
    have inj: "inj_on (\<lambda>u. (vconn (vsocks s u), channelId (vsocks s u))) {..<nextVsock s}" using vs by (simp add: vsocksOk_def)
    have "inj_on (\<lambda>u. (vconn (vsocks ?s u), channelId (vsocks ?s u))) {..<nextVsock ?s}"
    proof (intro inj_onI)
      fix x y assume xy: "x \<in> {..<nextVsock ?s}" "y \<in> {..<nextVsock ?s}"
        "(vconn (vsocks ?s x), channelId (vsocks ?s x)) = (vconn (vsocks ?s y), channelId (vsocks ?s y))"
      show "x = y"
      proof (cases "x = v \<or> y = v")
        case True
        then show ?thesis using xy fresh [of x] fresh [of y] v by (auto simp: less_Suc_eq split: if_splits)
      next
        case False
        then show ?thesis using xy inj_onD [OF inj, of x y] v by (simp add: less_Suc_eq)
      qed
    qed
    moreover have "vconn (vsocks ?s u) < nextConn ?s \<and> channelId (vsocks ?s u) < nextChannelId (conns ?s (vconn (vsocks ?s u)))
        \<and> (readyState (vsocks ?s u) \<noteq> WsClosed \<longrightarrow> u \<in> F \<or> jget (channels (conns ?s (vconn (vsocks ?s u)))) (channelId (vsocks ?s u)) = Some u)"
      if "u < nextVsock ?s" for u
    proof (cases "u = v")
      case True
      then show ?thesis using c(1) k' by simp
    next
      case False
      then have u: "u < nextVsock s" using that v by simp
      then show ?thesis using vs fresh [OF u] False k' k unfolding vsocksOk_def by (auto simp: less_Suc_eq)
    qed
    ultimately show ?thesis using vs v by (simp add: vsocksOk_def)
  qed
  moreover have "flightOk F ?s" using fl k' v unfolding flightOk_def k(1) by (auto simp: less_Suc_eq)
  moreover have "poolsOk ?s" using ok k' k(1) unfolding muxOk_def poolsOk_def by auto
  ultimately show ?thesis by (simp add: muxOk_def)
qed

lemma acquire_ok:
  assumes ok: "muxOk F s" and a: "acquire url s = (c, s')"
  shows "muxOk F s' \<and> c < nextConn s' \<and> pooledIn (pools s') (connUrl (conns s' c)) c
    \<and> length (channels (conns s' c)) < MAX_CHANNELS_PER_CONNECTION"
proof -
  define pool where "pool = (case jget (pools s) url of Some p \<Rightarrow> p | None \<Rightarrow> [])"
  have ps: "\<And>c. c \<in> set pool \<Longrightarrow> c < nextConn s \<and> connUrl (conns s c) = url \<and> pooledIn (pools s) url c" "distinct pool"
    using ok by (cases "jget (pools s) url"; auto simp: muxOk_def poolsOk_def pool_def pooledIn_def)+
  show ?thesis
  proof (cases "find (\<lambda>c. length (channels (conns s c)) < MAX_CHANNELS_PER_CONNECTION) pool")
    case (Some d)
    then have "c = d" "s' = s" using a unfolding acquire_def pool_def [symmetric] Let_def by simp_all
    moreover have "d \<in> set pool" "length (channels (conns s d)) < MAX_CHANNELS_PER_CONNECTION"
      using Some by (auto simp: find_Some_iff)
    ultimately show ?thesis using ok ps by simp
  next
    case None
    then have c: "c = nextConn s" and s': "s' = s\<lparr>conns := (conns s)(nextConn s := newConn url), nextConn := Suc (nextConn s),
        pools := jset (pools s) url (pool @ [nextConn s])\<rparr>"
      using a unfolding acquire_def pool_def [symmetric] Let_def by auto
    have unused: "channels (conns s (nextConn s)) = []"
    proof (rule ccontr)
      assume "channels (conns s (nextConn s)) \<noteq> []"
      then have "pooledIn (pools s) (connUrl (conns s (nextConn s))) (nextConn s)"
        using muxOk_conn [OF ok] by (simp add: connOk_def)
      then show False using ok unfolding muxOk_def poolsOk_def pooledIn_def by blast
    qed
    have keep: "pooledIn (pools s') u d" if "pooledIn (pools s) u d" for u d
      using that unfolding s' pooledIn_def pool_def by (auto split: option.splits)
    have "connOk s' d" for d
      using muxOk_conn [OF ok, of d] keep [of "connUrl (conns s d)" d]
      by (cases "d = nextConn s") (auto simp: connOk_def s' newConn_def channelsOk_def sockOk_def)
    moreover have "vsocksOk F s'"
      using ok unused unfolding muxOk_def vsocksOk_def s' by (auto simp: less_Suc_eq)
    moreover have "flightOk F s'" using ok unfolding muxOk_def flightOk_def s' by (auto simp: newConn_def)
    moreover have "poolsOk s'"
      unfolding poolsOk_def
    proof (intro allI impI)
      fix u p assume p: "jget (pools s') u = Some p"
      show "p \<noteq> [] \<and> distinct p \<and> (\<forall>d \<in> set p. d < nextConn s' \<and> connUrl (conns s' d) = u)"
      proof (cases "u = url")
        case True
        then show ?thesis using p ps ps(1) [of "nextConn s"] unfolding s' by (auto simp: newConn_def less_Suc_eq)
      next
        case False
        then have "jget (pools s) u = Some p" using p unfolding s' by simp
        then show ?thesis using ok unfolding muxOk_def poolsOk_def s' by (auto simp: less_Suc_eq)
      qed
    qed
    ultimately have "muxOk F s'" by (simp add: muxOk_def)
    then show ?thesis unfolding c s' by (simp add: newConn_def pooledIn_def MAX_CHANNELS_PER_CONNECTION_def)
  qed
qed

text \<open>A new real socket that no connection uses yet.\<close>

lemma muxOk_newSock:
  assumes ok: "muxOk F s"
  shows "muxOk F (s\<lparr>socks := (socks s)(nextSock s := k), nextSock := Suc (nextSock s)\<rparr>)"
proof -
  have "connOk (s\<lparr>socks := (socks s)(nextSock s := k), nextSock := Suc (nextSock s)\<rparr>) c" for c
    using muxOk_conn [OF ok, of c] by (auto simp: connOk_def sockOk_def)
  then show ?thesis using ok by (simp add: muxOk_def vsocksOk_def flightOk_def poolsOk_def)
qed

text \<open>A connection after \<open>register\<close>, with the queue entry of \<open>openChannel\<close>.\<close>

definition registered :: "nat \<Rightarrow> jstr \<Rightarrow> mux \<Rightarrow> mux" where
  "registered c path s = setConn c (\<lambda>k. k\<lparr>pendingOpens := jset (pendingOpens k) (nextChannelId (conns s c)) path\<rparr>) (snd (register c s))"

definition regConn :: "nat \<Rightarrow> jstr \<Rightarrow> mux \<Rightarrow> conn" where
  "regConn c path s = (let k = conns s c; ch = nextChannelId k
     in k\<lparr>nextChannelId := Suc ch, channels := jset (channels k) ch (nextVsock s), pendingOpens := jset (pendingOpens k) ch path\<rparr>)"

lemma registered_eq:
  "registered c path s = s\<lparr>vsocks := (vsocks s)(nextVsock s := \<lparr>readyState = WsConnecting, vconn = c, channelId = nextChannelId (conns s c)\<rparr>),
     nextVsock := Suc (nextVsock s), conns := (conns s)(c := regConn c path s)\<rparr>"
  by (cases s) (simp add: registered_def register_def regConn_def Let_def setConn_def)

lemma registered_live:
  assumes "muxOk F s" "c < nextConn s" "pooledIn (pools s) (connUrl (conns s c)) c"
    "length (channels (conns s c)) < MAX_CHANNELS_PER_CONNECTION" "ws (conns s c) \<noteq> None"
  shows "preOk c F (registered c path s)"
proof -
  have "sockOk (socks s) (nextSock s) c (regConn c path s\<lparr>pendingOpens := []\<rparr>)"
    using muxOk_sock [OF assms(1), of c] by (simp add: sockOk_def regConn_def Let_def)
  note muxOk_register [OF assms(1-4) refl refl refl _ _ _ _ this]
  then have "muxOk F (s\<lparr>vsocks := (vsocks s)(nextVsock s := \<lparr>readyState = WsConnecting, vconn = c, channelId = nextChannelId (conns s c)\<rparr>),
     nextVsock := Suc (nextVsock s), conns := (conns s)(c := regConn c path s\<lparr>pendingOpens := []\<rparr>)\<rparr>)"
    using assms(5) by (simp add: regConn_def Let_def)
  then show ?thesis by (simp add: preOk_def registered_eq setConn_def)
qed

text \<open>The state of \<open>ensureSocket\<close> once the new socket is in place.\<close>

definition resocketed :: "nat \<Rightarrow> mux \<Rightarrow> mux" where
  "resocketed c s =
    (let s1 = (case ws (conns s c) of Some w \<Rightarrow> discardSocket w s | None \<Rightarrow> s);
         s2 = s1\<lparr>socks := (socks s1)(nextSock s1 := \<lparr>sockState = WsConnecting, sockConn = c, listening = True, sentFrames = [], openedAt = 0\<rparr>),
                 nextSock := Suc (nextSock s1)\<rparr>
     in setConn c (\<lambda>k. k\<lparr>ws := Some (nextSock s1), chunked := False, partials := []\<rparr>) s2)"

lemma ensureSocket_eq:
  "ensureSocket cl c s =
    (if (case ws (conns s c) of Some w \<Rightarrow> sockState (socks s w) \<in> {WsOpen, WsConnecting} | None \<Rightarrow> False) then s
     else if ws (conns s c) \<noteq> None then failOpenedChannels cl c (resocketed c s) else resocketed c s)"
  by (simp add: ensureSocket_def resocketed_def Let_def)

lemma registered_resocketed:
  assumes ok: "muxOk F s" and c: "c < nextConn s" "pooledIn (pools s) (connUrl (conns s c)) c"
    "length (channels (conns s c)) < MAX_CHANNELS_PER_CONNECTION"
  shows "muxOk F (resocketed c (registered c path s))"
proof -
  let ?new = "\<lparr>sockState = WsConnecting, sockConn = c, listening = True, sentFrames = [], openedAt = 0\<rparr>"
  let ?a = "s\<lparr>socks := (socks s)(nextSock s := ?new), nextSock := Suc (nextSock s)\<rparr>"
  let ?k = "regConn c path s\<lparr>ws := Some (nextSock s), chunked := False, partials := []\<rparr>"
  let ?b = "?a\<lparr>vsocks := (vsocks s)(nextVsock s := \<lparr>readyState = WsConnecting, vconn = c, channelId = nextChannelId (conns s c)\<rparr>),
     nextVsock := Suc (nextVsock s), conns := (conns s)(c := ?k)\<rparr>"
  have a: "muxOk F ?a" by (rule muxOk_newSock [OF ok])
  have "sockOk (socks ?a) (nextSock ?a) c ?k" by (simp add: sockOk_def)
  note muxOk_register [where s = ?a and k' = ?k, OF a _ _ _ refl refl refl _ _ _ _ this]
  then have b: "muxOk F ?b" using c by (simp add: regConn_def Let_def)
  have used: "sockConn (socks s w) = d" "w < nextSock s" if "ws (conns s d) = Some w" for d w
    using muxOk_sock [OF ok, of d] that by (simp_all add: sockOk_def)
  have "muxOk F (discardSocket w ?b)" if w: "ws (conns s c) = Some w" for w
  proof -
    have "ws (conns ?b d) \<noteq> Some w" for d using used [OF w] used [of d w] by auto
    then show ?thesis unfolding discardSocket_def by (rule muxOk_unusedSock [OF b])
  qed
  moreover have "resocketed c (registered c path s) = (case ws (conns s c) of Some w \<Rightarrow> discardSocket w ?b | None \<Rightarrow> ?b)"
  proof (cases "ws (conns s c)")
    case None
    then show ?thesis by (cases s) (simp add: resocketed_def registered_eq setConn_def regConn_def Let_def)
  next
    case (Some w)
    then have "w \<noteq> nextSock s" using used by blast
    then show ?thesis using Some
      by (cases s) (simp add: resocketed_def registered_eq setConn_def setSock_def discardSocket_def regConn_def Let_def fun_upd_twist)
  qed
  ultimately show ?thesis using b by (auto split: option.split)
qed

context mux_client
begin

lemma newMuxWebSocket_ok:
  assumes "muxOk F s"
  shows "muxOk F (newMuxWebSocket C cl u s)"
proof -
  obtain c s1 where a: "acquire (muxUrl u) s = (c, s1)" by fastforce
  note ok = acquire_ok [OF assms a]
  let ?p = "pathname u @ search u" and ?r = "registered c (pathname u @ search u) s1"
  let ?e = "ensureSocket cl c ?r"
  have n: "newMuxWebSocket C cl u s = (if wsOpen ?e c then flushOpens C c ?e else ?e)"
    by (simp add: newMuxWebSocket_def a openChannel_def registered_def register_def Let_def)
  have same: "ws (conns ?r c) = ws (conns s1 c)" "socks ?r = socks s1" by (simp_all add: registered_eq regConn_def Let_def)
  have "preOk c F ?e \<and> (\<not> wsOpen ?e c \<longrightarrow> muxOk F ?e)"
  proof (cases "case ws (conns s1 c) of Some w \<Rightarrow> sockState (socks s1 w) \<in> {WsOpen, WsConnecting} | None \<Rightarrow> False")
    case True
    then have e: "?e = ?r" unfolding ensureSocket_eq same by simp
    have "ws (conns s1 c) \<noteq> None" using True by (auto split: option.splits)
    then have pre: "preOk c F ?r" using registered_live ok by blast
    then have "\<not> wsOpen ?r c \<longrightarrow> muxOk F ?r" using muxOk_preOk [of F ?r c] by (simp add: progress_def)
    then show ?thesis unfolding e using pre by blast
  next
    case False
    have "muxOk F (resocketed c ?r)" using registered_resocketed ok by blast
    then have "muxOk F ?e" unfolding ensureSocket_eq same using False failOpenedChannels_ok by simp
    then show ?thesis using muxOk_preOk by blast
  qed
  then show ?thesis unfolding n using flushOpens_ok by simp
qed

lemma onSockDown_ok: "muxOk F s \<Longrightarrow> muxOk F (onSockDown cl w s)"
  unfolding onSockDown_def Let_def by (simp add: handleDown_ok)

lemma onSockMessage_ok: "muxOk F s \<Longrightarrow> muxOk F (onSockMessage C cl w buf s)"
  unfolding onSockMessage_def Let_def by (simp add: receive_ok)

lemma heartbeatTick_ok: "muxOk F s \<Longrightarrow> muxOk F (heartbeatTick C cl c fails s)"
  unfolding heartbeatTick_def by (simp add: handleDown_ok muxOk_wsSend)

end

subsection \<open>Steps keep the invariant\<close>

lemma onSockOpen_ok:
  assumes ok: "muxOk F s"
  shows "muxOk F (onSockOpen C w s)"
proof -
  let ?f = "\<lambda>k. k\<lparr>sockState := WsOpen, openedAt := now s\<rparr>" and ?c = "sockConn (socks s w)"
  have used: "listening (socks s w) \<and> ?c = d" if "ws (conns s d) = Some w" for d
    using muxOk_sock [OF ok, of d] that by (simp add: sockOk_def)
  show ?thesis
  proof (cases "listening (socks s w) \<and> ws (conns s ?c) = Some w")
    case False
    then have "ws (conns s d) \<noteq> Some w" for d using used by blast
    then have "muxOk F (setSock w ?f s)" by (rule muxOk_unusedSock [OF ok])
    then show ?thesis using False by (auto simp: onSockOpen_def Let_def)
  next
    case True
    let ?e = "setConn ?c (\<lambda>k. k\<lparr>pendingOpens := []\<rparr>) s"
    have e: "muxOk F ?e" using ok muxOk_preOk preOk_def by blast
    have "sockOk (socks (setSock w ?f ?e)) (nextSock s) d (conns ?e d)" for d
    proof (cases "d = ?c")
      case False
      then have "ws (conns s d) \<noteq> Some w" using used by blast
      then show ?thesis using False muxOk_sock [OF e, of d] by (simp add: sockOk_def)
    next
      case same: True
      have "pendingOpens (conns ?e ?c) = []" by simp
      moreover have "ws (conns ?e ?c) = Some w" using True by simp
      moreover have "w < nextSock s" using muxOk_sock [OF ok, of ?c] True by (simp add: sockOk_def)
      ultimately show ?thesis unfolding same sockOk_def using True by (simp del: conns_setConn(1))
    qed
    then have "connOk (setSock w ?f ?e) d" for d using muxOk_conn [OF e, of d] unfolding connOk_def by simp
    then have "muxOk F (setSock w ?f ?e)" using e by (simp add: muxOk_def vsocksOk_def flightOk_def poolsOk_def)
    moreover have "setSock w ?f ?e = setConn ?c (\<lambda>k. k\<lparr>pendingOpens := []\<rparr>) (setSock w ?f s)"
      by (cases s) (simp add: setSock_def setConn_def)
    ultimately have "preOk ?c F (setSock w ?f s)" by (simp add: preOk_def)
    then have "preOk ?c F (setConn ?c (\<lambda>k. k\<lparr>lastActivity := now s, openBurstRemaining := OPEN_BURST_SIZE, heartbeatTimer := Some (now s + HEARTBEAT_INTERVAL_MS)\<rparr>)
        (setSock w ?f s))" by (rule preOk_setConn) simp
    from flushOpens_ok [OF this, of C] show ?thesis
      using True by (simp add: onSockOpen_def Let_def startHeartbeat_def stopHeartbeat_def)
  qed
qed

context mux_client
begin

lemma muxStep_ok:
  assumes "muxStep C cl s s'" "muxOk F s"
  shows "muxOk F s'"
  using assms
proof (induction rule: muxStep.induct)
  case (tick t s j)
  then show ?case by (simp add: muxOk_def connOk_def vsocksOk_def flightOk_def poolsOk_def)
next
  case (heartbeat s c t fails)
  have "muxOk F (setConn c (\<lambda>k. k\<lparr>heartbeatTimer := Some (now s + HEARTBEAT_INTERVAL_MS)\<rparr>) s)"
    by (rule muxOk_irrelevant [OF heartbeat.prems]) simp
  then show ?case by (rule heartbeatTick_ok)
qed (auto intro!: newMuxWebSocket_ok vsend_ok vclose_ok onSockOpen_ok onSockMessage_ok onSockDown_ok paceFires_ok retryFires_ok muxOk_setSock)

lemma muxReach_ok: "muxReach C cl s \<Longrightarrow> muxOk {} s"
proof (induction rule: muxReach.induct)
  case start
  then show ?case
    by (simp add: muxOk_def connOk_def channelsOk_def sockOk_def vsocksOk_def flightOk_def poolsOk_def muxInit_def newConn_def)
next
  case (step s s')
  then show ?case using muxStep_ok by blast
qed

end

text \<open>
  A provider that reconnects from within its close handler: on every close event it opens a new
  virtual socket at once. Its handler calls the multiplexer, whose callbacks reach handlers again;
  the nesting is bounded by a number.
\<close>

fun reconnecting :: "codec \<Rightarrow> parsed_url \<Rightarrow> nat \<Rightarrow> client" where
  "reconnecting C u 0 v e s = s"
| "reconnecting C u (Suc n) v e s =
    (case e of EvClose _ \<Rightarrow> newMuxWebSocket C (reconnecting C u n) u s | EvError _ \<Rightarrow> vclose C v s | _ \<Rightarrow> s)"

lemma reconnecting_client: "mux_client (reconnecting C u n)"
proof (induction n)
  case 0
  show ?case by unfold_locales simp
next
  case (Suc n)
  show ?case
    by unfold_locales (auto split: vevent.split intro!: mux_client.newMuxWebSocket_ok [OF Suc] vclose_ok)
qed

interpretation rec: mux_client "reconnecting C u n" for C u n
  by (rule reconnecting_client)

section \<open>Properties\<close>

text \<open>
  C9: In every interleaving of provider calls, socket events and timers, and with providers that
  call back in any way that keeps the bookkeeping (such as reconnecting from their close handler):
  no provider is left hanging (a virtual socket that is not closed is registered with its
  connection under its own channel, and that connection has a live real socket that reports to it
  and is the one a new provider of the server would find); no two channels are mixed up; no
  connection carries more than 512 channels; and an open that is queued on an open socket has a
  timer that will send it.
\<close>

theorem mux_no_orphans:
  assumes "mux_client cl" "muxReach C cl s" "v < nextVsock s" "readyState (vsocks s v) \<noteq> WsClosed" "c = vconn (vsocks s v)"
  shows "jget (channels (conns s c)) (channelId (vsocks s v)) = Some v
    \<and> (\<forall>ch u. jget (channels (conns s c)) ch = Some u \<longrightarrow> vconn (vsocks s u) = c \<and> channelId (vsocks s u) = ch)
    \<and> length (channels (conns s c)) \<le> 512
    \<and> (\<exists>pool. jget (pools s) (connUrl (conns s c)) = Some pool \<and> c \<in> set pool)
    \<and> (\<exists>w. ws (conns s c) = Some w \<and> listening (socks s w) \<and> sockConn (socks s w) = c
         \<and> (sockState (socks s w) = WsOpen \<and> pendingOpens (conns s c) \<noteq> [] \<longrightarrow>
              openRetryTimer (conns s c) \<noteq> None \<or> openPaceTimer (conns s c) \<noteq> None))"
proof -
  have ok: "muxOk {} s" by (rule mux_client.muxReach_ok [OF assms(1,2)])
  then have "vsocksOk {} s" by (simp add: muxOk_def)
  then have reg: "jget (channels (conns s c)) (channelId (vsocks s v)) = Some v"
    using assms(3-5) unfolding vsocksOk_def by blast
  then have "channels (conns s c) \<noteq> []" by auto
  then have live: "ws (conns s c) \<noteq> None" "pooledIn (pools s) (connUrl (conns s c)) c"
    using muxOk_conn [OF ok, of c] by (simp_all add: connOk_def)
  then obtain w where w: "ws (conns s c) = Some w" by blast
  have "sockOk (socks s) (nextSock s) c (conns s c)" by (rule muxOk_sock [OF ok])
  then have sock: "listening (socks s w)" "sockConn (socks s w) = c"
      "sockState (socks s w) = WsOpen \<and> pendingOpens (conns s c) \<noteq> [] \<longrightarrow> openRetryTimer (conns s c) \<noteq> None \<or> openPaceTimer (conns s c) \<noteq> None"
    using w unfolding sockOk_def by blast+
  have "length (channels (conns s c)) \<le> 512"
    using muxOk_channels [OF ok, of c] unfolding channelsOk_def MAX_CHANNELS_PER_CONNECTION_def by blast
  moreover have "\<forall>ch u. jget (channels (conns s c)) ch = Some u \<longrightarrow> vconn (vsocks s u) = c \<and> channelId (vsocks s u) = ch"
    using channelsOk_D [OF muxOk_channels [OF ok]] by blast
  ultimately show ?thesis using reg live(2) w sock unfolding pooledIn_def by blast
qed

definition sampleUrl :: parsed_url where
  "sampleUrl = \<lparr>protocol = lit ''wss:'', host = lit ''h'', pathname = lit ''/d/x/ws/x'', search = lit ''?token=t''\<rparr>"

lemma sample_state:
  "nextVsock (newMuxWebSocket C cl u muxInit) = 1 \<and> readyState (vsocks (newMuxWebSocket C cl u muxInit) 0) = WsConnecting
    \<and> vconn (vsocks (newMuxWebSocket C cl u muxInit) 0) = 0"
  by (simp add: newMuxWebSocket_def acquire_def register_def openChannel_def ensureSocket_def wsOpen_def muxInit_def newConn_def setConn_def Let_def)

theorem mux_no_orphans_witness:
  "\<exists>w. ws (conns (newMuxWebSocket leb128 (reconnecting leb128 sampleUrl 2) sampleUrl muxInit) 0) = Some w
     \<and> listening (socks (newMuxWebSocket leb128 (reconnecting leb128 sampleUrl 2) sampleUrl muxInit) w)"
proof -
  let ?cl = "reconnecting leb128 sampleUrl 2"
  let ?s = "newMuxWebSocket leb128 ?cl sampleUrl muxInit"
  have r: "muxReach leb128 ?cl ?s" by (rule muxReach.step [OF muxReach.start muxStep.newSocket])
  have "0 < nextVsock ?s" "readyState (vsocks ?s 0) \<noteq> WsClosed" "0 = vconn (vsocks ?s 0)" using sample_state by simp_all
  from mux_no_orphans [OF reconnecting_client r this] show ?thesis by blast
qed

subsection \<open>Split payloads\<close>

text \<open>The connection while the first \<open>n\<close> bytes of a split payload have arrived on channel \<open>ch\<close>.\<close>

definition partlyReceived :: "nat \<Rightarrow> nat \<Rightarrow> bytes list \<Rightarrow> nat \<Rightarrow> mux \<Rightarrow> mux" where
  "partlyReceived c ch parts n s = setConn c (\<lambda>k. k\<lparr>lastActivity := now s,
     partials := (if n = 0 then partials k else jset (partials k) ch (parts, n))\<rparr>) s"

lemma jdel_jset_absent: "jget m k = None \<Longrightarrow> jdel (jset m k v) k = m"
  by (induction m) (auto split: if_splits)

lemma receive_part:
  assumes "lib0 C" "ch \<le> MAX_SAFE" "jget (channels (conns s c)) ch = Some v" "jget (partials (conns s c)) ch = None"
    and "n = 0 \<longrightarrow> parts = []" "n + length p \<le> MAX_MESSAGE_BYTES" "p \<noteq> []"
  shows "receive C cl c (encodeData C ch p False) (partlyReceived c ch parts n s) = partlyReceived c ch (parts @ [p]) (n + length p) s"
proof -
  let ?t = "partlyReceived c ch parts n s"
  have "receive C cl c (encodeData C ch p False) ?t = receivePart C cl c ch p (setConn c (\<lambda>k. k\<lparr>lastActivity := now ?t\<rparr>) ?t)"
    using lib0.decode_data [OF assms(1,2), of p False] by (simp add: receive_def)
  then show ?thesis using assms(3-) by (simp add: receivePart_def partlyReceived_def setConn_def update_Some_unfold)
qed

lemma receive_last:
  assumes "lib0 C" "ch \<le> MAX_SAFE" "jget (channels (conns s c)) ch = Some v" "jget (partials (conns s c)) ch = None"
    and "n = 0 \<longrightarrow> parts = []"
  shows "receive C cl c (encodeData C ch p True) (partlyReceived c ch parts n s)
    = deliverData cl v (concat parts @ p) (setConn c (\<lambda>k. k\<lparr>lastActivity := now s\<rparr>) s)"
proof -
  let ?t = "partlyReceived c ch parts n s"
  have "receive C cl c (encodeData C ch p True) ?t = receiveData cl c ch p (setConn c (\<lambda>k. k\<lparr>lastActivity := now ?t\<rparr>) ?t)"
    using lib0.decode_data [OF assms(1,2), of p True] by (simp add: receive_def)
  then show ?thesis
    using assms(3-) by (simp add: receiveData_def partlyReceived_def setConn_def jdel_jset_absent)
qed

lemma receive_chunks:
  assumes "lib0 C" "ch \<le> MAX_SAFE" "jget (channels (conns s c)) ch = Some v" "jget (partials (conns s c)) ch = None"
    and "length payload \<le> MAX_MESSAGE_BYTES"
  shows "start < length payload \<Longrightarrow> concat parts = take start payload \<Longrightarrow> start = 0 \<longrightarrow> parts = [] \<Longrightarrow>
    fold (receive C cl c) (chunkFrames C ch payload start) (partlyReceived c ch parts start s)
      = deliverData cl v payload (setConn c (\<lambda>k. k\<lparr>lastActivity := now s\<rparr>) s)"
proof (induction "length payload - start" arbitrary: start parts rule: less_induct)
  case less
  let ?e = "min (start + CHUNK_BYTES) (length payload)"
  let ?p = "slice payload start ?e"
  have join: "concat parts @ ?p = take ?e payload"
    using less.prems(1,2) by (simp add: slice_def) (metis add_diff_inverse_nat min_less_iff_disj not_less take_add le_add1 min_def nat_le_linear less_imp_le)
  show ?case
  proof (cases "?e = length payload")
    case True
    then have "chunkFrames C ch payload (start + CHUNK_BYTES) = []" by (subst chunkFrames.simps) simp
    then have "chunkFrames C ch payload start = [encodeData C ch ?p True]"
      using less.prems(1) True by (subst chunkFrames.simps) (simp add: Let_def)
    then show ?thesis using receive_last [OF assms(1-4) less.prems(3)] join True by simp
  next
    case False
    then have e: "?e = start + CHUNK_BYTES" "start + CHUNK_BYTES < length payload" by auto
    have len: "length ?p = CHUNK_BYTES" using e by (simp add: slice_def)
    then have "?p \<noteq> []" by (auto simp: CHUNK_BYTES_def)
    moreover have "start + length ?p \<le> MAX_MESSAGE_BYTES" using len e(2) assms(5) by simp
    ultimately have step: "receive C cl c (encodeData C ch ?p False) (partlyReceived c ch parts start s)
        = partlyReceived c ch (parts @ [?p]) (start + CHUNK_BYTES) s"
      using receive_part [OF assms(1-4) less.prems(3)] len by simp
    have "chunkFrames C ch payload start = encodeData C ch ?p False # chunkFrames C ch payload (start + CHUNK_BYTES)"
      using less.prems(1) False e by (subst chunkFrames.simps) (simp add: Let_def)
    moreover have "concat (parts @ [?p]) = take (start + CHUNK_BYTES) payload" using join e by simp
    moreover have "length payload - (start + CHUNK_BYTES) < length payload - start" "start + CHUNK_BYTES \<noteq> 0"
      using e(2) by (auto simp: CHUNK_BYTES_def)
    ultimately show ?thesis using less.hyps [OF _ e(2), of "parts @ [?p]"] step by simp
  qed
qed

text \<open>
  C17: Splitting a message into PART frames is invisible to the receiver: the frames that
  \<open>sendData\<close> produces for a payload (one DATA frame, or parts ended by a DATA frame), received in
  order on a registered channel with nothing buffered, deliver exactly that payload to the
  provider, once, and leave no rest in the buffer, for every payload the protocol allows.
\<close>

theorem sendData_received:
  assumes "lib0 C" "ch \<le> MAX_SAFE" "jget (channels (conns s c)) ch = Some v" "jget (partials (conns s c)) ch = None"
    and "length payload \<le> MAX_MESSAGE_BYTES"
  shows "fold (receive C cl c) (dataFrames C split ch payload) s
    = deliverData cl v payload (setConn c (\<lambda>k. k\<lparr>lastActivity := now s\<rparr>) s)"
proof -
  have s: "receive C cl c buf (partlyReceived c ch [] 0 s) = receive C cl c buf s" for buf
    by (simp add: receive_def partlyReceived_def)
  have start: "fold (receive C cl c) bufs (partlyReceived c ch [] 0 s) = fold (receive C cl c) bufs s" if "bufs \<noteq> []" for bufs
    using that s by (cases bufs) simp_all
  show ?thesis
  proof (cases "\<not> split \<or> length payload \<le> CHUNK_BYTES")
    case True
    then show ?thesis using receive_last [OF assms(1-4), of 0 "[]" cl payload] s by (simp add: dataFrames_def)
  next
    case False
    then have "0 < length payload" by (cases payload) auto
    moreover from this have "chunkFrames C ch payload 0 \<noteq> []" by (subst chunkFrames.simps) (simp add: Let_def)
    ultimately show ?thesis using False receive_chunks [OF assms, of 0 "[]" cl] start by (simp add: dataFrames_def)
  qed
qed

theorem sendData_received_witness:
  "let s = newMuxWebSocket leb128 (reconnecting leb128 sampleUrl 0) sampleUrl muxInit
   in delivered (fold (receive leb128 (reconnecting leb128 sampleUrl 0) 0) (dataFrames leb128 True 1 [1, 2, 3]) s) = [(0, EvData [1, 2, 3])]"
proof -
  let ?cl = "reconnecting leb128 sampleUrl 0"
  let ?s = "newMuxWebSocket leb128 ?cl sampleUrl muxInit"
  have s: "jget (channels (conns ?s 0)) 1 = Some 0" "jget (partials (conns ?s 0)) 1 = None" "delivered ?s = []"
    by (simp_all add: newMuxWebSocket_def acquire_def register_def openChannel_def ensureSocket_def wsOpen_def muxInit_def newConn_def setConn_def Let_def)
  have "length [1, 2, 3 :: 8 word] \<le> MAX_MESSAGE_BYTES" "1 \<le> MAX_SAFE" by (simp_all add: MAX_MESSAGE_BYTES_def MAX_SAFE_def)
  from sendData_received [OF leb.lib0_axioms this(2) s(1,2) this(1), of ?cl True]
  show ?thesis using s(3) by (simp add: deliverData_def notify_def)
qed

end
