(* ===== verification/Mux_Pacing.thy ===== *)
theory Mux_Pacing
  imports Mux_Connection
begin

text \<open>
  How fast a connection of \<open>src/src/sync/mux.ts\<close> sends OPEN frames. The source paces them to stay
  below the server's admission window; here the number sent on a socket between two points of a
  run is bounded by what was left of the burst plus one per pacing interval.

  The invariant \<open>rateOk C t1 N\<close> speaks of the frames since time \<open>t1\<close>: on an open socket \<open>w\<close> the
  OPEN frames and the burst that is left exceed \<open>N w\<close> by at most the number \<open>P\<close> of paced sends,
  and each of those took an interval, the next one being due when the pacing timer says.
\<close>

section \<open>Counting opens\<close>

definition isOpenFrame :: "codec \<Rightarrow> bytes \<Rightarrow> bool" where
  "isOpenFrame C b \<longleftrightarrow> (case decodeFrame C b of Some (FOpen _ _) \<Rightarrow> True | _ \<Rightarrow> False)"

definition opensOn :: "codec \<Rightarrow> sock \<Rightarrow> nat" where
  "opensOn C k = length (filter (isOpenFrame C) (sentFrames k))"

fun slack :: "nat \<Rightarrow> nat \<Rightarrow> nat \<Rightarrow> nat option \<Rightarrow> nat" where
  "slack t1 t opened (Some d) = min (d - max t1 opened) (t - max t1 opened + OPEN_PACE_INTERVAL_MS)"
| "slack t1 t opened None = t - max t1 opened + OPEN_PACE_INTERVAL_MS"

text \<open>What holds of connection number \<open>c\<close> in state \<open>k\<close> and its socket \<open>w\<close>, at time \<open>t\<close>.\<close>

definition paced :: "codec \<Rightarrow> nat \<Rightarrow> nat \<Rightarrow> nat \<Rightarrow> sock \<Rightarrow> conn \<Rightarrow> bool" where
  "paced C t1 t n sk k \<longleftrightarrow> openedAt sk \<le> t \<and> openBurstRemaining k \<le> OPEN_BURST_SIZE
     \<and> (\<exists>P. opensOn C sk + openBurstRemaining k \<le> n + P \<and> OPEN_PACE_INTERVAL_MS * P \<le> slack t1 t (openedAt sk) (openPaceTimer k))"

definition rateConn :: "codec \<Rightarrow> nat \<Rightarrow> (nat \<Rightarrow> nat) \<Rightarrow> nat \<Rightarrow> (nat \<Rightarrow> sock) \<Rightarrow> nat \<Rightarrow> nat \<Rightarrow> conn \<Rightarrow> bool" where
  "rateConn C t1 N t S n c k \<longleftrightarrow> (\<forall>w. ws k = Some w \<longrightarrow> w < n \<and> sockConn (S w) = c \<and> listening (S w)
     \<and> (sockState (S w) = WsConnecting \<longrightarrow> sentFrames (S w) = [] \<and> N w = OPEN_BURST_SIZE)
     \<and> (sockState (S w) = WsOpen \<longrightarrow> paced C t1 t (N w) (S w) k))"

definition rateOk :: "codec \<Rightarrow> nat \<Rightarrow> (nat \<Rightarrow> nat) \<Rightarrow> mux \<Rightarrow> bool" where
  "rateOk C t1 N s \<longleftrightarrow> t1 \<le> now s \<and> (\<forall>w \<ge> nextSock s. N w = OPEN_BURST_SIZE)
     \<and> (\<forall>c. rateConn C t1 N (now s) (socks s) (nextSock s) c (conns s c))"

lemma rateOk_conn: "rateOk C t1 N s \<Longrightarrow> rateConn C t1 N (now s) (socks s) (nextSock s) c (conns s c)"
  by (simp add: rateOk_def)

lemma rateOk_own: "rateOk C t1 N s \<Longrightarrow> ws (conns s c) = Some w \<Longrightarrow> w < nextSock s \<and> sockConn (socks s w) = c \<and> listening (socks s w)"
  by (simp add: rateOk_def rateConn_def)

lemma rateOk_paced: "rateOk C t1 N s \<Longrightarrow> ws (conns s c) = Some w \<Longrightarrow> sockState (socks s w) = WsOpen \<Longrightarrow>
    paced C t1 (now s) (N w) (socks s w) (conns s c)"
  by (simp add: rateOk_def rateConn_def)

subsection \<open>Changes that do not count\<close>

lemma rateOk_cong:
  assumes "rateOk C t1 N s" "now s' = now s" "socks s' = socks s" "nextSock s' = nextSock s"
    and "\<And>c. ws (conns s' c) = ws (conns s c) \<and> openBurstRemaining (conns s' c) = openBurstRemaining (conns s c)
      \<and> openPaceTimer (conns s' c) = openPaceTimer (conns s c)"
  shows "rateOk C t1 N s'"
  using assms unfolding rateOk_def rateConn_def paced_def by simp

lemma rateOk_setConn_same:
  assumes "rateOk C t1 N s" "\<And>k. ws (f k) = ws k \<and> openBurstRemaining (f k) = openBurstRemaining k \<and> openPaceTimer (f k) = openPaceTimer k"
  shows "rateOk C t1 N (setConn c f s)"
  by (rule rateOk_cong [OF assms(1)]) (use assms(2) in simp_all)

lemma rateOk_setConn:
  "rateOk C t1 N s \<Longrightarrow> rateConn C t1 N (now s) (socks s) (nextSock s) c (f (conns s c)) \<Longrightarrow> rateOk C t1 N (setConn c f s)"
  by (simp add: rateOk_def)

lemma rateOk_setV: "rateOk C t1 N (setV v f s) = rateOk C t1 N s"
  by (simp add: rateOk_def)

lemma rateOk_log: "rateOk C t1 N (s\<lparr>delivered := d\<rparr>) = rateOk C t1 N s"
  by (simp add: rateOk_def)

lemma rateOk_release: "rateOk C t1 N s \<Longrightarrow> rateOk C t1 N (release c s)"
  by (auto simp: release_def rateOk_def Let_def split: option.split)

text \<open>A change of the socket \<open>w\<close> of connection \<open>c\<close>, judged at that connection alone.\<close>

lemma rateOk_setSock:
  assumes "rateOk C t1 N s" "sockConn (socks s w) = c"
    and "rateConn C t1 N (now s) ((socks s)(w := f (socks s w))) (nextSock s) c (conns s c)"
  shows "rateOk C t1 N (setSock w f s)"
proof -
  have "rateConn C t1 N (now s) ((socks s)(w := f (socks s w))) (nextSock s) d (conns s d)" if "d \<noteq> c" for d
  proof -
    have "ws (conns s d) \<noteq> Some w" using rateOk_own [OF assms(1)] assms(2) that by blast
    then show ?thesis using rateOk_conn [OF assms(1), of d] by (auto simp: rateConn_def)
  qed
  then have "rateConn C t1 N (now s) ((socks s)(w := f (socks s w))) (nextSock s) d (conns s d)" for d
    using assms(3) by (cases "d = c") simp_all
  then show ?thesis using assms(1) by (simp add: rateOk_def)
qed

lemma rateOk_shut:
  assumes ok: "rateOk C t1 N s" and st: "st \<notin> {WsConnecting, WsOpen}"
  shows "rateOk C t1 N (setSock w (\<lambda>k. k\<lparr>sockState := st\<rparr>) s)"
proof -
  let ?S = "(socks s)(w := socks s w\<lparr>sockState := st\<rparr>)"
  have "rateConn C t1 N (now s) ?S (nextSock s) c (conns s c)" for c
  proof (cases "ws (conns s c) = Some w")
    case True
    then show ?thesis using rateOk_own [OF ok True] st by (simp add: rateConn_def)
  next
    case False
    then show ?thesis using rateOk_conn [OF ok, of c] by (auto simp: rateConn_def)
  qed
  then show ?thesis using ok by (simp add: rateOk_def)
qed

context lib0
begin

lemma other_frames:
  "\<not> isOpenFrame C (encodeData C ch p b)" "\<not> isOpenFrame C (encodeClose C ch)" "\<not> isOpenFrame C (encodePing C)"
proof -
  have "\<not> isOpenFrame C (writeVarUint C ty @ r)" if "ty \<in> {FRAME_DATA, FRAME_PART, FRAME_CLOSE, FRAME_PING}" for ty r
  proof -
    have "readVarUint C (writeVarUint C ty @ r) = Some (ty, r)" using that read_small by auto
    moreover have "ty \<noteq> FRAME_OPEN" using that by (auto simp: frame_defs)
    ultimately show ?thesis unfolding isOpenFrame_def decodeFrame_def by (simp split: option.split if_splits)
  qed
  then show "\<not> isOpenFrame C (encodeData C ch p b)" "\<not> isOpenFrame C (encodeClose C ch)" "\<not> isOpenFrame C (encodePing C)"
    by (simp_all add: encodeData_def encodeClose_def encodePing_def)
qed

end

lemma opensOn_append: "opensOn C (k\<lparr>sentFrames := sentFrames k @ [b]\<rparr>) = opensOn C k + (if isOpenFrame C b then 1 else 0)"
  by (simp add: opensOn_def)

lemma wsOpen_Some: "wsOpen s c \<Longrightarrow> \<exists>w. ws (conns s c) = Some w \<and> sockState (socks s w) = WsOpen"
  by (auto simp: wsOpen_def split: option.splits)

lemma rateOk_wsSend:
  assumes ok: "rateOk C t1 N s" and "wsOpen s c" "\<not> isOpenFrame C b"
  shows "rateOk C t1 N (wsSend c b s)"
proof -
  obtain w where w: "ws (conns s c) = Some w" "sockState (socks s w) = WsOpen" using wsOpen_Some [OF assms(2)] by blast
  let ?f = "\<lambda>k. k\<lparr>sentFrames := sentFrames k @ [b]\<rparr>"
  have own: "sockConn (socks s w) = c" using rateOk_own [OF ok w(1)] by simp
  have "opensOn C (?f (socks s w)) = opensOn C (socks s w)" using assms(3) by (simp add: opensOn_append)
  then have "rateConn C t1 N (now s) ((socks s)(w := ?f (socks s w))) (nextSock s) c (conns s c)"
    using rateOk_conn [OF ok, of c] w by (auto simp: rateConn_def paced_def)
  then show ?thesis using rateOk_setSock [OF ok own] w(1) by (simp add: wsSend_def)
qed

subsection \<open>Sending opens\<close>

text \<open>A frame is sent while the connection changes, the result being judged as a whole.\<close>

lemma rateOk_sendWith:
  assumes ok: "rateOk C t1 N s" and w: "ws (conns s c) = Some w" "sockState (socks s w) = WsOpen"
    and f: "ws (f (conns s c)) = Some w"
    and p: "paced C t1 (now s) (N w) (socks s w\<lparr>sentFrames := sentFrames (socks s w) @ [b]\<rparr>) (f (conns s c))"
  shows "rateOk C t1 N (setConn c f (wsSend c b s))"
proof -
  let ?g = "\<lambda>k. k\<lparr>sentFrames := sentFrames k @ [b]\<rparr>"
  have own: "w < nextSock s" "sockConn (socks s w) = c" "listening (socks s w)" using rateOk_own [OF ok w(1)] by simp_all
  have "rateConn C t1 N (now s) ((socks s)(w := ?g (socks s w))) (nextSock s) d (if d = c then f (conns s c) else conns s d)" for d
  proof (cases "d = c")
    case True
    then show ?thesis using own w(2) f p by (auto simp: rateConn_def)
  next
    case False
    then have "ws (conns s d) \<noteq> Some w" using rateOk_own [OF ok] own(2) by blast
    then show ?thesis using False rateOk_conn [OF ok, of d] by (auto simp: rateConn_def)
  qed
  then have "rateConn C t1 N (now s) ((socks s)(w := ?g (socks s w))) (nextSock s) d (((conns s)(c := f (conns s c))) d)" for d
    by (simp add: fun_upd_apply)
  then show ?thesis using ok w(1) by (simp add: rateOk_def wsSend_def)
qed

lemma opensOn_append_le: "opensOn C (k\<lparr>sentFrames := sentFrames k @ [b]\<rparr>) \<le> Suc (opensOn C k)"
  by (simp add: opensOn_append)

text \<open>What \<open>sendNextOpen\<close> does when it sends.\<close>

lemma sendNextOpen_cases:
  obtains "sendNextOpen C c s = (False, s)"
  | ch path rest w where "wsOpen s c" "pendingOpens (conns s c) = (ch, path) # rest" "ws (conns s c) = Some w" "sockState (socks s w) = WsOpen"
      "sendNextOpen C c s = (True, setConn c (\<lambda>k. k\<lparr>pendingOpens := jdel (pendingOpens k) ch\<rparr>) (wsSend c (encodeOpen C ch path) s))"
proof (cases "wsOpen s c \<and> pendingOpens (conns s c) \<noteq> []")
  case False
  then show ?thesis using that(1) by (auto simp: sendNextOpen_def)
next
  case True
  then obtain w where w: "ws (conns s c) = Some w" "sockState (socks s w) = WsOpen" using wsOpen_Some by blast
  obtain ch path rest where p: "pendingOpens (conns s c) = (ch, path) # rest" using True by (cases "pendingOpens (conns s c)") auto
  have "wsSend c b (setConn c (\<lambda>k. k\<lparr>pendingOpens := jdel (pendingOpens k) ch\<rparr>) s)
      = setConn c (\<lambda>k. k\<lparr>pendingOpens := jdel (pendingOpens k) ch\<rparr>) (wsSend c b s)" for b
    using w(1) by (cases s) (simp add: wsSend_def setConn_def setSock_def)
  then show ?thesis using that(2) [OF _ p w] True p by (simp add: sendNextOpen_def)
qed

lemma flushLoop_rate:
  "rateOk C t1 N s \<Longrightarrow> openBurstRemaining (conns s c) = n \<Longrightarrow> rateOk C t1 N (flushLoop C c n s)"
proof (induction n arbitrary: s)
  case 0
  then show ?case by simp
next
  case (Suc n)
  show ?case
  proof (cases rule: sendNextOpen_cases [of C c s])
    case 1
    then show ?thesis using Suc.prems by simp
  next
    case (2 ch path rest w)
    let ?b = "encodeOpen C ch path"
    let ?f = "\<lambda>k. k\<lparr>pendingOpens := jdel (pendingOpens k) ch, openBurstRemaining := n\<rparr>"
    obtain P where P: "opensOn C (socks s w) + Suc n \<le> N w + P"
        "OPEN_PACE_INTERVAL_MS * P \<le> slack t1 (now s) (openedAt (socks s w)) (openPaceTimer (conns s c))"
      and le: "openedAt (socks s w) \<le> now s" "Suc n \<le> OPEN_BURST_SIZE"
      using rateOk_paced [OF Suc.prems(1) 2(3,4)] Suc.prems(2) by (auto simp: paced_def)
    have "paced C t1 (now s) (N w) (socks s w\<lparr>sentFrames := sentFrames (socks s w) @ [?b]\<rparr>) (?f (conns s c))"
      unfolding paced_def using P le opensOn_append_le [of C "socks s w" ?b] by (intro conjI exI [of _ P]) simp_all
    then have ok: "rateOk C t1 N (setConn c ?f (wsSend c ?b s))" using 2(3) by (intro rateOk_sendWith [OF Suc.prems(1) 2(3,4)]) simp_all
    have "flushLoop C c (Suc n) s = flushLoop C c n (setConn c ?f (wsSend c ?b s))" using 2(5) by simp
    then show ?thesis using Suc.IH [OF ok] by simp
  qed
qed

lemma schedulePacedOpen_rate:
  assumes ok: "rateOk C t1 N s"
  shows "rateOk C t1 N (schedulePacedOpen c s)"
proof (cases "openPaceTimer (conns s c)")
  case (Some d)
  then show ?thesis using ok by (simp add: schedulePacedOpen_def)
next
  case None
  let ?f = "\<lambda>k. k\<lparr>openPaceTimer := Some (now s + OPEN_PACE_INTERVAL_MS + jitter s)\<rparr>"
  have "paced C t1 (now s) n sk (?f (conns s c))" if p: "paced C t1 (now s) n sk (conns s c)" for n sk
  proof -
    have "max t1 (openedAt sk) \<le> now s" using p ok by (simp add: paced_def rateOk_def)
    then have "slack t1 (now s) (openedAt sk) None \<le> slack t1 (now s) (openedAt sk) (Some (now s + OPEN_PACE_INTERVAL_MS + jitter s))"
      by simp
    then show ?thesis using p None unfolding paced_def by (auto intro: le_trans)
  qed
  then have "rateConn C t1 N (now s) (socks s) (nextSock s) c (?f (conns s c))"
    using rateOk_conn [OF ok, of c] by (simp add: rateConn_def)
  then show ?thesis using rateOk_setConn [OF ok] None by (simp add: schedulePacedOpen_def)
qed

lemma paced_if_rate: "rateOk C t1 N s \<Longrightarrow> rateOk C t1 N (if b then schedulePacedOpen c s else s)"
  by (simp add: schedulePacedOpen_rate)

lemma scheduleOpenRetry_rate: "rateOk C t1 N s \<Longrightarrow> rateOk C t1 N (scheduleOpenRetry c t s)"
  by (auto simp: scheduleOpenRetry_def intro: rateOk_setConn_same)

lemma flushOpens_rate:
  assumes ok: "rateOk C t1 N s"
  shows "rateOk C t1 N (flushOpens C c s)"
proof -
  have "rateOk C t1 N (clearOpenRetryTimer c s)" unfolding clearOpenRetryTimer_def by (rule rateOk_setConn_same [OF ok]) simp
  then show ?thesis unfolding flushOpens_def Let_def
    using ok flushLoop_rate [OF _ refl] scheduleOpenRetry_rate schedulePacedOpen_rate by auto
qed

lemma paceFires_rate:
  assumes ok: "rateOk C t1 N s" and due: "openPaceTimer (conns s c) = Some d" "d \<le> now s"
  shows "rateOk C t1 N (paceFires C c s)"
proof -
  let ?s = "clearOpenPaceTimer c s"
  have room: "openedAt sk \<le> now s \<and> openBurstRemaining (conns s c) \<le> OPEN_BURST_SIZE
      \<and> (\<exists>P. opensOn C sk + openBurstRemaining (conns s c) \<le> n + P \<and> OPEN_PACE_INTERVAL_MS * P \<le> now s - max t1 (openedAt sk))"
    if "paced C t1 (now s) n sk (conns s c)" for n sk
    using that due unfolding paced_def by (auto intro: le_trans)
  have "paced C t1 (now s) n sk (conns ?s c)" if p: "paced C t1 (now s) n sk (conns s c)" for n sk
    using room [OF p] by (auto simp: paced_def clearOpenPaceTimer_def intro: le_trans)
  then have "rateConn C t1 N (now s) (socks s) (nextSock s) c (conns ?s c)"
    using rateOk_conn [OF ok, of c] by (simp add: rateConn_def clearOpenPaceTimer_def)
  then have cleared: "rateOk C t1 N ?s" unfolding clearOpenPaceTimer_def by (intro rateOk_setConn [OF ok]) simp
  have "rateOk C t1 N (snd (sendNextOpen C c ?s))"
  proof (cases rule: sendNextOpen_cases [of C c ?s])
    case 1
    then show ?thesis using cleared by simp
  next
    case (2 ch path rest w)
    let ?b = "encodeOpen C ch path" and ?f = "\<lambda>k. k\<lparr>pendingOpens := jdel (pendingOpens k) ch\<rparr>"
    have w: "ws (conns s c) = Some w" "sockState (socks s w) = WsOpen" using 2(3,4) by (simp_all add: clearOpenPaceTimer_def)
    obtain P where P: "opensOn C (socks s w) + openBurstRemaining (conns s c) \<le> N w + P"
        "OPEN_PACE_INTERVAL_MS * P \<le> now s - max t1 (openedAt (socks s w))"
      and le: "openedAt (socks s w) \<le> now s" "openBurstRemaining (conns s c) \<le> OPEN_BURST_SIZE"
      using room [OF rateOk_paced [OF ok w]] by blast
    have "paced C t1 (now ?s) (N w) (socks ?s w\<lparr>sentFrames := sentFrames (socks ?s w) @ [?b]\<rparr>) (?f (conns ?s c))"
      unfolding paced_def using P le opensOn_append_le [of C "socks s w" ?b]
      by (intro conjI exI [of _ "Suc P"]) (simp_all add: clearOpenPaceTimer_def)
    then show ?thesis using 2(5) rateOk_sendWith [OF cleared 2(3,4)] 2(3) by simp
  qed
  then show ?thesis unfolding paceFires_def Let_def
    using flushOpens_rate [OF cleared] schedulePacedOpen_rate by simp
qed

subsection \<open>Dropping and replacing sockets\<close>

text \<open>Whatever happened to the pacing of a connection whose socket goes away.\<close>

lemma dropSocket_rate:
  assumes ok: "rateOk C t1 N s" and f: "\<And>k. ws (f k) = ws k"
  shows "rateOk C t1 N (dropSocket c (setConn c f s))"
proof -
  have none: "rateOk C t1 N (setConn c (\<lambda>k. (f k)\<lparr>ws := None\<rparr>) s)"
    by (rule rateOk_setConn [OF ok]) (simp add: rateConn_def)
  have "rateOk C t1 N (discardSocket w (setConn c (\<lambda>k. (f k)\<lparr>ws := None\<rparr>) s))" if "ws (conns s c) = Some w" for w
    unfolding discardSocket_def using rateOk_own [OF ok that]
    by (intro rateOk_setSock [where c = c, OF none]) (simp_all add: rateConn_def)
  then show ?thesis using none f by (auto simp: dropSocket_def Let_def split: option.split)
qed

lemma teardown_rate: "rateOk C t1 N s \<Longrightarrow> rateOk C t1 N (teardown c s)"
  unfolding teardown_def timer_defs setConn_twice by (intro rateOk_release dropSocket_rate) simp_all

lemma teardownIfIdle_rate: "rateOk C t1 N s \<Longrightarrow> rateOk C t1 N (teardownIfIdle c s)"
  unfolding teardownIfIdle_def by (simp add: teardown_rate scheduleOpenRetry_rate)

lemma retryFires_rate: "rateOk C t1 N s \<Longrightarrow> rateOk C t1 N (retryFires C c s)"
  unfolding retryFires_def clearOpenRetryTimer_def
  by (intro teardownIfIdle_rate flushOpens_rate rateOk_setConn_same) simp_all

lemma resocketed_rate:
  assumes ok: "rateOk C t1 N s"
  shows "rateOk C t1 N (resocketed c s)"
proof -
  let ?new = "\<lparr>sockState = WsConnecting, sockConn = c, listening = True, sentFrames = [], openedAt = 0\<rparr>"
  have a: "rateOk C t1 N (s1\<lparr>socks := (socks s1)(nextSock s1 := ?new), nextSock := Suc (nextSock s1),
      conns := (conns s1)(c := (conns s1 c)\<lparr>ws := Some (nextSock s1), chunked := False, partials := []\<rparr>)\<rparr>)"
    if one: "\<And>d. d \<noteq> c \<Longrightarrow> rateConn C t1 N (now s1) (socks s1) (nextSock s1) d (conns s1 d)"
      "t1 \<le> now s1" "\<forall>w \<ge> nextSock s1. N w = OPEN_BURST_SIZE" for s1
  proof -
    have "rateConn C t1 N (now s1) ((socks s1)(nextSock s1 := ?new)) (Suc (nextSock s1)) d (conns s1 d)" if "d \<noteq> c" for d
      using one(1) [OF that] by (auto simp: rateConn_def)
    then show ?thesis using one(2,3) by (simp add: rateOk_def rateConn_def fun_upd_apply)
  qed
  let ?s1 = "case ws (conns s c) of Some w \<Rightarrow> discardSocket w s | None \<Rightarrow> s"
  have others: "rateConn C t1 N (now s) (socks ?s1) (nextSock s) d (conns s d)" if "d \<noteq> c" for d
  proof (cases "ws (conns s c)")
    case None
    then show ?thesis using rateOk_conn [OF ok, of d] by simp
  next
    case (Some w)
    then have "ws (conns s d) \<noteq> Some w" using rateOk_own [OF ok] that by blast
    then show ?thesis using rateOk_conn [OF ok, of d] Some by (auto simp: discardSocket_def rateConn_def)
  qed
  have same: "now ?s1 = now s" "nextSock ?s1 = nextSock s" "conns ?s1 = conns s"
    by (simp_all add: discardSocket_def split: option.split)
  have "rateOk C t1 N (?s1\<lparr>socks := (socks ?s1)(nextSock ?s1 := ?new), nextSock := Suc (nextSock ?s1),
      conns := (conns ?s1)(c := (conns ?s1 c)\<lparr>ws := Some (nextSock ?s1), chunked := False, partials := []\<rparr>)\<rparr>)"
    using ok others by (intro a) (simp_all add: same rateOk_def)
  then show ?thesis by (simp add: resocketed_def setConn_def Let_def)
qed

lemma onSockOpen_rate:
  assumes ok: "rateOk C t1 N s" and st: "sockState (socks s w) = WsConnecting"
  shows "rateOk C t1 N (onSockOpen C w s)"
proof -
  let ?f = "\<lambda>k. k\<lparr>sockState := WsOpen, openedAt := now s\<rparr>" and ?c = "sockConn (socks s w)"
  let ?g = "\<lambda>k. k\<lparr>lastActivity := now s, openBurstRemaining := OPEN_BURST_SIZE, heartbeatTimer := Some (now s + HEARTBEAT_INTERVAL_MS)\<rparr>"
  show ?thesis
  proof (cases "ws (conns s ?c) = Some w")
    case False
    then have "ws (conns s d) \<noteq> Some w" for d using rateOk_own [OF ok, of d w] by auto
    then have "rateConn C t1 N (now s) ((socks s)(w := ?f (socks s w))) (nextSock s) d (conns s d)" for d
      using rateOk_conn [OF ok, of d] by (auto simp: rateConn_def)
    then have "rateOk C t1 N (setSock w ?f s)" using ok by (simp add: rateOk_def)
    then show ?thesis using False by (simp add: onSockOpen_def Let_def)
  next
    case True
    have fresh: "sentFrames (socks s w) = []" "N w = OPEN_BURST_SIZE" "w < nextSock s" "listening (socks s w)"
      using rateOk_conn [OF ok, of ?c] True st by (simp_all add: rateConn_def)
    have "paced C t1 (now s) (N w) (?f (socks s w)) (?g (conns s ?c))"
      unfolding paced_def using fresh by (intro conjI exI [of _ 0]) (simp_all add: opensOn_def)
    then have c: "rateConn C t1 N (now s) ((socks s)(w := ?f (socks s w))) (nextSock s) ?c (?g (conns s ?c))"
      using True fresh(3,4) by (simp add: rateConn_def)
    have "rateConn C t1 N (now s) ((socks s)(w := ?f (socks s w))) (nextSock s) d (conns s d)" if "d \<noteq> ?c" for d
    proof -
      have "ws (conns s d) \<noteq> Some w" using rateOk_own [OF ok, of d w] that by auto
      then show ?thesis using rateOk_conn [OF ok, of d] by (auto simp: rateConn_def)
    qed
    then have okOpen: "rateOk C t1 N (setConn ?c ?g (setSock w ?f s))"
      using ok c by (simp add: rateOk_def fun_upd_apply)
    show ?thesis using flushOpens_rate [OF okOpen, of ?c] True fresh(4)
      by (simp add: onSockOpen_def Let_def startHeartbeat_def stopHeartbeat_def)
  qed
qed

subsection \<open>Providers and steps\<close>

locale paced_client = lib0 C for C +
  fixes cl :: client
  assumes client_rate: "rateOk C t1 N s \<Longrightarrow> rateOk C t1 N (cl v e s)"
begin

lemma notify_rate: "rateOk C t1 N s \<Longrightarrow> rateOk C t1 N (notify cl v e s)"
  unfolding notify_def by (rule client_rate) (simp add: rateOk_log)

lemma deliver_rate:
  "rateOk C t1 N s \<Longrightarrow> rateOk C t1 N (deliverError cl v r s)" "rateOk C t1 N s \<Longrightarrow> rateOk C t1 N (deliverData cl v d s)"
  "rateOk C t1 N s \<Longrightarrow> rateOk C t1 N (deliverClose cl v code s)" "rateOk C t1 N s \<Longrightarrow> rateOk C t1 N (deliverOpen cl v s)"
  by (simp_all add: deliverError_def deliverData_def deliverClose_def deliverOpen_def notify_rate rateOk_setV)

lemma failAll_rate: "rateOk C t1 N s \<Longrightarrow> rateOk C t1 N (failAll cl vs s)"
  by (induction vs arbitrary: s) (simp_all add: deliver_rate)

lemma handleDown_rate: "rateOk C t1 N s \<Longrightarrow> rateOk C t1 N (handleDown cl c s)"
  unfolding handleDown_def timer_defs setConn_twice Let_def
  by (intro rateOk_release failAll_rate dropSocket_rate) simp_all

lemma closeChannel_rate:
  assumes "rateOk C t1 N s"
  shows "rateOk C t1 N (closeChannel C c ch s)"
proof -
  let ?s1 = "setConn c (\<lambda>k. k\<lparr>pendingOpens := jdel (pendingOpens k) ch, channels := jdel (channels k) ch, partials := jdel (partials k) ch\<rparr>) s"
  have "rateOk C t1 N ?s1" by (rule rateOk_setConn_same [OF assms]) simp
  then have "rateOk C t1 N (if wsOpen ?s1 c then wsSend c (encodeClose C ch) ?s1 else ?s1)"
    using rateOk_wsSend other_frames(2) by simp
  then show ?thesis unfolding closeChannel_def Let_def by (simp add: teardown_rate)
qed

lemma vclose_rate: "rateOk C t1 N s \<Longrightarrow> rateOk C t1 N (vclose C v s)"
  unfolding vclose_def by (simp add: closeChannel_rate rateOk_setV)

lemma fold_send_rate: "rateOk C t1 N s \<Longrightarrow> wsOpen s c \<Longrightarrow> \<forall>b \<in> set bs. \<not> isOpenFrame C b \<Longrightarrow> rateOk C t1 N (fold (wsSend c) bs s)"
  by (induction bs arbitrary: s) (simp_all add: rateOk_wsSend)

lemma chunkFrames_data: "b \<in> set (chunkFrames C ch p n) \<Longrightarrow> \<not> isOpenFrame C b"
proof (induction "length p - n" arbitrary: n rule: less_induct)
  case less
  show ?case
  proof (cases "n < length p")
    case False
    then show ?thesis using less.prems by (subst (asm) chunkFrames.simps) simp
  next
    case True
    then have "length p - (n + CHUNK_BYTES) < length p - n" by (simp add: CHUNK_BYTES_def)
    then show ?thesis using less.prems less.hyps True other_frames(1) by (subst (asm) chunkFrames.simps) (auto simp: Let_def)
  qed
qed

lemma vsend_rate: "rateOk C t1 N s \<Longrightarrow> rateOk C t1 N (vsend C v data s)"
  unfolding vsend_def sendData_def dataFrames_def
  by (auto intro!: fold_send_rate rateOk_wsSend simp: other_frames chunkFrames_data)

lemma newMuxWebSocket_rate:
  assumes "rateOk C t1 N s"
  shows "rateOk C t1 N (newMuxWebSocket C cl u s)"
proof -
  obtain c s1 where a: "acquire (muxUrl u) s = (c, s1)" by fastforce
  let ?r = "registered c (pathname u @ search u) s1" and ?e = "ensureSocket cl c (registered c (pathname u @ search u) s1)"
  have "rateOk C t1 N (s\<lparr>conns := (conns s)(d := newConn url), nextConn := x, pools := y\<rparr>)" for d url x y
    using assms by (simp add: rateOk_def) (simp add: rateConn_def newConn_def)
  then have "rateOk C t1 N s1" using a assms unfolding acquire_def Let_def by (auto split: option.splits)
  then have r: "rateOk C t1 N ?r" by (rule rateOk_cong) (simp_all add: registered_eq regConn_def Let_def)
  have "rateOk C t1 N (failOpenedChannels cl c s)" if "rateOk C t1 N s" for s
    unfolding failOpenedChannels_def Let_def by (intro failAll_rate rateOk_setConn_same [OF that]) simp
  then have e: "rateOk C t1 N ?e" unfolding ensureSocket_eq using r resocketed_rate by simp
  have "newMuxWebSocket C cl u s = (if wsOpen ?e c then flushOpens C c ?e else ?e)"
    by (simp add: newMuxWebSocket_def a openChannel_def registered_def register_def Let_def)
  then show ?thesis using e flushOpens_rate by simp
qed

lemma receive_rate:
  assumes "rateOk C t1 N s"
  shows "rateOk C t1 N (receive C cl c buf s)"
proof -
  have ok: "rateOk C t1 N (setConn c (\<lambda>k. k\<lparr>lastActivity := now s\<rparr>) s)" by (rule rateOk_setConn_same [OF assms]) simp
  have part: "rateOk C t1 N (receivePart C cl c ch p s)" if "rateOk C t1 N s" for ch p s
    unfolding receivePart_def Let_def using that
    by (auto split: option.split prod.split intro!: vclose_rate deliver_rate rateOk_setConn_same)
  have data: "rateOk C t1 N (receiveData cl c ch p s)" if "rateOk C t1 N s" for ch p s
    unfolding receiveData_def Let_def using that by (auto split: option.split prod.split intro!: deliver_rate rateOk_setConn_same)
  have reset: "rateOk C t1 N (resetOpenBackoff c s)" if "rateOk C t1 N s" for s
    unfolding timer_defs setConn_twice by (rule rateOk_setConn_same [OF that]) simp
  have okOpen: "rateOk C t1 N (receiveOpenOk C cl c ch s)" if "rateOk C t1 N s" for ch s
    unfolding receiveOpenOk_def Let_def using that by (auto split: option.split intro!: deliver_rate flushOpens_rate reset)
  have backOff: "rateOk C t1 N (backOffOpens c s)" if "rateOk C t1 N s" for s
    unfolding backOffOpens_def by (rule rateOk_setConn_same [OF that]) (simp add: Let_def)
  have forget: "rateOk C t1 N (forgetChannel c ch s)" if "rateOk C t1 N s" for ch s
    unfolding forgetChannel_def by (rule rateOk_setConn_same [OF that]) simp
  have refused: "rateOk C t1 N (receiveOpenErr cl c ch reason s)" if "rateOk C t1 N s" for ch reason s
    unfolding receiveOpenErr_def Let_def using that
    by (intro teardownIfIdle_rate) (simp add: backOff forget deliver_rate split: option.split)
  have closed: "rateOk C t1 N (receiveClose cl c ch s)" if "rateOk C t1 N s" for ch s
    unfolding receiveClose_def Let_def using that
    by (intro teardownIfIdle_rate) (simp add: forget deliver_rate split: option.split)
  have chunk: "rateOk C t1 N (setConn c (\<lambda>k. k\<lparr>chunked := True\<rparr>) s)" if "rateOk C t1 N s" for s
    by (rule rateOk_setConn_same [OF that]) simp
  show ?thesis unfolding receive_def Let_def
    using part [OF ok] data [OF ok] okOpen [OF ok] refused [OF ok] closed [OF ok] chunk [OF ok] ok
    by (auto split: option.split frame.split)
qed

lemma slack_mono: "t \<le> t' \<Longrightarrow> slack t1 t a d \<le> slack t1 t' a d"
  by (cases d) auto

lemma muxStep_rate:
  assumes "muxStep C cl s s'" "rateOk C t1 N s"
  shows "rateOk C t1 N s'"
  using assms
proof (induction rule: muxStep.induct)
  case (tick t s j)
  have "paced C t1 t n sk k" if "paced C t1 (now s) n sk k" for n sk k
    using that slack_mono [OF tick(1)] tick(1) unfolding paced_def by (meson le_trans)
  then show ?case using tick by (auto simp: rateOk_def rateConn_def)
next
  case (sockClosing w s)
  then show ?case by (intro rateOk_shut) simp_all
next
  case (sockClosed w s)
  have "rateOk C t1 N (setSock w (\<lambda>k. k\<lparr>sockState := WsClosed\<rparr>) s)"
    by (rule rateOk_shut [OF sockClosed.prems]) simp
  then show ?case by (simp add: onSockDown_def Let_def handleDown_rate)
next
  case (heartbeat s c t fails)
  have "rateOk C t1 N (setConn c (\<lambda>k. k\<lparr>heartbeatTimer := Some (now s + HEARTBEAT_INTERVAL_MS)\<rparr>) s)"
    by (rule rateOk_setConn_same [OF heartbeat.prems]) simp
  then show ?case by (simp add: heartbeatTick_def handleDown_rate rateOk_wsSend other_frames)
qed (auto simp: onSockMessage_def onSockDown_def Let_def
    intro!: newMuxWebSocket_rate vsend_rate vclose_rate onSockOpen_rate receive_rate handleDown_rate paceFires_rate retryFires_rate)

end

lemma paced_reconnecting:
  assumes "lib0 C"
  shows "paced_client C (reconnecting C u n)"
proof (induction n)
  case 0
  show ?case using assms by (simp add: paced_client_def paced_client_axioms_def)
next
  case (Suc n)
  have "rateOk C t1 N (reconnecting C u (Suc n) v e s)" if "rateOk C t1 N s" for t1 N v e s
    using that by (auto split: vevent.split intro!: paced_client.newMuxWebSocket_rate [OF Suc] paced_client.vclose_rate [OF Suc])
  then show ?case using assms by (simp add: paced_client_def paced_client_axioms_def)
qed

interpretation lebrec: paced_client leb128 "reconnecting leb128 u n" for u n
  by (rule paced_reconnecting [OF leb.lib0_axioms])

section \<open>The bound\<close>

context paced_client
begin

lemma muxRun_rate: "(muxStep C cl)\<^sup>*\<^sup>* s s' \<Longrightarrow> rateOk C t1 N s \<Longrightarrow> rateOk C t1 N s'"
  by (induction rule: rtranclp_induct) (auto intro: muxStep_rate)

lemma muxReach_rate: "muxReach C cl s \<Longrightarrow> rateOk C 0 (\<lambda>_. OPEN_BURST_SIZE) s"
proof (induction rule: muxReach.induct)
  case start
  show ?case by (simp add: rateOk_def rateConn_def muxInit_def newConn_def)
next
  case (step s s')
  then show ?case using muxStep_rate by blast
qed

text \<open>From any reachable state the count can start anew.\<close>

lemma rate_from_here:
  assumes "muxReach C cl s"
  shows "rateOk C (now s) (\<lambda>w. if w < nextSock s \<and> sockState (socks s w) = WsOpen then opensOn C (socks s w) + OPEN_BURST_SIZE else OPEN_BURST_SIZE) s"
proof -
  have ok: "rateOk C 0 (\<lambda>_. OPEN_BURST_SIZE) s" by (rule muxReach_rate [OF assms])
  have "paced C (now s) (now s) (opensOn C (socks s w) + OPEN_BURST_SIZE) (socks s w) (conns s c)"
    if "ws (conns s c) = Some w" "sockState (socks s w) = WsOpen" for c w
    using rateOk_paced [OF ok that] unfolding paced_def by (intro conjI exI [of _ 0]) simp_all
  then show ?thesis using ok unfolding rateOk_def rateConn_def by auto
qed

lemma opens_between:
  assumes "muxReach C cl s" "(muxStep C cl)\<^sup>*\<^sup>* s s'" "ws (conns s' c) = Some w" "sockState (socks s' w) = WsOpen"
  shows "now s \<le> now s' \<and> opensOn C (socks s' w) \<le> opensOn C (socks s w) + 9 + (now s' - now s) div 100"
proof -
  let ?N = "\<lambda>w. if w < nextSock s \<and> sockState (socks s w) = WsOpen then opensOn C (socks s w) + OPEN_BURST_SIZE else OPEN_BURST_SIZE"
  have ok: "rateOk C (now s) ?N s'" by (rule muxRun_rate [OF assms(2) rate_from_here [OF assms(1)]])
  obtain P where P: "opensOn C (socks s' w) + openBurstRemaining (conns s' c) \<le> ?N w + P"
      "OPEN_PACE_INTERVAL_MS * P \<le> slack (now s) (now s') (openedAt (socks s' w)) (openPaceTimer (conns s' c))"
    using rateOk_paced [OF ok assms(3,4)] by (auto simp: paced_def)
  have "slack (now s) (now s') a d \<le> now s' - now s + 100" for a d by (cases d) (auto simp: OPEN_PACE_INTERVAL_MS_def)
  then have "100 * P \<le> now s' - now s + 100" using P(2) le_trans unfolding OPEN_PACE_INTERVAL_MS_def by blast
  then have "P \<le> (now s' - now s + 100) div 100" by (simp add: less_eq_div_iff_mult_less_eq mult.commute)
  moreover have "?N w \<le> opensOn C (socks s w) + 8" by (simp add: OPEN_BURST_SIZE_def)
  ultimately show ?thesis using P(1) ok by (simp add: rateOk_def)
qed

end

text \<open>
  C16: The multiplexer stays below the server's admission window of 128 OPEN frames in ten seconds.
  Between any two points of any run, however providers come, go and reconnect and whatever the
  server answers, the OPEN frames sent on a connection's socket number at most nine plus one per
  elapsed 100 milliseconds, hence at most 109 within ten seconds.
\<close>

theorem opens_below_admission_window:
  assumes "paced_client C cl" "muxReach C cl s" "(muxStep C cl)\<^sup>*\<^sup>* s s'" "ws (conns s' c) = Some w" "sockState (socks s' w) = WsOpen"
  shows "opensOn C (socks s' w) \<le> opensOn C (socks s w) + 9 + (now s' - now s) div 100
    \<and> (now s' \<le> now s + 10000 \<longrightarrow> opensOn C (socks s' w) - opensOn C (socks s w) \<le> 109)"
  using paced_client.opens_between [OF assms] by auto

theorem opens_below_admission_window_witness:
  "let s = newMuxWebSocket leb128 (reconnecting leb128 sampleUrl 1) sampleUrl muxInit; s' = onSockOpen leb128 0 s
   in opensOn leb128 (socks s' 0) \<le> opensOn leb128 (socks s 0) + 9"
proof -
  let ?cl = "reconnecting leb128 sampleUrl 1"
  let ?s = "newMuxWebSocket leb128 ?cl sampleUrl muxInit"
  let ?t = "onSockOpen leb128 0 ?s"
  have s: "?s = newMuxWebSocket leb128 ?cl sampleUrl muxInit" ..
  have r: "muxReach leb128 ?cl ?s" by (rule muxReach.step [OF muxReach.start muxStep.newSocket])
  have c: "0 < nextSock ?s" "sockState (socks ?s 0) = WsConnecting" "ws (conns ?s 0) = Some 0" "sockConn (socks ?s 0) = 0"
      "now ?s = 0" "listening (socks ?s 0)" "openBlockedUntil (conns ?s 0) = 0" "openPaceTimer (conns ?s 0) = None"
      "\<exists>p. pendingOpens (conns ?s 0) = [(1, p)]"
    by (simp_all add: newMuxWebSocket_def acquire_def register_def openChannel_def ensureSocket_def wsOpen_def muxInit_def newConn_def setConn_def Let_def)
  have run: "(muxStep leb128 ?cl)\<^sup>*\<^sup>* ?s ?t" by (rule r_into_rtranclp) (rule muxStep.sockOpens [OF c(1,2)])
  obtain p where p: "pendingOpens (conns ?s 0) = [(1, p)]" using c(9) by blast
  have "ws (conns ?t 0) = Some 0 \<and> sockState (socks ?t 0) = WsOpen \<and> now ?t = 0"
    using c(3-8) p
    by (simp add: onSockOpen_def Let_def flushOpens_def startHeartbeat_def stopHeartbeat_def clearOpenRetryTimer_def wsOpen_def
        OPEN_BURST_SIZE_def eval_nat_numeral sendNextOpen_def wsSend_def)
  then show ?thesis using opens_below_admission_window [OF lebrec.paced_client_axioms r run, of 0 0] c(5) by (simp add: Let_def)
qed

end
