(* ===== verification/Note_Stream.thy ===== *)
theory Note_Stream
  imports Js_Prelude
begin

text \<open>
  Streaming text into a note: the class \<open>NoteStream\<close> and \<open>streamText\<close> of \<open>packages/sdk/src/stream.ts\<close>.

  A stream is a state machine: the caller calls \<open>write\<close>, \<open>end\<close> and \<open>abort\<close>, the server sends frames, the
  socket closes or fails. A call that has to wait is a sleeping task; \<open>wake\<close> makes the
  sleeping tasks runnable, and each of them later looks at the state again, in any order with everything
  else. The socket is the list of frames handed to it. \<open>streamText\<close> makes its calls one after
  the other, so it is a function of what happens while each of them waits.
\<close>

section \<open>Frames and state\<close>

text \<open>The UTF-8 length of a text: a surrogate pair takes four bytes, a lone surrogate is replaced by U+FFFD.\<close>

fun utf8Length :: "jstr \<Rightarrow> nat" where
  "utf8Length [] = 0"
| "utf8Length (u # us) =
    (if u < 0x80 then 1 + utf8Length us
     else if u < 0x800 then 2 + utf8Length us
     else if 0xD800 \<le> u \<and> u < 0xDC00
     then (case us of
             v # vs \<Rightarrow> if 0xDC00 \<le> v \<and> v < 0xE000 then 4 + utf8Length vs else 3 + utf8Length us
           | [] \<Rightarrow> 3)
     else 3 + utf8Length us)"

definition MAX_STREAM_BYTES :: nat where "MAX_STREAM_BYTES = 2 * 1024 * 1024"
definition HIGH_WATER_BYTES :: int where "HIGH_WATER_BYTES = 256 * 1024"

text \<open>A frame of the server; a field that is absent is \<open>None\<close>.\<close>

datatype frame_type = FStarted | FAck | FDone | FError | FOther

record server_frame =
  ftype :: frame_type
  guid :: "jstr option"
  position :: "int option"
  applied :: "int option"
  auditId :: "jstr option"
  inserted :: "int option"
  code :: "jstr option"
  message :: "jstr option"

datatype client_frame = Start jstr | TextFrame jstr | EndFrame

datatype stream_failure =
    StreamError jstr jstr
  | AlreadyEnded
  | ClosedMidStream
  | ClosedBeforeDone
  | ClosedBeforeStart
  | SocketFailed
  | CallerFailed

record stream_result =
  resAuditId :: "jstr option"
  resInserted :: int

record stream =
  streamGuid :: jstr
  streamPosition :: int
  sent :: "client_frame list"
  closing :: bool
  sentBytes :: int
  ackedBytes :: int
  ended :: bool
  fatal :: "stream_failure option"
  result :: "stream_result option"
  closed :: bool

definition orElse :: "'a option \<Rightarrow> 'a \<Rightarrow> 'a" where
  "orElse x d = (case x of Some y \<Rightarrow> y | None \<Rightarrow> d)"

section \<open>Opening\<close>

text \<open>\<open>streamUrlFor\<close>: trailing slashes are dropped, a leading \<open>http\<close> becomes \<open>ws\<close>.\<close>

definition streamUrlFor :: "jstr \<Rightarrow> jstr \<Rightarrow> jstr" where
  "streamUrlFor baseUrl vaultId =
    (let base = rev (dropWhile (\<lambda>u. u = 47) (rev baseUrl));
         ws = (if startsWith base (lit ''http'') then lit ''ws'' @ drop 4 base else base)
     in ws @ lit ''/api/vaults/'' @ vaultId @ lit ''/stream'')"

text \<open>What the socket reports: a message that is no JSON is \<open>None\<close>.\<close>

datatype socket_event = SOpen | SMessage "server_frame option" | SClose | SError

text \<open>The handshake: the first event that settles the promise decides; \<open>None\<close> while none has come.\<close>

fun handshake :: "jstr \<Rightarrow> socket_event list \<Rightarrow> client_frame list \<Rightarrow> (stream_failure + server_frame) option \<times> client_frame list" where
  "handshake path [] out = (None, out)"
| "handshake path (SOpen # es) out = handshake path es (out @ [Start path])"
| "handshake path (SMessage None # es) out = handshake path es out"
| "handshake path (SMessage (Some f) # es) out =
    (case ftype f of
       FStarted \<Rightarrow> (Some (Inr f), out)
     | FError \<Rightarrow> (Some (Inl (StreamError (orElse (code f) (lit ''error'')) (orElse (message f) (lit ''stream error'')))), out)
     | _ \<Rightarrow> handshake path es out)"
| "handshake path (SError # es) out = (Some (Inl SocketFailed), out)"
| "handshake path (SClose # es) out = (Some (Inl ClosedBeforeStart), out)"

definition newStream :: "server_frame \<Rightarrow> client_frame list \<Rightarrow> stream" where
  "newStream f out =
    \<lparr>streamGuid = orElse (guid f) [], streamPosition = orElse (position f) 0, sent = out, closing = False,
     sentBytes = 0, ackedBytes = 0, ended = False, fatal = None, result = None, closed = False\<rparr>"

definition openStream :: "jstr \<Rightarrow> socket_event list \<Rightarrow> (stream_failure + stream) option" where
  "openStream path es =
    (case handshake path es [] of
       (None, _) \<Rightarrow> None
     | (Some (Inl e), _) \<Rightarrow> Some (Inl e)
     | (Some (Inr f), out) \<Rightarrow> Some (Inr (newStream f out)))"

section \<open>The handlers of \<open>listen\<close>\<close>

definition onFrame :: "server_frame \<Rightarrow> stream \<Rightarrow> stream" where
  "onFrame f s =
    (case ftype f of
       FAck \<Rightarrow> s\<lparr>ackedBytes := ackedBytes s + orElse (applied f) 0\<rparr>
     | FDone \<Rightarrow> s\<lparr>result := Some \<lparr>resAuditId = auditId f, resInserted = orElse (inserted f) 0\<rparr>, fatal := None\<rparr>
     | FError \<Rightarrow> s\<lparr>fatal := Some (StreamError (orElse (code f) (lit ''error'')) (orElse (message f) (lit ''stream error'')))\<rparr>
     | _ \<Rightarrow> s)"

text \<open>Whether the handler wakes the waiters.\<close>

fun onSocket :: "socket_event \<Rightarrow> stream \<Rightarrow> bool \<times> stream" where
  "onSocket SOpen s = (False, s)"
| "onSocket (SMessage None) s = (False, s)"
| "onSocket (SMessage (Some f)) s = (True, onFrame f s)"
| "onSocket SClose s = (True, s\<lparr>closed := True\<rparr>)"
| "onSocket SError s = (True, s\<lparr>fatal := Some (orElse (fatal s) SocketFailed)\<rparr>)"

section \<open>Calls\<close>

datatype 'a outcome = Waits | Returns 'a | Throws stream_failure

text \<open>From the loop on.\<close>

definition writeLook :: "jstr \<Rightarrow> stream \<Rightarrow> unit outcome \<times> stream" where
  "writeLook txt s =
    (case fatal s of
       Some e \<Rightarrow> (Throws e, s)
     | None \<Rightarrow>
         if closed s then (Throws ClosedMidStream, s)
         else if sentBytes s - ackedBytes s \<ge> HIGH_WATER_BYTES then (Waits, s)
         else (Returns (), s\<lparr>sent := sent s @ [TextFrame txt], sentBytes := sentBytes s + int (utf8Length txt)\<rparr>))"

definition writeText :: "jstr \<Rightarrow> stream \<Rightarrow> unit outcome \<times> stream" where
  "writeText txt s =
    (if ended s then (Throws AlreadyEnded, s)
     else case fatal s of
       Some e \<Rightarrow> (Throws e, s)
     | None \<Rightarrow>
         if txt = [] then (Returns (), s)
         else if sentBytes s + int (utf8Length txt) > int MAX_STREAM_BYTES
         then (Throws (StreamError (lit ''too_large'') (lit ''write would exceed the 2097152-byte session limit'')), s)
         else writeLook txt s)"

definition endLook :: "stream \<Rightarrow> stream_result outcome \<times> stream" where
  "endLook s =
    (if result s = None \<and> \<not> closed s then (Waits, s)
     else (case result s of
             Some r \<Rightarrow> Returns r
           | None \<Rightarrow> Throws (orElse (fatal s) ClosedBeforeDone), s\<lparr>closing := True\<rparr>))"

definition endStream :: "stream \<Rightarrow> stream_result outcome \<times> stream" where
  "endStream s =
    (if ended s then (Throws AlreadyEnded, s)
     else endLook (s\<lparr>ended := True, sent := sent s @ (if result s = None \<and> \<not> closed s then [EndFrame] else [])\<rparr>))"

definition abort :: "stream \<Rightarrow> stream" where
  "abort s = s\<lparr>ended := True, closing := True\<rparr>"

section \<open>\<open>streamText\<close>\<close>

text \<open>Everything that happens before the next turn of the caller; whether it wakes the waiter.\<close>

definition happens :: "socket_event list \<Rightarrow> stream \<Rightarrow> bool \<times> stream" where
  "happens es s = fold (\<lambda>e (w, s). case onSocket e s of (w', s') \<Rightarrow> (w \<or> w', s')) es (False, s)"

text \<open>A waiting call looks again whenever it is woken; the list of batches says what happens meanwhile.\<close>

fun untilDone :: "(stream \<Rightarrow> 'a outcome \<times> stream) \<Rightarrow> socket_event list list \<Rightarrow> 'a outcome \<times> stream \<Rightarrow> 'a outcome \<times> stream \<times> socket_event list list" where
  "untilDone again (es # ess) (Waits, s) =
    (case happens es s of (woken, s') \<Rightarrow> untilDone again ess (if woken then again s' else (Waits, s')))"
| "untilDone again ess (r, s) = (r, s, ess)"

text \<open>Between two calls the caller waits for the next chunk: one batch happens then, too. \<open>None\<close> is a caller that fails.\<close>

fun streamChunks :: "jstr option list \<Rightarrow> socket_event list list \<Rightarrow> stream \<Rightarrow> stream_result outcome \<times> stream" where
  "streamChunks [] ess s =
    (case untilDone endLook ess (endStream s) of
       (Throws e, s', _) \<Rightarrow> (Throws e, abort s')
     | (r, s', _) \<Rightarrow> (r, s'))"
| "streamChunks (None # cs) ess s = (Throws CallerFailed, abort s)"
| "streamChunks (Some c # cs) ess s =
    (case untilDone (writeLook c) ess (writeText c s) of
       (Waits, s', _) \<Rightarrow> (Waits, s')
     | (Throws e, s', _) \<Rightarrow> (Throws e, abort s')
     | (Returns _, s', ess') \<Rightarrow>
         (case ess' of
            [] \<Rightarrow> streamChunks cs [] s'
          | es # rest \<Rightarrow> streamChunks cs rest (snd (happens es s'))))"

section \<open>Interleavings\<close>

datatype task = TWrite jstr | TEnd

record session =
  stm :: stream
  asleep :: "task list"
  woken :: "task list"

fun lookAgain :: "task \<Rightarrow> stream \<Rightarrow> bool \<times> stream" where
  "lookAgain (TWrite t) s = (case writeLook t s of (r, s') \<Rightarrow> (r = Waits, s'))"
| "lookAgain TEnd s = (case endLook s of (r, s') \<Rightarrow> (r = Waits, s'))"

fun call :: "task \<Rightarrow> stream \<Rightarrow> bool \<times> stream" where
  "call (TWrite t) s = (case writeText t s of (r, s') \<Rightarrow> (r = Waits, s'))"
| "call TEnd s = (case endStream s of (r, s') \<Rightarrow> (r = Waits, s'))"

definition sleepIf :: "bool \<Rightarrow> task \<Rightarrow> stream \<Rightarrow> session \<Rightarrow> session" where
  "sleepIf w t s x = x\<lparr>stm := s, asleep := (if w then asleep x @ [t] else asleep x)\<rparr>"

definition wakeIf :: "bool \<Rightarrow> stream \<Rightarrow> session \<Rightarrow> session" where
  "wakeIf w s x = (if w then \<lparr>stm = s, asleep = [], woken = woken x @ asleep x\<rparr> else x\<lparr>stm := s\<rparr>)"

inductive runs :: "session \<Rightarrow> bool" where
  opened: "runs \<lparr>stm = newStream f out, asleep = [], woken = []\<rparr>" if "\<And>t. TextFrame t \<notin> set out" "EndFrame \<notin> set out"
| called: "runs x \<Longrightarrow> call t (stm x) = (w, s) \<Longrightarrow> runs (sleepIf w t s x)"
| aborted: "runs x \<Longrightarrow> runs (x\<lparr>stm := abort (stm x)\<rparr>)"
| socket: "runs x \<Longrightarrow> onSocket e (stm x) = (w, s) \<Longrightarrow> runs (wakeIf w s x)"
| resumed: "runs x \<Longrightarrow> t \<in> set (woken x) \<Longrightarrow> lookAgain t (stm x) = (w, s) \<Longrightarrow> runs (sleepIf w t s (x\<lparr>woken := remove1 t (woken x)\<rparr>))"

fun frameBytes :: "client_frame \<Rightarrow> nat" where
  "frameBytes (TextFrame t) = utf8Length t"
| "frameBytes _ = 0"

text \<open>A sleeping call has something to wait for: a write a full window, the end its result, on an open socket.\<close>

fun hasToWait :: "stream \<Rightarrow> task \<Rightarrow> bool" where
  "hasToWait s (TWrite t) \<longleftrightarrow> t \<noteq> [] \<and> fatal s = None \<and> \<not> closed s \<and> sentBytes s - ackedBytes s \<ge> HIGH_WATER_BYTES"
| "hasToWait s TEnd \<longleftrightarrow> result s = None \<and> \<not> closed s \<and> ended s"

definition counted :: "stream \<Rightarrow> bool" where
  "counted s \<longleftrightarrow> sentBytes s = int (sum_list (map frameBytes (sent s))) \<and> TextFrame [] \<notin> set (sent s)
     \<and> count_list (sent s) EndFrame \<le> (if ended s then 1 else 0)"

definition pendingOk :: "session \<Rightarrow> bool" where
  "pendingOk x \<longleftrightarrow> (\<forall>t \<in> set (asleep x). hasToWait (stm x) t) \<and> TWrite [] \<notin> set (woken x)
     \<and> count_list (asleep x @ woken x) TEnd \<le> (if ended (stm x) then 1 else 0)"

lemma count_remove1: "t \<in> set xs \<Longrightarrow> count_list (remove1 t xs) u + (if u = t then 1 else 0) = count_list xs u"
  by (induction xs) auto

lemma writeLook_keeps:
  assumes "writeLook t s = (r, s')" "counted s" "t \<noteq> []"
  shows "counted s'" "r = Waits \<Longrightarrow> hasToWait s' (TWrite t)" "hasToWait s u \<Longrightarrow> hasToWait s' u" "ended s' = ended s"
  using assms by (cases u; auto simp: writeLook_def counted_def split: option.splits if_splits)+

lemma endLook_keeps:
  assumes "endLook s = (r, s')" "counted s"
  shows "counted s'" "r = Waits \<Longrightarrow> ended s \<Longrightarrow> hasToWait s' TEnd" "hasToWait s u \<Longrightarrow> hasToWait s' u" "ended s' = ended s"
  using assms by (cases u; auto simp: endLook_def counted_def split: option.splits if_splits)+

lemma onSocket_keeps:
  assumes "onSocket e s = (w, s')" "counted s"
  shows "counted s'" "\<not> w \<Longrightarrow> s' = s" "ended s' = ended s"
proof -
  have "onSocket e s = (w, s') \<Longrightarrow> counted s \<Longrightarrow> counted s' \<and> (\<not> w \<longrightarrow> s' = s) \<and> ended s' = ended s"
    by (cases "(e, s)" rule: onSocket.cases) (auto simp: counted_def onFrame_def split: frame_type.splits)
  then show "counted s'" "\<not> w \<Longrightarrow> s' = s" "ended s' = ended s" using assms by blast+
qed

lemma writeText_cases:
  assumes "writeText t s = (r, s')"
  obtains "s' = s" "r \<noteq> Waits" "r = Returns () \<Longrightarrow> t = []" | "\<not> ended s" "t \<noteq> []" "sentBytes s + int (utf8Length t) \<le> int MAX_STREAM_BYTES" "writeLook t s = (r, s')"
  using assms by (auto simp: writeText_def split: if_splits option.splits)

lemma endStream_cases:
  assumes "endStream s = (r, s')"
  obtains "s' = s" "r \<noteq> Waits" "ended s" | "\<not> ended s" "endLook (s\<lparr>ended := True, sent := sent s @ (if result s = None \<and> \<not> closed s then [EndFrame] else [])\<rparr>) = (r, s')"
  using assms by (auto simp: endStream_def split: if_splits)

lemma hasToWait_ended: "hasToWait s u \<Longrightarrow> hasToWait (s\<lparr>ended := True, sent := f\<rparr>) u"
  by (cases u) simp_all

lemma call_keeps:
  assumes "call t s = (w, s')" "counted s"
  shows "counted s'" "w \<Longrightarrow> hasToWait s' t" "hasToWait s u \<Longrightarrow> hasToWait s' u"
    "ended s' = (ended s \<or> t = TEnd)" "w \<Longrightarrow> \<not> ended s"
proof -
  have "counted s' \<and> (w \<longrightarrow> hasToWait s' t) \<and> (hasToWait s u \<longrightarrow> hasToWait s' u) \<and> ended s' = (ended s \<or> t = TEnd) \<and> (w \<longrightarrow> \<not> ended s)"
  proof (cases t)
    case (TWrite x)
    then obtain r where r: "writeText x s = (r, s')" "w = (r = Waits)" using assms(1) by (auto split: prod.splits)
    show ?thesis using r writeLook_keeps [OF _ assms(2)] assms(2) by (auto elim!: writeText_cases simp: TWrite)
  next
    case TEnd
    then obtain r where r: "endStream s = (r, s')" "w = (r = Waits)" using assms(1) by (auto split: prod.splits)
    have c: "\<not> ended s \<Longrightarrow> counted (s\<lparr>ended := True, sent := sent s @ (if result s = None \<and> \<not> closed s then [EndFrame] else [])\<rparr>)"
      using assms(2) by (simp add: counted_def)
    show ?thesis
      using r(1)
    proof (cases rule: endStream_cases)
      case 1
      then show ?thesis using assms(2) r TEnd by simp
    next
      case 2
      then show ?thesis using endLook_keeps [OF 2(2) c [OF 2(1)]] hasToWait_ended [of s u] r(2) TEnd by simp
    qed
  qed
  then show "counted s'" "w \<Longrightarrow> hasToWait s' t" "hasToWait s u \<Longrightarrow> hasToWait s' u"
    "ended s' = (ended s \<or> t = TEnd)" "w \<Longrightarrow> \<not> ended s" by blast+
qed

lemma runs_ok: "runs x \<Longrightarrow> counted (stm x) \<and> pendingOk x"
proof (induction rule: runs.induct)
  case (opened out f)
  then have "sum_list (map frameBytes out) = 0" by (auto simp: sum_list_eq_0_iff) (metis client_frame.exhaust frameBytes.simps(2,3))
  then show ?case using opened by (simp add: newStream_def counted_def pendingOk_def count_list_0_iff)
next
  case (called x t w s)
  then have c: "counted (stm x)" and p: "pendingOk x" by simp_all
  note k = call_keeps [OF called.hyps(2) c]
  have "\<forall>u \<in> set (asleep (sleepIf w t s x)). hasToWait s u" using k(2,3) p by (auto simp: sleepIf_def pendingOk_def)
  moreover have "count_list (asleep x) TEnd + count_list (woken x) TEnd \<le> 1" using p by (auto simp: pendingOk_def split: if_splits)
  ultimately show ?case using k(1,4,5) p by (auto simp: sleepIf_def pendingOk_def)
next
  case (aborted x)
  have h: "hasToWait (stm x) u \<Longrightarrow> hasToWait (abort (stm x)) u" for u by (cases u) (simp_all add: abort_def)
  have "counted (abort (stm x))" using aborted.IH by (auto simp: counted_def abort_def split: if_splits)
  moreover have "ended (abort (stm x))" by (simp add: abort_def)
  ultimately show ?case using aborted.IH h by (auto simp: pendingOk_def split: if_splits)
next
  case (socket x e w s)
  then have c: "counted (stm x)" and p: "pendingOk x" by simp_all
  note k = onSocket_keeps [OF socket.hyps(2) c]
  show ?case using k p by (cases w) (auto simp: wakeIf_def pendingOk_def split: if_splits)
next
  case (resumed x t w s)
  then have c: "counted (stm x)" and p: "pendingOk x" by simp_all
  have k: "counted s \<and> (w \<longrightarrow> hasToWait s t) \<and> (hasToWait (stm x) u \<longrightarrow> hasToWait s u) \<and> ended s = ended (stm x)" for u
  proof (cases t)
    case (TWrite y)
    then obtain r where "writeLook y (stm x) = (r, s)" "w = (r = Waits)" using resumed.hyps(3) by (auto split: prod.splits)
    moreover have "y \<noteq> []" using p resumed.hyps(2) TWrite by (auto simp: pendingOk_def)
    ultimately show ?thesis using writeLook_keeps [OF _ c] TWrite by blast
  next
    case TEnd
    then obtain r where "endLook (stm x) = (r, s)" "w = (r = Waits)" using resumed.hyps(3) by (auto split: prod.splits)
    moreover have "ended (stm x)" using p resumed.hyps(2) TEnd by (auto simp: pendingOk_def count_list_0_iff split: if_splits)
    ultimately show ?thesis using endLook_keeps [OF _ c] TEnd by blast
  qed
  have "\<forall>u \<in> set (asleep x). hasToWait s u" using k p by (auto simp: pendingOk_def)
  moreover have "TWrite [] \<notin> set (remove1 t (woken x))" using p set_remove1_subset [of t "woken x"] by (auto simp: pendingOk_def)
  ultimately show ?case using k [of t] p count_remove1 [OF resumed.hyps(2), of TEnd] by (auto simp: sleepIf_def pendingOk_def split: if_splits)
qed

text \<open>
  C24: However writes, the end, aborts, server frames and socket failures interleave, the counter of sent
  bytes is exactly the UTF-8 length of the text frames sent, none of which is empty; at most one end frame is sent;
  and no call sleeps on something that has already happened: a sleeping write faces a full window and
  the sleeping end (at most one) has no result, on an open socket without a fatal error for the write.
\<close>

theorem stream_never_stuck:
  assumes "runs x"
  shows "sentBytes (stm x) = int (sum_list (map frameBytes (sent (stm x)))) \<and> TextFrame [] \<notin> set (sent (stm x))
    \<and> count_list (sent (stm x)) EndFrame \<le> 1 \<and> count_list (asleep x) TEnd \<le> 1
    \<and> list_all (hasToWait (stm x)) (asleep x)"
  using runs_ok [OF assms] by (auto simp: counted_def pendingOk_def list_all_iff split: if_splits)

lemma utf8Length_ascii: "u < 0x80 \<Longrightarrow> utf8Length (replicate n u) = n"
  by (induction n) simp_all

definition big :: jstr where
  "big = replicate 262144 97"

lemma big [simp]: "utf8Length big = 262144" "big \<noteq> []" "[] \<noteq> big"
  by (simp_all add: big_def utf8Length_ascii)

definition fresh :: session where
  "fresh = \<lparr>stm = newStream \<lparr>ftype = FStarted, guid = None, position = None, applied = None, auditId = None, inserted = None,
     code = None, message = None\<rparr> [Start []], asleep = [], woken = []\<rparr>"

definition halfway :: session where
  "halfway = sleepIf True (TWrite [97]) (snd (call (TWrite big) (stm fresh))) (sleepIf False (TWrite big) (snd (call (TWrite big) (stm fresh))) fresh)"

theorem stream_never_stuck_witness:
  "runs halfway \<and> asleep halfway = [TWrite [97]] \<and> list_all (hasToWait (stm halfway)) (asleep halfway)"
proof -
  let ?s = "snd (call (TWrite big) (stm fresh))"
  have f: "runs fresh" unfolding fresh_def by (rule runs.opened) simp_all
  have w: "call (TWrite big) (stm fresh) = (False, ?s)"
    by (simp add: fresh_def newStream_def writeText_def writeLook_def MAX_STREAM_BYTES_def HIGH_WATER_BYTES_def)
  have w2: "call (TWrite [97]) ?s = (True, ?s)"
    by (simp add: fresh_def newStream_def writeText_def writeLook_def MAX_STREAM_BYTES_def HIGH_WATER_BYTES_def)
  have "runs (sleepIf False (TWrite big) ?s fresh)" by (rule runs.called [OF f w])
  then have r: "runs halfway" unfolding halfway_def by (rule runs.called) (simp add: sleepIf_def w2 del: call.simps)
  moreover have "asleep halfway = [TWrite [97]]" by (simp add: halfway_def sleepIf_def fresh_def)
  ultimately show ?thesis using stream_never_stuck [OF r] by blast
qed

text \<open>The steps as functions, to run examples.\<close>

definition doCall :: "task \<Rightarrow> session \<Rightarrow> session" where
  "doCall t x = (case call t (stm x) of (w, s) \<Rightarrow> sleepIf w t s x)"

definition doResume :: "task \<Rightarrow> session \<Rightarrow> session" where
  "doResume t x = (case lookAgain t (stm x) of (w, s) \<Rightarrow> sleepIf w t s (x\<lparr>woken := remove1 t (woken x)\<rparr>))"

definition doAck :: "int \<Rightarrow> session \<Rightarrow> session" where
  "doAck n x = (case onSocket (SMessage (Some \<lparr>ftype = FAck, guid = None, position = None, applied = Some n, auditId = None,
     inserted = None, code = None, message = None\<rparr>)) (stm x) of (w, s) \<Rightarrow> wakeIf w s x)"

lemma runs_do: "runs x \<Longrightarrow> runs (doCall t x)" "runs x \<Longrightarrow> t \<in> set (woken x) \<Longrightarrow> runs (doResume t x)" "runs x \<Longrightarrow> runs (doAck n x)"
  unfolding doCall_def doResume_def doAck_def by (auto split: prod.split intro: runs.called runs.resumed simp del: onSocket.simps)
    (erule runs.socket)

lemmas stream_steps = doCall_def doResume_def doAck_def sleepIf_def wakeIf_def fresh_def newStream_def writeText_def writeLook_def
  endStream_def endLook_def onFrame_def orElse_def MAX_STREAM_BYTES_def HIGH_WATER_BYTES_def

lemma fresh_runs: "runs fresh"
  unfolding fresh_def by (rule runs.opened) simp_all

text \<open>A write that waits when \<open>end\<close> is called sends its text after the end frame.\<close>

theorem text_after_end:
  "\<exists>x. runs x \<and> sent (stm x) = [Start [], TextFrame big, EndFrame, TextFrame [97]]"
proof -
  let ?x = "doAck 262144 (doCall TEnd (doCall (TWrite [97]) (doCall (TWrite big) fresh)))"
  have "runs ?x" by (intro runs_do fresh_runs)
  moreover have "TWrite [97] \<in> set (woken ?x)" by (simp add: stream_steps)
  ultimately have "runs (doResume (TWrite [97]) ?x)" by (rule runs_do(2))
  moreover have "sent (stm (doResume (TWrite [97]) ?x)) = [Start [], TextFrame big, EndFrame, TextFrame [97]]" by (simp add: stream_steps)
  ultimately show ?thesis by blast
qed

text \<open>Two writes that wait at the same time were both measured against the bytes sent before either of them.\<close>

theorem concurrent_writes_exceed_limit:
  "\<exists>x. runs x \<and> sentBytes (stm x) > int MAX_STREAM_BYTES"
proof -
  define rest :: jstr where "rest = replicate 1835008 97"
  have [simp]: "utf8Length rest = 1835008" "rest \<noteq> []" by (simp_all add: rest_def utf8Length_ascii)
  let ?t = "TWrite rest"
  let ?x = "doAck 262144 (doCall ?t (doCall ?t (doCall (TWrite big) fresh)))"
  let ?y = "doAck 1835008 (doResume ?t ?x)"
  have "runs (doResume ?t ?x)" by (rule runs_do(2)) (intro runs_do fresh_runs, simp add: stream_steps)
  then have "runs ?y" by (rule runs_do(3))
  then have "runs (doResume ?t ?y)" by (rule runs_do(2)) (simp add: stream_steps)
  moreover have "sentBytes (stm (doResume ?t ?y)) > int MAX_STREAM_BYTES" by (simp add: stream_steps)
  ultimately show ?thesis by blast
qed

section \<open>Streaming a text\<close>

lemma happens_keeps: "happens es s = (w, s') \<Longrightarrow> sent s' = sent s \<and> sentBytes s' = sentBytes s \<and> ended s' = ended s"
proof -
  have one: "onSocket e s = (w, s') \<Longrightarrow> sent s' = sent s \<and> sentBytes s' = sentBytes s \<and> ended s' = ended s" for e s w s'
    by (cases "(e, s)" rule: onSocket.cases) (auto simp: onFrame_def split: frame_type.splits)
  have "fold (\<lambda>e (w, s). case onSocket e s of (w', s') \<Rightarrow> (w \<or> w', s')) es (w0, s) = (w, s')
    \<Longrightarrow> sent s' = sent s \<and> sentBytes s' = sentBytes s \<and> ended s' = ended s" for w0
  proof (induction es arbitrary: w0 s)
    case (Cons e es)
    obtain w1 s1 where "onSocket e s = (w1, s1)" by fastforce
    then show ?case using Cons.IH [of "w0 \<or> w1" s1] Cons.prems one [of e s w1 s1] by simp
  qed simp
  then show "happens es s = (w, s') \<Longrightarrow> ?thesis" unfolding happens_def .
qed

lemma untilDone_keeps:
  assumes "untilDone again ess (r, s) = (r', s', ess')" "P r s"
    and "\<And>s es w s1. P Waits s \<Longrightarrow> happens es s = (w, s1) \<Longrightarrow> P Waits s1 \<and> case_prod P (again s1)"
  shows "P r' s'"
  using assms(1,2)
proof (induction ess arbitrary: r s)
  case (Cons es ess)
  show ?case
  proof (cases r)
    case Waits
    obtain w s1 where h: "happens es s = (w, s1)" by fastforce
    obtain r2 s2 where n: "(if w then again s1 else (Waits, s1)) = (r2, s2)" by fastforce
    have "P r2 s2" using assms(3) [OF Cons.prems(2) [unfolded Waits] h] n by (auto split: if_splits)
    then show ?thesis using Cons.IH [of r2 s2] Cons.prems(1) Waits h n by simp
  qed (use Cons.prems in auto)
qed (use assms(2) in \<open>cases r; auto\<close>)

text \<open>A write sends its text exactly when it returns, and stays within the limit.\<close>

lemma write_sends:
  assumes "untilDone (writeLook c) ess (writeText c s) = (r, s', ess')"
    and "sentBytes s \<le> int MAX_STREAM_BYTES" "\<not> ended s"
  shows "sent s' = sent s @ (if r = Returns () \<and> c \<noteq> [] then [TextFrame c] else []) \<and> sentBytes s' \<le> int MAX_STREAM_BYTES \<and> \<not> ended s'"
proof -
  define P where "P r s' \<longleftrightarrow> sent s' = sent s @ (if r = Returns () \<and> c \<noteq> [] then [TextFrame c] else []) \<and> \<not> ended s'
    \<and> sentBytes s' \<le> int MAX_STREAM_BYTES
    \<and> (r = Waits \<longrightarrow> c \<noteq> [] \<and> sentBytes s' + int (utf8Length c) \<le> int MAX_STREAM_BYTES)" for r :: "unit outcome" and s' :: stream
  obtain r1 s1 where w: "writeText c s = (r1, s1)" by fastforce
  have look: "P r' s'" if "writeLook c s0 = (r', s')" "sent s0 = sent s" "\<not> ended s0" "sentBytes s0 + int (utf8Length c) \<le> int MAX_STREAM_BYTES" "c \<noteq> []" for s0 r' s'
    using that by (auto simp: P_def writeLook_def split: option.splits if_splits)
  have "P r1 s1" using w assms(2,3) 
  proof (cases rule: writeText_cases)
    case 1
    then show ?thesis using assms(2,3) by (auto simp: P_def)
  next
    case 2
    then show ?thesis using look [of s r1 s1] by blast
  qed
  from untilDone_keeps [of _ _ _ _ _ _ _ P, OF assms(1) [unfolded w] this] have "P r s'"
    using happens_keeps look by (fastforce simp: P_def)
  then show ?thesis by (simp add: P_def)
qed

lemma end_sends:
  assumes "untilDone endLook ess (endStream s) = (r, s', ess')" "\<not> ended s"
  shows "(sent s' = sent s \<or> sent s' = sent s @ [EndFrame]) \<and> sentBytes s' = sentBytes s \<and> (\<forall>x. r = Returns x \<longrightarrow> result s' = Some x)"
proof -
  define P where "P r s' \<longleftrightarrow> (sent s' = sent s \<or> sent s' = sent s @ [EndFrame]) \<and> sentBytes s' = sentBytes s
    \<and> (\<forall>x. r = Returns x \<longrightarrow> result s' = Some x)" for r :: "stream_result outcome" and s' :: stream
  obtain r1 s1 where w: "endStream s = (r1, s1)" by fastforce
  have look: "P r' s'" if "endLook s0 = (r', s')" "sent s0 = sent s \<or> sent s0 = sent s @ [EndFrame]" "sentBytes s0 = sentBytes s" for s0 r' s'
    using that by (auto simp: P_def endLook_def split: option.splits if_splits)
  have "P r1 s1" using w assms(2) look by (cases rule: endStream_cases) auto
  from untilDone_keeps [of _ _ _ _ _ _ _ P, OF assms(1) [unfolded w] this] have "P r s'"
    using happens_keeps look by (fastforce simp: P_def)
  then show ?thesis by (simp add: P_def)
qed

text \<open>
  C23: Whatever the server and the socket do meanwhile, \<open>streamText\<close> sends the nonempty chunks of the text in order,
  each whole and once, up to the point where it stops; the end frame goes out only after all of them; it
  never sends more than the limit of a session; it returns only when all chunks were sent, with the result
  the server reported; and when it fails the socket is closed.
\<close>

theorem streamText_sends:
  assumes "openStream path es = Some (Inr s)" "streamChunks chunks ess s = (r, s')"
  shows "\<exists>k tail. k \<le> length chunks \<and> None \<notin> set (take k chunks)
    \<and> sent s' = sent s @ map TextFrame (filter (\<lambda>t. t \<noteq> []) (map the (take k chunks))) @ tail
    \<and> (tail = [] \<or> tail = [EndFrame] \<and> k = length chunks) \<and> sentBytes s' \<le> int MAX_STREAM_BYTES
    \<and> (\<forall>x. r = Returns x \<longrightarrow> k = length chunks \<and> result s' = Some x) \<and> (\<forall>e. r = Throws e \<longrightarrow> closing s')"
proof -
  have "\<not> ended s \<and> sentBytes s \<le> int MAX_STREAM_BYTES"
    using assms(1) by (auto simp: openStream_def newStream_def split: prod.splits option.splits sum.splits)
  then show ?thesis using assms(2)
  proof (induction chunks arbitrary: ess s)
    case Nil
    obtain r1 s1 e1 where e: "untilDone endLook ess (endStream s) = (r1, s1, e1)" by (metis prod.exhaust)
    from end_sends [OF e] Nil e show ?case
      by (intro exI [of _ 0] exI [of _ "drop (length (sent s)) (sent s1)"]) (auto simp: abort_def split: outcome.splits)
  next
    case (Cons c cs)
    show ?case
    proof (cases c)
      case None
      then show ?thesis using Cons.prems by (intro exI [of _ 0] exI [of _ "[]"]) (auto simp: abort_def)
    next
      case (Some t)
      obtain r1 s1 e1 where e: "untilDone (writeLook t) ess (writeText t s) = (r1, s1, e1)" by (metis prod.exhaust)
      note w = write_sends [OF e]
      show ?thesis
      proof (cases r1)
        case (Returns u)
        define s2 where "s2 = (case e1 of [] \<Rightarrow> s1 | b # _ \<Rightarrow> snd (happens b s1))"
        have s2: "sent s2 = sent s1" "sentBytes s2 = sentBytes s1" "ended s2 = ended s1"
          using happens_keeps by (auto simp: s2_def split: list.split) (metis prod.collapse)+
        have "streamChunks cs (tl e1) s2 = (r, s')" using Cons.prems(2) Some e Returns by (auto simp: s2_def split: list.splits)
        from Cons.IH [OF _ this] s2 w Cons.prems(1) obtain k tail where k: "k \<le> length cs" "None \<notin> set (take k cs)"
          "sent s' = sent s2 @ map TextFrame (filter (\<lambda>t. t \<noteq> []) (map the (take k cs))) @ tail"
          "tail = [] \<or> tail = [EndFrame] \<and> k = length cs" "sentBytes s' \<le> int MAX_STREAM_BYTES"
          "\<forall>x. r = Returns x \<longrightarrow> k = length cs \<and> result s' = Some x" "\<forall>e. r = Throws e \<longrightarrow> closing s'" by auto
        then show ?thesis using Some Returns w Cons.prems(1) s2(1) by (intro exI [of _ "Suc k"] exI [of _ tail]) auto
      qed (use Cons.prems Some e w in \<open>auto intro!: exI [of _ 0] exI [of _ "[]"] simp: abort_def\<close>)
    qed
  qed
qed

definition frameOf :: "frame_type \<Rightarrow> server_frame" where
  "frameOf t = \<lparr>ftype = t, guid = None, position = None, applied = None, auditId = None, inserted = Some 1, code = None, message = None\<rparr>"

theorem streamText_sends_witness:
  "\<exists>s s'. openStream [110] [SOpen, SMessage (Some (frameOf FStarted))] = Some (Inr s)
    \<and> streamChunks [Some [104], Some []] [[], [], [SMessage (Some (frameOf FDone))]] s = (Returns \<lparr>resAuditId = None, resInserted = 1\<rparr>, s')
    \<and> sent s' = [Start [110], TextFrame [104], EndFrame] \<and> sentBytes s' \<le> int MAX_STREAM_BYTES"
proof -
  let ?s = "newStream (frameOf FStarted) [Start [110]]"
  let ?s' = "?s\<lparr>sent := [Start [110], TextFrame [104], EndFrame], sentBytes := 1, ended := True,
    result := Some \<lparr>resAuditId = None, resInserted = 1\<rparr>, closing := True\<rparr>"
  have o: "openStream [110] [SOpen, SMessage (Some (frameOf FStarted))] = Some (Inr ?s)"
    by (simp add: openStream_def frameOf_def)
  have c: "streamChunks [Some [104], Some []] [[], [], [SMessage (Some (frameOf FDone))]] ?s = (Returns \<lparr>resAuditId = None, resInserted = 1\<rparr>, ?s')"
    by (simp add: happens_def frameOf_def stream_steps)
  from streamText_sends [OF o c] have "sentBytes ?s' \<le> int MAX_STREAM_BYTES" by blast
  then show ?thesis using o c by (intro exI [of _ ?s] exI [of _ ?s']) simp
qed

end
