(* ===== verification/Async_Tasks.thy ===== *)
theory Async_Tasks
  imports Js_Prelude
begin

text \<open>
  Asynchronous methods that run concurrently on one object. A method runs without interruption
  up to its next \<open>await\<close>, where it becomes a task that waits to be resumed; \<open>void m()\<close> forks a task. Between
  two resumptions anything else may run: other tasks, new calls, and what the environment does. The
  methods are written in continuation-passing style: a piece of code takes what to do with its result and what to do
  when it throws, so that \<open>await\<close>, \<open>try\<close> and early returns compose as in the source. Failures of
  calls to the outside are given by a sequence of booleans in the state.

  The state carries the trace of what the object did. The locale \<open>traced\<close> is the contract of
  an invariant of the state and of the trace which only grows; its triples are proved once for
  the combinators and give, for every interleaving, that the invariant is kept.
\<close>

section \<open>Tasks\<close>

datatype 's task = Done | Await "'s \<Rightarrow> bool" "'s \<Rightarrow> 's \<times> 's task" | Both "'s task" "'s task"

type_synonym 's run = "'s \<Rightarrow> 's \<times> 's task"
type_synonym ('s, 'r) code = "('r \<Rightarrow> 's run) \<Rightarrow> 's run \<Rightarrow> 's run"

record 'a world =
  trace :: "'a list"
  faults :: "nat \<Rightarrow> bool"
  calls :: nat

definition ret :: "'r \<Rightarrow> ('s, 'r) code" where
  "ret x k h = k x"

definition throw :: "('s, 'r) code" where
  "throw k h = h"

definition seq :: "('s, 'a) code \<Rightarrow> ('a \<Rightarrow> ('s, 'b) code) \<Rightarrow> ('s, 'b) code" where
  "seq m f k h = m (\<lambda>x. f x k h) h"

text \<open>\<open>None\<close> when the code throws.\<close>

definition settled :: "('s, 'a) code \<Rightarrow> ('s, 'a option) code" where
  "settled m k h = m (\<lambda>x. k (Some x)) (k None)"

definition sync :: "('s \<Rightarrow> 's) \<Rightarrow> ('s, unit) code" where
  "sync f k h s = k () (f s)"

definition seen :: "('s \<Rightarrow> ('s, 'a) code) \<Rightarrow> ('s, 'a) code" where
  "seen m k h s = m s k h s"

definition waitFor :: "('s \<Rightarrow> bool) \<Rightarrow> ('s, unit) code" where
  "waitFor c k h s = (s, Await c (k ()))"

text \<open>\<open>void m()\<close>.\<close>

definition fork :: "('s, unit) code \<Rightarrow> ('s, unit) code" where
  "fork m k h s =
    (case m (\<lambda>_ s. (s, Done)) (\<lambda>s. (s, Done)) s of
       (s1, t) \<Rightarrow> (case k () s1 of (s2, u) \<Rightarrow> (s2, Both t u)))"

text \<open>A call to the outside: it may fail, it takes effect some time after it is made, and its result arrives later.\<close>

definition outside :: "(('a, 'z) world_scheme \<Rightarrow> 'r option \<times> ('a, 'z) world_scheme) \<Rightarrow> (('a, 'z) world_scheme, 'r) code" where
  "outside effect k h s =
    (s, Await (\<lambda>_. True) (\<lambda>s1.
       let s2 = s1\<lparr>calls := calls s1 + 1\<rparr>;
           (r, s3) = (if faults s1 (calls s1) then (None, s2) else effect s2)
       in (s3, Await (\<lambda>_. True) (case r of Some x \<Rightarrow> k x | None \<Rightarrow> h))))"

definition noted :: "'a \<Rightarrow> ('a, 'z) world_scheme \<Rightarrow> ('a, 'z) world_scheme" where
  "noted a s = s\<lparr>trace := trace s @ [a]\<rparr>"

text \<open>A loop over a list; and one whose body says whether to go on.\<close>

fun each :: "'x list \<Rightarrow> ('x \<Rightarrow> ('s, unit) code) \<Rightarrow> ('s, unit) code" where
  "each [] f = ret ()"
| "each (x # xs) f = seq (f x) (\<lambda>_. each xs f)"

fun eachWhile :: "'x list \<Rightarrow> ('x \<Rightarrow> ('s, bool) code) \<Rightarrow> ('s, bool) code" where
  "eachWhile [] f = ret True"
| "eachWhile (x # xs) f = seq (f x) (\<lambda>go. if go then eachWhile xs f else ret False)"

section \<open>Interleavings\<close>

definition enter :: "('s, unit) code \<Rightarrow> 's run" where
  "enter m = m (\<lambda>_ s. (s, Done)) (\<lambda>s. (s, Done))"

inductive runs :: "('e \<Rightarrow> ('s, unit) code) \<Rightarrow> 's \<Rightarrow> 's \<Rightarrow> 's task list \<Rightarrow> bool" for body s0 where
  begins: "runs body s0 s0 []"
| enters: "runs body s0 s ts \<Longrightarrow> enter (body e) s = (s', t) \<Longrightarrow> runs body s0 s' (ts @ [t])"
| splits: "runs body s0 s ts \<Longrightarrow> i < length ts \<Longrightarrow> ts ! i = Both t u \<Longrightarrow> runs body s0 s (ts[i := t] @ [u])"
| resumes: "runs body s0 s ts \<Longrightarrow> i < length ts \<Longrightarrow> ts ! i = Await c f \<Longrightarrow> c s \<Longrightarrow> f s = (s', t) \<Longrightarrow> runs body s0 s' (ts[i := t])"

text \<open>The steps as functions, to run examples.\<close>

fun stepTask :: "nat \<Rightarrow> 's \<times> 's task list \<Rightarrow> 's \<times> 's task list" where
  "stepTask i (s, ts) =
    (if i < length ts then
       case ts ! i of
         Done \<Rightarrow> (s, ts)
       | Both t u \<Rightarrow> (s, ts[i := t] @ [u])
       | Await c f \<Rightarrow> if c s then (case f s of (s', t) \<Rightarrow> (s', ts[i := t])) else (s, ts)
     else (s, ts))"

fun enterTask :: "('s, unit) code \<Rightarrow> 's \<times> 's task list \<Rightarrow> 's \<times> 's task list" where
  "enterTask m (s, ts) = (case enter m s of (s', t) \<Rightarrow> (s', ts @ [t]))"

lemma runs_step: "runs body s0 (fst x) (snd x) \<Longrightarrow> runs body s0 (fst (stepTask i x)) (snd (stepTask i x))"
  by (cases x) (auto split: task.splits prod.splits intro: runs.splits runs.resumes)

lemma runs_enter: "runs body s0 (fst x) (snd x) \<Longrightarrow> runs body s0 (fst (enterTask (body e) x)) (snd (enterTask (body e) x))"
  by (cases x) (auto split: prod.splits intro: runs.enters)

lemma runs_steps:
  "runs b s0 (fst x) (snd x) \<Longrightarrow> runs b s0 (fst ((stepTask i ^^ k) x)) (snd ((stepTask i ^^ k) x))"
  by (induction k) (simp_all del: stepTask.simps add: runs_step)

lemma runs_begin: "runs body s0 (fst (s0, [])) (snd (s0, []))"
  by (simp add: runs.begins)

text \<open>To evaluate runs.\<close>

lemmas run_simps = enter_def seq_def ret_def throw_def settled_def sync_def seen_def waitFor_def fork_def outside_def noted_def

section \<open>Justified actions\<close>

text \<open>Each action is justified, given the actions before it.\<close>

fun justified :: "('a list \<Rightarrow> 'a \<Rightarrow> bool) \<Rightarrow> 'a list \<Rightarrow> 'a list \<Rightarrow> bool" where
  "justified ok earlier [] = True"
| "justified ok earlier (a # as) = (ok earlier a \<and> justified ok (earlier @ [a]) as)"

lemma justified_append: "justified ok e (xs @ ys) \<longleftrightarrow> justified ok e xs \<and> justified ok (e @ xs) ys"
  by (induction xs arbitrary: e) auto

section \<open>An invariant under interleaving\<close>

named_theorems kept_intros \<open>rules for code that keeps the invariant\<close>

locale traced =
  fixes inv :: "('a, 'z) world_scheme \<Rightarrow> bool"
  assumes inv_calls: "inv s \<Longrightarrow> inv (s\<lparr>calls := n\<rparr>)"
begin

text \<open>From a state with the invariant and the facts \<open>A\<close>, what happens keeps the invariant; facts are never lost.\<close>

inductive keepsTask :: "'a set \<Rightarrow> ('a, 'z) world_scheme task \<Rightarrow> bool" where
  finished: "keepsTask A Done"
| both: "keepsTask A t \<Longrightarrow> keepsTask A u \<Longrightarrow> keepsTask A (Both t u)"
| await: "(\<And>s s' t. inv s \<Longrightarrow> A \<subseteq> set (trace s) \<Longrightarrow> c s \<Longrightarrow> f s = (s', t) \<Longrightarrow>
      inv s' \<and> set (trace s) \<subseteq> set (trace s') \<and> keepsTask (set (trace s')) t) \<Longrightarrow> keepsTask A (Await c f)"

definition keepsRun :: "'a set \<Rightarrow> ('a, 'z) world_scheme run \<Rightarrow> bool" where
  "keepsRun A g \<longleftrightarrow> (\<forall>s s' t. g s = (s', t) \<longrightarrow> inv s \<longrightarrow> A \<subseteq> set (trace s) \<longrightarrow>
     inv s' \<and> set (trace s) \<subseteq> set (trace s') \<and> keepsTask (set (trace s')) t)"

definition keeps :: "'a set \<Rightarrow> (('a, 'z) world_scheme, 'r) code \<Rightarrow> ('r \<Rightarrow> 'a set) \<Rightarrow> bool" where
  "keeps A m B \<longleftrightarrow> (\<forall>k h. (\<forall>x. keepsRun (A \<union> B x) (k x)) \<longrightarrow> keepsRun A h \<longrightarrow> keepsRun A (m k h))"

lemma keepsRunI:
  assumes "\<And>s s' t. g s = (s', t) \<Longrightarrow> inv s \<Longrightarrow> A \<subseteq> set (trace s) \<Longrightarrow>
     inv s' \<and> set (trace s) \<subseteq> set (trace s') \<and> keepsTask (set (trace s')) t"
  shows "keepsRun A g"
  using assms unfolding keepsRun_def by blast

lemma keepsRunD:
  assumes "keepsRun A g" "g s = (s', t)" "inv s" "A \<subseteq> set (trace s)"
  shows "inv s' \<and> set (trace s) \<subseteq> set (trace s') \<and> keepsTask (set (trace s')) t"
  using assms unfolding keepsRun_def by blast

lemma keepsTask_mono: "keepsTask A t \<Longrightarrow> A \<subseteq> B \<Longrightarrow> keepsTask B t"
proof (induction rule: keepsTask.induct)
  case (await c A f)
  show ?case by (rule keepsTask.await) (use await in blast)
qed (auto intro: keepsTask.intros)

lemma keepsRun_mono: "keepsRun A g \<Longrightarrow> A \<subseteq> B \<Longrightarrow> keepsRun B g"
  unfolding keepsRun_def by blast

lemma keepsTask_await: "keepsRun A f \<Longrightarrow> keepsTask A (Await c f)"
  by (rule keepsTask.await) (use keepsRunD in blast)

lemma keepsD: "keeps A m B \<Longrightarrow> (\<And>x. keepsRun (A \<union> B x) (k x)) \<Longrightarrow> keepsRun A h \<Longrightarrow> keepsRun A (m k h)"
  unfolding keeps_def by simp

lemma keepsRun_Done: "keepsRun A (\<lambda>s. (s, Done))"
  by (auto intro: keepsRunI keepsTask.intros)

lemma keeps_ret [kept_intros]: "keeps A (ret x) (\<lambda>_. {})"
  unfolding keeps_def ret_def by simp

lemma keeps_retFacts: "B x \<subseteq> A \<Longrightarrow> keeps A (ret x) B"
  unfolding keeps_def ret_def by (metis sup.absorb1)

lemma keeps_throw [kept_intros]: "keeps A throw B"
  unfolding keeps_def throw_def by simp

lemma keeps_seq:
  assumes "keeps A m B" "\<And>x. keeps (A \<union> B x) (f x) C"
  shows "keeps A (seq m f) C"
  unfolding keeps_def seq_def
proof (intro allI impI)
  fix k h
  assume k: "\<forall>x. keepsRun (A \<union> C x) (k x)" and h: "keepsRun A h"
  have "keepsRun (A \<union> B x) (f x k h)" for x
    using k h by (intro keepsD [OF assms(2)]) (auto elim: keepsRun_mono)
  then show "keepsRun A (m (\<lambda>x. f x k h) h)" by (rule keepsD [OF assms(1) _ h])
qed

lemma keeps_settled:
  assumes "keeps A m B"
  shows "keeps A (settled m) (\<lambda>r. case r of Some x \<Rightarrow> B x | None \<Rightarrow> {})"
  using assms unfolding keeps_def settled_def by (metis (mono_tags, lifting) Un_empty_right option.simps(4,5))

lemma keeps_sync:
  assumes "\<And>s. inv s \<Longrightarrow> A \<subseteq> set (trace s) \<Longrightarrow> inv (f s) \<and> set (trace s) \<union> B \<subseteq> set (trace (f s))"
  shows "keeps A (sync f) (\<lambda>_. B)"
  unfolding keeps_def sync_def
proof (intro allI impI keepsRunI)
  fix k h s s' t
  assume k: "\<forall>x. keepsRun (A \<union> B) (k x)" and r: "k () (f s) = (s', t)" and s: "inv s" "A \<subseteq> set (trace s)"
  from keepsRunD [OF spec [OF k] r] assms [OF s] s(2)
  show "inv s' \<and> set (trace s) \<subseteq> set (trace s') \<and> keepsTask (set (trace s')) t" by blast
qed

lemma keeps_seen:
  assumes "\<And>s. inv s \<Longrightarrow> A \<subseteq> set (trace s) \<Longrightarrow> keeps A (m s) B"
  shows "keeps A (seen m) B"
  using assms unfolding keeps_def seen_def keepsRun_def by blast

text \<open>The code may use all that has happened so far.\<close>

lemma keeps_seenFacts:
  assumes "\<And>s. inv s \<Longrightarrow> A \<subseteq> set (trace s) \<Longrightarrow> keeps (set (trace s)) (m s) B"
  shows "keeps A (seen m) B"
  unfolding keeps_def seen_def
proof (intro allI impI keepsRunI)
  fix k h s s' t
  assume k: "\<forall>x. keepsRun (A \<union> B x) (k x)" and h: "keepsRun A h" and r: "m s k h s = (s', t)" and s: "inv s" "A \<subseteq> set (trace s)"
  have "keepsRun (set (trace s)) (m s k h)"
    by (rule keepsD [OF assms [OF s]]) (use s(2) in \<open>auto intro: keepsRun_mono [OF spec [OF k]] keepsRun_mono [OF h]\<close>)
  from keepsRunD [OF this r s(1)] show "inv s' \<and> set (trace s) \<subseteq> set (trace s') \<and> keepsTask (set (trace s')) t" by blast
qed

lemma keeps_waitFor [kept_intros]: "keeps A (waitFor c) (\<lambda>_. {})"
  unfolding keeps_def waitFor_def
proof (intro allI impI keepsRunI)
  fix k h s s' t
  assume "\<forall>x. keepsRun (A \<union> {}) (k x)" "inv s" "A \<subseteq> set (trace s)" "(s, Await c (k ())) = (s', t)"
  moreover from this have "keepsRun (set (trace s)) (k ())" using keepsRun_mono [of A "k ()"] by simp
  ultimately show "inv s' \<and> set (trace s) \<subseteq> set (trace s') \<and> keepsTask (set (trace s')) t" by (auto intro: keepsTask_await)
qed

lemma keeps_fork:
  assumes "keeps A m B"
  shows "keeps A (fork m) (\<lambda>_. {})"
  unfolding keeps_def fork_def
proof (intro allI impI keepsRunI)
  fix k h s s' t
  assume k: "\<forall>x. keepsRun (A \<union> {}) (k x)"
    and r: "(case m (\<lambda>_ s. (s, Done)) (\<lambda>s. (s, Done)) s of (s1, t) \<Rightarrow> case k () s1 of (s2, u) \<Rightarrow> (s2, Both t u)) = (s', t)"
    and s: "inv s" "A \<subseteq> set (trace s)"
  have m: "keepsRun A (m (\<lambda>_ s. (s, Done)) (\<lambda>s. (s, Done)))" by (rule keepsD [OF assms]) (rule keepsRun_Done)+
  obtain s1 t1 u where p: "m (\<lambda>_ s. (s, Done)) (\<lambda>s. (s, Done)) s = (s1, t1)" "k () s1 = (s', u)" "t = Both t1 u"
    using r by (auto split: prod.splits)
  note one = keepsRunD [OF m p(1) s]
  have "keepsRun A (k ())" using k by simp
  then have two: "inv s' \<and> set (trace s1) \<subseteq> set (trace s') \<and> keepsTask (set (trace s')) u"
    using keepsRunD [of A "k ()" s1, OF _ p(2)] one s(2) by blast
  then have "keepsTask (set (trace s')) t1" using one keepsTask_mono by blast
  then show "inv s' \<and> set (trace s) \<subseteq> set (trace s') \<and> keepsTask (set (trace s')) t"
    using one two p(3) by (auto intro!: keepsTask.both)
qed

lemma keeps_outside:
  assumes "\<And>s r s'. inv s \<Longrightarrow> A \<subseteq> set (trace s) \<Longrightarrow> effect s = (r, s') \<Longrightarrow>
     inv s' \<and> set (trace s) \<subseteq> set (trace s') \<and> (\<forall>x. r = Some x \<longrightarrow> B x \<subseteq> set (trace s'))"
  shows "keeps A (outside effect) B"
  unfolding keeps_def outside_def
proof (intro allI impI keepsRunI)
  fix k h s s' t
  assume k: "\<forall>x. keepsRun (A \<union> B x) (k x)" and h: "keepsRun A h" and s: "inv s" "A \<subseteq> set (trace s)"
    and r: "(s, Await (\<lambda>_. True) (\<lambda>s1. let s2 = s1\<lparr>calls := calls s1 + 1\<rparr>;
           (r, s3) = (if faults s1 (calls s1) then (None, s2) else effect s2)
       in (s3, Await (\<lambda>_. True) (case r of Some x \<Rightarrow> k x | None \<Rightarrow> h)))) = (s', t)"
  define resume where "resume = (\<lambda>s1. let s2 = s1\<lparr>calls := calls s1 + 1\<rparr>;
           (r, s3) = (if faults s1 (calls s1) then (None, s2) else effect s2)
       in (s3, Await (\<lambda>_. True) (case r of Some x \<Rightarrow> k x | None \<Rightarrow> h)))"
  have t: "s' = s" "t = Await (\<lambda>_. True) resume" using r by (simp_all add: resume_def)
  have "keepsRun A resume"
  proof (rule keepsRunI)
    fix s1 s' t
    assume e: "resume s1 = (s', t)" and i: "inv s1" "A \<subseteq> set (trace s1)"
    let ?s2 = "s1\<lparr>calls := Suc (calls s1)\<rparr>"
    obtain x s3 where x: "(if faults s1 (calls s1) then (None, ?s2) else effect ?s2) = (x, s3)" by fastforce
    have i2: "inv ?s2" "A \<subseteq> set (trace ?s2)" using i inv_calls by simp_all
    have s3: "inv s3 \<and> set (trace s1) \<subseteq> set (trace s3) \<and> (\<forall>y. x = Some y \<longrightarrow> B y \<subseteq> set (trace s3))"
      using x assms [OF i2, of x s3] i2 by (auto split: if_splits)
    have "keepsTask (set (trace s3)) (Await (\<lambda>_. True) (case x of Some x \<Rightarrow> k x | None \<Rightarrow> h))"
      using keepsRun_mono [OF spec [OF k]] keepsRun_mono [OF h] s3 i(2) by (intro keepsTask_await) (auto split: option.split)
    then show "inv s' \<and> set (trace s1) \<subseteq> set (trace s') \<and> keepsTask (set (trace s')) t"
      using e x s3 by (auto simp: resume_def Let_def)
  qed
  then show "inv s' \<and> set (trace s) \<subseteq> set (trace s') \<and> keepsTask (set (trace s')) t"
    using t s by (auto intro: keepsTask_mono [OF keepsTask_await])
qed

lemma keeps_quiet:
  assumes "\<And>s. inv s \<Longrightarrow> inv (f s)" "\<And>s. trace (f s) = trace s"
  shows "keeps A (sync f) (\<lambda>_. {})"
  by (rule keeps_sync) (simp add: assms)

lemma keeps_then: "keeps A m (\<lambda>_. {}) \<Longrightarrow> (\<And>x. keeps A (f x) B) \<Longrightarrow> keeps A (seq m f) B"
  by (rule keeps_seq [where B = "\<lambda>_. {}"]) simp_all

lemma keeps_caught: "keeps A m (\<lambda>_. {}) \<Longrightarrow> keeps A (settled m) (\<lambda>_. {})"
  using keeps_settled [of A m "\<lambda>_. {}"] by (simp add: keeps_def split: option.split)

lemma keeps_idle: "(\<And>s. \<exists>r. effect s = (r, s)) \<Longrightarrow> keeps A (outside effect) (\<lambda>_. {})"
  by (rule keeps_outside) (metis Pair_inject empty_subsetI order_refl)

lemma keeps_if: "(b \<Longrightarrow> keeps A m B) \<Longrightarrow> (\<not> b \<Longrightarrow> keeps A n B) \<Longrightarrow> keeps A (if b then m else n) B"
  by simp

lemma keeps_some: "(\<And>y. x = Some y \<Longrightarrow> keeps A (n y) B) \<Longrightarrow> (x = None \<Longrightarrow> keeps A m B) \<Longrightarrow> keeps A (case x of None \<Rightarrow> m | Some y \<Rightarrow> n y) B"
  by (cases x) simp_all

lemma keeps_forked: "keeps A m (\<lambda>_. {}) \<Longrightarrow> keeps A (fork m) (\<lambda>_. {})"
  by (rule keeps_fork)

lemmas keeps_rules = keeps_ret keeps_throw keeps_waitFor keeps_then keeps_caught keeps_if keeps_some keeps_seen keeps_forked

lemma keeps_each: "(\<And>x. keeps A (f x) (\<lambda>_. {})) \<Longrightarrow> keeps A (each xs f) (\<lambda>_. {})"
  by (induction xs) (simp_all add: keeps_ret keeps_then)

lemma keeps_eachWhile: "(\<And>x. keeps A (f x) (\<lambda>_. {})) \<Longrightarrow> keeps A (eachWhile xs f) (\<lambda>_. {})"
  by (induction xs) (auto intro!: keeps_then keeps_if keeps_ret)

text \<open>Code whose result is known to satisfy \<open>P\<close>.\<close>

definition keepsWhen :: "'a set \<Rightarrow> (('a, 'z) world_scheme, 'r) code \<Rightarrow> ('r \<Rightarrow> bool) \<Rightarrow> ('r \<Rightarrow> 'a set) \<Rightarrow> bool" where
  "keepsWhen A m P B \<longleftrightarrow> (\<forall>k h. (\<forall>x. P x \<longrightarrow> keepsRun (A \<union> B x) (k x)) \<longrightarrow> keepsRun A h \<longrightarrow> keepsRun A (m k h))"

lemma keepsWhen_ret: "P x \<Longrightarrow> B x \<subseteq> A \<Longrightarrow> keepsWhen A (ret x) P B"
  unfolding keepsWhen_def ret_def by (metis sup.absorb1)

lemma keepsWhen_seq:
  assumes "keeps A m D" "\<And>x. keepsWhen (A \<union> D x) (f x) P B"
  shows "keepsWhen A (seq m f) P B"
  unfolding keepsWhen_def seq_def
proof (intro allI impI)
  fix k h
  assume k: "\<forall>x. P x \<longrightarrow> keepsRun (A \<union> B x) (k x)" and h: "keepsRun A h"
  have "keepsRun (A \<union> D x) (f x k h)" for x
  proof -
    have "keepsRun (A \<union> D x \<union> B y) (k y)" if "P y" for y
      by (rule keepsRun_mono [of "A \<union> B y"]) (use k that in auto)
    moreover have "keepsRun (A \<union> D x) h" by (rule keepsRun_mono [OF h]) simp
    ultimately show ?thesis using assms(2) [of x] unfolding keepsWhen_def by blast
  qed
  then show "keepsRun A (m (\<lambda>x. f x k h) h)" by (rule keepsD [OF assms(1) _ h])
qed

lemma keepsWhen_then: "keeps A m (\<lambda>_. {}) \<Longrightarrow> (\<And>x. keepsWhen A (f x) P B) \<Longrightarrow> keepsWhen A (seq m f) P B"
  by (rule keepsWhen_seq [where D = "\<lambda>_. {}"]) simp_all

lemma keepsWhen_seen:
  assumes "\<And>s. keepsWhen A (m s) P B"
  shows "keepsWhen A (seen m) P B"
  using assms unfolding keepsWhen_def seen_def keepsRun_def by blast

lemma keepsWhen_if: "(b \<Longrightarrow> keepsWhen A m P B) \<Longrightarrow> (\<not> b \<Longrightarrow> keepsWhen A n P B) \<Longrightarrow> keepsWhen A (if b then m else n) P B"
  by simp

lemma keepsWhen_some:
  "(\<And>y. x = Some y \<Longrightarrow> keepsWhen A (n y) P B) \<Longrightarrow> (x = None \<Longrightarrow> keepsWhen A m P B) \<Longrightarrow> keepsWhen A (case x of None \<Rightarrow> m | Some y \<Rightarrow> n y) P B"
  by (cases x) simp_all

lemma keeps_when:
  assumes "keepsWhen A m P B" "\<And>x. P x \<Longrightarrow> keeps (A \<union> B x) (f x) C"
  shows "keeps A (seq m f) C"
  unfolding keeps_def seq_def
proof (intro allI impI)
  fix k h
  assume k: "\<forall>x. keepsRun (A \<union> C x) (k x)" and h: "keepsRun A h"
  have "keepsRun (A \<union> B x) (f x k h)" if "P x" for x
    using k h by (intro keepsD [OF assms(2) [OF that]]) (auto elim: keepsRun_mono)
  then show "keepsRun A (m (\<lambda>x. f x k h) h)"
    by (intro assms(1) [unfolded keepsWhen_def, rule_format, of "\<lambda>x. f x k h"] h)
qed

lemma keepsWhen_pair: "(\<And>a b. x = (a, b) \<Longrightarrow> keepsWhen A (n a b) P B) \<Longrightarrow> keepsWhen A (case x of (a, b) \<Rightarrow> n a b) P B"
  by (cases x) simp

lemma keepsWhen_awaits: "keepsWhen A m P B \<Longrightarrow> keepsWhen A (seq m (\<lambda>x. seq (waitFor c) (\<lambda>_. ret x))) P B"
  unfolding keepsWhen_def seq_def ret_def using keepsD [OF keeps_waitFor] by (metis (no_types, lifting) keepsRun_mono sup_bot_right sup_ge1)

lemma keepsWhen_when:
  assumes "keepsWhen A m P B" "\<And>x. P x \<Longrightarrow> keepsWhen (A \<union> B x) (f x) Q C"
  shows "keepsWhen A (seq m f) Q C"
  unfolding keepsWhen_def seq_def
proof (intro allI impI)
  fix k h
  assume k: "\<forall>x. Q x \<longrightarrow> keepsRun (A \<union> C x) (k x)" and h: "keepsRun A h"
  have "keepsRun (A \<union> B x) (f x k h)" if "P x" for x
  proof (rule assms(2) [OF that, unfolded keepsWhen_def, rule_format])
    show "keepsRun (A \<union> B x \<union> C y) (k y)" if "Q y" for y by (rule keepsRun_mono [of "A \<union> C y"]) (use k that in auto)
  qed (rule keepsRun_mono [OF h], simp)
  then show "keepsRun A (m (\<lambda>x. f x k h) h)"
    by (intro assms(1) [unfolded keepsWhen_def, rule_format, of "\<lambda>x. f x k h"] h)
qed

text \<open>Every interleaving keeps the invariant.\<close>

lemma runs_keeps:
  assumes "runs body s0 s ts" "\<And>e. keeps {} (body e) (\<lambda>_. {})" "inv s0"
  shows "inv s \<and> (\<forall>t \<in> set ts. keepsTask (set (trace s)) t)"
  using assms(1)
proof (induction rule: runs.induct)
  case begins
  then show ?case using assms(3) by simp
next
  case (enters s ts e s' t)
  have "keepsRun {} (enter (body e))" unfolding enter_def by (rule keepsD [OF assms(2)]) (rule keepsRun_Done)+
  from keepsRunD [OF this enters.hyps(2)] enters.IH show ?case by (auto elim: keepsTask_mono)
next
  case (splits s ts i t u)
  then have "keepsTask (set (trace s)) (Both t u)" by (metis nth_mem)
  then show ?case using splits set_update_subset_insert [of ts i t] by (auto elim: keepsTask.cases)
next
  case (resumes s ts i c f s' t)
  then have "keepsTask (set (trace s)) (Await c f)" by (metis nth_mem)
  then have "inv s' \<and> set (trace s) \<subseteq> set (trace s') \<and> keepsTask (set (trace s')) t"
    by (rule keepsTask.cases) (use resumes in auto)
  then show ?case using resumes.IH set_update_subset_insert [of ts i t] by (auto elim: keepsTask_mono)
qed

end

end
