(* ===== verification/Synced_Doc.thy ===== *)
theory Synced_Doc
  imports Async_Tasks Local_Sync_State Conflict_Recovery Document_Epoch
begin

text \<open>
  What every synchronised document has in common: the class \<open>SyncedDoc\<close> of \<open>src/src/SyncedDoc.ts\<close>,
  together with the calls it makes to \<open>VaultSync\<close>'s local record. The methods are code of theory
  \<open>Async_Tasks\<close>; the kind of document is an argument (\<open>serialize\<close> gives its content, \<open>kept\<close> the
  action of the trace for a recovery copy). The provider is the flags it reports; its connection is the subject
  of the multiplexer's theories. IndexedDB is only awaited.
\<close>

section \<open>State\<close>

record ('a, 'm) synced_doc = "'a world" +
  fs :: "jstr vault"
  isOpen :: bool
  clock :: int
  localSync :: "'m sync_state"
  vaultDestroyed :: bool
  lastTextActivityAt :: int
  ownWrites :: "(jstr, nat) jmap"
  ownReleases :: "jstr list"
  epochNow :: nat
  online :: bool
  hasLocalChanges :: bool
  readOnly :: bool
  isCreator :: bool
  destroyed :: bool
  startupReady :: bool
  ready :: bool
  initStarted :: bool
  persistenceReady :: bool
  loadedStoredState :: bool
  connectRequested :: bool
  syncedOnce :: bool
  readOnlyRecoveryPending :: bool
  readOnlyRecoveryRequested :: bool
  readOnlyRecoveryBaseline :: "jstr option"
  readOnlyRecoveryPath :: "jstr option"
  presenceUser :: "json option"
  presenceHolds :: nat
  presence :: "json option"
  contentRevision :: nat
  contentFingerprint :: "(nat \<times> jstr) option"
  acknowledgeTimer :: bool

record 'm synced_env =
  dict :: "'m paths_map"
  sha256 :: "jstr \<Rightarrow> jstr"
  recovery :: conflict_env
  utc :: "int \<Rightarrow> date"
  docPath :: jstr
  docGuid :: jstr
  docEpoch :: nat
  autoConnect :: bool

definition fileAt :: "('a, 'm, 'z) synced_doc_scheme \<Rightarrow> jstr \<Rightarrow> jstr option" where
  "fileAt s path = jget (files (fs s)) path"

section \<open>The vault\<close>

text \<open>\<open>await sha256Text(text)\<close>.\<close>

definition sha256Text :: "('m, 'e) synced_env_scheme \<Rightarrow> jstr \<Rightarrow> (('a, 'm, 'z) synced_doc_scheme, jstr) code" where
  "sha256Text E txt = outside (\<lambda>s. (Some (sha256 E txt), s))"

definition vaultRead :: "jstr \<Rightarrow> (('a, 'm, 'z) synced_doc_scheme, jstr) code" where
  "vaultRead path = outside (\<lambda>s. (fileAt s path, s))"

definition vaultModify :: "jstr \<Rightarrow> jstr \<Rightarrow> (('a, 'm, 'z) synced_doc_scheme, unit) code" where
  "vaultModify path txt = outside (\<lambda>s.
     if fileAt s path = None then (None, s) else (Some (), s\<lparr>fs := (fs s)\<lparr>files := jset (files (fs s)) path txt\<rparr>\<rparr>))"

definition vaultCreate :: "jstr \<Rightarrow> jstr \<Rightarrow> (('a, 'm, 'z) synced_doc_scheme, unit) code" where
  "vaultCreate path txt = outside (\<lambda>s. case createFile (fs s) path txt of Inl _ \<Rightarrow> (None, s) | Inr v \<Rightarrow> (Some (), s\<lparr>fs := v\<rparr>))"

text \<open>\<open>ensureParentFolder\<close> swallows its errors.\<close>

definition parentFolder :: "jstr \<Rightarrow> (('a, 'm, 'z) synced_doc_scheme, unit) code" where
  "parentFolder path = seq (settled (outside (\<lambda>s. (Some (), s\<lparr>fs := ensureParentFolder (fs s) path\<rparr>)))) (\<lambda>_. ret ())"

definition readFromDisk :: "('m, 'e) synced_env_scheme \<Rightarrow> (('a, 'm, 'z) synced_doc_scheme, jstr option) code" where
  "readFromDisk E = seen (\<lambda>s.
     if fileAt s (docPath E) = None then seq (waitFor (\<lambda>_. True)) (\<lambda>_. ret None)
     else seq (vaultRead (docPath E)) (\<lambda>c. ret (Some c)))"

text \<open>\<open>preserveTextConflict\<close>.\<close>

definition preserveText ::
  "('m, 'e) synced_env_scheme \<Rightarrow> (jstr \<Rightarrow> 'a) \<Rightarrow> jstr \<Rightarrow> conflict_source \<Rightarrow> (('a, 'm, 'z) synced_doc_scheme, jstr) code" where
  "preserveText E kept content source = seen (\<lambda>s.
     let destination = conflictCopyPath (recovery E) (fs s) (docPath E) source (utc E (clock s))
     in seq (parentFolder destination) (\<lambda>_. seq (vaultCreate destination content) (\<lambda>_.
        seq (sync (noted (kept content))) (\<lambda>_. ret destination))))"

text \<open>\<open>updateTextConflict\<close>: the copies of the path are read one after the other.\<close>

fun scanCopies ::
  "('m, 'e) synced_env_scheme \<Rightarrow> (jstr \<Rightarrow> 'a) \<Rightarrow> jstr \<Rightarrow> conflict_source \<Rightarrow> jstr list \<Rightarrow> (('a, 'm, 'z) synced_doc_scheme, jstr option) code" where
  "scanCopies E kept content source [] = seq (preserveText E kept content source) (\<lambda>d. ret (Some d))"
| "scanCopies E kept content source (p # ps) =
    (if \<not> isCopyOf (recovery E) (docPath E) p then scanCopies E kept content source ps
     else seq (vaultRead p) (\<lambda>c. if c = content then ret None else scanCopies E kept content source ps))"

definition updateConflict ::
  "('m, 'e) synced_env_scheme \<Rightarrow> (jstr \<Rightarrow> 'a) \<Rightarrow> jstr \<Rightarrow> conflict_source \<Rightarrow> jstr option \<Rightarrow> (('a, 'm, 'z) synced_doc_scheme, jstr option) code" where
  "updateConflict E kept content source current = seen (\<lambda>s.
     let scan = scanCopies E kept content source (jkeys (files (fs s)))
     in case current of
          None \<Rightarrow> scan
        | Some c \<Rightarrow> if fileAt s c = None then scan
                    else seq (vaultModify c content) (\<lambda>_. seq (sync (noted (kept content))) (\<lambda>_. ret (Some c))))"

section \<open>The local record of the vault\<close>

definition onRecord :: "('m sync_state \<Rightarrow> 'm sync_state) \<Rightarrow> ('a, 'm, 'z) synced_doc_scheme \<Rightarrow> ('a, 'm, 'z) synced_doc_scheme" where
  "onRecord f s = s\<lparr>localSync := f (localSync s)\<rparr>"

definition noteMaterialized :: "('m, 'e) synced_env_scheme \<Rightarrow> materialized_kind \<Rightarrow> ('a, 'm, 'z) synced_doc_scheme \<Rightarrow> ('a, 'm, 'z) synced_doc_scheme" where
  "noteMaterialized E k = onRecord (if docGuid E = [] then mark (dict E) (docPath E) k else commit (dict E) (docPath E) k (docGuid E))"

definition noteContentAcknowledged ::
  "('m, 'e) synced_env_scheme \<Rightarrow> materialized_kind \<Rightarrow> jstr \<Rightarrow> bool \<Rightarrow> ('a, 'm, 'z) synced_doc_scheme \<Rightarrow> ('a, 'm, 'z) synced_doc_scheme" where
  "noteContentAcknowledged E k fp reconciled = onRecord (markSynced (dict E) (docPath E) k (docGuid E) fp reconciled)"

definition noteStoredDisk ::
  "('m, 'e) synced_env_scheme \<Rightarrow> materialized_kind \<Rightarrow> jstr \<Rightarrow> ('a, 'm, 'z) synced_doc_scheme \<Rightarrow> ('a, 'm, 'z) synced_doc_scheme" where
  "noteStoredDisk E k fp s = (if vaultDestroyed s then s else onRecord (markDisk (dict E) (docPath E) k (docGuid E) fp) s)"

definition acknowledgedDisk :: "('m, 'e) synced_env_scheme \<Rightarrow> ('a, 'm, 'z) synced_doc_scheme \<Rightarrow> jstr option" where
  "acknowledgedDisk E s = (if vaultDestroyed s then None else acknowledgedFingerprint (dict E) (localSync s) (docPath E) (docGuid E))"

definition knownDisk :: "('m, 'e) synced_env_scheme \<Rightarrow> ('a, 'm, 'z) synced_doc_scheme \<Rightarrow> jstr option" where
  "knownDisk E s = (if vaultDestroyed s then None else diskFingerprint (dict E) (localSync s) (docPath E) (docGuid E))"

definition noteTextActivity :: "('a, 'm, 'z) synced_doc_scheme \<Rightarrow> ('a, 'm, 'z) synced_doc_scheme" where
  "noteTextActivity s = s\<lparr>lastTextActivityAt := clock s\<rparr>"

text \<open>Writes of the plugin's own: counted from before the write until a tick after it.\<close>

definition beginOwnWrite :: "jstr \<Rightarrow> ('a, 'm, 'z) synced_doc_scheme \<Rightarrow> ('a, 'm, 'z) synced_doc_scheme" where
  "beginOwnWrite path s = s\<lparr>ownWrites := jset (ownWrites s) path ((case jget (ownWrites s) path of Some n \<Rightarrow> n | None \<Rightarrow> 0) + 1)\<rparr>"

definition releaseWrite :: "jstr \<Rightarrow> ('a, 'm, 'z) synced_doc_scheme \<Rightarrow> ('a, 'm, 'z) synced_doc_scheme" where
  "releaseWrite path s = s\<lparr>ownReleases := ownReleases s @ [path]\<rparr>"

definition releaseTick :: "('a, 'm, 'z) synced_doc_scheme \<Rightarrow> ('a, 'm, 'z) synced_doc_scheme" where
  "releaseTick s =
    (case ownReleases s of
       [] \<Rightarrow> s
     | path # rest \<Rightarrow>
         (let count = (case jget (ownWrites s) path of Some n \<Rightarrow> n | None \<Rightarrow> 1) - 1
          in s\<lparr>ownReleases := rest, ownWrites := (if count > 0 then jset (ownWrites s) path count else jdel (ownWrites s) path)\<rparr>))"

section \<open>Fingerprints\<close>

definition storedFingerprint :: "nat \<Rightarrow> jstr \<Rightarrow> jstr" where
  "storedFingerprint epoch h = decimal epoch @ lit '':'' @ h"

definition flushPersistence :: "(('a, 'm, 'z) synced_doc_scheme, unit) code" where
  "flushPersistence = seen (\<lambda>s. if destroyed s \<or> \<not> persistenceReady s then ret () else outside (\<lambda>s. (Some (), s)))"

definition recordStoredDiskContent :: "('m, 'e) synced_env_scheme \<Rightarrow> materialized_kind \<Rightarrow> jstr \<Rightarrow> (('a, 'm, 'z) synced_doc_scheme, unit) code" where
  "recordStoredDiskContent E k txt =
    seq (settled (seen (\<lambda>s.
      if \<not> persistenceReady s then ret ()
      else seq (sha256Text E txt) (\<lambda>h. seq flushPersistence (\<lambda>_. seen (\<lambda>s.
             if destroyed s then ret () else sync (noteStoredDisk E k (storedFingerprint (docEpoch E) h)))))))) (\<lambda>_. ret ())"

definition storeContainsDiskContent :: "('m, 'e) synced_env_scheme \<Rightarrow> jstr \<Rightarrow> (('a, 'm, 'z) synced_doc_scheme, bool) code" where
  "storeContainsDiskContent E txt = seen (\<lambda>s.
     if \<not> loadedStoredState s
     then (case acknowledgedDisk E s of
             None \<Rightarrow> ret False
           | Some a \<Rightarrow> seq (sha256Text E txt) (\<lambda>h. ret (a = h)))
     else seq (waitFor (\<lambda>_. True)) (\<lambda>_. seen (\<lambda>s.
            case knownDisk E s of
              None \<Rightarrow> ret False
            | Some known \<Rightarrow> seq (sha256Text E txt) (\<lambda>h. ret (known = storedFingerprint (docEpoch E) h)))))"

definition scheduleAcknowledgedContent :: "('a, 'm, 'z) synced_doc_scheme \<Rightarrow> ('a, 'm, 'z) synced_doc_scheme" where
  "scheduleAcknowledgedContent s = (if destroyed s \<or> \<not> startupReady s \<or> acknowledgeTimer s then s else s\<lparr>acknowledgeTimer := True\<rparr>)"

text \<open>The hash of the content is kept for its revision; a rejected hash is forgotten and thrown.\<close>

definition recordAcknowledgedContent ::
  "('m, 'e) synced_env_scheme \<Rightarrow> materialized_kind \<Rightarrow> (('a, 'm, 'z) synced_doc_scheme \<Rightarrow> jstr) \<Rightarrow> (('a, 'm, 'z) synced_doc_scheme, unit) code" where
  "recordAcknowledgedContent E k serialize = seen (\<lambda>s.
     if destroyed s \<or> \<not> startupReady s \<or> hasLocalChanges s then ret ()
     else let revision = contentRevision s;
              fp = (case contentFingerprint s of
                      Some (r, f) \<Rightarrow> if r = revision then f else sha256 E (serialize s)
                    | None \<Rightarrow> sha256 E (serialize s))
          in seq (sync (\<lambda>s. s\<lparr>contentFingerprint := Some (revision, fp)\<rparr>)) (\<lambda>_.
             seq (settled (outside (\<lambda>s. (Some fp, s)))) (\<lambda>r.
               case r of
                 None \<Rightarrow> seq (sync (\<lambda>s. if contentFingerprint s = Some (revision, fp) then s\<lparr>contentFingerprint := None\<rparr> else s)) (\<lambda>_. throw)
               | Some f \<Rightarrow> seen (\<lambda>s.
                   if destroyed s \<or> \<not> startupReady s \<or> hasLocalChanges s then ret ()
                   else if contentRevision s \<noteq> revision then sync scheduleAcknowledgedContent
                   else sync (noteContentAcknowledged E k f True)))))"

section \<open>Lifecycle\<close>

definition connectProvider :: "('a, 'm, 'z) synced_doc_scheme \<Rightarrow> ('a, 'm, 'z) synced_doc_scheme" where
  "connectProvider s = (if online s then s else s\<lparr>online := True\<rparr>)"

definition ensureConnected :: "('a, 'm, 'z) synced_doc_scheme \<Rightarrow> ('a, 'm, 'z) synced_doc_scheme" where
  "ensureConnected s =
    (if destroyed s then s
     else let s1 = s\<lparr>connectRequested := True\<rparr> in if \<not> persistenceReady s1 then s1 else connectProvider s1)"

definition disconnect :: "('a, 'm, 'z) synced_doc_scheme \<Rightarrow> ('a, 'm, 'z) synced_doc_scheme" where
  "disconnect s = (if destroyed s then s else s\<lparr>online := False\<rparr>)"

definition resolveWhenReady :: "('a, 'm, 'z) synced_doc_scheme \<Rightarrow> ('a, 'm, 'z) synced_doc_scheme" where
  "resolveWhenReady s = s\<lparr>ready := True\<rparr>"

text \<open>\<open>after\<close> is the document's \<open>afterPersistenceSynced\<close>; \<open>nonempty\<close> says whether IndexedDB held any state.\<close>

definition initDoc ::
  "('m, 'e) synced_env_scheme \<Rightarrow> (('a, 'm, 'z) synced_doc_scheme \<Rightarrow> bool) \<Rightarrow> (('a, 'm, 'z) synced_doc_scheme, unit) code
     \<Rightarrow> (('a, 'm, 'z) synced_doc_scheme, unit) code" where
  "initDoc E nonempty after =
    seq (settled (seq (outside (\<lambda>s. (Some (), s))) (\<lambda>_. seq (sync (\<lambda>s. s\<lparr>loadedStoredState := nonempty s\<rparr>)) (\<lambda>_. seen (\<lambda>s.
      if destroyed s then ret () else after))))) (\<lambda>r.
    seq (if r = None then sync resolveWhenReady else ret ()) (\<lambda>_.
    sync (\<lambda>s. let s1 = s\<lparr>persistenceReady := True\<rparr>
              in if \<not> destroyed s1 \<and> (autoConnect E \<or> connectRequested s1) then connectProvider s1 else s1)))"

definition prepareForHibernation ::
  "(('a, 'm, 'z) synced_doc_scheme \<Rightarrow> bool) \<Rightarrow> (('a, 'm, 'z) synced_doc_scheme, bool) code" where
  "prepareForHibernation canHibernate =
    (let idle = (\<lambda>s. \<not> destroyed s \<and> ready s \<and> \<not> hasLocalChanges s \<and> canHibernate s)
     in seen (\<lambda>s. if \<not> idle s then ret False else seq (outside (\<lambda>s. (Some (), s))) (\<lambda>_. seen (\<lambda>s. ret (idle s)))))"

definition retiredBaseline :: "(('a, 'm, 'z) synced_doc_scheme \<Rightarrow> jstr) \<Rightarrow> ('a, 'm, 'z) synced_doc_scheme \<Rightarrow> jstr option" where
  "retiredBaseline serialize s = (if destroyed s \<or> \<not> ready s \<or> hasLocalChanges s then None else Some (serialize s))"

text \<open>The loop runs as often as new updates are refused while a copy is written; the number bounds it.\<close>

fun recoveryLoop ::
  "nat \<Rightarrow> ('m, 'e) synced_env_scheme \<Rightarrow> (jstr \<Rightarrow> 'a) \<Rightarrow> (('a, 'm, 'z) synced_doc_scheme \<Rightarrow> jstr) \<Rightarrow> (('a, 'm, 'z) synced_doc_scheme, unit) code" where
  "recoveryLoop 0 E kept serialize = waitFor (\<lambda>_. False)"
| "recoveryLoop (Suc n) E kept serialize = seen (\<lambda>s.
    if \<not> readOnlyRecoveryRequested s \<or> destroyed s then ret ()
    else seq (sync (\<lambda>s. s\<lparr>readOnlyRecoveryRequested := False\<rparr>)) (\<lambda>_.
      if Some (serialize s) = readOnlyRecoveryBaseline s then recoveryLoop n E kept serialize
      else seq (updateConflict E kept (serialize s) LocalSide (readOnlyRecoveryPath s)) (\<lambda>p.
           seq (sync (\<lambda>t. if destroyed t then t
                  else t\<lparr>readOnlyRecoveryBaseline := Some (serialize s),
                         readOnlyRecoveryPath := (case p of Some _ \<Rightarrow> p | None \<Rightarrow> readOnlyRecoveryPath t)\<rparr>)) (\<lambda>_.
           recoveryLoop n E kept serialize))))"

definition preserveReadOnlyRecovery ::
  "nat \<Rightarrow> ('m, 'e) synced_env_scheme \<Rightarrow> (jstr \<Rightarrow> 'a) \<Rightarrow> (('a, 'm, 'z) synced_doc_scheme \<Rightarrow> jstr) \<Rightarrow> (('a, 'm, 'z) synced_doc_scheme, unit) code" where
  "preserveReadOnlyRecovery n E kept serialize = seen (\<lambda>s.
     if destroyed s then ret ()
     else seq (sync (\<lambda>s. s\<lparr>readOnlyRecoveryRequested := True\<rparr>)) (\<lambda>_.
       if readOnlyRecoveryPending s then ret ()
       else seq (sync (\<lambda>s. s\<lparr>readOnlyRecoveryPending := True\<rparr>)) (\<lambda>_.
            seq (settled (recoveryLoop n E kept serialize)) (\<lambda>_.
            sync (\<lambda>s. s\<lparr>readOnlyRecoveryPending := False\<rparr>)))))"

section \<open>Presence\<close>

definition setPresenceUser :: "json \<Rightarrow> ('a, 'm, 'z) synced_doc_scheme \<Rightarrow> ('a, 'm, 'z) synced_doc_scheme" where
  "setPresenceUser user s =
    (let s1 = s\<lparr>presenceUser := Some user\<rparr>
     in if presenceHolds s1 > 0 \<and> \<not> destroyed s1 then s1\<lparr>presence := Some (JObj [(lit ''user'', user)])\<rparr> else s1)"

definition holdPresence :: "('a, 'm, 'z) synced_doc_scheme \<Rightarrow> ('a, 'm, 'z) synced_doc_scheme" where
  "holdPresence s =
    (let s1 = s\<lparr>presenceHolds := presenceHolds s + 1\<rparr>
     in if presenceHolds s1 = 1 \<and> \<not> destroyed s1
        then s1\<lparr>presence := Some (case presenceUser s1 of Some u \<Rightarrow> JObj [(lit ''user'', u)] | None \<Rightarrow> JObj [])\<rparr> else s1)"

text \<open>The function \<open>holdPresence\<close> returns; it acts at its first call only.\<close>

definition releasePresence :: "('a, 'm, 'z) synced_doc_scheme \<Rightarrow> ('a, 'm, 'z) synced_doc_scheme" where
  "releasePresence s =
    (let s1 = s\<lparr>presenceHolds := presenceHolds s - 1\<rparr>
     in if presenceHolds s1 = 0 \<and> \<not> destroyed s1 then s1\<lparr>presence := None\<rparr> else s1)"

section \<open>Invariants of documents\<close>

text \<open>An invariant of a kind of document that speaks only of what this theory's methods leave alone; making a recovery copy is allowed.\<close>

locale synced = traced inv
  for inv :: "('a, 'm, 'z) synced_doc_scheme \<Rightarrow> bool" +
  fixes kept :: "jstr \<Rightarrow> 'a"
  assumes inv_kept: "inv s \<Longrightarrow> inv (noted (kept c) s)"
    and inv_vault: "inv s \<Longrightarrow> inv (s\<lparr>fs := v\<rparr>)" "inv s \<Longrightarrow> inv (s\<lparr>localSync := l\<rparr>)"
      "inv s \<Longrightarrow> inv (s\<lparr>ownWrites := w\<rparr>)" "inv s \<Longrightarrow> inv (s\<lparr>ownReleases := r\<rparr>)" "inv s \<Longrightarrow> inv (s\<lparr>lastTextActivityAt := t\<rparr>)"
    and inv_fields: "inv s \<Longrightarrow> inv (s\<lparr>contentFingerprint := f\<rparr>)" "inv s \<Longrightarrow> inv (s\<lparr>acknowledgeTimer := b\<rparr>)"
      "inv s \<Longrightarrow> inv (s\<lparr>readOnlyRecoveryPending := b\<rparr>)" "inv s \<Longrightarrow> inv (s\<lparr>readOnlyRecoveryRequested := b\<rparr>)"
      "inv s \<Longrightarrow> inv (s\<lparr>readOnlyRecoveryBaseline := p\<rparr>)" "inv s \<Longrightarrow> inv (s\<lparr>readOnlyRecoveryPath := p\<rparr>)"
      "inv s \<Longrightarrow> inv (s\<lparr>persistenceReady := b\<rparr>)" "inv s \<Longrightarrow> inv (s\<lparr>loadedStoredState := b\<rparr>)" "inv s \<Longrightarrow> inv (s\<lparr>online := b\<rparr>)"
      "inv s \<Longrightarrow> inv (s\<lparr>connectRequested := b\<rparr>)" "inv s \<Longrightarrow> inv (s\<lparr>ready := b\<rparr>)"
begin

lemma keeps_outsideFs:
  assumes "\<And>s. \<exists>r v. effect s = (r, s\<lparr>fs := v\<rparr>)"
  shows "keeps A (outside effect) (\<lambda>_. {})"
proof (rule keeps_outside)
  fix s r s'
  assume "inv s" "effect s = (r, s')"
  moreover obtain q v where "effect s = (q, s\<lparr>fs := v\<rparr>)" using assms by blast
  ultimately show "inv s' \<and> set (trace s) \<subseteq> set (trace s') \<and> (\<forall>x. r = Some x \<longrightarrow> {} \<subseteq> set (trace s'))" using inv_vault(1) by auto
qed

lemma keeps_vault:
  "keeps A (sha256Text E t) (\<lambda>_. {})" "keeps A (vaultRead p) (\<lambda>_. {})" "keeps A (vaultModify p t) (\<lambda>_. {})"
  "keeps A (vaultCreate p t) (\<lambda>_. {})" "keeps A (parentFolder p) (\<lambda>_. {})"
proof -
  have same: "\<exists>v. s = s\<lparr>fs := v\<rparr>" for s :: "('a, 'm, 'z) synced_doc_scheme" by (rule exI [of _ "fs s"]) simp
  show "keeps A (sha256Text E t) (\<lambda>_. {})" "keeps A (vaultRead p) (\<lambda>_. {})"
    unfolding sha256Text_def vaultRead_def by (rule keeps_idle; blast)+
  show "keeps A (vaultModify p t) (\<lambda>_. {})" unfolding vaultModify_def
    by (rule keeps_outsideFs) (use same in auto)
  show "keeps A (vaultCreate p t) (\<lambda>_. {})" unfolding vaultCreate_def
    by (rule keeps_outsideFs) (use same in \<open>auto split: sum.split\<close>)
  show "keeps A (parentFolder p) (\<lambda>_. {})" unfolding parentFolder_def
    by (intro keeps_then keeps_caught keeps_ret keeps_outsideFs) blast
qed

lemma keeps_readFromDisk: "keeps A (readFromDisk E) (\<lambda>_. {})"
  unfolding readFromDisk_def by (intro keeps_rules keeps_vault)

lemma keeps_noteKept: "keeps A (sync (noted (kept c))) (\<lambda>_. {kept c})"
  by (rule keeps_sync) (auto simp: inv_kept, simp_all add: noted_def)

lemma keeps_preserveText: "keeps A (preserveText E kept c src) (\<lambda>_. {kept c})"
proof -
  have kept: "keeps A (seq (sync (noted (kept c))) (\<lambda>_. ret d)) (\<lambda>_. {kept c})" for d
  proof -
    have "keeps (A \<union> {kept c}) (ret d) (\<lambda>_. {kept c})" unfolding keeps_def ret_def by auto
    then show ?thesis by (rule keeps_seq [OF keeps_noteKept])
  qed
  show ?thesis unfolding preserveText_def Let_def
    by (rule keeps_seen, rule keeps_then [OF keeps_vault(5)], rule keeps_then [OF keeps_vault(4)], rule kept)
qed

lemma keeps_preserved: "keeps A (preserveText E kept c src) (\<lambda>_. {})"
  using keeps_preserveText [of A E c src] unfolding keeps_def by (metis Un_upper1 keepsRun_mono sup_bot_right)

lemma keeps_scanCopies: "keeps A (scanCopies E kept c src ps) (\<lambda>_. {})"
proof (induction ps)
  case Nil
  then show ?case unfolding scanCopies.simps by (intro keeps_rules keeps_preserved)
next
  case (Cons p ps)
  show ?case unfolding scanCopies.simps by (intro keeps_rules keeps_vault Cons)
qed

lemma keeps_updateConflict: "keeps A (updateConflict E kept c src p) (\<lambda>_. {})"
proof -
  have "keeps A (sync (noted (kept c))) (\<lambda>_. {})"
    by (rule keeps_sync) (auto simp: inv_kept, simp_all add: noted_def)
  then show ?thesis unfolding updateConflict_def Let_def by (intro keeps_rules keeps_vault keeps_scanCopies)
qed

lemma keeps_flushPersistence: "keeps A flushPersistence (\<lambda>_. {})"
  unfolding flushPersistence_def by (intro keeps_rules keeps_idle) blast

lemma inv_onRecord: "inv s \<Longrightarrow> inv (onRecord f s)" "trace (onRecord f s) = trace s"
  by (simp_all add: onRecord_def inv_vault)

lemma keeps_record:
  "keeps A (sync (noteMaterialized E k)) (\<lambda>_. {})" "keeps A (sync (noteContentAcknowledged E k fp b)) (\<lambda>_. {})"
  "keeps A (sync (noteStoredDisk E k fp)) (\<lambda>_. {})" "keeps A (sync (beginOwnWrite p)) (\<lambda>_. {})"
  "keeps A (sync (releaseWrite p)) (\<lambda>_. {})" "keeps A (sync noteTextActivity) (\<lambda>_. {})" "keeps A (sync releaseTick) (\<lambda>_. {})"
  by (rule keeps_quiet; simp add: noteMaterialized_def noteContentAcknowledged_def noteStoredDisk_def beginOwnWrite_def releaseWrite_def
      noteTextActivity_def releaseTick_def inv_onRecord inv_vault Let_def split: list.split)+

lemma keeps_recordStored: "keeps A (recordStoredDiskContent E k t) (\<lambda>_. {})"
  unfolding recordStoredDiskContent_def by (intro keeps_rules keeps_vault keeps_flushPersistence keeps_record)

lemma keeps_storeContains: "keeps A (storeContainsDiskContent E t) (\<lambda>_. {})"
  unfolding storeContainsDiskContent_def by (intro keeps_rules keeps_vault)

lemma keeps_scheduleAcknowledged: "keeps A (sync scheduleAcknowledgedContent) (\<lambda>_. {})"
  by (rule keeps_quiet) (simp_all add: scheduleAcknowledgedContent_def inv_fields)

lemma keeps_recordAcknowledged: "keeps A (recordAcknowledgedContent E k serialize) (\<lambda>_. {})"
proof -
  have f: "keeps A (sync (\<lambda>s. s\<lparr>contentFingerprint := c\<rparr>)) (\<lambda>_. {})"
    "keeps A (sync (\<lambda>s. if contentFingerprint s = c then s\<lparr>contentFingerprint := None\<rparr> else s)) (\<lambda>_. {})" for c
    by (rule keeps_quiet; simp add: inv_fields)+
  show ?thesis unfolding recordAcknowledgedContent_def Let_def
    by (intro keeps_rules f keeps_record keeps_scheduleAcknowledged keeps_idle) blast
qed

lemma keeps_initDoc:
  assumes "keeps A after (\<lambda>_. {})"
  shows "keeps A (initDoc E nonempty after) (\<lambda>_. {})"
proof -
  have f: "keeps A (sync (\<lambda>s. s\<lparr>loadedStoredState := nonempty s\<rparr>)) (\<lambda>_. {})" "keeps A (sync resolveWhenReady) (\<lambda>_. {})"
    "keeps A (sync (\<lambda>s. let s1 = s\<lparr>persistenceReady := True\<rparr>
              in if \<not> destroyed s1 \<and> (autoConnect E \<or> connectRequested s1) then connectProvider s1 else s1)) (\<lambda>_. {})"
    by (rule keeps_quiet; simp add: inv_fields resolveWhenReady_def connectProvider_def Let_def)+
  show ?thesis unfolding initDoc_def by (intro keeps_rules f assms keeps_idle) blast
qed

lemma keeps_hibernation: "keeps A (prepareForHibernation c) (\<lambda>_. {})"
  unfolding prepareForHibernation_def Let_def by (intro keeps_rules keeps_idle) blast

lemma keeps_recoveryLoop: "keeps A (recoveryLoop n E kept serialize) (\<lambda>_. {})"
proof (induction n)
  case (Suc n)
  have f: "keeps A (sync (\<lambda>s. s\<lparr>readOnlyRecoveryRequested := False\<rparr>)) (\<lambda>_. {})"
    "keeps A (sync (\<lambda>t. if destroyed t then t else t\<lparr>readOnlyRecoveryBaseline := c,
       readOnlyRecoveryPath := (case p of Some _ \<Rightarrow> p | None \<Rightarrow> readOnlyRecoveryPath t)\<rparr>)) (\<lambda>_. {})" for c p
    by (rule keeps_quiet; simp add: inv_fields)+
  show ?case unfolding recoveryLoop.simps by (intro keeps_rules f Suc keeps_updateConflict)
qed (simp add: keeps_waitFor)

lemma keeps_preserveReadOnly: "keeps A (preserveReadOnlyRecovery n E kept serialize) (\<lambda>_. {})"
proof -
  have f: "keeps A (sync (\<lambda>s. s\<lparr>readOnlyRecoveryRequested := b\<rparr>)) (\<lambda>_. {})" "keeps A (sync (\<lambda>s. s\<lparr>readOnlyRecoveryPending := b\<rparr>)) (\<lambda>_. {})" for b
    by (rule keeps_quiet; simp add: inv_fields)+
  show ?thesis unfolding preserveReadOnlyRecovery_def by (intro keeps_rules f keeps_recoveryLoop)
qed

end

end
