(* ===== verification/Disk_Writer.thy ===== *)
theory Disk_Writer
  imports Synced_Doc
begin

text \<open>
  What the documents that keep a file have in common (\<open>Document\<close> and \<open>StructuredDocument\<close>): disk writes run one at a
  time, and a request made during one waits for it and is shared by all further requests; a write compares the file
  with the content that is accounted for; the startup reconciliation comes before the first write. A promise is a
  number; its result is recorded once it is fulfilled. The kind of document gives the serialized content (\<open>content\<close>), when it
  leaves the file alone because an editor owns it (\<open>suppressed\<close>), and what it does with an edit it finds on disk.

  The trace records why a document replaces a text, on disk or shared: \<open>Knows\<close> for a content of the file it
  accounts for, \<open>Shares\<close> for a version it puts in place of another, \<open>DiskWrite\<close> for a write it starts. \<open>diskOk\<close> says when each
  of them is justified.
\<close>

section \<open>State\<close>

text \<open>Why a content of the file is known.\<close>

datatype known_why = InShared | FoldedIn | Written | AtStartup | UnderEditor nat | AfterFailure

text \<open>What a write replaces: no file, a content, or one that could not be compared with what is known.\<close>

datatype overwritten = NoFile | Holding jstr | Unparsed jstr

datatype ('v, 'w) doc_action =
    Kept jstr
  | SharedWas jstr
  | Knows jstr known_why
  | Shares 'v 'v 'w
  | DiskWrite overwritten jstr "jstr option" bool
  | Reconciled

record ('a, 'm) disk_doc = "('a, 'm) synced_doc" +
  removing :: bool
  writingTextToDisk :: "jstr option"
  diskKnownContent :: "jstr option"
  writeRunning :: "nat option"
  writeQueued :: "nat option"
  nextWrite :: nat
  writeResults :: "(nat, bool) jmap"
  writeTimer :: bool
  localChangedAtStartup :: bool
  startupReconciled :: bool
  startupReconciling :: bool
  forceBootstrapConflict :: bool
  startupRetries :: nat
  preservedStartupRemote :: "jstr option"

type_synonym ('v, 'w, 'm, 'z) kept_doc = "(('v, 'w) doc_action, 'm, 'z) disk_doc_scheme"

section \<open>Writes, one at a time\<close>

definition scheduleWriteToDisk :: "('a, 'm, 'z) disk_doc_scheme \<Rightarrow> ('a, 'm, 'z) disk_doc_scheme" where
  "scheduleWriteToDisk s = s\<lparr>writeTimer := True\<rparr>"

definition fulfil :: "nat \<Rightarrow> bool \<Rightarrow> ('a, 'm, 'z) disk_doc_scheme \<Rightarrow> ('a, 'm, 'z) disk_doc_scheme" where
  "fulfil p b s = s\<lparr>writeResults := jset (writeResults s) p b\<rparr>"

definition awaitWrite :: "nat \<Rightarrow> (('a, 'm, 'z) disk_doc_scheme, bool) code" where
  "awaitWrite p = seq (waitFor (\<lambda>s. jhas (writeResults s) p)) (\<lambda>_. seen (\<lambda>s. ret (jget (writeResults s) p = Some True)))"

text \<open>\<open>write\<close> is the write itself; its \<open>finally\<close> runs a turn after it has ended.\<close>

definition startWrite :: "(('a, 'm, 'z) disk_doc_scheme, bool) code \<Rightarrow> (('a, 'm, 'z) disk_doc_scheme, nat) code" where
  "startWrite write = seen (\<lambda>s.
     let p = nextWrite s
     in seq (sync (\<lambda>s. s\<lparr>nextWrite := p + 1\<rparr>)) (\<lambda>_.
        seq (fork (seq write (\<lambda>b. seq (waitFor (\<lambda>_. True)) (\<lambda>_.
               sync (\<lambda>s. fulfil p b (if writeRunning s = Some p then s\<lparr>writeRunning := None\<rparr> else s)))))) (\<lambda>_.
        seq (sync (\<lambda>s. s\<lparr>writeRunning := Some p\<rparr>)) (\<lambda>_. ret p))))"

definition requestWrite :: "(('a, 'm, 'z) disk_doc_scheme, nat) code \<Rightarrow> (('a, 'm, 'z) disk_doc_scheme, nat) code" where
  "requestWrite start = seen (\<lambda>s.
     case writeQueued s of
       Some q \<Rightarrow> ret q
     | None \<Rightarrow>
         (case writeRunning s of
            None \<Rightarrow> start
          | Some running \<Rightarrow>
              (let q = nextWrite s
               in seq (sync (\<lambda>s. s\<lparr>nextWrite := q + 1\<rparr>)) (\<lambda>_.
                  seq (fork (seq (awaitWrite running) (\<lambda>_. seq (sync (\<lambda>s. s\<lparr>writeQueued := None\<rparr>)) (\<lambda>_.
                         seq start (\<lambda>p. seq (awaitWrite p) (\<lambda>b. sync (fulfil q b))))))) (\<lambda>_.
                  seq (sync (\<lambda>s. s\<lparr>writeQueued := Some q\<rparr>)) (\<lambda>_. ret q))))))"

section \<open>A write\<close>

text \<open>The file is known to hold \<open>txt\<close>.\<close>

definition know :: "known_why \<Rightarrow> jstr \<Rightarrow> ('v, 'w, 'm, 'z) kept_doc \<Rightarrow> ('v, 'w, 'm, 'z) kept_doc" where
  "know why txt s = noted (Knows txt why) (s\<lparr>diskKnownContent := Some txt\<rparr>)"

definition noteDiskContent ::
  "('m, 'e) synced_env_scheme \<Rightarrow> materialized_kind \<Rightarrow> known_why \<Rightarrow> jstr \<Rightarrow> (('v, 'w, 'm, 'z) kept_doc, unit) code" where
  "noteDiskContent E k why txt = seq (sync (know why txt)) (\<lambda>_. seen (\<lambda>s.
     if readOnly s then ret () else fork (recordStoredDiskContent E k txt)))"

text \<open>The disk holds what the shared content is.\<close>

definition noteSharedContent :: "('m, 'e) synced_env_scheme \<Rightarrow> materialized_kind \<Rightarrow> jstr \<Rightarrow> (('v, 'w, 'm, 'z) kept_doc, unit) code" where
  "noteSharedContent E k txt = seq (sync (noted (SharedWas txt))) (\<lambda>_. noteDiskContent E k InShared txt)"

text \<open>The file holds \<open>txt\<close>, which has been written (\<open>why\<close>) or was there.\<close>

definition settleContent ::
  "('m, 'e) synced_env_scheme \<Rightarrow> materialized_kind \<Rightarrow> (('v, 'w, 'm, 'z) kept_doc \<Rightarrow> jstr) \<Rightarrow> known_why \<Rightarrow> jstr
     \<Rightarrow> (('v, 'w, 'm, 'z) kept_doc, bool) code" where
  "settleContent E k content why txt = seq (noteDiskContent E k why txt) (\<lambda>_. seq (sync (noteMaterialized E k)) (\<lambda>_.
     seq (recordAcknowledgedContent E k content) (\<lambda>_. ret True)))"

text \<open>The write itself, between \<open>beginOwnWrite\<close> and its release.\<close>

definition ownWrite ::
  "('m, 'e) synced_env_scheme \<Rightarrow> materialized_kind \<Rightarrow> (('v, 'w, 'm, 'z) kept_doc \<Rightarrow> jstr) \<Rightarrow> jstr \<Rightarrow> jstr
     \<Rightarrow> (('v, 'w, 'm, 'z) kept_doc, unit) code \<Rightarrow> (('v, 'w, 'm, 'z) kept_doc, bool) code" where
  "ownWrite E k content path txt write = seq (sync (beginOwnWrite path)) (\<lambda>_. seq (settled write) (\<lambda>r.
     seq (sync (releaseWrite path)) (\<lambda>_. if r = None then throw else seen (\<lambda>s.
       if destroyed s then ret False else settleContent E k content Written txt))))"

text \<open>
  Over a file that was read to hold \<open>current\<close>: \<open>edit\<close> gives what folds it in when it is an edit whose event has not
  been handled yet, \<open>held\<close> is what the write replaces.
\<close>

definition writeOver ::
  "('m, 'e) synced_env_scheme \<Rightarrow> materialized_kind \<Rightarrow> (('v, 'w, 'm, 'z) kept_doc \<Rightarrow> jstr) \<Rightarrow> (('v, 'w, 'm, 'z) kept_doc \<Rightarrow> bool)
     \<Rightarrow> (('v, 'w, 'm, 'z) kept_doc \<Rightarrow> jstr \<Rightarrow> (('v, 'w, 'm, 'z) kept_doc, unit) code option)
     \<Rightarrow> (('v, 'w, 'm, 'z) kept_doc \<Rightarrow> jstr \<Rightarrow> overwritten) \<Rightarrow> jstr \<Rightarrow> jstr \<Rightarrow> (('v, 'w, 'm, 'z) kept_doc, bool) code" where
  "writeOver E k content suppressed edit held txt current = seen (\<lambda>s.
     if destroyed s then ret False
     else if current = txt then settleContent E k content InShared txt
     else if suppressed s then seq (sync (noteMaterialized E k)) (\<lambda>_. ret True)
     else if content s \<noteq> txt then ret False
     else case edit s current of
       Some takeIn \<Rightarrow> seq takeIn (\<lambda>_. ret False)
     | None \<Rightarrow>
         seq (sync (noted (DiskWrite (held s current) txt (diskKnownContent s) (destroyed s \<or> suppressed s \<or> \<not> startupReconciled s)))) (\<lambda>_.
         ownWrite E k content (docPath E) txt (vaultModify (docPath E) txt)))"

definition writeNew ::
  "('m, 'e) synced_env_scheme \<Rightarrow> materialized_kind \<Rightarrow> (('v, 'w, 'm, 'z) kept_doc \<Rightarrow> jstr) \<Rightarrow> jstr \<Rightarrow> (('v, 'w, 'm, 'z) kept_doc, bool) code" where
  "writeNew E k content txt = seen (\<lambda>s.
     let path = normalizePath (recovery E) (docPath E)
     in if removing s then ret False
        else seq (parentFolder path) (\<lambda>_. seen (\<lambda>s.
          if destroyed s \<or> content s \<noteq> txt then ret False
          else seq (sync (noted (DiskWrite NoFile txt (diskKnownContent s) (destroyed s \<or> \<not> startupReconciled s)))) (\<lambda>_.
               ownWrite E k content path txt (vaultCreate path txt)))))"

definition writeAttempt ::
  "('m, 'e) synced_env_scheme \<Rightarrow> materialized_kind \<Rightarrow> (('v, 'w, 'm, 'z) kept_doc \<Rightarrow> jstr) \<Rightarrow> (('v, 'w, 'm, 'z) kept_doc \<Rightarrow> bool)
     \<Rightarrow> (('v, 'w, 'm, 'z) kept_doc \<Rightarrow> jstr \<Rightarrow> (('v, 'w, 'm, 'z) kept_doc, unit) code option)
     \<Rightarrow> (('v, 'w, 'm, 'z) kept_doc \<Rightarrow> jstr \<Rightarrow> overwritten) \<Rightarrow> jstr \<Rightarrow> (('v, 'w, 'm, 'z) kept_doc, bool) code" where
  "writeAttempt E k content suppressed edit held txt = seen (\<lambda>s.
     if fileAt s (docPath E) = None then writeNew E k content txt
     else if suppressed s then seq (sync (noteMaterialized E k)) (\<lambda>_. ret True)
     else seq (vaultRead (docPath E)) (writeOver E k content suppressed edit held txt))"

text \<open>\<open>failed\<close> is the \<open>catch\<close> block.\<close>

definition writeCurrent ::
  "(('v, 'w, 'm, 'z) kept_doc \<Rightarrow> jstr) \<Rightarrow> (jstr \<Rightarrow> (('v, 'w, 'm, 'z) kept_doc, bool) code) \<Rightarrow> (('v, 'w, 'm, 'z) kept_doc, unit) code
     \<Rightarrow> (('v, 'w, 'm, 'z) kept_doc, bool) code" where
  "writeCurrent content attempt failed = seen (\<lambda>s.
     if destroyed s then ret False
     else let txt = content s
          in seq (sync (\<lambda>s. noted (SharedWas txt) (s\<lparr>writingTextToDisk := Some txt\<rparr>))) (\<lambda>_.
             seq (settled (attempt txt)) (\<lambda>r.
             seq (if r = None then failed else ret ()) (\<lambda>_.
             seq (sync (\<lambda>s. s\<lparr>writingTextToDisk := None\<rparr>)) (\<lambda>_. ret (r = Some True))))))"

section \<open>Startup\<close>

definition markReconciled :: "('v, 'w, 'm, 'z) kept_doc \<Rightarrow> ('v, 'w, 'm, 'z) kept_doc" where
  "markReconciled s = noted Reconciled (s\<lparr>startupReconciled := True\<rparr>)"

text \<open>The first write, unless the file is left alone.\<close>

definition startupWrite ::
  "('m, 'e) synced_env_scheme \<Rightarrow> materialized_kind \<Rightarrow> (('v, 'w, 'm, 'z) kept_doc \<Rightarrow> jstr) \<Rightarrow> (('v, 'w, 'm, 'z) kept_doc \<Rightarrow> bool)
     \<Rightarrow> (('v, 'w, 'm, 'z) kept_doc, nat) code \<Rightarrow> (('v, 'w, 'm, 'z) kept_doc, bool) code" where
  "startupWrite E k content leaves write = seen (\<lambda>s.
     let exists = (fileAt s (docPath E) \<noteq> None);
         rest = (\<lambda>materialized. seen (\<lambda>s.
           if \<not> materialized \<or> destroyed s then ret False
           else seq (sync (\<lambda>s. s\<lparr>startupReady := True\<rparr>)) (\<lambda>_. seq (recordAcknowledgedContent E k content) (\<lambda>_. ret True))))
     in if \<not> leaves s then seq write (\<lambda>p. seq (awaitWrite p) rest)
        else seq (if exists then sync (noteMaterialized E k) else ret ()) (\<lambda>_. rest exists))"

text \<open>\<open>merge\<close> is the merge, \<open>False\<close> when it has to be tried again; \<open>first\<close> the first write.\<close>

definition finishStartup ::
  "(('v, 'w, 'm, 'z) kept_doc, bool) code \<Rightarrow> (('v, 'w, 'm, 'z) kept_doc, bool) code \<Rightarrow> (('v, 'w, 'm, 'z) kept_doc, unit) code" where
  "finishStartup merge first = seen (\<lambda>s.
     if startupReady s \<or> startupReconciling s \<or> destroyed s then ret ()
     else seq (sync (\<lambda>s. s\<lparr>startupReconciling := True\<rparr>)) (\<lambda>_.
          seq (settled (seq merge (\<lambda>go. if go then first else ret False))) (\<lambda>r.
          sync (\<lambda>s. let s1 = s\<lparr>startupReconciling := False\<rparr>
                    in if r = Some True then resolveWhenReady s1
                       else if destroyed s1 then s1 else s1\<lparr>startupRetries := startupRetries s1 + 1\<rparr>))))"

section \<open>Invariants\<close>

text \<open>An invariant that does not speak of the writer's bookkeeping.\<close>

locale disk_writer = synced inv kept
  for inv :: "('a, 'm, 'z) disk_doc_scheme \<Rightarrow> bool" and kept :: "jstr \<Rightarrow> 'a" +
  assumes inv_writer: "inv s \<Longrightarrow> inv (s\<lparr>writingTextToDisk := x\<rparr>)" "inv s \<Longrightarrow> inv (s\<lparr>nextWrite := n\<rparr>)"
    "inv s \<Longrightarrow> inv (s\<lparr>writeRunning := p\<rparr>)" "inv s \<Longrightarrow> inv (s\<lparr>writeQueued := p\<rparr>)" "inv s \<Longrightarrow> inv (s\<lparr>writeResults := r\<rparr>)"
    "inv s \<Longrightarrow> inv (s\<lparr>writeTimer := b\<rparr>)" "inv s \<Longrightarrow> inv (s\<lparr>startupReconciling := b\<rparr>)" "inv s \<Longrightarrow> inv (s\<lparr>startupRetries := n\<rparr>)"
begin

lemma keeps_writer:
  "keeps A (sync (\<lambda>s. s\<lparr>writingTextToDisk := x\<rparr>)) (\<lambda>_. {})" "keeps A (sync (\<lambda>s. s\<lparr>nextWrite := m\<rparr>)) (\<lambda>_. {})"
  "keeps A (sync (\<lambda>s. s\<lparr>writeRunning := p\<rparr>)) (\<lambda>_. {})" "keeps A (sync (\<lambda>s. s\<lparr>writeQueued := p\<rparr>)) (\<lambda>_. {})"
  "keeps A (sync (fulfil q b)) (\<lambda>_. {})" "keeps A (sync scheduleWriteToDisk) (\<lambda>_. {})"
  "keeps A (sync (\<lambda>s. fulfil q b (if writeRunning s = p then s\<lparr>writeRunning := None\<rparr> else s))) (\<lambda>_. {})"
  "keeps A (sync (\<lambda>s. s\<lparr>startupReconciling := c\<rparr>)) (\<lambda>_. {})"
  by (rule keeps_quiet; simp add: inv_writer fulfil_def scheduleWriteToDisk_def)+

lemma keeps_awaitWrite: "keeps A (awaitWrite p) (\<lambda>_. {})"
  unfolding awaitWrite_def by (intro keeps_rules)

lemma keeps_startWrite: "keeps A write (\<lambda>_. {}) \<Longrightarrow> keeps A (startWrite write) (\<lambda>_. {})"
  unfolding startWrite_def Let_def by (intro keeps_rules keeps_writer)

lemma keeps_requestWrite:
  assumes "keeps A start (\<lambda>_. {})"
  shows "keeps A (requestWrite start) (\<lambda>_. {})"
  unfolding requestWrite_def Let_def by (intro keeps_rules keeps_awaitWrite keeps_writer assms)

text \<open>The end of a startup reconciliation.\<close>

lemma keeps_startupOver:
  "keeps A (sync (\<lambda>s. let s1 = s\<lparr>startupReconciling := False\<rparr> in if r = Some True then resolveWhenReady s1
     else if destroyed s1 then s1 else s1\<lparr>startupRetries := startupRetries s1 + 1\<rparr>)) (\<lambda>_. {})"
  by (rule keeps_quiet) (simp_all add: inv_writer inv_fields resolveWhenReady_def Let_def)

end

section \<open>Justified actions\<close>

text \<open>
  The file is only written with a text the shared content was, when no editor owns it and after the startup reconciliation; a
  content that is overwritten is the one accounted for, unless nothing was known of the file, or the content could not be compared and the kind of document
  is not \<open>strict\<close>. \<open>shareOk\<close> is the kind's condition for replacing the shared content, and \<open>folds\<close> says which version on disk a replacement takes in.
\<close>

fun diskOk ::
  "(('v, 'w) doc_action list \<Rightarrow> 'v \<Rightarrow> 'v \<Rightarrow> 'w \<Rightarrow> bool) \<Rightarrow> (jstr \<Rightarrow> 'w \<Rightarrow> bool) \<Rightarrow> bool \<Rightarrow> ('v, 'w) doc_action list \<Rightarrow> ('v, 'w) doc_action \<Rightarrow> bool" where
  "diskOk shareOk folds strict earlier (Knows d InShared) \<longleftrightarrow> SharedWas d \<in> set earlier"
| "diskOk shareOk folds strict earlier (Knows d FoldedIn) \<longleftrightarrow> (\<exists>old new why. Shares old new why \<in> set earlier \<and> folds d why)"
| "diskOk shareOk folds strict earlier (Knows d Written) \<longleftrightarrow> (\<exists>c k b. DiskWrite c d k b \<in> set earlier)"
| "diskOk shareOk folds strict earlier (Knows d (UnderEditor n)) \<longleftrightarrow> n > 0"
| "diskOk shareOk folds strict earlier (Shares old new why) \<longleftrightarrow> shareOk earlier old new why"
| "diskOk shareOk folds strict earlier (DiskWrite current txt known blocked) \<longleftrightarrow> \<not> blocked \<and> SharedWas txt \<in> set earlier
     \<and> (case current of
          NoFile \<Rightarrow> True
        | Holding c \<Rightarrow> known = None \<or> known = Some c \<and> (\<exists>why. Knows c why \<in> set earlier)
        | Unparsed c \<Rightarrow> known = None \<or> \<not> strict)"
| "diskOk shareOk folds strict earlier _ \<longleftrightarrow> True"

definition diskInv :: "(('v, 'w) doc_action list \<Rightarrow> ('v, 'w) doc_action \<Rightarrow> bool) \<Rightarrow> ('v, 'w, 'm, 'z) kept_doc \<Rightarrow> bool" where
  "diskInv ok s \<longleftrightarrow> justified ok [] (trace s)
     \<and> (\<forall>d. diskKnownContent s = Some d \<longrightarrow> (\<exists>why. Knows d why \<in> set (trace s)))
     \<and> (\<forall>t. preservedStartupRemote s = Some t \<longrightarrow> Kept t \<in> set (trace s))
     \<and> (startupReady s \<longrightarrow> Reconciled \<in> set (trace s)) \<and> (startupReconciled s \<longleftrightarrow> Reconciled \<in> set (trace s))"

definition newDocument :: "('v, 'w, 'm, 'z) kept_doc \<Rightarrow> bool" where
  "newDocument s \<longleftrightarrow> trace s = [] \<and> diskKnownContent s = None \<and> preservedStartupRemote s = None \<and> \<not> startupReady s \<and> \<not> startupReconciled s"

lemma diskInv_new: "newDocument s \<Longrightarrow> diskInv ok s"
  by (simp add: newDocument_def diskInv_def)

lemma diskInv_noted:
  assumes "diskInv ok s" "ok (trace s) a" "a \<noteq> Reconciled"
  shows "diskInv ok (noted a s)"
  using assms by (auto simp: diskInv_def noted_def justified_append)

lemma trace_noted [simp]: "trace (noted a s) = trace s @ [a]"
  by (simp add: noted_def)

interpretation dw: disk_writer "diskInv (diskOk S F b) :: ('v, 'w, 'm, 'z) kept_doc \<Rightarrow> bool" Kept
  for S :: "('v, 'w) doc_action list \<Rightarrow> 'v \<Rightarrow> 'v \<Rightarrow> 'w \<Rightarrow> bool" and F b
proof
  fix s :: "('v, 'w, 'm, 'z) kept_doc" and c
  assume "diskInv (diskOk S F b) s"
  then show "diskInv (diskOk S F b) (noted (Kept c) s)" by (rule diskInv_noted) simp_all
qed (simp_all add: diskInv_def)

lemma diskInv_know:
  assumes "diskInv ok s" "ok (trace s) (Knows d why)"
  shows "diskInv ok (know why d s)"
proof -
  have "diskInv ok (noted (Knows d why) s)" by (rule diskInv_noted [OF assms]) simp
  then show ?thesis by (auto simp: diskInv_def know_def noted_def)
qed

lemma trace_know [simp]: "trace (know why d s) = trace s @ [Knows d why]"
  by (simp add: know_def noted_def)

subsection \<open>Writes\<close>

lemmas keepsR = dw.keeps_rules

lemma keeps_know:
  assumes "\<And>tr. A \<subseteq> set tr \<Longrightarrow> diskOk S F b tr (Knows d why)"
  shows "dw.keeps S F b A (sync (know why d)) (\<lambda>_. {})"
  by (rule dw.keeps_sync) (auto intro!: diskInv_know assms)

lemma keeps_noteDisk:
  assumes "\<And>tr. A \<subseteq> set tr \<Longrightarrow> diskOk S F b tr (Knows d why)"
  shows "dw.keeps S F b A (noteDiskContent E k why d) (\<lambda>_. {})"
  unfolding noteDiskContent_def by (intro keepsR keeps_know dw.keeps_recordStored assms)

lemma keeps_noted:
  assumes "\<And>tr. A \<subseteq> set tr \<Longrightarrow> diskOk S F b tr a" "a \<noteq> Reconciled"
  shows "dw.keeps S F b A (sync (noted a)) (\<lambda>_. {a})"
  by (rule dw.keeps_sync) (auto intro!: diskInv_noted assms)

lemma keeps_noteShared: "dw.keeps S F b A (noteSharedContent E k d) (\<lambda>_. {})"
  unfolding noteSharedContent_def by (rule dw.keeps_seq [OF keeps_noted]) (auto intro!: keeps_noteDisk)

lemma keeps_settleContent:
  assumes "\<And>tr. A \<subseteq> set tr \<Longrightarrow> diskOk S F b tr (Knows t why)"
  shows "dw.keeps S F b A (settleContent E k content why t) (\<lambda>_. {})"
  unfolding settleContent_def by (intro keepsR dw.keeps_record dw.keeps_recordAcknowledged keeps_noteDisk assms)

lemma keeps_ownWrite:
  assumes "DiskWrite c t kn bl \<in> A" "dw.keeps S F b A w (\<lambda>_. {})"
  shows "dw.keeps S F b A (ownWrite E k content p t w) (\<lambda>_. {})"
proof -
  have "diskOk S F b tr (Knows t Written)" if "A \<subseteq> set tr" for tr using assms(1) that by fastforce
  then show ?thesis unfolding ownWrite_def by (intro keepsR dw.keeps_record keeps_settleContent assms(2))
qed

lemma keeps_diskWrite:
  assumes "\<And>tr. A \<subseteq> set tr \<Longrightarrow> diskOk S F b tr (DiskWrite c t kn bl)"
    and "\<And>B. dw.keeps S F b B w (\<lambda>_. {})"
  shows "dw.keeps S F b A (seq (sync (noted (DiskWrite c t kn bl))) (\<lambda>_. ownWrite E k content p t w)) (\<lambda>_. {})"
proof (rule dw.keeps_seq [OF keeps_noted [OF assms(1)]])
  show "dw.keeps S F b (A \<union> {DiskWrite c t kn bl}) (ownWrite E k content p t w) (\<lambda>_. {})"
    by (rule keeps_ownWrite [of c t kn bl, OF _ assms(2)]) simp
qed auto

text \<open>What is asked of \<open>edit\<close> and \<open>held\<close>.\<close>

definition checksEdits ::
  "bool \<Rightarrow> (('v, 'w, 'm, 'z) kept_doc \<Rightarrow> jstr \<Rightarrow> (('v, 'w, 'm, 'z) kept_doc, unit) code option) \<Rightarrow> (('v, 'w, 'm, 'z) kept_doc \<Rightarrow> jstr \<Rightarrow> overwritten) \<Rightarrow> bool" where
  "checksEdits strict edit held \<longleftrightarrow> (\<forall>s cur. edit s cur = None \<longrightarrow> diskKnownContent s \<noteq> None \<longrightarrow>
     (case held s cur of NoFile \<Rightarrow> True | Holding c \<Rightarrow> diskKnownContent s = Some c | Unparsed _ \<Rightarrow> \<not> strict))"

lemma keeps_writeOver:
  assumes "Reconciled \<in> A" "SharedWas t \<in> A" "checksEdits b edit held"
    and "\<And>A s cur takeIn. edit s cur = Some takeIn \<Longrightarrow> dw.keeps S F b A takeIn (\<lambda>_. {})"
  shows "dw.keeps S F b A (writeOver E k content suppressed edit held t cur) (\<lambda>_. {})"
  unfolding writeOver_def
proof (rule dw.keeps_seenFacts, goal_cases)
  case (1 s)
  note s = 1
  let ?a = "DiskWrite (held s cur) t (diskKnownContent s) (destroyed s \<or> suppressed s \<or> \<not> startupReconciled s)"
  have w: "dw.keeps S F b (set (trace s)) (seq (sync (noted ?a)) (\<lambda>_. ownWrite E k content (docPath E) t (vaultModify (docPath E) t))) (\<lambda>_. {})"
    if n: "\<not> destroyed s" "\<not> suppressed s" "edit s cur = None"
  proof (intro keeps_diskWrite dw.keeps_vault)
    fix tr
    assume tr: "set (trace s) \<subseteq> set tr"
    have "\<forall>c. diskKnownContent s = Some c \<longrightarrow> (\<exists>why. Knows c why \<in> set tr)" "startupReconciled s" "SharedWas t \<in> set tr"
      using s assms(1,2) tr unfolding diskInv_def by blast+
    moreover have "diskKnownContent s \<noteq> None \<Longrightarrow> (case held s cur of NoFile \<Rightarrow> True | Holding c \<Rightarrow> diskKnownContent s = Some c | Unparsed _ \<Rightarrow> \<not> b)"
      using assms(3) n(3) unfolding checksEdits_def by blast
    ultimately show "diskOk S F b tr ?a"
      using n by (auto split: overwritten.splits)
  qed
  show ?case
    by (intro dw.keeps_if dw.keeps_ret dw.keeps_some dw.keeps_then [OF assms(4)] dw.keeps_then [OF dw.keeps_record(1)] keeps_settleContent w)
       (use s assms(2) in auto)
qed

lemma keeps_writeNew:
  assumes "Reconciled \<in> A" "SharedWas t \<in> A"
  shows "dw.keeps S F b A (writeNew E k content t) (\<lambda>_. {})"
proof -
  have w: "\<And>kn p. dw.keeps S F b A (seq (sync (noted (DiskWrite NoFile t kn (d \<or> \<not> r)))) (\<lambda>_. ownWrite E k content p t (vaultCreate p t))) (\<lambda>_. {})"
    if "\<not> d" "r" for d r
    using that assms by (intro keeps_diskWrite dw.keeps_vault) auto
  show ?thesis unfolding writeNew_def Let_def
  proof (rule dw.keeps_seen, rule dw.keeps_if [OF dw.keeps_ret], rule dw.keeps_then [OF dw.keeps_vault(5)], rule dw.keeps_seen, goal_cases)
    case (1 s0 u s)
    then have "startupReconciled s" using assms(1) by (auto simp: diskInv_def)
    then show ?case
      using w [of "destroyed s" "startupReconciled s"] by (intro dw.keeps_if dw.keeps_ret) simp
  qed
qed

lemma keeps_writeAttempt:
  assumes "Reconciled \<in> A" "SharedWas t \<in> A" "checksEdits b edit held"
    and "\<And>A s cur takeIn. edit s cur = Some takeIn \<Longrightarrow> dw.keeps S F b A takeIn (\<lambda>_. {})"
  shows "dw.keeps S F b A (writeAttempt E k content suppressed edit held t) (\<lambda>_. {})"
  unfolding writeAttempt_def by (intro keepsR keeps_writeNew keeps_writeOver dw.keeps_record dw.keeps_vault assms)

lemma keeps_writeCurrent:
  assumes "\<And>A t. Reconciled \<in> A \<Longrightarrow> SharedWas t \<in> A \<Longrightarrow> dw.keeps S F b A (attempt t) (\<lambda>_. {})"
    and "\<And>A. dw.keeps S F b A failed (\<lambda>_. {})" "Reconciled \<in> A"
  shows "dw.keeps S F b A (startWrite (writeCurrent content attempt failed)) (\<lambda>_. {})"
proof -
  have start: "dw.keeps S F b A (sync (\<lambda>s. noted (SharedWas t) (s\<lparr>writingTextToDisk := Some t\<rparr>))) (\<lambda>_. {SharedWas t})" for t
    by (rule dw.keeps_sync) (auto intro!: diskInv_noted, simp add: diskInv_def)
  have "dw.keeps S F b (A \<union> {SharedWas t}) (seq (settled (attempt t)) (\<lambda>r. seq (if r = None then failed else ret ()) (\<lambda>_.
      seq (sync (\<lambda>s. s\<lparr>writingTextToDisk := None\<rparr>)) (\<lambda>_. ret (r = Some True))))) (\<lambda>_. {})" for t
    by (intro keepsR assms(1,2) dw.keeps_writer) (use assms(3) in auto)
  then show ?thesis unfolding writeCurrent_def Let_def
    by (intro dw.keeps_startWrite dw.keeps_seen dw.keeps_if dw.keeps_ret dw.keeps_seq [OF start])
qed

subsection \<open>Startup\<close>

lemma diskInv_markReconciled:
  "diskInv (diskOk S F b) s \<Longrightarrow> diskInv (diskOk S F b) (markReconciled s)" "trace (markReconciled s) = trace s @ [Reconciled]"
  by (auto simp: markReconciled_def diskInv_def noted_def justified_append)

lemma keeps_reconciled:
  assumes "\<And>s. diskInv (diskOk S F b) s \<Longrightarrow> A \<subseteq> set (trace s) \<Longrightarrow> diskInv (diskOk S F b) (f s) \<and> set (trace s) \<subseteq> set (trace (f s))"
  shows "dw.keeps S F b A (seq (sync (\<lambda>s. markReconciled (f s))) (\<lambda>_. ret True)) (\<lambda>b. if b then {Reconciled} else {})"
proof -
  have "dw.keeps S F b A (sync (\<lambda>s. markReconciled (f s))) (\<lambda>_. {Reconciled})"
  proof (rule dw.keeps_sync, goal_cases)
    case (1 s)
    with assms [of s] diskInv_markReconciled(1) [of S F b "f s"] show ?case
      by (auto simp: diskInv_markReconciled(2))
  qed
  then show ?thesis by (rule dw.keeps_seq) (rule dw.keeps_retFacts, simp)
qed

lemma keeps_mark: "dw.keeps S F b A (seq (sync markReconciled) (\<lambda>_. ret True)) (\<lambda>b. if b then {Reconciled} else {})"
  using keeps_reconciled [of S F b A "\<lambda>s. s"] by simp

lemma keeps_unmarked: "dw.keeps S F b A (ret False) (\<lambda>b. if b then {Reconciled} else {})"
  by (rule dw.keeps_retFacts) simp

text \<open>Code run before the merge, in a document that may have been reconciled already.\<close>

lemma keeps_unlessReconciled:
  assumes "\<And>s. diskInv (diskOk S F b) s \<Longrightarrow> A \<subseteq> set (trace s) \<Longrightarrow> dw.keeps S F b (set (trace s)) (m s) (\<lambda>b. if b then {Reconciled} else {})"
  shows "dw.keeps S F b A (seen (\<lambda>s. if startupReconciled s then ret True else m s)) (\<lambda>b. if b then {Reconciled} else {})"
proof (rule dw.keeps_seenFacts, rule dw.keeps_if, goal_cases)
  case (1 s)
  then show ?case by (intro dw.keeps_retFacts) (simp add: diskInv_def)
next
  case (2 s)
  then show ?case by (intro assms)
qed

lemma keeps_startupWrite:
  assumes "Reconciled \<in> A" "\<And>A. Reconciled \<in> A \<Longrightarrow> dw.keeps S F b A write (\<lambda>_. {})"
  shows "dw.keeps S F b A (startupWrite E k content leaves write) (\<lambda>_. {})"
proof -
  have f: "dw.keeps S F b A (sync (\<lambda>s. s\<lparr>startupReady := True\<rparr>)) (\<lambda>_. {})"
    by (rule dw.keeps_sync) (use assms(1) in \<open>auto simp: diskInv_def\<close>)
  show ?thesis unfolding startupWrite_def Let_def
    by (intro keepsR f dw.keeps_recordAcknowledged dw.keeps_awaitWrite dw.keeps_record assms)
qed

lemma keeps_finishStartup:
  assumes "dw.keeps S F b A merge (\<lambda>b. if b then {Reconciled} else {})" "\<And>A. Reconciled \<in> A \<Longrightarrow> dw.keeps S F b A first (\<lambda>_. {})"
  shows "dw.keeps S F b A (finishStartup merge first) (\<lambda>_. {})"
proof -
  have "dw.keeps S F b A (seq merge (\<lambda>go. if go then first else ret False)) (\<lambda>_. {})"
    by (rule dw.keeps_seq [OF assms(1)]) (intro dw.keeps_if dw.keeps_ret assms(2), simp)
  then show ?thesis unfolding finishStartup_def
    by (intro dw.keeps_seen dw.keeps_if dw.keeps_ret dw.keeps_then [OF dw.keeps_writer(8)] dw.keeps_then [OF dw.keeps_caught] dw.keeps_startupOver)
qed

text \<open>A write that waits for the startup.\<close>

lemma keeps_whenReady:
  assumes "\<And>A. Reconciled \<in> A \<Longrightarrow> dw.keeps S F b A write (\<lambda>_. {})" "\<And>s. \<not> stop s \<Longrightarrow> startupReady s"
  shows "dw.keeps S F b A (seen (\<lambda>s. if stop s then ret () else seq write (\<lambda>_. ret ()))) (\<lambda>_. {})"
proof (rule dw.keeps_seenFacts, goal_cases)
  case (1 s)
  then have "startupReady s \<Longrightarrow> Reconciled \<in> set (trace s)" by (simp add: diskInv_def)
  then show ?case using assms(2) by (intro keepsR assms(1)) simp
qed

end
