(* ===== verification/Text_Document.thy ===== *)
theory Text_Document
  imports Disk_Writer Text_Merge Text_Diff
begin

text \<open>
  A note: the class \<open>Document\<close> of \<open>src/src/Document.ts\<close>, which keeps a shared text and the file on disk in step.
  Every method is code of theory \<open>Async_Tasks\<close>, so they run concurrently: the startup reconciliation,
  vault events, disk writes (one at a time, a second one queued behind it), timers, editors, and the
  environment, which edits the file and the shared text, opens the note, answers the prompts and
  retires the document. The shared text is given by its operations (theory \<open>Text_Diff\<close>). Loops that go round once
  per change by others are bounded by a number; a task that exhausts it never goes on.

  What it shares with other documents that keep a file (the disk writes and the frame of the startup) is in theory \<open>Disk_Writer\<close>.
\<close>

section \<open>State\<close>

datatype text_conflict_choice = ChooseLocal | ChooseRemote

datatype share_why = FoldBy "jstr option" jstr | StartupBy jstr jstr bool

type_synonym text_action = "(jstr, share_why) doc_action"

record ('t, 'm) document = "(text_action, 'm) disk_doc" +
  ytext :: 't
  answers :: "nat \<Rightarrow> text_conflict_choice"
  asked :: nat
  boundEditors :: nat
  diskAtStartup :: "jstr option"
  baselineAtStartup :: jstr
  startupDiskReadPending :: bool
  startupBaselineCaptured :: bool
  unbindTicks :: nat

record ('t, 'm) doc_env = "'m synced_env" +
  str :: "'t \<Rightarrow> jstr"
  del :: "'t \<Rightarrow> nat \<Rightarrow> nat \<Rightarrow> 't"
  ins :: "'t \<Rightarrow> nat \<Rightarrow> jstr \<Rightarrow> 't"
  stored :: "'t \<Rightarrow> bool"
  diffArrays :: differ
  staleLocalFingerprint :: "jstr option"
  retiredBaselineText :: "jstr option"

type_synonym ('t, 'm, 'r) doc_code = "(('t, 'm) document, 'r) code"

definition content :: "('t, 'm) doc_env \<Rightarrow> ('t, 'm) document \<Rightarrow> jstr" where
  "content E s = str E (ytext s)"

definition busy :: "('t, 'm) document \<Rightarrow> bool" where
  "busy s \<longleftrightarrow> boundEditors s > 0 \<or> isOpen s"

section \<open>The shared text\<close>

definition onYTextChanged :: "('t, 'm) document \<Rightarrow> ('t, 'm) document" where
  "onYTextChanged s0 =
    (let s = s0\<lparr>contentRevision := contentRevision s0 + 1\<rparr>
     in if destroyed s \<or> \<not> startupBaselineCaptured s \<or> \<not> startupReady s then s
        else let s1 = noteTextActivity s in if busy s1 then s1 else scheduleWriteToDisk s1)"

text \<open>The observer runs when the transaction changed the text.\<close>

definition applyText :: "('t, 'm) doc_env \<Rightarrow> jstr \<Rightarrow> ('t, 'm) document \<Rightarrow> ('t, 'm) document" where
  "applyText E txt s =
    (if destroyed s \<or> content E s = txt then s
     else onYTextChanged (s\<lparr>ytext := applyTextToYText (str E) (del E) (ins E) (ytext s) txt, hasLocalChanges := True\<rparr>))"

definition recordAcknowledged :: "('t, 'm) doc_env \<Rightarrow> ('t, 'm, unit) doc_code" where
  "recordAcknowledged E = recordAcknowledgedContent E KText (content E)"

section \<open>Edits on disk\<close>

text \<open>The loop of \<open>foldDiskEdit\<close>.\<close>

fun foldLoop :: "nat \<Rightarrow> ('t, 'm) doc_env \<Rightarrow> jstr option \<Rightarrow> jstr \<Rightarrow> jstr option \<Rightarrow> ('t, 'm, unit) doc_code" where
  "foldLoop 0 E base disk preserved = waitFor (\<lambda>_. False)"
| "foldLoop (Suc n) E base disk preserved = seq (readFromDisk E) (\<lambda>latest. seen (\<lambda>s.
    if destroyed s \<or> latest \<noteq> Some disk then ret ()
    else let shared = content E s;
             merge = map_option (\<lambda>b. mergeText (diffArrays E) b disk shared) base
         in if merge = Some Conflict \<and> Some shared \<noteq> base \<and> Some shared \<noteq> preserved
            then seq (preserveText E Kept shared RemoteSide) (\<lambda>_. seen (\<lambda>s.
                   if destroyed s then ret () else foldLoop n E base disk (Some shared)))
            else let new = (case merge of Some (Merged c) \<Rightarrow> c | _ \<Rightarrow> disk)
                 in seq (sync (\<lambda>s. applyText E new (noted (Shares shared new (FoldBy base disk)) s))) (\<lambda>_.
                    noteDiskContent E KText FoldedIn disk)))"

definition foldDiskEdit :: "nat \<Rightarrow> ('t, 'm) doc_env \<Rightarrow> jstr \<Rightarrow> ('t, 'm, unit) doc_code" where
  "foldDiskEdit n E disk = seen (\<lambda>s. seq (sync noteTextActivity) (\<lambda>_. foldLoop n E (diskKnownContent s) disk None))"

definition adoptStartupDisk :: "jstr \<Rightarrow> ('t, 'm) document \<Rightarrow> ('t, 'm) document" where
  "adoptStartupDisk disk s =
    (know AtStartup disk s)\<lparr>diskAtStartup := Some disk, startupDiskReadPending := False,
       localChangedAtStartup := (disk \<noteq> baselineAtStartup s)\<rparr>"

definition onDiskChanged :: "nat \<Rightarrow> ('t, 'm) doc_env \<Rightarrow> ('t, 'm, unit) doc_code" where
  "onDiskChanged n E = seen (\<lambda>s.
     if destroyed s then ret ()
     else seq (readFromDisk E) (\<lambda>r. seen (\<lambda>s.
       if destroyed s then ret ()
       else case r of
         None \<Rightarrow> ret ()
       | Some disk \<Rightarrow>
           if boundEditors s > 0
           then (if disk = content E s then noteSharedContent E KText disk else sync (know (UnderEditor (boundEditors s)) disk))
           else if Some disk = writingTextToDisk s then ret ()
           else if \<not> startupReconciled s then sync (adoptStartupDisk disk)
           else if Some disk = diskKnownContent s then ret ()
           else if disk = content E s then noteSharedContent E KText disk
           else foldDiskEdit n E disk)))"

definition preserveSharedConflict :: "('t, 'm) doc_env \<Rightarrow> jstr \<Rightarrow> ('t, 'm, unit) doc_code" where
  "preserveSharedConflict E shared = seen (\<lambda>s.
     if destroyed s then ret () else seq (settled (preserveText E Kept shared RemoteSide)) (\<lambda>_. ret ()))"

section \<open>Disk writes\<close>

text \<open>An edit of the file whose event has not been handled yet.\<close>

definition diskEdit :: "nat \<Rightarrow> ('t, 'm) doc_env \<Rightarrow> ('t, 'm) document \<Rightarrow> jstr \<Rightarrow> ('t, 'm, unit) doc_code option" where
  "diskEdit n E s current =
    (if diskKnownContent s \<noteq> None \<and> Some current \<noteq> diskKnownContent s then Some (foldDiskEdit n E current) else None)"

text \<open>The \<open>catch\<close> block.\<close>

definition writeFailed :: "('t, 'm) doc_env \<Rightarrow> ('t, 'm, unit) doc_code" where
  "writeFailed E = seen (\<lambda>s.
     if destroyed s then ret ()
     else seq (settled (readFromDisk E)) (\<lambda>r. seq (sync (\<lambda>s.
            case r of
              None \<Rightarrow> s
            | Some None \<Rightarrow> s\<lparr>diskKnownContent := None\<rparr>
            | Some (Some c) \<Rightarrow> know AfterFailure c s)) (\<lambda>_. sync scheduleWriteToDisk)))"

definition writeCurrentContent :: "nat \<Rightarrow> ('t, 'm) doc_env \<Rightarrow> ('t, 'm, bool) doc_code" where
  "writeCurrentContent n E =
    writeCurrent (content E) (writeAttempt E KText (content E) busy (diskEdit n E) (\<lambda>_. Holding)) (writeFailed E)"

definition startDiskWrite :: "nat \<Rightarrow> ('t, 'm) doc_env \<Rightarrow> ('t, 'm, nat) doc_code" where
  "startDiskWrite n E = startWrite (writeCurrentContent n E)"

definition writeToDisk :: "nat \<Rightarrow> ('t, 'm) doc_env \<Rightarrow> ('t, 'm, nat) doc_code" where
  "writeToDisk n E = requestWrite (startDiskWrite n E)"

section \<open>Startup\<close>

definition captureStartupDisk :: "('t, 'm) doc_env \<Rightarrow> ('t, 'm, unit) doc_code" where
  "captureStartupDisk E = seq (readFromDisk E) (\<lambda>disk.
     seq (case disk of
            None \<Rightarrow> ret (False, False)
          | Some d \<Rightarrow> seq (sha256Text E d) (\<lambda>fp. seq (storeContainsDiskContent E d) (\<lambda>unchanged.
                        ret (staleLocalFingerprint E = Some fp, unchanged)))) (\<lambda>(stale, unchanged). seen (\<lambda>s.
       if destroyed s then ret ()
       else sync (\<lambda>s.
         (case disk of None \<Rightarrow> s\<lparr>diskKnownContent := None\<rparr> | Some d \<Rightarrow> know AtStartup d s)
           \<lparr>diskAtStartup := disk, forceBootstrapConflict := (forceBootstrapConflict s \<and> \<not> stale),
            localChangedAtStartup := (disk \<noteq> None \<and> \<not> stale \<and> \<not> unchanged \<and> disk \<noteq> Some (baselineAtStartup s)),
            startupDiskReadPending := False\<rparr>))))"

definition afterPersistenceSynced :: "('t, 'm) doc_env \<Rightarrow> ('t, 'm, unit) doc_code" where
  "afterPersistenceSynced E =
    seq (sync (\<lambda>s. s\<lparr>baselineAtStartup := (case retiredBaselineText E of
           Some t \<Rightarrow> if \<not> loadedStoredState s then t else content E s | None \<Rightarrow> content E s)\<rparr>)) (\<lambda>_.
    seq (settled (captureStartupDisk E)) (\<lambda>r.
    sync (\<lambda>s. s\<lparr>startupDiskReadPending := (startupDiskReadPending s \<or> r = None), startupBaselineCaptured := True\<rparr>)))"

text \<open>What to do with the startup content of the file: leave the shared text, replace it, or ask.\<close>

datatype startup_decision = Leave | Use jstr | AskUser

definition startupDecision :: "differ \<Rightarrow> bool \<Rightarrow> bool \<Rightarrow> bool \<Rightarrow> bool \<Rightarrow> jstr \<Rightarrow> jstr option \<Rightarrow> jstr \<Rightarrow> startup_decision" where
  "startupDecision d epochZero creator force localChanged baseline localDisk remote =
    (case localDisk of
       None \<Rightarrow> Leave
     | Some disk \<Rightarrow>
         (let remoteChanged = (remote \<noteq> baseline);
              creatorHasLocal = (creator \<and> length disk > 0 \<and> length remote = 0);
              isConflict = ((localChanged \<or> force) \<and> remote \<noteq> disk \<and> (remoteChanged \<or> force) \<and> \<not> creatorHasLocal);
              prefixForward = (isConflict \<and> \<not> force \<and> epochZero \<and> length baseline = 0 \<and> length disk > length remote
                               \<and> startsWith disk remote)
          in if prefixForward then Use disk
             else if isConflict then
               (let merge = (if force then mergeWithoutBaseline disk remote epochZero else mergeText d baseline disk remote);
                    merge' = (if merge = Conflict \<and> \<not> force \<and> length baseline = 0 then mergeWithoutBaseline disk remote epochZero else merge)
                in case merge' of Merged c \<Rightarrow> Use c | Conflict \<Rightarrow> AskUser)
             else if localChanged \<and> (\<not> remoteChanged \<or> creatorHasLocal) then Use disk
             else Leave))"

text \<open>The prompt, which the user answers some time later.\<close>

definition openModal :: "('t, 'm, text_conflict_choice) doc_code" where
  "openModal = seq (waitFor (\<lambda>_. True)) (\<lambda>_. seen (\<lambda>s. seq (sync (\<lambda>s. s\<lparr>asked := asked s + 1\<rparr>)) (\<lambda>_. ret (answers s (asked s)))))"

text \<open>The two halves of a round: after the recovery copy, and from the prompt on. \<open>again\<close> starts the next round.\<close>

definition keepChoice :: "('t, 'm) doc_env \<Rightarrow> (jstr \<Rightarrow> jstr \<Rightarrow> ('t, 'm, unit) doc_code) \<Rightarrow> jstr \<Rightarrow> jstr \<Rightarrow> text_conflict_choice
     \<Rightarrow> ('t, 'm, unit) doc_code" where
  "keepChoice E again local remote choice = seq (readFromDisk E) (\<lambda>localAfterCopy. seen (\<lambda>s.
     if destroyed s then ret ()
     else case localAfterCopy of
       None \<Rightarrow> ret ()
     | Some after \<Rightarrow>
         if after \<noteq> local \<or> (choice = ChooseLocal \<and> content E s \<noteq> remote) then again after (content E s)
         else if choice = ChooseLocal
         then sync (\<lambda>s. applyText E local (noted (Shares remote local (StartupBy (baselineAtStartup s) local (epochNow s = 0))) s))
         else ret ()))"

definition askRound :: "('t, 'm) doc_env \<Rightarrow> (jstr \<Rightarrow> jstr \<Rightarrow> ('t, 'm, unit) doc_code) \<Rightarrow> jstr \<Rightarrow> jstr \<Rightarrow> ('t, 'm, unit) doc_code" where
  "askRound E again local remote = seq openModal (\<lambda>choice. seen (\<lambda>s.
     if destroyed s then ret ()
     else seq (readFromDisk E) (\<lambda>latestLocal. seen (\<lambda>s.
       if destroyed s then ret ()
       else case latestLocal of
         None \<Rightarrow> ret ()
       | Some latest \<Rightarrow>
           if latest \<noteq> local \<or> content E s \<noteq> remote then again latest (content E s)
           else seq (preserveText E Kept (if choice = ChooseLocal then remote else local)
                       (if choice = ChooseLocal then RemoteSide else LocalSide)) (\<lambda>_. seen (\<lambda>s.
                  if destroyed s then ret () else keepChoice E again local remote choice))))))"

fun resolveStartupConflict :: "nat \<Rightarrow> ('t, 'm) doc_env \<Rightarrow> jstr \<Rightarrow> jstr \<Rightarrow> ('t, 'm, unit) doc_code" where
  "resolveStartupConflict 0 E local remote = waitFor (\<lambda>_. False)"
| "resolveStartupConflict (Suc n) E local remote = seen (\<lambda>s.
    if destroyed s then ret () else askRound E (resolveStartupConflict n E) local remote)"

text \<open>The merge of \<open>finishStartupReconcile\<close>; \<open>False\<close> when the document was destroyed meanwhile.\<close>

definition startupMerge :: "nat \<Rightarrow> ('t, 'm) doc_env \<Rightarrow> ('t, 'm, bool) doc_code" where
  "startupMerge n E = seen (\<lambda>s.
     if startupReconciled s then ret True
     else seq (if startupDiskReadPending s then captureStartupDisk E else ret ()) (\<lambda>_. seen (\<lambda>s.
       if destroyed s then ret False
       else let remote = content E s; baseline = baselineAtStartup s; d = diskAtStartup s; zero = (epochNow s = 0)
            in case startupDecision (diffArrays E) zero (isCreator s) (forceBootstrapConflict s) (localChangedAtStartup s)
                      baseline d remote of
                 Leave \<Rightarrow> seq (sync markReconciled) (\<lambda>_. ret True)
               | Use t \<Rightarrow> seq (sync (\<lambda>s. markReconciled (applyText E t
                            (case d of Some d \<Rightarrow> noted (Shares remote t (StartupBy baseline d zero)) s | None \<Rightarrow> s)))) (\<lambda>_. ret True)
               | AskUser \<Rightarrow> seq (resolveStartupConflict n E (case d of Some d \<Rightarrow> d | None \<Rightarrow> []) remote) (\<lambda>_. seen (\<lambda>s.
                   if destroyed s then ret False else seq (sync markReconciled) (\<lambda>_. ret True))))))"

definition finishStartupReconcile :: "nat \<Rightarrow> ('t, 'm) doc_env \<Rightarrow> ('t, 'm, unit) doc_code" where
  "finishStartupReconcile n E = finishStartup (startupMerge n E) (startupWrite E KText (content E) busy (writeToDisk n E))"

section \<open>Editors, timers and the end\<close>

definition bindEditor :: "('t, 'm) document \<Rightarrow> ('t, 'm) document" where
  "bindEditor s = s\<lparr>boundEditors := boundEditors s + 1\<rparr>"

definition unbindEditor :: "('t, 'm) document \<Rightarrow> ('t, 'm) document" where
  "unbindEditor s =
    (let s1 = s\<lparr>boundEditors := boundEditors s - 1\<rparr>
     in if boundEditors s1 \<noteq> 0 \<or> destroyed s1 then s1 else s1\<lparr>unbindTicks := unbindTicks s1 + 1\<rparr>)"

definition writeWhenIdle :: "nat \<Rightarrow> ('t, 'm) doc_env \<Rightarrow> ('t, 'm, unit) doc_code" where
  "writeWhenIdle n E = seen (\<lambda>s. if destroyed s \<or> \<not> startupReady s \<or> busy s then ret () else seq (writeToDisk n E) (\<lambda>_. ret ()))"

definition writeTimerFires :: "nat \<Rightarrow> ('t, 'm) doc_env \<Rightarrow> ('t, 'm, unit) doc_code" where
  "writeTimerFires n E = seen (\<lambda>s.
     if \<not> writeTimer s then ret ()
     else seq (sync (\<lambda>s. s\<lparr>writeTimer := False\<rparr>)) (\<lambda>_. if startupBaselineCaptured s then writeWhenIdle n E else ret ()))"

definition canHibernateLocally :: "('t, 'm) document \<Rightarrow> bool" where
  "canHibernateLocally s \<longleftrightarrow> \<not> busy s \<and> writeRunning s = None \<and> writeQueued s = None \<and> \<not> writeTimer s"

definition destroy :: "('t, 'm) document \<Rightarrow> ('t, 'm) document" where
  "destroy s = (if destroyed s then s
     else resolveWhenReady (s\<lparr>destroyed := True, writeTimer := False, acknowledgeTimer := False, online := False\<rparr>))"

text \<open>Everything that can happen to a document, its own methods and the environment.\<close>

datatype 't doc_entry =
    Init
  | ServerSynced
  | DiskEvent
  | BindEditor
  | UnbindEditor
  | UnbindTick
  | WriteTimer
  | AckTimer
  | StartupRetry
  | ReadOnlyUpdate
  | EditorConflict jstr
  | ReleaseTick
  | LocalChangesDone
  | Hibernate
  | Connect
  | Disconnect
  | Destroy
  | SharedEdit bool 't
  | FileEdited jstr
  | FileGone
  | OpenChanged bool
  | EpochMoved nat
  | AccessChanged bool
  | RemovalPending bool
  | CreatorSet bool
  | Ticks nat
  | VaultGone

fun body :: "nat \<Rightarrow> ('t, 'm) doc_env \<Rightarrow> 't doc_entry \<Rightarrow> ('t, 'm, unit) doc_code" where
  "body n E Init = seen (\<lambda>s. if initStarted s then ret ()
     else seq (sync (\<lambda>s. s\<lparr>initStarted := True\<rparr>)) (\<lambda>_. initDoc E (\<lambda>s. stored E (ytext s)) (afterPersistenceSynced E)))"
| "body n E ServerSynced = seen (\<lambda>s. if destroyed s then ret ()
     else seq (sync (\<lambda>s. s\<lparr>syncedOnce := True\<rparr>)) (\<lambda>_. finishStartupReconcile n E))"
| "body n E DiskEvent = onDiskChanged n E"
| "body n E BindEditor = sync bindEditor"
| "body n E UnbindEditor = sync unbindEditor"
| "body n E UnbindTick = seen (\<lambda>s. if unbindTicks s = 0 then ret ()
     else seq (sync (\<lambda>s. s\<lparr>unbindTicks := unbindTicks s - 1\<rparr>)) (\<lambda>_. writeWhenIdle n E))"
| "body n E WriteTimer = writeTimerFires n E"
| "body n E AckTimer = seen (\<lambda>s. if \<not> acknowledgeTimer s then ret ()
     else seq (sync (\<lambda>s. s\<lparr>acknowledgeTimer := False\<rparr>)) (\<lambda>_. recordAcknowledged E))"
| "body n E StartupRetry = seen (\<lambda>s. if startupRetries s = 0 then ret ()
     else seq (sync (\<lambda>s. s\<lparr>startupRetries := startupRetries s - 1\<rparr>)) (\<lambda>_. finishStartupReconcile n E))"
| "body n E ReadOnlyUpdate = preserveReadOnlyRecovery n E Kept (content E)"
| "body n E (EditorConflict t) = preserveSharedConflict E t"
| "body n E ReleaseTick = sync releaseTick"
| "body n E LocalChangesDone = sync (\<lambda>s. if destroyed s then s else scheduleAcknowledgedContent (s\<lparr>hasLocalChanges := False\<rparr>))"
| "body n E Hibernate = seq (prepareForHibernation canHibernateLocally) (\<lambda>_. ret ())"
| "body n E Connect = sync ensureConnected"
| "body n E Disconnect = sync disconnect"
| "body n E Destroy = sync destroy"
| "body n E (SharedEdit local t) = sync (\<lambda>s. if destroyed s then s
     else onYTextChanged (s\<lparr>ytext := t, hasLocalChanges := (hasLocalChanges s \<or> local)\<rparr>))"
| "body n E (FileEdited c) = sync (\<lambda>s. s\<lparr>fs := (fs s)\<lparr>files := jset (files (fs s)) (docPath E) c\<rparr>\<rparr>)"
| "body n E FileGone = sync (\<lambda>s. s\<lparr>fs := (fs s)\<lparr>files := jdel (files (fs s)) (docPath E)\<rparr>\<rparr>)"
| "body n E (OpenChanged b) = sync (\<lambda>s. s\<lparr>isOpen := b\<rparr>)"
| "body n E (EpochMoved e) = sync (\<lambda>s. s\<lparr>epochNow := e\<rparr>)"
| "body n E (AccessChanged b) = sync (\<lambda>s. s\<lparr>readOnly := b\<rparr>)"
| "body n E (RemovalPending b) = sync (\<lambda>s. s\<lparr>removing := b\<rparr>)"
| "body n E (CreatorSet b) = sync (\<lambda>s. s\<lparr>isCreator := b\<rparr>)"
| "body n E (Ticks k) = sync (\<lambda>s. s\<lparr>clock := clock s + int k\<rparr>)"
| "body n E VaultGone = sync (\<lambda>s. s\<lparr>vaultDestroyed := True\<rparr>)"

section \<open>What the document does\<close>

text \<open>
  The shared text is replaced by a merge of the version on disk with it, or by the version on disk when the shared text has not changed, was kept in a
  recovery copy, or nothing was known of the file.
\<close>

fun shareOk :: "differ \<Rightarrow> text_action list \<Rightarrow> jstr \<Rightarrow> jstr \<Rightarrow> share_why \<Rightarrow> bool" where
  "shareOk D earlier old new (FoldBy (Some base) disk) \<longleftrightarrow>
     mergeText D base disk old = Merged new \<or> new = disk \<and> (old = base \<or> Kept old \<in> set earlier)"
| "shareOk D earlier old new (FoldBy None disk) \<longleftrightarrow> new = disk"
| "shareOk D earlier old new (StartupBy base disk zero) \<longleftrightarrow>
     new = disk \<and> (old = base \<or> old = [] \<or> startsWith disk old \<or> Kept old \<in> set earlier)
     \<or> mergeText D base disk old = Merged new \<or> mergeWithoutBaseline disk old zero = Merged new"

fun foldsIn :: "jstr \<Rightarrow> share_why \<Rightarrow> bool" where
  "foldsIn d (FoldBy base disk) \<longleftrightarrow> disk = d"
| "foldsIn d (StartupBy base disk zero) \<longleftrightarrow> False"

abbreviation docOk :: "differ \<Rightarrow> text_action list \<Rightarrow> text_action \<Rightarrow> bool" where
  "docOk D \<equiv> diskOk (shareOk D) foldsIn True"

abbreviation docInv :: "('t, 'm) doc_env \<Rightarrow> ('t, 'm) document \<Rightarrow> bool" where
  "docInv E \<equiv> diskInv (docOk (diffArrays E))"

abbreviation docKeeps :: "('t, 'm) doc_env \<Rightarrow> text_action set \<Rightarrow> ('t, 'm, 'r) doc_code \<Rightarrow> ('r \<Rightarrow> text_action set) \<Rightarrow> bool" where
  "docKeeps E \<equiv> dw.keeps (shareOk (diffArrays E)) foldsIn True"

lemma onYTextChanged_same [simp]:
  "trace (onYTextChanged s) = trace s" "docInv E (onYTextChanged s) = docInv E s"
  by (simp_all add: onYTextChanged_def Let_def noteTextActivity_def scheduleWriteToDisk_def diskInv_def)

lemma applyText_same [simp]:
  "trace (applyText E t s) = trace s" "docInv E (applyText E' t s) = docInv E s"
  by (simp_all add: applyText_def) (simp add: diskInv_def)

subsection \<open>Edits on disk\<close>

lemma keeps_share:
  assumes "\<And>tr. A \<subseteq> set tr \<Longrightarrow> docOk (diffArrays E) tr (Shares old new why)"
  shows "docKeeps E A (sync (\<lambda>s. applyText E' t (noted (Shares old new why) s))) (\<lambda>_. {Shares old new why})"
  by (rule dw.keeps_sync) (auto intro!: diskInv_noted assms)

lemma keeps_foldLoop:
  assumes "\<forall>p. preserved = Some p \<longrightarrow> Kept p \<in> A"
  shows "docKeeps E A (foldLoop n E base disk preserved) (\<lambda>_. {})"
  using assms
proof (induction n arbitrary: preserved A)
  case 0
  then show ?case by (simp add: dw.keeps_waitFor)
next
  case (Suc n)
  have again: "docKeeps E A (seq (preserveText E Kept shared RemoteSide) (\<lambda>_. seen (\<lambda>s.
      if destroyed s then ret () else foldLoop n E base disk (Some shared)))) (\<lambda>_. {})" for shared
    by (rule dw.keeps_seq [OF dw.keeps_preserveText], intro keepsR Suc.IH) simp
  have settle: "docKeeps E A (seq (sync (\<lambda>s. applyText E new (noted (Shares shared new (FoldBy base disk)) s))) (\<lambda>_.
      noteDiskContent E KText FoldedIn disk)) (\<lambda>_. {})"
    if "new = (case map_option (\<lambda>b. mergeText (diffArrays E) b disk shared) base of Some (Merged c) \<Rightarrow> c | _ \<Rightarrow> disk)"
      "\<not> (map_option (\<lambda>b. mergeText (diffArrays E) b disk shared) base = Some Conflict \<and> Some shared \<noteq> base \<and> Some shared \<noteq> preserved)"
    for shared new
  proof (rule dw.keeps_seq [OF keeps_share])
    fix tr
    assume "A \<subseteq> set tr"
    then show "docOk (diffArrays E) tr (Shares shared new (FoldBy base disk))"
      using that Suc.prems by (cases base) (auto split: merge_result.splits)
  next
    show "docKeeps E (A \<union> {Shares shared new (FoldBy base disk)}) (noteDiskContent E KText FoldedIn disk) (\<lambda>_. {})"
      by (rule keeps_noteDisk) (fastforce intro: exI [of _ "FoldBy base disk"])
  qed
  show ?case unfolding foldLoop.simps Let_def
    by (rule dw.keeps_then [OF dw.keeps_readFromDisk], rule dw.keeps_seen, rule dw.keeps_if [OF dw.keeps_ret], rule dw.keeps_if)
       (rule again, rule settle, auto)
qed

lemma keeps_foldDiskEdit: "docKeeps E A (foldDiskEdit n E disk) (\<lambda>_. {})"
  unfolding foldDiskEdit_def by (intro keepsR dw.keeps_record keeps_foldLoop) simp

lemma keeps_adopt: "docKeeps E A (sync (adoptStartupDisk d)) (\<lambda>_. {})"
proof -
  have "docInv E (adoptStartupDisk d s)" if "docInv E s" for s
    using diskInv_know [OF that, of d AtStartup] by (auto simp: adoptStartupDisk_def diskInv_def)
  then show ?thesis by (intro dw.keeps_sync) (auto simp: adoptStartupDisk_def)
qed

lemma keeps_onDiskChanged: "docKeeps E A (onDiskChanged n E) (\<lambda>_. {})"
  unfolding onDiskChanged_def
  by (intro keepsR dw.keeps_readFromDisk keeps_noteShared keeps_adopt keeps_foldDiskEdit keeps_know) simp

lemma keeps_preserveShared: "docKeeps E A (preserveSharedConflict E' t) (\<lambda>_. {})"
  unfolding preserveSharedConflict_def by (intro keepsR dw.keeps_preserved)

subsection \<open>Disk writes\<close>

lemma keeps_recordAck: "docKeeps E A (recordAcknowledged E') (\<lambda>_. {})"
  unfolding recordAcknowledged_def by (rule dw.keeps_recordAcknowledged)

lemma checks_diskEdit: "checksEdits True (diskEdit n E) (\<lambda>_. Holding)"
  by (auto simp: checksEdits_def diskEdit_def split: if_splits)

lemma keeps_writeFailed: "docKeeps E A (writeFailed E') (\<lambda>_. {})"
proof -
  have g: "docKeeps E A (sync (\<lambda>s. case r of None \<Rightarrow> s | Some None \<Rightarrow> s\<lparr>diskKnownContent := None\<rparr> | Some (Some c) \<Rightarrow> know AfterFailure c s)) (\<lambda>_. {})" for r
    by (rule dw.keeps_sync) (auto intro!: diskInv_know split: option.split, simp add: diskInv_def)
  show ?thesis unfolding writeFailed_def by (intro keepsR dw.keeps_readFromDisk dw.keeps_writer g)
qed

lemma keeps_writeToDisk:
  assumes "Reconciled \<in> A"
  shows "docKeeps E A (writeToDisk n E) (\<lambda>_. {})"
proof -
  have "docKeeps E A takeIn (\<lambda>_. {})" if "diskEdit n E s cur = Some takeIn" for A s cur takeIn
    using that by (auto simp: diskEdit_def split: if_splits intro: keeps_foldDiskEdit)
  then show ?thesis unfolding writeToDisk_def startDiskWrite_def writeCurrentContent_def
    by (intro dw.keeps_requestWrite keeps_writeCurrent keeps_writeAttempt keeps_writeFailed checks_diskEdit assms)
qed

subsection \<open>Startup\<close>

lemma keeps_captureStartupDisk: "docKeeps E A (captureStartupDisk E') (\<lambda>_. {})"
proof -
  have f: "docKeeps E A (sync (\<lambda>s. (case disk of None \<Rightarrow> s\<lparr>diskKnownContent := None\<rparr> | Some d \<Rightarrow> know AtStartup d s)
           \<lparr>diskAtStartup := disk, forceBootstrapConflict := (forceBootstrapConflict s \<and> \<not> stale),
            localChangedAtStartup := (disk \<noteq> None \<and> \<not> stale \<and> \<not> unchanged \<and> disk \<noteq> Some (baselineAtStartup s)),
            startupDiskReadPending := False\<rparr>)) (\<lambda>_. {})" for disk stale unchanged
  proof (rule dw.keeps_sync)
    fix s
    assume s: "docInv E s"
    have "docInv E (case disk of None \<Rightarrow> s\<lparr>diskKnownContent := None\<rparr> | Some d \<Rightarrow> know AtStartup d s)"
      using s diskInv_know [OF s, of _ AtStartup] by (cases disk) (simp_all add: diskInv_def)
    then show "docInv E ((case disk of None \<Rightarrow> s\<lparr>diskKnownContent := None\<rparr> | Some d \<Rightarrow> know AtStartup d s)
           \<lparr>diskAtStartup := disk, forceBootstrapConflict := (forceBootstrapConflict s \<and> \<not> stale),
            localChangedAtStartup := (disk \<noteq> None \<and> \<not> stale \<and> \<not> unchanged \<and> disk \<noteq> Some (baselineAtStartup s)),
            startupDiskReadPending := False\<rparr>) \<and> set (trace s) \<union> {} \<subseteq> set (trace ((case disk of None \<Rightarrow> s\<lparr>diskKnownContent := None\<rparr> | Some d \<Rightarrow> know AtStartup d s)
           \<lparr>diskAtStartup := disk, forceBootstrapConflict := (forceBootstrapConflict s \<and> \<not> stale),
            localChangedAtStartup := (disk \<noteq> None \<and> \<not> stale \<and> \<not> unchanged \<and> disk \<noteq> Some (baselineAtStartup s)),
            startupDiskReadPending := False\<rparr>))"
      by (auto simp: diskInv_def split: option.splits)
  qed
  show ?thesis unfolding captureStartupDisk_def split_beta
    by (intro keepsR dw.keeps_readFromDisk dw.keeps_vault dw.keeps_storeContains f)
qed

lemma keeps_afterPersistence: "docKeeps E A (afterPersistenceSynced E') (\<lambda>_. {})"
proof -
  have f: "docKeeps E A (sync (\<lambda>s. s\<lparr>baselineAtStartup := g s\<rparr>)) (\<lambda>_. {})"
    "docKeeps E A (sync (\<lambda>s. s\<lparr>startupDiskReadPending := h s, startupBaselineCaptured := True\<rparr>)) (\<lambda>_. {})" for g h
    by (rule dw.keeps_quiet; simp add: diskInv_def)+
  show ?thesis unfolding afterPersistenceSynced_def by (intro keepsR keeps_captureStartupDisk f)
qed

lemma keeps_openModal: "docKeeps E A openModal (\<lambda>_. {})"
proof -
  have "docKeeps E A (sync (\<lambda>s. s\<lparr>asked := asked s + 1\<rparr>)) (\<lambda>_. {})" by (rule dw.keeps_quiet; simp add: diskInv_def)
  then show ?thesis unfolding openModal_def by (intro keepsR)
qed

lemma keeps_keepChoice:
  assumes "choice = ChooseLocal \<Longrightarrow> Kept remote \<in> A" "\<And>l r. docKeeps E A (again l r) (\<lambda>_. {})"
  shows "docKeeps E A (keepChoice E' again local remote choice) (\<lambda>_. {})"
proof -
  have f: "docKeeps E A (sync (\<lambda>s. applyText E' local (noted (Shares remote local (StartupBy (baselineAtStartup s) local (epochNow s = 0))) s))) (\<lambda>_. {})"
    if "choice = ChooseLocal"
    using assms(1) [OF that] by (intro dw.keeps_sync) (auto intro!: diskInv_noted)
  show ?thesis unfolding keepChoice_def
    by (rule dw.keeps_then [OF dw.keeps_readFromDisk]) (intro dw.keeps_seen dw.keeps_if dw.keeps_some dw.keeps_ret assms(2) f; simp)
qed

lemma keeps_askRound:
  assumes "\<And>A l r. docKeeps E A (again l r) (\<lambda>_. {})"
  shows "docKeeps E A (askRound E' again local remote) (\<lambda>_. {})"
proof -
  have keep: "docKeeps E A (seq (preserveText E' Kept (if choice = ChooseLocal then remote else local)
      (if choice = ChooseLocal then RemoteSide else LocalSide)) (\<lambda>_. seen (\<lambda>s.
        if destroyed s then ret () else keepChoice E' again local remote choice))) (\<lambda>_. {})" for choice
    by (rule dw.keeps_seq [OF dw.keeps_preserveText]) (intro dw.keeps_seen dw.keeps_if dw.keeps_ret keeps_keepChoice assms; simp)
  show ?thesis unfolding askRound_def
    by (rule dw.keeps_then [OF keeps_openModal], rule dw.keeps_seen, rule dw.keeps_if [OF dw.keeps_ret],
        rule dw.keeps_then [OF dw.keeps_readFromDisk], rule dw.keeps_seen, rule dw.keeps_if [OF dw.keeps_ret], rule dw.keeps_some)
       (rule dw.keeps_if [OF assms keep], rule dw.keeps_ret)
qed

lemma keeps_resolveStartup: "docKeeps E A (resolveStartupConflict n E' local remote) (\<lambda>_. {})"
proof (induction n arbitrary: A local remote)
  case (Suc n)
  then show ?case unfolding resolveStartupConflict.simps by (intro dw.keeps_seen dw.keeps_if dw.keeps_ret keeps_askRound)
qed (simp add: dw.keeps_waitFor)

text \<open>What the startup decides is justified.\<close>

lemma startupDecision_ok:
  assumes "startupDecision D zero creator force changed base (Some d) remote = Use t"
  shows "docOk D tr (Shares remote t (StartupBy base d zero))"
  using assms by (auto simp: startupDecision_def Let_def split: if_splits merge_result.splits)

lemma startupDecision_None: "startupDecision D zero creator force changed base None remote = Leave"
  by (simp add: startupDecision_def)

lemma keeps_startupMerge: "docKeeps E A (startupMerge n E) (\<lambda>b. if b then {Reconciled} else {})"
proof -
  have ask: "docKeeps E B (seq (resolveStartupConflict n E l r) (\<lambda>_. seen (\<lambda>s.
      if destroyed s then ret False else seq (sync markReconciled) (\<lambda>_. ret True)))) (\<lambda>b. if b then {Reconciled} else {})" for l r B
    by (rule dw.keeps_then [OF keeps_resolveStartup]) (intro dw.keeps_seen dw.keeps_if keeps_unmarked keeps_mark)
  have decide: "docKeeps E A (case startupDecision (diffArrays E) zero creator force changed baseline d remote of
      Leave \<Rightarrow> seq (sync markReconciled) (\<lambda>_. ret True)
    | Use t \<Rightarrow> seq (sync (\<lambda>s. markReconciled (applyText E t
         (case d of Some d \<Rightarrow> noted (Shares remote t (StartupBy baseline d zero)) s | None \<Rightarrow> s)))) (\<lambda>_. ret True)
    | AskUser \<Rightarrow> seq (resolveStartupConflict n E (case d of Some d \<Rightarrow> d | None \<Rightarrow> []) remote) (\<lambda>_. seen (\<lambda>s.
         if destroyed s then ret False else seq (sync markReconciled) (\<lambda>_. ret True)))) (\<lambda>b. if b then {Reconciled} else {})"
    for zero creator force changed baseline d remote A
  proof (cases "startupDecision (diffArrays E) zero creator force changed baseline d remote")
    case (Use t)
    then obtain x where d: "d = Some x" using startupDecision_None by (cases d) auto
    have "docInv E (applyText E t (noted (Shares remote t (StartupBy baseline x zero)) s))" if "docInv E s" for s
      using diskInv_noted [OF that startupDecision_ok [OF Use [unfolded d]]] by simp
    then show ?thesis using Use d by (simp, intro keeps_reconciled) auto
  qed (simp_all add: keeps_mark ask)
  have cap: "docKeeps E B (if b then captureStartupDisk E else ret ()) (\<lambda>_. {})" for B b by (intro keepsR keeps_captureStartupDisk)
  show ?thesis unfolding startupMerge_def Let_def
    by (rule keeps_unlessReconciled, rule dw.keeps_then [OF cap], rule dw.keeps_seen, rule dw.keeps_if [OF keeps_unmarked decide])
qed

lemma keeps_finishStartupReconcile: "docKeeps E A (finishStartupReconcile n E) (\<lambda>_. {})"
  unfolding finishStartupReconcile_def by (intro keeps_finishStartup keeps_startupMerge keeps_startupWrite keeps_writeToDisk)

lemma keeps_writeWhenIdle: "docKeeps E A (writeWhenIdle n E) (\<lambda>_. {})"
  unfolding writeWhenIdle_def by (rule keeps_whenReady [OF keeps_writeToDisk]) auto

lemma keeps_body: "docKeeps E {} (body n E e) (\<lambda>_. {})"
proof -
  have f: "docKeeps E A (sync f) (\<lambda>_. {})" if "\<And>s. docInv E (f s) = docInv E s" "\<And>s. trace (f s) = trace s" for A f
    by (rule dw.keeps_quiet) (simp_all add: that)
  show ?thesis
    by (cases e; simp only: body.simps writeTimerFires_def; intro keepsR dw.keeps_initDoc keeps_afterPersistence keeps_finishStartupReconcile keeps_onDiskChanged
        keeps_writeWhenIdle keeps_recordAck dw.keeps_preserveReadOnly keeps_preserveShared dw.keeps_record dw.keeps_hibernation f)
       (simp_all add: diskInv_def bindEditor_def unbindEditor_def ensureConnected_def connectProvider_def disconnect_def destroy_def
        resolveWhenReady_def scheduleAcknowledgedContent_def Let_def del: onYTextChanged_same, simp_all add: onYTextChanged_def noteTextActivity_def scheduleWriteToDisk_def Let_def)
qed

section \<open>Properties\<close>




definition sampleEnv :: "(jstr, (jstr, stored) jmap) doc_env" where
  "sampleEnv = \<lparr>dict = alistDict, sha256 = id, recovery = asciiEnv, utc = (\<lambda>_. \<lparr>year = 0, month = 0, day = 0, hours = 0, minutes = 0,
     seconds = 0, millis = 0\<rparr>), docPath = lit ''a.md'', docGuid = lit ''g'', docEpoch = 0, autoConnect = True, str = id, del = textDelete, ins = textInsert,
     stored = (\<lambda>_. True), diffArrays = lineDiff, staleLocalFingerprint = None, retiredBaselineText = None\<rparr>"

definition sampleDoc :: "(jstr, (jstr, stored) jmap) document" where
  "sampleDoc = \<lparr>trace = [], faults = (\<lambda>_. False), calls = 0, fs = \<lparr>files = [(lit ''a.md'', lit ''u'')], folders = []\<rparr>, isOpen = False, clock = 0,
     localSync = \<lparr>paths = [], indexEpoch = None\<rparr>, vaultDestroyed = False, lastTextActivityAt = 0, ownWrites = [], ownReleases = [],
     epochNow = 0, online = False, hasLocalChanges = False, readOnly = False, isCreator = False, destroyed = False, startupReady = False,
     ready = False, initStarted = False, persistenceReady = False, loadedStoredState = False, connectRequested = False, syncedOnce = False,
     readOnlyRecoveryPending = False, readOnlyRecoveryRequested = False, readOnlyRecoveryBaseline = None, readOnlyRecoveryPath = None,
     presenceUser = None, presenceHolds = 0, presence = None, contentRevision = 0, contentFingerprint = None, acknowledgeTimer = False,
     removing = False, writingTextToDisk = None, diskKnownContent = None, writeRunning = None, writeQueued = None, nextWrite = 0,
     writeResults = [], writeTimer = False, localChangedAtStartup = False, startupReconciled = False, startupReconciling = False,
     forceBootstrapConflict = False, startupRetries = 0, preservedStartupRemote = None, ytext = [], answers = (\<lambda>_. ChooseLocal), asked = 0, boundEditors = 0,
     diskAtStartup = None, baselineAtStartup = [], startupDiskReadPending = False, startupBaselineCaptured = False, unbindTicks = 0\<rparr>"


text \<open>
  The exception for failed writes loses edits: an edit of the file whose event is not handled yet is taken for known when
  the read before a write fails once, and the next write overwrites it, with no merge and no copy.
\<close>

definition editedDoc :: "(jstr, (jstr, stored) jmap) document" where
  "editedDoc = sampleDoc\<lparr>trace := [Reconciled, SharedWas (lit ''a''), Knows (lit ''a'') InShared], diskKnownContent := Some (lit ''a''),
     ytext := lit ''b'', startupReady := True, startupReconciled := True, startupBaselineCaptured := True, writeTimer := True,
     faults := (\<lambda>n. n = 0)\<rparr>"

lemma sampleEnv_fields: "docPath sampleEnv = lit ''a.md''" "str sampleEnv = id" "recovery sampleEnv = asciiEnv"
  by (simp_all add: sampleEnv_def)

lemmas doc_simps = Let_def sampleEnv_fields writeTimerFires_def writeWhenIdle_def writeToDisk_def startDiskWrite_def requestWrite_def startWrite_def writeCurrentContent_def writeCurrent_def writeAttempt_def
  writeOver_def diskEdit_def writeFailed_def ownWrite_def readFromDisk_def vaultRead_def vaultModify_def fileAt_def content_def busy_def know_def
  scheduleWriteToDisk_def beginOwnWrite_def releaseWrite_def fulfil_def awaitWrite_def

theorem failed_read_loses_edit:
  "\<exists>s ts. docInv sampleEnv editedDoc \<and> fileAt editedDoc (lit ''a.md'') = Some (lit ''u'') \<and> runs (body 1 sampleEnv) editedDoc s ts
     \<and> files (fs s) = [(lit ''a.md'', lit ''b'')] \<and> content sampleEnv s = lit ''b''"
proof -
  define x1 where "x1 = enterTask (body 1 sampleEnv WriteTimer) (editedDoc, [])"
  define x2 where "x2 = (stepTask 0 ^^ 6) x1"
  define x3 where "x3 = enterTask (body 1 sampleEnv WriteTimer) x2"
  define x4 where "x4 = (stepTask 2 ^^ 4) x3"
  have inv: "docInv sampleEnv editedDoc" by (auto simp: diskInv_def editedDoc_def sampleDoc_def)
  have r: "runs (body 1 sampleEnv) editedDoc (fst x4) (snd x4)"
    unfolding x4_def x3_def x2_def x1_def by (intro runs_steps runs_enter runs_begin)
  have x2: "\<exists>t u. x2 = (editedDoc\<lparr>calls := 2, trace := trace editedDoc @ [SharedWas (lit ''b''), Knows (lit ''u'') AfterFailure],
      diskKnownContent := Some (lit ''u''), nextWrite := 1, writeResults := [(0, False)]\<rparr>, [t, u])"
    unfolding x2_def x1_def
    by (simp add: eval_nat_numeral run_simps doc_simps editedDoc_def sampleDoc_def)
  then obtain t u where x2: "x2 = (editedDoc\<lparr>calls := 2, trace := trace editedDoc @ [SharedWas (lit ''b''), Knows (lit ''u'') AfterFailure],
      diskKnownContent := Some (lit ''u''), nextWrite := 1, writeResults := [(0, False)]\<rparr>, [t, u])" by blast
  have "files (fs (fst x4)) = [(lit ''a.md'', lit ''b'')] \<and> content sampleEnv (fst x4) = lit ''b''"
    unfolding x4_def x3_def x2
    by (simp add: eval_nat_numeral run_simps doc_simps editedDoc_def sampleDoc_def)
  then show ?thesis using r inv by (intro exI [of _ "fst x4"] exI [of _ "snd x4"]) (simp add: fileAt_def editedDoc_def sampleDoc_def)
qed

end
