(* ===== verification/Structured_Document.thy ===== *)
theory Structured_Document
  imports Disk_Writer Canvas_Operations Structured_Merge
begin

text \<open>
  Canvas and base files: the class \<open>StructuredDocument\<close> of \<open>src/src/StructuredDocument.ts\<close> with its subclasses \<open>CanvasDocument\<close> and \<open>BaseDocument\<close>,
  which keep a shared value and the file on disk in step. As in theory \<open>Text_Document\<close>, every method is code of theory \<open>Async_Tasks\<close> on the
  frame of \<open>Disk_Writer\<close>, and runs concurrently with the others and with the environment.

  What the subclasses override is the record \<open>structured_kind\<close>, with the instances \<open>canvasKind\<close> and \<open>baseKind\<close>: parsing (\<open>None\<close> where it throws) and
  printing the file, the value of the shared root, writing a value into it, and restoring the orders of a canvas. The live view's binding is
  part of the environment: whether it is active, and the unsaved content it reports before the startup. JSON's \<open>null\<close> stands for no value
  wherever the code tests for it (\<open>nullable\<close>).
\<close>

section \<open>Kinds of structured documents\<close>

record 'r structured_kind =
  parse :: "jstr \<Rightarrow> json option"
  serialize :: "json \<Rightarrow> jstr"
  valueOf :: "'r \<Rightarrow> json"
  applyRoot :: "json \<Rightarrow> json option \<Rightarrow> 'r \<Rightarrow> 'r"
  canonicalize :: "'r \<Rightarrow> 'r \<times> bool"
  materializedKind :: materialized_kind

fun nullable :: "json option \<Rightarrow> json option" where
  "nullable (Some JNull) = None"
| "nullable v = v"

subsection \<open>Bases\<close>

text \<open>What \<open>YAML.parse\<close> gives: plain values, arrays, objects with their own entries, and anything else.\<close>

datatype yaml = YamlPlain json | YamlArr "yaml list" | YamlObj "(jstr \<times> yaml) list" | YamlOther

fun normalizeJson :: "yaml \<Rightarrow> json" where
  "normalizeJson (YamlPlain v) = v"
| "normalizeJson (YamlArr xs) = JArr (map normalizeJson xs)"
| "normalizeJson (YamlObj kvs) = JObj (map (\<lambda>(k, v). (k, normalizeJson v)) kvs)"
| "normalizeJson YamlOther = JNull"

definition parseBase :: "(jstr \<Rightarrow> yaml option) \<Rightarrow> jstr \<Rightarrow> json option" where
  "parseBase yamlParse txt = (if trim txt \<noteq> [] then map_option normalizeJson (yamlParse txt) else Some (JObj []))"

definition serializeBase :: "(json \<Rightarrow> jstr) \<Rightarrow> json \<Rightarrow> jstr" where
  "serializeBase stringify v = stringify (if v = JNull then JObj [] else v)"

definition baseKind :: "'t yjs \<Rightarrow> (jstr \<Rightarrow> yaml option) \<Rightarrow> (json \<Rightarrow> jstr) \<Rightarrow> 't ymap structured_kind" where
  "baseKind Y yamlParse stringify =
    \<lparr>parse = parseBase yamlParse, serialize = serializeBase stringify, valueOf = (\<lambda>m. toValue (textStr Y) (YMap m)),
     applyRoot = (\<lambda>v base m. mapOf (Some (fst (reconcileInto Y None (YMap m) v)))), canonicalize = (\<lambda>m. (m, False)), materializedKind = KBase\<rparr>"

subsection \<open>Canvases\<close>

definition EMPTY_CANVAS :: structured_canvas where
  "EMPTY_CANVAS = \<lparr>nodes = [], edges = [], nodeOrder = [], edgeOrder = []\<rparr>"

text \<open>A structured value as a canvas; its orders are lists of strings.\<close>

definition canvasIn :: "json \<Rightarrow> structured_canvas" where
  "canvasIn v =
    (if isStructuredCanvas v
     then let ns = objectField v (lit ''nodes''); es = objectField v (lit ''edges'')
          in \<lparr>nodes = ns, edges = es, nodeOrder = orderField v (lit ''nodeOrder'') ns, edgeOrder = orderField v (lit ''edgeOrder'') es\<rparr>
     else EMPTY_CANVAS)"

definition canonicalizeSection :: "'t yjs \<Rightarrow> jstr \<Rightarrow> jstr \<Rightarrow> 't ymap \<Rightarrow> 't ymap \<times> bool" where
  "canonicalizeSection Y itemsKey orderKey m =
    (case (jget m itemsKey, jget m orderKey) of
       (Some (YMap items), Some (YArray order)) \<Rightarrow>
         (case canonicalizeOrder Y order items of (order', changed) \<Rightarrow> (inPlace m orderKey (YArray order'), changed))
     | _ \<Rightarrow> (m, False))"

definition canonicalizeRoot :: "'t yjs \<Rightarrow> 't ymap \<Rightarrow> 't ymap \<times> bool" where
  "canonicalizeRoot Y m =
    (case canonicalizeSection Y (lit ''nodes'') (lit ''nodeOrder'') m of (m1, c1) \<Rightarrow>
       (case canonicalizeSection Y (lit ''edges'') (lit ''edgeOrder'') m1 of (m2, c2) \<Rightarrow> (m2, c2 \<or> c1)))"

text \<open>\<open>nodeOrigin\<close> and \<open>edgeOrigin\<close> are Yjs' record of the client that created an entry. The printed canvas is JSON, which parses.\<close>

definition canvasKind ::
  "'t yjs \<Rightarrow> (jstr \<Rightarrow> json option) \<Rightarrow> (json \<Rightarrow> jstr) \<Rightarrow> nat \<Rightarrow> ('t ymap \<Rightarrow> jstr \<Rightarrow> nat option) \<Rightarrow> ('t ymap \<Rightarrow> jstr \<Rightarrow> nat option) \<Rightarrow> 't ymap structured_kind" where
  "canvasKind Y jsonParse stringify clientID nodeOrigin edgeOrigin =
    \<lparr>parse = (\<lambda>t. map_option canvasJson (parseCanvas jsonParse t)), serialize = serializeCanvas stringify, valueOf = (\<lambda>m. toValue (textStr Y) (YMap m)),
     applyRoot = (\<lambda>v base m. reconcileCanvas Y (nodeOrigin m) (edgeOrigin m) m (canvasIn v) clientID
       (Option.bind base (\<lambda>b. parseCanvas jsonParse (serializeCanvas stringify b)))),
     canonicalize = canonicalizeRoot Y, materializedKind = KCanvas\<rparr>"

section \<open>State\<close>

text \<open>Why a value is put in place of another: a version on disk and its base, or the local version at startup and its base.\<close>

datatype share_why = FoldBy "json option" json | StartupBy json json bool bool jstr

type_synonym value_action = "(json, share_why) doc_action"

record ('r, 'm) structured_document = "(value_action, 'm) disk_doc" +
  root :: 'r
  bindingActive :: bool
  liveStartupValue :: "json option"
  baselineAtStartup :: json
  baselineTextAtStartup :: jstr
  diskAtStartup :: "json option"
  startupLocalBase :: json
  diskParseFailed :: bool

record ('r, 'm) structured_env = "'m synced_env" +
  kind :: "'r structured_kind"
  stored :: "'r \<Rightarrow> bool"
  staleLocalFingerprint :: "jstr option"
  retiredBaselineText :: "jstr option"

type_synonym ('r, 'm, 'a) struct_code = "(('r, 'm) structured_document, 'a) code"

definition docValue :: "('r, 'm) structured_env \<Rightarrow> ('r, 'm) structured_document \<Rightarrow> json" where
  "docValue E s = valueOf (kind E) (root s)"

definition docText :: "('r, 'm) structured_env \<Rightarrow> ('r, 'm) structured_document \<Rightarrow> jstr" where
  "docText E s = serialize (kind E) (docValue E s)"

definition suppressedWhileOpen :: "('r, 'm) structured_document \<Rightarrow> bool" where
  "suppressedWhileOpen s \<longleftrightarrow> isOpen s \<and> bindingActive s"

definition matchesStartupDisk :: "json \<Rightarrow> ('r, 'm) structured_document \<Rightarrow> bool" where
  "matchesStartupDisk v s \<longleftrightarrow> \<not> startupReconciled s \<and> (case diskAtStartup s of None \<Rightarrow> False | Some d \<Rightarrow> jsonEqual v d)"

section \<open>The shared value\<close>

definition scheduleOnChange :: "('r, 'm) structured_document \<Rightarrow> ('r, 'm) structured_document" where
  "scheduleOnChange s =
    (if destroyed s \<or> \<not> startupReady s then s
     else let s1 = noteTextActivity s in if suppressedWhileOpen s1 then s1 else scheduleWriteToDisk s1)"

text \<open>The observer of the root when the orders were restored, and for any other change: a canvas first restores its orders.\<close>

definition onOrdersChanged :: "('r, 'm) structured_document \<Rightarrow> ('r, 'm) structured_document" where
  "onOrdersChanged s = scheduleOnChange (s\<lparr>contentRevision := contentRevision s + 1\<rparr>)"

definition onRootChanged :: "('r, 'm) structured_env \<Rightarrow> ('r, 'm) structured_document \<Rightarrow> ('r, 'm) structured_document" where
  "onRootChanged E s0 =
    (let s = s0\<lparr>contentRevision := contentRevision s0 + 1\<rparr>
     in case canonicalize (kind E) (root s) of
          (r, changed) \<Rightarrow> if changed then onOrdersChanged (s\<lparr>root := r, hasLocalChanges := True\<rparr>) else scheduleOnChange s)"

definition canonicalizeOrders :: "('r, 'm) structured_env \<Rightarrow> ('r, 'm) structured_document \<Rightarrow> ('r, 'm) structured_document" where
  "canonicalizeOrders E s =
    (case canonicalize (kind E) (root s) of
       (r, changed) \<Rightarrow> if \<not> changed then s
         else if destroyed s then s\<lparr>root := r\<rparr> else onOrdersChanged (s\<lparr>root := r, hasLocalChanges := True\<rparr>))"

text \<open>The observer runs when the transaction changed the root.\<close>

definition applyValue :: "('r, 'm) structured_env \<Rightarrow> json \<Rightarrow> json option \<Rightarrow> ('r, 'm) structured_document \<Rightarrow> ('r, 'm) structured_document" where
  "applyValue E v base s =
    (let r = applyRoot (kind E) v base (root s)
     in if destroyed s \<or> r = root s then s else onRootChanged E (s\<lparr>root := r, hasLocalChanges := True\<rparr>))"

section \<open>Edits on disk\<close>

definition readParsedFromDisk :: "('r, 'm) structured_env \<Rightarrow> ('r, 'm, json option) struct_code" where
  "readParsedFromDisk E = seen (\<lambda>s.
     if fileAt s (docPath E) = None
     then seq (sync (\<lambda>s. s\<lparr>diskParseFailed := False\<rparr>)) (\<lambda>_. seq (waitFor (\<lambda>_. True)) (\<lambda>_. ret None))
     else seq (settled (vaultRead (docPath E))) (\<lambda>r.
          let parsed = Option.bind r (parse (kind E))
          in seq (sync (\<lambda>s. s\<lparr>diskParseFailed := (parsed = None)\<rparr>)) (\<lambda>_. seq (waitFor (\<lambda>_. True)) (\<lambda>_. ret (nullable parsed)))))"

text \<open>Parsing that may throw.\<close>

definition parsing :: "('r, 'm) structured_env \<Rightarrow> jstr \<Rightarrow> ('r, 'm, json) struct_code" where
  "parsing E txt = (case parse (kind E) txt of None \<Rightarrow> throw | Some v \<Rightarrow> ret v)"

definition noteDiskText :: "('r, 'm) structured_env \<Rightarrow> known_why \<Rightarrow> jstr \<Rightarrow> ('r, 'm, unit) struct_code" where
  "noteDiskText E why txt = noteDiskContent E (materializedKind (kind E)) why txt"

text \<open>The loop of \<open>foldDiskEdit\<close>.\<close>

fun foldLoop :: "nat \<Rightarrow> ('r, 'm) structured_env \<Rightarrow> json option \<Rightarrow> json \<Rightarrow> jstr option \<Rightarrow> ('r, 'm, unit) struct_code" where
  "foldLoop 0 E base disk preserved = waitFor (\<lambda>_. False)"
| "foldLoop (Suc n) E base disk preserved = seq (readParsedFromDisk E) (\<lambda>latest. seen (\<lambda>s.
    if destroyed s \<or> map_option (serialize (kind E)) latest \<noteq> Some (serialize (kind E) disk) then ret ()
    else let sharedText = docText E s; old = docValue E s;
             settle = (\<lambda>new. seq (sync (\<lambda>s. applyValue E new base (noted (Shares old new (FoldBy base disk)) s))) (\<lambda>_.
                               noteDiskText E FoldedIn (serialize (kind E) disk)))
         in case base of
              None \<Rightarrow> settle disk
            | Some b \<Rightarrow> seq (parsing E sharedText) (\<lambda>shared.
                let merge = mergeStructuredStartupResult b disk shared
                in if sConflicted merge \<and> Some sharedText \<noteq> diskKnownContent s \<and> Some sharedText \<noteq> preserved
                   then seq (preserveText E Kept sharedText RemoteSide) (\<lambda>_. seen (\<lambda>s.
                          if destroyed s then ret () else foldLoop n E base disk (Some sharedText)))
                   else settle (sValue merge))))"

definition foldDiskEdit :: "nat \<Rightarrow> ('r, 'm) structured_env \<Rightarrow> json \<Rightarrow> ('r, 'm, unit) struct_code" where
  "foldDiskEdit n E disk = seq (sync noteTextActivity) (\<lambda>_. seen (\<lambda>s.
     case diskKnownContent s of
       None \<Rightarrow> foldLoop n E None disk None
     | Some known \<Rightarrow> seq (parsing E known) (\<lambda>base. foldLoop n E (nullable (Some base)) disk None)))"

text \<open>Before the startup reconciliation: the content replaces what it will merge.\<close>

definition adoptStartupDisk :: "('r, 'm) structured_env \<Rightarrow> json \<Rightarrow> ('r, 'm) structured_document \<Rightarrow> ('r, 'm) structured_document" where
  "adoptStartupDisk E disk s =
    (let base = (case diskAtStartup s of Some d \<Rightarrow> if \<not> localChangedAtStartup s then d else startupLocalBase s | None \<Rightarrow> startupLocalBase s)
     in (know AtStartup (serialize (kind E) disk) s)\<lparr>startupLocalBase := base, diskAtStartup := Some disk,
          localChangedAtStartup := (serialize (kind E) disk \<noteq> serialize (kind E) base)\<rparr>)"

definition onDiskChanged :: "nat \<Rightarrow> ('r, 'm) structured_env \<Rightarrow> ('r, 'm, unit) struct_code" where
  "onDiskChanged n E = seen (\<lambda>s.
     if destroyed s then ret ()
     else seq (readParsedFromDisk E) (\<lambda>r.
       case r of
         None \<Rightarrow> ret ()
       | Some disk \<Rightarrow> seen (\<lambda>s.
           let serialized = serialize (kind E) disk
           in if destroyed s then ret ()
              else if \<not> startupReconciled s then sync (adoptStartupDisk E disk)
              else if suppressedWhileOpen s
              then (if serialized = docText E s then noteSharedContent E (materializedKind (kind E)) serialized
                    else sync (know (UnderEditor (if suppressedWhileOpen s then 1 else 0)) serialized))
              else if Some serialized = writingTextToDisk s then ret ()
              else if Some serialized = diskKnownContent s then ret ()
              else if serialized = docText E s then noteSharedContent E (materializedKind (kind E)) serialized
              else foldDiskEdit n E disk)))"

section \<open>Disk writes\<close>

definition diskEdit :: "nat \<Rightarrow> ('r, 'm) structured_env \<Rightarrow> ('r, 'm) structured_document \<Rightarrow> jstr \<Rightarrow> ('r, 'm, unit) struct_code option" where
  "diskEdit n E s raw =
    (if diskKnownContent s \<noteq> None \<and> \<not> diskParseFailed s
     then (case nullable (parse (kind E) raw) of
             Some current \<Rightarrow> if Some (serialize (kind E) current) \<noteq> diskKnownContent s then Some (foldDiskEdit n E current) else None
           | None \<Rightarrow> None)
     else None)"

text \<open>What a write replaces: not compared when the last read failed to parse, or the content does not parse now.\<close>

definition held :: "('r, 'm) structured_env \<Rightarrow> ('r, 'm) structured_document \<Rightarrow> jstr \<Rightarrow> overwritten" where
  "held E s raw =
    (if diskParseFailed s then Unparsed raw
     else case nullable (parse (kind E) raw) of None \<Rightarrow> Unparsed raw | Some current \<Rightarrow> Holding (serialize (kind E) current))"

text \<open>The \<open>catch\<close> block.\<close>

definition writeFailed :: "('r, 'm) structured_env \<Rightarrow> ('r, 'm, unit) struct_code" where
  "writeFailed E = seen (\<lambda>s.
     if destroyed s then ret ()
     else seq (if fileAt s (docPath E) = None then ret ()
               else seq (settled (vaultRead (docPath E))) (\<lambda>r.
                      case Option.bind r (parse (kind E)) of
                        None \<Rightarrow> ret ()
                      | Some v \<Rightarrow> sync (know AfterFailure (serialize (kind E) v)))) (\<lambda>_. sync scheduleWriteToDisk))"

definition writeCurrentValue :: "nat \<Rightarrow> ('r, 'm) structured_env \<Rightarrow> ('r, 'm, bool) struct_code" where
  "writeCurrentValue n E =
    writeCurrent (docText E) (writeAttempt E (materializedKind (kind E)) (docText E) suppressedWhileOpen (diskEdit n E) (held E)) (writeFailed E)"

definition startDiskWrite :: "nat \<Rightarrow> ('r, 'm) structured_env \<Rightarrow> ('r, 'm, nat) struct_code" where
  "startDiskWrite n E = startWrite (writeCurrentValue n E)"

definition writeToDisk :: "nat \<Rightarrow> ('r, 'm) structured_env \<Rightarrow> ('r, 'm, nat) struct_code" where
  "writeToDisk n E = requestWrite (startDiskWrite n E)"

definition writeTimerFires :: "nat \<Rightarrow> ('r, 'm) structured_env \<Rightarrow> ('r, 'm, unit) struct_code" where
  "writeTimerFires n E = seen (\<lambda>s.
     if \<not> writeTimer s then ret ()
     else seq (sync (\<lambda>s. s\<lparr>writeTimer := False\<rparr>)) (\<lambda>_. seen (\<lambda>s.
          if destroyed s \<or> \<not> startupReady s \<or> suppressedWhileOpen s then ret () else seq (writeToDisk n E) (\<lambda>_. ret ()))))"

definition canHibernateLocally :: "('r, 'm) structured_document \<Rightarrow> bool" where
  "canHibernateLocally s \<longleftrightarrow> \<not> isOpen s \<and> writeRunning s = None \<and> writeQueued s = None \<and> \<not> writeTimer s"

section \<open>Startup\<close>

definition captureStartupDisk ::
  "('r, 'm) structured_env \<Rightarrow> json option \<Rightarrow> bool \<Rightarrow> bool \<Rightarrow> ('r, 'm) structured_document \<Rightarrow> ('r, 'm) structured_document" where
  "captureStartupDisk E disk stale unchanged s =
    (let diskText = map_option (serialize (kind E)) disk;
         changed = (diskText \<noteq> None \<and> \<not> stale \<and> \<not> unchanged \<and> diskText \<noteq> Some (baselineTextAtStartup s))
     in (case diskText of None \<Rightarrow> s\<lparr>diskKnownContent := None\<rparr> | Some t \<Rightarrow> know AtStartup t s)
          \<lparr>diskAtStartup := disk, localChangedAtStartup := changed,
           startupLocalBase := (case disk of Some d \<Rightarrow> if changed then baselineAtStartup s else d | None \<Rightarrow> baselineAtStartup s)\<rparr>)"

definition afterPersistenceSynced :: "('r, 'm) structured_env \<Rightarrow> ('r, 'm, unit) struct_code" where
  "afterPersistenceSynced E =
    seq (seen (\<lambda>s. case retiredBaselineText E of
                     Some t \<Rightarrow> if \<not> loadedStoredState s then parsing E t else ret (docValue E s)
                   | None \<Rightarrow> ret (docValue E s))) (\<lambda>base.
    seq (sync (\<lambda>s. s\<lparr>baselineAtStartup := base, baselineTextAtStartup := serialize (kind E) base\<rparr>)) (\<lambda>_.
    seq (readParsedFromDisk E) (\<lambda>disk.
    seq (case disk of
           None \<Rightarrow> ret (False, False)
         | Some d \<Rightarrow> seq (sha256Text E (serialize (kind E) d)) (\<lambda>fp. seq (storeContainsDiskContent E (serialize (kind E) d)) (\<lambda>unchanged.
                       ret (staleLocalFingerprint E = Some fp, unchanged)))) (\<lambda>(stale, unchanged).
    sync (captureStartupDisk E disk stale unchanged)))))"

text \<open>The local side of the startup merge: its value, what its edits are measured from, and whether it holds any.\<close>

definition startupLocal :: "('r, 'm) structured_env \<Rightarrow> ('r, 'm) structured_document \<Rightarrow> json option \<times> json \<times> bool" where
  "startupLocal E s =
    (case diskAtStartup s of
       None \<Rightarrow> (None, startupLocalBase s, localChangedAtStartup s)
     | Some disk \<Rightarrow>
         (case liveStartupValue s of
            None \<Rightarrow> (Some disk, startupLocalBase s, localChangedAtStartup s)
          | Some live \<Rightarrow>
              if jsonEqual live disk then (Some disk, startupLocalBase s, localChangedAtStartup s)
              else let base = (if localChangedAtStartup s then startupLocalBase s else disk)
                   in (Some live, base, serialize (kind E) live \<noteq> serialize (kind E) base)))"

text \<open>The outer option of the two merges is \<open>None\<close> when parsing throws.\<close>

definition mergeWithoutSharedBaseline ::
  "'r structured_kind \<Rightarrow> bool \<Rightarrow> bool \<Rightarrow> jstr \<Rightarrow> json \<Rightarrow> json \<Rightarrow> structured_merge option option" where
  "mergeWithoutSharedBaseline K force zero baselineText disk remote =
    (case parse K [] of
       None \<Rightarrow> None
     | Some blank \<Rightarrow>
         if \<not> force \<and> baselineText \<noteq> serialize K blank then Some None
         else case (parse K (serialize K disk), parse K (serialize K remote)) of
                (Some diskShape, Some remoteShape) \<Rightarrow>
                  Some (if jsonContains remoteShape diskShape then Some \<lparr>sValue = remote, sConflicted = False\<rparr>
                        else if zero \<and> jsonContains diskShape remoteShape then Some \<lparr>sValue = disk, sConflicted = False\<rparr> else None)
              | _ \<Rightarrow> None)"

definition startupMerge ::
  "'r structured_kind \<Rightarrow> bool \<Rightarrow> bool \<Rightarrow> jstr \<Rightarrow> json \<Rightarrow> json \<Rightarrow> json \<Rightarrow> structured_merge option" where
  "startupMerge K force zero baselineText disk remote base =
    map_option (\<lambda>m. case m of
        Some merge \<Rightarrow> merge
      | None \<Rightarrow> if force then \<lparr>sValue = disk, sConflicted = (serialize K disk \<noteq> serialize K remote)\<rparr>
                else mergeStructuredStartupResult base disk remote)
      (mergeWithoutSharedBaseline K force zero baselineText disk remote)"

definition mergeNow :: "('r, 'm) structured_env \<Rightarrow> json \<Rightarrow> json \<Rightarrow> json \<Rightarrow> ('r, 'm) structured_document \<Rightarrow> structured_merge option" where
  "mergeNow E local remote base s =
    startupMerge (kind E) (forceBootstrapConflict s) (epochNow s = 0) (baselineTextAtStartup s) local remote base"

text \<open>The circumstances of a merge.\<close>

definition startupBy :: "json \<Rightarrow> json \<Rightarrow> ('r, 'm) structured_document \<Rightarrow> share_why" where
  "startupBy local base s = StartupBy base local (forceBootstrapConflict s) (epochNow s = 0) (baselineTextAtStartup s)"

text \<open>\<open>old\<close> is the shared value it replaces.\<close>

definition applyStartupMerge :: "('r, 'm) structured_env \<Rightarrow> json \<Rightarrow> share_why \<Rightarrow> json \<Rightarrow> structured_merge \<Rightarrow> ('r, 'm, bool) struct_code" where
  "applyStartupMerge E base why old merge = seen (\<lambda>s.
     if destroyed s then ret False
     else seq (sync (\<lambda>s. markReconciled (applyValue E (sValue merge) (nullable (Some base)) (noted (Shares old (sValue merge) why) s)))) (\<lambda>_. ret True))"

text \<open>A conflict at startup: the remote version is kept, once, then the merge is made with what the shared value is by then.\<close>

definition keepStartupRemote :: "('r, 'm) structured_env \<Rightarrow> jstr \<Rightarrow> ('r, 'm, unit) struct_code" where
  "keepStartupRemote E remoteText = seen (\<lambda>s.
     if Some remoteText = preservedStartupRemote s then ret ()
     else seq (preserveText E Kept remoteText RemoteSide) (\<lambda>_. sync (\<lambda>s. s\<lparr>preservedStartupRemote := Some remoteText\<rparr>)))"

definition settleStartupConflict ::
  "('r, 'm) structured_env \<Rightarrow> json option \<Rightarrow> json \<Rightarrow> json \<Rightarrow> json \<Rightarrow> share_why \<Rightarrow> structured_merge \<Rightarrow> ('r, 'm, bool) struct_code" where
  "settleStartupConflict E disk local base remote why merge =
    (let remoteText = serialize (kind E) remote
     in seq (keepStartupRemote E remoteText) (\<lambda>_. seq (readParsedFromDisk E) (\<lambda>latestDisk. seen (\<lambda>s.
          if destroyed s then ret False
          else if latestDisk = None \<or> disk = None \<or> map_option (serialize (kind E)) latestDisk \<noteq> map_option (serialize (kind E)) disk
          then seq (sync (\<lambda>s. s\<lparr>diskAtStartup := latestDisk\<rparr>)) (\<lambda>_. ret False)
          else case fst (startupLocal E s) of
                 None \<Rightarrow> ret False
               | Some latestLocal \<Rightarrow>
                   if \<not> jsonEqual latestLocal local then ret False
                   else if docText E s \<noteq> remoteText
                   then (case mergeNow E local (docValue E s) base s of None \<Rightarrow> throw | Some again \<Rightarrow> applyStartupMerge E base (startupBy local base s) (docValue E s) again)
                   else applyStartupMerge E base why (docValue E s) merge))))"

definition startupReconcile :: "('r, 'm) structured_env \<Rightarrow> ('r, 'm, bool) struct_code" where
  "startupReconcile E = seen (\<lambda>s.
     if startupReconciled s then ret True
     else case startupLocal E s of
            (Some local, base, changed) \<Rightarrow>
              if changed \<or> forceBootstrapConflict s
              then (case mergeNow E local (docValue E s) base s of
                      None \<Rightarrow> throw
                    | Some merge \<Rightarrow>
                        if sConflicted merge then settleStartupConflict E (diskAtStartup s) local base (docValue E s) (startupBy local base s) merge
                        else applyStartupMerge E base (startupBy local base s) (docValue E s) merge)
              else seq (sync markReconciled) (\<lambda>_. ret True)
          | (None, base, changed) \<Rightarrow> seq (sync markReconciled) (\<lambda>_. ret True))"

text \<open>The override of a canvas restores its orders afterwards.\<close>

definition finishStartupReconcile :: "nat \<Rightarrow> ('r, 'm) structured_env \<Rightarrow> ('r, 'm, unit) struct_code" where
  "finishStartupReconcile n E =
    seq (finishStartup (startupReconcile E)
           (startupWrite E (materializedKind (kind E)) (docText E) (\<lambda>s. suppressedWhileOpen s \<or> diskParseFailed s) (writeToDisk n E))) (\<lambda>_.
    seq (waitFor (\<lambda>_. True)) (\<lambda>_. sync (canonicalizeOrders E)))"

section \<open>The document and its environment\<close>

text \<open>\<open>reconcileFromCanvasData\<close> and \<open>reconcileFromBaseText\<close>: an edit captured from the live view.\<close>

definition reconcileFromView :: "('r, 'm) structured_env \<Rightarrow> jstr \<Rightarrow> ('r, 'm, unit) struct_code" where
  "reconcileFromView E txt = seq (parsing E txt) (\<lambda>v. sync (applyValue E v None))"

definition destroy :: "('r, 'm) structured_document \<Rightarrow> ('r, 'm) structured_document" where
  "destroy s = (if destroyed s then s
     else resolveWhenReady (s\<lparr>destroyed := True, writeTimer := False, acknowledgeTimer := False, online := False\<rparr>))"

datatype 'r struct_entry =
    Init
  | ServerSynced
  | DiskEvent
  | WriteTimer
  | AckTimer
  | StartupRetry
  | ReadOnlyUpdate
  | ReleaseTick
  | LocalChangesDone
  | Hibernate
  | Connect
  | Disconnect
  | Destroy
  | ViewEdit jstr
  | ViewChanged bool "json option"
  | SharedEdit bool 'r
  | FileEdited jstr
  | FileGone
  | OpenChanged bool
  | EpochMoved nat
  | AccessChanged bool
  | RemovalPending bool
  | Ticks nat
  | VaultGone

fun body :: "nat \<Rightarrow> ('r, 'm) structured_env \<Rightarrow> 'r struct_entry \<Rightarrow> ('r, 'm, unit) struct_code" where
  "body n E Init = seen (\<lambda>s. if initStarted s then ret ()
     else seq (sync (\<lambda>s. s\<lparr>initStarted := True\<rparr>)) (\<lambda>_. initDoc E (\<lambda>s. stored E (root s)) (afterPersistenceSynced E)))"
| "body n E ServerSynced = seen (\<lambda>s. if destroyed s then ret ()
     else seq (sync (\<lambda>s. s\<lparr>syncedOnce := True\<rparr>)) (\<lambda>_. finishStartupReconcile n E))"
| "body n E DiskEvent = onDiskChanged n E"
| "body n E WriteTimer = writeTimerFires n E"
| "body n E AckTimer = seen (\<lambda>s. if \<not> acknowledgeTimer s then ret ()
     else seq (sync (\<lambda>s. s\<lparr>acknowledgeTimer := False\<rparr>)) (\<lambda>_. recordAcknowledgedContent E (materializedKind (kind E)) (docText E)))"
| "body n E StartupRetry = seen (\<lambda>s. if startupRetries s = 0 then ret ()
     else seq (sync (\<lambda>s. s\<lparr>startupRetries := startupRetries s - 1\<rparr>)) (\<lambda>_. finishStartupReconcile n E))"
| "body n E ReadOnlyUpdate = preserveReadOnlyRecovery n E Kept (docText E)"
| "body n E ReleaseTick = sync releaseTick"
| "body n E LocalChangesDone = sync (\<lambda>s. if destroyed s then s else scheduleAcknowledgedContent (s\<lparr>hasLocalChanges := False\<rparr>))"
| "body n E Hibernate = seq (prepareForHibernation canHibernateLocally) (\<lambda>_. ret ())"
| "body n E Connect = sync ensureConnected"
| "body n E Disconnect = sync disconnect"
| "body n E Destroy = sync destroy"
| "body n E (ViewEdit txt) = reconcileFromView E txt"
| "body n E (ViewChanged active live) = sync (\<lambda>s. s\<lparr>bindingActive := active, liveStartupValue := live\<rparr>)"
| "body n E (SharedEdit local r) = sync (\<lambda>s. if destroyed s then s
     else onRootChanged E (s\<lparr>root := r, hasLocalChanges := (hasLocalChanges s \<or> local)\<rparr>))"
| "body n E (FileEdited c) = sync (\<lambda>s. s\<lparr>fs := (fs s)\<lparr>files := jset (files (fs s)) (docPath E) c\<rparr>\<rparr>)"
| "body n E FileGone = sync (\<lambda>s. s\<lparr>fs := (fs s)\<lparr>files := jdel (files (fs s)) (docPath E)\<rparr>\<rparr>)"
| "body n E (OpenChanged b) = sync (\<lambda>s. s\<lparr>isOpen := b\<rparr>)"
| "body n E (EpochMoved e) = sync (\<lambda>s. s\<lparr>epochNow := e\<rparr>)"
| "body n E (AccessChanged b) = sync (\<lambda>s. s\<lparr>readOnly := b\<rparr>)"
| "body n E (RemovalPending b) = sync (\<lambda>s. s\<lparr>removing := b\<rparr>)"
| "body n E (Ticks k) = sync (\<lambda>s. s\<lparr>clock := clock s + int k\<rparr>)"
| "body n E VaultGone = sync (\<lambda>s. s\<lparr>vaultDestroyed := True\<rparr>)"

section \<open>What the document does\<close>

text \<open>
  The shared value is replaced by the merge with the version on disk, or by that version when nothing was known of the file. When the merge
  conflicts, the replaced version was kept in a recovery copy or is the content known of the file; at startup, a version it conflicts with was
  kept (the shared value may have moved on since, and is merged again).
\<close>

definition conflictsAtStartup :: "'r structured_kind \<Rightarrow> json \<Rightarrow> json \<Rightarrow> json \<Rightarrow> bool" where
  "conflictsAtStartup K local base remote \<longleftrightarrow>
     (\<exists>force zero baselineText merge. startupMerge K force zero baselineText local remote base = Some merge \<and> sConflicted merge)"

fun shareOk :: "'r structured_kind \<Rightarrow> value_action list \<Rightarrow> json \<Rightarrow> json \<Rightarrow> share_why \<Rightarrow> bool" where
  "shareOk K earlier old new (FoldBy (Some base) disk) \<longleftrightarrow>
     (\<exists>shared. parse K (serialize K old) = Some shared \<and> new = sValue (mergeStructuredStartupResult base disk shared)
       \<and> (sConflicted (mergeStructuredStartupResult base disk shared) \<longrightarrow>
            Kept (serialize K old) \<in> set earlier \<or> (\<exists>why. Knows (serialize K old) why \<in> set earlier)))"
| "shareOk K earlier old new (FoldBy None disk) \<longleftrightarrow> new = disk"
| "shareOk K earlier old new (StartupBy base local force zero baselineText) \<longleftrightarrow>
     (\<exists>remote merge. serialize K remote = serialize K old \<and> startupMerge K force zero baselineText local remote base = Some merge \<and> new = sValue merge
       \<and> (sConflicted merge \<longrightarrow> (\<exists>r. Kept (serialize K r) \<in> set earlier \<and> conflictsAtStartup K local base r)))"

fun foldsIn :: "'r structured_kind \<Rightarrow> jstr \<Rightarrow> share_why \<Rightarrow> bool" where
  "foldsIn K d (FoldBy base disk) \<longleftrightarrow> serialize K disk = d"
| "foldsIn K d _ \<longleftrightarrow> False"

abbreviation structOk :: "'r structured_kind \<Rightarrow> value_action list \<Rightarrow> value_action \<Rightarrow> bool" where
  "structOk K \<equiv> diskOk (shareOk K) (foldsIn K) False"

abbreviation structInv :: "('r, 'm) structured_env \<Rightarrow> ('r, 'm) structured_document \<Rightarrow> bool" where
  "structInv E \<equiv> diskInv (structOk (kind E))"

abbreviation structKeeps ::
  "('r, 'm) structured_env \<Rightarrow> value_action set \<Rightarrow> ('r, 'm, 'a) struct_code \<Rightarrow> ('a \<Rightarrow> value_action set) \<Rightarrow> bool" where
  "structKeeps E \<equiv> dw.keeps (shareOk (kind E)) (foldsIn (kind E)) False"

lemma structInv_same:
  "structInv E (s\<lparr>root := r\<rparr>) = structInv E s" "structInv E (s\<lparr>hasLocalChanges := b\<rparr>) = structInv E s"
  "structInv E (s\<lparr>contentRevision := c\<rparr>) = structInv E s" "structInv E (scheduleOnChange s) = structInv E s" "trace (scheduleOnChange s) = trace s"
  by (simp_all add: diskInv_def scheduleOnChange_def noteTextActivity_def scheduleWriteToDisk_def Let_def)

lemma observer_same [simp]:
  "trace (onRootChanged E s) = trace s" "structInv E' (onRootChanged E s) = structInv E' s"
  "trace (canonicalizeOrders E s) = trace s" "structInv E' (canonicalizeOrders E s) = structInv E' s"
  by (simp_all add: onRootChanged_def canonicalizeOrders_def onOrdersChanged_def structInv_same Let_def split: prod.split)

lemma applyValue_same [simp]:
  "trace (applyValue E v base s) = trace s" "structInv E' (applyValue E v base s) = structInv E' s"
  by (simp_all add: applyValue_def structInv_same Let_def)

subsection \<open>Edits on disk\<close>

lemma holds_readParsed: "structKeeps E A (readParsedFromDisk E') (\<lambda>_. {})"
proof -
  have f: "structKeeps E A (sync (\<lambda>s. s\<lparr>diskParseFailed := b\<rparr>)) (\<lambda>_. {})" for b
    by (rule dw.keeps_quiet) (simp_all add: diskInv_def)
  show ?thesis unfolding readParsedFromDisk_def Let_def by (intro keepsR dw.keeps_vault f)
qed

lemma holds_parsing: "structKeeps E A (parsing E' t) (\<lambda>_. {})"
  unfolding parsing_def by (intro keepsR)

lemma holds_parsed:
  assumes "\<And>v. parse (kind E') t = Some v \<Longrightarrow> structKeeps E A (f v) B"
  shows "structKeeps E A (seq (parsing E' t) f) B"
proof (cases "parse (kind E') t")
  case None
  then have "seq (parsing E' t) f = throw" by (simp add: parsing_def seq_def throw_def fun_eq_iff)
  then show ?thesis by (simp add: dw.keeps_throw)
next
  case (Some v)
  then have "seq (parsing E' t) f = f v" by (simp add: parsing_def seq_def ret_def fun_eq_iff)
  then show ?thesis using assms Some by simp
qed

lemma holds_share:
  assumes "\<And>tr. A \<subseteq> set tr \<Longrightarrow> structOk (kind E) tr (Shares old new why)"
  shows "structKeeps E A (sync (\<lambda>s. applyValue E new base (noted (Shares old new why) s))) (\<lambda>_. {Shares old new why})"
  by (rule dw.keeps_sync) (auto intro!: diskInv_noted assms)

lemma holds_settle:
  assumes "\<And>tr. A \<subseteq> set tr \<Longrightarrow> shareOk (kind E) tr old new (FoldBy base disk)"
  shows "structKeeps E A (seq (sync (\<lambda>s. applyValue E new base (noted (Shares old new (FoldBy base disk)) s))) (\<lambda>_.
      noteDiskText E FoldedIn (serialize (kind E) disk))) (\<lambda>_. {})"
  unfolding noteDiskText_def
proof (rule dw.keeps_seq [OF holds_share])
  show "structKeeps E (A \<union> {Shares old new (FoldBy base disk)}) (noteDiskContent E (materializedKind (kind E)) FoldedIn (serialize (kind E) disk)) (\<lambda>_. {})"
    by (rule keeps_noteDisk) (fastforce intro: exI [of _ "FoldBy base disk"])
qed (simp add: assms)

lemma holds_foldLoop:
  assumes "\<forall>p. preserved = Some p \<longrightarrow> Kept p \<in> A"
  shows "structKeeps E A (foldLoop n E base disk preserved) (\<lambda>_. {})"
  using assms
proof (induction n arbitrary: preserved A)
  case 0
  then show ?case by (simp add: dw.keeps_waitFor)
next
  case (Suc n)
  have again: "structKeeps E A (seq (preserveText E Kept t RemoteSide) (\<lambda>_. seen (\<lambda>s.
      if destroyed s then ret () else foldLoop n E base disk (Some t)))) (\<lambda>_. {})" for A t
    by (rule dw.keeps_seq [OF dw.keeps_preserveText], intro keepsR Suc.IH) simp
  show ?case unfolding foldLoop.simps Let_def
  proof (rule dw.keeps_then [OF holds_readParsed], rule dw.keeps_seenFacts, rule dw.keeps_if [OF dw.keeps_ret], rule dw.keeps_some, goal_cases)
    case (1 latest s b)
    have merged: "structKeeps E (set (trace s)) (seq (sync (\<lambda>u. applyValue E new base (noted (Shares (docValue E s) new (FoldBy base disk)) u))) (\<lambda>_.
        noteDiskText E FoldedIn (serialize (kind E) disk))) (\<lambda>_. {})"
      if "parse (kind E) (docText E s) = Some shared" "new = sValue (mergeStructuredStartupResult b disk shared)"
        "\<not> (sConflicted (mergeStructuredStartupResult b disk shared) \<and> Some (docText E s) \<noteq> diskKnownContent s \<and> Some (docText E s) \<noteq> preserved)" for shared new
    proof (rule holds_settle)
      fix tr
      assume tr: "set (trace s) \<subseteq> set tr"
      have "Kept (docText E s) \<in> set tr \<or> (\<exists>why. Knows (docText E s) why \<in> set tr)" if "Some (docText E s) = diskKnownContent s \<or> Some (docText E s) = preserved"
        using that 1(1,2) tr Suc.prems unfolding diskInv_def by (metis subset_iff)
      then show "shareOk (kind E) tr (docValue E s) new (FoldBy base disk)"
        using that 1(4) by (auto simp: docText_def)
    qed
    show ?case by (rule holds_parsed, rule dw.keeps_if [OF again merged]) (simp_all only: refl)
  next
    case (2 latest s)
    then show ?case by (intro holds_settle) auto
  qed
qed

lemma holds_foldDiskEdit: "structKeeps E A (foldDiskEdit n E disk) (\<lambda>_. {})"
  unfolding foldDiskEdit_def by (intro keepsR dw.keeps_record holds_parsing holds_foldLoop) simp_all

lemma holds_adopt: "structKeeps E A (sync (adoptStartupDisk E' d)) (\<lambda>_. {})"
proof (rule dw.keeps_sync, goal_cases)
  case (1 s)
  then show ?case using diskInv_know [OF 1(1), of "serialize (kind E') d" AtStartup]
    by (auto simp: adoptStartupDisk_def diskInv_def Let_def)
qed

lemma holds_onDiskChanged: "structKeeps E A (onDiskChanged n E) (\<lambda>_. {})"
  unfolding onDiskChanged_def Let_def
  by (intro keepsR holds_readParsed keeps_noteShared holds_adopt holds_foldDiskEdit keeps_know) simp

subsection \<open>Disk writes\<close>

lemma holds_diskEdit:
  "checksEdits False (diskEdit n E) (held E)"
  "diskEdit n E s raw = Some takeIn \<Longrightarrow> structKeeps E A takeIn (\<lambda>_. {})"
  by (auto simp: checksEdits_def diskEdit_def held_def split: if_splits option.splits intro: holds_foldDiskEdit)

lemma holds_writeFailed: "structKeeps E A (writeFailed E') (\<lambda>_. {})"
  unfolding writeFailed_def by (intro keepsR dw.keeps_vault dw.keeps_writer keeps_know) simp

lemma holds_writeToDisk:
  assumes "Reconciled \<in> A"
  shows "structKeeps E A (writeToDisk n E) (\<lambda>_. {})"
  unfolding writeToDisk_def startDiskWrite_def writeCurrentValue_def
  by (intro dw.keeps_requestWrite keeps_writeCurrent keeps_writeAttempt holds_writeFailed holds_diskEdit assms)

lemma holds_writeTimer: "structKeeps E A (writeTimerFires n E) (\<lambda>_. {})"
proof -
  have w: "structKeeps E A (seen (\<lambda>s. if destroyed s \<or> \<not> startupReady s \<or> suppressedWhileOpen s then ret () else seq (writeToDisk n E) (\<lambda>_. ret ()))) (\<lambda>_. {})"
    by (rule keeps_whenReady [OF holds_writeToDisk]) auto
  have f: "structKeeps E A (sync (\<lambda>s. s\<lparr>writeTimer := False\<rparr>)) (\<lambda>_. {})" by (rule dw.keeps_quiet) (simp_all add: diskInv_def)
  show ?thesis unfolding writeTimerFires_def by (intro dw.keeps_seen dw.keeps_if dw.keeps_ret dw.keeps_then [OF f w])
qed

subsection \<open>Startup\<close>

lemma holds_capture: "structKeeps E A (sync (captureStartupDisk E' disk stale unchanged)) (\<lambda>_. {})"
proof (rule dw.keeps_sync, goal_cases)
  case (1 s)
  then show ?case using diskInv_know [OF 1(1), of _ AtStartup]
    by (cases disk) (auto simp: captureStartupDisk_def diskInv_def Let_def)
qed

lemma holds_afterPersistence: "structKeeps E A (afterPersistenceSynced E') (\<lambda>_. {})"
proof -
  have f: "structKeeps E A (sync (\<lambda>s. s\<lparr>baselineAtStartup := v, baselineTextAtStartup := t\<rparr>)) (\<lambda>_. {})" for v t
    by (rule dw.keeps_quiet) (simp_all add: diskInv_def)
  show ?thesis unfolding afterPersistenceSynced_def split_beta
    by (intro keepsR holds_readParsed holds_parsing dw.keeps_vault dw.keeps_storeContains holds_capture f)
qed

lemma holds_applyMerge:
  assumes "\<And>tr. A \<subseteq> set tr \<Longrightarrow> shareOk (kind E) tr old (sValue merge) why"
  shows "structKeeps E A (applyStartupMerge E base why old merge) (\<lambda>b. if b then {Reconciled} else {})"
  unfolding applyStartupMerge_def
  by (intro dw.keeps_seen dw.keeps_if keeps_unmarked keeps_reconciled) (auto intro!: diskInv_noted assms)

lemma holds_keepRemote: "structKeeps E A (keepStartupRemote E' t) (\<lambda>_. {Kept t})"
proof -
  have k: "structKeeps E B (seq (preserveText E' Kept t RemoteSide) (\<lambda>_. sync (\<lambda>s. s\<lparr>preservedStartupRemote := Some t\<rparr>))) (\<lambda>_. {Kept t})" for B
    by (rule dw.keeps_seq [OF dw.keeps_preserveText]) (rule dw.keeps_sync, auto simp: diskInv_def)
  show ?thesis unfolding keepStartupRemote_def
  proof (rule dw.keeps_seenFacts, rule dw.keeps_if, goal_cases)
    case (1 s)
    then show ?case by (intro dw.keeps_retFacts) (simp add: diskInv_def)
  qed (rule k)
qed

lemma mergeNow_ok:
  assumes "mergeNow E local remote base s = Some m" "serialize (kind E) remote = serialize (kind E) old"
    and "sConflicted m \<Longrightarrow> \<exists>r. Kept (serialize (kind E) r) \<in> set tr \<and> conflictsAtStartup (kind E) local base r"
  shows "shareOk (kind E) tr old (sValue m) (startupBy local base s)"
  using assms unfolding mergeNow_def startupBy_def shareOk.simps by blast

lemma mergeNow_conflicts: "mergeNow E local remote base s = Some m \<Longrightarrow> sConflicted m \<Longrightarrow> conflictsAtStartup (kind E) local base remote"
  unfolding mergeNow_def conflictsAtStartup_def by blast

lemma holds_settleStartupConflict:
  assumes "mergeNow E local remote base s0 = Some merge" "sConflicted merge"
  shows "structKeeps E A (settleStartupConflict E disk local base remote (startupBy local base s0) merge) (\<lambda>b. if b then {Reconciled} else {})"
proof -
  let ?K = "Kept (serialize (kind E) remote)"
  have kept: "\<exists>r. Kept (serialize (kind E) r) \<in> set tr \<and> conflictsAtStartup (kind E) local base r" if "A \<union> {?K} \<subseteq> set tr" for tr
    using that mergeNow_conflicts [OF assms] by auto
  have same: "structKeeps E (A \<union> {?K}) (applyStartupMerge E base (startupBy local base s0) (docValue E s) merge) (\<lambda>b. if b then {Reconciled} else {})"
    if "\<not> docText E s \<noteq> serialize (kind E) remote" for s
    using that by (intro holds_applyMerge mergeNow_ok [OF assms(1)] kept) (simp_all add: docText_def)
  have moved: "structKeeps E (A \<union> {?K}) (applyStartupMerge E base (startupBy local base s) (docValue E s) again) (\<lambda>b. if b then {Reconciled} else {})"
    if "mergeNow E local (docValue E s) base s = Some again" for s again
    using that by (intro holds_applyMerge mergeNow_ok [OF that] kept) simp_all
  have f: "structKeeps E B (seq (sync (\<lambda>s. s\<lparr>diskAtStartup := d\<rparr>)) (\<lambda>_. ret False)) (\<lambda>b. if b then {Reconciled} else {})" for B d
    by (rule dw.keeps_then [OF dw.keeps_quiet keeps_unmarked]) (simp_all add: diskInv_def)
  show ?thesis unfolding settleStartupConflict_def Let_def
    by (rule dw.keeps_seq [OF holds_keepRemote], rule dw.keeps_then [OF holds_readParsed], rule dw.keeps_seen)
       (intro dw.keeps_if dw.keeps_some keeps_unmarked f dw.keeps_throw same moved; assumption)
qed

lemma holds_startupReconcile: "structKeeps E A (startupReconcile E) (\<lambda>b. if b then {Reconciled} else {})"
proof -
  have direct: "structKeeps E B (applyStartupMerge E base (startupBy local base s) (docValue E s) merge) (\<lambda>b. if b then {Reconciled} else {})"
    if "mergeNow E local (docValue E s) base s = Some merge" "\<not> sConflicted merge" for local base s merge B
    by (intro holds_applyMerge mergeNow_ok [OF that(1)] refl) (use that in simp)
  have "structKeeps E B (case l of
            (Some local, base, changed) \<Rightarrow>
              if changed \<or> forceBootstrapConflict s
              then (case mergeNow E local (docValue E s) base s of
                      None \<Rightarrow> throw
                    | Some merge \<Rightarrow>
                        if sConflicted merge then settleStartupConflict E (diskAtStartup s) local base (docValue E s) (startupBy local base s) merge
                        else applyStartupMerge E base (startupBy local base s) (docValue E s) merge)
              else seq (sync markReconciled) (\<lambda>_. ret True)
          | (None, base, changed) \<Rightarrow> seq (sync markReconciled) (\<lambda>_. ret True)) (\<lambda>b. if b then {Reconciled} else {})" for B l s
    by (cases l; cases "fst l"; simp only: prod.case fst_conv option.case)
       (intro dw.keeps_if dw.keeps_some dw.keeps_throw keeps_mark holds_settleStartupConflict direct; assumption)+
  then show ?thesis unfolding startupReconcile_def by (intro keeps_unlessReconciled)
qed

lemma holds_finishStartup: "structKeeps E A (finishStartupReconcile n E) (\<lambda>_. {})"
proof -
  have "structKeeps E A (sync (canonicalizeOrders E)) (\<lambda>_. {})" by (rule dw.keeps_quiet) simp_all
  then show ?thesis unfolding finishStartupReconcile_def
    by (intro keepsR keeps_finishStartup holds_startupReconcile keeps_startupWrite holds_writeToDisk)
qed

lemma holds_body: "structKeeps E {} (body n E e) (\<lambda>_. {})"
proof -
  have f: "structKeeps E A (sync f) (\<lambda>_. {})" if "\<And>s. structInv E (f s) = structInv E s" "\<And>s. trace (f s) = trace s" for A f
    by (rule dw.keeps_quiet) (simp_all add: that)
  show ?thesis
    by (cases e; simp only: body.simps reconcileFromView_def; intro keepsR dw.keeps_initDoc holds_afterPersistence holds_finishStartup holds_onDiskChanged
        holds_writeTimer dw.keeps_recordAcknowledged dw.keeps_preserveReadOnly dw.keeps_record dw.keeps_hibernation holds_parsing f)
       (simp_all add: structInv_same, simp_all add: diskInv_def ensureConnected_def connectProvider_def disconnect_def destroy_def
        resolveWhenReady_def scheduleAcknowledgedContent_def Let_def)
qed

section \<open>Properties\<close>


subsection \<open>Examples\<close>

text \<open>A base whose file lists its keys, one character each; a file with an exclamation mark does not parse.\<close>

definition keysParse :: "jstr \<Rightarrow> yaml option" where
  "keysParse txt = (if 33 \<in> set txt then None else Some (YamlObj (map (\<lambda>c. ([c], YamlPlain (JBool True))) txt)))"

definition keysPrint :: "json \<Rightarrow> jstr" where
  "keysPrint v = concat (map fst (objFields v))"

definition sampleEnv :: "(jstr ymap, (jstr, Local_Sync_State.stored) jmap) structured_env" where
  "sampleEnv = \<lparr>dict = alistDict, sha256 = id, recovery = asciiEnv, utc = (\<lambda>_. \<lparr>year = 0, month = 0, day = 0, hours = 0, minutes = 0,
     seconds = 0, millis = 0\<rparr>), docPath = lit ''a.base'', docGuid = lit ''g'', docEpoch = 0, autoConnect = True,
     kind = baseKind plainYjs keysParse keysPrint, stored = (\<lambda>m. m \<noteq> []), staleLocalFingerprint = Some (lit ''ab''), retiredBaselineText = None\<rparr>"

definition sampleDoc :: "(jstr ymap, (jstr, Local_Sync_State.stored) jmap) structured_document" where
  "sampleDoc = \<lparr>trace = [], faults = (\<lambda>_. False), calls = 0, fs = \<lparr>files = [(lit ''a.base'', lit ''ab'')], folders = []\<rparr>, isOpen = False, clock = 0,
     localSync = \<lparr>paths = [], indexEpoch = None\<rparr>, vaultDestroyed = False, lastTextActivityAt = 0, ownWrites = [], ownReleases = [],
     epochNow = 0, online = False, hasLocalChanges = False, readOnly = False, isCreator = False, destroyed = False, startupReady = False,
     ready = False, initStarted = False, persistenceReady = False, loadedStoredState = False, connectRequested = False, syncedOnce = False,
     readOnlyRecoveryPending = False, readOnlyRecoveryRequested = False, readOnlyRecoveryBaseline = None, readOnlyRecoveryPath = None,
     presenceUser = None, presenceHolds = 0, presence = None, contentRevision = 0, contentFingerprint = None, acknowledgeTimer = False,
     removing = False, writingTextToDisk = None, diskKnownContent = None, writeRunning = None, writeQueued = None, nextWrite = 0,
     writeResults = [], writeTimer = False, localChangedAtStartup = False, startupReconciled = False, startupReconciling = False,
     forceBootstrapConflict = True, startupRetries = 0, preservedStartupRemote = None, root = [], bindingActive = False, liveStartupValue = None,
     baselineAtStartup = JObj [], baselineTextAtStartup = [], diskAtStartup = None, startupLocalBase = JObj [], diskParseFailed = False\<rparr>"

text \<open>Bases with the keys \<open>a\<close> and \<open>b\<close>.\<close>

definition keysOf :: "jstr \<Rightarrow> json" where
  "keysOf ks = JObj (map (\<lambda>c. ([c], JBool True)) ks)"

lemma keysOf_plain [simp]: "keysOf ks \<noteq> JNull"
  by (simp add: keysOf_def)

lemma nullable_keysOf [simp]: "nullable (Some (keysOf ks)) = Some (keysOf ks)"
  by (simp add: keysOf_def)

lemma sampleKind:
  "docPath sampleEnv = lit ''a.base''" "sha256 sampleEnv = id" "staleLocalFingerprint sampleEnv = Some (lit ''ab'')" "retiredBaselineText sampleEnv = None"
  "stored sampleEnv m = (m \<noteq> [])" "canonicalize (kind sampleEnv) m = (m, False)"
  "serialize (kind sampleEnv) (keysOf ks) = ks" "dict sampleEnv = alistDict" "docGuid sampleEnv = lit ''g''" "autoConnect sampleEnv = True"
  by (simp_all add: sampleEnv_def baseKind_def plainYjs_def serializeBase_def keysPrint_def) (simp_all add: keysOf_def comp_def)

lemma sampleParse:
  "parse (kind sampleEnv) (lit ''ab'') = Some (keysOf (lit ''ab''))" "parse (kind sampleEnv) (lit ''a'') = Some (keysOf (lit ''a''))"
  "parse (kind sampleEnv) [] = Some (keysOf [])" "parse (kind sampleEnv) (lit ''!'') = None"
proof -
  have p: "parse (kind sampleEnv) = parseBase keysParse" by (simp add: sampleEnv_def baseKind_def)
  show "parse (kind sampleEnv) (lit ''ab'') = Some (keysOf (lit ''ab''))" unfolding p by code_simp
  show "parse (kind sampleEnv) (lit ''a'') = Some (keysOf (lit ''a''))" unfolding p by code_simp
  show "parse (kind sampleEnv) [] = Some (keysOf [])" unfolding p by code_simp
  show "parse (kind sampleEnv) (lit ''!'') = None" unfolding p by code_simp
qed

lemmas sample_simps = run_simps sampleKind sampleParse readParsedFromDisk_def vaultRead_def fileAt_def know_def Let_def


text \<open>
  The untouched copy of a file that was deleted, and created again by somebody else: its fingerprint is the one recorded, so it is no local change,
  but the conflict that the new identity announces is not dropped. The old copy, which contains the new document, replaces it.
\<close>

definition recreated :: "jstr ymap" where
  "recreated = [(lit ''a'', YPlain (JBool True))]"

lemma sampleValue:
  "valueOf (kind sampleEnv) [] = keysOf []" "valueOf (kind sampleEnv) recreated = keysOf (lit ''a'')"
  "valueOf (kind sampleEnv) [(lit ''a'', YPlain (JBool True)), (lit ''b'', YPlain (JBool True))] = keysOf (lit ''ab'')"
proof -
  have v: "valueOf (kind sampleEnv) m = toValue (\<lambda>t. t) (YMap m)" for m by (simp add: sampleEnv_def baseKind_def plainYjs_def)
  show "valueOf (kind sampleEnv) [] = keysOf []" unfolding v by code_simp
  show "valueOf (kind sampleEnv) recreated = keysOf (lit ''a'')" unfolding v by code_simp
  show "valueOf (kind sampleEnv) [(lit ''a'', YPlain (JBool True)), (lit ''b'', YPlain (JBool True))] = keysOf (lit ''ab'')" unfolding v by code_simp
qed

lemma nothingAcknowledged: "acknowledgedFingerprint alistDict \<lparr>paths = [], indexEpoch = None\<rparr> p g = None"
  by (simp add: acknowledgedFingerprint_def getPath_def alistDict_def)

lemma sampleApply:
  "applyRoot (kind sampleEnv) (keysOf (lit ''ab'')) base recreated = [(lit ''a'', YPlain (JBool True)), (lit ''b'', YPlain (JBool True))]"
proof -
  have "applyRoot (kind sampleEnv) (keysOf (lit ''ab'')) base recreated
      = mapOf (Some (fst (reconcileInto plainYjs None (YMap recreated) (keysOf (lit ''ab'')))))"
    by (simp add: sampleEnv_def baseKind_def)
  also have "\<dots> = [(lit ''a'', YPlain (JBool True)), (lit ''b'', YPlain (JBool True))]" by code_simp
  finally show ?thesis .
qed

lemma sampleContains: "jsonContains (keysOf (lit ''a'')) (keysOf (lit ''ab'')) = False" "jsonContains (keysOf (lit ''ab'')) (keysOf (lit ''a'')) = True"
  by code_simp+

lemma recreated_less [simp]: "[(lit ''a'', YPlain (JBool True)), (lit ''b'', YPlain (JBool True))] \<noteq> recreated"
  by (simp add: recreated_def)

lemmas step_simps = eval_nat_numeral sample_simps initDoc_def afterPersistenceSynced_def sampleDoc_def docValue_def docText_def sampleValue nothingAcknowledged
  sha256Text_def storeContainsDiskContent_def acknowledgedDisk_def captureStartupDisk_def connectProvider_def onRootChanged_def scheduleOnChange_def

lemmas startup_simps = finishStartupReconcile_def finishStartup_def startupReconcile_def startupLocal_def mergeNow_def startupMerge_def
  mergeWithoutSharedBaseline_def sampleContains applyStartupMerge_def applyValue_def sampleApply markReconciled_def startupBy_def
  startupWrite_def suppressedWhileOpen_def writeToDisk_def requestWrite_def startDiskWrite_def startWrite_def writeCurrentValue_def writeCurrent_def writeAttempt_def awaitWrite_def

theorem stale_copy_replaces_document:
  "\<exists>s ts s' ts'. runs (body 1 sampleEnv) sampleDoc s ts \<and> docValue sampleEnv s = keysOf (lit ''a'') \<and> \<not> localChangedAtStartup s
     \<and> staleLocalFingerprint sampleEnv = Some (sha256 sampleEnv (lit ''ab'')) \<and> fileAt s (lit ''a.base'') = Some (lit ''ab'')
     \<and> enterTask (body 1 sampleEnv ServerSynced) (s, ts) = (s', ts') \<and> docText sampleEnv s' = lit ''ab'' \<and> (\<forall>t. Kept t \<notin> set (trace s'))"
proof -
  define x1 where "x1 = (stepTask 0 ^^ 7) (enterTask (body 1 sampleEnv Init) (sampleDoc, []))"
  define x2 where "x2 = enterTask (body 1 sampleEnv (SharedEdit False recreated)) x1"
  have r: "runs (body 1 sampleEnv) sampleDoc (fst x2) (snd x2)"
    unfolding x2_def x1_def by (intro runs_enter runs_steps runs_begin)
  define d where "d = sampleDoc\<lparr>trace := [Knows (lit ''ab'') AtStartup], calls := 3, online := True, initStarted := True, persistenceReady := True,
      diskKnownContent := Some (lit ''ab''), baselineAtStartup := keysOf [], diskAtStartup := Some (keysOf (lit ''ab'')),
      startupLocalBase := keysOf (lit ''ab''), contentRevision := 1, root := recreated\<rparr>"
  have x2: "x2 = (d, [Done, Done])"
    unfolding x2_def x1_def d_def by (simp add: step_simps)
  have e: "docValue sampleEnv d = keysOf (lit ''a'')" "\<not> localChangedAtStartup d" "fileAt d (lit ''a.base'') = Some (lit ''ab'')"
    by (simp_all add: d_def step_simps)
  have f: "docText sampleEnv (fst (enterTask (body 1 sampleEnv ServerSynced) (d, [Done, Done]))) = lit ''ab''"
    unfolding d_def by (simp add: step_simps startup_simps)
  have g: "\<forall>t. Kept t \<notin> set (trace (fst (enterTask (body 1 sampleEnv ServerSynced) (d, [Done, Done]))))"
    unfolding d_def by (simp add: step_simps startup_simps)
  show ?thesis using r e f g unfolding x2
    by (intro exI [of _ d] exI [of _ "[Done, Done]"] exI [of _ "fst (enterTask (body 1 sampleEnv ServerSynced) (d, [Done, Done]))"]
        exI [of _ "snd (enterTask (body 1 sampleEnv ServerSynced) (d, [Done, Done]))"]) (simp add: sampleKind del: body.simps enterTask.simps)
qed

text \<open>
  A file that was found broken and has been repaired: the flag of the failed read makes the next write skip the comparison with what is known of the
  file, so the repaired content, whose event has not been handled yet, is overwritten with no merge and no copy.
\<close>

definition brokenDoc :: "(jstr ymap, (jstr, Local_Sync_State.stored) jmap) structured_document" where
  "brokenDoc = sampleDoc\<lparr>trace := [Reconciled, SharedWas [], Knows [] InShared], fs := \<lparr>files = [(lit ''a.base'', lit ''!'')], folders = []\<rparr>,
     diskKnownContent := Some [], root := recreated, startupReady := True, startupReconciled := True, writeTimer := True\<rparr>"

theorem repaired_file_is_overwritten:
  "\<exists>s ts. structInv sampleEnv brokenDoc \<and> runs (body 1 sampleEnv) brokenDoc s ts \<and> diskKnownContent s = Some []
     \<and> fileAt s (lit ''a.base'') = Some (lit ''ab'') \<and> parse (kind sampleEnv) (lit ''ab'') \<noteq> None
     \<and> (\<exists>s' ts'. runs (body 1 sampleEnv) brokenDoc s' ts' \<and> length ts' \<ge> length ts \<and> files (fs s') = [(lit ''a.base'', lit ''a'')]
          \<and> (\<forall>t. Kept t \<notin> set (trace s')) \<and> docText sampleEnv s' = lit ''a'')"
proof -
  define x1 where "x1 = (stepTask 0 ^^ 3) (enterTask (body 1 sampleEnv DiskEvent) (brokenDoc, []))"
  define x2 where "x2 = enterTask (body 1 sampleEnv (FileEdited (lit ''ab''))) x1"
  define x3 where "x3 = (stepTask 2 ^^ 4) (enterTask (body 1 sampleEnv WriteTimer) x2)"
  have inv: "structInv sampleEnv brokenDoc" by (auto simp: diskInv_def brokenDoc_def sampleDoc_def)
  have r2: "runs (body 1 sampleEnv) brokenDoc (fst x2) (snd x2)" unfolding x2_def x1_def by (intro runs_enter runs_steps runs_begin)
  have r3: "runs (body 1 sampleEnv) brokenDoc (fst x3) (snd x3)" unfolding x3_def by (intro runs_enter runs_steps r2)
  define d where "d = brokenDoc\<lparr>calls := 1, diskParseFailed := True, fs := \<lparr>files = [(lit ''a.base'', lit ''ab'')], folders = []\<rparr>\<rparr>"
  have x2: "x2 = (d, [Done, Done])"
    unfolding x2_def x1_def d_def brokenDoc_def by (simp add: step_simps onDiskChanged_def)
  have e: "diskKnownContent d = Some []" "fileAt d (lit ''a.base'') = Some (lit ''ab'')" by (simp_all add: d_def brokenDoc_def fileAt_def)
  have f: "length (snd x3) \<ge> 2 \<and> files (fs (fst x3)) = [(lit ''a.base'', lit ''a'')] \<and> (\<forall>t. Kept t \<notin> set (trace (fst x3))) \<and> docText sampleEnv (fst x3) = lit ''a''"
    unfolding x3_def x2 d_def brokenDoc_def
    by (simp add: step_simps startup_simps writeTimerFires_def writeOver_def diskEdit_def held_def ownWrite_def beginOwnWrite_def vaultModify_def)
  show ?thesis using inv r2 r3 e f unfolding x2
    by (intro exI [of _ d] exI [of _ "[Done, Done]"] conjI exI [of _ "fst x3"] exI [of _ "snd x3"]) (simp_all add: sampleParse)
qed

end
