(* ===== verification/Vault_Registry.thy ===== *)
theory Vault_Registry
  imports Async_Tasks Local_Sync_State Conflict_Recovery Bootstrap_Events Config_Categories
begin

text \<open>
  The state of \<open>VaultSync\<close> (\<open>src/src/VaultSync.ts\<close>) and its synchronous parts: the shared index (\<open>files\<close>, \<open>structured\<close> and \<open>trash\<close>), the resident
  documents, the queue of documents to connect with its slots, path versions, classification of files, and the working set of mobile
  devices. The handlers built on them are in theory \<open>Vault_Sync\<close>.

  A document is an object of the list \<open>docs\<close>, named by its position; of its inner life (theories \<open>Text_Document\<close> and \<open>Structured_Document\<close>) only what this class asks for is
  seen here, and the environment changes it. Obsidian's \<open>TFile.extension\<close>, whether an object of the vault is a file, the glob matcher and the random guids are arguments.
  A slot of the queue is a pending promise: it may become free at any time, since it does so after a timeout at the latest.
\<close>

section \<open>State\<close>

datatype registry = Notes | Structured

datatype structured_meta = Meta jstr materialized_kind | Malformed

datatype file_kind = TextFile | StructuredFile | BinaryFile | IgnoredFile

datatype sync_status = Offline | Connecting | Connected | Erroneous

datatype trash_kind = TText | TCanvas | TBase | TBinary | TPluginDb

record trash_value =
  tPath :: jstr
  tKind :: trash_kind
  tGuid :: "jstr option"
  tHash :: "jstr option"
  tOwner :: "(jstr \<times> jstr) option"
  deletedAt :: int

record resident =
  rPath :: jstr
  rGuid :: jstr
  rKind :: materialized_kind
  rCreator :: bool
  rForce :: bool
  rStale :: "jstr option"
  rRetired :: "jstr option"
  rEpoch :: nat
  rContent :: jstr
  rReady :: bool
  rDestroyed :: bool
  rCleared :: bool
  rLocalChanges :: bool
  rHibernates :: bool
  rStatus :: sync_status

record queue_item =
  qGuid :: jstr
  qKind :: materialized_kind
  qReconnect :: bool
  qRetired :: "jstr option"

record slot =
  slotDoc :: nat
  slotPath :: jstr
  slotGuid :: jstr
  slotGeneration :: nat

text \<open>What \<open>BinarySync\<close> is told.\<close>

datatype binary_call = ChangedLocally jstr | DeletedLocally jstr | RenamedLocally jstr jstr | HoldMoved jstr | ReleaseMoved jstr | StartBackground | Paused bool

text \<open>Why this device changes the index.\<close>

datatype commit_why = ByPublish jstr nat | ByDeletion jstr | ByRename jstr jstr | ByRestore jstr | ByMigration jstr | ByTrash

text \<open>
  What the class does, in order. \<open>Checked\<close> says that a remote delete found nothing left to preserve: the fingerprints that need no copy, and
  the versions in memory and on disk it looked at last. \<open>DeleteFile\<close> says whether the versions were looked at in an earlier attempt. \<open>Commit\<close> lists the
  entries whose document is then neither in the index nor in the trash.
\<close>

datatype vault_action =
    Kept jstr jstr
  | Acknowledged jstr "jstr option" jstr
  | Lags jstr jstr
  | Checked jstr "jstr option" "jstr list" "jstr option" "jstr option"
  | DeleteFile jstr "jstr option" bool
  | MoveFile jstr jstr "jstr option" bool
  | Readied nat
  | Commit commit_why "(jstr \<times> jstr) list"
  | Idle nat
  | Evict nat bool
  | Registered jstr jstr
  | DiskChanged jstr
  | Told binary_call

record 'm vault_sync = "vault_action world" +
  fs :: "jstr Conflict_Recovery.vault"
  clock :: int
  guids :: nat
  indexFiles :: "(jstr, jstr) jmap"
  indexStructured :: "(jstr, structured_meta) jmap"
  trash :: "(jstr, trash_value) jmap"
  binaries :: "(jstr, jstr) jmap"
  configFiles :: "(jstr, jstr) jmap"
  binaryWriting :: "jstr list"
  localSync :: "'m sync_state"
  docs :: "resident list"
  documents :: "(jstr, nat) jmap"
  structuredDocuments :: "(jstr, nat) jmap"
  destroyed :: bool
  mobileSuspended :: bool
  initialSynced :: bool
  initialSyncRunning :: bool
  initialRetries :: nat
  bootstrapPrepared :: bool
  startupFiles :: "(jstr, jstr) jmap"
  startupStructured :: "(jstr, structured_meta) jmap"
  indexStatus :: sync_status
  docQueue :: "(jstr, queue_item) jmap"
  activeDocConnections :: nat
  docConnectionGeneration :: nat
  slots :: "slot list"
  highPriorityDrained :: bool
  backgroundSyncStarted :: bool
  prioritizedPaths :: "jstr list"
  prioritizedGuids :: "jstr list"
  pathVersions :: "(jstr, nat) jmap"
  bootstrapLog :: event_log
  ownWrites :: "(jstr, nat) jmap"
  remoteDeleteInFlight :: "jstr list"
  remoteDeletePending :: "(jstr, materialized_kind \<times> jstr option) jmap"
  remoteDeletePreserved :: "jstr list"
  remoteDeletesApplying :: "jstr list"
  remoteRenamesApplying :: "(jstr, jstr) jmap"
  deleteRetries :: "(jstr \<times> materialized_kind \<times> jstr option) list"
  renameTimers :: "(jstr \<times> jstr) list"
  binaryRenameSources :: "(jstr, jstr) jmap"
  mobileLastUsedAt :: "(jstr, int) jmap"
  mobileTrimTimer :: bool
  mobileTrimRunning :: bool
  mobileCatchUpPending :: bool
  mobileResumeInProgress :: bool
  invalidationReloads :: "jstr list"
  invalidationReloadPending :: "jstr list"
  openPaths :: "jstr list"
  recentPaths :: "jstr list"

record 'm vault_env =
  dict :: "'m paths_map"
  sha256 :: "jstr \<Rightarrow> jstr"
  recovery :: conflict_env
  utc :: "int \<Rightarrow> date"
  guidAt :: "nat \<Rightarrow> jstr"
  tfile :: "jstr \<Rightarrow> bool"
  extension :: "jstr \<Rightarrow> jstr"
  globMatch :: "jstr \<Rightarrow> jstr \<Rightarrow> bool"
  vaultId :: jstr
  configDir :: jstr
  mobile :: bool
  evicts :: bool
  recentLimit :: nat
  maxResident :: nat
  syncCanvases :: bool
  syncBases :: bool
  syncBinaries :: bool
  excludeGlobs :: jstr
  syncConfigEnabled :: bool
  configCategories :: config_sync_categories
  blobKept :: "jstr \<Rightarrow> bool"
  sqlLive :: "jstr \<Rightarrow> jstr \<Rightarrow> bool"
  epochOf :: "jstr \<Rightarrow> nat"

section \<open>Files\<close>

definition structuredKindForExtension :: "jstr \<Rightarrow> materialized_kind option" where
  "structuredKindForExtension ext = (if ext = lit ''canvas'' then Some KCanvas else if ext = lit ''base'' then Some KBase else None)"

definition isConfigPath :: "'m vault_env \<Rightarrow> jstr \<Rightarrow> bool" where
  "isConfigPath E path =
    (let dir = rev (dropWhile (\<lambda>u. u = 47) (rev (configDir E))) in length dir > 0 \<and> startsWith path (dir @ lit ''/''))"

definition classify :: "'m vault_env \<Rightarrow> jstr \<Rightarrow> file_kind" where
  "classify E path =
    (if \<not> tfile E path then IgnoredFile
     else if isConflictCopy (recovery E) path then IgnoredFile
     else if isConfigPath E path then IgnoredFile
     else if extension E path = lit ''md'' then TextFile
     else if extension E path = lit ''canvas'' \<and> syncCanvases E then StructuredFile
     else if extension E path = lit ''base'' \<and> syncBases E then StructuredFile
     else if \<not> syncBinaries E then IgnoredFile
     else if matchesAnyGlob (globMatch E) path (parseGlobs (excludeGlobs E)) then IgnoredFile
     else BinaryFile)"

text \<open>The kind of document a file has, if it has one.\<close>

definition documentKind :: "'m vault_env \<Rightarrow> jstr \<Rightarrow> materialized_kind option" where
  "documentKind E path =
    (case classify E path of
       TextFile \<Rightarrow> Some KText
     | StructuredFile \<Rightarrow> structuredKindForExtension (extension E path)
     | _ \<Rightarrow> None)"

definition localFileExists :: "'m vault_sync \<Rightarrow> jstr \<Rightarrow> bool" where
  "localFileExists s path \<longleftrightarrow> jhas (files (fs s)) path"

definition onRecord :: "('m sync_state \<Rightarrow> 'm sync_state) \<Rightarrow> 'm vault_sync \<Rightarrow> 'm vault_sync" where
  "onRecord f s = s\<lparr>localSync := f (localSync s)\<rparr>"

definition currentPathVersion :: "'m vault_sync \<Rightarrow> jstr \<Rightarrow> nat" where
  "currentPathVersion s path = (case jget (pathVersions s) path of Some n \<Rightarrow> n | None \<Rightarrow> 0)"

definition bumpPathVersion :: "jstr \<Rightarrow> 'm vault_sync \<Rightarrow> 'm vault_sync" where
  "bumpPathVersion path s = s\<lparr>pathVersions := jset (pathVersions s) path (currentPathVersion s path + 1)\<rparr>"

definition isOwnWrite :: "'m vault_sync \<Rightarrow> jstr \<Rightarrow> bool" where
  "isOwnWrite s path \<longleftrightarrow> jhas (ownWrites s) path \<or> path \<in> set (remoteDeletesApplying s) \<or> path \<in> set (binaryWriting s)"

definition beginUntrackedCandidate :: "'m vault_env \<Rightarrow> jstr \<Rightarrow> materialized_kind \<Rightarrow> jstr \<Rightarrow> 'm vault_sync \<Rightarrow> 'm vault_sync" where
  "beginUntrackedCandidate E path k fp s =
    (if hasPath (dict E) (localSync s) path then s else onRecord (beginCandidate (dict E) path k None (Some fp)) s)"

section \<open>The index\<close>

definition pathForGuid :: "'m vault_sync \<Rightarrow> jstr \<Rightarrow> jstr option" where
  "pathForGuid s guid =
    (case filter (\<lambda>(path, g). g = guid) (indexFiles s) of
       (path, _) # _ \<Rightarrow> Some path
     | [] \<Rightarrow> (case filter (\<lambda>(path, m). case m of Meta g _ \<Rightarrow> g = guid | Malformed \<Rightarrow> False) (indexStructured s) of
                (path, _) # _ \<Rightarrow> Some path
              | [] \<Rightarrow> None))"

definition listedAs :: "materialized_kind \<Rightarrow> 'm vault_sync \<Rightarrow> jstr \<Rightarrow> bool" where
  "listedAs k s path \<longleftrightarrow> (if k = KText then jhas (indexFiles s) path else jhas (indexStructured s) path)"

definition listedMeta :: "'m vault_sync \<Rightarrow> jstr \<Rightarrow> (jstr \<times> materialized_kind) option" where
  "listedMeta s path = (case jget (indexStructured s) path of Some (Meta g k) \<Rightarrow> Some (g, k) | _ \<Rightarrow> None)"

text \<open>The guid and kind an entry of the index gives for a document of kind \<open>k\<close>.\<close>

definition listedEntry :: "materialized_kind \<Rightarrow> 'm vault_sync \<Rightarrow> jstr \<Rightarrow> (jstr \<times> materialized_kind) option" where
  "listedEntry k s path = (if k = KText then map_option (\<lambda>g. (g, KText)) (jget (indexFiles s) path) else listedMeta s path)"

datatype index_op =
    SetFile jstr jstr
  | DelFile jstr
  | SetStructured jstr structured_meta
  | DelStructured jstr
  | SetTrash jstr trash_value
  | DelTrash jstr

fun applyOp :: "index_op \<Rightarrow> 'm vault_sync \<Rightarrow> 'm vault_sync" where
  "applyOp (SetFile p g) s = s\<lparr>indexFiles := jset (indexFiles s) p g\<rparr>"
| "applyOp (DelFile p) s = s\<lparr>indexFiles := jdel (indexFiles s) p\<rparr>"
| "applyOp (SetStructured p m) s = s\<lparr>indexStructured := jset (indexStructured s) p m\<rparr>"
| "applyOp (DelStructured p) s = s\<lparr>indexStructured := jdel (indexStructured s) p\<rparr>"
| "applyOp (SetTrash i v) s = s\<lparr>trash := jset (trash s) i v\<rparr>"
| "applyOp (DelTrash i) s = s\<lparr>trash := jdel (trash s) i\<rparr>"

text \<open>The keys of \<open>files\<close> and \<open>structured\<close> that a transaction touches, once each, in the order in which the observers see them.\<close>

fun touches :: "index_op \<Rightarrow> (registry \<times> jstr) list" where
  "touches (SetFile p g) = [(Notes, p)]"
| "touches (DelFile p) = [(Notes, p)]"
| "touches (SetStructured p m) = [(Structured, p)]"
| "touches (DelStructured p) = [(Structured, p)]"
| "touches _ = []"

definition touched :: "index_op list \<Rightarrow> (registry \<times> jstr) list" where
  "touched ops =
    (let keys = rev (remdups (rev (concat (map touches ops))))
     in case keys of
          [] \<Rightarrow> []
        | (r, _) # _ \<Rightarrow> filter (\<lambda>x. fst x = r) keys @ filter (\<lambda>x. fst x \<noteq> r) keys)"

fun putEntry :: "materialized_kind \<Rightarrow> jstr \<Rightarrow> jstr \<Rightarrow> index_op" where
  "putEntry KText path guid = SetFile path guid"
| "putEntry k path guid = SetStructured path (Meta guid k)"

definition registerFile :: "jstr \<Rightarrow> jstr \<Rightarrow> 'm vault_sync \<Rightarrow> 'm vault_sync" where
  "registerFile path guid = noted (Registered path guid)"

definition newGuid :: "'m vault_env \<Rightarrow> 'm vault_sync \<Rightarrow> jstr" where
  "newGuid E s = guidAt E (guids s)"

definition usedGuid :: "'m vault_sync \<Rightarrow> 'm vault_sync" where
  "usedGuid s = s\<lparr>guids := guids s + 1\<rparr>"

section \<open>Resident documents\<close>

fun regOf :: "materialized_kind \<Rightarrow> registry" where
  "regOf KText = Notes"
| "regOf _ = Structured"

fun regGet :: "registry \<Rightarrow> 'm vault_sync \<Rightarrow> jstr \<Rightarrow> nat option" where
  "regGet Notes s path = jget (documents s) path"
| "regGet Structured s path = jget (structuredDocuments s) path"

fun regSet :: "registry \<Rightarrow> jstr \<Rightarrow> nat \<Rightarrow> 'm vault_sync \<Rightarrow> 'm vault_sync" where
  "regSet Notes path i s = s\<lparr>documents := jset (documents s) path i\<rparr>"
| "regSet Structured path i s = s\<lparr>structuredDocuments := jset (structuredDocuments s) path i\<rparr>"

fun regDel :: "registry \<Rightarrow> jstr \<Rightarrow> 'm vault_sync \<Rightarrow> 'm vault_sync" where
  "regDel Notes path s = s\<lparr>documents := jdel (documents s) path\<rparr>"
| "regDel Structured path s = s\<lparr>structuredDocuments := jdel (structuredDocuments s) path\<rparr>"

definition onDoc :: "nat \<Rightarrow> (resident \<Rightarrow> resident) \<Rightarrow> 'm vault_sync \<Rightarrow> 'm vault_sync" where
  "onDoc i f s = s\<lparr>docs := (docs s)[i := f (docs s ! i)]\<rparr>"

definition allDocuments :: "'m vault_sync \<Rightarrow> nat list" where
  "allDocuments s = map snd (documents s) @ map snd (structuredDocuments s)"

definition hasResidentGuid :: "'m vault_sync \<Rightarrow> jstr \<Rightarrow> bool" where
  "hasResidentGuid s guid \<longleftrightarrow> (\<exists>i \<in> set (allDocuments s). rGuid (docs s ! i) = guid)"

definition destroyDoc :: "bool \<Rightarrow> resident \<Rightarrow> resident" where
  "destroyDoc clear d = (if rDestroyed d then d else d\<lparr>rDestroyed := True, rReady := True, rCleared := clear, rStatus := Offline\<rparr>)"

definition removeFrom :: "registry \<Rightarrow> jstr \<Rightarrow> bool \<Rightarrow> 'm vault_sync \<Rightarrow> 'm vault_sync" where
  "removeFrom r path clear s =
    (let s1 = (case regGet r s path of
                 None \<Rightarrow> s
               | Some i \<Rightarrow> let s0 = regDel r path s in onDoc i (destroyDoc (clear \<and> \<not> hasResidentGuid s0 (rGuid (docs s ! i)))) s0)
     in s1\<lparr>mobileLastUsedAt := jdel (mobileLastUsedAt s1) path\<rparr>)"

definition removeDocument :: "jstr \<Rightarrow> bool \<Rightarrow> 'm vault_sync \<Rightarrow> 'm vault_sync" where
  "removeDocument = removeFrom Notes"

definition removeStructuredDocument :: "jstr \<Rightarrow> bool \<Rightarrow> 'm vault_sync \<Rightarrow> 'm vault_sync" where
  "removeStructuredDocument = removeFrom Structured"

definition deletedStoreDisposable :: "'m vault_sync \<Rightarrow> jstr \<Rightarrow> bool" where
  "deletedStoreDisposable s path =
    (case (jget (documents s) path, jget (structuredDocuments s) path) of
       (Some i, _) \<Rightarrow> \<not> rLocalChanges (docs s ! i)
     | (None, Some i) \<Rightarrow> \<not> rLocalChanges (docs s ! i)
     | (None, None) \<Rightarrow> False)"

text \<open>\<open>bootstrapOptions\<close>: whether the file is unrelated to the document, and the fingerprint of a stale copy that may be replaced.\<close>

definition bootstrapOptions :: "'m vault_env \<Rightarrow> 'm vault_sync \<Rightarrow> jstr \<Rightarrow> jstr \<Rightarrow> bool \<times> jstr option" where
  "bootstrapOptions E s path guid =
    (let conflict = (localFileExists s path \<and> hasIdentityConflict (dict E) (localSync s) path guid)
     in (conflict,
         if \<not> conflict then None
         else case getPath (dict E) (localSync s) path of
                None \<Rightarrow> None
              | Some state \<Rightarrow>
                  (case identity state of
                     Some (Some i) \<Rightarrow>
                       if i \<noteq> [] \<and> candidate state \<noteq> Some True \<and> truthy (fingerprint state) \<noteq> None \<and> pathForGuid s i \<in> {None, Some []}
                       then fingerprint state else None
                   | _ \<Rightarrow> None)))"

definition scheduleMobileWorkingSetTrim :: "'m vault_env \<Rightarrow> 'm vault_sync \<Rightarrow> 'm vault_sync" where
  "scheduleMobileWorkingSetTrim E s =
    (if \<not> mobile E \<or> \<not> evicts E \<or> destroyed s \<or> mobileTrimTimer s then s else s\<lparr>mobileTrimTimer := True\<rparr>)"

definition markMobileDocumentUsed :: "'m vault_env \<Rightarrow> jstr \<Rightarrow> 'm vault_sync \<Rightarrow> 'm vault_sync" where
  "markMobileDocumentUsed E path s =
    (if \<not> mobile E then s
     else scheduleMobileWorkingSetTrim E (s\<lparr>mobileLastUsedAt := jset (mobileLastUsedAt s) path (clock s)\<rparr>))"

definition newResident :: "'m vault_env \<Rightarrow> 'm vault_sync \<Rightarrow> jstr \<Rightarrow> jstr \<Rightarrow> materialized_kind \<Rightarrow> bool \<Rightarrow> bool \<Rightarrow> jstr option \<Rightarrow> resident" where
  "newResident E s path guid k creator auto retired =
    \<lparr>rPath = path, rGuid = guid, rKind = k, rCreator = creator, rForce = fst (bootstrapOptions E s path guid),
     rStale = snd (bootstrapOptions E s path guid), rRetired = retired, rEpoch = epochOf E guid, rContent = [], rReady = False, rDestroyed = False,
     rCleared = False, rLocalChanges = False, rHibernates = True, rStatus = (if auto \<and> \<not> mobileSuspended s then Connecting else Offline)\<rparr>"

text \<open>\<open>ensureDocument\<close> and \<open>ensureStructuredDocument\<close>: the document and the new state.\<close>

definition ensureIn ::
  "'m vault_env \<Rightarrow> registry \<Rightarrow> jstr \<Rightarrow> jstr \<Rightarrow> materialized_kind \<Rightarrow> bool \<Rightarrow> bool \<Rightarrow> jstr option \<Rightarrow> 'm vault_sync \<Rightarrow> nat \<times> 'm vault_sync" where
  "ensureIn E r path guid k creator auto retired s =
    (case regGet r s path of
       Some i \<Rightarrow> if rGuid (docs s ! i) = guid then (i, s)
                 else let s1 = removeFrom r path False s
                      in (length (docs s1), scheduleMobileWorkingSetTrim E (regSet r path (length (docs s1))
                            (s1\<lparr>docs := docs s1 @ [newResident E s1 path guid k creator auto retired]\<rparr>)))
     | None \<Rightarrow> (length (docs s), scheduleMobileWorkingSetTrim E (regSet r path (length (docs s))
                            (s\<lparr>docs := docs s @ [newResident E s path guid k creator auto retired]\<rparr>))))"

definition ensureDocument :: "'m vault_env \<Rightarrow> jstr \<Rightarrow> jstr \<Rightarrow> bool \<Rightarrow> bool \<Rightarrow> jstr option \<Rightarrow> 'm vault_sync \<Rightarrow> nat \<times> 'm vault_sync" where
  "ensureDocument E path guid = ensureIn E Notes path guid KText"

definition ensureStructuredDocument ::
  "'m vault_env \<Rightarrow> jstr \<Rightarrow> jstr \<Rightarrow> materialized_kind \<Rightarrow> bool \<Rightarrow> bool \<Rightarrow> jstr option \<Rightarrow> 'm vault_sync \<Rightarrow> nat \<times> 'm vault_sync" where
  "ensureStructuredDocument E path guid k = ensureIn E Structured path guid (if k = KCanvas then KCanvas else KBase)"

definition ensureKind ::
  "'m vault_env \<Rightarrow> jstr \<Rightarrow> jstr \<Rightarrow> materialized_kind \<Rightarrow> bool \<Rightarrow> bool \<Rightarrow> jstr option \<Rightarrow> 'm vault_sync \<Rightarrow> nat \<times> 'm vault_sync" where
  "ensureKind E path guid k = (if k = KText then ensureDocument E path guid else ensureStructuredDocument E path guid k)"

definition connectDoc :: "nat \<Rightarrow> 'm vault_sync \<Rightarrow> 'm vault_sync" where
  "connectDoc i = onDoc i (\<lambda>d. if rDestroyed d \<or> rStatus d = Connected then d else d\<lparr>rStatus := Connecting\<rparr>)"

definition disconnectDoc :: "nat \<Rightarrow> 'm vault_sync \<Rightarrow> 'm vault_sync" where
  "disconnectDoc i = onDoc i (\<lambda>d. if rDestroyed d then d else d\<lparr>rStatus := Offline\<rparr>)"

definition ensureDocumentForPath :: "'m vault_env \<Rightarrow> jstr \<Rightarrow> 'm vault_sync \<Rightarrow> nat option \<times> 'm vault_sync" where
  "ensureDocumentForPath E path s0 =
    (let s = markMobileDocumentUsed E path s0
     in case jget (indexFiles s) path of
          Some guid \<Rightarrow> if guid = [] then (jget (documents s) path, s)
                       else (case ensureDocument E path guid False False None s of
                               (i, s1) \<Rightarrow> (Some i, if mobileSuspended s1 then s1 else connectDoc i s1))
        | None \<Rightarrow> (jget (documents s) path, s))"

section \<open>The queue\<close>

definition toQueue :: "jstr \<Rightarrow> queue_item \<Rightarrow> bool \<Rightarrow> 'm vault_sync \<Rightarrow> 'm vault_sync" where
  "toQueue path item front s =
    (if front then s\<lparr>prioritizedPaths := setAdd (prioritizedPaths s) path, docQueue := (path, item) # jdel (docQueue s) path\<rparr>
     else s\<lparr>docQueue := jset (docQueue s) path item\<rparr>)"

definition enqueueDoc :: "jstr \<Rightarrow> queue_item \<Rightarrow> bool \<Rightarrow> 'm vault_sync \<Rightarrow> 'm vault_sync" where
  "enqueueDoc path item front s =
    (if destroyed s then s
     else let r = regOf (qKind item)
          in case regGet r s path of
               Some i \<Rightarrow> if rGuid (docs s ! i) = qGuid item then s else toQueue path item front (removeFrom r path False s)
             | None \<Rightarrow> toQueue path item front s)"

definition toQueueAgain :: "jstr \<Rightarrow> queue_item \<Rightarrow> bool \<Rightarrow> 'm vault_sync \<Rightarrow> 'm vault_sync" where
  "toQueueAgain path item front s = toQueue path item front (s\<lparr>docQueue := jdel (docQueue s) path\<rparr>)"

definition enqueueReconnect :: "jstr \<Rightarrow> queue_item \<Rightarrow> bool \<Rightarrow> 'm vault_sync \<Rightarrow> 'm vault_sync" where
  "enqueueReconnect path item front s =
    (if destroyed s then s
     else case regGet (regOf (qKind item)) s path of
            None \<Rightarrow> enqueueDoc path item front s
          | Some i \<Rightarrow>
              let d = docs s ! i
              in if rGuid d \<noteq> qGuid item then enqueueDoc path item front s
                 else if \<not> rReady d then toQueueAgain path item front s
                 else if rStatus d \<noteq> Offline \<and> rStatus d \<noteq> Erroneous then s
                 else toQueueAgain path (item\<lparr>qReconnect := True\<rparr>) front s)"

definition queueItem :: "jstr \<times> materialized_kind \<Rightarrow> queue_item" where
  "queueItem e = \<lparr>qGuid = fst e, qKind = snd e, qReconnect = False, qRetired = None\<rparr>"

definition enqueueKnownPath :: "jstr \<Rightarrow> bool \<Rightarrow> bool \<Rightarrow> 'm vault_sync \<Rightarrow> 'm vault_sync" where
  "enqueueKnownPath path front reconnect s =
    (let put = (\<lambda>e s. if reconnect then enqueueReconnect path (queueItem e) front s else enqueueDoc path (queueItem e) front s);
         s1 = (case jget (indexFiles s) path of Some g \<Rightarrow> if g = [] then s else put (g, KText) s | None \<Rightarrow> s)
     in case listedMeta s1 path of Some e \<Rightarrow> put e s1 | None \<Rightarrow> s1)"

definition concurrency :: "'m vault_env \<Rightarrow> nat" where
  "concurrency E = (if mobile E then 1 else 2)"

definition takeSlot :: "'m vault_env \<Rightarrow> jstr \<Rightarrow> queue_item \<Rightarrow> 'm vault_sync \<Rightarrow> 'm vault_sync" where
  "takeSlot E path item s =
    (case ensureKind E path (qGuid item) (qKind item) False False (qRetired item) s of
       (i, s1) \<Rightarrow> connectDoc i (s1\<lparr>activeDocConnections := activeDocConnections s1 + 1,
         slots := slots s1 @ [\<lparr>slotDoc = i, slotPath = path, slotGuid = qGuid item, slotGeneration = docConnectionGeneration s1\<rparr>]\<rparr>))"

text \<open>The loop of \<open>pumpDocQueue\<close> runs once per free slot at most.\<close>

fun pumpLoop :: "nat \<Rightarrow> 'm vault_env \<Rightarrow> 'm vault_sync \<Rightarrow> 'm vault_sync" where
  "pumpLoop 0 E s = s"
| "pumpLoop (Suc n) E s =
    (case docQueue s of
       [] \<Rightarrow> s
     | (path, item) # rest \<Rightarrow> pumpLoop n E (takeSlot E path item (s\<lparr>docQueue := jdel (docQueue s) path\<rparr>)))"

definition pumpDocQueue :: "'m vault_env \<Rightarrow> 'm vault_sync \<Rightarrow> 'm vault_sync" where
  "pumpDocQueue E s = (if destroyed s \<or> mobileSuspended s then s else pumpLoop (concurrency E - activeDocConnections s) E s)"

definition startBackgroundSync :: "'m vault_sync \<Rightarrow> 'm vault_sync" where
  "startBackgroundSync s =
    (if \<not> initialSynced s \<or> destroyed s \<or> \<not> highPriorityDrained s \<or> backgroundSyncStarted s then s
     else noted (Told StartBackground) (s\<lparr>backgroundSyncStarted := True\<rparr>))"

text \<open>The promise of \<open>whenQueueSlotFree\<close> resolves.\<close>

definition slotFree :: "'m vault_env \<Rightarrow> nat \<Rightarrow> 'm vault_sync \<Rightarrow> 'm vault_sync" where
  "slotFree E k s0 =
    (if k \<ge> length (slots s0) then s0
     else let t = slots s0 ! k; s = s0\<lparr>slots := take k (slots s0) @ drop (Suc k) (slots s0)\<rparr>
          in if slotGeneration t \<noteq> docConnectionGeneration s then s
             else let s1 = s\<lparr>activeDocConnections := activeDocConnections s - 1, prioritizedPaths := removeAll (slotPath t) (prioritizedPaths s),
                             prioritizedGuids := removeAll (slotGuid t) (prioritizedGuids s)\<rparr>;
                      s2 = (if \<not> highPriorityDrained s1 \<and> prioritizedPaths s1 = [] then startBackgroundSync (s1\<lparr>highPriorityDrained := True\<rparr>) else s1)
                  in pumpDocQueue E (scheduleMobileWorkingSetTrim E s2))"

section \<open>Mobile devices\<close>

definition startupPriorityPaths :: "'m vault_env \<Rightarrow> 'm vault_sync \<Rightarrow> jstr list" where
  "startupPriorityPaths E s =
    remdups (filter (\<lambda>p. extension E p = lit ''md'' \<or> structuredKindForExtension (extension E p) \<noteq> None) (openPaths s)
      @ take (if mobile E then recentLimit E else length (recentPaths s)) (recentPaths s))"

definition documentMatchesIndex :: "'m vault_sync \<Rightarrow> jstr \<Rightarrow> nat \<Rightarrow> bool" where
  "documentMatchesIndex s path i \<longleftrightarrow>
    (if rKind (docs s ! i) = KText then jget (indexFiles s) path = Some (rGuid (docs s ! i))
     else (case listedMeta s path of Some (g, _) \<Rightarrow> g = rGuid (docs s ! i) | None \<Rightarrow> False))"

definition queueMobileReconnects :: "'m vault_env \<Rightarrow> 'm vault_sync \<Rightarrow> 'm vault_sync" where
  "queueMobileReconnects E s =
    (let s1 = fold (\<lambda>(path, i) s. case jget (indexFiles s) path of
                Some g \<Rightarrow> if g = rGuid (docs s ! i) then enqueueReconnect path (queueItem (g, KText)) False s else s | None \<Rightarrow> s) (documents s) s;
         s2 = fold (\<lambda>(path, i) s. case listedMeta s path of
                Some (g, k) \<Rightarrow> if g = rGuid (docs s ! i) then enqueueReconnect path (queueItem (g, k)) False s else s | None \<Rightarrow> s) (structuredDocuments s1) s1;
         s3 = fold (\<lambda>path. enqueueKnownPath path True True) (rev (startupPriorityPaths E s2)) s2
     in pumpDocQueue E s3)"

definition suspendForBackground :: "'m vault_env \<Rightarrow> 'm vault_sync \<Rightarrow> 'm vault_sync" where
  "suspendForBackground E s =
    (if \<not> mobile E \<or> destroyed s \<or> mobileSuspended s then s
     else let s1 = s\<lparr>mobileSuspended := True, docConnectionGeneration := docConnectionGeneration s + 1, activeDocConnections := 0\<rparr>;
              s2 = fold disconnectDoc (allDocuments s1) (noted (Told (Paused True)) s1)
          in scheduleMobileWorkingSetTrim E (s2\<lparr>indexStatus := Offline\<rparr>))"

definition onDocumentInvalidated :: "'m vault_env \<Rightarrow> jstr \<Rightarrow> 'm vault_sync \<Rightarrow> 'm vault_sync" where
  "onDocumentInvalidated E documentId s0 =
    (let prefix = vaultId E @ lit ''__''; guid = drop (length prefix) documentId
     in if \<not> mobile E \<or> destroyed s0 \<or> \<not> startsWith documentId prefix \<or> guid = [] then s0
        else case pathForGuid s0 guid of
               None \<Rightarrow> s0
             | Some path \<Rightarrow>
                 if path = [] then s0
                 else let s = s0\<lparr>mobileLastUsedAt := jset (mobileLastUsedAt s0) path (clock s0)\<rparr>;
                          reload = (\<lambda>s. pumpDocQueue E (enqueueKnownPath path True True s))
                      in if jhas (documents s) path \<or> jhas (structuredDocuments s) path then reload s
                         else if path \<in> set (invalidationReloads s)
                         then s\<lparr>invalidationReloadPending := setAdd (invalidationReloadPending s) path\<rparr>
                         else reload (s\<lparr>invalidationReloads := invalidationReloads s @ [path]\<rparr>))"

text \<open>The end of the window in which an evicted document is reloaded once.\<close>

definition reloadWindowEnds :: "'m vault_env \<Rightarrow> jstr \<Rightarrow> jstr \<Rightarrow> 'm vault_sync \<Rightarrow> 'm vault_sync" where
  "reloadWindowEnds E path documentId s =
    (if path \<notin> set (invalidationReloads s) then s
     else let s1 = s\<lparr>invalidationReloads := removeAll path (invalidationReloads s), invalidationReloadPending := removeAll path (invalidationReloadPending s)\<rparr>
          in if path \<in> set (invalidationReloadPending s) \<and> \<not> destroyed s1 then onDocumentInvalidated E documentId s1 else s1)"

definition prioritizeItem :: "'m vault_env \<Rightarrow> jstr option \<Rightarrow> jstr option \<Rightarrow> 'm vault_sync \<Rightarrow> 'm vault_sync" where
  "prioritizeItem E optPath optGuid s0 =
    (let given = (case optPath of Some p \<Rightarrow> if trim p = [] then None else Some (trim p) | None \<Rightarrow> None);
         found = (case truthy optGuid of Some g \<Rightarrow> pathForGuid s0 g | None \<Rightarrow> None);
         s = (case truthy optGuid of Some g \<Rightarrow> s0\<lparr>prioritizedGuids := setAdd (prioritizedGuids s0) g\<rparr> | None \<Rightarrow> s0)
     in case truthy (case given of Some p \<Rightarrow> Some p | None \<Rightarrow> found) of
          None \<Rightarrow> s
        | Some path \<Rightarrow> pumpDocQueue E (enqueueKnownPath path True (mobile E) (markMobileDocumentUsed E path s)))"

text \<open>A document moved to a new epoch: its content, when the server has all of it, is the baseline of its replacement.\<close>

definition retiredBaseline :: "resident \<Rightarrow> jstr option" where
  "retiredBaseline d = (if rDestroyed d \<or> \<not> rReady d \<or> rLocalChanges d then None else Some (rContent d))"

definition rebuildOne :: "bool \<Rightarrow> jstr \<Rightarrow> registry \<Rightarrow> jstr \<times> nat \<Rightarrow> 'm vault_sync \<Rightarrow> 'm vault_sync" where
  "rebuildOne rewound guid r = (\<lambda>(path, i) s.
    let d = docs s ! i
    in if rGuid d \<noteq> guid then s
       else enqueueDoc path \<lparr>qGuid = guid, qKind = rKind d, qReconnect = False, qRetired = (if rewound then None else retiredBaseline d)\<rparr> True
              (removeFrom r path True s))"

definition rebuildDocumentForEpoch :: "'m vault_env \<Rightarrow> jstr \<Rightarrow> bool \<Rightarrow> 'm vault_sync \<Rightarrow> 'm vault_sync" where
  "rebuildDocumentForEpoch E documentId rewound s =
    (let prefix = vaultId E @ lit ''__''; guid = drop (length prefix) documentId
     in if destroyed s \<or> \<not> startsWith documentId prefix then s
        else let s1 = fold (rebuildOne rewound guid Notes) (documents s) s;
                 s2 = fold (rebuildOne rewound guid Structured) (structuredDocuments s1) s1
             in pumpDocQueue E s2)"

definition destroy :: "'m vault_sync \<Rightarrow> 'm vault_sync" where
  "destroy s =
    (if destroyed s then s
     else let s1 = s\<lparr>destroyed := True, mobileTrimTimer := False\<rparr>;
              s2 = fold (\<lambda>i. onDoc i (destroyDoc False)) (allDocuments s1) s1
          in s2\<lparr>documents := [], structuredDocuments := [], indexStatus := Offline\<rparr>)"

section \<open>The registry is sound\<close>

text \<open>
  Every entry of the two registries names an existing document that has not been destroyed, made for that path and of a kind of that registry; the
  count of connections is the number of slots of the current generation, never more than allowed.
\<close>

definition alive :: "registry \<Rightarrow> jstr \<Rightarrow> resident list \<Rightarrow> nat \<Rightarrow> bool" where
  "alive r path ds i \<longleftrightarrow> i < length ds \<and> rPath (ds ! i) = path \<and> regOf (rKind (ds ! i)) = r \<and> \<not> rDestroyed (ds ! i)"

definition registryOk :: "'m vault_env \<Rightarrow> 'm vault_sync \<Rightarrow> bool" where
  "registryOk E s \<longleftrightarrow> (\<forall>r path i. regGet r s path = Some i \<longrightarrow> alive r path (docs s) i)
     \<and> activeDocConnections s = length (filter (\<lambda>t. slotGeneration t = docConnectionGeneration s) (slots s))
     \<and> activeDocConnections s \<le> concurrency E
     \<and> (\<forall>t \<in> set (slots s). slotDoc t < length (docs s) \<and> slotGeneration t \<le> docConnectionGeneration s)"

text \<open>Actions that need no justification.\<close>

fun free :: "vault_action \<Rightarrow> bool" where
  "free (Registered _ _) = True"
| "free (DiskChanged _) = True"
| "free (Told _) = True"
| "free (Kept _ _) = True"
| "free (Acknowledged _ _ _) = True"
| "free (Lags _ _) = True"
| "free (Readied _) = True"
| "free (Idle _) = True"
| "free _ = False"

text \<open>A step that keeps the registry sound and does nothing that needs a justification.\<close>

definition calm :: "'m vault_env \<Rightarrow> 'm vault_sync \<Rightarrow> 'm vault_sync \<Rightarrow> bool" where
  "calm E s s' \<longleftrightarrow> (registryOk E s \<longrightarrow> registryOk E s') \<and> (\<exists>as. trace s' = trace s @ as \<and> list_all free as)
     \<and> set (remoteDeletePreserved s') \<subseteq> set (remoteDeletePreserved s)"

named_theorems calm_intros \<open>steps that are calm\<close>

lemma calm_refl [calm_intros]: "calm E s s"
  by (auto simp: calm_def)

lemma calm_trans: "calm E s t \<Longrightarrow> calm E t u \<Longrightarrow> calm E s u"
  unfolding calm_def by (metis append.assoc dual_order.trans list_all_append)

lemma calm_fold:
  assumes "\<And>x s. calm E s (f x s)"
  shows "calm E s (fold f xs s)"
  by (induction xs arbitrary: s) (auto intro: calm_refl calm_trans assms)

lemma regGet_fields:
  "regGet r (s\<lparr>docs := d\<rparr>) = regGet r s" "regGet r (s\<lparr>mobileLastUsedAt := m\<rparr>) = regGet r s" "regGet r (s\<lparr>docQueue := q\<rparr>) = regGet r s"
  "regGet r (s\<lparr>prioritizedPaths := p\<rparr>) = regGet r s" "regGet r (s\<lparr>activeDocConnections := n\<rparr>) = regGet r s" "regGet r (s\<lparr>slots := t\<rparr>) = regGet r s"
  "regGet r (s\<lparr>mobileTrimTimer := b\<rparr>) = regGet r s" "regGet r (onDoc i f s) = regGet r s"
  by (cases r; simp add: onDoc_def fun_eq_iff)+

lemma regGet_regDel [simp]: "regGet r (regDel r' path s) p = (if r = r' \<and> p = path then None else regGet r s p)"
  by (cases r; cases r') simp_all

lemma regGet_regSet [simp]: "regGet r (regSet r' path i s) p = (if r = r' \<and> p = path then Some i else regGet r s p)"
  by (cases r; cases r') simp_all

lemma reg_fields [simp]:
  "docs (regDel r p s) = docs s" "trace (regDel r p s) = trace s" "slots (regDel r p s) = slots s" "remoteDeletePreserved (regDel r p s) = remoteDeletePreserved s"
  "activeDocConnections (regDel r p s) = activeDocConnections s" "docConnectionGeneration (regDel r p s) = docConnectionGeneration s"
  "docs (regSet r p i s) = docs s" "trace (regSet r p i s) = trace s" "slots (regSet r p i s) = slots s" "remoteDeletePreserved (regSet r p i s) = remoteDeletePreserved s"
  "activeDocConnections (regSet r p i s) = activeDocConnections s" "docConnectionGeneration (regSet r p i s) = docConnectionGeneration s"
  "docQueue (regSet r p i s) = docQueue s" "docQueue (regDel r p s) = docQueue s" "destroyed (regSet r p i s) = destroyed s" "destroyed (regDel r p s) = destroyed s"
  by (cases r; simp)+

text \<open>A step that leaves the registry alone.\<close>

definition core :: "'m vault_sync \<Rightarrow> resident list \<times> (jstr, nat) jmap \<times> (jstr, nat) jmap \<times> nat \<times> slot list \<times> nat" where
  "core s = (docs s, documents s, structuredDocuments s, activeDocConnections s, slots s, docConnectionGeneration s)"

lemma registryOk_core: "core s' = core s \<Longrightarrow> registryOk E s' = registryOk E s"
proof -
  assume c: "core s' = core s"
  then have "regGet r s' = regGet r s" for r by (cases r) (simp_all add: core_def fun_eq_iff)
  with c show ?thesis by (simp add: registryOk_def core_def)
qed

lemma calm_core:
  assumes "core s' = core s" "trace s' = trace s" "remoteDeletePreserved s' = remoteDeletePreserved s"
  shows "calm E s s'"
  unfolding calm_def using registryOk_core [OF assms(1), of E] assms(2,3) by simp

lemma calm_noted:
  assumes "free a"
  shows "calm E s (noted a s)"
proof -
  have "core (noted a s) = core s" by (simp add: noted_def core_def)
  from registryOk_core [OF this, of E] show ?thesis unfolding calm_def using assms by (simp add: noted_def)
qed

lemmas calm_simps = core_def onRecord_def bumpPathVersion_def beginUntrackedCandidate_def usedGuid_def scheduleMobileWorkingSetTrim_def toQueue_def

lemma calm_plain [calm_intros]:
  "calm E s (onRecord g s)" "calm E s (bumpPathVersion p s)" "calm E s (beginUntrackedCandidate E' p k fp s)" "calm E s (usedGuid s)"
  "calm E s (scheduleMobileWorkingSetTrim E' s)" "calm E s (toQueue p q fr s)"
  by (rule calm_core; simp add: calm_simps)+

lemma calm_applyOp [calm_intros]: "calm E s (applyOp op s)"
  by (cases op; rule calm_core; simp add: core_def)

lemma calm_register [calm_intros]: "calm E s (registerFile p g s)"
  by (simp add: registerFile_def calm_noted)

lemma calm_touch [calm_intros]:
  "calm E s (s\<lparr>docQueue := q\<rparr>)" "calm E s (s\<lparr>mobileLastUsedAt := m\<rparr>)" "calm E s (s\<lparr>prioritizedGuids := g\<rparr>)"
  "calm E s (s\<lparr>invalidationReloadPending := ps\<rparr>)" "calm E s (s\<lparr>invalidationReloads := ps\<rparr>)" "calm E s (s\<lparr>indexStatus := st\<rparr>)"
  by (rule calm_core; simp add: core_def)+

lemma calm_markUsed [calm_intros]: "calm E s (markMobileDocumentUsed E' p s)"
  unfolding markMobileDocumentUsed_def by (auto intro: calm_trans calm_intros)

subsection \<open>Documents\<close>

lemma alive_update:
  assumes "alive r path ds j" "\<not> (j = i \<and> rDestroyed (f (ds ! i)))" "\<And>d. rPath (f d) = rPath d \<and> rKind (f d) = rKind d"
  shows "alive r path (ds[i := f (ds ! i)]) j"
  using assms unfolding alive_def by (cases "i = j") auto

lemma registryOk_removeFrom:
  assumes "registryOk E s"
  shows "registryOk E (removeFrom r path clear s)"
proof (cases "regGet r s path")
  case None
  have "core (s\<lparr>mobileLastUsedAt := jdel (mobileLastUsedAt s) path\<rparr>) = core s" by (simp add: core_def)
  from registryOk_core [OF this, of E] show ?thesis using None assms by (simp add: removeFrom_def)
next
  case (Some i)
  define f where "f = destroyDoc (clear \<and> \<not> hasResidentGuid (regDel r path s) (rGuid (docs s ! i)))"
  have i: "alive r path (docs s) i" using assms Some unfolding registryOk_def by blast
  have "alive r' p ((docs s)[i := f (docs s ! i)]) j" if "regGet r' s p = Some j" "\<not> (r' = r \<and> p = path)" for r' p j
  proof (rule alive_update)
    show j: "alive r' p (docs s) j" using assms that(1) unfolding registryOk_def by blast
    show "\<not> (j = i \<and> rDestroyed (f (docs s ! i)))" using i j that(2) by (auto simp: alive_def)
  qed (simp add: f_def destroyDoc_def)
  then show ?thesis using assms Some
    by (auto simp: registryOk_def removeFrom_def Let_def regGet_fields f_def onDoc_def split: if_splits)
qed

lemma calm_removeFrom [calm_intros]: "calm E s (removeFrom r path clear s)" "calm E s (removeDocument path clear s)" "calm E s (removeStructuredDocument path clear s)"
proof -
  have "trace (removeFrom r path clear s) = trace s" "remoteDeletePreserved (removeFrom r path clear s) = remoteDeletePreserved s" for r
    by (simp_all add: removeFrom_def Let_def onDoc_def split: option.split)
  then show "calm E s (removeFrom r path clear s)" for r
    unfolding calm_def by (simp add: registryOk_removeFrom)
  then show "calm E s (removeDocument path clear s)" "calm E s (removeStructuredDocument path clear s)"
    by (simp_all add: removeDocument_def removeStructuredDocument_def)
qed

lemma alive_append: "alive r path ds i \<Longrightarrow> alive r path (ds @ es) i"
  by (auto simp: alive_def nth_append)

lemma calm_newDoc:
  assumes "rPath d = path" "regOf (rKind d) = r" "\<not> rDestroyed d"
  shows "calm E s (regSet r path (length (docs s)) (s\<lparr>docs := docs s @ [d]\<rparr>))"
proof -
  have "alive r path (docs s @ [d]) (length (docs s))" using assms by (simp add: alive_def)
  then have "registryOk E (regSet r path (length (docs s)) (s\<lparr>docs := docs s @ [d]\<rparr>))" if "registryOk E s"
    using that by (auto simp: registryOk_def regGet_fields intro: alive_append less_SucI)
  then show ?thesis by (simp add: calm_def)
qed

lemma calm_ensureIn [calm_intros]:
  assumes "regOf k = r"
  shows "calm E s (snd (ensureIn E' r path guid k creator auto retired s))"
proof -
  have new: "calm E s (scheduleMobileWorkingSetTrim E' (regSet r path (length (docs s)) (s\<lparr>docs := docs s @ [newResident E'' s path guid k creator auto retired]\<rparr>)))" for s E''
    by (rule calm_trans [OF calm_newDoc calm_plain(5)]) (simp_all add: newResident_def assms)
  have old: "calm E s (let s1 = removeFrom r path False s in scheduleMobileWorkingSetTrim E' (regSet r path (length (docs s1))
      (s1\<lparr>docs := docs s1 @ [newResident E' s1 path guid k creator auto retired]\<rparr>)))"
    unfolding Let_def by (rule calm_trans [OF calm_removeFrom(1) new])
  show ?thesis using new old by (auto simp: ensureIn_def Let_def calm_refl split: option.split)
qed

lemma calm_ensure [calm_intros]:
  "calm E s (snd (ensureDocument E' path guid creator auto retired s))" "calm E s (snd (ensureStructuredDocument E' path guid k creator auto retired s))"
  "calm E s (snd (ensureKind E' path guid k creator auto retired s))"
  by (simp_all add: ensureDocument_def ensureStructuredDocument_def ensureKind_def calm_ensureIn)

lemma calm_onDoc:
  assumes "\<And>d. rPath (f d) = rPath d \<and> rKind (f d) = rKind d \<and> rDestroyed (f d) = rDestroyed d"
  shows "calm E s (onDoc i f s)"
proof -
  have "alive r path ((docs s)[i := f (docs s ! i)]) j" if "alive r path (docs s) j" for r path j
    using that assms by (cases "i = j") (auto simp: alive_def)
  then have "registryOk E (onDoc i f s)" if "registryOk E s"
    using that by (auto simp: registryOk_def regGet_fields) (simp_all add: onDoc_def)
  then show ?thesis by (simp add: calm_def) (simp add: onDoc_def)
qed

lemma calm_connectDoc [calm_intros]: "calm E s (connectDoc i s)" "calm E s (disconnectDoc i s)"
  unfolding connectDoc_def disconnectDoc_def by (rule calm_onDoc; simp)+

lemma calm_ensureForPath [calm_intros]: "calm E s (snd (ensureDocumentForPath E' path s))"
proof -
  have "calm E t (if mobileSuspended u then u else connectDoc i u)" if "calm E t u" for t u i
    using that by (simp add: calm_trans [OF _ calm_connectDoc(1)])
  then have e: "calm E t (snd (case ensureDocument E' path g False False None t of (i, s1) \<Rightarrow> (Some i, if mobileSuspended s1 then s1 else connectDoc i s1)))" for g t
    using calm_ensure(1) [of E t E' path g False False None] by (cases "ensureDocument E' path g False False None t") simp
  have "calm E t (snd (case jget (indexFiles t) path of
          Some guid \<Rightarrow> if guid = [] then (jget (documents t) path, t)
                       else (case ensureDocument E' path guid False False None t of
                               (i, s1) \<Rightarrow> (Some i, if mobileSuspended s1 then s1 else connectDoc i s1))
        | None \<Rightarrow> (jget (documents t) path, t)))" for t
    using e [of t] by (simp add: calm_refl split: option.split)
  then show ?thesis unfolding ensureDocumentForPath_def Let_def by (rule calm_trans [OF calm_markUsed])
qed

subsection \<open>The queue\<close>

lemma calm_enqueueDoc [calm_intros]: "calm E s (enqueueDoc p q fr s)"
proof -
  have "calm E s (toQueue p q fr (removeFrom r p False s))" for r by (rule calm_trans [OF calm_removeFrom(1) calm_plain(6)])
  then show ?thesis by (simp add: enqueueDoc_def Let_def calm_refl calm_plain split: option.split)
qed

lemma calm_enqueueReconnect [calm_intros]: "calm E s (enqueueReconnect p q fr s)"
proof -
  have "calm E s (toQueueAgain p q fr s)" for q unfolding toQueueAgain_def by (rule calm_trans [OF calm_touch(1) calm_plain(6)])
  then show ?thesis by (simp add: enqueueReconnect_def Let_def calm_refl calm_enqueueDoc split: option.split)
qed

lemma calm_enqueueKnown [calm_intros]: "calm E s (enqueueKnownPath p fr rc s)"
proof -
  let ?put = "\<lambda>e s. if rc then enqueueReconnect p (queueItem e) fr s else enqueueDoc p (queueItem e) fr s"
  have put: "calm E s (?put e s)" for e s by (simp add: calm_intros)
  have one: "calm E s (case jget (indexFiles s) p of Some g \<Rightarrow> if g = [] then s else ?put (g, KText) s | None \<Rightarrow> s)"
    using put by (simp add: calm_refl split: option.split)
  have two: "calm E t (case listedMeta t p of Some e \<Rightarrow> ?put e t | None \<Rightarrow> t)" for t
    using put by (simp add: calm_refl split: option.split)
  show ?thesis unfolding enqueueKnownPath_def Let_def by (rule calm_trans [OF one two])
qed

lemma ensureKind_same [simp]:
  "activeDocConnections (snd (ensureKind E path guid k creator auto retired s)) = activeDocConnections s"
  "slots (snd (ensureKind E path guid k creator auto retired s)) = slots s"
  "docConnectionGeneration (snd (ensureKind E path guid k creator auto retired s)) = docConnectionGeneration s"
  by (simp_all add: ensureKind_def ensureDocument_def ensureStructuredDocument_def ensureIn_def removeFrom_def scheduleMobileWorkingSetTrim_def onDoc_def Let_def
      split: option.split)

lemma ensureIn_exists:
  assumes "registryOk E s"
  shows "fst (ensureIn E' r path guid k creator auto retired s) < length (docs (snd (ensureIn E' r path guid k creator auto retired s)))"
proof -
  have "i < length (docs s)" if "regGet r s path = Some i" for i using assms that unfolding registryOk_def alive_def by blast
  then show ?thesis by (simp add: ensureIn_def scheduleMobileWorkingSetTrim_def Let_def split: option.split)
qed

lemma ensureKind_exists: "registryOk E s \<Longrightarrow> fst (ensureKind E' path guid k creator auto retired s) < length (docs (snd (ensureKind E' path guid k creator auto retired s)))"
  by (simp add: ensureKind_def ensureDocument_def ensureStructuredDocument_def ensureIn_exists)

lemma calm_takeSlot:
  assumes "activeDocConnections s < concurrency E"
  shows "calm E s (takeSlot E path q s)"
proof -
  obtain i s1 where e: "ensureKind E path (qGuid q) (qKind q) False False (qRetired q) s = (i, s1)" by fastforce
  let ?t = "\<lparr>slotDoc = i, slotPath = path, slotGuid = qGuid q, slotGeneration = docConnectionGeneration s1\<rparr>"
  let ?s2 = "s1\<lparr>activeDocConnections := activeDocConnections s1 + 1, slots := slots s1 @ [?t]\<rparr>"
  have c: "calm E s s1" using calm_ensure(3) [of E s E path "qGuid q" "qKind q" False False "qRetired q"] e by simp
  have a: "activeDocConnections s1 = activeDocConnections s" using ensureKind_same(1) [of E path "qGuid q" "qKind q" False False "qRetired q" s] e by simp
  have i: "registryOk E s \<Longrightarrow> i < length (docs s1)" using ensureKind_exists [of E s E path "qGuid q" "qKind q" False False "qRetired q"] e by simp
  have "registryOk E ?s2" if s: "registryOk E s"
  proof -
    have s1: "registryOk E s1" using c s by (simp add: calm_def)
    have reg: "regGet r ?s2 = regGet r s1" for r by (cases r) (simp_all add: fun_eq_iff)
    have "\<forall>t \<in> set (slots s1 @ [?t]). slotDoc t < length (docs s1) \<and> slotGeneration t \<le> docConnectionGeneration s1"
      using s1 i [OF s] unfolding registryOk_def by simp
    moreover have "activeDocConnections s1 + 1 = length (filter (\<lambda>t. slotGeneration t = docConnectionGeneration s1) (slots s1 @ [?t]))"
      using s1 unfolding registryOk_def by simp
    ultimately show ?thesis using s1 assms a unfolding registryOk_def reg by simp
  qed
  then have "calm E s ?s2" using c by (simp add: calm_def)
  then show ?thesis unfolding takeSlot_def e by (simp add: calm_trans [OF _ calm_connectDoc(1)])
qed

lemma takeSlot_active [simp]: "activeDocConnections (takeSlot E path q s) = activeDocConnections s + 1"
  using ensureKind_same(1) [of E path "qGuid q" "qKind q" False False "qRetired q" s]
  by (cases "ensureKind E path (qGuid q) (qKind q) False False (qRetired q) s") (simp add: takeSlot_def connectDoc_def onDoc_def)

lemma calm_pumpLoop: "n + activeDocConnections s \<le> concurrency E \<Longrightarrow> calm E s (pumpLoop n E s)"
proof (induction n arbitrary: s)
  case (Suc n)
  show ?case
  proof (cases "docQueue s")
    case (Cons e rest)
    obtain path q where e: "e = (path, q)" by (cases e)
    let ?s = "s\<lparr>docQueue := jdel (docQueue s) path\<rparr>"
    have a: "calm E s ?s" by (rule calm_touch)
    have b: "calm E ?s (takeSlot E path q ?s)" by (rule calm_takeSlot) (use Suc.prems in simp)
    have c: "calm E (takeSlot E path q ?s) (pumpLoop n E (takeSlot E path q ?s))" by (rule Suc.IH) (use Suc.prems in simp)
    show ?thesis using calm_trans [OF calm_trans [OF a b] c] Cons e by simp
  qed (simp add: calm_refl)
qed (simp add: calm_refl)

lemma calm_pump [calm_intros]: "calm E s (pumpDocQueue E s)"
proof (cases "activeDocConnections s \<le> concurrency E")
  case True
  then show ?thesis by (simp add: pumpDocQueue_def calm_refl calm_pumpLoop)
qed (simp add: pumpDocQueue_def calm_refl)

lemma calm_background [calm_intros]: "calm E s (startBackgroundSync s)"
proof -
  have "calm E s (s\<lparr>backgroundSyncStarted := True\<rparr>)" by (rule calm_core) (simp_all add: core_def)
  then have "calm E s (noted (Told StartBackground) (s\<lparr>backgroundSyncStarted := True\<rparr>))" by (rule calm_trans) (rule calm_noted, simp)
  then show ?thesis by (simp add: startBackgroundSync_def calm_refl)
qed

lemma calm_slotFree [calm_intros]: "calm E s (slotFree E k s)"
proof (cases "k < length (slots s)")
  case True
  define tl where "tl = slots s ! k"
  let ?rest = "take k (slots s) @ drop (Suc k) (slots s)"
  let ?cur = "\<lambda>u. slotGeneration u = docConnectionGeneration s"
  have split: "slots s = take k (slots s) @ tl # drop (Suc k) (slots s)" unfolding tl_def by (rule id_take_nth_drop [OF True])
  have count: "length (filter ?cur (slots s)) = length (filter ?cur ?rest) + (if ?cur tl then 1 else 0)"
    by (subst split) simp
  have sub: "set ?rest \<subseteq> set (slots s)" using set_take_subset [of k "slots s"] set_drop_subset [of "Suc k" "slots s"] by auto
  have drop: "calm E s (s\<lparr>slots := ?rest\<rparr>)" if "\<not> ?cur tl"
  proof -
    have "registryOk E (s\<lparr>slots := ?rest\<rparr>)" if ok: "registryOk E s"
      using ok count sub \<open>\<not> ?cur tl\<close> unfolding registryOk_def regGet_fields by auto
    then show ?thesis by (simp add: calm_def)
  qed
  define s1 where "s1 = s\<lparr>slots := ?rest, activeDocConnections := activeDocConnections s - 1, prioritizedPaths := removeAll (slotPath tl) (prioritizedPaths s),
     prioritizedGuids := removeAll (slotGuid tl) (prioritizedGuids s)\<rparr>"
  define s2 where "s2 = (if \<not> highPriorityDrained s1 \<and> prioritizedPaths s1 = [] then startBackgroundSync (s1\<lparr>highPriorityDrained := True\<rparr>) else s1)"
  have free: "calm E s s1" if "?cur tl"
  proof -
    have reg: "regGet r s1 = regGet r s" for r unfolding s1_def by (cases r) (simp_all add: fun_eq_iff)
    have "registryOk E s1" if ok: "registryOk E s"
      using ok count sub \<open>?cur tl\<close> unfolding registryOk_def reg by (auto simp: s1_def)
    then show ?thesis by (simp add: calm_def) (simp add: s1_def)
  qed
  have drained: "calm E u (startBackgroundSync (u\<lparr>highPriorityDrained := True\<rparr>))" for u
    by (rule calm_trans [OF calm_core calm_background]) (simp_all add: core_def)
  have two: "calm E s1 s2" unfolding s2_def by (simp add: calm_refl drained)
  have "calm E s2 (pumpDocQueue E (scheduleMobileWorkingSetTrim E s2))" by (rule calm_trans [OF calm_plain(5) calm_pump])
  from calm_trans [OF calm_trans [OF free two] this]
  have "calm E s (if ?cur tl then pumpDocQueue E (scheduleMobileWorkingSetTrim E s2) else s\<lparr>slots := ?rest\<rparr>)" using drop by simp
  moreover have "slotFree E k s = (if ?cur tl then pumpDocQueue E (scheduleMobileWorkingSetTrim E s2) else s\<lparr>slots := ?rest\<rparr>)"
    using True unfolding slotFree_def Let_def tl_def s2_def s1_def by simp
  ultimately show ?thesis by simp
qed (simp add: slotFree_def calm_refl)

subsection \<open>Mobile devices\<close>

lemma calm_mobileReconnects [calm_intros]: "calm E s (queueMobileReconnects E s)"
proof -
  have "calm E s (case jget (indexFiles s) p of Some g \<Rightarrow> if g = rGuid (docs s ! i) then enqueueReconnect p (queueItem (g, KText)) False s else s | None \<Rightarrow> s)" for s p i
    by (simp add: calm_refl calm_enqueueReconnect split: option.split)
  moreover have "calm E s (case listedMeta s p of Some (g, k) \<Rightarrow> if g = rGuid (docs s ! i) then enqueueReconnect p (queueItem (g, k)) False s else s | None \<Rightarrow> s)" for s p i
    by (simp add: calm_refl calm_enqueueReconnect split: option.split prod.split)
  ultimately show ?thesis unfolding queueMobileReconnects_def Let_def split_beta
    by (intro calm_trans [OF calm_fold calm_trans [OF calm_fold calm_trans [OF calm_fold calm_pump]]]) (simp_all add: split_beta calm_enqueueKnown)
qed

lemma calm_suspend [calm_intros]: "calm E s (suspendForBackground E s)"
proof -
  let ?s1 = "s\<lparr>mobileSuspended := True, docConnectionGeneration := docConnectionGeneration s + 1, activeDocConnections := 0\<rparr>"
  have reg: "regGet r ?s1 = regGet r s" for r by (cases r) (simp_all add: fun_eq_iff)
  have "registryOk E ?s1" if ok: "registryOk E s"
  proof -
    have old: "\<forall>t \<in> set (slots s). slotDoc t < length (docs s) \<and> slotGeneration t \<le> docConnectionGeneration s" using ok unfolding registryOk_def by blast
    then have "filter (\<lambda>t. slotGeneration t = docConnectionGeneration s + 1) (slots s) = []" by (auto simp: filter_empty_conv)
    moreover have "\<forall>t \<in> set (slots s). slotDoc t < length (docs s) \<and> slotGeneration t \<le> docConnectionGeneration s + 1" using old by auto
    ultimately show ?thesis using ok unfolding registryOk_def reg by simp
  qed
  then have one: "calm E s ?s1" by (simp add: calm_def)
  have "calm E ?s1 (noted (Told (Paused True)) ?s1)" by (rule calm_noted) simp
  with one have "calm E s (fold disconnectDoc (allDocuments ?s1) (noted (Told (Paused True)) ?s1))"
    by (intro calm_trans [OF calm_trans calm_fold] calm_connectDoc)
  then show ?thesis unfolding suspendForBackground_def Let_def
    by (simp add: calm_refl calm_trans [OF _ calm_trans [OF calm_touch(6) calm_plain(5)]])
qed

lemma calm_reload [calm_intros]: "calm E s (pumpDocQueue E (enqueueKnownPath p fr rc s))"
  by (rule calm_trans [OF calm_enqueueKnown calm_pump])

lemma calm_invalidated [calm_intros]: "calm E s (onDocumentInvalidated E d s)"
proof -
  have reload: "calm E u (pumpDocQueue E (enqueueKnownPath p True True (u\<lparr>invalidationReloads := qs\<rparr>)))" for u p qs
    by (rule calm_trans [OF calm_touch(5) calm_reload])
  have "calm E u (if b then pumpDocQueue E (enqueueKnownPath p True True u)
      else if c then u\<lparr>invalidationReloadPending := ps\<rparr> else pumpDocQueue E (enqueueKnownPath p True True (u\<lparr>invalidationReloads := qs\<rparr>)))" for u b c p ps qs
    using reload by (simp add: calm_reload calm_touch)
  from calm_trans [OF calm_touch(2) this] show ?thesis unfolding onDocumentInvalidated_def Let_def
    by (simp only: calm_refl if_True if_False split: option.split if_split) simp
qed

lemma calm_reloadWindowEnds [calm_intros]: "calm E s (reloadWindowEnds E path d s)"
proof -
  define s1 where "s1 = s\<lparr>invalidationReloads := removeAll path (invalidationReloads s), invalidationReloadPending := removeAll path (invalidationReloadPending s)\<rparr>"
  have "calm E s s1" by (rule calm_core) (simp_all add: s1_def core_def)
  then have "calm E s (if b then onDocumentInvalidated E d s1 else s1)" for b by (simp add: calm_trans [OF _ calm_invalidated])
  then show ?thesis unfolding reloadWindowEnds_def Let_def s1_def [symmetric] by (simp add: calm_refl)
qed

lemma calm_prioritize [calm_intros]: "calm E s (prioritizeItem E p g s)"
proof -
  have mark: "calm E u (case q of None \<Rightarrow> u | Some path \<Rightarrow> pumpDocQueue E (enqueueKnownPath path True (mobile E) (markMobileDocumentUsed E path u)))" for u q
    by (cases q) (simp_all add: calm_refl calm_trans [OF calm_markUsed calm_reload])
  have "calm E s (case truthy g of Some g \<Rightarrow> s\<lparr>prioritizedGuids := setAdd (prioritizedGuids s) g\<rparr> | None \<Rightarrow> s)"
    by (simp add: calm_refl calm_touch split: option.split)
  from calm_trans [OF this mark] show ?thesis unfolding prioritizeItem_def Let_def .
qed

lemma calm_rebuild [calm_intros]: "calm E s (rebuildDocumentForEpoch E d rewound s)"
proof -
  have one: "calm E u (rebuildOne rewound g r x u)" for g r x u
    by (cases x) (simp add: rebuildOne_def Let_def calm_refl calm_trans [OF calm_removeFrom(1) calm_enqueueDoc])
  have "calm E s (pumpDocQueue E (fold (rebuildOne rewound g Structured) ys (fold (rebuildOne rewound g Notes) xs s)))" for g xs ys
    by (intro calm_trans [OF calm_fold calm_trans [OF calm_fold calm_pump]] one)
  then show ?thesis by (simp add: rebuildDocumentForEpoch_def Let_def calm_refl)
qed

lemma destroyed_docs:
  "core (fold (\<lambda>i. onDoc i f) is s) = (fold (\<lambda>i ds. ds[i := f (ds ! i)]) is (docs s), snd (core s))"
  by (induction "is" arbitrary: s) (simp_all add: core_def onDoc_def)

lemma length_fold_update [simp]: "length (fold (\<lambda>i ds. ds[i := f (ds ! i)]) is ds) = length ds"
  by (induction "is" arbitrary: ds) simp_all

lemma fold_onDoc_same [simp]: "trace (fold (\<lambda>i. onDoc i f) is s) = trace s"
  "remoteDeletePreserved (fold (\<lambda>i. onDoc i f) is s) = remoteDeletePreserved s"
  by (induction "is" arbitrary: s) (simp_all add: onDoc_def)

lemma calm_destroy [calm_intros]: "calm E s (destroy s)"
proof -
  define s1 where "s1 = s\<lparr>destroyed := True, mobileTrimTimer := False\<rparr>"
  define s2 where "s2 = fold (\<lambda>i. onDoc i (destroyDoc False)) (allDocuments s1) s1"
  have "core s2 = (fold (\<lambda>i ds. ds[i := destroyDoc False (ds ! i)]) (allDocuments s1) (docs s), snd (core s))"
    unfolding s2_def destroyed_docs by (simp add: s1_def core_def)
  then have c: "length (docs s2) = length (docs s)" "slots s2 = slots s" "activeDocConnections s2 = activeDocConnections s"
    "docConnectionGeneration s2 = docConnectionGeneration s" by (simp_all add: core_def)
  define s3 where "s3 = s2\<lparr>documents := [], structuredDocuments := [], indexStatus := Offline\<rparr>"
  have none: "regGet r s3 p = None" for r p unfolding s3_def by (cases r) simp_all
  have "registryOk E s3" if "registryOk E s" using that none by (simp add: registryOk_def c s3_def)
  moreover have "trace s3 = trace s" "remoteDeletePreserved s3 = remoteDeletePreserved s" by (simp_all add: s3_def s2_def s1_def)
  ultimately have "calm E s s3" by (simp add: calm_def)
  moreover have "destroy s = (if destroyed s then s else s3)" by (simp add: destroy_def Let_def s3_def s2_def s1_def)
  ultimately show ?thesis by (simp add: calm_refl)
qed

end
