(* ===== verification/Vault_Sync.thy ===== *)
theory Vault_Sync
  imports Vault_Registry
begin

text \<open>
  The handlers of \<open>VaultSync\<close> (\<open>src/src/VaultSync.ts\<close>) as concurrent methods (theory \<open>Async_Tasks\<close>) on the state of theory \<open>Vault_Registry\<close>: the observers
  of the index, remote deletes and renames, the vault's events, the initial synchronisation, the trash, and the trimming of the working set.
  Loops that wait for others are bounded by a number; a task that exhausts it never goes on, so that every finite run is one of the model for a large enough number.
\<close>

section \<open>Calls to the outside\<close>

type_synonym ('m, 'r) vault_code = "('m vault_sync, 'r) code"

text \<open>\<open>await\<close> of an asynchronous method of this class.\<close>

definition awaited :: "('s, 'r) code \<Rightarrow> ('s, 'r) code" where
  "awaited m = seq m (\<lambda>x. seq (waitFor (\<lambda>_. True)) (\<lambda>_. ret x))"

text \<open>\<open>await sha256Text(text)\<close>, whose result is \<open>sha256 E text\<close>.\<close>

definition hashed :: "('m, unit) vault_code" where
  "hashed = outside (\<lambda>s. (Some (), s))"

definition readFile :: "jstr \<Rightarrow> ('m, jstr) vault_code" where
  "readFile path = outside (\<lambda>s. (jget (files (fs s)) path, s))"

definition parentFolderOf :: "jstr \<Rightarrow> ('m, unit) vault_code" where
  "parentFolderOf path = seq (settled (outside (\<lambda>s. (Some (), s\<lparr>fs := ensureParentFolder (fs s) path\<rparr>)))) (\<lambda>_. ret ())"

definition preserveCopy :: "'m vault_env \<Rightarrow> jstr \<Rightarrow> jstr \<Rightarrow> ('m, jstr) vault_code" where
  "preserveCopy E path content = seen (\<lambda>s.
     let destination = conflictCopyPath (recovery E) (fs s) path LocalSide (utc E (clock s))
     in seq (parentFolderOf destination) (\<lambda>_.
        seq (outside (\<lambda>s. case createFile (fs s) destination content of Inl _ \<Rightarrow> (None, s) | Inr v \<Rightarrow> (Some (), s\<lparr>fs := v\<rparr>))) (\<lambda>_.
        seq (sync (noted (Kept path content))) (\<lambda>_. ret destination))))"

definition vaultDelete :: "jstr \<Rightarrow> jstr option \<Rightarrow> bool \<Rightarrow> ('m, unit) vault_code" where
  "vaultDelete path ident again = outside (\<lambda>s.
     if jhas (files (fs s)) path then (Some (), noted (DeleteFile path ident again) (s\<lparr>fs := (fs s)\<lparr>files := jdel (files (fs s)) path\<rparr>\<rparr>)) else (None, s))"

definition vaultRename :: "jstr \<Rightarrow> jstr \<Rightarrow> ('m, unit) vault_code" where
  "vaultRename from target = outside (\<lambda>s.
     case jget (files (fs s)) from of
       None \<Rightarrow> (None, s)
     | Some c \<Rightarrow> if getAbstractFileByPath (fs s) target then (None, s)
                 else (Some (), s\<lparr>fs := (fs s)\<lparr>files := jset (jdel (files (fs s)) from) target c\<rparr>\<rparr>))"

definition tell :: "binary_call \<Rightarrow> ('m, unit) vault_code" where
  "tell c = sync (noted (Told c))"

section \<open>Remote deletes\<close>

text \<open>Content, guid and epoch of the resident document of the given kind.\<close>

definition residentContent :: "'m vault_sync \<Rightarrow> jstr \<Rightarrow> materialized_kind \<Rightarrow> (jstr \<times> jstr \<times> nat) option" where
  "residentContent s path k =
    (case regGet (regOf k) s path of
       None \<Rightarrow> None
     | Some i \<Rightarrow> let d = docs s ! i in if k = KText \<or> rKind d = k then Some (rContent d, rGuid d, rEpoch d) else None)"

text \<open>\<open>aborted()\<close>.\<close>

definition aborted :: "materialized_kind \<Rightarrow> jstr \<Rightarrow> 'm vault_sync \<Rightarrow> bool" where
  "aborted k path s \<longleftrightarrow> destroyed s \<or> listedAs k s path"

definition storedFingerprint :: "'m vault_env \<Rightarrow> nat \<Rightarrow> jstr \<Rightarrow> jstr" where
  "storedFingerprint E epoch txt = decimal epoch @ lit '':'' @ sha256 E txt"

text \<open>The version in memory: \<open>Some (Some c)\<close> when it still has to be copied, \<open>None\<close> when the delete no longer applies.\<close>

definition checkResident ::
  "'m vault_env \<Rightarrow> jstr \<Rightarrow> materialized_kind \<Rightarrow> jstr list \<Rightarrow> (jstr \<times> jstr \<times> nat) option \<Rightarrow> ('m, jstr option option) vault_code" where
  "checkResident E path k handled resident =
    (case resident of
       None \<Rightarrow> ret (Some None)
     | Some (c, _, _) \<Rightarrow> seq hashed (\<lambda>_. seen (\<lambda>s.
         if aborted k path s then ret None else ret (Some (if sha256 E c \<in> set handled then None else Some c)))))"

text \<open>The version on disk: what it is, whether it still has to be copied, and whether it only lags the document.\<close>

definition checkDisk ::
  "'m vault_env \<Rightarrow> jstr \<Rightarrow> materialized_kind \<Rightarrow> jstr option \<Rightarrow> jstr list \<Rightarrow> (jstr \<times> jstr \<times> nat) option
     \<Rightarrow> ('m, (jstr option \<times> bool \<times> bool) option) vault_code" where
  "checkDisk E path k ident handled resident = seen (\<lambda>s.
     if \<not> localFileExists s path then ret (Some (None, False, False))
     else seq (readFile path) (\<lambda>disk. seen (\<lambda>s. if aborted k path s then ret None else seq hashed (\<lambda>_. seen (\<lambda>s. if aborted k path s then ret None
       else if sha256 E disk \<in> set handled then ret (Some (Some disk, False, False))
       else case resident of
              Some (_, g, e) \<Rightarrow>
                if Some g = ident
                then seq hashed (\<lambda>_. seen (\<lambda>s1. if aborted k path s1 then ret None
                  else if diskFingerprint (dict E) (localSync s) path g = Some (storedFingerprint E e disk)
                  then seq (sync (noted (Lags path disk))) (\<lambda>_. ret (Some (Some disk, False, True)))
                  else ret (Some (Some disk, True, False))))
                else ret (Some (Some disk, True, False))
            | None \<Rightarrow> ret (Some (Some disk, True, False)))))))"

text \<open>The loop of \<open>preserveUnacknowledgedVersions\<close>: the copies made, and the \<open>Checked\<close> that ended it.\<close>

fun preserveLoop ::
  "nat \<Rightarrow> 'm vault_env \<Rightarrow> jstr \<Rightarrow> materialized_kind \<Rightarrow> jstr option \<Rightarrow> jstr list \<Rightarrow> jstr list \<Rightarrow> ('m, (jstr list \<times> vault_action) option) vault_code" where
  "preserveLoop 0 E path k ident handled copies = seq (waitFor (\<lambda>_. False)) (\<lambda>_. ret None)"
| "preserveLoop (Suc n) E path k ident handled copies = seen (\<lambda>s.
    let resident = residentContent s path k;
        copy = (\<lambda>pending handled. seq hashed (\<lambda>_. seq (preserveCopy E path pending) (\<lambda>copied. seen (\<lambda>s.
                  if aborted k path s then ret None
                  else preserveLoop n E path k ident (handled @ [sha256 E pending]) (copies @ [copied])))))
    in seq (checkResident E path k handled resident) (\<lambda>r.
         case r of
           None \<Rightarrow> ret None
         | Some (Some c) \<Rightarrow> copy c handled
         | Some None \<Rightarrow> seq (checkDisk E path k ident handled resident) (\<lambda>d.
             case d of
               None \<Rightarrow> ret None
             | Some (Some disk, True, _) \<Rightarrow> copy disk handled
             | Some (disk, _, lags) \<Rightarrow>
                 let final = Checked path ident (if lags then handled @ [sha256 E (the disk)] else handled) (map_option fst resident) disk
                 in seq (sync (noted final)) (\<lambda>_. ret (Some (copies, final))))))"

definition preserveUnacknowledgedVersions ::
  "nat \<Rightarrow> 'm vault_env \<Rightarrow> jstr \<Rightarrow> materialized_kind \<Rightarrow> jstr option \<Rightarrow> ('m, (jstr list \<times> vault_action) option) vault_code" where
  "preserveUnacknowledgedVersions n E path k ident = seen (\<lambda>s.
     case truthy (case truthy ident of Some g \<Rightarrow> acknowledgedFingerprint (dict E) (localSync s) path g | None \<Rightarrow> None) of
       Some fp \<Rightarrow> seq (sync (noted (Acknowledged path ident fp))) (\<lambda>_. preserveLoop n E path k ident [fp] [])
     | None \<Rightarrow> preserveLoop n E path k ident [] [])"

definition renameTarget :: "'m vault_sync \<Rightarrow> jstr \<Rightarrow> materialized_kind \<Rightarrow> jstr \<Rightarrow> jstr option" where
  "renameTarget s from k guid =
    (case truthy (pathForGuid s guid) of
       None \<Rightarrow> None
     | Some target \<Rightarrow>
         if target = from \<or> localFileExists s target then None
         else if k \<noteq> KText \<and> map_option snd (listedMeta s target) \<noteq> Some k then None
         else (case regGet (regOf k) s target of
                 Some i \<Rightarrow> if rReady (docs s ! i) then None else Some target
               | None \<Rightarrow> Some target))"

text \<open>\<open>pending\<close>, the document found at the target before the folder was made.\<close>

definition beginRename :: "'m vault_env \<Rightarrow> jstr \<Rightarrow> jstr \<Rightarrow> materialized_kind \<Rightarrow> bool \<Rightarrow> 'm vault_sync \<Rightarrow> 'm vault_sync" where
  "beginRename E from target k pending s =
    (let s1 = removeStructuredDocument from False (removeDocument from False s);
         s2 = (if pending then removeFrom (regOf k) target False s1 else s1);
         s3 = onRecord (movePath (dict E) from target k) (bumpPathVersion target (bumpPathVersion from s2))
     in s3\<lparr>remoteRenamesApplying := jset (remoteRenamesApplying s3) from target\<rparr>)"

definition applyRemoteRename :: "'m vault_env \<Rightarrow> jstr \<Rightarrow> materialized_kind \<Rightarrow> jstr \<Rightarrow> ('m, bool) vault_code" where
  "applyRemoteRename E from k guid = seen (\<lambda>s0.
     case renameTarget s0 from k guid of
       None \<Rightarrow> ret False
     | Some target \<Rightarrow> seq (parentFolderOf target) (\<lambda>_. seen (\<lambda>s.
         if aborted k from s \<or> localFileExists s target \<or> \<not> localFileExists s from \<or> pathForGuid s guid \<noteq> Some target then ret False
         else seq (sync (\<lambda>t. beginRename E from target k (regGet (regOf k) s0 target \<noteq> None)
                             (noted (MoveFile from target (pathForGuid s guid) (localFileExists s target)) t))) (\<lambda>_.
              seq (settled (vaultRename from target)) (\<lambda>r. case r of
                None \<Rightarrow> seq (sync (\<lambda>s. onRecord (movePath (dict E) target from k) (s\<lparr>remoteRenamesApplying := jdel (remoteRenamesApplying s) from\<rparr>))) (\<lambda>_. throw)
              | Some _ \<Rightarrow> seq (sync (\<lambda>s. s\<lparr>renameTimers := renameTimers s @ [(from, target)]\<rparr>)) (\<lambda>_. seen (\<lambda>s.
                  if destroyed s then ret True
                  else seq (sync (\<lambda>s. pumpDocQueue E (enqueueDoc target (queueItem (guid, k)) True s))) (\<lambda>_. ret True)))))))) "

definition rematerializeReintroducedPath :: "'m vault_env \<Rightarrow> jstr \<Rightarrow> 'm vault_sync \<Rightarrow> 'm vault_sync" where
  "rematerializeReintroducedPath E path s =
    (case truthy (jget (indexFiles s) path) of
       Some guid \<Rightarrow> enqueueDoc path (queueItem (guid, KText)) False (removeDocument path False s)
     | None \<Rightarrow>
         (case listedMeta s path of
            None \<Rightarrow> s
          | Some (guid, k) \<Rightarrow> snd (ensureStructuredDocument E path guid k False True None (removeStructuredDocument path False s))))"

text \<open>The documents of a deleted file are given up.\<close>

definition withdrawDocuments :: "jstr \<Rightarrow> 'm vault_sync \<Rightarrow> 'm vault_sync" where
  "withdrawDocuments path s =
    (let clear = deletedStoreDisposable s path in removeStructuredDocument path clear (removeDocument path clear s))"

definition finishRemoteDelete :: "'m vault_env \<Rightarrow> jstr \<Rightarrow> materialized_kind \<Rightarrow> 'm vault_sync \<Rightarrow> 'm vault_sync" where
  "finishRemoteDelete E path k s =
    (if destroyed s then s
     else if listedAs k s path then rematerializeReintroducedPath E path s
     else onRecord (removePath (dict E) path) (s\<lparr>remoteDeletePreserved := removeAll path (remoteDeletePreserved s)\<rparr>))"

definition deleteLocalFile :: "'m vault_env \<Rightarrow> jstr \<Rightarrow> materialized_kind \<Rightarrow> jstr option \<Rightarrow> bool \<Rightarrow> ('m, unit) vault_code" where
  "deleteLocalFile E path k ident again = seen (\<lambda>s.
     if aborted k path s then ret ()
     else seq (sync (withdrawDocuments path)) (\<lambda>_. seen (\<lambda>s.
       if \<not> localFileExists s path then sync (finishRemoteDelete E path k)
       else seq (sync (\<lambda>s. s\<lparr>remoteDeletesApplying := setAdd (remoteDeletesApplying s) path\<rparr>)) (\<lambda>_.
            seq (settled (vaultDelete path ident again)) (\<lambda>r.
            seq (sync (\<lambda>s. s\<lparr>remoteDeletesApplying := removeAll path (remoteDeletesApplying s)\<rparr>)) (\<lambda>_.
            case r of None \<Rightarrow> throw | Some _ \<Rightarrow> sync (finishRemoteDelete E path k)))))))"

text \<open>
  The body of \<open>reconcileRemoteDelete\<close>. Without a file nothing is awaited before \<open>vault.delete\<close> would be reached, so there is none to delete then either.
\<close>

definition deleteAttempt :: "nat \<Rightarrow> 'm vault_env \<Rightarrow> jstr \<Rightarrow> materialized_kind \<Rightarrow> jstr option \<Rightarrow> ('m, unit) vault_code" where
  "deleteAttempt n E path k ident = seen (\<lambda>s.
     if listedAs k s path then ret ()
     else if \<not> localFileExists s path then
       (if destroyed s then ret () else seq (sync (withdrawDocuments path)) (\<lambda>_. sync (finishRemoteDelete E path k)))
     else if path \<in> set (remoteDeletePreserved s) then deleteLocalFile E path k ident True
     else seq (case truthy ident of Some g \<Rightarrow> awaited (applyRemoteRename E path k g) | None \<Rightarrow> ret False) (\<lambda>moved.
       if moved then ret ()
       else seen (\<lambda>s. if path \<in> set (remoteDeletePreserved s) then deleteLocalFile E path k ident True
       else seq (awaited (preserveUnacknowledgedVersions n E path k ident)) (\<lambda>r.
         case r of
           None \<Rightarrow> ret ()
         | Some (copies, _) \<Rightarrow>
             seq (sync (\<lambda>s. if copies = [] then s else s\<lparr>remoteDeletePreserved := setAdd (remoteDeletePreserved s) path\<rparr>)) (\<lambda>_.
             deleteLocalFile E path k ident False)))))"

definition reconcileRemoteDelete :: "nat \<Rightarrow> 'm vault_env \<Rightarrow> jstr \<Rightarrow> materialized_kind \<Rightarrow> jstr option \<Rightarrow> ('m, unit) vault_code" where
  "reconcileRemoteDelete n E path k ident = seq (settled (deleteAttempt n E path k ident)) (\<lambda>r.
     case r of
       Some _ \<Rightarrow> ret ()
     | None \<Rightarrow> sync (\<lambda>s. if destroyed s then s else s\<lparr>deleteRetries := deleteRetries s @ [(path, k, ident)]\<rparr>))"

fun deleteLoop :: "nat \<Rightarrow> nat \<Rightarrow> 'm vault_env \<Rightarrow> jstr \<Rightarrow> materialized_kind \<Rightarrow> jstr option \<Rightarrow> ('m, unit) vault_code" where
  "deleteLoop 0 n E path k ident = waitFor (\<lambda>_. False)"
| "deleteLoop (Suc m) n E path k ident =
    seq (sync (\<lambda>s. s\<lparr>remoteDeletePending := jdel (remoteDeletePending s) path\<rparr>)) (\<lambda>_.
    seq (awaited (reconcileRemoteDelete n E path k ident)) (\<lambda>_. seen (\<lambda>s.
      case jget (remoteDeletePending s) path of
        Some (k', ident') \<Rightarrow> deleteLoop m n E path k' ident'
      | None \<Rightarrow> ret ())))"

definition handleRemoteDelete :: "nat \<Rightarrow> 'm vault_env \<Rightarrow> jstr \<Rightarrow> materialized_kind \<Rightarrow> jstr option \<Rightarrow> ('m, unit) vault_code" where
  "handleRemoteDelete n E path k ident = seen (\<lambda>s.
     if destroyed s then ret ()
     else if path \<in> set (remoteDeleteInFlight s) then sync (\<lambda>s. s\<lparr>remoteDeletePending := jset (remoteDeletePending s) path (k, ident)\<rparr>)
     else seq (sync (\<lambda>s. s\<lparr>remoteDeleteInFlight := setAdd (remoteDeleteInFlight s) path\<rparr>)) (\<lambda>_.
          seq (settled (deleteLoop n n E path k ident)) (\<lambda>_.
          sync (\<lambda>s. s\<lparr>remoteDeleteInFlight := removeAll path (remoteDeleteInFlight s)\<rparr>))))"

section \<open>The index\<close>

definition entryChanged :: "'m vault_env \<Rightarrow> materialized_kind \<Rightarrow> jstr \<Rightarrow> 'm vault_sync \<Rightarrow> 'm vault_sync" where
  "entryChanged E k0 path s =
    (case listedEntry k0 s path of
       None \<Rightarrow> s
     | Some (guid, k) \<Rightarrow>
         if k0 = KText \<and> guid = [] \<or> removedPath (bootstrapLog s) path then s
         else pumpDocQueue E (enqueueDoc path (queueItem (guid, k)) (path \<in> set (prioritizedPaths s) \<or> guid \<in> set (prioritizedGuids s) \<or> \<not> localFileExists s path)
                (registerFile path guid (s\<lparr>remoteDeletePreserved := removeAll path (remoteDeletePreserved s)\<rparr>))))"

text \<open>\<open>onFilesChanged\<close> and \<open>onStructuredChanged\<close> on one changed key; \<open>old\<close> is the state before the transaction.\<close>

fun observed :: "nat \<Rightarrow> 'm vault_env \<Rightarrow> 'm vault_sync \<Rightarrow> registry \<times> jstr \<Rightarrow> ('m, unit) vault_code" where
  "observed n E old (Notes, path) = seen (\<lambda>s.
     if destroyed s \<or> \<not> bootstrapPrepared s then ret ()
     else if jhas (indexFiles s) path then sync (entryChanged E KText path)
     else case jget (indexFiles old) path of Some g \<Rightarrow> fork (handleRemoteDelete n E path KText (Some g)) | None \<Rightarrow> ret ())"
| "observed n E old (Structured, path) = seen (\<lambda>s.
     if destroyed s \<or> \<not> bootstrapPrepared s then ret ()
     else if jhas (indexStructured s) path then sync (entryChanged E KCanvas path)
     else case jget (indexStructured old) path of
            Some (Meta g k) \<Rightarrow> fork (handleRemoteDelete n E path k (Some g))
          | Some Malformed \<Rightarrow> fork (handleRemoteDelete n E path KCanvas None)
          | None \<Rightarrow> ret ())"

definition indexTransact :: "nat \<Rightarrow> 'm vault_env \<Rightarrow> index_op list \<Rightarrow> ('m, unit) vault_code" where
  "indexTransact n E ops = seen (\<lambda>old. seq (sync (fold applyOp ops)) (\<lambda>_. each (touched ops) (observed n E old)))"

text \<open>The guid the index gives for a path.\<close>

fun entryAt :: "registry \<Rightarrow> 'm vault_sync \<Rightarrow> jstr \<Rightarrow> jstr option" where
  "entryAt Notes s p = jget (indexFiles s) p"
| "entryAt Structured s p = map_option fst (listedMeta s p)"

text \<open>The entries of the index, and those whose document a transaction leaves neither in the index nor in the trash.\<close>

definition listedEntries :: "'m vault_sync \<Rightarrow> (registry \<times> jstr \<times> jstr) list" where
  "listedEntries s =
    concat (map (\<lambda>(r, p). case entryAt r s p of Some g \<Rightarrow> [(r, p, g)] | None \<Rightarrow> [])
      (map (Pair Notes) (jkeys (indexFiles s)) @ map (Pair Structured) (jkeys (indexStructured s))))"

definition orphaned :: "index_op list \<Rightarrow> 'm vault_sync \<Rightarrow> (jstr \<times> jstr) list" where
  "orphaned ops s =
    (let s1 = fold applyOp ops s
     in map snd (filter (\<lambda>(_, p, g). g \<notin> snd ` snd ` set (listedEntries s1) \<and> \<not> list_ex (\<lambda>(_, v). tGuid v = Some g) (trash s1)) (listedEntries s)))"

definition localTransact :: "nat \<Rightarrow> 'm vault_env \<Rightarrow> commit_why \<Rightarrow> index_op list \<Rightarrow> ('m, unit) vault_code" where
  "localTransact n E why ops = seen (\<lambda>s. seq (sync (noted (Commit why (orphaned ops s)))) (\<lambda>_. indexTransact n E ops))"

section \<open>Publishing\<close>

definition canPublishLocalPath :: "'m vault_sync \<Rightarrow> jstr \<Rightarrow> nat \<Rightarrow> materialized_kind \<Rightarrow> nat \<Rightarrow> bool" where
  "canPublishLocalPath s path version k i \<longleftrightarrow>
    \<not> rDestroyed (docs s ! i) \<and> currentPathVersion s path = version \<and> localFileExists s path
    \<and> regGet (regOf k) s path = Some i \<and> \<not> listedAs k s path"

text \<open>\<open>publishLocalText\<close> and \<open>publishLocalStructured\<close>.\<close>

definition publishLocal :: "nat \<Rightarrow> 'm vault_env \<Rightarrow> jstr \<Rightarrow> nat \<Rightarrow> nat \<Rightarrow> jstr \<Rightarrow> materialized_kind \<Rightarrow> ('m, unit) vault_code" where
  "publishLocal n E path version i guid k = seen (\<lambda>s.
     if destroyed s \<or> \<not> canPublishLocalPath s path version k i then ret ()
     else seq (localTransact n E (ByPublish path i) [putEntry k path guid]) (\<lambda>_.
          sync (\<lambda>s. registerFile path guid (onRecord (commit (dict E) path k guid) s))))"

text \<open>The first attempt is the race of the document's readiness with a timeout.\<close>

definition publishWhenReady :: "nat \<Rightarrow> ('m, unit) vault_code \<Rightarrow> ('m, unit) vault_code" where
  "publishWhenReady i publish =
    seq (settled (outside (\<lambda>s. if rReady (docs s ! i) then (Some (), noted (Readied i) s) else (None, s)))) (\<lambda>inTime.
      case inTime of
        Some _ \<Rightarrow> publish
      | None \<Rightarrow> fork (seq (waitFor (\<lambda>s. rReady (docs s ! i))) (\<lambda>_. seq (sync (noted (Readied i))) (\<lambda>_. publish))))"

text \<open>A new document for a local file, published when it is ready.\<close>

definition publishNew :: "nat \<Rightarrow> 'm vault_env \<Rightarrow> jstr \<Rightarrow> nat \<Rightarrow> materialized_kind \<Rightarrow> ('m, unit) vault_code" where
  "publishNew n E path version k = seen (\<lambda>s.
     let known = candidateIdentity (dict E) (localSync s) path k;
         guid = (case known of Some g \<Rightarrow> g | None \<Rightarrow> newGuid E s);
         prepare = (\<lambda>s. ensureKind E path guid k True True None
                     (onRecord (beginCandidate (dict E) path k (Some guid) None) (if known = None then usedGuid s else s)));
         i = fst (prepare s)
     in seq (sync (\<lambda>s. snd (prepare s))) (\<lambda>_. awaited (publishWhenReady i (publishLocal n E path version i guid k))))"

section \<open>Local events\<close>

text \<open>The first fingerprint of a file nothing is known of; false when something happened to the path meanwhile.\<close>

definition fingerprintNew :: "'m vault_env \<Rightarrow> jstr \<Rightarrow> nat \<Rightarrow> materialized_kind \<Rightarrow> ('m, bool) vault_code" where
  "fingerprintNew E path version k = seen (\<lambda>s.
     if hasPath (dict E) (localSync s) path then ret True
     else seq (readFile path) (\<lambda>c. seq hashed (\<lambda>_. seen (\<lambda>s.
       if destroyed s \<or> currentPathVersion s path \<noteq> version \<or> \<not> localFileExists s path then ret False
       else seq (sync (beginUntrackedCandidate E path k (sha256 E c))) (\<lambda>_. ret True)))))"

text \<open>The document of a file: the one of its entry, or a new one.\<close>

definition documentFor :: "nat \<Rightarrow> 'm vault_env \<Rightarrow> jstr \<Rightarrow> nat \<Rightarrow> materialized_kind \<Rightarrow> ('m, unit) vault_code" where
  "documentFor n E path version k = seen (\<lambda>s.
     if listedAs k s path
     then (case listedEntry k s path of
             Some (guid, k') \<Rightarrow> sync (\<lambda>s. snd (ensureKind E path guid k' False True None (registerFile path guid s)))
           | None \<Rightarrow> ret ())
     else publishNew n E path version k)"

definition handleLocalCreate :: "nat \<Rightarrow> 'm vault_env \<Rightarrow> jstr \<Rightarrow> ('m, unit) vault_code" where
  "handleLocalCreate n E path = seen (\<lambda>s.
     if destroyed s \<or> \<not> initialSynced s then ret ()
     else let version = currentPathVersion s path + 1
          in seq (sync (bumpPathVersion path)) (\<lambda>_. seen (\<lambda>s.
            if tfile E path \<and> \<not> localFileExists s path then ret ()
            else case documentKind E path of
                   Some k \<Rightarrow> seq (fingerprintNew E path version k) (\<lambda>go. if go then documentFor n E path version k else ret ())
                 | None \<Rightarrow> if classify E path = BinaryFile then tell (ChangedLocally path) else ret ())))"

definition onLocalCreate :: "nat \<Rightarrow> 'm vault_env \<Rightarrow> jstr \<Rightarrow> ('m, unit) vault_code" where
  "onLocalCreate n E path = seen (\<lambda>s.
     if destroyed s \<or> isOwnWrite s path then ret ()
     else if \<not> initialSynced s
     then sync (\<lambda>s. (bumpPathVersion path s)\<lparr>bootstrapLog := createEv path \<lparr>fpath = path\<rparr> (bootstrapLog s)\<rparr>)
     else fork (handleLocalCreate n E path))"

definition takeBinaryRenameSource :: "jstr \<Rightarrow> 'm vault_sync \<Rightarrow> 'm vault_sync" where
  "takeBinaryRenameSource path s = s\<lparr>binaryRenameSources := jdel (binaryRenameSources s) path\<rparr>"

definition trashValue :: "'m vault_sync \<Rightarrow> jstr \<Rightarrow> trash_kind \<Rightarrow> jstr \<Rightarrow> trash_value" where
  "trashValue s path k guid = \<lparr>tPath = path, tKind = k, tGuid = Some guid, tHash = None, tOwner = None, deletedAt = clock s\<rparr>"

fun trashKindOf :: "materialized_kind \<Rightarrow> trash_kind" where
  "trashKindOf KCanvas = TCanvas"
| "trashKindOf KBase = TBase"
| "trashKindOf _ = TText"

text \<open>A transaction that begins with \<open>recordTrashIn\<close>.\<close>

definition trashTransact :: "nat \<Rightarrow> 'm vault_env \<Rightarrow> commit_why \<Rightarrow> jstr \<Rightarrow> materialized_kind \<Rightarrow> jstr \<Rightarrow> index_op list \<Rightarrow> ('m, unit) vault_code" where
  "trashTransact n E why path k guid ops = seen (\<lambda>s.
     seq (sync usedGuid) (\<lambda>_. localTransact n E why (SetTrash (newGuid E s) (trashValue s path (trashKindOf k) guid) # ops)))"

definition unlistDeleted :: "nat \<Rightarrow> 'm vault_env \<Rightarrow> jstr \<Rightarrow> ('m, unit) vault_code" where
  "unlistDeleted n E path = seen (\<lambda>s. case jget (indexFiles s) path of
     Some guid \<Rightarrow> trashTransact n E (ByDeletion path) path KText guid [DelFile path]
   | None \<Rightarrow> ret ())"

definition unlistDeletedStructured :: "nat \<Rightarrow> 'm vault_env \<Rightarrow> jstr \<Rightarrow> ('m, unit) vault_code" where
  "unlistDeletedStructured n E path = seen (\<lambda>s. case listedMeta s path of
     Some (guid, k) \<Rightarrow> trashTransact n E (ByDeletion path) path k guid [DelStructured path]
   | None \<Rightarrow> ret ())"

definition applyLocalDeletion :: "nat \<Rightarrow> 'm vault_env \<Rightarrow> jstr \<Rightarrow> ('m, unit) vault_code" where
  "applyLocalDeletion n E path = seen (\<lambda>s.
     let source = truthy (jget (binaryRenameSources s) path)
     in seq (sync (takeBinaryRenameSource path)) (\<lambda>_.
        seq (case source of Some b \<Rightarrow> tell (DeletedLocally b) | None \<Rightarrow> ret ()) (\<lambda>_.
        seq (sync (\<lambda>s. bumpPathVersion path (onRecord (removePath (dict E) path) s))) (\<lambda>_. seen (\<lambda>s.
        let clear = deletedStoreDisposable s path
        in if jhas (documents s) path \<or> jhas (indexFiles s) path
           then seq (sync (removeDocument path clear)) (\<lambda>_. unlistDeleted n E path)
           else if jhas (structuredDocuments s) path \<or> jhas (indexStructured s) path
           then seq (sync (removeStructuredDocument path clear)) (\<lambda>_. unlistDeletedStructured n E path)
           else tell (DeletedLocally path))))))"

definition onLocalDelete :: "nat \<Rightarrow> 'm vault_env \<Rightarrow> jstr \<Rightarrow> ('m, unit) vault_code" where
  "onLocalDelete n E path = seen (\<lambda>s.
     if destroyed s \<or> isOwnWrite s path then ret ()
     else if \<not> initialSynced s then sync (\<lambda>s. (bumpPathVersion path s)\<lparr>bootstrapLog := deleteEv path (bootstrapLog s)\<rparr>)
     else applyLocalDeletion n E path)"

subsection \<open>Renames\<close>

text \<open>What \<open>handleLocalRename\<close> finds at the old path.\<close>

record rename_found =
  wasTracked :: bool
  wasStructuredTracked :: bool
  oldGuid :: "jstr option"
  oldStructuredGuid :: "jstr option"
  binarySource :: "jstr option"

definition renameFound :: "'m vault_sync \<Rightarrow> jstr \<Rightarrow> rename_found" where
  "renameFound s old =
    (let tracked = jhas (indexFiles s) old; structuredTracked = jhas (indexStructured s) old
     in \<lparr>wasTracked = tracked, wasStructuredTracked = structuredTracked,
         oldGuid = (case jget (indexFiles s) old of Some g \<Rightarrow> Some g | None \<Rightarrow> map_option (\<lambda>i. rGuid (docs s ! i)) (jget (documents s) old)),
         oldStructuredGuid = (case listedMeta s old of Some (g, _) \<Rightarrow> Some g | None \<Rightarrow> map_option (\<lambda>i. rGuid (docs s ! i)) (jget (structuredDocuments s) old)),
         binarySource = (case jget (binaryRenameSources s) old of Some b \<Rightarrow> Some b
                         | None \<Rightarrow> if \<not> tracked \<and> \<not> structuredTracked \<and> jhas (binaries s) old then Some old else None)\<rparr>)"

text \<open>The device's own record follows the file; a binary's stays until the new document is published.\<close>

definition renameRecord :: "'m vault_env \<Rightarrow> jstr \<Rightarrow> jstr \<Rightarrow> rename_found \<Rightarrow> 'm vault_sync \<Rightarrow> 'm vault_sync" where
  "renameRecord E old new found s =
    (let binary = (map_option local_path_state.kind (getPath (dict E) (localSync s) old) = Some KBinary)
     in case documentKind E new of
          Some k \<Rightarrow> if binarySource found \<noteq> None \<and> binary then s else onRecord (movePath (dict E) old new k) s
        | None \<Rightarrow> if classify E new \<noteq> StructuredFile \<and> binary then s else onRecord (removePath (dict E) old) s)"

definition holdBinary :: "jstr \<Rightarrow> rename_found \<Rightarrow> ('m, unit) vault_code" where
  "holdBinary new found = (case binarySource found of
     Some b \<Rightarrow> seq (tell (HoldMoved b)) (\<lambda>_. sync (\<lambda>s. s\<lparr>binaryRenameSources := jset (binaryRenameSources s) new b\<rparr>))
   | None \<Rightarrow> ret ())"

definition releaseBinary :: "jstr \<Rightarrow> rename_found \<Rightarrow> ('m, unit) vault_code" where
  "releaseBinary new found = (case binarySource found of
     Some b \<Rightarrow> seq (sync (\<lambda>s. if jget (binaryRenameSources s) new = Some b then takeBinaryRenameSource new s else s)) (\<lambda>_. tell (ReleaseMoved b))
   | None \<Rightarrow> ret ())"

definition leaveOps :: "jstr \<Rightarrow> rename_found \<Rightarrow> index_op list" where
  "leaveOps old found = (if wasTracked found then [DelFile old] else []) @ (if wasStructuredTracked found then [DelStructured old] else [])"

text \<open>\<open>publish\<close>: the binary is released inside the transaction, before the observers run.\<close>

definition publishMove :: "nat \<Rightarrow> 'm vault_env \<Rightarrow> jstr \<Rightarrow> jstr \<Rightarrow> rename_found \<Rightarrow> materialized_kind \<Rightarrow> jstr \<Rightarrow> ('m, unit) vault_code" where
  "publishMove n E old new found k guid =
    seq (releaseBinary new found) (\<lambda>_.
    seq (localTransact n E (ByRename old new) (leaveOps old found @ [putEntry k new guid])) (\<lambda>_.
    sync (registerFile new guid)))"

text \<open>A note that becomes a canvas or base leaves a trash entry; a canvas or base that becomes a note does not.\<close>

definition leaveOther :: "nat \<Rightarrow> 'm vault_env \<Rightarrow> jstr \<Rightarrow> jstr \<Rightarrow> rename_found \<Rightarrow> materialized_kind \<Rightarrow> ('m, unit) vault_code" where
  "leaveOther n E old new found k =
    (if k = KText then (if wasStructuredTracked found then localTransact n E (ByRename old new) [DelStructured old] else ret ())
     else if wasTracked found
     then (case truthy (oldGuid found) of
             Some g \<Rightarrow> trashTransact n E (ByRename old new) old KText g [DelFile old]
           | None \<Rightarrow> localTransact n E (ByRename old new) [DelFile old])
     else ret ())"

definition renameDocument :: "nat \<Rightarrow> 'm vault_env \<Rightarrow> jstr \<Rightarrow> jstr \<Rightarrow> nat \<Rightarrow> rename_found \<Rightarrow> materialized_kind \<Rightarrow> ('m, unit) vault_code" where
  "renameDocument n E old new version found k = seen (\<lambda>s.
     let known = (if k = KText then oldGuid found else oldStructuredGuid found);
         tracked = (if k = KText then wasTracked found else wasStructuredTracked found);
         guid = (case known of Some g \<Rightarrow> g | None \<Rightarrow> newGuid E s);
         begun = (\<lambda>s. if binarySource found = None then s else onRecord (beginCandidate (dict E) new k (Some guid) None) s);
         prepare = (\<lambda>s. ensureKind E new guid k (\<not> tracked) True None (begun (if known = None then usedGuid s else s)));
         i = fst (prepare s)
     in seq (sync (\<lambda>s. snd (prepare s))) (\<lambda>_.
        if tracked then publishMove n E old new found k guid
        else seq (leaveOther n E old new found k) (\<lambda>_. awaited (publishWhenReady i (seen (\<lambda>s.
               if \<not> destroyed s \<and> canPublishLocalPath s new version k i then publishMove n E old new found k guid else ret ()))))))"

definition handleLocalRename :: "nat \<Rightarrow> 'm vault_env \<Rightarrow> jstr \<Rightarrow> jstr \<Rightarrow> ('m, unit) vault_code" where
  "handleLocalRename n E old new = seen (\<lambda>s.
     if destroyed s \<or> \<not> initialSynced s \<or> \<not> tfile E new then ret ()
     else let found = renameFound s old; version = currentPathVersion (bumpPathVersion old s) new + 1
          in seq (sync (\<lambda>s. renameRecord E old new found (removeStructuredDocument old False (removeDocument old False
                     (takeBinaryRenameSource old (bumpPathVersion new (bumpPathVersion old s))))))) (\<lambda>_.
             case documentKind E new of
               Some k \<Rightarrow> seq (holdBinary new found) (\<lambda>_. renameDocument n E old new version found k)
             | None \<Rightarrow>
                 if classify E new = StructuredFile then ret ()
                 else seq (if wasTracked found \<or> wasStructuredTracked found then localTransact n E (ByRename old new) (leaveOps old found) else ret ()) (\<lambda>_.
                   let source = (case binarySource found of Some b \<Rightarrow> b | None \<Rightarrow> old)
                   in if classify E new = BinaryFile then tell (RenamedLocally new source) else tell (DeletedLocally source))))"

definition onLocalRename :: "nat \<Rightarrow> 'm vault_env \<Rightarrow> jstr \<Rightarrow> jstr \<Rightarrow> ('m, unit) vault_code" where
  "onLocalRename n E old new = seen (\<lambda>s.
     if jget (remoteRenamesApplying s) old = Some new then sync (\<lambda>s. s\<lparr>remoteRenamesApplying := jdel (remoteRenamesApplying s) old\<rparr>)
     else if \<not> initialSynced s
     then sync (\<lambda>s. (bumpPathVersion new (bumpPathVersion old s))\<lparr>bootstrapLog := renameEv old new \<lparr>fpath = new\<rparr> (bootstrapLog s)\<rparr>)
     else fork (handleLocalRename n E old new))"

text \<open>\<open>doc.ensureConnected()\<close> and \<open>doc.onDiskChanged()\<close> of a resident document; one that is not resident is made.\<close>

definition modifyDocument :: "'m vault_env \<Rightarrow> jstr \<Rightarrow> materialized_kind \<Rightarrow> 'm vault_sync \<Rightarrow> 'm vault_sync" where
  "modifyDocument E path k s0 =
    (let s = markMobileDocumentUsed E path s0
     in case regGet (regOf k) s path of
          Some i \<Rightarrow> noted (DiskChanged path) (if mobileSuspended s then s else connectDoc i s)
        | None \<Rightarrow> (case listedEntry k s path of
                     Some (guid, k') \<Rightarrow> if guid = [] then s else snd (ensureKind E path guid k' False True None s)
                   | None \<Rightarrow> s))"

definition onLocalModify :: "'m vault_env \<Rightarrow> jstr \<Rightarrow> ('m, unit) vault_code" where
  "onLocalModify E path = seen (\<lambda>s.
     if destroyed s then ret ()
     else if \<not> initialSynced s
     then (if isOwnWrite s path then ret () else sync (\<lambda>s. s\<lparr>bootstrapLog := modifyEv path \<lparr>fpath = path\<rparr> (bootstrapLog s)\<rparr>))
     else case classify E path of
            BinaryFile \<Rightarrow> tell (ChangedLocally path)
          | StructuredFile \<Rightarrow> sync (modifyDocument E path KCanvas)
          | TextFile \<Rightarrow> sync (modifyDocument E path KText)
          | IgnoredFile \<Rightarrow> ret ())"

section \<open>The initial synchronisation\<close>

definition migrateLegacyLocalState :: "'m vault_env \<Rightarrow> 'm vault_sync \<Rightarrow> 'm vault_sync" where
  "migrateLegacyLocalState E s =
    (let note = (\<lambda>path k ident. onRecord (migrateLegacyIdentity (dict E) path k ident));
         s1 = fold (\<lambda>(path, guid). note path KText guid) (indexFiles s) s;
         s2 = fold (\<lambda>(path, m). case m of Meta guid k \<Rightarrow> note path k guid | Malformed \<Rightarrow> id) (indexStructured s) s1;
         s3 = fold (\<lambda>(path, h). if h = [] then id else note path KBinary h) (binaries s) s2;
         prefix = configDir E @ lit ''/'';
         category = (\<lambda>path. if startsWith path prefix then categoryForConfigPath (drop (length prefix) path) else None)
     in if syncConfigEnabled E
        then fold (\<lambda>(path, h). case category path of
                     Some c \<Rightarrow> if h \<noteq> [] \<and> c \<in> set (enabledConfigCategories (configCategories E)) then note path KConfig h else id
                   | None \<Rightarrow> id) (configFiles s) s3
        else s3)"

text \<open>\<open>init\<close>, once the persisted index and record are loaded; the epoch pinned for the index is an argument.\<close>

definition initSync :: "'m vault_env \<Rightarrow> rat \<Rightarrow> 'm vault_sync \<Rightarrow> 'm vault_sync" where
  "initSync E epoch s =
    (if destroyed s then s
     else let s1 = migrateLegacyLocalState E (onRecord (\<lambda>st. fst (adoptIndexEpoch (dict E) epoch st)) s)
          in s1\<lparr>startupFiles := indexFiles s1, startupStructured := filter (\<lambda>(_, m). m \<noteq> Malformed) (indexStructured s1)\<rparr>)"

definition syncPaths :: "'m vault_env \<Rightarrow> 'm vault_sync \<Rightarrow> jstr list" where
  "syncPaths E s = filter (\<lambda>p. classify E p \<in> {TextFile, StructuredFile}) (jkeys (files (fs s)))"

definition fingerprintUnknown :: "'m vault_env \<Rightarrow> jstr \<Rightarrow> ('m, unit) vault_code" where
  "fingerprintUnknown E path = seen (\<lambda>s. case documentKind E path of
     Some k \<Rightarrow> if hasPath (dict E) (localSync s) path then ret ()
               else seq (readFile path) (\<lambda>c. seq hashed (\<lambda>_. sync (beginUntrackedCandidate E path k (sha256 E c))))
   | None \<Rightarrow> ret ())"

text \<open>An entry of the last durable index that is gone is a remote deletion; whether to go on.\<close>

definition deletedSince :: "nat \<Rightarrow> 'm vault_env \<Rightarrow> materialized_kind \<Rightarrow> jstr \<Rightarrow> jstr option \<Rightarrow> ('m, bool) vault_code" where
  "deletedSince n E k path ident = seen (\<lambda>s.
     seq (if listedAs k s path then ret () else awaited (handleRemoteDelete n E path k ident)) (\<lambda>_. seen (\<lambda>s. ret (\<not> destroyed s))))"

definition deletedFile :: "nat \<Rightarrow> 'm vault_env \<Rightarrow> jstr \<Rightarrow> ('m, bool) vault_code" where
  "deletedFile n E path = seen (\<lambda>s. case getPath (dict E) (localSync s) path of
     None \<Rightarrow> ret True
   | Some state \<Rightarrow>
       (case (if candidate state = Some True then None else Option.bind (identity state) truthy, documentKind E path) of
          (Some ident, Some k) \<Rightarrow> deletedSince n E k path (Some ident)
        | (Some ident, None) \<Rightarrow> ret (\<not> destroyed s)
        | (None, _) \<Rightarrow> ret True))"

definition registerEntries :: "'m vault_env \<Rightarrow> jstr list \<Rightarrow> 'm vault_sync \<Rightarrow> 'm vault_sync" where
  "registerEntries E priority s =
    (let put = (\<lambda>path guid k s. if removedPath (bootstrapLog s) path then s
           else enqueueDoc path (queueItem (guid, k)) (path \<in> set priority \<or> \<not> localFileExists s path) (registerFile path guid s));
         s1 = fold (\<lambda>(path, guid). put path guid KText) (indexFiles s) s
     in fold (\<lambda>(path, m). case m of Meta guid k \<Rightarrow> put path guid k | Malformed \<Rightarrow> id) (indexStructured s1) s1)"

definition isTracked :: "'m vault_sync \<Rightarrow> jstr \<Rightarrow> bool" where
  "isTracked s path \<longleftrightarrow> jhas (indexFiles s) path \<or> jhas (indexStructured s) path \<or> jhas (binaries s) path"

definition addLocalFile :: "nat \<Rightarrow> 'm vault_env \<Rightarrow> jstr list \<Rightarrow> jstr \<Rightarrow> ('m, bool) vault_code" where
  "addLocalFile n E priority path = seen (\<lambda>s.
     let version = currentPathVersion s path
     in if \<not> localFileExists s path \<or> isConflictCopy (recovery E) path then ret True
        else if (case renamedFrom (bootstrapLog s) path of Some from \<Rightarrow> isTracked s from | None \<Rightarrow> False) then ret True
        else case documentKind E path of
               None \<Rightarrow> ret True
             | Some k \<Rightarrow>
                 seq (sync (\<lambda>s. if hasPath (dict E) (localSync s) path then s else onRecord (beginCandidate (dict E) path k None None) s)) (\<lambda>_.
                 if listedAs k s path
                 then (case listedEntry k s path of
                         Some (guid, k') \<Rightarrow>
                           seq (sync (\<lambda>s. enqueueDoc path (queueItem (guid, k')) (path \<in> set priority) (registerFile path guid s))) (\<lambda>_. ret True)
                       | None \<Rightarrow> ret True)
                 else seq (publishNew n E path version k) (\<lambda>_. seen (\<lambda>s. ret (\<not> destroyed s)))))"

definition drainPriorities :: "'m vault_sync \<Rightarrow> 'm vault_sync" where
  "drainPriorities s = (if prioritizedPaths s = [] then startBackgroundSync (s\<lparr>highPriorityDrained := True\<rparr>) else s)"

definition runInitialSyncPass :: "nat \<Rightarrow> 'm vault_env \<Rightarrow> ('m, unit) vault_code" where
  "runInitialSyncPass n E = seen (\<lambda>s0.
     let paths = syncPaths E s0
     in seq (each paths (fingerprintUnknown E)) (\<lambda>_.
        seq (sync (\<lambda>s. s\<lparr>bootstrapPrepared := True\<rparr>)) (\<lambda>_. seen (\<lambda>s.
        seq (eachWhile (startupFiles s) (\<lambda>(path, guid). deletedSince n E KText path (Some guid))) (\<lambda>go. if \<not> go then ret () else seen (\<lambda>s.
        seq (eachWhile (startupStructured s) (\<lambda>(path, m). case m of Meta g k \<Rightarrow> deletedSince n E k path (Some g) | Malformed \<Rightarrow> ret True)) (\<lambda>go. if \<not> go then ret () else
        seq (eachWhile paths (deletedFile n E)) (\<lambda>go. if \<not> go then ret () else seen (\<lambda>s.
        let priority = startupPriorityPaths E s
        in seq (sync (registerEntries E priority)) (\<lambda>_.
           seq (eachWhile paths (addLocalFile n E priority)) (\<lambda>go. if \<not> go then ret ()
           else sync (\<lambda>s. startBackgroundSync (drainPriorities (pumpDocQueue E s))))))))))))))"

fun replayStep :: "nat \<Rightarrow> 'm vault_env \<Rightarrow> step \<Rightarrow> ('m, unit) vault_code" where
  "replayStep n E (Delete path) = applyLocalDeletion n E path"
| "replayStep n E (Rename from file) = seen (\<lambda>s.
     if isTracked s from then awaited (handleLocalRename n E from (fpath file)) else awaited (handleLocalCreate n E (fpath file)))"
| "replayStep n E (Create file) = awaited (handleLocalCreate n E (fpath file))"
| "replayStep n E (Modify file) = onLocalModify E (fpath file)"

definition replayBootstrapVaultEvents :: "nat \<Rightarrow> 'm vault_env \<Rightarrow> ('m, unit) vault_code" where
  "replayBootstrapVaultEvents n E = seq (sync (\<lambda>s. s\<lparr>initialSynced := True\<rparr>)) (\<lambda>_. seen (\<lambda>s.
     seq (eachWhile (plan (bootstrapLog s)) (\<lambda>st. seen (\<lambda>s.
            if destroyed s then ret False else seq (settled (replayStep n E st)) (\<lambda>_. ret True)))) (\<lambda>_.
     sync (\<lambda>s. s\<lparr>bootstrapLog := emptyLog\<rparr>))))"

definition initialSync :: "nat \<Rightarrow> 'm vault_env \<Rightarrow> ('m, unit) vault_code" where
  "initialSync n E = seq (awaited (runInitialSyncPass n E)) (\<lambda>_. seen (\<lambda>s.
     if destroyed s then ret ()
     else seq (awaited (runInitialSyncPass n E)) (\<lambda>_. seq (awaited (replayBootstrapVaultEvents n E)) (\<lambda>_.
          sync (\<lambda>s. startBackgroundSync (s\<lparr>initialSynced := True\<rparr>))))))"

definition runInitialSync :: "nat \<Rightarrow> 'm vault_env \<Rightarrow> ('m, unit) vault_code" where
  "runInitialSync n E = seen (\<lambda>s.
     if initialSynced s \<or> initialSyncRunning s \<or> destroyed s then ret ()
     else seq (sync (\<lambda>s. s\<lparr>initialSyncRunning := True\<rparr>)) (\<lambda>_. seq (settled (initialSync n E)) (\<lambda>r.
          sync (\<lambda>s. s\<lparr>initialSyncRunning := False, initialRetries := initialRetries s + (if r = None \<and> \<not> destroyed s then 1 else 0)\<rparr>))))"

text \<open>Canvases and bases that used to be stored as attachments move to the structured index.\<close>

definition migrateConfigBinaries :: "'m vault_env \<Rightarrow> 'm vault_sync \<Rightarrow> 'm vault_sync" where
  "migrateConfigBinaries E s =
    (let prefix = rev (dropWhile (\<lambda>u. u = 47) (rev (configDir E))) @ lit ''/'';
         own = (\<lambda>rel. rel = lit ''plugins/realtime'' \<or> startsWith rel (lit ''plugins/realtime/''));
         cutOver = (\<lambda>(path, h) s.
           if \<not> isConfigPath E path then s
           else let rel = drop (length prefix) path;
                    s1 = (if h \<noteq> [] \<and> \<not> own rel \<and> categoryForConfigPath rel \<noteq> None \<and> \<not> jhas (configFiles s) path
                          then s\<lparr>configFiles := jset (configFiles s) path h\<rparr> else s)
                in onRecord (removePath (dict E) path) (s1\<lparr>binaries := jdel (binaries s1) path\<rparr>))
     in fold cutOver (binaries s) s)"

definition structuredKindForPath :: "'m vault_env \<Rightarrow> jstr \<Rightarrow> materialized_kind option" where
  "structuredKindForPath E path =
    (if \<not> list_ex (\<lambda>u. u = 46) path then None
     else let ext = rev (takeWhile (\<lambda>u. u \<noteq> 46) (rev path))
          in if 47 \<in> set ext then None
             else case structuredKindForExtension ext of
                    Some KCanvas \<Rightarrow> if syncCanvases E then Some KCanvas else None
                  | Some KBase \<Rightarrow> if syncBases E then Some KBase else None
                  | _ \<Rightarrow> None)"

definition promoteBinary :: "nat \<Rightarrow> 'm vault_env \<Rightarrow> jstr \<Rightarrow> ('m, bool) vault_code" where
  "promoteBinary n E path = seen (\<lambda>s. case structuredKindForPath E path of
     None \<Rightarrow> ret True
   | Some k \<Rightarrow>
       if jhas (indexStructured s) path then ret True
       else seq (outside (\<lambda>s. (Some (), s))) (\<lambda>_. seen (\<lambda>s.
         if destroyed s then ret False
         else if \<not> localFileExists s path then ret True
         else let guid = newGuid E s
              in seq (sync usedGuid) (\<lambda>_. seq (localTransact n E (ByMigration path) [SetStructured path (Meta guid k)]) (\<lambda>_.
                 seq (sync (\<lambda>s. snd (ensureStructuredDocument E path guid k True True None (registerFile path guid s)))) (\<lambda>_.
                 seq (sync (\<lambda>s. s\<lparr>binaries := jdel (binaries s) path\<rparr>)) (\<lambda>_. ret True)))))))"

definition reconcileBinariesAndMigrateStructured :: "nat \<Rightarrow> 'm vault_env \<Rightarrow> ('m, unit) vault_code" where
  "reconcileBinariesAndMigrateStructured n E =
    seq (sync (migrateConfigBinaries E)) (\<lambda>_. seq (outside (\<lambda>s. (Some (), s))) (\<lambda>_. seen (\<lambda>s.
    if destroyed s then ret () else seq (eachWhile (jkeys (binaries s)) (promoteBinary n E)) (\<lambda>_. ret ()))))"

section \<open>The working set of mobile devices\<close>

definition hibernates :: "'m vault_sync \<Rightarrow> nat \<Rightarrow> bool" where
  "hibernates s i \<longleftrightarrow> (let d = docs s ! i in \<not> rDestroyed d \<and> rReady d \<and> \<not> rLocalChanges d \<and> rHibernates d)"

definition prepareForHibernation :: "nat \<Rightarrow> ('m, bool) vault_code" where
  "prepareForHibernation i = seen (\<lambda>s.
     if \<not> hibernates s i then ret False
     else seq (outside (\<lambda>s. (Some (), s))) (\<lambda>_. seen (\<lambda>s. if hibernates s i then seq (sync (noted (Idle i))) (\<lambda>_. ret True) else ret False)))"

definition residentIn :: "'m vault_sync \<Rightarrow> jstr \<Rightarrow> nat \<Rightarrow> registry option" where
  "residentIn s path i = (if jget (documents s) path = Some i then Some Notes else if jget (structuredDocuments s) path = Some i then Some Structured else None)"

definition evict :: "jstr \<Rightarrow> nat \<Rightarrow> 'm vault_sync \<Rightarrow> 'm vault_sync" where
  "evict path i s = (case residentIn s path i of Some r \<Rightarrow> onDoc i (destroyDoc False) (regDel r path s) | None \<Rightarrow> s)"

text \<open>\<open>count\<close> residents are left, \<open>target\<close> may stay; the result is whether to try again later.\<close>

fun trimLoop :: "'m vault_env \<Rightarrow> nat \<Rightarrow> (jstr \<times> nat) list \<Rightarrow> nat \<Rightarrow> bool \<Rightarrow> ('m, bool) vault_code" where
  "trimLoop E target [] count retry = ret (retry \<or> count > target)"
| "trimLoop E target ((path, i) # rest) count retry = seen (\<lambda>s.
    if count \<le> target then ret retry
    else if \<not> documentMatchesIndex s path i then trimLoop E target rest count retry
    else seq (awaited (prepareForHibernation i)) (\<lambda>idle.
      if \<not> idle then trimLoop E target rest count True
      else seen (\<lambda>s.
        if destroyed s \<or> path \<in> set (startupPriorityPaths E s) \<or> \<not> documentMatchesIndex s path i \<or> residentIn s path i = None then trimLoop E target rest count retry
        else seq (sync (noted (Evict i (documentMatchesIndex s path i)))) (\<lambda>_. seq (sync (evict path i)) (\<lambda>_. trimLoop E target rest (count - 1) retry)))))"

definition lastUsed :: "'m vault_sync \<Rightarrow> jstr \<Rightarrow> int" where
  "lastUsed s path = (case jget (mobileLastUsedAt s) path of Some t \<Rightarrow> t | None \<Rightarrow> 0)"

definition trimMobileWorkingSet :: "'m vault_env \<Rightarrow> ('m, unit) vault_code" where
  "trimMobileWorkingSet E = seen (\<lambda>s.
     if \<not> mobile E \<or> \<not> evicts E \<or> destroyed s then ret ()
     else if mobileTrimRunning s then sync (scheduleMobileWorkingSetTrim E)
     else let retained = startupPriorityPaths E s;
              entries = documents s @ structuredDocuments s;
              target = max (maxResident E) (length (filter (\<lambda>(path, _). path \<in> set retained) entries));
              candidates = sort_key (\<lambda>(path, _). lastUsed s path) (filter (\<lambda>(path, _). path \<notin> set retained) entries)
          in seq (sync (\<lambda>s. s\<lparr>mobileTrimRunning := True\<rparr>)) (\<lambda>_. seq (settled (trimLoop E target candidates (length entries) False)) (\<lambda>r.
             seq (sync (\<lambda>s. s\<lparr>mobileTrimRunning := False\<rparr>)) (\<lambda>_.
             case r of None \<Rightarrow> throw | Some retry \<Rightarrow> if retry then sync (scheduleMobileWorkingSetTrim E) else ret ()))))"

section \<open>The trash\<close>

definition recordTrash :: "nat \<Rightarrow> 'm vault_env \<Rightarrow> (int \<Rightarrow> trash_value) \<Rightarrow> ('m, unit) vault_code" where
  "recordTrash n E entry = seen (\<lambda>s.
     if destroyed s then ret ()
     else seq (sync usedGuid) (\<lambda>_. localTransact n E ByTrash [SetTrash (newGuid E s) (entry (clock s))]))"

definition listTrash :: "'m vault_sync \<Rightarrow> (jstr \<times> trash_value) list" where
  "listTrash s = sort_key (\<lambda>(_, v). - deletedAt v) (trash s)"

definition pathInUse :: "'m vault_sync \<Rightarrow> jstr \<Rightarrow> bool" where
  "pathInUse s path \<longleftrightarrow> isTracked s path \<or> getAbstractFileByPath (fs s) path"

definition restoreDocument :: "nat \<Rightarrow> 'm vault_env \<Rightarrow> jstr \<Rightarrow> jstr \<Rightarrow> materialized_kind \<Rightarrow> jstr option \<Rightarrow> ('m, unit) vault_code" where
  "restoreDocument n E entryId path k optGuid = seen (\<lambda>s.
     if pathInUse s path then throw
     else case truthy optGuid of
            None \<Rightarrow> throw
          | Some guid \<Rightarrow> seq (localTransact n E (ByRestore path) [putEntry k path guid]) (\<lambda>_.
                seq (sync (\<lambda>s. snd (ensureKind E path guid k False True None (registerFile path guid s)))) (\<lambda>_.
                localTransact n E ByTrash [DelTrash entryId])))"

definition restoreBinary :: "nat \<Rightarrow> 'm vault_env \<Rightarrow> jstr \<Rightarrow> jstr \<Rightarrow> jstr option \<Rightarrow> ('m, unit) vault_code" where
  "restoreBinary n E entryId path optHash = seen (\<lambda>s.
     if pathInUse s path then throw
     else case truthy optHash of
            None \<Rightarrow> throw
          | Some h \<Rightarrow> seq (outside (\<lambda>s. if blobKept E h then (Some True, s\<lparr>binaries := jset (binaries s) path h\<rparr>) else (Some False, s))) (\<lambda>restored.
                seq (localTransact n E ByTrash [DelTrash entryId]) (\<lambda>_. if restored then ret () else throw)))"

definition restoreTrashEntry :: "nat \<Rightarrow> 'm vault_env \<Rightarrow> jstr \<Rightarrow> jstr option \<Rightarrow> ('m, unit) vault_code" where
  "restoreTrashEntry n E entryId target = seen (\<lambda>s.
     if destroyed s then ret ()
     else case jget (trash s) entryId of
            None \<Rightarrow> throw
          | Some v \<Rightarrow>
              let wanted = trim (case target of Some t \<Rightarrow> t | None \<Rightarrow> []); path = (if wanted = [] then tPath v else wanted)
              in case tKind v of
                   TPluginDb \<Rightarrow>
                     (case tOwner v of
                        None \<Rightarrow> throw
                      | Some (plugin, name) \<Rightarrow> seq (outside (\<lambda>s. (Some (), s))) (\<lambda>_.
                          if sqlLive E plugin name then throw
                          else seq (outside (\<lambda>s. (Some (), s))) (\<lambda>_. localTransact n E ByTrash [DelTrash entryId])))
                 | TBinary \<Rightarrow> restoreBinary n E entryId path (tHash v)
                 | TText \<Rightarrow> restoreDocument n E entryId path KText (tGuid v)
                 | TCanvas \<Rightarrow> restoreDocument n E entryId path KCanvas (tGuid v)
                 | TBase \<Rightarrow> restoreDocument n E entryId path KBase (tGuid v))"

definition permanentlyDeleteTrashEntry :: "nat \<Rightarrow> 'm vault_env \<Rightarrow> jstr \<Rightarrow> ('m, unit) vault_code" where
  "permanentlyDeleteTrashEntry n E entryId = seen (\<lambda>s.
     if destroyed s then ret ()
     else case jget (trash s) entryId of
            None \<Rightarrow> ret ()
          | Some v \<Rightarrow>
              let purges = (tKind v = TBinary \<and> truthy (tHash v) \<noteq> None \<and> \<not> list_ex (\<lambda>(_, h). Some h = tHash v) (binaries s) \<or> tKind v = TPluginDb \<and> tOwner v \<noteq> None)
              in seq (if purges then seq (settled (outside (\<lambda>s. (Some (), s)))) (\<lambda>_. ret ()) else ret ()) (\<lambda>_.
                 localTransact n E ByTrash [DelTrash entryId]))"

section \<open>Connections\<close>

text \<open>The provider's handshake may fail or be superseded: afterwards its status is what the environment says.\<close>

definition connectIndex :: "'m vault_env \<Rightarrow> ('m, unit) vault_code" where
  "connectIndex E = seq (settled (outside (\<lambda>s. (Some (), s)))) (\<lambda>ok. seen (\<lambda>s.
     case ok of
       None \<Rightarrow> sync (\<lambda>s. if destroyed s then s else s\<lparr>indexStatus := Offline\<rparr>)
     | Some _ \<Rightarrow> if destroyed s \<or> mobileSuspended s then ret ()
                 else seq (sync (scheduleMobileWorkingSetTrim E)) (\<lambda>_. seq (settled (outside (\<lambda>s. (Some (), s)))) (\<lambda>connected.
                   if connected = None then sync (\<lambda>s. if destroyed s then s else s\<lparr>indexStatus := Offline\<rparr>) else ret ()))))"

definition catchUp :: "'m vault_env \<Rightarrow> 'm vault_sync \<Rightarrow> 'm vault_sync" where
  "catchUp E s = queueMobileReconnects E (noted (Told (Paused False)) (s\<lparr>mobileCatchUpPending := False\<rparr>))"

definition handleIndexStatus :: "nat \<Rightarrow> 'm vault_env \<Rightarrow> sync_status \<Rightarrow> ('m, unit) vault_code" where
  "handleIndexStatus n E status = seen (\<lambda>s.
     if mobileSuspended s then ret ()
     else case status of
            Connected \<Rightarrow> seq (fork (runInitialSync n E)) (\<lambda>_.
              sync (\<lambda>s. if mobile E \<and> mobileCatchUpPending s \<and> \<not> mobileResumeInProgress s then catchUp E s else s))
          | Connecting \<Rightarrow> ret ()
          | _ \<Rightarrow> sync (\<lambda>s. if mobile E \<and> initialSynced s then s\<lparr>mobileCatchUpPending := True\<rparr> else s))"

text \<open>\<open>reconnectAll\<close>: documents wait for the compatibility gate.\<close>

definition reconnectDocuments :: "'m vault_env \<Rightarrow> ('m, unit) vault_code" where
  "reconnectDocuments E = seq (settled (outside (\<lambda>s. (Some (), s)))) (\<lambda>ok.
     if ok = None then ret ()
     else sync (\<lambda>s. if destroyed s \<or> mobileSuspended s then s else pumpDocQueue E (fold connectDoc (allDocuments s) s)))"

definition reconnectAll :: "'m vault_env \<Rightarrow> ('m, unit) vault_code" where
  "reconnectAll E = seen (\<lambda>s.
     let down = (indexStatus s = Offline \<or> indexStatus s = Erroneous)
     in if destroyed s \<or> mobileSuspended s then ret ()
        else if mobile E \<and> indexStatus s \<noteq> Connected
        then (if down then seq (sync (\<lambda>s. if initialSynced s then s\<lparr>mobileCatchUpPending := True\<rparr> else s)) (\<lambda>_. fork (connectIndex E)) else ret ())
        else seq (if down then fork (connectIndex E) else ret ()) (\<lambda>_. if mobile E then ret () else fork (reconnectDocuments E)))"

definition resumeFromBackground :: "'m vault_env \<Rightarrow> ('m, unit) vault_code" where
  "resumeFromBackground E = seen (\<lambda>s.
     if destroyed s then ret ()
     else if \<not> mobile E then reconnectAll E
     else seq (sync (\<lambda>s. s\<lparr>mobileSuspended := False, mobileResumeInProgress := True\<rparr>)) (\<lambda>_.
          seq (if indexStatus s \<noteq> Connected then awaited (connectIndex E) else ret ()) (\<lambda>_.
          sync (\<lambda>t0. let t = t0\<lparr>mobileResumeInProgress := False\<rparr>; same = (docConnectionGeneration t = docConnectionGeneration s)
                     in if destroyed t \<or> mobileSuspended t \<or> \<not> same \<or> indexStatus t \<noteq> Connected
                        then (if \<not> destroyed t \<and> \<not> mobileSuspended t \<and> same then t\<lparr>mobileCatchUpPending := True\<rparr> else t)
                        else catchUp E t))))"

section \<open>Runs\<close>

text \<open>
  The methods others call, the timers that fire, and what the environment does: the user's files, the documents' own lives (a document that is ready stays so),
  the device's record, attachments, settings files, the open and recent files, and time. The migration of the attachments begins some time after it was due.
\<close>

datatype 'm vault_entry =
    Init rat
  | Status sync_status
  | RemoteChange "index_op list"
  | Created jstr
  | Deleted jstr
  | Renamed jstr jstr
  | Modified jstr
  | SlotFree nat
  | DeleteRetry
  | RenameTimer
  | InitialRetry
  | TrimTimer
  | ReloadWindow jstr jstr
  | Migration
  | Suspend
  | Resume
  | Reconnect
  | Prioritize "jstr option" "jstr option"
  | Invalidated jstr
  | Rebuild jstr bool
  | EnsureDocument jstr
  | Restore jstr "jstr option"
  | Purge jstr
  | AddTrash "int \<Rightarrow> trash_value"
  | DestroySync
  | OwnWrites "(jstr, nat) jmap"
  | UserWrites jstr jstr
  | UserDeletes jstr
  | UserMoves jstr jstr
  | DocChanges nat jstr bool bool sync_status
  | DocReady nat
  | RecordChanges "'m sync_state"
  | BinariesChange "(jstr, jstr) jmap" "jstr list"
  | ConfigChange "(jstr, jstr) jmap"
  | OpenChange "jstr list" "jstr list"
  | StatusChange sync_status
  | Ticks nat

fun body :: "nat \<Rightarrow> 'm vault_env \<Rightarrow> 'm vault_entry \<Rightarrow> ('m, unit) vault_code" where
  "body n E (Init epoch) = sync (initSync E epoch)"
| "body n E (Status st) = handleIndexStatus n E st"
| "body n E (RemoteChange ops) = indexTransact n E ops"
| "body n E (Created path) = onLocalCreate n E path"
| "body n E (Deleted path) = onLocalDelete n E path"
| "body n E (Renamed old new) = onLocalRename n E old new"
| "body n E (Modified path) = onLocalModify E path"
| "body n E (SlotFree k) = sync (slotFree E k)"
| "body n E DeleteRetry = seen (\<lambda>s. case deleteRetries s of
     [] \<Rightarrow> ret ()
   | (path, k, ident) # rest \<Rightarrow> seq (sync (\<lambda>s. s\<lparr>deleteRetries := rest\<rparr>)) (\<lambda>_. handleRemoteDelete n E path k ident))"
| "body n E RenameTimer = sync (\<lambda>s. case renameTimers s of
     [] \<Rightarrow> s
   | (from, target) # rest \<Rightarrow> let s1 = s\<lparr>renameTimers := rest\<rparr>
       in if jget (remoteRenamesApplying s1) from = Some target then s1\<lparr>remoteRenamesApplying := jdel (remoteRenamesApplying s1) from\<rparr> else s1)"
| "body n E InitialRetry = seen (\<lambda>s. if initialRetries s = 0 then ret ()
     else seq (sync (\<lambda>s. s\<lparr>initialRetries := initialRetries s - 1\<rparr>)) (\<lambda>_. runInitialSync n E))"
| "body n E TrimTimer = seen (\<lambda>s. if \<not> mobileTrimTimer s then ret ()
     else seq (sync (\<lambda>s. s\<lparr>mobileTrimTimer := False\<rparr>)) (\<lambda>_. trimMobileWorkingSet E))"
| "body n E (ReloadWindow path doc) = sync (reloadWindowEnds E path doc)"
| "body n E Migration = seen (\<lambda>s. if backgroundSyncStarted s then reconcileBinariesAndMigrateStructured n E else ret ())"
| "body n E Suspend = sync (suspendForBackground E)"
| "body n E Resume = resumeFromBackground E"
| "body n E Reconnect = reconnectAll E"
| "body n E (Prioritize path guid) = sync (prioritizeItem E path guid)"
| "body n E (Invalidated doc) = sync (onDocumentInvalidated E doc)"
| "body n E (Rebuild doc rewound) = sync (rebuildDocumentForEpoch E doc rewound)"
| "body n E (EnsureDocument path) = sync (\<lambda>s. snd (ensureDocumentForPath E path s))"
| "body n E (Restore entry target) = restoreTrashEntry n E entry target"
| "body n E (Purge entry) = permanentlyDeleteTrashEntry n E entry"
| "body n E (AddTrash value) = recordTrash n E value"
| "body n E DestroySync = sync destroy"
| "body n E (OwnWrites m) = sync (\<lambda>s. s\<lparr>ownWrites := m\<rparr>)"
| "body n E (UserWrites path c) = sync (\<lambda>s. s\<lparr>fs := (fs s)\<lparr>files := jset (files (fs s)) path c\<rparr>\<rparr>)"
| "body n E (UserDeletes path) = sync (\<lambda>s. s\<lparr>fs := (fs s)\<lparr>files := jdel (files (fs s)) path\<rparr>\<rparr>)"
| "body n E (UserMoves from target) = sync (\<lambda>s. case jget (files (fs s)) from of
     None \<Rightarrow> s | Some c \<Rightarrow> s\<lparr>fs := (fs s)\<lparr>files := jset (jdel (files (fs s)) from) target c\<rparr>\<rparr>)"
| "body n E (DocChanges i c local hib st) = sync (onDoc i (\<lambda>d. if rDestroyed d then d
     else d\<lparr>rContent := c, rLocalChanges := local, rHibernates := hib, rStatus := st\<rparr>))"
| "body n E (DocReady i) = sync (onDoc i (\<lambda>d. d\<lparr>rReady := True\<rparr>))"
| "body n E (RecordChanges st) = sync (\<lambda>s. s\<lparr>localSync := st\<rparr>)"
| "body n E (BinariesChange m w) = sync (\<lambda>s. s\<lparr>binaries := m, binaryWriting := w\<rparr>)"
| "body n E (ConfigChange m) = sync (\<lambda>s. s\<lparr>configFiles := m\<rparr>)"
| "body n E (OpenChange ps qs) = sync (\<lambda>s. s\<lparr>openPaths := ps, recentPaths := qs\<rparr>)"
| "body n E (StatusChange st) = sync (\<lambda>s. s\<lparr>indexStatus := st\<rparr>)"
| "body n E (Ticks k) = sync (\<lambda>s. s\<lparr>clock := clock s + int k\<rparr>)"

end
