(* ===== verification/Vault_Safety.thy ===== *)
theory Vault_Safety
  imports Vault_Sync
begin

text \<open>
  What every run of theory \<open>Vault_Sync\<close> guarantees: each thing the class does to the user's files and to the shared index is justified by what it did before,
  and its registry of documents stays sound. The contract is the locale \<open>traced\<close> of theory \<open>Async_Tasks\<close>, interpreted for this class.
\<close>

section \<open>What the class does\<close>

text \<open>
  A remote delete removes a file only after each version it found, in memory and on disk, was acknowledged for the deleted document, copied, or
  only lagged the document. A rename is applied when the document is listed at the target and no file is there. A new file is published when its document is
  ready, and replaces nothing. No transaction of this device leaves a document neither in the index nor in the trash, except a rename for its two paths and the
  migration of an attachment for its path. A document is evicted when it was found idle and the index lists it.
\<close>

definition settledVersion :: "'m vault_env \<Rightarrow> vault_action set \<Rightarrow> jstr \<Rightarrow> jstr option \<Rightarrow> jstr \<Rightarrow> bool" where
  "settledVersion E earlier path ident h \<longleftrightarrow>
    Acknowledged path ident h \<in> earlier \<or> (\<exists>c. h = sha256 E c \<and> (Kept path c \<in> earlier \<or> Lags path c \<in> earlier))"

definition orphansOk :: "commit_why \<Rightarrow> vault_action set \<Rightarrow> (jstr \<times> jstr) list \<Rightarrow> bool" where
  "orphansOk why earlier lost \<longleftrightarrow>
    (case why of
       ByRename old new \<Rightarrow> fst ` set lost \<subseteq> {old, new}
     | ByMigration path \<Rightarrow> fst ` set lost \<subseteq> {path}
     | ByPublish path i \<Rightarrow> lost = [] \<and> Readied i \<in> earlier
     | _ \<Rightarrow> lost = [])"

fun vaultOk :: "'m vault_env \<Rightarrow> vault_action list \<Rightarrow> vault_action \<Rightarrow> bool" where
  "vaultOk E earlier (Checked path ident hs resident disk) \<longleftrightarrow>
     (\<forall>h \<in> set hs. settledVersion E (set earlier) path ident h)
     \<and> (\<forall>c. resident = Some c \<or> disk = Some c \<longrightarrow> sha256 E c \<in> set hs)"
| "vaultOk E earlier (DeleteFile path ident again) \<longleftrightarrow> (\<exists>i hs r d. Checked path i hs r d \<in> set earlier \<and> (again \<or> i = ident))"
| "vaultOk E earlier (MoveFile from target listed exists) \<longleftrightarrow> listed = Some target \<and> \<not> exists \<and> from \<noteq> target"
| "vaultOk E earlier (Commit why lost) \<longleftrightarrow> orphansOk why (set earlier) lost"
| "vaultOk E earlier (Evict i listed) \<longleftrightarrow> listed \<and> Idle i \<in> set earlier"
| "vaultOk E earlier _ \<longleftrightarrow> True"

definition vaultInv :: "'m vault_env \<Rightarrow> 'm vault_sync \<Rightarrow> bool" where
  "vaultInv E s \<longleftrightarrow> registryOk E s \<and> justified (vaultOk E) [] (trace s)
     \<and> (\<forall>p \<in> set (remoteDeletePreserved s). \<exists>i hs r d. Checked p i hs r d \<in> set (trace s))"

lemma free_ok: "free a \<Longrightarrow> vaultOk E tr a"
  by (cases a) simp_all

lemma justified_free: "list_all free as \<Longrightarrow> justified (vaultOk E) tr as"
  by (induction as arbitrary: tr) (simp_all add: free_ok)

lemma calm_inv:
  assumes "calm E s s'" "vaultInv E s"
  shows "vaultInv E s' \<and> set (trace s) \<subseteq> set (trace s')"
proof -
  obtain as where as: "trace s' = trace s @ as" "list_all free as" using assms(1) unfolding calm_def by blast
  have "justified (vaultOk E) [] (trace s')" using assms(2) as by (simp add: vaultInv_def justified_append justified_free)
  moreover have "\<exists>i hs r d. Checked p i hs r d \<in> set (trace s')" if "p \<in> set (remoteDeletePreserved s')" for p
    using assms that as unfolding calm_def vaultInv_def by (metis (no_types, lifting) Un_iff set_append subsetD)
  ultimately show ?thesis using assms as unfolding vaultInv_def by (simp add: calm_def)
qed

lemma vaultInv_calls: "vaultInv E s \<Longrightarrow> vaultInv E (s\<lparr>calls := k\<rparr>)"
  by (rule conjunct1 [OF calm_inv]) (rule calm_core, simp_all add: core_def)

interpretation vs: traced "vaultInv E" for E
  by unfold_locales (rule vaultInv_calls)

lemma keeps_calm: "(\<And>s. calm E s (f s)) \<Longrightarrow> vs.keeps E A (sync f) (\<lambda>_. {})"
  by (rule vs.keeps_sync) (use calm_inv in fastforce)

lemma keeps_fields:
  assumes "\<And>s. core (f s) = core s \<and> trace (f s) = trace s \<and> remoteDeletePreserved (f s) = remoteDeletePreserved s"
  shows "vs.keeps E A (sync f) (\<lambda>_. {})"
  by (rule keeps_calm, rule calm_core) (simp_all add: assms)

lemma keeps_effect: "(\<And>s. calm E s (snd (effect s))) \<Longrightarrow> vs.keeps E A (outside effect) (\<lambda>_. {})"
  by (rule vs.keeps_outside) (metis calm_inv empty_subsetI snd_conv)

text \<open>An action that may be taken given the facts \<open>A\<close>.\<close>

lemma vaultInv_noted:
  assumes "vaultInv E s" "vaultOk E (trace s) a"
  shows "vaultInv E (noted a s)"
proof -
  have "core (noted a s) = core s" by (simp add: noted_def core_def)
  from registryOk_core [OF this, of E] have "registryOk E (noted a s)" using assms by (simp add: vaultInv_def)
  moreover have "\<exists>i hs r d. Checked p i hs r d \<in> set (trace (noted a s))" if "p \<in> set (remoteDeletePreserved s)" for p
    using assms(1) that unfolding vaultInv_def noted_def by fastforce
  ultimately show ?thesis using assms by (simp add: vaultInv_def justified_append) (simp add: noted_def justified_append)
qed

lemma keeps_vaultNoted:
  assumes "\<And>tr. A \<subseteq> set tr \<Longrightarrow> vaultOk E tr a"
  shows "vs.keeps E A (sync (noted a)) (\<lambda>_. {a})"
proof (rule vs.keeps_sync)
  fix s
  assume s: "vaultInv E s" "A \<subseteq> set (trace s)"
  from vaultInv_noted [OF s(1) assms [OF s(2)]]
  show "vaultInv E (noted a s) \<and> set (trace s) \<union> {a} \<subseteq> set (trace (noted a s))" by (auto simp: noted_def)
qed

lemma keeps_pair: "(\<And>a b. x = (a, b) \<Longrightarrow> vs.keeps E A (m a b) B) \<Longrightarrow> vs.keeps E A (case x of (a, b) \<Rightarrow> m a b) B"
  by (cases x) simp

lemma keeps_weaken: "vs.keeps E A m B \<Longrightarrow> vs.keeps E A m (\<lambda>_. {})"
  unfolding vs.keeps_def by (metis Un_empty_right Un_upper1 vs.keepsRun_mono)

section \<open>Remote deletes\<close>

lemmas vaultKeeps = vs.keeps_rules keeps_pair

lemma keeps_awaited: "vs.keeps E A m B \<Longrightarrow> vs.keeps E A (awaited m) B"
  unfolding awaited_def
  by (rule vs.keeps_seq, assumption, rule vs.keeps_then [OF vs.keeps_waitFor]) (rule vs.keeps_retFacts, simp)

lemma keeps_quietCalls:
  "vs.keeps E A hashed (\<lambda>_. {})" "vs.keeps E A (readFile path) (\<lambda>_. {})" "vs.keeps E A (parentFolderOf path) (\<lambda>_. {})" "vs.keeps E A (vaultRename p q) (\<lambda>_. {})"
  "vs.keeps E A (tell c) (\<lambda>_. {})" "vs.keeps E A (outside (\<lambda>s. (Some (), s))) (\<lambda>_. {})"
proof -
  show "vs.keeps E A hashed (\<lambda>_. {})" "vs.keeps E A (readFile path) (\<lambda>_. {})" "vs.keeps E A (outside (\<lambda>s. (Some (), s))) (\<lambda>_. {})"
    by (simp_all add: hashed_def readFile_def vs.keeps_idle)
  show "vs.keeps E A (parentFolderOf path) (\<lambda>_. {})" unfolding parentFolderOf_def
    by (intro vaultKeeps keeps_effect) (rule calm_core; simp add: core_def)
  show "vs.keeps E A (vaultRename p q) (\<lambda>_. {})" unfolding vaultRename_def
    by (rule keeps_effect, rule calm_core) (simp_all add: core_def split: option.split)
  show "vs.keeps E A (tell c) (\<lambda>_. {})" unfolding tell_def by (rule keeps_calm, rule calm_noted) simp
qed

lemmas vaultCalls = keeps_quietCalls keeps_awaited

lemma keeps_preserveCopy: "vs.keeps E A (preserveCopy E' path c) (\<lambda>_. {Kept path c})"
  unfolding preserveCopy_def Let_def
proof (rule vs.keeps_seen, rule vs.keeps_then [OF keeps_quietCalls(3)], rule vs.keeps_then)
  show "vs.keeps E A (outside (\<lambda>s. case createFile (fs s) d c of Inl _ \<Rightarrow> (None, s) | Inr v \<Rightarrow> (Some (), s\<lparr>fs := v\<rparr>))) (\<lambda>_. {})" for d
    by (rule keeps_effect, rule calm_core) (simp_all add: core_def split: sum.split)
  show "vs.keeps E A (seq (sync (noted (Kept path c))) (\<lambda>_. ret d)) (\<lambda>_. {Kept path c})" for d
    by (rule vs.keeps_seq [OF keeps_vaultNoted]) (simp, rule vs.keeps_retFacts, simp)
qed

text \<open>What the two checks establish about the versions they let pass.\<close>

lemmas vaultWhen = vs.keepsWhen_then vs.keepsWhen_seen vs.keepsWhen_if vs.keepsWhen_some vs.keepsWhen_pair

lemma when_checkResident:
  "vs.keepsWhen E0 A (checkResident E path k hs resident) (\<lambda>r. \<forall>c. r = Some None \<longrightarrow> map_option fst resident = Some c \<longrightarrow> sha256 E c \<in> set hs) (\<lambda>_. {})"
proof -
  have "vs.keepsWhen E0 A (seq hashed (\<lambda>_. seen (\<lambda>s. if aborted k path s then ret None else ret (Some (if sha256 E c \<in> set hs then None else Some c)))))
      (\<lambda>r. \<forall>c'. r = Some None \<longrightarrow> c = c' \<longrightarrow> sha256 E c' \<in> set hs) (\<lambda>_. {})" for c
    by (intro vaultWhen vaultCalls) (auto intro!: vs.keepsWhen_ret split: if_splits)
  moreover have "vs.keepsWhen E0 A (ret (Some None)) (\<lambda>r. True) (\<lambda>_. {})" by (intro vs.keepsWhen_ret) simp_all
  ultimately show ?thesis by (cases resident) (simp_all add: checkResident_def split_beta)
qed

definition passes :: "'m vault_env \<Rightarrow> jstr list \<Rightarrow> (jstr option \<times> bool \<times> bool) option \<Rightarrow> bool" where
  "passes E hs r \<longleftrightarrow> (\<forall>disk lags c. r = Some (disk, False, lags) \<longrightarrow> (lags \<longrightarrow> disk \<noteq> None) \<and> (disk = Some c \<longrightarrow> lags \<or> sha256 E c \<in> set hs)) \<and> (\<forall>lags. r \<noteq> Some (None, True, lags))"

abbreviation lagging :: "jstr \<Rightarrow> (jstr option \<times> bool \<times> bool) option \<Rightarrow> vault_action set" where
  "lagging path r \<equiv> (case r of Some (Some disk, _, True) \<Rightarrow> {Lags path disk} | _ \<Rightarrow> {})"

lemma when_checkDisk: "vs.keepsWhen E0 A (checkDisk E path k ident hs resident) (passes E hs) (lagging path)"
proof -
  have lag: "vs.keepsWhen E0 A (seq (sync (noted (Lags path d))) (\<lambda>_. ret (Some (Some d, False, True)))) (passes E hs) (lagging path)" for d A
    by (rule vs.keepsWhen_seq [OF keeps_vaultNoted]) (simp, rule vs.keepsWhen_ret, simp_all add: passes_def)
  have plain: "vs.keepsWhen E0 A (ret r) (passes E hs) (lagging path)" if "passes E hs r" "lagging path r = {}" for r A
    using that by (intro vs.keepsWhen_ret) simp_all
  show ?thesis unfolding checkDisk_def
    by (intro vaultWhen vaultCalls lag plain) (auto simp: passes_def)
qed


definition checkedFor :: "jstr \<Rightarrow> jstr option \<Rightarrow> (jstr list \<times> vault_action) option \<Rightarrow> bool" where
  "checkedFor path ident r \<longleftrightarrow> (\<forall>cs a. r = Some (cs, a) \<longrightarrow> (\<exists>hs v d. a = Checked path ident hs v d))"

abbreviation checkFact :: "(jstr list \<times> vault_action) option \<Rightarrow> vault_action set" where
  "checkFact r \<equiv> (case r of Some (_, a) \<Rightarrow> {a} | None \<Rightarrow> {})"

lemma settledVersion_mono: "settledVersion E A path ident h \<Longrightarrow> A \<subseteq> B \<Longrightarrow> settledVersion E B path ident h"
  unfolding settledVersion_def by blast

lemma when_none: "vs.keepsWhen E A (ret None) (checkedFor path ident) checkFact"
  by (rule vs.keepsWhen_ret) (simp_all add: checkedFor_def)

lemma when_checked:
  assumes "\<And>tr. A \<subseteq> set tr \<Longrightarrow> vaultOk E tr (Checked path ident hs v d)"
  shows "vs.keepsWhen E A (seq (sync (noted (Checked path ident hs v d))) (\<lambda>_. ret (Some (cs, Checked path ident hs v d)))) (checkedFor path ident) checkFact"
  by (rule vs.keepsWhen_seq [OF keeps_vaultNoted [OF assms]]) (assumption, rule vs.keepsWhen_ret, simp_all add: checkedFor_def)

lemma when_preserveLoop:
  assumes "\<forall>h \<in> set hs. settledVersion E A path ident h"
  shows "vs.keepsWhen E A (preserveLoop n E path k ident hs copies) (checkedFor path ident) checkFact"
  using assms
proof (induction n arbitrary: A hs copies)
  case 0
  show ?case by (simp, rule vs.keepsWhen_then [OF vs.keeps_waitFor when_none])
next
  case (Suc n)
  have copy: "vs.keepsWhen E A' (seq hashed (\<lambda>_. seq (preserveCopy E path c) (\<lambda>copied. seen (\<lambda>s.
      if aborted k path s then ret None else preserveLoop n E path k ident (hs @ [sha256 E c]) (copies @ [copied]))))) (checkedFor path ident) checkFact"
    if "A \<subseteq> A'" for c A'
    by (intro vs.keepsWhen_then keeps_quietCalls vs.keepsWhen_seq [OF keeps_preserveCopy] vs.keepsWhen_seen vs.keepsWhen_if when_none Suc.IH)
       (use Suc.prems that in \<open>auto simp: settledVersion_def\<close>)
  have final: "vs.keepsWhen E (A \<union> lagging path (Some (disk, False, lags))) (seq (sync (noted (Checked path ident (if lags then hs @ [sha256 E (the disk)] else hs) v disk)))
      (\<lambda>_. ret (Some (copies, Checked path ident (if lags then hs @ [sha256 E (the disk)] else hs) v disk)))) (checkedFor path ident) checkFact"
    if v: "\<forall>c. v = Some c \<longrightarrow> sha256 E c \<in> set hs" and d: "passes E hs (Some (disk, False, lags))" for v disk lags
  proof (rule when_checked)
    fix tr
    assume tr: "A \<union> lagging path (Some (disk, False, lags)) \<subseteq> set tr"
    have "settledVersion E (set tr) path ident h" if "h \<in> set hs" for h
      using Suc.prems that tr by (auto elim: settledVersion_mono)
    moreover have "settledVersion E (set tr) path ident (sha256 E (the disk))" if lags
      using that d tr by (cases disk) (auto simp: passes_def settledVersion_def)
    ultimately show "vaultOk E tr (Checked path ident (if lags then hs @ [sha256 E (the disk)] else hs) v disk)"
      using v d by (auto simp: passes_def)
  qed
  show ?case unfolding preserveLoop.simps Let_def
  proof (rule vs.keepsWhen_seen, rule vs.keepsWhen_when [OF when_checkResident])
    fix s :: "'a vault_sync" and r :: "jstr option option"
    let ?v = "map_option fst (residentContent s path k)"
    assume r: "\<forall>c. r = Some None \<longrightarrow> ?v = Some c \<longrightarrow> sha256 E c \<in> set hs"
    let ?copy = "\<lambda>c hs. seq hashed (\<lambda>_. seq (preserveCopy E path c) (\<lambda>copied. seen (\<lambda>s.
      if aborted k path s then ret None else preserveLoop n E path k ident (hs @ [sha256 E c]) (copies @ [copied]))))"
    let ?disk = "\<lambda>d. case d of
        None \<Rightarrow> ret None
      | Some (Some disk, True, _) \<Rightarrow> ?copy disk hs
      | Some (disk, _, lags) \<Rightarrow> seq (sync (noted (Checked path ident (if lags then hs @ [sha256 E (the disk)] else hs) ?v disk)))
          (\<lambda>_. ret (Some (copies, Checked path ident (if lags then hs @ [sha256 E (the disk)] else hs) ?v disk)))"
    have "vs.keepsWhen E (A \<union> lagging path d) (?disk d) (checkedFor path ident) checkFact" if d: "passes E hs d" and v: "\<forall>c. ?v = Some c \<longrightarrow> sha256 E c \<in> set hs" for d
    proof -
      consider "d = None" | c l where "d = Some (Some c, True, l)" | c l where "d = Some (Some c, False, l)" | l where "d = Some (None, False, l)"
      proof (cases d)
        case (Some q)
        moreover obtain disk p l where "q = (disk, p, l)" by (cases q)
        ultimately show thesis using that d by (cases disk; cases p) (auto simp: passes_def)
      qed (rule that(1))
      then show ?thesis
      proof cases
        case 2
        then show ?thesis using copy [of "A \<union> lagging path d" c] by simp
      next
        case (3 c l)
        then show ?thesis using final [OF v, of "Some c" l] d by (cases l) simp_all
      next
        case (4 l)
        then show ?thesis using final [OF v, of None l] d by simp
      qed (simp add: when_none)
    qed
    then have "vs.keepsWhen E A (seq (checkDisk E path k ident hs (residentContent s path k)) ?disk) (checkedFor path ident) checkFact"
      if "\<forall>c. ?v = Some c \<longrightarrow> sha256 E c \<in> set hs" using that by (intro vs.keepsWhen_when [OF when_checkDisk]) blast
    then show "vs.keepsWhen E (A \<union> {}) (case r of None \<Rightarrow> ret None | Some None \<Rightarrow> seq (checkDisk E path k ident hs (residentContent s path k)) ?disk | Some (Some c) \<Rightarrow> ?copy c hs)
        (checkedFor path ident) checkFact"
      using r copy [of A] by (simp add: when_none split: option.split)
  qed
qed


lemma when_preserve: "vs.keepsWhen E A (preserveUnacknowledgedVersions n E path k ident) (checkedFor path ident) checkFact"
proof -
  have "vs.keepsWhen E A (seq (sync (noted (Acknowledged path ident fp))) (\<lambda>_. preserveLoop n E path k ident [fp] [])) (checkedFor path ident) checkFact" for fp
    by (rule vs.keepsWhen_seq [OF keeps_vaultNoted]) (simp, rule when_preserveLoop, simp add: settledVersion_def)
  then show ?thesis unfolding preserveUnacknowledgedVersions_def
    by (intro vs.keepsWhen_seen vs.keepsWhen_some when_preserveLoop) simp_all
qed

lemma calm_withdraw [calm_intros]: "calm E s (withdrawDocuments path s)"
  unfolding withdrawDocuments_def Let_def by (rule calm_trans [OF calm_removeFrom(2,3)])

lemma calm_preserved: "calm E s (s\<lparr>remoteDeletePreserved := removeAll p (remoteDeletePreserved s)\<rparr>)"
proof -
  let ?s = "s\<lparr>remoteDeletePreserved := removeAll p (remoteDeletePreserved s)\<rparr>"
  have "core ?s = core s" by (simp add: core_def)
  from registryOk_core [OF this, of E] show ?thesis by (auto simp: calm_def)
qed

lemma calm_rematerialize [calm_intros]: "calm E s (rematerializeReintroducedPath E' path s)"
  unfolding rematerializeReintroducedPath_def
  by (auto split: option.split intro: calm_refl calm_trans [OF calm_removeFrom(2) calm_enqueueDoc] calm_trans [OF calm_removeFrom(3) calm_ensure(2)])

lemma calm_finishDelete [calm_intros]: "calm E s (finishRemoteDelete E' path k s)"
  unfolding finishRemoteDelete_def by (simp add: calm_refl calm_rematerialize calm_trans [OF calm_preserved calm_plain(1)])

lemma calm_beginRename [calm_intros]: "calm E s (beginRename E' from target k pending s)"
proof -
  define s1 where "s1 = removeStructuredDocument from False (removeDocument from False s)"
  define s2 where "s2 = (if pending then removeFrom (regOf k) target False s1 else s1)"
  have "calm E s s1" unfolding s1_def by (rule calm_trans [OF calm_removeFrom(2,3)])
  moreover have "calm E s1 s2" unfolding s2_def by (simp add: calm_intros)
  moreover have "calm E s2 (beginRename E' from target k pending s)"
    unfolding beginRename_def Let_def s1_def [symmetric] s2_def [symmetric] by (rule calm_core) (simp_all add: core_def onRecord_def bumpPathVersion_def)
  ultimately show ?thesis by (blast intro: calm_trans)
qed

lemma keeps_deleteFile:
  assumes "Checked path i hs v d \<in> A" "again \<or> i = ident"
  shows "vs.keeps E A (vaultDelete path ident again) (\<lambda>_. {})"
  unfolding vaultDelete_def
proof (rule vs.keeps_outside)
  fix s r s'
  assume s: "vaultInv E s" "A \<subseteq> set (trace s)"
    and e: "(if jhas (files (fs s)) path then (Some (), noted (DeleteFile path ident again) (s\<lparr>fs := (fs s)\<lparr>files := jdel (files (fs s)) path\<rparr>\<rparr>)) else (None, s)) = (r, s')"
  let ?s1 = "s\<lparr>fs := (fs s)\<lparr>files := jdel (files (fs s)) path\<rparr>\<rparr>"
  have "calm E s ?s1" by (rule calm_core) (simp_all add: core_def)
  from calm_inv [OF this s(1)] have "vaultInv E ?s1" by simp
  moreover have "vaultOk E (trace ?s1) (DeleteFile path ident again)" using assms s(2) by (simp, blast)
  ultimately have "vaultInv E (noted (DeleteFile path ident again) ?s1)" by (rule vaultInv_noted)
  then show "vaultInv E s' \<and> set (trace s) \<subseteq> set (trace s') \<and> (\<forall>x. r = Some x \<longrightarrow> {} \<subseteq> set (trace s'))"
    using e s by (auto simp: noted_def split: if_splits)
qed

lemma keeps_deleteLocalFile:
  assumes "Checked path i hs v d \<in> A" "again \<or> i = ident"
  shows "vs.keeps E A (deleteLocalFile E' path k ident again) (\<lambda>_. {})"
  unfolding deleteLocalFile_def
  by (intro vaultKeeps keeps_deleteFile [OF assms] keeps_calm calm_intros keeps_fields) (simp_all add: core_def)

lemma keeps_applyRename: "vs.keeps E A (applyRemoteRename E from k g) (\<lambda>_. {})"
proof -
  have move: "vs.keeps E A (sync (\<lambda>s. beginRename E from t k pending (noted (MoveFile from t (Some t) False) s))) (\<lambda>_. {})" if "from \<noteq> t" for t pending
  proof (rule vs.keeps_sync)
    fix s
    assume "vaultInv E s"
    then have n: "vaultInv E (noted (MoveFile from t (Some t) False) s)" using that by (intro vaultInv_noted) simp_all
    from calm_inv [OF calm_beginRename this, of E "from" t k pending]
    show "vaultInv E (beginRename E from t k pending (noted (MoveFile from t (Some t) False) s)) \<and>
      set (trace s) \<union> {} \<subseteq> set (trace (beginRename E from t k pending (noted (MoveFile from t (Some t) False) s)))" by (auto simp: noted_def)
  qed
  have target: "t \<noteq> from" if "renameTarget s from k g = Some t" for s t
    using that by (auto simp: renameTarget_def split: option.splits if_splits)
  have starts: "vs.keeps E A (sync (\<lambda>s'. beginRename E from t k pending (noted (MoveFile from t (pathForGuid s g) (localFileExists s t)) s'))) (\<lambda>_. {})"
    if "renameTarget s0 from k g = Some t" "pathForGuid s g = Some t" "\<not> localFileExists s t" for s s0 t pending
    using move [of t pending] target [OF that(1)] that(2,3) by auto
  have after: "calm E s (pumpDocQueue E (enqueueDoc t q True s))" for s t q by (rule calm_trans [OF calm_enqueueDoc calm_pump])
  show ?thesis unfolding applyRemoteRename_def
    by (intro vaultKeeps vaultCalls keeps_calm [OF after] keeps_fields starts) (auto simp: core_def onRecord_def)
qed

lemma keeps_deleteAgain:
  assumes "vaultInv E s" "path \<in> set (remoteDeletePreserved s)"
  shows "vs.keeps E (set (trace s)) (deleteLocalFile E path k ident True) (\<lambda>_. {})"
proof -
  obtain i hs v d where "Checked path i hs v d \<in> set (trace s)" using assms unfolding vaultInv_def by blast
  then show ?thesis by (rule keeps_deleteLocalFile) simp
qed

lemma keeps_addPreserved:
  assumes "Checked path i hs v d \<in> A"
  shows "vs.keeps E A (sync (\<lambda>s. if b then s else s\<lparr>remoteDeletePreserved := setAdd (remoteDeletePreserved s) path\<rparr>)) (\<lambda>_. {})"
proof (rule vs.keeps_sync)
  fix s
  assume s: "vaultInv E s" "A \<subseteq> set (trace s)"
  let ?s = "s\<lparr>remoteDeletePreserved := setAdd (remoteDeletePreserved s) path\<rparr>"
  have "core ?s = core s" by (simp add: core_def)
  from registryOk_core [OF this, of E] have "registryOk E ?s" using s by (simp add: vaultInv_def)
  moreover have "\<exists>i hs v d. Checked p i hs v d \<in> set (trace s)" if "p \<in> set (remoteDeletePreserved ?s)" for p
    using that s assms unfolding setAdd_def vaultInv_def by (simp split: if_splits) blast+
  ultimately have "vaultInv E ?s" using s by (simp add: vaultInv_def)
  then show "vaultInv E (if b then s else ?s) \<and> set (trace s) \<union> {} \<subseteq> set (trace (if b then s else ?s))" using s by simp
qed

lemma keeps_preserveThenDelete:
  "vs.keeps E A (seq (awaited (preserveUnacknowledgedVersions n E path k ident)) (\<lambda>r. case r of None \<Rightarrow> ret ()
     | Some (copies, _) \<Rightarrow> seq (sync (\<lambda>s. if copies = [] then s else s\<lparr>remoteDeletePreserved := setAdd (remoteDeletePreserved s) path\<rparr>)) (\<lambda>_.
         deleteLocalFile E path k ident False))) (\<lambda>_. {})"
proof (rule vs.keeps_when)
  show "vs.keepsWhen E A (awaited (preserveUnacknowledgedVersions n E path k ident)) (checkedFor path ident) checkFact"
    unfolding awaited_def by (rule vs.keepsWhen_awaits [OF when_preserve])
next
  fix r
  assume r: "checkedFor path ident r"
  show "vs.keeps E (A \<union> checkFact r) (case r of None \<Rightarrow> ret ()
     | Some (copies, _) \<Rightarrow> seq (sync (\<lambda>s. if copies = [] then s else s\<lparr>remoteDeletePreserved := setAdd (remoteDeletePreserved s) path\<rparr>)) (\<lambda>_.
         deleteLocalFile E path k ident False)) (\<lambda>_. {})"
  proof (cases r)
    case (Some x)
    obtain cs a where x: "x = (cs, a)" by (cases x)
    with r Some obtain hs v d where a: "a = Checked path ident hs v d" by (auto simp: checkedFor_def)
    have "Checked path ident hs v d \<in> A \<union> checkFact r" by (simp add: Some x a)
    note c = this
    show ?thesis unfolding Some x option.case prod.case
      by (rule vs.keeps_then [OF keeps_addPreserved [OF c [unfolded Some x option.case prod.case]]], rule keeps_deleteLocalFile [OF c [unfolded Some x option.case prod.case]]) simp
  qed (simp add: vs.keeps_ret)
qed

lemma keeps_deleteAttempt: "vs.keeps E A (deleteAttempt n E path k ident) (\<lambda>_. {})"
proof -
  have again: "vs.keeps E A (seen (\<lambda>s. if path \<in> set (remoteDeletePreserved s) then deleteLocalFile E path k ident True else m)) (\<lambda>_. {})"
    if "\<And>A. vs.keeps E A m (\<lambda>_. {})" for m A
    by (rule vs.keeps_seenFacts) (simp add: that keeps_deleteAgain)
  have rest: "vs.keeps E A (seq (case truthy ident of Some g \<Rightarrow> awaited (applyRemoteRename E path k g) | None \<Rightarrow> ret False) (\<lambda>moved.
       if moved then ret ()
       else seen (\<lambda>s. if path \<in> set (remoteDeletePreserved s) then deleteLocalFile E path k ident True
       else seq (awaited (preserveUnacknowledgedVersions n E path k ident)) (\<lambda>r.
         case r of
           None \<Rightarrow> ret ()
         | Some (copies, _) \<Rightarrow>
             seq (sync (\<lambda>s. if copies = [] then s else s\<lparr>remoteDeletePreserved := setAdd (remoteDeletePreserved s) path\<rparr>)) (\<lambda>_.
             deleteLocalFile E path k ident False))))) (\<lambda>_. {})" for A
    by (rule vs.keeps_then, intro vs.keeps_some vaultCalls keeps_applyRename vs.keeps_ret, rule vs.keeps_if [OF vs.keeps_ret], rule again, rule keeps_preserveThenDelete)
  have quiet: "vs.keeps E A (seq (sync (withdrawDocuments path)) (\<lambda>_. sync (finishRemoteDelete E path k))) (\<lambda>_. {})" for A
    by (intro vs.keeps_then keeps_calm calm_intros)
  show ?thesis unfolding deleteAttempt_def
    by (rule vs.keeps_seenFacts) (simp add: rest quiet vs.keeps_ret keeps_deleteAgain)
qed

lemma keeps_reconcile: "vs.keeps E A (reconcileRemoteDelete n E path k ident) (\<lambda>_. {})"
  unfolding reconcileRemoteDelete_def by (intro vaultKeeps keeps_deleteAttempt keeps_fields) (simp add: core_def)

lemma keeps_deleteLoop: "vs.keeps E A (deleteLoop m n E path k ident) (\<lambda>_. {})"
proof (induction m arbitrary: k ident)
  case (Suc m)
  show ?case unfolding deleteLoop.simps
    by (intro vaultKeeps vaultCalls keeps_reconcile keeps_fields Suc.IH) (simp add: core_def)
qed (simp add: vs.keeps_waitFor)

lemma keeps_handleRemoteDelete: "vs.keeps E A (handleRemoteDelete n E path k ident) (\<lambda>_. {})"
  unfolding handleRemoteDelete_def by (intro vaultKeeps keeps_deleteLoop keeps_fields) (simp_all add: core_def)

section \<open>The index\<close>

lemma calm_entryChanged [calm_intros]: "calm E s (entryChanged E k path s)"
proof -
  have "calm E s (pumpDocQueue E (enqueueDoc path q b (registerFile path g (s\<lparr>remoteDeletePreserved := removeAll path (remoteDeletePreserved s)\<rparr>))))" for q b g
    by (intro calm_trans [OF calm_preserved calm_trans [OF calm_register calm_trans [OF calm_enqueueDoc calm_pump]]])
  then show ?thesis unfolding entryChanged_def by (simp add: calm_refl split: option.split prod.split)
qed

lemma keeps_observed: "vs.keeps E A (observed n E old x) (\<lambda>_. {})"
proof -
  obtain r path where x: "x = (r, path)" by (cases x)
  have meta: "vs.keeps E A (case jget (indexStructured old) path of
      Some (Meta g k) \<Rightarrow> fork (handleRemoteDelete n E path k (Some g)) | Some Malformed \<Rightarrow> fork (handleRemoteDelete n E path KCanvas None) | None \<Rightarrow> ret ()) (\<lambda>_. {})"
    by (intro vs.keeps_some) (auto split: structured_meta.split intro: vs.keeps_ret vs.keeps_forked keeps_handleRemoteDelete)
  show ?thesis unfolding x
    by (cases r; simp; intro vs.keeps_seen vs.keeps_if vs.keeps_ret keeps_calm calm_entryChanged vs.keeps_some vs.keeps_forked keeps_handleRemoteDelete meta)
qed

lemma keeps_transact: "vs.keeps E A (indexTransact n E ops) (\<lambda>_. {})"
  unfolding indexTransact_def
  by (intro vs.keeps_seen vs.keeps_then keeps_calm calm_fold calm_applyOp vs.keeps_each keeps_observed)


lemma listedEntries_iff: "(r, p, g) \<in> set (listedEntries s) \<longleftrightarrow> entryAt r s p = Some g"
proof -
  let ?keys = "map (Pair Notes) (jkeys (indexFiles s)) @ map (Pair Structured) (jkeys (indexStructured s))"
  have "(r, p) \<in> set ?keys" if "entryAt r s p = Some g"
    using that by (cases r) (force simp: listedMeta_def dest: map_of_SomeD split: option.splits)+
  moreover have "(r, p, g) \<in> set (listedEntries s) \<longleftrightarrow> (r, p) \<in> set ?keys \<and> entryAt r s p = Some g"
    unfolding listedEntries_def set_concat set_map by (auto split: option.splits simp del: set_append)
  ultimately show ?thesis by blast
qed

lemma applyOp_other: "(r, p) \<notin> set (touches op) \<Longrightarrow> entryAt r (applyOp op s) p = entryAt r s p"
  by (cases op; cases r) (auto simp: listedMeta_def)

lemma applyOps_other: "\<forall>op \<in> set ops. (r, p) \<notin> set (touches op) \<Longrightarrow> entryAt r (fold applyOp ops s) p = entryAt r s p"
  by (induction ops arbitrary: s) (simp_all add: applyOp_other)

lemma orphaned_iff:
  "(p, g) \<in> set (orphaned ops s) \<longleftrightarrow> (\<exists>r. entryAt r s p = Some g) \<and> (\<forall>r q. entryAt r (fold applyOp ops s) q \<noteq> Some g)
     \<and> \<not> list_ex (\<lambda>(_, v). tGuid v = Some g) (trash (fold applyOp ops s))"
  unfolding orphaned_def Let_def by (force simp: listedEntries_iff [symmetric] image_iff)

lemma orphaned_touched:
  assumes "(p, g) \<in> set (orphaned ops s)"
  shows "\<exists>r. (\<exists>op \<in> set ops. (r, p) \<in> set (touches op)) \<and> entryAt r s p = Some g"
  using assms applyOps_other [of ops _ p s] unfolding orphaned_iff by metis

lemma orphaned_within: "(\<And>op r p. op \<in> set ops \<Longrightarrow> (r, p) \<in> set (touches op) \<Longrightarrow> p \<in> P) \<Longrightarrow> fst ` set (orphaned ops s) \<subseteq> P"
  using orphaned_touched by fastforce

lemma orphaned_none: "(\<And>p g. (p, g) \<notin> set (orphaned ops s)) \<Longrightarrow> orphaned ops s = []"
  by (metis last_in_set surj_pair)

lemma putEntry_touches [simp]: "touches (putEntry k path guid) = [(regOf k, path)]"
  by (cases k) simp_all

lemma orphaned_fresh: "\<not> listedAs k s path \<Longrightarrow> orphaned [putEntry k path guid] s = []"
proof (rule orphaned_none, rule notI)
  fix p g
  assume n: "\<not> listedAs k s path" and o: "(p, g) \<in> set (orphaned [putEntry k path guid] s)"
  from orphaned_touched [OF o] have "entryAt (regOf k) s path = Some g" by auto
  with n show False by (cases k) (auto simp: listedAs_def listedMeta_def split: option.splits)
qed

lemma orphaned_trash:
  assumes "tGuid v = Some g" "entryAt r s path = Some g" "op = (if r = Notes then DelFile path else DelStructured path)"
  shows "orphaned [SetTrash i v, op] s = []"
proof (rule orphaned_none, rule notI)
  fix p g'
  assume o: "(p, g') \<in> set (orphaned [SetTrash i v, op] s)"
  from orphaned_touched [OF o] assms have "g' = g" by (cases r) auto
  moreover have "(i, v) \<in> set (jset (trash s) i v)" by (metis jget_jset map_of_SomeD)
  ultimately show False using o assms(1,3) by (cases r) (force simp: orphaned_iff list_ex_iff)+
qed

lemma orphaned_onlyTrash: "touches op = [] \<Longrightarrow> orphaned [op] s = []"
  by (rule orphaned_none) (use orphaned_touched [of _ _ "[op]" s] in auto)

lemma orphaned_usedGuid [simp]: "orphaned ops (usedGuid (s :: 'm vault_sync)) = orphaned ops s"
proof -
  have "fold applyOp ops (usedGuid s) = usedGuid (fold applyOp ops s)" for s :: "'m vault_sync"
  proof (induction ops arbitrary: s)
    case (Cons op ops)
    have "applyOp op (usedGuid s) = usedGuid (applyOp op s)" by (cases op) (simp_all add: usedGuid_def)
    then show ?case using Cons by simp
  qed simp
  moreover have "listedEntries (usedGuid s) = listedEntries s" "trash (usedGuid s) = trash s" for s :: "'m vault_sync"
  proof -
    have "entryAt r (usedGuid s) = entryAt r s" for r by (cases r) (simp_all add: fun_eq_iff usedGuid_def listedMeta_def)
    then show "listedEntries (usedGuid s) = listedEntries s" by (simp add: listedEntries_def) (simp add: usedGuid_def)
  qed (simp add: usedGuid_def)
  ultimately show ?thesis by (simp add: orphaned_def Let_def)
qed

text \<open>A transaction on the state it was decided in.\<close>

definition commitAt :: "nat \<Rightarrow> 'm vault_env \<Rightarrow> commit_why \<Rightarrow> index_op list \<Rightarrow> 'm vault_sync \<Rightarrow> ('m, unit) vault_code" where
  "commitAt n E why ops s = seq (sync (noted (Commit why (orphaned ops s)))) (\<lambda>_. indexTransact n E ops)"

lemma keeps_commitAt:
  assumes "orphansOk why A (orphaned ops s)"
  shows "vs.keeps E A (commitAt n E why ops s) (\<lambda>_. {})"
proof -
  have "orphansOk why (set tr) (orphaned ops s)" if "A \<subseteq> set tr" for tr
    using assms that by (auto simp: orphansOk_def split: commit_why.splits)
  then show ?thesis unfolding commitAt_def by (intro vs.keeps_then [OF keeps_weaken [OF keeps_vaultNoted]] keeps_transact) simp
qed

lemma localTransact_seen: "localTransact n E why ops = seen (commitAt n E why ops)"
  unfolding localTransact_def commitAt_def ..

lemma keeps_rename:
  assumes "\<And>op r p. op \<in> set ops \<Longrightarrow> (r, p) \<in> set (touches op) \<Longrightarrow> p \<in> {old, new}"
  shows "vs.keeps E A (localTransact n E (ByRename old new) ops) (\<lambda>_. {})"
  unfolding localTransact_seen by (intro vs.keeps_seen keeps_commitAt) (simp add: orphansOk_def orphaned_within [OF assms])

lemma keeps_trashOnly: "touches op = [] \<Longrightarrow> vs.keeps E A (localTransact n E ByTrash [op]) (\<lambda>_. {})"
  unfolding localTransact_seen by (intro vs.keeps_seen keeps_commitAt) (simp add: orphansOk_def orphaned_onlyTrash)

section \<open>Publishing\<close>

lemma publishLocal_at:
  "publishLocal n E path v i guid k = seen (\<lambda>s.
     if destroyed s \<or> \<not> canPublishLocalPath s path v k i then ret ()
     else seq (commitAt n E (ByPublish path i) [putEntry k path guid] s) (\<lambda>_.
          sync (\<lambda>s. registerFile path guid (onRecord (commit (dict E) path k guid) s))))"
  by (simp add: publishLocal_def localTransact_seen seen_def seq_def fun_eq_iff)

lemma calm_registered: "calm E s (registerFile p g (onRecord f s))"
  by (rule calm_trans [OF calm_plain(1) calm_register])

lemma keeps_publishLocal: "Readied i \<in> A \<Longrightarrow> vs.keeps E A (publishLocal n E path v i guid k) (\<lambda>_. {})"
  unfolding publishLocal_at
  by (intro vs.keeps_seen vs.keeps_if vs.keeps_ret vs.keeps_then keeps_commitAt keeps_calm calm_registered)
     (simp add: orphansOk_def canPublishLocalPath_def orphaned_fresh)

lemma keeps_publishReady:
  assumes "\<And>A. Readied i \<in> A \<Longrightarrow> vs.keeps E A publish (\<lambda>_. {})"
  shows "vs.keeps E A (publishWhenReady i publish) (\<lambda>_. {})"
proof -
  have race: "vs.keeps E A (outside (\<lambda>s. if rReady (docs s ! i) then (Some (), noted (Readied i) s) else (None, s))) (\<lambda>_. {Readied i})"
  proof (rule vs.keeps_outside)
    fix s r s'
    assume s: "vaultInv E s" and e: "(if rReady (docs s ! i) then (Some (), noted (Readied i) s) else (None, s)) = (r, s')"
    have "vaultInv E (noted (Readied i) s)" by (rule vaultInv_noted [OF s]) simp
    then show "vaultInv E s' \<and> set (trace s) \<subseteq> set (trace s') \<and> (\<forall>x. r = Some x \<longrightarrow> {Readied i} \<subseteq> set (trace s'))"
      using e s by (auto simp: noted_def split: if_splits)
  qed
  have later: "vs.keeps E A (fork (seq (waitFor (\<lambda>s. rReady (docs s ! i))) (\<lambda>_. seq (sync (noted (Readied i))) (\<lambda>_. publish)))) (\<lambda>_. {})" for A
    by (intro vs.keeps_forked vs.keeps_then [OF vs.keeps_waitFor] vs.keeps_seq [OF keeps_vaultNoted] assms) simp_all
  show ?thesis unfolding publishWhenReady_def
    by (rule vs.keeps_seq [OF vs.keeps_settled [OF race]]) (auto split: option.split intro: assms later)
qed


lemma keeps_publishNew: "vs.keeps E A (publishNew n E path v k) (\<lambda>_. {})"
proof -
  have "calm E s (snd (ensureKind E path guid k True True None (onRecord f (if b then usedGuid s else s))))" for s guid f b
  proof -
    have "calm E s (if b then usedGuid s else s)" by (simp add: calm_intros)
    then show ?thesis by (rule calm_trans [OF _ calm_trans [OF calm_plain(1) calm_ensure(3)]])
  qed
  then show ?thesis unfolding publishNew_def Let_def
    by (intro vs.keeps_seen vs.keeps_then keeps_calm keeps_awaited keeps_publishReady keeps_publishLocal)
qed

section \<open>Local events\<close>

lemma keeps_fingerprintNew: "vs.keeps E A (fingerprintNew E path v k) (\<lambda>_. {})"
  unfolding fingerprintNew_def by (intro vaultKeeps vaultCalls keeps_calm calm_intros)

lemma keeps_documentFor: "vs.keeps E A (documentFor n E path v k) (\<lambda>_. {})"
  unfolding documentFor_def by (intro vaultKeeps keeps_publishNew keeps_calm calm_trans [OF calm_register calm_ensure(3)])

lemma keeps_handleCreate: "vs.keeps E A (handleLocalCreate n E path) (\<lambda>_. {})"
  unfolding handleLocalCreate_def Let_def by (intro vaultKeeps vaultCalls keeps_fingerprintNew keeps_documentFor keeps_calm calm_intros)

lemmas vaultFields = core_def bumpPathVersion_def onRecord_def takeBinaryRenameSource_def

lemma keeps_onCreate: "vs.keeps E A (onLocalCreate n E path) (\<lambda>_. {})"
  unfolding onLocalCreate_def by (intro vaultKeeps keeps_handleCreate keeps_fields) (simp add: vaultFields)

lemma keeps_trashed:
  assumes "\<And>s g. entryAt r s path = Some g \<Longrightarrow> m s = trashTransact n E (ByDeletion path) path (k s) g [if r = Notes then DelFile path else DelStructured path]"
    "\<And>s. entryAt r s path = None \<Longrightarrow> m s = ret ()"
  shows "vs.keeps E A (seen m) (\<lambda>_. {})"
proof -
  let ?op = "if r = Notes then DelFile path else DelStructured path"
  let ?ops = "\<lambda>s g. [SetTrash (newGuid E s) (trashValue s path (trashKindOf (k s)) g), ?op]"
  have "seen m = seen (\<lambda>s. case entryAt r s path of None \<Rightarrow> ret ()
      | Some g \<Rightarrow> seq (sync usedGuid) (\<lambda>_. commitAt n E (ByDeletion path) (?ops s g) s))"
  proof -
    have "m s kk h s = (case entryAt r s path of None \<Rightarrow> ret () | Some g \<Rightarrow> seq (sync usedGuid) (\<lambda>_. commitAt n E (ByDeletion path) (?ops s g) s)) kk h s" for s kk h
      using assms by (cases "entryAt r s path") (simp_all add: trashTransact_def localTransact_seen seen_def seq_def sync_def commitAt_def)
    then show ?thesis by (simp add: seen_def fun_eq_iff)
  qed
  moreover have "orphaned (?ops s g) s = []" if "entryAt r s path = Some g" for s g
    by (rule orphaned_trash [OF _ that]) (simp_all add: trashValue_def)
  ultimately show ?thesis
    by (simp only:) (intro vs.keeps_seen vs.keeps_some vs.keeps_ret vs.keeps_then keeps_calm calm_plain keeps_commitAt, simp add: orphansOk_def)
qed

lemma keeps_unlist: "vs.keeps E A (unlistDeleted n E path) (\<lambda>_. {})"
  unfolding unlistDeleted_def by (rule keeps_trashed [where r = Notes and path = path and n = n and k = "\<lambda>_. KText"]) simp_all

lemma keeps_unlistStructured: "vs.keeps E A (unlistDeletedStructured n E path) (\<lambda>_. {})"
  unfolding unlistDeletedStructured_def
  by (rule keeps_trashed [where r = Structured and path = path and n = n and k = "\<lambda>s. snd (the (listedMeta s path))"]) auto

lemma keeps_deletion: "vs.keeps E A (applyLocalDeletion n E path) (\<lambda>_. {})"
  unfolding applyLocalDeletion_def Let_def
  by (intro vaultKeeps vaultCalls keeps_unlist keeps_unlistStructured keeps_calm calm_removeFrom keeps_fields) (simp_all add: vaultFields)

lemma keeps_onDelete: "vs.keeps E A (onLocalDelete n E path) (\<lambda>_. {})"
  unfolding onLocalDelete_def by (intro vaultKeeps keeps_deletion keeps_fields) (simp add: vaultFields)

lemma keeps_binaryMoves: "vs.keeps E A (holdBinary new found) (\<lambda>_. {})" "vs.keeps E A (releaseBinary new found) (\<lambda>_. {})"
  unfolding holdBinary_def releaseBinary_def by (intro vaultKeeps vaultCalls keeps_fields; simp add: vaultFields)+

lemma leaveOps_touch: "op \<in> set (leaveOps old found) \<Longrightarrow> (r, p) \<in> set (touches op) \<Longrightarrow> p = old"
  by (auto simp: leaveOps_def split: if_splits)

lemma keeps_publishMove: "vs.keeps E A (publishMove n E old new found k guid) (\<lambda>_. {})"
  unfolding publishMove_def
  by (intro vs.keeps_then keeps_binaryMoves keeps_rename keeps_calm calm_register) (auto dest: leaveOps_touch)

lemma keeps_trashRename:
  assumes "\<And>op r p. op \<in> set ops \<Longrightarrow> (r, p) \<in> set (touches op) \<Longrightarrow> p \<in> {old, new}"
  shows "vs.keeps E A (trashTransact n E (ByRename old new) path k g ops) (\<lambda>_. {})"
  unfolding trashTransact_def by (intro vs.keeps_seen vs.keeps_then keeps_calm calm_plain keeps_rename) (use assms in auto)

lemma keeps_leaveOther: "vs.keeps E A (leaveOther n E old new found k) (\<lambda>_. {})"
  unfolding leaveOther_def by (intro vaultKeeps keeps_rename keeps_trashRename) auto

lemma keeps_renameDocument: "vs.keeps E A (renameDocument n E old new v found k) (\<lambda>_. {})"
proof -
  have "calm E s (snd (ensureKind E new guid k creator True None (if b then (if c then usedGuid s else s) else onRecord f (if c then usedGuid s else s))))" for s b c f guid creator
  proof -
    have "calm E s (if c then usedGuid s else s)" by (simp add: calm_intros)
    then have "calm E s (if b then (if c then usedGuid s else s) else onRecord f (if c then usedGuid s else s))"
      using calm_trans [OF _ calm_plain(1)] by (metis (full_types))
    then show ?thesis by (rule calm_trans [OF _ calm_ensure(3)])
  qed
  then show ?thesis unfolding renameDocument_def Let_def
    by (intro vs.keeps_seen vs.keeps_then keeps_calm vs.keeps_if keeps_publishMove keeps_leaveOther keeps_awaited keeps_publishReady vs.keeps_ret)
qed

lemma keeps_handleRename: "vs.keeps E A (handleLocalRename n E old new) (\<lambda>_. {})"
proof -
  have "calm E s (renameRecord E old new found (removeStructuredDocument old False (removeDocument old False
      (takeBinaryRenameSource old (bumpPathVersion new (bumpPathVersion old s))))))" for s found
  proof -
    have a: "calm E s (takeBinaryRenameSource old (bumpPathVersion new (bumpPathVersion old s)))"
      by (rule calm_core) (simp_all add: vaultFields)
    have b: "calm E t (renameRecord E old new found t)" for t
      by (simp add: renameRecord_def Let_def calm_refl calm_plain split: option.split)
    show ?thesis by (rule calm_trans [OF calm_trans [OF calm_trans [OF a calm_removeFrom(2)] calm_removeFrom(3)] b])
  qed
  then show ?thesis unfolding handleLocalRename_def Let_def
    by (intro vaultKeeps vaultCalls keeps_calm keeps_binaryMoves keeps_renameDocument keeps_rename) (auto dest: leaveOps_touch)
qed

lemma keeps_onRename: "vs.keeps E A (onLocalRename n E old new) (\<lambda>_. {})"
  unfolding onLocalRename_def by (intro vaultKeeps keeps_handleRename keeps_fields) (simp_all add: vaultFields)

lemma calm_modify [calm_intros]: "calm E s (modifyDocument E path k s)"
proof -
  have a: "calm E t (noted (DiskChanged path) (if b then t else connectDoc i t))" for t b i
  proof -
    have "calm E t (if b then t else connectDoc i t)" by (simp add: calm_intros)
    then show ?thesis by (rule calm_trans) (simp add: calm_noted)
  qed
  have "calm E t (case regGet r t path of Some i \<Rightarrow> noted (DiskChanged path) (if mobileSuspended t then t else connectDoc i t)
        | None \<Rightarrow> (case listedEntry k t path of Some (guid, k') \<Rightarrow> if guid = [] then t else snd (ensureKind E path guid k' False True None t) | None \<Rightarrow> t))" for t r
    using a [of t] by (auto simp: calm_refl calm_ensure split: option.split prod.split)
  from calm_trans [OF calm_markUsed this] show ?thesis unfolding modifyDocument_def Let_def .
qed

lemma keeps_onModify: "vs.keeps E A (onLocalModify E path) (\<lambda>_. {})"
  unfolding onLocalModify_def
  by (intro vs.keeps_seen vs.keeps_if vs.keeps_ret keeps_fields)
     (auto simp: core_def vs.keeps_ret keeps_quietCalls keeps_calm calm_modify split: file_kind.split)


section \<open>The initial synchronisation\<close>

lemma keeps_initSync: "vs.keeps E A (sync (initSync E epoch)) (\<lambda>_. {})"
proof -
  have migrate: "calm E s (migrateLegacyLocalState E s)" for s
  proof -
    have "calm E s (if b then fold f4 d (fold f3 c (fold f2 b' (fold f1 a s))) else fold f3 c (fold f2 b' (fold f1 a s)))"
      if "\<And>x s. calm E s (f1 x s)" "\<And>x s. calm E s (f2 x s)" "\<And>x s. calm E s (f3 x s)" "\<And>x s. calm E s (f4 x s)" for b f1 f2 f3 f4 a b' c d
    proof -
      have three: "calm E s (fold f3 c (fold f2 b' (fold f1 a s)))" by (intro calm_trans [OF calm_fold calm_trans [OF calm_fold calm_fold]] that)
      then show ?thesis by (simp add: calm_trans [OF three calm_fold [OF that(4)]])
    qed
    note folds = this
    show ?thesis unfolding migrateLegacyLocalState_def Let_def
      by (rule folds) (auto simp: calm_plain calm_refl split: structured_meta.split option.split)
  qed
  have "calm E s (initSync E epoch s)" for s
  proof (cases "destroyed s")
    case False
    define s1 where "s1 = migrateLegacyLocalState E (onRecord (\<lambda>st. fst (adoptIndexEpoch (dict E) epoch st)) s)"
    have "calm E s s1" unfolding s1_def by (rule calm_trans [OF calm_plain(1) migrate])
    moreover have "calm E s1 (initSync E epoch s)" unfolding initSync_def Let_def s1_def [symmetric] using False
      by (simp, intro calm_core) (simp_all add: core_def)
    ultimately show ?thesis by (rule calm_trans)
  qed (simp add: initSync_def calm_refl)
  then show ?thesis by (rule keeps_calm)
qed

lemma keeps_fingerprintUnknown: "vs.keeps E A (fingerprintUnknown E path) (\<lambda>_. {})"
  unfolding fingerprintUnknown_def by (intro vaultKeeps vaultCalls keeps_calm calm_intros)

lemma keeps_deletedSince: "vs.keeps E A (deletedSince n E k path ident) (\<lambda>_. {})"
  unfolding deletedSince_def by (intro vaultKeeps keeps_awaited keeps_handleRemoteDelete)

lemma keeps_deletedFile: "vs.keeps E A (deletedFile n E path) (\<lambda>_. {})"
  unfolding deletedFile_def
  by (intro vs.keeps_seen vs.keeps_some vs.keeps_ret) (auto split: option.split intro: vs.keeps_ret keeps_deletedSince)

lemma calm_registerEntries [calm_intros]: "calm E s (registerEntries E priority s)"
proof -
  have put: "calm E s (if removedPath (bootstrapLog s) p then s else enqueueDoc p q b (registerFile p g s))" for s p q b g
    by (simp add: calm_refl calm_trans [OF calm_register calm_enqueueDoc])
  show ?thesis unfolding registerEntries_def Let_def
    by (intro calm_trans [OF calm_fold calm_fold]) (auto simp: put calm_refl split: structured_meta.split prod.split)
qed

lemma keeps_addLocalFile: "vs.keeps E A (addLocalFile n E priority path) (\<lambda>_. {})"
proof -
  have "calm E s (if b then s else onRecord f s)" for s b f by (simp add: calm_intros)
  then show ?thesis unfolding addLocalFile_def Let_def
    by (intro vaultKeeps keeps_calm keeps_publishNew calm_trans [OF calm_register calm_enqueueDoc])
qed

lemma calm_drain [calm_intros]: "calm E s (drainPriorities s)"
proof -
  have "calm E s (startBackgroundSync (s\<lparr>highPriorityDrained := True\<rparr>))" by (rule calm_trans [OF calm_core calm_background]) (simp_all add: core_def)
  then show ?thesis by (simp add: drainPriorities_def calm_refl)
qed

lemma keeps_meta: "(\<And>g k. vs.keeps E A (f g k) B) \<Longrightarrow> vs.keeps E A x B \<Longrightarrow> vs.keeps E A (case m of Meta g k \<Rightarrow> f g k | Malformed \<Rightarrow> x) B"
  by (cases m) simp_all

lemma keeps_pass: "vs.keeps E A (runInitialSyncPass n E) (\<lambda>_. {})"
  unfolding runInitialSyncPass_def Let_def
  by (intro vaultKeeps vs.keeps_each vs.keeps_eachWhile keeps_fingerprintUnknown keeps_deletedSince keeps_deletedFile keeps_addLocalFile keeps_meta
      keeps_calm calm_registerEntries calm_trans [OF calm_pump calm_trans [OF calm_drain calm_background]] keeps_fields) (simp add: core_def)

lemma keeps_replayStep: "vs.keeps E A (replayStep n E st) (\<lambda>_. {})"
  by (cases st) (auto intro!: vs.keeps_seen vs.keeps_if keeps_awaited keeps_deletion keeps_handleRename keeps_handleCreate keeps_onModify)

lemma keeps_replay: "vs.keeps E A (replayBootstrapVaultEvents n E) (\<lambda>_. {})"
  unfolding replayBootstrapVaultEvents_def
  by (intro vaultKeeps vs.keeps_eachWhile keeps_replayStep keeps_fields) (simp_all add: core_def)

lemma keeps_initial: "vs.keeps E A (runInitialSync n E) (\<lambda>_. {})"
proof -
  have "calm E s (startBackgroundSync (s\<lparr>initialSynced := True\<rparr>))" for s by (rule calm_trans [OF calm_core calm_background]) (simp_all add: core_def)
  note synced = this
  show ?thesis unfolding runInitialSync_def initialSync_def
    by (intro vaultKeeps keeps_awaited keeps_pass keeps_replay keeps_calm [OF synced] keeps_fields) (simp_all add: core_def)
qed

lemma keeps_promote: "vs.keeps E A (promoteBinary n E path) (\<lambda>_. {})"
proof -
  have "vs.keeps E A (localTransact n E (ByMigration path) [SetStructured path m]) (\<lambda>_. {})" for m A
    unfolding localTransact_seen by (intro vs.keeps_seen keeps_commitAt, unfold orphansOk_def commit_why.case, rule orphaned_within) simp
  note migrates = this
  show ?thesis unfolding promoteBinary_def Let_def
    by (intro vaultKeeps vaultCalls migrates keeps_calm calm_plain calm_trans [OF calm_register calm_ensure(2)]) (rule calm_core; simp add: core_def)
qed

lemma keeps_migration: "vs.keeps E A (reconcileBinariesAndMigrateStructured n E) (\<lambda>_. {})"
proof -
  have "calm E s (migrateConfigBinaries E s)" for s
    unfolding migrateConfigBinaries_def Let_def by (rule calm_fold, rule calm_core) (auto simp: vaultFields)
  then show ?thesis unfolding reconcileBinariesAndMigrateStructured_def
    by (intro vaultKeeps vaultCalls vs.keeps_eachWhile keeps_promote keeps_calm)
qed


section \<open>Documents that are given up\<close>

lemma keeps_prepare: "vs.keeps E A (prepareForHibernation i) (\<lambda>idle. if idle then {Idle i} else {})"
proof -
  have "vs.keeps E A (seq (sync (noted (Idle i))) (\<lambda>_. ret True)) (\<lambda>idle. if idle then {Idle i} else {})" for A
    by (rule vs.keeps_seq [OF keeps_vaultNoted]) (simp, rule vs.keeps_retFacts, simp)
  moreover have "vs.keeps E A (ret False) (\<lambda>idle. if idle then {Idle i} else {})" for A by (rule vs.keeps_retFacts) simp
  moreover note idle = calculation
  show ?thesis unfolding prepareForHibernation_def
    by (rule vs.keeps_seen, rule vs.keeps_if [OF idle(2)], rule vs.keeps_then [OF keeps_quietCalls(6)], rule vs.keeps_seen, rule vs.keeps_if [OF idle(1) idle(2)])
qed

lemma evict_ok:
  assumes "registryOk E s" "regGet r s path = Some i"
  shows "registryOk E (onDoc i (destroyDoc False) (regDel r path s))"
proof -
  have "core (onDoc i (destroyDoc False) (regDel r path s)) = core (removeFrom r path False s)"
    using assms(2) by (simp add: removeFrom_def core_def onDoc_def)
  from registryOk_core [OF this, of E] show ?thesis using registryOk_removeFrom [OF assms(1)] by simp
qed

lemma calm_evict [calm_intros]: "calm E s (evict path i s)"
proof (cases "residentIn s path i")
  case (Some r)
  then have "regGet r s path = Some i" by (auto simp: residentIn_def split: if_splits)
  from evict_ok [OF _ this, of E] have "calm E s (onDoc i (destroyDoc False) (regDel r path s))" by (simp add: calm_def) (simp add: onDoc_def)
  then show ?thesis by (simp add: evict_def Some)
qed (simp add: evict_def calm_refl)

lemma keeps_trimLoop: "vs.keeps E A (trimLoop E' target xs count retry) (\<lambda>_. {})"
proof (induction xs arbitrary: A count retry)
  case (Cons x xs)
  obtain path i where x: "x = (path, i)" by (cases x)
  have evicted: "vs.keeps E A (seq (sync (noted (Evict i True))) (\<lambda>_. seq (sync (evict path i)) (\<lambda>_. trimLoop E' target xs c retry))) (\<lambda>_. {})"
    if "Idle i \<in> A" for A c
    using that by (intro vs.keeps_then [OF keeps_weaken [OF keeps_vaultNoted]] vs.keeps_then keeps_calm calm_evict Cons.IH) auto
  show ?case unfolding x trimLoop.simps
    apply (intro vs.keeps_seen vs.keeps_if vs.keeps_ret Cons.IH)
    apply (rule vs.keeps_seq [OF keeps_awaited [OF keeps_prepare]], rule vs.keeps_if [OF Cons.IH], rule vs.keeps_seen, rule vs.keeps_if [OF Cons.IH])
    by (simp add: evicted)
qed (simp add: vs.keeps_ret)

lemma keeps_trim: "vs.keeps E A (trimMobileWorkingSet E') (\<lambda>_. {})"
  unfolding trimMobileWorkingSet_def Let_def
  by (intro vaultKeeps keeps_trimLoop keeps_calm calm_intros) (rule calm_core; simp add: core_def)+

section \<open>The trash\<close>

lemma keeps_recordTrash: "vs.keeps E A (recordTrash n E value) (\<lambda>_. {})"
  unfolding recordTrash_def by (intro vaultKeeps keeps_trashOnly keeps_calm calm_intros) simp

lemma restoreDocument_at:
  "restoreDocument n E i path k optGuid = seen (\<lambda>s.
     if pathInUse s path then throw
     else case truthy optGuid of
            None \<Rightarrow> throw
          | Some guid \<Rightarrow> seq (commitAt n E (ByRestore path) [putEntry k path guid] s) (\<lambda>_.
                seq (sync (\<lambda>s. snd (ensureKind E path guid k False True None (registerFile path guid s)))) (\<lambda>_.
                localTransact n E ByTrash [DelTrash i])))"
  by (simp add: restoreDocument_def localTransact_seen seen_def seq_def fun_eq_iff split: option.split)

lemma keeps_restore: "vs.keeps E A (restoreTrashEntry n E i target) (\<lambda>_. {})"
proof -
  have "vs.keeps E A (restoreDocument n E i path k g) (\<lambda>_. {})" for path k g unfolding restoreDocument_at
    by (intro vaultKeeps keeps_commitAt keeps_calm calm_trans [OF calm_register calm_ensure(3)] keeps_trashOnly)
       (auto simp: orphansOk_def pathInUse_def isTracked_def listedAs_def intro!: orphaned_fresh split: if_splits)
  moreover have "vs.keeps E A (restoreBinary n E i path h) (\<lambda>_. {})" for path h unfolding restoreBinary_def
    by (intro vaultKeeps keeps_effect keeps_trashOnly) (auto intro!: calm_core simp: core_def)
  moreover have "vs.keeps E A (case ow of None \<Rightarrow> throw | Some (plugin, name) \<Rightarrow> seq (outside (\<lambda>s. (Some (), s))) (\<lambda>_.
      if sqlLive E plugin name then throw else seq (outside (\<lambda>s. (Some (), s))) (\<lambda>_. localTransact n E ByTrash [DelTrash i]))) (\<lambda>_. {})" for ow
    by (intro vaultKeeps vaultCalls keeps_trashOnly) simp
  ultimately show ?thesis unfolding restoreTrashEntry_def Let_def
    by (intro vs.keeps_seen vs.keeps_if vs.keeps_ret vs.keeps_some vs.keeps_throw) (auto split: trash_kind.split)
qed

lemma keeps_purge: "vs.keeps E A (permanentlyDeleteTrashEntry n E i) (\<lambda>_. {})"
  unfolding permanentlyDeleteTrashEntry_def Let_def by (intro vaultKeeps vaultCalls keeps_trashOnly) simp

section \<open>Connections\<close>

lemma keeps_connectIndex: "vs.keeps E A (connectIndex E') (\<lambda>_. {})"
  unfolding connectIndex_def by (intro vaultKeeps vaultCalls keeps_calm calm_plain; rule calm_core; simp add: core_def)

lemma calm_catchUp: "calm E s (catchUp E s)"
proof -
  have "calm E s (noted (Told (Paused False)) (s\<lparr>mobileCatchUpPending := False\<rparr>))"
    by (rule calm_trans [OF calm_core calm_noted]) (simp_all add: core_def)
  from calm_trans [OF this calm_mobileReconnects] show ?thesis unfolding catchUp_def .
qed

lemma keeps_status: "vs.keeps E A (handleIndexStatus n E st) (\<lambda>_. {})"
proof -
  have "calm E s (if b then catchUp E s else s)" for s b by (simp add: calm_refl calm_catchUp)
  moreover have "calm E s (if b then s\<lparr>mobileCatchUpPending := True\<rparr> else s)" for s b by (auto intro!: calm_core simp: core_def)
  ultimately show ?thesis unfolding handleIndexStatus_def
    by (cases st) (auto intro!: vs.keeps_seen vs.keeps_if vs.keeps_ret vs.keeps_then vs.keeps_forked keeps_initial keeps_calm)
qed

lemma keeps_reconnect: "vs.keeps E A (reconnectAll E) (\<lambda>_. {})"
proof -
  have "calm E s (if b then s else pumpDocQueue E (fold connectDoc xs s))" for s b xs
    by (simp add: calm_refl calm_trans [OF calm_fold [OF calm_connectDoc(1)] calm_pump])
  moreover have "calm E s (if b then s\<lparr>mobileCatchUpPending := True\<rparr> else s)" for s b by (auto intro!: calm_core simp: core_def)
  ultimately show ?thesis unfolding reconnectAll_def reconnectDocuments_def Let_def
    by (intro vaultKeeps vaultCalls keeps_connectIndex keeps_calm)
qed

lemma keeps_resume: "vs.keeps E A (resumeFromBackground E) (\<lambda>_. {})"
proof -
  have a: "calm E s (if b then (if c then (s\<lparr>mobileResumeInProgress := False\<rparr>)\<lparr>mobileCatchUpPending := True\<rparr> else s\<lparr>mobileResumeInProgress := False\<rparr>)
      else catchUp E (s\<lparr>mobileResumeInProgress := False\<rparr>))" for s b c
    by (auto intro!: calm_core calm_trans [OF calm_core calm_catchUp] simp: core_def)
  have b: "vs.keeps E A (sync (\<lambda>s. s\<lparr>mobileSuspended := False, mobileResumeInProgress := True\<rparr>)) (\<lambda>_. {})" by (rule keeps_fields) (simp add: core_def)
  show ?thesis unfolding resumeFromBackground_def Let_def
    by (intro vs.keeps_seen vs.keeps_if vs.keeps_ret vs.keeps_then b keeps_reconnect keeps_awaited keeps_connectIndex keeps_calm a)
qed


section \<open>Every run\<close>

lemma keeps_list: "vs.keeps E A m B \<Longrightarrow> (\<And>y ys. xs = y # ys \<Longrightarrow> vs.keeps E A (f y ys) B) \<Longrightarrow> vs.keeps E A (case xs of [] \<Rightarrow> m | y # ys \<Rightarrow> f y ys) B"
  by (cases xs) simp_all

lemma keeps_deleteRetry: "vs.keeps E A (body n E DeleteRetry) (\<lambda>_. {})"
  unfolding body.simps by (intro vaultKeeps keeps_list keeps_handleRemoteDelete keeps_fields) (simp add: core_def)

lemma keeps_timers:
  "vs.keeps E A (body n E RenameTimer) (\<lambda>_. {})" "vs.keeps E A (body n E InitialRetry) (\<lambda>_. {})" "vs.keeps E A (body n E TrimTimer) (\<lambda>_. {})"
  "vs.keeps E A (body n E Migration) (\<lambda>_. {})"
proof -
  show "vs.keeps E A (body n E RenameTimer) (\<lambda>_. {})" unfolding body.simps
    by (rule keeps_fields) (simp add: core_def Let_def split: list.split prod.split)
  show "vs.keeps E A (body n E InitialRetry) (\<lambda>_. {})" unfolding body.simps by (intro vaultKeeps keeps_initial keeps_fields) (simp add: core_def)
  show "vs.keeps E A (body n E TrimTimer) (\<lambda>_. {})" unfolding body.simps by (intro vaultKeeps keeps_trim keeps_fields) (simp add: core_def)
  show "vs.keeps E A (body n E Migration) (\<lambda>_. {})" unfolding body.simps by (intro vaultKeeps keeps_migration)
qed

lemma keeps_docChanges:
  "vs.keeps E A (sync (onDoc i (\<lambda>d. if rDestroyed d then d else d\<lparr>rContent := c, rLocalChanges := l, rHibernates := h, rStatus := st\<rparr>))) (\<lambda>_. {})"
  "vs.keeps E A (sync (onDoc i (\<lambda>d. d\<lparr>rReady := True\<rparr>))) (\<lambda>_. {})"
  by (rule keeps_calm, rule calm_onDoc, simp)+

lemma keeps_environment:
  "vs.keeps E A (sync (\<lambda>s. s\<lparr>ownWrites := m\<rparr>)) (\<lambda>_. {})" "vs.keeps E A (sync (\<lambda>s. s\<lparr>fs := f s\<rparr>)) (\<lambda>_. {})"
  "vs.keeps E A (sync (\<lambda>s. case g s of None \<Rightarrow> s | Some c \<Rightarrow> s\<lparr>fs := h s c\<rparr>)) (\<lambda>_. {})" "vs.keeps E A (sync (\<lambda>s. s\<lparr>localSync := st\<rparr>)) (\<lambda>_. {})"
  "vs.keeps E A (sync (\<lambda>s. s\<lparr>binaries := bs, binaryWriting := w\<rparr>)) (\<lambda>_. {})" "vs.keeps E A (sync (\<lambda>s. s\<lparr>configFiles := bs\<rparr>)) (\<lambda>_. {})"
  "vs.keeps E A (sync (\<lambda>s. s\<lparr>openPaths := ps, recentPaths := qs\<rparr>)) (\<lambda>_. {})" "vs.keeps E A (sync (\<lambda>s. s\<lparr>indexStatus := status\<rparr>)) (\<lambda>_. {})"
  "vs.keeps E A (sync (\<lambda>s. s\<lparr>clock := clk s\<rparr>)) (\<lambda>_. {})"
  by (rule keeps_fields; simp add: core_def split: option.split)+

lemma holds_vaultBody: "vs.keeps E A (body n E e) (\<lambda>_. {})"
  by (cases e)
     (simp_all del: body.simps add: body.simps(1-8,13,15-37) keeps_deleteRetry keeps_timers keeps_docChanges keeps_initSync keeps_status keeps_transact
        keeps_onCreate keeps_onDelete keeps_onRename keeps_onModify keeps_restore keeps_purge keeps_recordTrash keeps_resume keeps_reconnect
        keeps_environment keeps_calm calm_intros)

lemma vault_runs: "runs (body n E) s0 s ts \<Longrightarrow> registryOk E s0 \<Longrightarrow> trace s0 = [] \<Longrightarrow> remoteDeletePreserved s0 = [] \<Longrightarrow> vaultInv E s"
  using vs.runs_keeps [where body = "body n E" and E = E, OF _ holds_vaultBody] by (simp add: vaultInv_def)

section \<open>Properties\<close>


text \<open>
  C7: At every moment of every run, each entry of the registries of notes and of canvases and bases names a document that exists, has not been destroyed, was made for that path and
  is of a kind of that registry; and the documents being connected hold at most the slots allowed, of which the count is exact.
\<close>

theorem vault_registry_sound:
  assumes "registryOk E s0" "trace s0 = []" "remoteDeletePreserved s0 = []" "runs (body n E) s0 s ts"
  shows "registryOk E s"
  using vault_runs [OF assms(4) assms(1-3)] by (simp add: vaultInv_def)

subsection \<open>Examples\<close>

definition sampleEnv :: "((jstr, Local_Sync_State.stored) jmap) vault_env" where
  "sampleEnv = \<lparr>dict = alistDict, sha256 = id, recovery = asciiEnv, utc = (\<lambda>_. \<lparr>year = 0, month = 0, day = 0, hours = 0, minutes = 0, seconds = 0, millis = 0\<rparr>),
     guidAt = (\<lambda>k. if k = 0 then lit ''h'' else lit ''j''), tfile = (\<lambda>_. True), extension = (\<lambda>p. if p = lit ''c'' then lit ''canvas'' else lit ''md''),
     globMatch = (\<lambda>_ _. False), vaultId = lit ''v'', configDir = lit ''.obsidian'', mobile = False, evicts = False, recentLimit = 0, maxResident = 0,
     syncCanvases = True, syncBases = True, syncBinaries = True, excludeGlobs = [], syncConfigEnabled = False, configCategories = [], blobKept = (\<lambda>_. True),
     sqlLive = (\<lambda>_ _. False), epochOf = (\<lambda>_. 0)\<rparr>"

definition sampleVault :: "(nat \<Rightarrow> bool) \<Rightarrow> (jstr, jstr) jmap \<Rightarrow> (jstr, jstr) jmap \<Rightarrow> (jstr, structured_meta) jmap \<Rightarrow> (jstr, Local_Sync_State.stored) jmap
    \<Rightarrow> ((jstr, Local_Sync_State.stored) jmap) vault_sync" where
  "sampleVault fl disk notes structured record = \<lparr>trace = [], faults = fl, calls = 0, fs = \<lparr>files = disk, folders = []\<rparr>, clock = 0, guids = 0, indexFiles = notes,
     indexStructured = structured, trash = [], binaries = [], configFiles = [], binaryWriting = [], localSync = \<lparr>paths = record, indexEpoch = None\<rparr>, docs = [],
     documents = [], structuredDocuments = [], destroyed = False, mobileSuspended = False, initialSynced = True, initialSyncRunning = False, initialRetries = 0,
     bootstrapPrepared = True, startupFiles = [], startupStructured = [], indexStatus = Connected, docQueue = [], activeDocConnections = 0,
     docConnectionGeneration = 0, slots = [], highPriorityDrained = False, backgroundSyncStarted = False, prioritizedPaths = [], prioritizedGuids = [],
     pathVersions = [], bootstrapLog = emptyLog, ownWrites = [], remoteDeleteInFlight = [], remoteDeletePending = [], remoteDeletePreserved = [],
     remoteDeletesApplying = [], remoteRenamesApplying = [], deleteRetries = [], renameTimers = [], binaryRenameSources = [], mobileLastUsedAt = [],
     mobileTrimTimer = False, mobileTrimRunning = False, mobileCatchUpPending = False, mobileResumeInProgress = False, invalidationReloads = [],
     invalidationReloadPending = [], openPaths = [], recentPaths = []\<rparr>"

definition knownNote :: Local_Sync_State.stored where
  "knownNote = Recorded ((onlyKind KText)\<lparr>identity := Some (Some (lit ''g'')), fingerprint := Some (lit ''x'')\<rparr>)"

text \<open>A run from a vault with the given files, notes, canvases and bases: the calls of the script are made and its tasks resumed in order.\<close>

datatype play = Call "((jstr, Local_Sync_State.stored) jmap) vault_entry" | Go nat nat

fun played :: "play list \<Rightarrow> (_ \<times> _) \<Rightarrow> ((jstr, Local_Sync_State.stored) jmap) vault_sync \<times> ((jstr, Local_Sync_State.stored) jmap) vault_sync task list" where
  "played [] x = x"
| "played (Call e # ps) x = played ps (enterTask (body 3 sampleEnv e) x)"
| "played (Go i k # ps) x = played ps ((stepTask i ^^ k) x)"

lemma played_runs: "runs (body 3 sampleEnv) s0 (fst x) (snd x) \<Longrightarrow> runs (body 3 sampleEnv) s0 (fst (played ps x)) (snd (played ps x))"
proof (induction ps arbitrary: x)
  case (Cons p ps)
  show ?case by (cases p) (simp_all add: Cons runs_enter runs_steps del: enterTask.simps stepTask.simps)
qed simp

lemma sample_start:
  "registryOk sampleEnv (sampleVault fl disk notes structured rec)" "trace (sampleVault fl disk notes structured rec) = []"
  "remoteDeletePreserved (sampleVault fl disk notes structured rec) = []"
proof -
  have "regGet r (sampleVault fl disk notes structured rec) p = None" for r p by (cases r) (simp_all add: sampleVault_def)
  then show "registryOk sampleEnv (sampleVault fl disk notes structured rec)" by (simp add: registryOk_def) (simp add: sampleVault_def)
qed (simp_all add: sampleVault_def)

text \<open>A note whose content the server has acknowledged is deleted elsewhere.\<close>

abbreviation deletedNote :: "((jstr, Local_Sync_State.stored) jmap) vault_sync" where
  "deletedNote \<equiv> sampleVault (\<lambda>_. False) [(lit ''a'', lit ''x'')] [(lit ''a'', lit ''g'')] [] [(lit ''a'', knownNote)]"

lemma deletedNote_trace:
  "trace (fst (played [Call (RemoteChange [DelFile (lit ''a'')]), Go 0 20] (deletedNote, [])))
   = [Acknowledged (lit ''a'') (Some (lit ''g'')) (lit ''x''), Checked (lit ''a'') (Some (lit ''g'')) [lit ''x''] None (Some (lit ''x'')),
      DeleteFile (lit ''a'') (Some (lit ''g'')) False]"
  by code_simp


text \<open>A note is created elsewhere: it becomes resident and takes a slot.\<close>

theorem vault_registry_sound_witness:
  "\<exists>s ts. runs (body 3 sampleEnv) (sampleVault (\<lambda>_. False) [] [] [] []) s ts \<and> jget (documents s) (lit ''a'') = Some 0 \<and> activeDocConnections s = 1 \<and> registryOk sampleEnv s"
proof -
  let ?s = "sampleVault (\<lambda>_. False) [] [] [] []"
  let ?x = "played [Call (RemoteChange [SetFile (lit ''a'') (lit ''g'')])] (?s, [])"
  have r: "runs (body 3 sampleEnv) ?s (fst ?x) (snd ?x)" by (intro played_runs runs_begin)
  moreover have "jget (documents (fst ?x)) (lit ''a'') = Some 0 \<and> activeDocConnections (fst ?x) = 1" by code_simp
  ultimately show ?thesis using vault_registry_sound [OF sample_start r] by blast
qed

text \<open>A canvas or base becomes a note.\<close>

abbreviation canvasVault :: "((jstr, Local_Sync_State.stored) jmap) vault_sync" where
  "canvasVault \<equiv> sampleVault (\<lambda>_. False) [(lit ''a'', lit ''x'')] [] [(lit ''c'', Meta (lit ''g'') KCanvas)] []"

abbreviation canvasPlays :: "play list" where
  "canvasPlays \<equiv> [Call (Renamed (lit ''c'') (lit ''a'')), Go 0 2, Call (RemoteChange [SetStructured (lit ''c'') (Meta (lit ''k'') KCanvas)]), Call (DocReady 0), Go 2 2]"

subsection \<open>Where documents are lost\<close>

text \<open>
  A canvas becomes a note: its document leaves the index without an entry of the trash. And when a canvas is created at its old path before the note is
  ready, publishing the note deletes that one's entry too.
\<close>

lemma canvas_to_note_orphans:
  "\<exists>s ts. runs (body 3 sampleEnv) canvasVault s ts \<and> Commit (ByRename (lit ''c'') (lit ''a'')) [(lit ''c'', lit ''g'')] \<in> set (trace s)
     \<and> Commit (ByRename (lit ''c'') (lit ''a'')) [(lit ''c'', lit ''k'')] \<in> set (trace s)"
proof -
  let ?x = "played canvasPlays (canvasVault, [])"
  have "runs (body 3 sampleEnv) canvasVault (fst ?x) (snd ?x)" by (intro played_runs runs_begin)
  moreover have "Commit (ByRename (lit ''c'') (lit ''a'')) [(lit ''c'', lit ''g'')] \<in> set (trace (fst ?x))
     \<and> Commit (ByRename (lit ''c'') (lit ''a'')) [(lit ''c'', lit ''k'')] \<in> set (trace (fst ?x))" by code_simp
  ultimately show ?thesis by blast
qed

text \<open>A note is renamed to a path where the index lists another one, not yet on this device: that one's entry is replaced.\<close>

lemma rename_over_entry_orphans:
  "\<exists>s ts. runs (body 3 sampleEnv) (sampleVault (\<lambda>_. False) [(lit ''b'', lit ''x'')] [(lit ''a'', lit ''g''), (lit ''b'', lit ''k'')] [] []) s ts
     \<and> Commit (ByRename (lit ''a'') (lit ''b'')) [(lit ''b'', lit ''k'')] \<in> set (trace s)"
proof -
  let ?s = "sampleVault (\<lambda>_. False) [(lit ''b'', lit ''x'')] [(lit ''a'', lit ''g''), (lit ''b'', lit ''k'')] [] []"
  let ?x = "played [Call (Renamed (lit ''a'') (lit ''b''))] (?s, [])"
  have "runs (body 3 sampleEnv) ?s (fst ?x) (snd ?x)" by (intro played_runs runs_begin)
  moreover have "Commit (ByRename (lit ''a'') (lit ''b'')) [(lit ''b'', lit ''k'')] \<in> set (trace (fst ?x))" by code_simp
  ultimately show ?thesis by blast
qed

text \<open>
  Deleting the file fails after its version was copied; the user then changes it; the attempt that follows does not look at it again: no file of the vault has the change.
\<close>

abbreviation editBeforeRetry :: "play list" where
  "editBeforeRetry \<equiv> [Call (RemoteChange [DelFile (lit ''a'')]), Go 0 24, Call (UserWrites (lit ''a'') (lit ''z'')), Call DeleteRetry, Go 3 3]"

lemma repeated_delete_loses_edit:
  fixes s0 defines "s0 \<equiv> sampleVault (\<lambda>k. k = 7) [(lit ''a'', lit ''y'')] [(lit ''a'', lit ''g'')] [] []"
  shows "\<exists>s ts. played editBeforeRetry (s0, []) = (s, ts) \<and> runs (body 3 sampleEnv) s0 s ts
     \<and> last (trace s) = DeleteFile (lit ''a'') (Some (lit ''g'')) True \<and> map snd (files (fs s)) = [lit ''y'']"
proof -
  let ?y = "played editBeforeRetry (s0, [])"
  have "runs (body 3 sampleEnv) s0 (fst ?y) (snd ?y)" by (intro played_runs runs_begin)
  moreover have "last (trace (fst ?y)) = DeleteFile (lit ''a'') (Some (lit ''g'')) True \<and> map snd (files (fs (fst ?y))) = [lit ''y'']"
    unfolding s0_def by code_simp
  ultimately show ?thesis by (intro exI [of _ "fst ?y"] exI [of _ "snd ?y"]) (simp only: prod.collapse simp_thms)
qed

text \<open>A canvas stored as an attachment is promoted while another device does the same: the entry that has arrived is replaced.\<close>

lemma migration_replaces_entry:
  "\<exists>s ts. runs (body 3 sampleEnv) ((sampleVault (\<lambda>_. False) [(lit ''c.canvas'', lit ''y'')] [] [] [])\<lparr>binaries := [(lit ''c.canvas'', lit ''y'')], backgroundSyncStarted := True\<rparr>) s ts
     \<and> Commit (ByMigration (lit ''c.canvas'')) [(lit ''c.canvas'', lit ''k'')] \<in> set (trace s)"
proof -
  let ?s = "(sampleVault (\<lambda>_. False) [(lit ''c.canvas'', lit ''y'')] [] [] [])\<lparr>binaries := [(lit ''c.canvas'', lit ''y'')], backgroundSyncStarted := True\<rparr>"
  let ?x = "played [Call Migration, Go 0 2, Call (RemoteChange [SetStructured (lit ''c.canvas'') (Meta (lit ''k'') KCanvas)]), Go 0 3] (?s, [])"
  have "runs (body 3 sampleEnv) ?s (fst ?x) (snd ?x)" by (intro played_runs runs_begin)
  moreover have "Commit (ByMigration (lit ''c.canvas'')) [(lit ''c.canvas'', lit ''k'')] \<in> set (trace (fst ?x))" by code_simp
  ultimately show ?thesis by blast
qed

end
