(* ===== verification/Spec2Isabelle.thy ===== *)
theory Spec2Isabelle
  imports Js_Prelude Text_Merge Text_Diff Version_Lineage Document_Epoch Bootstrap_Events Cli_Sync
    Structured_Merge Structured_Reconcile Canvas Canvas_Operations Local_Sync_State Capabilities
    Compatibility_Gate Client_Token Config_Categories Config_Sync Binary_Sync Transfer_Limiter Conflict_Recovery Mux_Pacing Note_Stream
    Text_Document Structured_Document Vault_Safety
begin

text \<open>
  A verification development for Realtime, an Obsidian plugin that keeps the files of a vault in step between devices, with its command line tool and SDK.

  \<^bold>\<open>The program.\<close> The plugin (\<open>src/src\<close>) shares one index document per vault (a Yjs document: path to guid) and one document per file.
  \<open>VaultSync\<close> owns the index, turns the vault's events into index transactions and the index's changes into documents, deletions and renames on disk. A note is a
  \<open>Document\<close>, a canvas or base a \<open>StructuredDocument\<close>; both extend \<open>SyncedDoc\<close> and keep a file and a shared value in step. Other files go through
  \<open>BinarySync\<close> (blobs by hash) and settings files through \<open>ConfigSync\<close>. What a device has reconciled is in its \<open>LocalSyncState\<close>; versions that nobody else
  has are kept in recovery copies. All documents connect through a multiplexer of WebSockets, behind a compatibility gate and with tokens bound to a document's epoch.
  The command line tool (\<open>src/packages/cli\<close>) pulls and pushes a folder over HTTP, and the SDK (\<open>src/packages/sdk\<close>) streams text into notes.

  \<^bold>\<open>How code is modelled.\<close> Every definition is executable and named after the function it translates. Strings are lists of 16-bit code units, Maps are
  association lists in insertion order, objects are records, errors are values. Code that is not in the repository (Yjs types, the line diff, SHA-256, lib0's codecs, YAML,
  Obsidian's \<open>normalizePath\<close> and \<open>extension\<close>, random guids, the server) is an argument, and what is relied on of it is a named hypothesis or the assumption of a locale
  that is interpreted on a concrete instance. Asynchronous code is modelled in one of three ways:
  \<^item> as a step relation on explicit states, where the class is a small state machine (gate, tokens, multiplexer, limiter, streaming);
  \<^item> as sequences of calls with what else happens at each \<open>await\<close> given by a script (theory \<open>Async_Script\<close>: settings and attachments), so that a theorem for
    all scripts is one for all interleavings with others;
  \<^item> as concurrent tasks in continuation-passing style (theory \<open>Async_Tasks\<close>: documents and the vault), where any task may run between two awaits, calls to the outside fail as a
    given sequence says, and the state carries the trace of what was done. The locale \<open>traced\<close> proves once that code built from the combinators keeps an invariant of
    state and trace in every interleaving.

  \<^bold>\<open>The theories.\<close>
  \<^item> \<open>Js_Prelude\<close>: JavaScript strings, maps, numbers and JSON; the locale \<open>dictionary\<close>. \<open>Async_Script\<close>, \<open>Async_Tasks\<close>: asynchronous code, as above.
  \<^item> \<open>Text_Merge\<close> (\<open>textMerge.ts\<close>): the three-way merge of notes refines the application of both sides' edits, is symmetric, and never drops lines without a base.
    \<open>Text_Diff\<close> (\<open>diff.ts\<close>): a text is written into a shared text exactly, without cutting surrogate pairs.
  \<^item> \<open>Structured_Merge\<close>, \<open>Structured_Reconcile\<close> (\<open>structured/reconcile.ts\<close>): the merge of JSON values is three-way at every path, symmetric, and keeps local edits;
    reconciling writes the value and a second time nothing. \<open>Canvas\<close> (\<open>structured/canvas.ts\<close>) and \<open>Canvas_Operations\<close> (\<open>structured/canvasOperations.ts\<close>): round trips,
    what a snapshot does to each item, and that operations keep a canvas canonical.
  \<^item> \<open>Local_Sync_State\<close> (\<open>localSyncState.ts\<close>), \<open>Document_Epoch\<close> (\<open>documentEpoch.ts\<close>), \<open>Version_Lineage\<close> (\<open>lineage.ts\<close> and the decisions of \<open>ConfigSync\<close>),
    \<open>Bootstrap_Events\<close> (\<open>bootstrapEvents.ts\<close>), \<open>Conflict_Recovery\<close> (\<open>conflictRecovery.ts\<close>, \<open>vaultHelpers.ts\<close>, \<open>glob.ts\<close>), \<open>Config_Categories\<close>
    (\<open>configCategories.ts\<close>), \<open>Capabilities\<close> (\<open>caps.ts\<close>): the stores, decisions and tables, with invariants over all histories of operations.
  \<^item> \<open>Compatibility_Gate\<close> (\<open>sync/compatibilityGate.ts\<close>), \<open>Client_Token\<close> (\<open>sync/clientToken.ts\<close>), \<open>Mux_Frames\<close>, \<open>Mux_Connection\<close>, \<open>Mux_Pacing\<close>
    (\<open>sync/mux.ts\<close>), \<open>Transfer_Limiter\<close> (in \<open>BinarySync.ts\<close>), \<open>Note_Stream\<close> (\<open>packages/sdk/src/stream.ts\<close>): state machines with their invariants, bounds and round trips.
  \<^item> \<open>Config_Sync\<close> (\<open>ConfigSync.ts\<close>) and \<open>Binary_Sync\<close> (\<open>BinarySync.ts\<close>): in every interleaving each upload, publication, download and deletion is justified; an
    undisturbed reconciliation of a settings file converges.
  \<^item> \<open>Synced_Doc\<close> (\<open>SyncedDoc.ts\<close>), \<open>Disk_Writer\<close> (what \<open>Document.ts\<close> and \<open>StructuredDocument.ts\<close> share about the disk), \<open>Text_Document\<close> (\<open>Document.ts\<close>) and
    \<open>Structured_Document\<close> (\<open>StructuredDocument.ts\<close>, \<open>CanvasDocument.ts\<close>, \<open>BaseDocument.ts\<close>, \<open>structured/base.ts\<close>): in every interleaving the file is overwritten, and the shared value
    replaced, only when the version given up is accounted for.
  \<^item> \<open>Vault_Registry\<close> (state and synchronous parts of \<open>VaultSync.ts\<close>), \<open>Vault_Sync\<close> (its handlers) and \<open>Vault_Safety\<close> (their guarantees): in every interleaving deletions,
    renames, publications, index transactions and evictions are justified, and the registry of documents stays sound.
  \<^item> \<open>Cli_Sync\<close> (\<open>packages/cli/src/sync.ts\<close>, \<open>kinds.ts\<close>, \<open>attachmentFilter.ts\<close>): a pull keeps local edits and a push overwrites only what the last sync has seen.

  Lemmas that exhibit where the code falls short of its comments stand at the end of the theories concerned (for example \<open>Vault_Safety\<close>, \<open>Structured_Document\<close>,
  \<open>Canvas_Operations\<close>, \<open>Note_Stream\<close>).

  \<^bold>\<open>Bounds.\<close> Loops that the code ends only when others stop interfering (folding a disk edit, writing until the content is current, preserving versions, coalesced
  remote deletes) take a number; a task that exhausts it waits forever, and since the theorems hold for every number and every finite run uses finitely many rounds, each run of the code is
  a run of the model for a large enough number. Other loops are recursions over lists or terminate by a measure: the search for a free name of a recovery copy ends because only finitely many are taken, and the queue's
  loop runs once per free slot. The scripts of \<open>Async_Script\<close> are finite; what happens after their end is nothing.

  \<^bold>\<open>Not modelled.\<close> The Rust server, a program of its own. The provider of the Yjs protocol (\<open>sync/RealtimeProvider.ts\<close>): its protocol is that of external packages, and documents see it as
  flags. Obsidian and editor integration and all user interface (\<open>main.ts\<close>, \<open>settings.tsx\<close>, \<open>presence.tsx\<close>, \<open>history\<close>, \<open>editor\<close>, modals): patches of views whose behaviour is not documented; what
  they call on documents is an event of the models. HTTP clients and login flows (\<open>auth.ts\<close>, \<open>packages/sdk/src\<close> but \<open>stream.ts\<close>, the commands of the CLI): single requests whose
  results are arguments. Databases of plugins (\<open>pluginDb\<close>): their state is that of a SQLite extension outside the sources. The web viewer renders only. Of \<open>VaultSync\<close>, the order in which attachments of
  open files are fetched, \<open>waitForItem\<close> and notices; of \<open>ConfigSync\<close> and \<open>BinarySync\<close>, what their theories say. Durable storage (IndexedDB) is awaited and otherwise taken to keep what it is given.
\<close>

end
